(* ===== verification/Prelude.thy ===== *)
theory Prelude
  imports Complex_Main "HOL-Library.AList" "HOL-Library.Monad_Syntax"
begin

text \<open>
  Shared vocabulary of the development: the Python scalars the storage code reads from
  places it does not control (an entry's header, a log line), insertion-ordered
  dictionaries, and the generic facts about both that the component theories use.

  Seconds, timestamps and byte rates are Python floats in the code. Where the code
  computes with them they are modelled as \<^typ>\<open>real\<close> (exact arithmetic, no rounding);
  where a value comes from outside and may be infinite or not a number it is a
  \<open>pyfloat\<close>. Byte counts are Python integers, modelled as \<^typ>\<open>int\<close>.
\<close>

named_theorems dict_simps \<open>lookup, keys and sizes of insertion-ordered dictionaries\<close>
named_theorems pyfloat_simps \<open>comparisons of Python floats\<close>

type_synonym bytes_t = int
type_synonym seconds = real

subsection \<open>Python floats and scalars\<close>

text \<open>A Python float: a finite value, an infinity, or not a number.\<close>

datatype pyfloat = Fin real | PInf | NInf | NaN

fun py_lt :: "pyfloat \<Rightarrow> pyfloat \<Rightarrow> bool" where
  "py_lt NaN _ = False"
| "py_lt _ NaN = False"
| "py_lt (Fin a) (Fin b) = (a < b)"
| "py_lt (Fin _) PInf = True"
| "py_lt (Fin _) NInf = False"
| "py_lt PInf _ = False"
| "py_lt NInf NInf = False"
| "py_lt NInf _ = True"

fun py_le :: "pyfloat \<Rightarrow> pyfloat \<Rightarrow> bool" where
  "py_le NaN _ = False"
| "py_le _ NaN = False"
| "py_le (Fin a) (Fin b) = (a \<le> b)"
| "py_le (Fin _) PInf = True"
| "py_le (Fin _) NInf = False"
| "py_le PInf PInf = True"
| "py_le PInf _ = False"
| "py_le NInf _ = True"

text \<open>Python's two-argument \<open>min\<close> and \<open>max\<close> keep the first argument unless the second
  is strictly smaller (larger).\<close>

definition py_min :: "pyfloat \<Rightarrow> pyfloat \<Rightarrow> pyfloat" where
  "py_min a b = (if py_lt b a then b else a)"

definition py_max :: "pyfloat \<Rightarrow> pyfloat \<Rightarrow> pyfloat" where
  "py_max a b = (if py_lt a b then b else a)"

text \<open>Float arithmetic, exact on finite values and IEEE on the others.\<close>

fun py_neg :: "pyfloat \<Rightarrow> pyfloat" where
  "py_neg (Fin a) = Fin (- a)"
| "py_neg PInf = NInf"
| "py_neg NInf = PInf"
| "py_neg NaN = NaN"

fun py_add :: "pyfloat \<Rightarrow> pyfloat \<Rightarrow> pyfloat" where
  "py_add NaN _ = NaN"
| "py_add _ NaN = NaN"
| "py_add (Fin a) (Fin b) = Fin (a + b)"
| "py_add PInf NInf = NaN"
| "py_add NInf PInf = NaN"
| "py_add PInf _ = PInf"
| "py_add NInf _ = NInf"
| "py_add (Fin _) b = b"

definition py_sub :: "pyfloat \<Rightarrow> pyfloat \<Rightarrow> pyfloat" where
  "py_sub a b = py_add a (py_neg b)"

definition py_scale :: "real \<Rightarrow> pyfloat \<Rightarrow> pyfloat" where
  "py_scale a b = (case b of
       Fin c \<Rightarrow> Fin (a * c)
     | NaN \<Rightarrow> NaN
     | _ \<Rightarrow> if a = 0 then NaN else if 0 < a then b else py_neg b)"

lemma py_arith_Fin [simp]:
  "py_sub (Fin a) (Fin b) = Fin (a - b)" "py_scale a (Fin b) = Fin (a * b)"
  "py_max (Fin a) (Fin b) = Fin (max a b)" "py_min (Fin a) (Fin b) = Fin (min a b)"
  by (auto simp: py_sub_def py_scale_def py_max_def py_min_def max_def min_def)

lemma py_lt_irrefl [simp, pyfloat_simps]: "\<not> py_lt a a"
  by (cases a) auto

lemma py_lt_trans: "py_lt a b \<Longrightarrow> py_lt b c \<Longrightarrow> py_lt a c"
  by (cases a; cases b; cases c) auto

lemma py_le_lt_trans: "py_le a b \<Longrightarrow> py_lt b c \<Longrightarrow> py_lt a c"
  by (cases a; cases b; cases c) auto

lemma py_lt_le_trans: "py_lt a b \<Longrightarrow> py_le b c \<Longrightarrow> py_lt a c"
  by (cases a; cases b; cases c) auto

lemma py_le_trans: "py_le a b \<Longrightarrow> py_le b c \<Longrightarrow> py_le a c"
  by (cases a; cases b; cases c) auto

lemma py_not_lt [pyfloat_simps]: "a \<noteq> NaN \<Longrightarrow> b \<noteq> NaN \<Longrightarrow> \<not> py_lt a b \<longleftrightarrow> py_le b a"
  by (cases a; cases b) auto

lemma py_min_lt_iff [pyfloat_simps]:
  "a \<noteq> NaN \<Longrightarrow> b \<noteq> NaN \<Longrightarrow> py_lt (py_min a b) c \<longleftrightarrow> py_lt a c \<or> py_lt b c"
  by (cases a; cases b; cases c) (auto simp: py_min_def)

lemma py_min_le_iff [pyfloat_simps]:
  "a \<noteq> NaN \<Longrightarrow> b \<noteq> NaN \<Longrightarrow> py_le (py_min a b) c \<longleftrightarrow> py_le a c \<or> py_le b c"
  by (cases a; cases b; cases c) (auto simp: py_min_def)

lemma py_min_not_NaN: "a \<noteq> NaN \<Longrightarrow> b \<noteq> NaN \<Longrightarrow> py_min a b \<noteq> NaN"
  by (simp add: py_min_def)

text \<open>
  The text of a token, by how \<open>int()\<close> and \<open>float()\<close> read it: a decimal integer, any
  other number literal (\<open>nan\<close> and \<open>inf\<close> included), or a word neither accepts. Python
  prints a float so that \<open>float\<close> reads the same value back, so a number token carries
  its value.
\<close>

datatype tok = TWord string | TInt int | TFlt pyfloat

text \<open>\<open>float(text)\<close> and \<open>int(text)\<close>; \<open>None\<close> is the \<open>ValueError\<close>.\<close>

fun py_float :: "tok \<Rightarrow> pyfloat option" where
  "py_float (TWord _) = None"
| "py_float (TInt n) = Some (Fin (of_int n))"
| "py_float (TFlt f) = Some f"

fun py_int :: "tok \<Rightarrow> int option" where
  "py_int (TInt n) = Some n"
| "py_int _ = None"

text \<open>\<open>math.isfinite\<close>, and the finite value itself.\<close>

fun finite_float :: "pyfloat \<Rightarrow> real option" where
  "finite_float (Fin r) = Some r"
| "finite_float _ = None"

text \<open>A Python scalar met where any object may stand: \<open>VObj\<close> is an object that is none
  of the others (and is true as a condition).\<close>

datatype pyval = VNone | VBool bool | VInt int | VFlt pyfloat | VStr tok | VObj

text \<open>Truth of a scalar as a condition: \<open>None\<close>, \<open>False\<close>, zero and the empty string are
  false.\<close>

fun truthy :: "pyval \<Rightarrow> bool" where
  "truthy VNone = False"
| "truthy (VBool b) = b"
| "truthy (VInt n) = (n \<noteq> 0)"
| "truthy (VFlt f) = (f \<noteq> Fin 0)"
| "truthy (VStr t) = (t \<noteq> TWord [])"
| "truthy VObj = True"

subsection \<open>Dictionaries in insertion order\<close>

text \<open>
  A Python dict whose order is observed is an association list: \<open>d[k] = v\<close> is
  \<^const>\<open>AList.update\<close> (in place, or at the end for a new key), \<open>d.pop(k, None)\<close> is
  \<^const>\<open>AList.delete\<close>, and lookup is \<^const>\<open>map_of\<close>. The idiom
  \<open>d.pop(k, None); d[k] = v\<close> moves the key to the end.
\<close>

definition dict_push :: "'k \<Rightarrow> 'v \<Rightarrow> ('k \<times> 'v) list \<Rightarrow> ('k \<times> 'v) list" where
  "dict_push k v d = AList.delete k d @ [(k, v)]"

abbreviation dict_ok :: "('k \<times> 'v) list \<Rightarrow> bool" where
  "dict_ok d \<equiv> distinct (map fst d)"

lemma dict_keys_delete [dict_simps]: "fst ` set (AList.delete k d) = fst ` set d - {k}"
  by (auto simp: AList.delete_eq)

lemma map_of_delete [dict_simps]: "map_of (AList.delete k d) = (map_of d)(k := None)"
  by (rule AList.delete_conv')

lemma map_of_update [dict_simps]: "map_of (AList.update k v d) = (map_of d)(k \<mapsto> v)"
  by (rule AList.update_conv')

lemma map_of_push [dict_simps]: "map_of (dict_push k v d) = (map_of d)(k \<mapsto> v)"
  by (rule ext) (auto simp: dict_push_def map_of_delete map_add_def split: option.splits)

lemma dict_ok_delete [dict_simps]: "dict_ok d \<Longrightarrow> dict_ok (AList.delete k d)"
  by (rule AList.distinct_delete)

lemma dict_ok_update [dict_simps]: "dict_ok d \<Longrightarrow> dict_ok (AList.update k v d)"
  by (rule AList.distinct_update)

lemma dict_ok_push [dict_simps]: "dict_ok d \<Longrightarrow> dict_ok (dict_push k v d)"
  using dict_ok_delete [of d k] by (auto simp: dict_push_def dict_keys_delete)

lemma dict_keys_push [dict_simps]: "fst ` set (dict_push k v d) = insert k (fst ` set d)"
  by (auto simp: dict_push_def AList.delete_eq image_iff)

lemma delete_notin: "k \<notin> fst ` set d \<Longrightarrow> AList.delete k d = d"
  by (rule AList.delete_id)

lemma push_fresh: "k \<notin> fst ` set d \<Longrightarrow> dict_push k v d = d @ [(k, v)]"
  by (simp add: dict_push_def delete_notin)

lemma update_fresh: "k \<notin> fst ` set d \<Longrightarrow> AList.update k v d = d @ [(k, v)]"
  by (induction d) auto

lemma length_delete_in:
  "dict_ok d \<Longrightarrow> k \<in> fst ` set d \<Longrightarrow> Suc (length (AList.delete k d)) = length d"
  by (induction d) (auto simp: delete_notin)

text \<open>The order of a pushed dictionary: the pushed key is its last.\<close>

lemma last_push [simp]: "last (dict_push k v d) = (k, v)"
  by (simp add: dict_push_def)

lemma push_not_Nil [simp]: "dict_push k v d \<noteq> []"
  by (simp add: dict_push_def)

subsection \<open>Sums over dictionaries\<close>

text \<open>The total of a measure over a dictionary's items, for byte accounting.\<close>

definition dict_total :: "('v \<Rightarrow> int) \<Rightarrow> ('k \<times> 'v) list \<Rightarrow> int" where
  "dict_total f d = sum_list (map (f \<circ> snd) d)"

lemma dict_total_Nil [simp]: "dict_total f [] = 0"
  by (simp add: dict_total_def)

lemma dict_total_Cons [simp]: "dict_total f ((k, v) # d) = f v + dict_total f d"
  by (simp add: dict_total_def)

lemma dict_total_append [simp]: "dict_total f (d @ e) = dict_total f d + dict_total f e"
  by (simp add: dict_total_def)

lemma dict_total_delete:
  "dict_ok d \<Longrightarrow> dict_total f (AList.delete k d) =
     dict_total f d - (case map_of d k of None \<Rightarrow> 0 | Some v \<Rightarrow> f v)"
proof (induction d)
  case Nil
  then show ?case by simp
next
  case (Cons p d)
  obtain a v where p: "p = (a, v)" by (cases p)
  show ?case
  proof (cases "a = k")
    case True
    with Cons.prems p have "AList.delete k d = d" by (simp add: delete_notin)
    with True p show ?thesis by simp
  next
    case False
    with Cons p show ?thesis by simp
  qed
qed

lemma dict_total_push:
  "dict_ok d \<Longrightarrow> dict_total f (dict_push k v d) =
     dict_total f d - (case map_of d k of None \<Rightarrow> 0 | Some w \<Rightarrow> f w) + f v"
  by (simp add: dict_push_def dict_total_delete)

lemma dict_total_nonneg:
  assumes "\<And>k v. (k, v) \<in> set d \<Longrightarrow> 0 \<le> f v"
  shows "0 \<le> dict_total f d"
  unfolding dict_total_def by (rule sum_list_nonneg) (use assms in auto)

subsection \<open>Results\<close>

text \<open>Code that raises returns a sum: \<open>Inl\<close> the error, \<open>Inr\<close> the value. \<open>and_then\<close> runs
  the rest of a function after a call that may raise, \<open>require\<close> is a guard that raises.\<close>

fun and_then :: "'e + 'a \<Rightarrow> ('a \<Rightarrow> 'e + 'b) \<Rightarrow> 'e + 'b" where
  "and_then (Inl e) f = Inl e"
| "and_then (Inr x) f = f x"

fun require :: "bool \<Rightarrow> 'e \<Rightarrow> 'e + unit" where
  "require True e = Inr ()"
| "require False e = Inl e"

named_theorems result_simps \<open>when a sequence of fallible calls returns a value\<close>

lemma and_then_Inr [result_simps]: "and_then r f = Inr y \<longleftrightarrow> (\<exists>x. r = Inr x \<and> f x = Inr y)"
  by (cases r) auto

lemma require_Inr [result_simps]: "require b e = Inr u \<longleftrightarrow> b"
  by (cases b) auto

lemma require_then: "and_then (require b e) f = (if b then f () else Inl e)"
  by (cases b) auto

end
