(* ===== verification/Entry_Meta.thy ===== *)
theory Entry_Meta
  imports Prelude
begin

text \<open>
  The metadata every backend stores with a value, the ttl rule every cache path applies,
  and the value-per-byte term both eviction rankings share
  (\<open>src/cash/backends/_base.py\<close>).

  \<open>entry_metadata\<close> is the \<open>EntryMetadata\<close> dict: a field that may be absent is an
  option, a flag read for its truth is a \<^typ>\<open>bool\<close>, and the fields that are read
  defensively because another process or version wrote them (the ttl and the two
  costs) hold any Python scalar, \<open>VNone\<close> when absent.
\<close>

named_theorems meta_defs \<open>definitions of the metadata rules\<close>

text \<open>The codec an entry's payload is compressed with: \<open>OtherCodec\<close> is a name this version does not know.\<close>

datatype codec = Gzip | Zlib | Zstd | OtherCodec string

record entry_metadata =
  m_key :: "string option"
  m_created_at :: "seconds option"
  m_last_access :: "seconds option"
  m_access_count :: "int option"
  m_size :: "bytes_t option"
  m_ttl :: pyval
  m_ttl_declared :: bool
  m_source :: "string option"
  m_storage :: "string list option"
  m_execution_time :: pyval
  m_store_time :: pyval
  m_timestamp :: "seconds option"
  m_metadata_only :: bool
  m_version_slot :: "string option"
  m_by_reference :: bool
  m_force_persist :: bool
  m_decorator_entry :: bool
  m_defer_persist :: bool
  m_process_local :: bool
  m_cost_model_family :: "string option"
  m_cost_model_type_name :: "string option"
  m_cost_model_size_bytes :: "bytes_t option"
  m_measured_round_trip :: "seconds option"
  m_call_refs :: "string list"
  m_call_ref_bytes :: "bytes_t option"
  m_referenced :: bool
  m_value_bytes :: "bytes_t option"
  m_value_bytes_estimated :: bool
  m_serialized_estimate :: "bytes_t option"
  m_rebuild_time :: "seconds option"
  m_persist_skipped :: "string option"
  m_store_errors :: "string list option"
  m_disk_alone :: bool
  m_copy_required :: bool
  m_no_private_copy :: bool
  m_round_trip_class :: "string option"
  m_compressed :: "codec option"

text \<open>The empty dict.\<close>

definition no_metadata :: entry_metadata where
  "no_metadata = \<lparr>
     m_key = None, m_created_at = None, m_last_access = None, m_access_count = None,
     m_size = None, m_ttl = VNone, m_ttl_declared = False, m_source = None,
     m_storage = None, m_execution_time = VNone, m_store_time = VNone,
     m_timestamp = None, m_metadata_only = False, m_version_slot = None,
     m_by_reference = False, m_force_persist = False, m_decorator_entry = False,
     m_defer_persist = False, m_process_local = False, m_cost_model_family = None,
     m_cost_model_type_name = None, m_cost_model_size_bytes = None,
     m_measured_round_trip = None, m_call_refs = [], m_call_ref_bytes = None,
     m_referenced = False, m_value_bytes = None, m_value_bytes_estimated = False,
     m_serialized_estimate = None, m_rebuild_time = None, m_persist_skipped = None,
     m_store_errors = None, m_disk_alone = False, m_copy_required = False,
     m_no_private_copy = False, m_round_trip_class = None, m_compressed = None\<rparr>"

subsection \<open>What keeping an entry saves\<close>

text \<open>\<open>float(v)\<close>; \<open>None\<close> is the \<open>TypeError\<close> or \<open>ValueError\<close>.\<close>

fun float_of_val :: "pyval \<Rightarrow> pyfloat option" where
  "float_of_val VNone = None"
| "float_of_val (VBool b) = Some (Fin (if b then 1 else 0))"
| "float_of_val (VInt n) = Some (Fin (of_int n))"
| "float_of_val (VFlt f) = Some f"
| "float_of_val (VStr t) = py_float t"
| "float_of_val VObj = None"

definition store_seconds :: "entry_metadata \<Rightarrow> pyfloat" where
  "store_seconds m =
     (let seconds = (if m_store_time m = VNone then m_execution_time m else m_store_time m)
      in if truthy seconds
         then (case float_of_val seconds of None \<Rightarrow> Fin 0 | Some f \<Rightarrow> f)
         else Fin 0)"

definition UNKNOWN_COST_S :: real where
  "UNKNOWN_COST_S = 1 / 1000"

definition GDSF_STEPS_PER_OCTAVE :: real where
  "GDSF_STEPS_PER_OCTAVE = 16"

text \<open>
  The value term of the eviction priority. \<open>None\<close> is an exception of the float
  arithmetic: \<open>math.log2\<close> of a value that is not positive, or \<open>math.floor\<close> of an
  infinity or a NaN.
\<close>

definition gdsf_value :: "entry_metadata \<Rightarrow> bytes_t \<Rightarrow> real option" where
  "gdsf_value m sz =
     (let cost = (if py_le (store_seconds m) (Fin 0) then Fin UNKNOWN_COST_S else store_seconds m);
          hits = (case m_access_count m of None \<Rightarrow> 0 | Some n \<Rightarrow> n) + 1
      in case cost of
           Fin c \<Rightarrow>
             (let value = of_int hits * c / of_int (max 1 sz)
              in if value \<le> 0 then None
                 else Some (2 powr (of_int \<lfloor>log 2 value * GDSF_STEPS_PER_OCTAVE\<rfloor>
                                      / GDSF_STEPS_PER_OCTAVE)))
         | _ \<Rightarrow> None)"

subsection \<open>The ttl rule\<close>

definition stored_ttl :: "pyval \<Rightarrow> pyfloat option" where
  "stored_ttl v = (case v of
       VNone \<Rightarrow> None
     | VInt n \<Rightarrow> Some (Fin (of_int n))
     | VFlt f \<Rightarrow> Some (if f = NaN then Fin 0 else f)
     | _ \<Rightarrow> Some (Fin 0))"

definition ttl_expired :: "seconds option \<Rightarrow> pyval \<Rightarrow> seconds \<Rightarrow> bool" where
  "ttl_expired timestamp ttl now = (case stored_ttl ttl of
       None \<Rightarrow> False
     | Some l \<Rightarrow>
         if py_le l (Fin 0) then True
         else py_lt l (Fin (now - (case timestamp of None \<Rightarrow> 0 | Some t \<Rightarrow> t))))"

text \<open>The ttl of an entry as the rule hands it on: a number of seconds or nothing.\<close>

fun ttl_val :: "pyfloat option \<Rightarrow> pyval" where
  "ttl_val None = VNone"
| "ttl_val (Some f) = VFlt f"

definition effective_ttl :: "entry_metadata \<Rightarrow> pyfloat option \<Rightarrow> pyval \<Rightarrow> pyfloat option" where
  "effective_ttl m tier_default current =
     (if current \<noteq> VNone then stored_ttl current
      else let written = stored_ttl (m_ttl m)
           in case tier_default of
                None \<Rightarrow> written
              | Some d \<Rightarrow>
                  if m_ttl_declared m then written
                  else (case written of None \<Rightarrow> Some d | Some w \<Rightarrow> Some (py_min w d)))"

definition written_at :: "entry_metadata \<Rightarrow> seconds option" where
  "written_at m = (case m_created_at m of None \<Rightarrow> m_timestamp m | Some t \<Rightarrow> Some t)"

definition entry_expired :: "entry_metadata \<Rightarrow> pyfloat option \<Rightarrow> seconds \<Rightarrow> pyval \<Rightarrow> bool" where
  "entry_expired m tier_default now current =
     ttl_expired (written_at m) (ttl_val (effective_ttl m tier_default current)) now"

subsection \<open>The header fields a backend stamps\<close>

definition init_metadata :: "entry_metadata option \<Rightarrow> string \<Rightarrow> seconds \<Rightarrow> entry_metadata" where
  "init_metadata metadata key now =
     (let m = (case metadata of None \<Rightarrow> no_metadata | Some m \<Rightarrow> m);
          m = m\<lparr>m_key := Some key\<rparr>;
          m = (if m_created_at m = None then m\<lparr>m_created_at := Some now\<rparr> else m);
          m = (if m_last_access m = None then m\<lparr>m_last_access := Some now\<rparr> else m)
      in if m_access_count m = None then m\<lparr>m_access_count := Some 0\<rparr> else m)"

lemmas [meta_defs] = stored_ttl_def ttl_expired_def effective_ttl_def written_at_def
  entry_expired_def

subsection \<open>Lemmas on the ttl rule\<close>

lemma stored_ttl_not_NaN: "stored_ttl v = Some f \<Longrightarrow> f \<noteq> NaN"
  by (auto simp: stored_ttl_def split: pyval.splits if_splits)

lemma stored_ttl_ttl_val:
  "f \<noteq> NaN \<Longrightarrow> stored_ttl (ttl_val (Some f)) = Some f" "stored_ttl (ttl_val None) = None"
  by (auto simp: stored_ttl_def)

lemma stored_ttl_idem: "stored_ttl (ttl_val (stored_ttl v)) = stored_ttl v"
proof (cases "stored_ttl v")
  case None
  then show ?thesis by (simp add: stored_ttl_def)
next
  case (Some f)
  from stored_ttl_not_NaN [OF Some] Some show ?thesis
    by (simp add: stored_ttl_def)
qed

lemma ttl_expired_later:
  assumes "ttl_expired ts ttl now" and "now \<le> later"
  shows "ttl_expired ts ttl later"
proof (cases "stored_ttl ttl")
  case None
  with assms(1) show ?thesis by (simp add: ttl_expired_def)
next
  case (Some l)
  let ?ts = "case ts of None \<Rightarrow> 0 | Some t \<Rightarrow> t"
  have le: "py_le (Fin (now - ?ts)) (Fin (later - ?ts))" using assms(2) by simp
  from Some assms(1) have "py_le l (Fin 0) \<or> py_lt l (Fin (now - ?ts))"
    by (simp add: ttl_expired_def split: if_splits)
  with Some le show ?thesis
    by (auto simp: ttl_expired_def intro: py_lt_le_trans)
qed

text \<open>A shorter of two ttls expires exactly when one of them has.\<close>

lemma ttl_expired_min:
  assumes "w \<noteq> NaN" and "d \<noteq> NaN"
  shows "ttl_expired ts (ttl_val (Some (py_min w d))) now \<longleftrightarrow>
    ttl_expired ts (ttl_val (Some w)) now \<or> ttl_expired ts (ttl_val (Some d)) now"
  using assms py_min_not_NaN [OF assms]
  by (auto simp: ttl_expired_def stored_ttl_def py_min_lt_iff py_min_le_iff)

subsection \<open>Lemmas on the value term\<close>

text \<open>The unrounded value the code takes the logarithm of.\<close>

definition raw_value :: "entry_metadata \<Rightarrow> bytes_t \<Rightarrow> real option" where
  "raw_value m sz =
     (case (if py_le (store_seconds m) (Fin 0) then Fin UNKNOWN_COST_S else store_seconds m) of
        Fin c \<Rightarrow> Some (of_int ((case m_access_count m of None \<Rightarrow> 0 | Some n \<Rightarrow> n) + 1) * c
                         / of_int (max 1 sz))
      | _ \<Rightarrow> None)"

definition step_down :: "real \<Rightarrow> real" where
  "step_down v = 2 powr (of_int \<lfloor>log 2 v * 16\<rfloor> / 16)"

lemma gdsf_value_raw:
  "gdsf_value m sz = (case raw_value m sz of None \<Rightarrow> None
     | Some v \<Rightarrow> if v \<le> 0 then None else Some (step_down v))"
  by (simp add: gdsf_value_def raw_value_def step_down_def GDSF_STEPS_PER_OCTAVE_def Let_def
      split: pyfloat.splits)

lemma step_down_bounds:
  assumes "0 < v"
  shows "step_down v \<le> v" and "v < step_down v * 2 powr (1 / 16)" and "0 < step_down v"
proof -
  let ?n = "\<lfloor>log 2 v * 16\<rfloor>"
  have lo: "of_int ?n / 16 \<le> log 2 v" using of_int_floor_le [of "log 2 v * 16"] by simp
  have hi: "log 2 v < of_int ?n / 16 + 1 / 16"
    using floor_correct [of "log 2 v * 16"] by (simp add: field_simps)
  have v: "2 powr (log 2 v) = v" using assms by simp
  show "step_down v \<le> v"
    using lo v powr_mono [of "of_int ?n / 16" "log 2 v" 2] by (simp add: step_down_def)
  show "v < step_down v * 2 powr (1 / 16)"
    using hi v powr_less_mono [of "log 2 v" "of_int ?n / 16 + 1 / 16" 2]
    by (simp add: step_down_def powr_add)
  show "0 < step_down v" by (simp add: step_down_def)
qed

lemma step_down_mono: "0 < v \<Longrightarrow> v \<le> w \<Longrightarrow> step_down v \<le> step_down w"
  by (simp add: step_down_def floor_mono mult_right_mono powr_mono)

lemma step_down_pow2: "step_down (2 powr of_int k) = 2 powr of_int k"
proof -
  have "log 2 (2 powr of_int k) * 16 = of_int (k * 16)" by simp
  then have "\<lfloor>log 2 (2 powr of_int k) * 16\<rfloor> = k * 16" by (metis floor_of_int)
  then show ?thesis by (simp add: step_down_def)
qed

subsection \<open>Properties\<close>

text \<open>
  an entry without a ttl of its own decorator is served under the shorter of the ttl
  it was written with and the tier's current default: it has expired exactly when one of
  the two has run out since it was written, so lowering a tier's default shortens
  entries already written and raising it never revives one.
\<close>

theorem entry_expired_shorter_ttl:
  assumes "\<not> m_ttl_declared m" and "d \<noteq> NaN"
  shows "entry_expired m (Some d) now VNone \<longleftrightarrow>
    ttl_expired (written_at m) (m_ttl m) now \<or> ttl_expired (written_at m) (VFlt d) now"
proof (cases "stored_ttl (m_ttl m)")
  case None
  with assms show ?thesis by (simp add: entry_expired_def effective_ttl_def ttl_expired_def)
next
  case (Some w)
  with assms have "effective_ttl m (Some d) VNone = Some (py_min w d)"
    by (simp add: effective_ttl_def)
  moreover have "ttl_expired (written_at m) (ttl_val (Some w)) now =
      ttl_expired (written_at m) (m_ttl m) now"
    using stored_ttl_idem [of "m_ttl m"] Some by (simp add: ttl_expired_def)
  ultimately show ?thesis
    using ttl_expired_min [OF stored_ttl_not_NaN [OF Some] assms(2)]
    by (simp add: entry_expired_def)
qed

theorem entry_expired_shorter_ttl_witness:
  "entry_expired (no_metadata\<lparr>m_created_at := Some 100, m_ttl := VInt 60\<rparr>) (Some (Fin 30)) 140 VNone"
  using entry_expired_shorter_ttl
    [of "no_metadata\<lparr>m_created_at := Some 100, m_ttl := VInt 60\<rparr>" "Fin 30" 140]
  by (simp add: no_metadata_def ttl_expired_def stored_ttl_def written_at_def)

text \<open>
  The ttl rule is monotone in time and decided by the running function's own ttl when
  one is given: an entry that has expired stays expired at any later moment, a ttl of
  zero or less (or one that is not a number) is never fresh whatever the clock says, and
  a function's current ttl overrides both what was written and the tier's default.
\<close>

theorem entry_expired_monotone:
  "(entry_expired m td now cur \<longrightarrow> now \<le> later \<longrightarrow> entry_expired m td later cur) \<and>
   (stored_ttl cur = Some l \<longrightarrow> py_le l (Fin 0) \<longrightarrow> entry_expired m td now cur) \<and>
   (cur \<noteq> VNone \<longrightarrow> entry_expired m td now cur = ttl_expired (written_at m) cur now)"
proof (intro conjI impI)
  show "entry_expired m td now cur \<Longrightarrow> now \<le> later \<Longrightarrow> entry_expired m td later cur"
    unfolding entry_expired_def by (rule ttl_expired_later)
next
  assume l: "stored_ttl cur = Some l" "py_le l (Fin 0)"
  then have "cur \<noteq> VNone" "l \<noteq> NaN"
    using stored_ttl_not_NaN [OF l(1)] by (auto simp: stored_ttl_def)
  with l show "entry_expired m td now cur"
    by (simp add: entry_expired_def effective_ttl_def ttl_expired_def) (simp add: stored_ttl_def)
next
  assume "cur \<noteq> VNone"
  then show "entry_expired m td now cur = ttl_expired (written_at m) cur now"
    using stored_ttl_idem [of cur] by (simp add: entry_expired_def effective_ttl_def ttl_expired_def)
qed

theorem entry_expired_monotone_witness:
  "entry_expired (no_metadata\<lparr>m_created_at := Some 5\<rparr>) None 9 (VInt 3)"
  using entry_expired_monotone
    [of "no_metadata\<lparr>m_created_at := Some 5\<rparr>" None "9" "VInt 3" 9 "Fin 3"]
  by (simp add: no_metadata_def ttl_expired_def stored_ttl_def written_at_def)

text \<open>
  The value term of the eviction priority is the seconds the entry saves per byte,
  times its uses, rounded down by at most one sixteenth of an octave; it is positive, and
  it is defined whenever the recorded cost is a finite number and the use count is not
  negative (an entry of unknown or non-positive cost counts as one millisecond).
\<close>

theorem gdsf_value_bounds:
  assumes cost: "store_seconds m = Fin c" and hits: "m_access_count m = Some n" "0 \<le> n"
  shows "\<exists>g. gdsf_value m sz = Some g \<and> 0 < g \<and>
    (let v = of_int (n + 1) * (if c \<le> 0 then UNKNOWN_COST_S else c) / of_int (max 1 sz)
     in g \<le> v \<and> v < g * 2 powr (1 / 16))"
proof -
  let ?v = "of_int (n + 1) * (if c \<le> 0 then UNKNOWN_COST_S else c) / of_int (max 1 sz) :: real"
  have pos: "0 < ?v" using hits by (simp add: UNKNOWN_COST_S_def)
  have "raw_value m sz = Some ?v" using cost hits by (simp add: raw_value_def)
  then have "gdsf_value m sz = Some (step_down ?v)"
    unfolding gdsf_value_raw using pos by simp
  with step_down_bounds [OF pos] show ?thesis by (auto simp: Let_def)
qed

theorem gdsf_value_bounds_witness:
  "\<exists>g. gdsf_value (no_metadata\<lparr>m_execution_time := VFlt (Fin 2), m_access_count := Some 3\<rparr>) 100 = Some g
     \<and> 0 < g \<and> g \<le> 8 / 100"
  using gdsf_value_bounds
    [of "no_metadata\<lparr>m_execution_time := VFlt (Fin 2), m_access_count := Some 3\<rparr>" 2 3 100]
  by (auto simp: no_metadata_def store_seconds_def Let_def)

end
