(* ===== verification/Cost_Model.thy ===== *)
theory Cost_Model
  imports Prelude
begin

text \<open>
  The fitted cost model (\<open>src/cash/cost_model.py\<close>): predicted seconds to store and to
  restore a value, linear in its bytes, by the family of its type and the kind of
  backend. The coefficient table is the source's, entry by entry.
\<close>

definition GENERIC_FAMILY :: string where
  "GENERIC_FAMILY = ''_GENERIC''"

definition TYPE_TO_FAMILY :: "(string \<times> string) list" where
  "TYPE_TO_FAMILY =
    [(''DataFrame'', ''dataframe_numeric''),
     (''Series'', ''series_numeric''),
     (''ndarray'', ''ndarray_dense''),
     (''csr_matrix'', ''sparse''),
     (''csc_matrix'', ''sparse''),
     (''dict'', ''dict_shallow''),
     (''list'', ''list_flat''),
     (''tuple'', ''list_flat''),
     (''bytes'', ''bytes''),
     (''bytearray'', ''bytes'')]"

text \<open>\<open>(family, backend_kind, operation) -> (a, b)\<close>: seconds are \<open>a + b * bytes\<close>.\<close>

definition COEFFS :: "((string \<times> string \<times> string) \<times> (real \<times> real)) list" where
  "COEFFS =
    [((''_GENERIC'', ''disk'', ''deserialize''), (547834 / 10 ^ 8, 1583327 / 10 ^ 15)),
     ((''_GENERIC'', ''disk'', ''serialize''), (4820535 / 10 ^ 10, 1497407 / 10 ^ 15)),
     ((''_GENERIC'', ''ram'', ''deserialize''), (5840887 / 10 ^ 12, 2720998 / 10 ^ 15)),
     ((''_GENERIC'', ''ram'', ''serialize''), (1877952 / 10 ^ 11, 1783824 / 10 ^ 14)),
     ((''_GENERIC'', ''redis'', ''deserialize''), (1158999 / 10 ^ 9, 2 / 10 ^ 8)),
     ((''_GENERIC'', ''redis'', ''serialize''), (579369 / 10 ^ 9, 2 / 10 ^ 8)),
     ((''_GENERIC'', ''s3'', ''deserialize''), (81318 / 10 ^ 6, 5 / 10 ^ 8)),
     ((''_GENERIC'', ''s3'', ''serialize''), (8015874 / 10 ^ 8, 5 / 10 ^ 8)),
     ((''bytes'', ''disk'', ''deserialize''), (6589985 / 10 ^ 9, 6508211 / 10 ^ 16)),
     ((''bytes'', ''disk'', ''serialize''), (6787004 / 10 ^ 10, 1192182 / 10 ^ 15)),
     ((''bytes'', ''ram'', ''deserialize''), (5299982 / 10 ^ 12, 0)),
     ((''bytes'', ''ram'', ''serialize''), (1615001 / 10 ^ 11, 0)),
     ((''bytes'', ''redis'', ''deserialize''), (1158999 / 10 ^ 9, 2 / 10 ^ 8)),
     ((''bytes'', ''redis'', ''serialize''), (56787 / 10 ^ 8, 2 / 10 ^ 8)),
     ((''bytes'', ''s3'', ''deserialize''), (81318 / 10 ^ 6, 5 / 10 ^ 8)),
     ((''bytes'', ''s3'', ''serialize''), (8013574 / 10 ^ 8, 5 / 10 ^ 8)),
     ((''dataframe_numeric'', ''disk'', ''deserialize''), (6059236 / 10 ^ 9, 6580528 / 10 ^ 16)),
     ((''dataframe_numeric'', ''disk'', ''serialize''), (4820535 / 10 ^ 10, 1497407 / 10 ^ 15)),
     ((''dataframe_numeric'', ''ram'', ''deserialize''), (1446263 / 10 ^ 11, 2214465 / 10 ^ 16)),
     ((''dataframe_numeric'', ''ram'', ''serialize''), (3578494 / 10 ^ 11, 1316268 / 10 ^ 16)),
     ((''dataframe_numeric'', ''redis'', ''deserialize''), (1105924 / 10 ^ 9, 2 / 10 ^ 8)),
     ((''dataframe_numeric'', ''redis'', ''serialize''), (5482053 / 10 ^ 10, 2 / 10 ^ 8)),
     ((''dataframe_numeric'', ''s3'', ''deserialize''), (8121185 / 10 ^ 8, 5 / 10 ^ 8)),
     ((''dataframe_numeric'', ''s3'', ''serialize''), (8009641 / 10 ^ 8, 5 / 10 ^ 8)),
     ((''dict_shallow'', ''disk'', ''deserialize''), (547834 / 10 ^ 8, 1583327 / 10 ^ 15)),
     ((''dict_shallow'', ''disk'', ''serialize''), (6634816 / 10 ^ 10, 1424603 / 10 ^ 15)),
     ((''dict_shallow'', ''ram'', ''deserialize''), (5840887 / 10 ^ 12, 2720998 / 10 ^ 15)),
     ((''dict_shallow'', ''ram'', ''serialize''), (1877952 / 10 ^ 11, 1783824 / 10 ^ 14)),
     ((''dict_shallow'', ''redis'', ''deserialize''), (1047834 / 10 ^ 9, 2 / 10 ^ 8)),
     ((''dict_shallow'', ''redis'', ''serialize''), (5663482 / 10 ^ 10, 2 / 10 ^ 8)),
     ((''dict_shallow'', ''s3'', ''deserialize''), (8109567 / 10 ^ 8, 5 / 10 ^ 8)),
     ((''dict_shallow'', ''s3'', ''serialize''), (801327 / 10 ^ 7, 5 / 10 ^ 8)),
     ((''list_flat'', ''disk'', ''deserialize''), (5718911 / 10 ^ 9, 8986306 / 10 ^ 16)),
     ((''list_flat'', ''disk'', ''serialize''), (6875598 / 10 ^ 10, 1094875 / 10 ^ 15)),
     ((''list_flat'', ''ram'', ''deserialize''), (9606476 / 10 ^ 12, 9279072 / 10 ^ 16)),
     ((''list_flat'', ''ram'', ''serialize''), (290312 / 10 ^ 10, 3402422 / 10 ^ 15)),
     ((''list_flat'', ''redis'', ''deserialize''), (1071891 / 10 ^ 9, 2 / 10 ^ 8)),
     ((''list_flat'', ''redis'', ''serialize''), (568756 / 10 ^ 9, 2 / 10 ^ 8)),
     ((''list_flat'', ''s3'', ''deserialize''), (8114378 / 10 ^ 8, 5 / 10 ^ 8)),
     ((''list_flat'', ''s3'', ''serialize''), (8013751 / 10 ^ 8, 5 / 10 ^ 8)),
     ((''ndarray_dense'', ''disk'', ''deserialize''), (5665687 / 10 ^ 9, 6934721 / 10 ^ 16)),
     ((''ndarray_dense'', ''disk'', ''serialize''), (709117 / 10 ^ 9, 141124 / 10 ^ 14)),
     ((''ndarray_dense'', ''ram'', ''deserialize''), (8302696 / 10 ^ 12, 2172459 / 10 ^ 16)),
     ((''ndarray_dense'', ''ram'', ''serialize''), (1809576 / 10 ^ 11, 5370905 / 10 ^ 17)),
     ((''ndarray_dense'', ''redis'', ''deserialize''), (1066569 / 10 ^ 9, 2 / 10 ^ 8)),
     ((''ndarray_dense'', ''redis'', ''serialize''), (5709117 / 10 ^ 10, 2 / 10 ^ 8)),
     ((''ndarray_dense'', ''s3'', ''deserialize''), (8113314 / 10 ^ 8, 5 / 10 ^ 8)),
     ((''ndarray_dense'', ''s3'', ''serialize''), (8014182 / 10 ^ 8, 5 / 10 ^ 8)),
     ((''series_numeric'', ''disk'', ''deserialize''), (6257127 / 10 ^ 9, 6480138 / 10 ^ 16)),
     ((''series_numeric'', ''disk'', ''serialize''), (7537178 / 10 ^ 10, 1398579 / 10 ^ 15)),
     ((''series_numeric'', ''ram'', ''deserialize''), (2595869 / 10 ^ 11, 2257319 / 10 ^ 16)),
     ((''series_numeric'', ''ram'', ''serialize''), (5158808 / 10 ^ 11, 9495364 / 10 ^ 17)),
     ((''series_numeric'', ''redis'', ''deserialize''), (1125713 / 10 ^ 9, 2 / 10 ^ 8)),
     ((''series_numeric'', ''redis'', ''serialize''), (5753718 / 10 ^ 10, 2 / 10 ^ 8)),
     ((''series_numeric'', ''s3'', ''deserialize''), (8125143 / 10 ^ 8, 5 / 10 ^ 8)),
     ((''series_numeric'', ''s3'', ''serialize''), (8015074 / 10 ^ 8, 5 / 10 ^ 8)),
     ((''sparse'', ''disk'', ''deserialize''), (5649893 / 10 ^ 9, 9034943 / 10 ^ 16)),
     ((''sparse'', ''disk'', ''serialize''), (7936895 / 10 ^ 10, 1432005 / 10 ^ 15)),
     ((''sparse'', ''ram'', ''deserialize''), (189015 / 10 ^ 10, 2047055 / 10 ^ 16)),
     ((''sparse'', ''ram'', ''serialize''), (3213248 / 10 ^ 11, 8440021 / 10 ^ 17)),
     ((''sparse'', ''redis'', ''deserialize''), (1064989 / 10 ^ 9, 2 / 10 ^ 8)),
     ((''sparse'', ''redis'', ''serialize''), (579369 / 10 ^ 9, 2 / 10 ^ 8)),
     ((''sparse'', ''s3'', ''deserialize''), (8112998 / 10 ^ 8, 5 / 10 ^ 8)),
     ((''sparse'', ''s3'', ''serialize''), (8015874 / 10 ^ 8, 5 / 10 ^ 8))]"

definition KNOWN_BACKENDS :: "string list" where
  "KNOWN_BACKENDS = [''ram'', ''disk'', ''redis'', ''s3'']"

definition resolve_family :: "string \<Rightarrow> string" where
  "resolve_family name = (case map_of TYPE_TO_FAMILY name of None \<Rightarrow> GENERIC_FAMILY | Some f \<Rightarrow> f)"

definition resolve_backend :: "string \<Rightarrow> string" where
  "resolve_backend kind = (if kind \<in> set KNOWN_BACKENDS then kind else ''disk'')"

text \<open>\<open>None\<close> is the \<open>KeyError\<close> of the table lookup.\<close>

definition predict :: "string \<Rightarrow> bytes_t \<Rightarrow> string \<Rightarrow> string \<Rightarrow> real option" where
  "predict family size_bytes backend op =
     (case map_of COEFFS (family, backend, op) of
        None \<Rightarrow> None
      | Some (a, b) \<Rightarrow> Some (a + b * of_int size_bytes))"

definition estimated_serialize_time :: "string \<Rightarrow> bytes_t \<Rightarrow> string \<Rightarrow> real option" where
  "estimated_serialize_time type_name size_bytes kind =
     predict (resolve_family type_name) size_bytes (resolve_backend kind) ''serialize''"

definition estimated_restore_time :: "string \<Rightarrow> bytes_t \<Rightarrow> string \<Rightarrow> real option" where
  "estimated_restore_time type_name size_bytes kind =
     predict (resolve_family type_name) size_bytes (resolve_backend kind) ''deserialize''"

subsection \<open>The table covers every question\<close>

definition FAMILIES :: "string list" where
  "FAMILIES = GENERIC_FAMILY # map snd TYPE_TO_FAMILY"

lemma resolve_family_known: "resolve_family name \<in> set FAMILIES"
  by (auto simp: resolve_family_def FAMILIES_def dest!: map_of_SomeD split: option.splits intro: rev_image_eqI)

lemma resolve_backend_known: "resolve_backend kind \<in> set KNOWN_BACKENDS"
  by (auto simp: resolve_backend_def KNOWN_BACKENDS_def)

lemma coeffs_cover:
  "list_all (\<lambda>f. list_all (\<lambda>b. list_all (\<lambda>op. List.member (map fst COEFFS) (f, b, op))
     [''serialize'', ''deserialize'']) KNOWN_BACKENDS) FAMILIES"
  by code_simp

lemma coeffs_pos: "list_all (\<lambda>(_, a, b). 0 < a \<and> 0 \<le> b) COEFFS"
  by (simp add: COEFFS_def)

lemma predict_total:
  assumes "op = ''serialize'' \<or> op = ''deserialize''"
  obtains a b where "0 < a" "0 \<le> b"
    "\<And>n. predict (resolve_family name) n (resolve_backend kind) op = Some (a + b * of_int n)"
proof -
  let ?k = "(resolve_family name, resolve_backend kind, op)"
  have "map_of COEFFS ?k \<noteq> None"
    using coeffs_cover resolve_family_known [of name] resolve_backend_known [of kind] assms
    by (auto simp: list_all_iff map_of_eq_None_iff)
  then obtain a b where ab: "map_of COEFFS ?k = Some (a, b)" by auto
  then have "0 < a \<and> 0 \<le> b" using coeffs_pos by (auto simp: list_all_iff dest!: map_of_SomeD)
  moreover have "predict (resolve_family name) n (resolve_backend kind) op = Some (a + b * of_int n)" for n
    using ab by (simp add: predict_def)
  ultimately show ?thesis using that by blast
qed

lemma estimated_restore_time_linear:
  obtains a b where "0 < a" "0 \<le> b"
    "\<And>n. estimated_restore_time name n kind = Some (a + b * of_int n)"
  using predict_total [of "''deserialize''" name kind] by (auto simp: estimated_restore_time_def)

subsection \<open>Properties\<close>

text \<open>
  The cost model answers for every type name and every backend kind, known or not
  (the table lookup never fails), with a positive time that never falls as the value
  grows.
\<close>

theorem estimated_restore_time_total:
  "0 \<le> n \<Longrightarrow> n \<le> k \<Longrightarrow>
   \<exists>t u. estimated_restore_time name n kind = Some t \<and> estimated_restore_time name k kind = Some u
     \<and> 0 < t \<and> t \<le> u"
proof -
  assume n: "0 \<le> n" "n \<le> k"
  obtain a b :: real where ab: "0 < a" "0 \<le> b"
    "\<And>n. estimated_restore_time name n kind = Some (a + b * of_int n)"
    using estimated_restore_time_linear by blast
  have "b * of_int n \<le> b * of_int k" using ab(2) n by (simp add: mult_left_mono)
  moreover have "0 \<le> b * of_int n" using ab(2) n by simp
  ultimately show ?thesis using ab by simp
qed

theorem estimated_restore_time_total_witness:
  "\<exists>t u. estimated_restore_time ''Graph'' 0 ''tape'' = Some t
     \<and> estimated_restore_time ''Graph'' 4096 ''tape'' = Some u \<and> 0 < t \<and> t \<le> u"
  by (rule estimated_restore_time_total) simp_all

text \<open>
  The family an unknown type is priced by is not the slowest to restore from disk: a
  \<open>bytes\<close> value, a series, a frame, a list, an array and a sparse matrix are all
  predicted slower than an unknown type while the value is small (here, empty). The
  generic family takes the coefficients of the family with the steepest slope, so it is
  the slowest only for large values.
\<close>

theorem generic_not_slowest_when_small:
  "\<forall>name \<in> {''bytes'', ''Series'', ''DataFrame'', ''list'', ''ndarray'', ''csr_matrix''}.
     the (estimated_restore_time ''Graph'' 0 ''disk'') < the (estimated_restore_time name 0 ''disk'')"
  by (simp add: estimated_restore_time_def predict_def resolve_family_def resolve_backend_def
      KNOWN_BACKENDS_def TYPE_TO_FAMILY_def COEFFS_def GENERIC_FAMILY_def)

theorem generic_not_slowest_when_small_witness:
  "the (estimated_restore_time ''Graph'' 0 ''disk'') < the (estimated_restore_time ''bytes'' 0 ''disk'')"
  using generic_not_slowest_when_small by simp

end
