(* ===== verification/Value_Policy.thy ===== *)
theory Value_Policy
  imports Prelude
begin

text \<open>
  Whether a value is worth the disk it would occupy (\<open>src/cash/backends/value_policy.py\<close>):
  the yardstick the persistence policy applies to every entry and version pruning to the
  spare copies.
\<close>

subsection \<open>Worth its bytes\<close>

definition BYTES_PER_COMPUTE_SECOND :: int where
  "BYTES_PER_COMPUTE_SECOND = 64 * 1024 * 1024"

definition WORTH_CEILING_BYTES_PER_SECOND :: int where
  "WORTH_CEILING_BYTES_PER_SECOND = 128 * 1024 * 1024"

definition WORTH_FLOOR_BYTES :: int where
  "WORTH_FLOOR_BYTES = 8 * 1024 * 1024"

definition worth_its_bytes :: "bytes_t \<Rightarrow> pyfloat \<Rightarrow> bool" where
  "worth_its_bytes size_bytes compute_seconds =
     (if size_bytes \<le> WORTH_FLOOR_BYTES then True
      else py_le (Fin (of_int size_bytes))
             (py_scale (of_int WORTH_CEILING_BYTES_PER_SECOND) (py_max compute_seconds (Fin 0))))"

subsection \<open>Lemmas\<close>

lemma worth_its_bytes_iff:
  "worth_its_bytes n (Fin c) \<longleftrightarrow>
     n \<le> WORTH_FLOOR_BYTES \<or> of_int n \<le> of_int WORTH_CEILING_BYTES_PER_SECOND * max c 0"
  by (auto simp: worth_its_bytes_def)

lemma worth_its_bytes_mono:
  assumes "worth_its_bytes n (Fin c)" and "k \<le> n" and "c \<le> d"
  shows "worth_its_bytes k (Fin d)"
proof -
  have "of_int WORTH_CEILING_BYTES_PER_SECOND * max c 0
      \<le> of_int WORTH_CEILING_BYTES_PER_SECOND * max d 0"
    using assms(3) by (intro mult_left_mono) (auto simp: WORTH_CEILING_BYTES_PER_SECOND_def)
  moreover have "real_of_int k \<le> of_int n" using assms(2) by simp
  ultimately show ?thesis using assms(1,2) by (auto simp: worth_its_bytes_iff)
qed

end
