(* ===== verification/Persistence_Policy.thy ===== *)
theory Persistence_Policy
  imports Entry_Meta Cost_Model Value_Policy
begin

text \<open>
  Which values are written past the RAM tier (\<open>src/cash/backends/persistence_policy.py\<close>):
  the rule that combines the cost model, the bytes-per-second yardstick and the sampled
  write cost (the \<open>SampledCost\<close> record of \<open>sampled_cost.py\<close>). The thresholds are the source's constants and the
  defaults of \<open>CashConfig\<close> (\<open>src/cash/config/schema.py\<close>).
\<close>

subsection \<open>The policy\<close>

record sampled_cost =
  sc_dump :: seconds
  sc_load :: seconds

definition COMPUTE_FLOOR_S :: seconds where "COMPUTE_FLOOR_S = 1 / 10"
definition MIN_SAVINGS_PCT :: real where "MIN_SAVINGS_PCT = 20 / 100"
definition STORE_FLOOR_S :: seconds where "STORE_FLOOR_S = 1 / 100"
definition RESTORE_BUDGET_S :: seconds where "RESTORE_BUDGET_S = 5 / 100"

record persistence_policy =
  compute_floor_s :: seconds
  min_savings_pct :: real
  store_floor_s :: seconds
  restore_budget_s :: seconds

definition default_policy :: persistence_policy where
  "default_policy = \<lparr>compute_floor_s = COMPUTE_FLOOR_S, min_savings_pct = MIN_SAVINGS_PCT,
     store_floor_s = STORE_FLOOR_S, restore_budget_s = RESTORE_BUDGET_S\<rparr>"

text \<open>The settings a policy is built from, and \<open>PersistencePolicy.from_config\<close>.\<close>

record policy_config =
  min_cache_savings_pct :: real
  min_execution_time_to_cache_seconds :: seconds
  min_cache_fixed_budget_seconds :: seconds

definition policy_from_config :: "policy_config \<Rightarrow> persistence_policy" where
  "policy_from_config c = \<lparr>compute_floor_s = COMPUTE_FLOOR_S,
     min_savings_pct = min_cache_savings_pct c,
     store_floor_s = min_execution_time_to_cache_seconds c,
     restore_budget_s = min_cache_fixed_budget_seconds c\<rparr>"

text \<open>\<open>Decision\<close>: whether one entry goes past RAM, and why not when it does not.\<close>

record decision =
  d_persist :: bool
  d_skipped :: "string option"
  d_weight :: bytes_t
  d_report :: bool

definition keep :: "bytes_t \<Rightarrow> decision" where
  "keep w = \<lparr>d_persist = True, d_skipped = None, d_weight = w, d_report = False\<rparr>"

definition skip :: "string \<Rightarrow> bytes_t \<Rightarrow> bool \<Rightarrow> decision" where
  "skip why w rep = \<lparr>d_persist = False, d_skipped = Some why, d_weight = w, d_report = rep\<rparr>"

definition undecided :: decision where
  "undecided = \<lparr>d_persist = False, d_skipped = None, d_weight = 0, d_report = False\<rparr>"

definition too_cheap_to_store :: "persistence_policy \<Rightarrow> seconds \<Rightarrow> bool" where
  "too_cheap_to_store p compute_s = (compute_s < store_floor_s p)"

definition restore_budget :: "persistence_policy \<Rightarrow> seconds \<Rightarrow> seconds" where
  "restore_budget p compute_s = max (restore_budget_s p) ((1 - min_savings_pct p) * compute_s)"

definition refuses_value :: "persistence_policy \<Rightarrow> seconds \<Rightarrow> seconds \<Rightarrow> bool" where
  "refuses_value p compute_s restore_s = (0 < compute_s \<and> restore_budget p compute_s < restore_s)"

text \<open>
  The restore the policy charges: the cost model's prediction (which always exists,
  \<open>estimated_restore_time_linear\<close>), or the measured read-back when that took longer.
\<close>

definition charged_restore :: "bytes_t \<Rightarrow> string \<Rightarrow> string \<Rightarrow> seconds option \<Rightarrow> seconds" where
  "charged_restore size_bytes type_name kind measured =
     (let restore = the (estimated_restore_time type_name size_bytes kind)
      in case measured of
           None \<Rightarrow> restore
         | Some s \<Rightarrow> if s = 0 then restore else max restore s)"

definition pays_to_restore ::
  "persistence_policy \<Rightarrow> pyfloat \<Rightarrow> bytes_t \<Rightarrow> string \<Rightarrow> string \<Rightarrow> seconds option \<Rightarrow> bool" where
  "pays_to_restore p compute_s size_bytes type_name kind measured =
     (if py_lt compute_s (Fin (compute_floor_s p)) then False
      else py_lt (py_scale (min_savings_pct p) compute_s)
             (py_sub compute_s (Fin (charged_restore size_bytes type_name kind measured))))"

definition measured_copy_seconds :: "entry_metadata \<Rightarrow> seconds option" where
  "measured_copy_seconds m =
     (case m_cost_model_family m of
        None \<Rightarrow> m_measured_round_trip m
      | Some f \<Rightarrow> if f \<noteq> GENERIC_FAMILY then None else m_measured_round_trip m)"

definition disk_bytes :: "entry_metadata \<Rightarrow> bytes_t \<Rightarrow> bytes_t" where
  "disk_bytes m sz =
     (let estimate = (case m_serialized_estimate m of None \<Rightarrow> 0 | Some e \<Rightarrow> e)
      in if estimate \<le> 0 \<or> sz = 0 then sz else min sz estimate)"

definition write_outweighs_restore :: "pyfloat \<Rightarrow> sampled_cost \<Rightarrow> real \<Rightarrow> bool" where
  "write_outweighs_restore compute_s sampled pct =
     py_le (py_sub compute_s (Fin (sc_load sampled)))
       (py_max (Fin (sc_dump sampled)) (py_scale pct compute_s))"

definition or_zero :: "int option \<Rightarrow> int" where
  "or_zero x = (case x of None \<Rightarrow> 0 | Some n \<Rightarrow> n)"

text \<open>\<open>size or metadata.get("cost_model_size_bytes", 0)\<close>.\<close>

definition cap_size_of :: "entry_metadata \<Rightarrow> bytes_t" where
  "cap_size_of m =
     (let sz = or_zero (m_size m) in if sz \<noteq> 0 then sz else or_zero (m_cost_model_size_bytes m))"

text \<open>Whether the cost model (or the override, for an entry without a cost-model
  family) says that restoring pays: the middle part of \<open>decide\<close>.\<close>

definition decide_pays ::
  "persistence_policy \<Rightarrow> entry_metadata \<Rightarrow> string \<Rightarrow> (pyfloat \<Rightarrow> bytes_t \<Rightarrow> bool) option \<Rightarrow> bool" where
  "decide_pays p m kind override =
     (let sz = or_zero (m_size m); compute_s = store_seconds m
      in if m_cost_model_family m \<noteq> None
         then pays_to_restore p compute_s
                (case m_cost_model_size_bytes m of None \<Rightarrow> sz | Some n \<Rightarrow> n)
                (case m_cost_model_type_name m of None \<Rightarrow> '''' | Some t \<Rightarrow> t)
                kind (measured_copy_seconds m)
         else (case override of
                 Some f \<Rightarrow> f compute_s sz
               | None \<Rightarrow> pays_to_restore p compute_s sz '''' kind (measured_copy_seconds m)))"

definition decide ::
  "persistence_policy \<Rightarrow> entry_metadata \<Rightarrow> string \<Rightarrow> bool \<Rightarrow> (pyfloat \<Rightarrow> bytes_t \<Rightarrow> bool) option
     \<Rightarrow> sampled_cost option \<Rightarrow> decision" where
  "decide p m kind deferred override sampled =
     (let cap_size = cap_size_of m; compute_s = store_seconds m
      in if m_process_local m then skip ''process_local'' cap_size False
         else if m_force_persist m then keep cap_size
         else if deferred then skip ''replaced_in_cell'' cap_size False
         else if m_decorator_entry m then keep cap_size
         else if \<not> decide_pays p m kind override
              \<or> (case sampled of None \<Rightarrow> False
                   | Some s \<Rightarrow> write_outweighs_restore compute_s s (min_savings_pct p))
         then skip ''compute'' cap_size False
         else let weight = disk_bytes m cap_size + or_zero (m_call_ref_bytes m)
              in if m_referenced m \<and> m_value_bytes_estimated m
                 then let weight = (if or_zero (m_value_bytes m) \<noteq> 0 then or_zero (m_value_bytes m)
                                    else cap_size)
                      in if \<not> worth_its_bytes weight compute_s then skip ''bytes'' weight False
                         else keep weight
                 else if \<not> m_referenced m \<and> \<not> worth_its_bytes weight compute_s
                 then skip ''bytes'' weight True
                 else keep weight)"

definition decide_rebuild :: "persistence_policy \<Rightarrow> entry_metadata \<Rightarrow> pyfloat \<Rightarrow> string \<Rightarrow> decision" where
  "decide_rebuild p m rebuild_s kind =
     (if m_metadata_only m \<or> m_cost_model_family m = None then undecided
      else let sz = (case m_cost_model_size_bytes m of Some n \<Rightarrow> n | None \<Rightarrow> or_zero (m_size m))
           in if \<not> pays_to_restore p rebuild_s sz
                     (case m_cost_model_type_name m of None \<Rightarrow> '''' | Some t \<Rightarrow> t)
                     kind (measured_copy_seconds m)
              then undecided
              else let weight = disk_bytes m (if or_zero (m_size m) \<noteq> 0 then or_zero (m_size m) else sz)
                                  + or_zero (m_call_ref_bytes m)
                   in if \<not> m_force_persist m \<and> \<not> worth_its_bytes weight rebuild_s
                      then skip ''bytes'' weight True
                      else keep weight)"

lemmas decision_defs = keep_def skip_def undecided_def

subsection \<open>Lemmas\<close>

lemma charged_restore_pos:
  assumes "0 \<le> n"
  shows "0 < charged_restore n name kind measured"
proof -
  obtain a b :: real where "0 < a" "0 \<le> b"
    "\<And>n. estimated_restore_time name n kind = Some (a + b * of_int n)"
    using estimated_restore_time_linear by blast
  moreover then have "0 < a + b * of_int n" using assms by (simp add: add_pos_nonneg)
  ultimately show ?thesis by (auto simp: charged_restore_def Let_def max_def split: option.splits)
qed

lemma pays_to_restore_iff:
  "pays_to_restore p (Fin c) n name kind meas \<longleftrightarrow>
     compute_floor_s p \<le> c \<and> charged_restore n name kind meas < (1 - min_savings_pct p) * c"
  by (auto simp: pays_to_restore_def algebra_simps)

lemma pays_to_restore_PInf: "0 < min_savings_pct p \<Longrightarrow> \<not> pays_to_restore p PInf n name kind meas"
  by (simp add: pays_to_restore_def py_scale_def py_sub_def)

lemma decide_skipped_iff: "d_skipped (decide p m kind df ov sm) = None \<longleftrightarrow> d_persist (decide p m kind df ov sm)"
  by (simp add: decide_def Let_def decision_defs)

subsection \<open>Properties\<close>



text \<open>
  The caller's word comes before every estimate, except where the entry could not be
  checked by another process. An entry only this process can check is never written past
  RAM, whoever asked; any other forced entry always is; a decorator's entry is unless the
  same cell replaces it; and every refusal names its reason.
\<close>

theorem decide_caller_first:
  "(m_process_local m \<longrightarrow> \<not> d_persist (decide p m kind df ov sm)
      \<and> d_skipped (decide p m kind df ov sm) = Some ''process_local'')
   \<and> (\<not> m_process_local m \<and> m_force_persist m \<longrightarrow> d_persist (decide p m kind df ov sm))
   \<and> (\<not> m_process_local m \<and> m_decorator_entry m \<and> \<not> df \<longrightarrow> d_persist (decide p m kind df ov sm))
   \<and> (d_persist (decide p m kind df ov sm) \<longleftrightarrow> d_skipped (decide p m kind df ov sm) = None)"
  using decide_skipped_iff [of p m kind df ov sm] by (auto simp: decide_def Let_def decision_defs)

theorem decide_caller_first_witness:
  "d_persist (decide default_policy (no_metadata\<lparr>m_force_persist := True\<rparr>) ''disk'' True None None)"
  using decide_caller_first [of "no_metadata\<lparr>m_force_persist := True\<rparr>" default_policy "''disk''" True None None]
  by (simp add: no_metadata_def)

text \<open>
  No entry the policy judges goes to disk for more bytes than its seconds buy. An
  entry that is neither forced nor a decorator's and that is not weighed by a referring
  entry is kept only if its weight, its referenced results included, is at most 8 MiB or
  at most 128 MiB for each second it took; a refused entry refused for its bytes is over
  both. A lighter entry of at least the same cost is never refused for its bytes.
\<close>

theorem decide_bytes_ceiling:
  assumes judged: "\<not> m_force_persist m" "\<not> m_decorator_entry m" "\<not> m_referenced m"
    and cost: "store_seconds m = Fin c"
    and w: "w = disk_bytes m (cap_size_of m) + or_zero (m_call_ref_bytes m)"
  shows "(d_persist (decide p m kind df ov sm) \<longrightarrow>
            w \<le> WORTH_FLOOR_BYTES \<or> of_int w \<le> of_int WORTH_CEILING_BYTES_PER_SECOND * max c 0)
     \<and> (d_skipped (decide p m kind df ov sm) = Some ''bytes'' \<longrightarrow>
            WORTH_FLOOR_BYTES < w \<and> of_int WORTH_CEILING_BYTES_PER_SECOND * max c 0 < of_int w)"
  using judged cost w worth_its_bytes_iff [of w c]
  by (auto simp: decide_def Let_def decision_defs split: if_splits)

theorem decide_bytes_ceiling_witness:
  "d_skipped (decide default_policy (no_metadata\<lparr>m_size := Some (1024 ^ 3), m_execution_time := VInt 5\<rparr>)
     ''disk'' False (Some (\<lambda>_ _. True)) None) = Some ''bytes''
   \<and> of_int WORTH_CEILING_BYTES_PER_SECOND * max (5::real) 0 < 1024 ^ 3"
proof -
  let ?m = "no_metadata\<lparr>m_size := Some (1024 ^ 3), m_execution_time := VInt 5\<rparr>"
  have c: "store_seconds ?m = Fin 5" by (simp add: store_seconds_def no_metadata_def)
  have w: "disk_bytes ?m (cap_size_of ?m) + or_zero (m_call_ref_bytes ?m) = 1024 ^ 3"
    by (simp add: no_metadata_def disk_bytes_def cap_size_of_def or_zero_def)
  have s: "d_skipped (decide default_policy ?m ''disk'' False (Some (\<lambda>_ _. True)) None) = Some ''bytes''"
    unfolding decide_def Let_def w c
    by (simp add: no_metadata_def decision_defs decide_pays_def worth_its_bytes_iff
        WORTH_FLOOR_BYTES_def WORTH_CEILING_BYTES_PER_SECOND_def)
  with decide_bytes_ceiling [OF _ _ _ c w [symmetric], of default_policy "''disk''" False]
  show ?thesis by (simp add: no_metadata_def)
qed

text \<open>
  the end-of-cell pass applies the same rule to the cost of rebuilding: it persists a
  RAM-only value only if it has a cost-model family and a value, and restoring it beats
  rebuilding it by the savings the policy asks for; and it refuses one for its bytes only
  if it was not forced, with a notice.
\<close>

theorem decide_rebuild_pays:
  "let d = decide_rebuild p m (Fin r) kind in
   (d_persist d \<longrightarrow> \<not> m_metadata_only m \<and> m_cost_model_family m \<noteq> None \<and> compute_floor_s p \<le> r
      \<and> (\<exists>n name. charged_restore n name kind (measured_copy_seconds m) < (1 - min_savings_pct p) * r)
      \<and> (m_force_persist m \<or> worth_its_bytes (d_weight d) (Fin r)))
   \<and> (d_skipped d = Some ''bytes'' \<longrightarrow>
        d_report d \<and> \<not> m_force_persist m \<and> \<not> worth_its_bytes (d_weight d) (Fin r))"
  by (auto simp: decide_rebuild_def Let_def decision_defs pays_to_restore_iff split: if_splits option.splits)

theorem decide_rebuild_pays_witness:
  "\<not> d_persist (decide_rebuild default_policy (no_metadata\<lparr>m_size := Some 10\<rparr>) (Fin 3) ''disk'')"
  using decide_rebuild_pays [of default_policy "no_metadata\<lparr>m_size := Some 10\<rparr>" 3 "''disk''"]
  by (auto simp: Let_def no_metadata_def)

end
