(* ===== verification/Advisory_Log.thy ===== *)
theory Advisory_Log
  imports Prelude
begin

text \<open>
  The cache directory keeps side files that any process appends to and that are rewritten
  shorter on demand: the rank index, the version index and the eviction log. A reader
  replays the lines in order. The interface \<open>advisory_log\<close> states what such a file
  promises; its lemmas say that rewriting it is invisible to every later reader, whatever
  other processes append afterwards. The rank index (\<open>src/cash/backends/rank_index.py\<close>)
  is modelled here.

  A line is the list of tokens \<open>line.split()\<close> gives. A process killed while it writes
  leaves a line of arbitrary tokens, which the replay has to survive.
\<close>

type_synonym log_line = "tok list"

subsection \<open>The interface\<close>

text \<open>
  \<open>replay\<close> is one iteration of the loop that reads the file and \<open>render\<close> the lines a
  rewrite puts in its place; \<open>view\<close> is what a reader can tell of a state.
\<close>

locale advisory_log =
  fixes replay :: "'s \<Rightarrow> log_line \<Rightarrow> 's"
    and start :: 's
    and render :: "'s \<Rightarrow> log_line list"
    and view :: "'s \<Rightarrow> 'v"
    and ok :: "'s \<Rightarrow> bool"
  assumes ok_start: "ok start"
    and ok_replay: "ok s \<Longrightarrow> ok (replay s l)"
    and view_replay: "ok s \<Longrightarrow> ok t \<Longrightarrow> view s = view t \<Longrightarrow> view (replay s l) = view (replay t l)"
    and view_render: "ok s \<Longrightarrow> view (foldl replay start (render s)) = view s"
begin

lemma ok_foldl: "ok s \<Longrightarrow> ok (foldl replay s ls)"
  by (induction ls arbitrary: s) (auto intro: ok_replay)

lemma view_foldl:
  "ok s \<Longrightarrow> ok t \<Longrightarrow> view s = view t \<Longrightarrow> view (foldl replay s ls) = view (foldl replay t ls)"
proof (induction ls arbitrary: s t)
  case Nil
  then show ?case by simp
next
  case (Cons l ls)
  from Cons.prems have "ok (replay s l)" "ok (replay t l)" "view (replay s l) = view (replay t l)"
    by (auto intro: ok_replay view_replay)
  from Cons.IH [OF this] show ?case by simp
qed

text \<open>A rewrite of the whole file reads back as the same state, and so does everything
  appended to it later.\<close>

lemma rewrite_invisible:
  "view (foldl replay start (render (foldl replay start ls) @ later)) = view (foldl replay start (ls @ later))"
proof -
  let ?s = "foldl replay start ls"
  have ok: "ok ?s" by (rule ok_foldl [OF ok_start])
  have "view (foldl replay start (render ?s)) = view ?s" by (rule view_render [OF ok])
  from view_foldl [OF ok_foldl [OF ok_start] ok this] show ?thesis by simp
qed

lemma rewrite_reads_back: "view (foldl replay start (render (foldl replay start ls))) = view (foldl replay start ls)"
  using rewrite_invisible [of ls "[]"] by simp

text \<open>A line the reader ignores can stand anywhere in the file.\<close>

lemma ignored_line:
  assumes "\<And>s. ok s \<Longrightarrow> view (replay s l) = view s"
  shows "view (foldl replay start (xs @ l # ys)) = view (foldl replay start (xs @ ys))"
proof -
  let ?s = "foldl replay start xs"
  have ok: "ok ?s" by (rule ok_foldl [OF ok_start])
  from view_foldl [OF ok_replay [OF ok] ok assms [OF ok]] show ?thesis by simp
qed

end

subsection \<open>The rank index\<close>

text \<open>What \<open>load\<close> collects: priority by stem in the order each was last recorded, and the
  clock.\<close>

record rank_state =
  rs_ranks :: "(tok \<times> real) list"
  rs_clock :: real

definition rank_start :: rank_state where
  "rank_start = \<lparr>rs_ranks = [], rs_clock = 0\<rparr>"

definition CLOCK_TAG :: tok where
  "CLOCK_TAG = TWord ''@L''"

text \<open>One line of the loop in \<open>RankIndex.load\<close>.\<close>

definition rank_replay :: "rank_state \<Rightarrow> log_line \<Rightarrow> rank_state" where
  "rank_replay s parts = (case parts of
       [name, text] \<Rightarrow>
         (case py_float text of
            None \<Rightarrow> s
          | Some f \<Rightarrow>
              (case finite_float f of
                 None \<Rightarrow> s
               | Some v \<Rightarrow>
                   if name = CLOCK_TAG then s\<lparr>rs_clock := max (rs_clock s) v\<rparr>
                   else s\<lparr>rs_ranks := dict_push name v (rs_ranks s)\<rparr>))
     | _ \<Rightarrow> s)"

definition rank_record :: "tok \<Rightarrow> real \<Rightarrow> log_line" where
  "rank_record name v = [name, TFlt (Fin v)]"

text \<open>The body \<open>compact\<close> writes: exactly the given ranks and clock.\<close>

definition rank_render :: "rank_state \<Rightarrow> log_line list" where
  "rank_render s = map (\<lambda>(n, v). rank_record n v) (rs_ranks s) @ [rank_record CLOCK_TAG (rs_clock s)]"

record rank_index =
  ri_buffer :: "log_line list"
  ri_file :: "log_line list option"

definition BATCH :: nat where "BATCH = 64"

text \<open>
  \<open>flush\<close>: the buffered lines go to the file in one write. \<open>wrote\<close> says whether the
  operating system took the append (it refuses when the directory is gone); the buffer is
  emptied either way.
\<close>

definition ri_flush :: "bool \<Rightarrow> rank_index \<Rightarrow> rank_index" where
  "ri_flush wrote ri =
     (if ri_buffer ri = [] then ri
      else if wrote
      then ri\<lparr>ri_buffer := [], ri_file := Some (case ri_file ri of None \<Rightarrow> ri_buffer ri
                                                   | Some ls \<Rightarrow> ls @ ri_buffer ri)\<rparr>
      else ri\<lparr>ri_buffer := []\<rparr>)"

definition ri_append :: "bool \<Rightarrow> (string \<times> real) list \<Rightarrow> real option \<Rightarrow> rank_index \<Rightarrow> rank_index" where
  "ri_append wrote records clock ri =
     (let lines = map (\<lambda>(stem, p). rank_record (TWord stem) p) records
                  @ (case clock of None \<Rightarrow> [] | Some c \<Rightarrow> [rank_record CLOCK_TAG c])
      in if lines = [] then ri
         else let ri = ri\<lparr>ri_buffer := ri_buffer ri @ lines\<rparr>
              in if BATCH \<le> length (ri_buffer ri) then ri_flush wrote ri else ri)"

definition ri_discard :: "rank_index \<Rightarrow> rank_index" where
  "ri_discard ri = ri\<lparr>ri_buffer := []\<rparr>"

text \<open>\<open>load\<close>: this process's buffer first, then the file; \<open>readable\<close> is whether the file
  could be opened. Returns the index with its buffer flushed, the state and the line count.\<close>

definition ri_load :: "bool \<Rightarrow> bool \<Rightarrow> rank_index \<Rightarrow> rank_index \<times> rank_state \<times> nat" where
  "ri_load wrote readable ri =
     (let ri = ri_flush wrote ri
      in case ri_file ri of
           Some ls \<Rightarrow> if readable then (ri, foldl rank_replay rank_start ls, length ls)
                      else (ri, rank_start, 0)
         | None \<Rightarrow> (ri, rank_start, 0))"

text \<open>\<open>compact\<close>: a temporary file renamed over the index; a failed rename leaves it.\<close>

definition ri_compact :: "bool \<Rightarrow> rank_state \<Rightarrow> rank_index \<Rightarrow> rank_index" where
  "ri_compact renamed s ri = (if renamed then ri\<lparr>ri_file := Some (rank_render s)\<rparr> else ri)"

definition ri_remove :: "bool \<Rightarrow> rank_index \<Rightarrow> rank_index" where
  "ri_remove removed ri = (let ri = ri_discard ri in if removed then ri\<lparr>ri_file := None\<rparr> else ri)"

definition rank_ok :: "rank_state \<Rightarrow> bool" where
  "rank_ok s \<longleftrightarrow> dict_ok (rs_ranks s) \<and> CLOCK_TAG \<notin> fst ` set (rs_ranks s) \<and> 0 \<le> rs_clock s"

lemma rank_replay_record:
  "rank_replay s (rank_record n v) =
     (if n = CLOCK_TAG then s\<lparr>rs_clock := max (rs_clock s) v\<rparr>
      else s\<lparr>rs_ranks := dict_push n v (rs_ranks s)\<rparr>)"
  by (simp add: rank_replay_def rank_record_def)

lemma rank_ok_start: "rank_ok rank_start"
  by (simp add: rank_ok_def rank_start_def)

lemma rank_ok_replay: "rank_ok s \<Longrightarrow> rank_ok (rank_replay s l)"
  by (auto simp: rank_replay_def rank_ok_def dict_ok_push dict_keys_push
      split: list.splits option.splits)

lemma rank_replay_records:
  "dict_ok (rs_ranks s @ d) \<Longrightarrow> CLOCK_TAG \<notin> fst ` set d \<Longrightarrow>
   foldl rank_replay s (map (\<lambda>(n, v). rank_record n v) d) = s\<lparr>rs_ranks := rs_ranks s @ d\<rparr>"
proof (induction d arbitrary: s)
  case Nil
  then show ?case by simp
next
  case (Cons p d)
  obtain n v where p: "p = (n, v)" by (cases p)
  from Cons.prems p have "n \<notin> fst ` set (rs_ranks s)" "n \<noteq> CLOCK_TAG" by auto
  then have "rank_replay s (rank_record n v) = s\<lparr>rs_ranks := rs_ranks s @ [(n, v)]\<rparr>"
    by (simp add: rank_replay_record push_fresh)
  with Cons p show ?case by simp
qed

lemma rank_replay_render: "rank_ok s \<Longrightarrow> foldl rank_replay rank_start (rank_render s) = s"
  by (simp add: rank_render_def rank_replay_records rank_ok_def rank_start_def rank_replay_record)

interpretation rank_log: advisory_log rank_replay rank_start rank_render "\<lambda>s. s" rank_ok
  by unfold_locales (auto simp: rank_ok_start rank_ok_replay rank_replay_render)

text \<open>The priority a reader finds for a stem, and the clock.\<close>

lemma rank_replay_lookup:
  "rank_ok s \<Longrightarrow> TWord stem \<noteq> CLOCK_TAG \<Longrightarrow>
   map_of (rs_ranks (foldl rank_replay s (map (\<lambda>(n, p). rank_record (TWord n) p) rs))) (TWord stem)
     = (case map_of (rev rs) stem of None \<Rightarrow> map_of (rs_ranks s) (TWord stem) | Some p \<Rightarrow> Some p)"
proof (induction rs rule: rev_induct)
  case Nil
  then show ?case by simp
next
  case (snoc r rs)
  obtain n p where r: "r = (n, p)" by (cases r)
  with snoc show ?case by (auto simp: rank_replay_record map_of_push)
qed

subsection \<open>Properties\<close>

text \<open>
  rewriting the rank index is invisible. After any history of the file, replacing it
  by what \<open>compact\<close> writes from what \<open>load\<close> read gives every later reader the same
  priorities, in the same order, and the same clock, also after other processes append
  to the rewritten file.
\<close>

theorem rank_compact_invisible:
  "foldl rank_replay rank_start (rank_render (foldl rank_replay rank_start ls) @ later)
   = foldl rank_replay rank_start (ls @ later)"
  by (rule rank_log.rewrite_invisible)

text \<open>
  A record survives to the next load. Loading after an append (the file readable and
  the write taken) finds, for every stem, the last priority recorded for it, older
  priorities for stems not mentioned, and a clock that never falls below the one
  appended; a line that is not a name and a finite number changes nothing.
\<close>

theorem rank_append_load:
  assumes load0: "ri_load True True ri = (ri0, s0, n0)"
    and load1: "ri_load True True (ri_append True rs (Some c) ri) = (ri1, s1, n1)"
    and tags: "TWord stem \<noteq> CLOCK_TAG" "\<forall>(n, p) \<in> set rs. TWord n \<noteq> CLOCK_TAG"
  shows "map_of (rs_ranks s1) (TWord stem) =
      (case map_of (rev rs) stem of None \<Rightarrow> map_of (rs_ranks s0) (TWord stem) | Some p \<Rightarrow> Some p)
    \<and> rs_clock s1 = max (rs_clock s0) c
    \<and> n1 = n0 + length rs + 1"
proof -
  let ?new = "map (\<lambda>(n, p). rank_record (TWord n) p) rs @ [rank_record CLOCK_TAG c]"
  let ?old = "(case ri_file ri of None \<Rightarrow> [] | Some ls \<Rightarrow> ls) @ ri_buffer ri"
  have s0: "s0 = foldl rank_replay rank_start ?old" and n0: "n0 = length ?old"
    using load0 by (auto simp: ri_load_def ri_flush_def Let_def split: option.splits if_splits)
  have s1: "s1 = foldl rank_replay s0 ?new" and n1: "n1 = length ?old + length ?new"
    using load1 s0
    by (auto simp: ri_load_def ri_append_def ri_flush_def Let_def split: option.splits if_splits)
  have ok: "rank_ok s0" unfolding s0 by (rule rank_log.ok_foldl [OF rank_ok_start])
  let ?m = "foldl rank_replay s0 (map (\<lambda>(n, p). rank_record (TWord n) p) rs)"
  have m: "s1 = ?m\<lparr>rs_clock := max (rs_clock ?m) c\<rparr>"
    unfolding s1 by (simp add: rank_replay_record)
  have "rs_clock (foldl rank_replay s (map (\<lambda>(n, p). rank_record (TWord n) p) ps)) = rs_clock s"
    if "\<forall>(n, p) \<in> set ps. TWord n \<noteq> CLOCK_TAG" for s ps
    using that by (induction ps arbitrary: s) (auto simp: rank_replay_record)
  with tags(2) m have "rs_clock s1 = max (rs_clock s0) c" by simp
  moreover have "map_of (rs_ranks s1) (TWord stem) =
      (case map_of (rev rs) stem of None \<Rightarrow> map_of (rs_ranks s0) (TWord stem) | Some p \<Rightarrow> Some p)"
    using rank_replay_lookup [OF ok tags(1), of rs] m by simp
  moreover have "n1 = n0 + length rs + 1" using n0 n1 by simp
  ultimately show ?thesis by blast
qed

theorem rank_append_load_witness:
  "map_of (rs_ranks (fst (snd (ri_load True True
     (ri_append True [(''a'', 1), (''b'', 2), (''a'', 3)] (Some 7) \<lparr>ri_buffer = [], ri_file = None\<rparr>)))))
     (TWord ''a'') = Some 3"
proof -
  let ?ri = "\<lparr>ri_buffer = [], ri_file = None\<rparr>"
  obtain ri0 s0 n0 where l0: "ri_load True True ?ri = (ri0, s0, n0)" by (cases "ri_load True True ?ri")
  obtain ri1 s1 n1 where
    l1: "ri_load True True (ri_append True [(''a'', 1), (''b'', 2), (''a'', 3)] (Some 7) ?ri) = (ri1, s1, n1)"
    by (cases "ri_load True True (ri_append True [(''a'', 1), (''b'', 2), (''a'', 3)] (Some 7) ?ri)")
  show ?thesis
    using rank_append_load [OF l0 l1, of "''a''"] l1 by (simp add: CLOCK_TAG_def)
qed

text \<open>
  A damaged line never costs more than itself: a line with another number of tokens,
  or whose second token is not a finite number, is skipped wherever it stands, and the
  load never fails.
\<close>

theorem rank_damaged_line_skipped:
  assumes "length bad \<noteq> 2 \<or> py_float (bad ! 1) = None \<or> (\<forall>r. py_float (bad ! 1) \<noteq> Some (Fin r))"
  shows "foldl rank_replay rank_start (xs @ bad # ys) = foldl rank_replay rank_start (xs @ ys)"
proof (rule rank_log.ignored_line)
  fix s
  show "rank_replay s bad = s"
  proof (cases "\<exists>n t. bad = [n, t]")
    case False
    then show ?thesis by (auto simp: rank_replay_def split: list.splits)
  next
    case True
    then obtain n t where b: "bad = [n, t]" by blast
    with assms have "\<forall>r. py_float t \<noteq> Some (Fin r)" by auto
    then have "py_float t = None \<or> (\<exists>f. py_float t = Some f \<and> finite_float f = None)"
      by (cases "py_float t") (metis finite_float.elims | simp)+
    with b show ?thesis by (auto simp: rank_replay_def)
  qed
qed

theorem rank_damaged_line_skipped_witness:
  "foldl rank_replay rank_start [rank_record (TWord ''a'') 1, [TWord ''a'', TFlt NaN]]
   = foldl rank_replay rank_start [rank_record (TWord ''a'') 1]"
  using rank_damaged_line_skipped [of "[TWord ''a'', TFlt NaN]" "[rank_record (TWord ''a'') 1]" "[]"] by simp

end
