(* ===== verification/Version_Index.thy ===== *)
theory Version_Index
  imports Advisory_Log Value_Policy "HOL-Library.Product_Lexorder"
begin

text \<open>
  Superseded versions of one statement (\<open>src/cash/backends/versions.py\<close>): the pruning
  rule, and the append-only record of which keys are versions of which slot, as an
  instance of \<open>advisory_log\<close>. Slots and keys are names, kept as the tokens they print as.
\<close>

record version =
  ver_key :: tok
  ver_size :: bytes_t
  ver_cost :: pyfloat
  ver_used :: pyfloat

subsection \<open>Which superseded versions to drop\<close>

definition MAX_SUPERSEDED :: nat where "MAX_SUPERSEDED = 16"

text \<open>The order \<open>sorted\<close> uses on the time of last use. Python leaves the place of a NaN
  open; it comes first here.\<close>

fun used_rank :: "pyfloat \<Rightarrow> nat \<times> real" where
  "used_rank NaN = (0, 0)"
| "used_rank NInf = (1, 0)"
| "used_rank (Fin r) = (2, r)"
| "used_rank PInf = (3, 0)"

text \<open>\<open>sorted(vs, key=used, reverse=True)\<close> keeps the order of equal elements.\<close>

definition newest_first :: "version list \<Rightarrow> version list" where
  "newest_first vs = rev (sort_key (\<lambda>v. used_rank (ver_used v)) (rev vs))"

definition affordable :: "nat \<Rightarrow> bytes_t \<Rightarrow> version \<Rightarrow> bool" where
  "affordable kept kept_bytes v \<longleftrightarrow> kept < MAX_SUPERSEDED
     \<and> py_le (Fin (of_int (kept_bytes + ver_size v)))
         (py_scale (of_int BYTES_PER_COMPUTE_SECOND) (py_max (ver_cost v) (Fin 0)))"

text \<open>The loop over the older versions: \<open>first\<close> is \<open>i == 0\<close>.\<close>

fun prune_loop :: "tok set \<Rightarrow> bool \<Rightarrow> nat \<Rightarrow> bytes_t \<Rightarrow> version list \<Rightarrow> tok list" where
  "prune_loop in_use first kept kept_bytes [] = []"
| "prune_loop in_use first kept kept_bytes (v # vs) =
     (if first \<or> ver_key v \<in> in_use \<or> affordable kept kept_bytes v
      then prune_loop in_use False (kept + 1) (kept_bytes + ver_size v) vs
      else ver_key v # prune_loop in_use False kept kept_bytes vs)"

definition older_versions :: "(tok \<times> version) list \<Rightarrow> tok \<Rightarrow> version list" where
  "older_versions versions current = newest_first [v. (k, v) \<leftarrow> versions, k \<noteq> current]"

definition superseded_to_drop :: "(tok \<times> version) list \<Rightarrow> tok \<Rightarrow> tok set \<Rightarrow> tok list" where
  "superseded_to_drop versions current in_use =
     prune_loop in_use True 0 0 (older_versions versions current)"

subsection \<open>The index\<close>

record version_state =
  vs_slots :: "(tok \<times> (tok \<times> version) list) list"
  vs_slot_of :: "(tok \<times> tok) list"

definition version_start :: version_state where
  "version_start = \<lparr>vs_slots = [], vs_slot_of = []\<rparr>"

definition REMOVED :: tok where "REMOVED = TWord ''-''"

text \<open>\<open>slots.get(slot, {}).pop(key, None)\<close>.\<close>

definition slots_pop ::
  "tok \<Rightarrow> tok \<Rightarrow> (tok \<times> (tok \<times> version) list) list \<Rightarrow> (tok \<times> (tok \<times> version) list) list" where
  "slots_pop slot key slots = (case map_of slots slot of
       None \<Rightarrow> slots
     | Some d \<Rightarrow> AList.update slot (AList.delete key d) slots)"

text \<open>\<open>slots.setdefault(slot, {})[key] = v\<close>.\<close>

definition slots_put ::
  "tok \<Rightarrow> version \<Rightarrow> (tok \<times> (tok \<times> version) list) list \<Rightarrow> (tok \<times> (tok \<times> version) list) list" where
  "slots_put slot v slots =
     AList.update slot (AList.update (ver_key v) v
       (case map_of slots slot of None \<Rightarrow> [] | Some d \<Rightarrow> d)) slots"

definition version_put :: "tok \<Rightarrow> version \<Rightarrow> version_state \<Rightarrow> version_state" where
  "version_put slot v s =
     (let slots = (case map_of (vs_slot_of s) (ver_key v) of
             None \<Rightarrow> vs_slots s
           | Some old \<Rightarrow> if old \<noteq> slot then slots_pop old (ver_key v) (vs_slots s) else vs_slots s)
      in \<lparr>vs_slots = slots_put slot v slots,
          vs_slot_of = AList.update (ver_key v) slot (vs_slot_of s)\<rparr>)"

definition version_pop :: "tok \<Rightarrow> version_state \<Rightarrow> version_state" where
  "version_pop key s = (case map_of (vs_slot_of s) key of
       None \<Rightarrow> s
     | Some slot \<Rightarrow> \<lparr>vs_slots = slots_pop slot key (vs_slots s),
                     vs_slot_of = AList.delete key (vs_slot_of s)\<rparr>)"

text \<open>One line of the loop in \<open>VersionIndex._load\<close>.\<close>

definition version_replay :: "version_state \<Rightarrow> log_line \<Rightarrow> version_state" where
  "version_replay s parts = (case parts of
       [a, key] \<Rightarrow> if a = REMOVED then version_pop key s else s
     | [slot, key, sz, cost, used] \<Rightarrow>
         (case (py_int sz, py_float cost, py_float used) of
            (Some n, Some c, Some u) \<Rightarrow>
              version_put slot \<lparr>ver_key = key, ver_size = n, ver_cost = c, ver_used = u\<rparr> s
          | _ \<Rightarrow> s)
     | _ \<Rightarrow> s)"

definition version_line :: "tok \<Rightarrow> version \<Rightarrow> log_line" where
  "version_line slot v = [slot, ver_key v, TInt (ver_size v), TFlt (ver_cost v), TFlt (ver_used v)]"

text \<open>What \<open>_compact\<close> writes.\<close>

definition version_render :: "version_state \<Rightarrow> log_line list" where
  "version_render s = concat (map (\<lambda>(slot, d). map (\<lambda>(k, v). version_line slot v) d) (vs_slots s))"

text \<open>The index of one process: what it has loaded (once), the line count and the file.\<close>

record version_index =
  vx_state :: "version_state option"
  vx_lines :: nat
  vx_file :: "log_line list option"

definition vx_load :: "bool \<Rightarrow> version_index \<Rightarrow> version_index" where
  "vx_load readable x = (case vx_state x of
       Some _ \<Rightarrow> x
     | None \<Rightarrow>
         (case (if readable then vx_file x else None) of
            None \<Rightarrow> x\<lparr>vx_state := Some version_start, vx_lines := 0\<rparr>
          | Some ls \<Rightarrow> x\<lparr>vx_state := Some (foldl version_replay version_start ls),
                        vx_lines := length ls\<rparr>))"

definition vx_append :: "bool \<Rightarrow> log_line list \<Rightarrow> version_index \<Rightarrow> version_index" where
  "vx_append wrote lines x =
     (if lines = [] \<or> \<not> wrote then x
      else x\<lparr>vx_file := Some (case vx_file x of None \<Rightarrow> lines | Some ls \<Rightarrow> ls @ lines),
             vx_lines := vx_lines x + length lines\<rparr>)"

text \<open>\<open>_valid\<close>: a name that prints as one token.\<close>

fun valid_name :: "tok \<Rightarrow> bool" where
  "valid_name (TWord s) = (s \<noteq> [] \<and> (\<forall>c \<in> set s. of_char c < (128::nat)
      \<and> c \<notin> {CHR '' '', CHR 0x09, CHR 0x0A, CHR 0x0B, CHR 0x0C, CHR 0x0D, CHR 0x1C, CHR 0x1D, CHR 0x1E, CHR 0x1F}))"
| "valid_name _ = True"

definition slot_versions :: "version_state \<Rightarrow> tok \<Rightarrow> (tok \<times> version) list" where
  "slot_versions s slot = (case map_of (vs_slots s) slot of None \<Rightarrow> [] | Some d \<Rightarrow> d)"

definition vx_record ::
  "bool \<Rightarrow> bool \<Rightarrow> tok \<Rightarrow> tok \<Rightarrow> bytes_t \<Rightarrow> pyfloat \<Rightarrow> pyfloat \<Rightarrow> version_index
     \<Rightarrow> version_index \<times> (tok \<times> version) list" where
  "vx_record readable wrote slot key sz cost used x =
     (if \<not> (valid_name slot \<and> valid_name key) then (x, [])
      else let x = vx_load readable x;
               v = \<lparr>ver_key = key, ver_size = sz, ver_cost = cost, ver_used = used\<rparr>;
               s = version_put slot v (the (vx_state x));
               x = vx_append wrote [version_line slot v] (x\<lparr>vx_state := Some s\<rparr>)
           in (x, slot_versions s slot))"

definition vx_touch :: "bool \<Rightarrow> bool \<Rightarrow> tok \<Rightarrow> pyfloat \<Rightarrow> version_index \<Rightarrow> version_index" where
  "vx_touch readable wrote key used x =
     (let x = vx_load readable x; s = the (vx_state x)
      in case map_of (vs_slot_of s) key of
           None \<Rightarrow> x
         | Some slot \<Rightarrow>
             (case map_of (slot_versions s slot) key of
                None \<Rightarrow> x
              | Some v \<Rightarrow>
                  let v = v\<lparr>ver_used := py_max (ver_used v) used\<rparr>
                  in vx_append wrote [version_line slot v]
                       (x\<lparr>vx_state := Some (s\<lparr>vs_slots := slots_put slot v (vs_slots s)\<rparr>)\<rparr>)))"

fun forget_keys :: "tok list \<Rightarrow> version_state \<Rightarrow> version_state \<times> log_line list" where
  "forget_keys [] s = (s, [])"
| "forget_keys (k # ks) s =
     (let gone = map_of (vs_slot_of s) k \<noteq> None;
          (s', lines) = forget_keys ks (version_pop k s)
      in (s', (if gone \<and> valid_name k then [REMOVED, k] # lines else lines)))"

definition vx_compact :: "bool \<Rightarrow> version_index \<Rightarrow> version_index" where
  "vx_compact renamed x =
     (if renamed
      then let body = version_render (the (vx_state x))
           in x\<lparr>vx_file := Some body, vx_lines := length body\<rparr>
      else x)"

definition vx_forget :: "bool \<Rightarrow> bool \<Rightarrow> bool \<Rightarrow> tok list \<Rightarrow> version_index \<Rightarrow> version_index" where
  "vx_forget readable wrote renamed keys x =
     (let x = vx_load readable x;
          (s, lines) = forget_keys keys (the (vx_state x));
          x = vx_append wrote lines (x\<lparr>vx_state := Some s\<rparr>);
          live = length (vs_slot_of s)
      in if 2 * live + 1000 < vx_lines x then vx_compact renamed x else x)"

definition vx_remove :: "bool \<Rightarrow> version_index \<Rightarrow> version_index" where
  "vx_remove removed x =
     (let x = x\<lparr>vx_state := None, vx_lines := 0\<rparr> in if removed then x\<lparr>vx_file := None\<rparr> else x)"

subsection \<open>Lemmas on pruning\<close>

lemma set_newest_first [simp]: "set (newest_first vs) = set vs"
  by (simp add: newest_first_def)

lemma distinct_newest_first:
  "distinct (map f vs) \<Longrightarrow> distinct (map f (newest_first vs))"
  by (simp add: newest_first_def rev_map [symmetric] distinct_map)

lemma newest_first_head:
  assumes "newest_first vs = v # rest" and "w \<in> set vs"
  shows "used_rank (ver_used w) \<le> used_rank (ver_used v)"
proof -
  let ?f = "\<lambda>v. used_rank (ver_used v)"
  let ?s = "sort_key ?f (rev vs)"
  have eq: "?s = rev rest @ [v]" using assms(1) by (simp add: newest_first_def rev_swap)
  have "sorted (map ?f ?s)" by simp
  moreover have "w \<in> set ?s" using assms(2) by simp
  ultimately show ?thesis unfolding eq by (auto simp: sorted_append)
qed

text \<open>The versions the loop keeps, in its order.\<close>

fun kept_loop :: "tok set \<Rightarrow> bool \<Rightarrow> nat \<Rightarrow> bytes_t \<Rightarrow> version list \<Rightarrow> version list" where
  "kept_loop in_use first kept kept_bytes [] = []"
| "kept_loop in_use first kept kept_bytes (v # vs) =
     (if first \<or> ver_key v \<in> in_use \<or> affordable kept kept_bytes v
      then v # kept_loop in_use False (kept + 1) (kept_bytes + ver_size v) vs
      else kept_loop in_use False kept kept_bytes vs)"

lemma set_prune_loop: "set (prune_loop u f n b vs) \<subseteq> ver_key ` set vs - u"
  by (induction u f n b vs rule: prune_loop.induct) auto

lemma kept_loop_filter:
  "distinct (map ver_key vs) \<Longrightarrow>
   kept_loop u f n b vs = filter (\<lambda>v. ver_key v \<notin> set (prune_loop u f n b vs)) vs"
proof (induction u f n b vs rule: kept_loop.induct)
  case (1 u f n b)
  then show ?case by simp
next
  case (2 u f n b v vs)
  have nk: "ver_key v \<notin> ver_key ` set vs" using "2.prems" by simp
  then have drop: "ver_key v \<notin> set (prune_loop u g m c vs)" for g m c
    using set_prune_loop [of u g m c vs] by blast
  have skip: "filter (\<lambda>w. ver_key w \<notin> insert (ver_key v) A) vs = filter (\<lambda>w. ver_key w \<notin> A) vs" for A
    using nk by (intro filter_cong refl) (metis image_eqI insert_iff)
  from 2 drop skip show ?case by auto
qed

lemma kept_loop_budget:
  "i < length (kept_loop u f n b vs) \<Longrightarrow> (f \<Longrightarrow> 0 < i) \<Longrightarrow>
   ver_key (kept_loop u f n b vs ! i) \<notin> u \<Longrightarrow>
   affordable (n + i) (b + sum_list (map ver_size (take i (kept_loop u f n b vs))))
     (kept_loop u f n b vs ! i)"
proof (induction u f n b vs arbitrary: i rule: kept_loop.induct)
  case (1 u f n b)
  then show ?case by simp
next
  case (2 u f n b v vs)
  show ?case
  proof (cases "f \<or> ver_key v \<in> u \<or> affordable n b v")
    case False
    with 2 show ?thesis by auto
  next
    case True
    show ?thesis
    proof (cases i)
      case 0
      with True 2 show ?thesis by auto
    next
      case (Suc j)
      with True 2(1) [OF True, of j] 2(3-) show ?thesis by (auto simp: add.assoc)
    qed
  qed
qed

subsection \<open>The index is an advisory log\<close>

text \<open>What a reader can tell: the slot and the recorded version of each key.\<close>

definition version_view :: "version_state \<Rightarrow> tok \<Rightarrow> (tok \<times> version) option" where
  "version_view s key = (case map_of (vs_slot_of s) key of
       None \<Rightarrow> None
     | Some slot \<Rightarrow> map_option (\<lambda>v. (slot, v)) (map_of (slot_versions s slot) key))"

definition version_ok :: "version_state \<Rightarrow> bool" where
  "version_ok s \<longleftrightarrow> dict_ok (vs_slots s)
     \<and> (\<forall>key slot. map_of (vs_slot_of s) key = Some slot \<longleftrightarrow> map_of (slot_versions s slot) key \<noteq> None)
     \<and> (\<forall>key slot v. (key, v) \<in> set (slot_versions s slot) \<longrightarrow> ver_key v = key)
     \<and> (\<forall>slot. dict_ok (slot_versions s slot))"

lemma slot_versions_pop:
  "slot_versions (s\<lparr>vs_slots := slots_pop slot key (vs_slots s)\<rparr>) sl =
     (if sl = slot then AList.delete key (slot_versions s slot) else slot_versions s sl)"
  by (auto simp: slot_versions_def slots_pop_def map_of_update split: option.splits)

lemma slot_versions_put:
  "slot_versions (s\<lparr>vs_slots := slots_put slot v (vs_slots s)\<rparr>) sl =
     (if sl = slot then AList.update (ver_key v) v (slot_versions s slot) else slot_versions s sl)"
  by (auto simp: slot_versions_def slots_put_def map_of_update split: option.splits)

lemma slot_versions_slots: "slot_versions s = slot_versions (s\<lparr>vs_slot_of := m\<rparr>)"
  by (rule ext) (simp add: slot_versions_def)

lemma slot_versions_version_put:
  "slot_versions (version_put slot v s) sl =
     (if sl = slot then AList.update (ver_key v) v (slot_versions s slot)
      else if map_of (vs_slot_of s) (ver_key v) = Some sl then AList.delete (ver_key v) (slot_versions s sl)
      else slot_versions s sl)"
proof -
  let ?s = "s\<lparr>vs_slots := (case map_of (vs_slot_of s) (ver_key v) of
             None \<Rightarrow> vs_slots s
           | Some old \<Rightarrow> if old \<noteq> slot then slots_pop old (ver_key v) (vs_slots s) else vs_slots s)\<rparr>"
  have "slot_versions (version_put slot v s) sl = slot_versions (?s\<lparr>vs_slots := slots_put slot v (vs_slots ?s)\<rparr>) sl"
    by (simp add: version_put_def Let_def slot_versions_def)
  also have "\<dots> = (if sl = slot then AList.update (ver_key v) v (slot_versions ?s slot) else slot_versions ?s sl)"
    by (rule slot_versions_put)
  also have "slot_versions ?s x = (if x \<noteq> slot \<and> map_of (vs_slot_of s) (ver_key v) = Some x
      then AList.delete (ver_key v) (slot_versions s x) else slot_versions s x)" for x
    by (cases "map_of (vs_slot_of s) (ver_key v)") (auto simp: slot_versions_pop)
  ultimately show ?thesis by simp
qed

lemma slot_versions_version_pop:
  "slot_versions (version_pop key s) sl =
     (if map_of (vs_slot_of s) key = Some sl then AList.delete key (slot_versions s sl)
      else slot_versions s sl)"
proof (cases "map_of (vs_slot_of s) key")
  case None
  then show ?thesis by (simp add: version_pop_def)
next
  case (Some slot)
  have "slot_versions (version_pop key s) sl = slot_versions (s\<lparr>vs_slots := slots_pop slot key (vs_slots s)\<rparr>) sl"
    using Some by (simp add: version_pop_def slot_versions_def)
  with Some show ?thesis by (simp add: slot_versions_pop)
qed

lemma version_put_slot_of: "map_of (vs_slot_of (version_put slot v s)) = (map_of (vs_slot_of s))(ver_key v \<mapsto> slot)"
  by (simp add: version_put_def Let_def map_of_update)

lemma version_pop_slot_of: "map_of (vs_slot_of (version_pop key s)) = (map_of (vs_slot_of s))(key := None)"
  by (cases "map_of (vs_slot_of s) key") (auto simp: version_pop_def map_of_delete)

lemma dict_ok_slots_put: "dict_ok d \<Longrightarrow> dict_ok (slots_put slot v d)"
  by (simp add: slots_put_def dict_ok_update)

lemma dict_ok_slots_pop: "dict_ok d \<Longrightarrow> dict_ok (slots_pop slot key d)"
  by (simp add: slots_pop_def dict_ok_update split: option.splits)

lemma set_update_subset: "set (AList.update k v d) \<subseteq> insert (k, v) (set d)"
  by (induction d) auto

lemma set_delete_subset: "set (AList.delete k d) \<subseteq> set d"
  by (auto simp: AList.delete_eq)

lemma version_ok_start: "version_ok version_start"
  by (simp add: version_ok_def version_start_def slot_versions_def)

lemma version_ok_put:
  assumes ok: "version_ok s"
  shows "version_ok (version_put slot v s)"
  unfolding version_ok_def
proof (intro conjI allI impI)
  have d: "dict_ok (vs_slots s)" using ok by (simp add: version_ok_def)
  then show "dict_ok (vs_slots (version_put slot v s))"
    by (auto simp: version_put_def Let_def dict_ok_slots_pop intro!: dict_ok_slots_put split: option.splits)
  show "dict_ok (slot_versions (version_put slot v s) sl)" for sl
    using ok by (auto simp: slot_versions_version_put version_ok_def dict_ok_update dict_ok_delete)
  show "(map_of (vs_slot_of (version_put slot v s)) key = Some sl) =
      (map_of (slot_versions (version_put slot v s) sl) key \<noteq> None)" for key sl
  proof -
    have iff: "map_of (vs_slot_of s) key = Some sl \<longleftrightarrow> map_of (slot_versions s sl) key \<noteq> None" for sl
      using ok unfolding version_ok_def by blast
    then show ?thesis
      using iff [of slot] iff [of sl]
      by (cases "key = ver_key v")
        (simp_all add: slot_versions_version_put version_put_slot_of map_of_update map_of_delete)
  qed
  show "ver_key w = key" if "(key, w) \<in> set (slot_versions (version_put slot v s) sl)" for key sl w
    using that ok set_update_subset [of "ver_key v" v "slot_versions s slot"]
      set_delete_subset [of "ver_key v" "slot_versions s sl"]
    by (auto simp: slot_versions_version_put version_ok_def split: if_splits)
qed

lemma version_ok_pop:
  assumes ok: "version_ok s"
  shows "version_ok (version_pop key s)"
  unfolding version_ok_def
proof (intro conjI allI impI)
  have d: "dict_ok (vs_slots s)" using ok by (simp add: version_ok_def)
  then show "dict_ok (vs_slots (version_pop key s))"
    by (auto simp: version_pop_def dict_ok_slots_pop split: option.splits)
  show "dict_ok (slot_versions (version_pop key s) sl)" for sl
    using ok by (auto simp: slot_versions_version_pop version_ok_def dict_ok_delete)
  show "(map_of (vs_slot_of (version_pop key s)) k = Some sl) =
      (map_of (slot_versions (version_pop key s) sl) k \<noteq> None)" for k sl
  proof -
    have iff: "map_of (vs_slot_of s) k = Some sl \<longleftrightarrow> map_of (slot_versions s sl) k \<noteq> None"
      using ok unfolding version_ok_def by blast
    then show ?thesis
      by (cases "k = key") (simp_all add: slot_versions_version_pop version_pop_slot_of map_of_delete)
  qed
  show "ver_key w = k" if "(k, w) \<in> set (slot_versions (version_pop key s) sl)" for k sl w
    using that ok set_delete_subset [of key "slot_versions s sl"]
    by (auto simp: slot_versions_version_pop version_ok_def split: if_splits)
qed

lemma version_view_put:
  assumes "version_ok s"
  shows "version_view (version_put slot v s) = (version_view s)(ver_key v \<mapsto> (slot, v))"
proof
  fix key
  show "version_view (version_put slot v s) key = ((version_view s)(ver_key v \<mapsto> (slot, v))) key"
  proof (cases "key = ver_key v")
    case True
    then show ?thesis
      by (simp add: version_view_def version_put_slot_of slot_versions_version_put map_of_update)
  next
    case False
    then show ?thesis
      by (auto simp: version_view_def version_put_slot_of slot_versions_version_put map_of_update
          map_of_delete split: option.splits)
  qed
qed

lemma version_view_pop: "version_view (version_pop key s) = (version_view s)(key := None)"
  by (rule ext)
    (auto simp: version_view_def version_pop_slot_of slot_versions_version_pop map_of_delete split: option.splits)

text \<open>The effect of one line on the view.\<close>

definition view_line :: "(tok \<Rightarrow> (tok \<times> version) option) \<Rightarrow> log_line \<Rightarrow> (tok \<Rightarrow> (tok \<times> version) option)" where
  "view_line m parts = (case parts of
       [a, key] \<Rightarrow> if a = REMOVED then m(key := None) else m
     | [slot, key, sz, cost, used] \<Rightarrow>
         (case (py_int sz, py_float cost, py_float used) of
            (Some n, Some c, Some u) \<Rightarrow>
              m(key \<mapsto> (slot, \<lparr>ver_key = key, ver_size = n, ver_cost = c, ver_used = u\<rparr>))
          | _ \<Rightarrow> m)
     | _ \<Rightarrow> m)"

lemma version_ok_replay: "version_ok s \<Longrightarrow> version_ok (version_replay s l)"
  by (auto simp: version_replay_def version_ok_put version_ok_pop split: list.splits option.splits)

lemma version_view_replay: "version_ok s \<Longrightarrow> version_view (version_replay s l) = view_line (version_view s) l"
  by (auto simp: version_replay_def view_line_def version_view_put version_view_pop
      split: list.splits option.splits)

lemma version_view_foldl:
  "version_ok s \<Longrightarrow> version_view (foldl version_replay s ls) = foldl view_line (version_view s) ls"
proof (induction ls arbitrary: s)
  case Nil
  then show ?case by simp
next
  case (Cons l ls)
  from Cons.IH [OF version_ok_replay [OF Cons.prems]] show ?case
    by (simp add: version_view_replay [OF Cons.prems])
qed

lemma view_line_version_line: "view_line m (version_line slot v) = m(ver_key v \<mapsto> (slot, v))"
  by (cases v) (simp add: view_line_def version_line_def)

lemma foldl_view_lines:
  "foldl view_line m (map (\<lambda>(sl, v). version_line sl v) ps) k =
     (case map_of (rev (map (\<lambda>(sl, v). (ver_key v, (sl, v))) ps)) k of None \<Rightarrow> m k | Some x \<Rightarrow> Some x)"
proof (induction ps rule: rev_induct)
  case Nil
  then show ?case by simp
next
  case (snoc p ps)
  then show ?case by (cases p) (auto simp: view_line_version_line)
qed

text \<open>The versions of all slots, as \<open>_compact\<close> lists them.\<close>

definition all_versions :: "version_state \<Rightarrow> (tok \<times> version) list" where
  "all_versions s = concat (map (\<lambda>(slot, d). map (\<lambda>(k, v). (slot, v)) d) (vs_slots s))"

lemma version_render_all: "version_render s = map (\<lambda>(sl, v). version_line sl v) (all_versions s)"
  by (simp add: version_render_def all_versions_def map_concat split_def comp_def)

lemma all_versions_iff:
  assumes ok: "version_ok s"
  shows "(slot, v) \<in> set (all_versions s) \<longleftrightarrow> version_view s (ver_key v) = Some (slot, v)"
proof -
  have d: "dict_ok (vs_slots s)" and key: "\<And>key slot v. (key, v) \<in> set (slot_versions s slot) \<Longrightarrow> ver_key v = key"
    and dd: "\<And>slot. dict_ok (slot_versions s slot)"
    and iff: "\<And>key slot. map_of (vs_slot_of s) key = Some slot \<longleftrightarrow> map_of (slot_versions s slot) key \<noteq> None"
    using ok by (auto simp: version_ok_def)
  have "(slot, v) \<in> set (all_versions s) \<longleftrightarrow> (\<exists>k. (k, v) \<in> set (slot_versions s slot))"
    using d by (force simp: all_versions_def slot_versions_def map_of_eq_Some_iff split: option.splits)
  also have "\<dots> \<longleftrightarrow> (ver_key v, v) \<in> set (slot_versions s slot)" using key by blast
  also have "\<dots> \<longleftrightarrow> map_of (slot_versions s slot) (ver_key v) = Some v"
    using dd [of slot] by (simp add: map_of_eq_Some_iff)
  also have "\<dots> \<longleftrightarrow> version_view s (ver_key v) = Some (slot, v)"
    using iff [of "ver_key v" slot] by (auto simp: version_view_def split: option.splits)
  finally show ?thesis .
qed

lemma version_view_key:
  assumes "version_ok s" and "version_view s k = Some (slot, v)"
  shows "ver_key v = k"
  using assms by (auto simp: version_view_def version_ok_def split: option.splits dest!: map_of_SomeD)

lemma version_view_render:
  assumes ok: "version_ok s"
  shows "version_view (foldl version_replay version_start (version_render s)) = version_view s"
proof
  fix k
  let ?ps = "rev (map (\<lambda>(sl, v). (ver_key v, (sl, v))) (all_versions s))"
  have start: "version_view version_start k = None"
    by (simp add: version_view_def version_start_def)
  have in_ps: "(k, x) \<in> set ?ps \<longleftrightarrow> version_view s k = Some x" for x
  proof (cases x)
    case (Pair sl v)
    have "(k, x) \<in> set ?ps \<longleftrightarrow> ver_key v = k \<and> (sl, v) \<in> set (all_versions s)"
      unfolding Pair by auto
    then show ?thesis
      using all_versions_iff [OF ok, of sl v] version_view_key [OF ok, of k sl v] Pair by blast
  qed
  have "map_of ?ps k = version_view s k"
  proof (cases "map_of ?ps k")
    case None
    then have "k \<notin> fst ` set ?ps" by (simp only: map_of_eq_None_iff not_False_eq_True)
    then have "\<forall>x. (k, x) \<notin> set ?ps" by force
    then have "version_view s k = None" using in_ps by (cases "version_view s k") auto
    with None show ?thesis by simp
  next
    case (Some x)
    then have "(k, x) \<in> set ?ps" by (rule map_of_SomeD)
    with in_ps have "version_view s k = Some x" by blast
    with Some show ?thesis by simp
  qed
  then show "version_view (foldl version_replay version_start (version_render s)) k = version_view s k"
    using foldl_view_lines [of "version_view version_start" "all_versions s" k] start
    by (simp add: version_view_foldl [OF version_ok_start] version_render_all split: option.splits)
qed

interpretation version_log: advisory_log version_replay version_start version_render version_view version_ok
proof
  show "version_ok version_start" by (rule version_ok_start)
  show "version_ok (version_replay s l)" if "version_ok s" for s l
    using that by (rule version_ok_replay)
  show "version_view (version_replay s l) = version_view (version_replay t l)"
    if "version_ok s" "version_ok t" "version_view s = version_view t" for s t l
    using that by (simp add: version_view_replay)
  show "version_view (foldl version_replay version_start (version_render s)) = version_view s"
    if "version_ok s" for s
    using that by (rule version_view_render)
qed

definition versions_ok :: "(tok \<times> version) list \<Rightarrow> bool" where
  "versions_ok d \<longleftrightarrow> dict_ok d \<and> (\<forall>(k, v) \<in> set d. ver_key v = k)"

lemma versions_ok_slot: "version_ok s \<Longrightarrow> versions_ok (slot_versions s slot)"
  by (auto simp: versions_ok_def version_ok_def)

lemma map_key_older:
  "\<forall>(k, v) \<in> set d. ver_key v = k \<Longrightarrow>
   map ver_key [v. (k, v) \<leftarrow> d, k \<noteq> current] = filter (\<lambda>k. k \<noteq> current) (map fst d)"
  by (induction d) auto

lemma distinct_older: "versions_ok d \<Longrightarrow> distinct (map ver_key (older_versions d current))"
  unfolding older_versions_def versions_ok_def
  by (intro distinct_newest_first) (simp add: map_key_older distinct_filter)

lemma set_older: "set (older_versions d current) = {v. \<exists>k. (k, v) \<in> set d \<and> k \<noteq> current}"
  by (auto simp: older_versions_def)

lemma kept_superseded:
  "versions_ok d \<Longrightarrow> filter (\<lambda>v. ver_key v \<notin> set (superseded_to_drop d current u)) (older_versions d current)
     = kept_loop u True 0 0 (older_versions d current)"
  unfolding superseded_to_drop_def by (rule kept_loop_filter [OF distinct_older, symmetric])

subsection \<open>Properties\<close>

text \<open>
  Pruning never takes a version that may be asked for next. What
  \<open>superseded_to_drop\<close> returns are keys of the slot other than the current version's,
  none of them in use by this process, and never the most recently used of the older
  versions (the one an undo goes back to).
\<close>

theorem superseded_to_drop_spares:
  assumes ok: "versions_ok versions"
  shows "set (superseded_to_drop versions current in_use) \<subseteq> fst ` set versions - {current} - in_use
    \<and> (\<forall>v rest. older_versions versions current = v # rest \<longrightarrow>
         ver_key v \<notin> set (superseded_to_drop versions current in_use)
         \<and> (\<forall>(k, w) \<in> set versions. k \<noteq> current \<longrightarrow> used_rank (ver_used w) \<le> used_rank (ver_used v)))"
proof (intro conjI allI impI)
  have "set (superseded_to_drop versions current in_use) \<subseteq> ver_key ` set (older_versions versions current) - in_use"
    unfolding superseded_to_drop_def by (rule set_prune_loop)
  also have "\<dots> \<subseteq> fst ` set versions - {current} - in_use"
    using ok by (force simp: set_older versions_ok_def)
  finally show "set (superseded_to_drop versions current in_use) \<subseteq> fst ` set versions - {current} - in_use" .
next
  fix v rest
  assume hd: "older_versions versions current = v # rest"
  have "ver_key v \<notin> ver_key ` set rest" using distinct_older [OF ok, of current] hd by simp
  with set_prune_loop [of in_use False 1 "ver_size v" rest]
  show "ver_key v \<notin> set (superseded_to_drop versions current in_use)"
    by (auto simp: superseded_to_drop_def hd)
  show "\<forall>(k, w) \<in> set versions. k \<noteq> current \<longrightarrow> used_rank (ver_used w) \<le> used_rank (ver_used v)"
    using newest_first_head [OF hd [unfolded older_versions_def]] by force
qed

definition demo_version :: "string \<Rightarrow> int \<Rightarrow> real \<Rightarrow> real \<Rightarrow> tok \<times> version" where
  "demo_version k n c u = (TWord k, \<lparr>ver_key = TWord k, ver_size = n, ver_cost = Fin c, ver_used = Fin u\<rparr>)"

theorem superseded_to_drop_spares_witness:
  "let vs = [demo_version ''a'' (2 ^ 30) 1 10, demo_version ''b'' (2 ^ 30) 1 30,
             demo_version ''c'' (2 ^ 30) 1 20, demo_version ''d'' (2 ^ 30) 1 40]
   in superseded_to_drop vs (TWord ''d'') {} = [TWord ''c'', TWord ''a'']
      \<and> set (superseded_to_drop vs (TWord ''d'') {}) \<subseteq> fst ` set vs - {TWord ''d''} - {}"
proof -
  let ?vs = "[demo_version ''a'' (2 ^ 30) 1 10, demo_version ''b'' (2 ^ 30) 1 30,
              demo_version ''c'' (2 ^ 30) 1 20, demo_version ''d'' (2 ^ 30) 1 40]"
  have ok: "versions_ok ?vs" by (simp add: versions_ok_def demo_version_def)
  have "superseded_to_drop ?vs (TWord ''d'') {} = [TWord ''c'', TWord ''a'']"
    by (simp add: superseded_to_drop_def older_versions_def newest_first_def demo_version_def
        affordable_def MAX_SUPERSEDED_def BYTES_PER_COMPUTE_SECOND_def insort_key.simps)
  with superseded_to_drop_spares [OF ok, of "TWord ''d''" "{}"] show ?thesis
    unfolding Let_def by blast
qed

text \<open>
  What pruning keeps stays within its budget. Among the older versions left, newest
  first, any that is neither the newest nor in use has fewer than sixteen kept before it,
  and all kept up to it take at most 64 MiB for each second it took to compute.
\<close>

theorem superseded_kept_within_budget:
  assumes ok: "versions_ok versions"
    and kept: "kept = filter (\<lambda>v. ver_key v \<notin> set (superseded_to_drop versions current in_use))
                        (older_versions versions current)"
    and i: "0 < i" "i < length kept" and free: "ver_key (kept ! i) \<notin> in_use"
    and cost: "ver_cost (kept ! i) = Fin c"
  shows "i < MAX_SUPERSEDED
    \<and> of_int (sum_list (map ver_size (take (Suc i) kept))) \<le> of_int BYTES_PER_COMPUTE_SECOND * max c 0"
proof -
  have k: "kept = kept_loop in_use True 0 0 (older_versions versions current)"
    unfolding kept by (rule kept_superseded [OF ok])
  have "affordable i (sum_list (map ver_size (take i kept))) (kept ! i)"
    using kept_loop_budget [of i in_use True 0 0 "older_versions versions current"] i free
    unfolding k [symmetric] by simp
  then show ?thesis
    using i(2) cost by (simp add: affordable_def take_Suc_conv_app_nth add.commute)
qed

theorem superseded_kept_within_budget_witness:
  "\<exists>kept. kept = map snd [demo_version ''b'' 100 1 30, demo_version ''a'' 200 1 10]
     \<and> of_int (sum_list (map ver_size (take (Suc 1) kept))) \<le> of_int BYTES_PER_COMPUTE_SECOND * max (1::real) 0"
proof -
  let ?vs = "[demo_version ''a'' 200 1 10, demo_version ''b'' 100 1 30, demo_version ''d'' 1 1 40]"
  let ?kept = "map snd [demo_version ''b'' 100 1 30, demo_version ''a'' 200 1 10]"
  have ok: "versions_ok ?vs" by (simp add: versions_ok_def demo_version_def)
  have old: "older_versions ?vs (TWord ''d'') = ?kept"
    by (simp add: older_versions_def newest_first_def demo_version_def insort_key.simps)
  have k: "?kept = filter (\<lambda>v. ver_key v \<notin> set (superseded_to_drop ?vs (TWord ''d'') {}))
      (older_versions ?vs (TWord ''d''))"
    unfolding superseded_to_drop_def old
    by (simp add: demo_version_def affordable_def MAX_SUPERSEDED_def BYTES_PER_COMPUTE_SECOND_def)
  from superseded_kept_within_budget [OF ok k, of 1 1] show ?thesis
    by (simp add: demo_version_def)
qed

text \<open>
  rewriting the version index loses no version and no slot: a reader of the
  rewritten file, and of anything other processes append to it, finds every key in the
  same slot with the same size, cost and last use as a reader of the long file.
\<close>

theorem version_compact_invisible:
  "version_view (foldl version_replay version_start
      (version_render (foldl version_replay version_start ls) @ later))
   = version_view (foldl version_replay version_start (ls @ later))"
  by (rule version_log.rewrite_invisible)

text \<open>
  What one process records, the next one reads. After a \<open>record\<close> whose line was
  written to the file, a fresh process that loads the index finds the key in that slot
  with what was recorded, and every other key as it was; the versions returned are
  exactly the slot's, the new one among them, and a consistent index stays consistent.
\<close>

theorem version_record_visible:
  assumes fresh: "vx_state x = None" and names: "valid_name slot" "valid_name key"
    and rec: "vx_record True True slot key sz cost used x = (x', vs)"
    and other: "vx_load True (x'\<lparr>vx_state := None\<rparr>) = y"
    and before: "vx_load True x = x0"
  shows "version_view (the (vx_state y)) = (version_view (the (vx_state x0)))
      (key \<mapsto> (slot, \<lparr>ver_key = key, ver_size = sz, ver_cost = cost, ver_used = used\<rparr>))
    \<and> versions_ok vs \<and> map_of vs key = Some \<lparr>ver_key = key, ver_size = sz, ver_cost = cost, ver_used = used\<rparr>"
proof -
  let ?v = "\<lparr>ver_key = key, ver_size = sz, ver_cost = cost, ver_used = used\<rparr>"
  let ?ls = "case vx_file x of None \<Rightarrow> [] | Some ls \<Rightarrow> ls"
  let ?s = "foldl version_replay version_start ?ls"
  have ok: "version_ok ?s" by (rule version_log.ok_foldl [OF version_ok_start])
  have x0: "the (vx_state x0) = ?s"
    using before fresh by (auto simp: vx_load_def split: option.splits)
  have st: "the (vx_state (vx_load True x)) = ?s" and fl: "vx_file (vx_load True x) = vx_file x"
    using fresh by (auto simp: vx_load_def split: option.splits)
  have vs: "vs = slot_versions (version_put slot ?v ?s) slot"
    and f: "vx_file x' = Some (?ls @ [version_line slot ?v])"
    using rec names by (auto simp: vx_record_def Let_def st vx_append_def fl split: option.splits)
  have "the (vx_state y) = foldl version_replay version_start (?ls @ [version_line slot ?v])"
    using other f by (auto simp: vx_load_def)
  then have "version_view (the (vx_state y)) = (version_view ?s)(key \<mapsto> (slot, ?v))"
    using ok by (simp add: version_view_replay view_line_version_line)
  moreover have "versions_ok vs" unfolding vs by (rule versions_ok_slot [OF version_ok_put [OF ok]])
  moreover have "map_of vs key = Some ?v"
    unfolding vs by (simp add: slot_versions_version_put map_of_update)
  ultimately show ?thesis using x0 by simp
qed

theorem version_record_visible_witness:
  "version_view (the (vx_state (vx_load True
     ((fst (vx_record True True (TWord ''s'') (TWord ''k'') 5 (Fin 1) (Fin 2)
        \<lparr>vx_state = None, vx_lines = 0, vx_file = None\<rparr>))\<lparr>vx_state := None\<rparr>)))) (TWord ''k'')
   = Some (TWord ''s'', \<lparr>ver_key = TWord ''k'', ver_size = 5, ver_cost = Fin 1, ver_used = Fin 2\<rparr>)"
proof -
  let ?x = "\<lparr>vx_state = None, vx_lines = 0, vx_file = None\<rparr>"
  obtain x' vs where r: "vx_record True True (TWord ''s'') (TWord ''k'') 5 (Fin 1) (Fin 2) ?x = (x', vs)"
    by (cases "vx_record True True (TWord ''s'') (TWord ''k'') 5 (Fin 1) (Fin 2) ?x")
  show ?thesis
    using version_record_visible [OF _ _ _ r refl refl] r by (simp add: of_char_of)
qed

end
