(* ===== verification/Byte_Codec.thy ===== *)
theory Byte_Codec
  imports Prelude "HOL-Library.Word"
begin

text \<open>
  The parts of Python's \<open>struct\<close> and \<open>zlib\<close> the entry layout uses: fixed-width unsigned
  integers in little- and big-endian bytes, and the CRC-32 of \<open>zlib.crc32\<close> with its
  running value. The checksum is the real one, bit by bit, so that what it detects is
  proved, not assumed.
\<close>

unbundle bit_operations_syntax

named_theorems codec_simps \<open>lengths and inverses of the fixed-width encodings\<close>

type_synonym byte = "8 word"

subsection \<open>Fixed-width integers\<close>

fun le_bytes :: "nat \<Rightarrow> nat \<Rightarrow> byte list" where
  "le_bytes 0 n = []"
| "le_bytes (Suc k) n = of_nat n # le_bytes k (n div 256)"

fun le_nat :: "byte list \<Rightarrow> nat" where
  "le_nat [] = 0"
| "le_nat (b # bs) = unat b + 256 * le_nat bs"

text \<open>\<open>struct.pack\<close> of an unsigned field of \<open>k\<close> bytes; \<open>None\<close> is \<open>struct.error\<close>.\<close>

definition pack_uint :: "nat \<Rightarrow> nat \<Rightarrow> byte list option" where
  "pack_uint k n = (if n < 256 ^ k then Some (le_bytes k n) else None)"

text \<open>\<open>struct.pack\<close> of an \<open>Ns\<close> field: cut or zero-padded to \<open>k\<close> bytes.\<close>

definition pack_str :: "nat \<Rightarrow> byte list \<Rightarrow> byte list" where
  "pack_str k bs = take k (bs @ replicate k 0)"

lemma unat_byte: "unat (b :: byte) < 256"
  using unsigned_less [of b, where ?'a = nat] by simp

lemma length_le_bytes [simp, codec_simps]: "length (le_bytes k n) = k"
  by (induction k arbitrary: n) auto

lemma le_nat_le_bytes [codec_simps]: "n < 256 ^ k \<Longrightarrow> le_nat (le_bytes k n) = n"
proof (induction k arbitrary: n)
  case 0
  then show ?case by simp
next
  case (Suc k)
  then have "n div 256 < 256 ^ k" by (simp add: less_mult_imp_div_less mult.commute)
  with Suc.IH show ?case by (simp add: unat_of_nat)
qed

lemma le_nat_bound: "le_nat bs < 256 ^ length bs"
proof (induction bs)
  case Nil
  then show ?case by simp
next
  case (Cons b bs)
  have "unat b < 256" by (rule unat_byte)
  with Cons show ?case by simp
qed

lemma le_bytes_le_nat [codec_simps]: "le_bytes (length bs) (le_nat bs) = bs"
proof (induction bs)
  case Nil
  then show ?case by simp
next
  case (Cons b bs)
  have b: "unat b < 256" by (rule unat_byte)
  then have "(unat b + 256 * le_nat bs) div 256 = le_nat bs" by simp
  moreover have "of_nat (unat b + 256 * le_nat bs) = b"
  proof -
    have "of_nat 256 = (0 :: byte)" by code_simp
    then have "of_nat (256 * le_nat bs) = (0 :: byte)" unfolding of_nat_mult by (simp only: mult_zero_left)
    then show ?thesis unfolding of_nat_add by (simp only:) simp
  qed
  ultimately show ?case using Cons by simp
qed

lemma pack_str_exact [codec_simps]: "length bs = k \<Longrightarrow> pack_str k bs = bs"
  by (simp add: pack_str_def)

lemma length_pack_str [simp]: "length (pack_str k bs) = k"
  by (simp add: pack_str_def)

subsection \<open>CRC-32\<close>

definition CRC_POLY :: "32 word" where
  "CRC_POLY = 0xEDB88320"

definition crc_shift :: "32 word \<Rightarrow> 32 word" where
  "crc_shift c = drop_bit 1 c XOR (if bit c 0 then CRC_POLY else 0)"

definition crc_byte :: "32 word \<Rightarrow> byte \<Rightarrow> 32 word" where
  "crc_byte c b = (crc_shift ^^ 8) (c XOR ucast b)"

text \<open>\<open>zlib.crc32(data, crc)\<close>.\<close>

definition crc32 :: "byte list \<Rightarrow> 32 word \<Rightarrow> 32 word" where
  "crc32 data crc = NOT (foldl crc_byte (NOT crc) data)"

lemma crc32_append: "crc32 (xs @ ys) crc = crc32 ys (crc32 xs crc)"
  by (simp add: crc32_def)

lemma crc32_concat: "foldl (\<lambda>crc chunk. crc32 chunk crc) crc chunks = crc32 (concat chunks) crc"
  by (induction chunks arbitrary: crc) (simp_all add: crc32_append, simp add: crc32_def)

text \<open>The shift loses nothing: the polynomial's top bit says whether the low bit was set.\<close>

lemma crc_shift_top: "bit (crc_shift c) 31 \<longleftrightarrow> bit c 0"
proof -
  have "\<not> bit c (Suc 31)" using bit_imp_le_length [of c "Suc 31"] by auto
  then have "\<not> bit (drop_bit 1 c) 31" by (simp add: bit_drop_bit_eq)
  moreover have "bit CRC_POLY 31" by (simp add: CRC_POLY_def)
  ultimately show ?thesis by (simp add: crc_shift_def bit_xor_iff)
qed

lemma xor_cancel: "a XOR b = c XOR b \<longleftrightarrow> a = c" for a b c :: "'a::len word"
  by (metis xor.assoc xor_self_eq xor.right_neutral)

lemma crc_shift_inj: "crc_shift c = crc_shift d \<Longrightarrow> c = d"
proof -
  assume eq: "crc_shift c = crc_shift d"
  then have b0: "bit c 0 \<longleftrightarrow> bit d 0" by (metis crc_shift_top)
  from eq b0 have dr: "drop_bit 1 c = drop_bit 1 d" by (simp add: crc_shift_def xor_cancel)
  show "c = d"
  proof (rule bit_word_eqI)
    fix n
    assume "n < LENGTH(32)"
    show "bit c n \<longleftrightarrow> bit d n"
    proof (cases n)
      case 0
      with b0 show ?thesis by simp
    next
      case (Suc m)
      have "bit (drop_bit 1 c) m \<longleftrightarrow> bit (drop_bit 1 d) m" using dr by simp
      with Suc show ?thesis by (simp add: bit_drop_bit_eq)
    qed
  qed
qed

lemma crc_shifts_inj: "(crc_shift ^^ n) c = (crc_shift ^^ n) d \<Longrightarrow> c = d"
  by (induction n) (auto dest: crc_shift_inj)

lemma crc_byte_inj_state: "crc_byte c b = crc_byte d b \<Longrightarrow> c = d"
  unfolding crc_byte_def by (drule crc_shifts_inj) (simp only: xor_cancel)

lemma ucast_byte_inj: "(ucast a :: 32 word) = ucast b \<Longrightarrow> a = b" for a b :: byte
proof (rule bit_word_eqI)
  fix n
  assume eq: "(ucast a :: 32 word) = ucast b" and n: "n < LENGTH(8)"
  then have "bit (ucast a :: 32 word) n \<longleftrightarrow> bit (ucast b :: 32 word) n" by simp
  with n show "bit a n \<longleftrightarrow> bit b n" by (simp add: bit_ucast_iff)
qed

lemma crc_byte_inj_byte: "crc_byte c a = crc_byte c b \<Longrightarrow> a = b"
proof -
  assume "crc_byte c a = crc_byte c b"
  then have "c XOR ucast a = c XOR (ucast b :: 32 word)"
    unfolding crc_byte_def by (rule crc_shifts_inj)
  then have "(ucast a :: 32 word) = ucast b"
    by (simp only: xor.commute [of c] xor_cancel)
  then show "a = b" by (rule ucast_byte_inj)
qed

lemma crc_foldl_inj: "foldl crc_byte c ys = foldl crc_byte d ys \<Longrightarrow> c = d"
  by (induction ys arbitrary: c d) (auto dest: crc_byte_inj_state)

text \<open>Two texts that differ in exactly one byte never share a checksum.\<close>

lemma crc32_one_byte:
  assumes "a \<noteq> b"
  shows "crc32 (xs @ a # ys) crc \<noteq> crc32 (xs @ b # ys) crc"
proof
  assume "crc32 (xs @ a # ys) crc = crc32 (xs @ b # ys) crc"
  then have "foldl crc_byte (crc_byte (foldl crc_byte (NOT crc) xs) a) ys
      = foldl crc_byte (crc_byte (foldl crc_byte (NOT crc) xs) b) ys"
    by (simp add: crc32_def)
  then have "crc_byte (foldl crc_byte (NOT crc) xs) a = crc_byte (foldl crc_byte (NOT crc) xs) b"
    by (rule crc_foldl_inj)
  with assms show False by (auto dest: crc_byte_inj_byte)
qed

text \<open>\<open>crc.to_bytes(4, "big")\<close>.\<close>

definition crc_bytes :: "32 word \<Rightarrow> byte list" where
  "crc_bytes c = rev (le_bytes 4 (unat c))"

lemma length_crc_bytes [simp]: "length (crc_bytes c) = 4"
  by (simp add: crc_bytes_def)

lemma crc_bytes_inj: "crc_bytes c = crc_bytes d \<Longrightarrow> c = d"
proof -
  assume "crc_bytes c = crc_bytes d"
  then have "le_nat (le_bytes 4 (unat c)) = le_nat (le_bytes 4 (unat d))" by (simp add: crc_bytes_def)
  moreover have "unat c < 256 ^ 4" "unat d < 256 ^ 4"
    using unsigned_less [of c, where ?'a = nat] unsigned_less [of d, where ?'a = nat] by simp_all
  ultimately have "unat c = unat d" by (simp add: le_nat_le_bytes)
  then show "c = d" by (simp add: word_unat_eq_iff)
qed

subsection \<open>Evaluation\<close>

lemma crc_shift_8:
  "(crc_shift ^^ 8) c = crc_shift (crc_shift (crc_shift (crc_shift (crc_shift (crc_shift (crc_shift (crc_shift c)))))))"
  by (simp add: eval_nat_numeral)

lemma crc_shift_numeral:
  "crc_shift (numeral n) =
     (if odd (numeral n :: 32 word) then drop_bit 1 (numeral n) XOR CRC_POLY else drop_bit 1 (numeral n))"
  by (simp add: crc_shift_def bit_0)

lemma crc_start: "NOT (0 :: 32 word) = 0xFFFFFFFF"
  by simp

lemmas crc_eval = crc_byte_def crc_shift_8 crc_shift_numeral CRC_POLY_def

text \<open>The published check value of this CRC: the text \<open>123456789\<close> has \<open>0xCBF43926\<close>.\<close>

lemma crc32_check_value: "crc32 [49, 50, 51, 52, 53, 54, 55, 56, 57] 0 = 0xCBF43926"
  unfolding crc32_def crc_start by (simp add: crc_eval)

end
