(* ===== verification/Chunk_Read.thy ===== *)
theory Chunk_Read
  imports Byte_Codec "HOL-Library.Multiset"
begin

text \<open>
  Reading the chunk store of a cache folder (\<open>src/cash/backends/chunk_store.py\<close>): the
  big buffers an entry keeps apart, each in a chunk file of its own or at an offset in a
  pack, always checked against the crc32 the entry recorded.

  The folder's \<open>chunks/\<close> directory is a dictionary from file name to the file's bytes and
  its mtime in nanoseconds. A file that cannot be opened is one that is not there. Whether a
  mapping of a file succeeds is an argument; a mapping and a read give the same bytes.
\<close>

record chunk_file =
  cf_data :: "byte list"
  cf_mtime :: int

type_synonym chunk_dir = "(string \<times> chunk_file) list"
type_synonym digest = "byte list"
type_synonym crc = "byte list"

text \<open>Where a chunk is: file name, offset, bytes, crc32. In an entry's metadata the crc32
  is in hex and the whole keyed by the digest in hex.\<close>

type_synonym place = "string \<times> int \<times> int \<times> crc"
type_synonym meta_places = "(string \<times> (string \<times> int \<times> int \<times> string)) list"

datatype chunk_error =
    ChunkMissing string
  | ChunkSize string
  | ChunkDamaged string
  | ChunkPlaced digest
  | PackPlace string int
  | PackClash string int
  | DamagedChunk string int

definition CHUNK_SUFFIX :: string where
  "CHUNK_SUFFIX = ''.chunk''"

definition PACK_SUFFIX :: string where
  "PACK_SUFFIX = ''.pack''"

definition TRAILER :: nat where
  "TRAILER = 4"

definition PACK_ALIGN :: nat where
  "PACK_ALIGN = 64"

definition MAP_MIN_BYTES :: nat where
  "MAP_MIN_BYTES = 1048576"

definition endswith :: "string \<Rightarrow> string \<Rightarrow> bool" where
  "endswith s suffix = (length suffix \<le> length s \<and> drop (length s - length suffix) s = suffix)"

text \<open>\<open>bytes.hex\<close>.\<close>

definition hex_digit :: "nat \<Rightarrow> char" where
  "hex_digit n = ''0123456789abcdef'' ! n"

definition hex :: "byte list \<Rightarrow> string" where
  "hex bs = concat (map (\<lambda>b. [hex_digit (unat b div 16), hex_digit (unat b mod 16)]) bs)"

text \<open>\<open>bytes.fromhex\<close> on lower-case digits; \<open>None\<close> is the \<open>ValueError\<close>.\<close>

definition unhex_digit :: "char \<Rightarrow> nat option" where
  "unhex_digit c = map_of (zip ''0123456789abcdef'' [0..<16]) c"

fun fromhex :: "string \<Rightarrow> byte list option" where
  "fromhex [] = Some []"
| "fromhex [c] = None"
| "fromhex (c # d # cs) = (case (unhex_digit c, unhex_digit d, fromhex cs) of
     (Some h, Some l, Some bs) \<Rightarrow> Some (of_nat (16 * h + l) # bs)
   | _ \<Rightarrow> None)"

lemma unhex_hex_digit: "n < 16 \<Longrightarrow> unhex_digit (hex_digit n) = Some n"
proof -
  have "\<forall>n \<in> set [0..<16]. unhex_digit (hex_digit n) = Some n" by code_simp
  then show "n < 16 \<Longrightarrow> ?thesis" by simp
qed

lemma fromhex_hex [codec_simps]: "fromhex (hex bs) = Some bs"
proof (induction bs)
  case Nil
  then show ?case by (simp add: hex_def)
next
  case (Cons b bs)
  have "unat b div 16 < 16" using unat_byte [of b] by simp
  moreover have "word_of_nat (16 * (unat b div 16) + unat b mod 16) = b" by simp
  ultimately show ?case using Cons by (simp add: hex_def unhex_hex_digit)
qed

lemma hex_inj: "hex a = hex b \<longleftrightarrow> a = b"
  by (metis fromhex_hex option.inject)

definition chunk_name :: "digest \<Rightarrow> string" where
  "chunk_name digest = hex digest @ CHUNK_SUFFIX"

definition aligned :: "nat \<Rightarrow> nat" where
  "aligned offset = (PACK_ALIGN - offset mod PACK_ALIGN) mod PACK_ALIGN"

definition checksum :: "byte list \<Rightarrow> crc" where
  "checksum data = crc_bytes (crc32 data 0)"

lemma length_checksum [simp]: "length (checksum data) = 4"
  by (simp add: checksum_def)

text \<open>\<open>fh.seek(pos)\<close> and \<open>readinto\<close> until \<open>n\<close> bytes are there.\<close>

definition read_into :: "byte list \<Rightarrow> nat \<Rightarrow> nat \<Rightarrow> 'e \<Rightarrow> 'e + byte list" where
  "read_into fdata pos n e = (if pos + n \<le> length fdata then Inr (take n (drop pos fdata)) else Inl e)"

text \<open>\<open>_discard\<close>: \<open>removable\<close> says whether the removal succeeds.\<close>

definition discard :: "bool \<Rightarrow> string \<Rightarrow> chunk_dir \<Rightarrow> chunk_dir" where
  "discard removable name dir = (if removable then AList.delete name dir else dir)"

definition read_chunk ::
  "bool \<Rightarrow> bool \<Rightarrow> chunk_dir \<Rightarrow> digest \<Rightarrow> nat \<Rightarrow> crc \<Rightarrow> chunk_dir \<times> (chunk_error + byte list)" where
  "read_chunk can_map removable dir digest nbytes crc = (
     let name = chunk_name digest in
     case map_of dir name of
       None \<Rightarrow> (dir, Inl (ChunkMissing name))
     | Some f \<Rightarrow>
         if length (cf_data f) \<noteq> nbytes + TRAILER then (dir, Inl (ChunkSize name))
         else (case (if can_map \<and> MAP_MIN_BYTES \<le> nbytes then Inr (take nbytes (cf_data f))
                     else read_into (cf_data f) 0 nbytes (ChunkMissing name)) of
             Inl e \<Rightarrow> (dir, Inl e)
           | Inr data \<Rightarrow>
               if checksum data \<noteq> crc then (discard removable name dir, Inl (ChunkDamaged name))
               else (dir, Inr data)))"

text \<open>The bytes a read of \<open>n\<close> bytes at an offset finds.\<close>

definition bytes_at :: "byte list \<Rightarrow> int \<Rightarrow> nat \<Rightarrow> byte list" where
  "bytes_at fdata offset n = take n (drop (nat offset) fdata)"

text \<open>A member of a pack to read: buffer index, offset, bytes, crc32.\<close>

type_synonym pack_member = "nat \<times> int \<times> nat \<times> crc"

text \<open>The loop of \<open>_read_pack\<close>: \<open>first\<close> maps each offset read to the buffer read there.\<close>

fun read_members ::
  "bool \<Rightarrow> string \<Rightarrow> byte list \<Rightarrow> (int \<times> (nat \<times> nat \<times> crc)) list \<Rightarrow> (nat \<times> byte list) list
    \<Rightarrow> pack_member list \<Rightarrow> chunk_error + (nat \<times> byte list) list" where
  "read_members mapped name fdata first out [] = Inr out"
| "read_members mapped name fdata first out ((index, offset, nbytes, crc) # members) =
     (case map_of first offset of
        Some (src, sz, want) \<Rightarrow>
          if (sz, want) \<noteq> (nbytes, crc) then Inl (PackClash name offset)
          else read_members mapped name fdata first (AList.update index (the (map_of out src)) out) members
      | None \<Rightarrow>
          and_then (if mapped then Inr (bytes_at fdata offset nbytes)
                    else read_into fdata (nat offset) nbytes (ChunkMissing name)) (\<lambda>data.
          if checksum data \<noteq> crc then Inl (DamagedChunk name offset)
          else read_members mapped name fdata (AList.update offset (index, nbytes, crc) first)
                 (AList.update index data out) members))"

definition pack_member_fits :: "nat \<Rightarrow> pack_member \<Rightarrow> bool" where
  "pack_member_fits sz m = (case m of (_, offset, nbytes, _) \<Rightarrow>
     0 \<le> offset \<and> offset mod int PACK_ALIGN = 0 \<and> offset + int nbytes + int TRAILER \<le> int sz)"

definition read_pack ::
  "bool \<Rightarrow> chunk_dir \<Rightarrow> string \<Rightarrow> pack_member list \<Rightarrow> chunk_error + (nat \<times> byte list) list" where
  "read_pack can_map dir name members = (case map_of dir name of
       None \<Rightarrow> Inl (ChunkMissing name)
     | Some f \<Rightarrow> (case find (\<lambda>m. \<not> pack_member_fits (length (cf_data f)) m) members of
           Some m \<Rightarrow> Inl (PackPlace name (fst (snd m)))
         | None \<Rightarrow> read_members
             (can_map \<and> MAP_MIN_BYTES \<le> sum_list (map (\<lambda>(_, _, nbytes, _). nbytes) members))
             name (cf_data f) [] [] members))"

text \<open>The first loop of \<open>read_chunks\<close>: chunk files are read at once, members of packs are
  collected per file, in order.\<close>

definition by_file_add :: "string \<Rightarrow> pack_member \<Rightarrow> (string \<times> pack_member list) list
    \<Rightarrow> (string \<times> pack_member list) list" where
  "by_file_add name m by_file =
     AList.update name ((case map_of by_file name of None \<Rightarrow> [] | Some ms \<Rightarrow> ms) @ [m]) by_file"

fun collect_chunks ::
  "bool \<Rightarrow> bool \<Rightarrow> nat list \<Rightarrow> meta_places option \<Rightarrow> chunk_dir
    \<Rightarrow> (string \<times> pack_member list) list \<Rightarrow> (nat \<times> byte list) list \<Rightarrow> (nat \<times> digest \<times> crc) list
    \<Rightarrow> chunk_dir \<times> (chunk_error + (string \<times> pack_member list) list \<times> (nat \<times> byte list) list)" where
  "collect_chunks can_map removable lengths places dir by_file out [] = (dir, Inr (by_file, out))"
| "collect_chunks can_map removable lengths places dir by_file out ((index, digest, crc) # wanted) =
     (case map_of (case places of None \<Rightarrow> [] | Some ps \<Rightarrow> ps) (hex digest) of
        None \<Rightarrow> (case read_chunk can_map removable dir digest (lengths ! index) crc of
            (dir', Inl e) \<Rightarrow> (dir', Inl e)
          | (dir', Inr data) \<Rightarrow> collect_chunks can_map removable lengths places dir' by_file
              (AList.update index data out) wanted)
      | Some (name, offset, nbytes, _) \<Rightarrow>
          if nbytes \<noteq> int (lengths ! index) \<or> \<not> endswith name PACK_SUFFIX \<or> CHR ''/'' \<in> set name
          then (dir, Inl (ChunkPlaced digest))
          else collect_chunks can_map removable lengths places dir
                 (by_file_add name (index, offset, nat nbytes, crc) by_file) out wanted)"

fun read_packs ::
  "bool \<Rightarrow> chunk_dir \<Rightarrow> (nat \<times> byte list) list \<Rightarrow> (string \<times> pack_member list) list
    \<Rightarrow> chunk_error + (nat \<times> byte list) list" where
  "read_packs can_map dir out [] = Inr out"
| "read_packs can_map dir out ((name, members) # by_file) =
     and_then (read_pack can_map dir name members) (\<lambda>found.
     read_packs can_map dir (AList.updates (map fst found) (map snd found) out) by_file)"

definition read_chunks ::
  "bool \<Rightarrow> bool \<Rightarrow> chunk_dir \<Rightarrow> (nat \<times> digest \<times> crc) list \<Rightarrow> nat list \<Rightarrow> meta_places option
    \<Rightarrow> chunk_dir \<times> (chunk_error + (nat \<times> byte list) list)" where
  "read_chunks can_map removable dir wanted lengths places =
     (case collect_chunks can_map removable lengths places dir [] [] wanted of
        (dir', Inl e) \<Rightarrow> (dir', Inl e)
      | (dir', Inr (by_file, out)) \<Rightarrow> (dir', read_packs can_map dir' out by_file))"

subsection \<open>What a read returns\<close>

lemma read_into_fits: "pos + n \<le> length fdata \<Longrightarrow> read_into fdata pos n e = Inr (take n (drop pos fdata))"
  by (simp add: read_into_def)

lemma read_chunk_Inr:
  "snd (read_chunk can_map removable dir digest nbytes crc) = Inr data \<longleftrightarrow>
     (\<exists>f. map_of dir (chunk_name digest) = Some f \<and> length (cf_data f) = nbytes + TRAILER
        \<and> data = take nbytes (cf_data f) \<and> checksum data = crc)"
  by (auto simp: read_chunk_def Let_def read_into_def split: option.splits sum.splits if_splits)

lemma read_chunk_keeps_dir:
  "snd (read_chunk can_map removable dir digest nbytes crc) = Inr data \<Longrightarrow>
     fst (read_chunk can_map removable dir digest nbytes crc) = dir"
  by (auto simp: read_chunk_def Let_def split: option.splits sum.splits if_splits)

lemma read_chunk_unmapped: "read_chunk can_map = read_chunk False"
  by (intro ext) (auto simp: read_chunk_def Let_def read_into_def TRAILER_def split: option.splits)

lemma read_member_data:
  assumes "pack_member_fits (length fdata) (index, offset, nbytes, crc)"
  shows "read_into fdata (nat offset) nbytes e = Inr (bytes_at fdata offset nbytes)"
  using assms by (auto simp: pack_member_fits_def read_into_def bytes_at_def)

text \<open>With the layout checked first, the loop over a pack's members copies each member's
  bytes from its offset, whether the file was mapped or read.\<close>

lemma read_members_found:
  assumes "read_members mapped name fdata first out ms = Inr out'"
    and "\<forall>m \<in> set ms. pack_member_fits (length fdata) m"
    and "distinct (map fst ms)"
    and "\<And>offset src sz want. map_of first offset = Some (src, sz, want) \<Longrightarrow>
           src \<notin> fst ` set ms \<and> map_of out src = Some (bytes_at fdata offset sz) \<and> checksum (bytes_at fdata offset sz) = want"
  shows "(\<forall>(i, offset, n, crc) \<in> set ms.
            map_of out' i = Some (bytes_at fdata offset n) \<and> checksum (bytes_at fdata offset n) = crc)
       \<and> (\<forall>i. i \<notin> fst ` set ms \<longrightarrow> map_of out' i = map_of out i)"
  using assms
proof (induction mapped name fdata first out ms rule: read_members.induct)
  case (1 mapped name fdata first out)
  then show ?case by simp
next
  case (2 mapped name fdata first out index offset nbytes crc members)
  have fits: "read_into fdata (nat offset) nbytes (ChunkMissing name) = Inr (bytes_at fdata offset nbytes)"
    by (rule read_member_data [of fdata index offset nbytes crc]) (use "2.prems"(2) in simp)
  show ?case
  proof (cases "map_of first offset")
    case None
    let ?first = "AList.update offset (index, nbytes, crc) first"
    let ?out = "AList.update index (bytes_at fdata offset nbytes) out"
    from "2.prems"(1) None fits have crc: "checksum (bytes_at fdata offset nbytes) = crc"
      and rest: "read_members mapped name fdata ?first ?out members = Inr out'"
      by (auto split: if_splits)
    have "(\<forall>(i, offset, n, crc) \<in> set members.
            map_of out' i = Some (bytes_at fdata offset n) \<and> checksum (bytes_at fdata offset n) = crc)
       \<and> (\<forall>i. i \<notin> fst ` set members \<longrightarrow> map_of out' i = map_of ?out i)"
      using "2.prems"(2,3,4) crc
      by (intro "2.IH"(1) [OF None _ rest]) (auto simp: map_of_update split: if_splits)
    with crc "2.prems"(3) show ?thesis by (auto simp: map_of_update)
  next
    case (Some entry)
    obtain src sz want where entry: "entry = (src, sz, want)" by (cases entry)
    let ?out = "AList.update index (the (map_of out src)) out"
    from "2.prems"(1) Some entry have same: "sz = nbytes" "want = crc"
      and rest: "read_members mapped name fdata first ?out members = Inr out'"
      by (auto split: if_splits)
    from "2.prems"(4) [of offset src sz want] Some entry same
    have src: "map_of out src = Some (bytes_at fdata offset nbytes)" "checksum (bytes_at fdata offset nbytes) = crc"
      by auto
    have "(\<forall>(i, offset, n, crc) \<in> set members.
            map_of out' i = Some (bytes_at fdata offset n) \<and> checksum (bytes_at fdata offset n) = crc)
       \<and> (\<forall>i. i \<notin> fst ` set members \<longrightarrow> map_of out' i = map_of ?out i)"
      using "2.prems"(2,3,4) entry same Some
      by (intro "2.IH"(2) [OF Some entry [symmetric] refl _ rest]) (auto simp: map_of_update split: if_splits)
    with src "2.prems"(3) show ?thesis by (auto simp: map_of_update)
  qed
qed

lemma read_members_dict_ok:
  "read_members mapped name fdata first out ms = Inr out' \<Longrightarrow> dict_ok out \<Longrightarrow> dict_ok out'"
  by (induction mapped name fdata first out ms rule: read_members.induct)
     (auto simp: and_then_Inr dict_ok_update split: option.splits prod.splits if_splits)

lemma read_members_unmapped:
  "\<forall>m \<in> set ms. pack_member_fits (length fdata) m \<Longrightarrow>
     read_members mapped name fdata first out ms = read_members False name fdata first out ms"
proof (induction mapped name fdata first out ms rule: read_members.induct)
  case (2 mapped name fdata first out index offset nbytes crc members)
  then show ?case
    by (auto simp: read_member_data [of fdata index offset nbytes crc] split: option.splits)
qed simp

lemma find_misfit: "find (\<lambda>m. \<not> P m) ms = None \<longleftrightarrow> (\<forall>m \<in> set ms. P m)"
  by (simp only: find_None_iff) blast

lemma read_pack_fits:
  assumes "map_of dir name = Some f" and "\<forall>m \<in> set ms. pack_member_fits (length (cf_data f)) m"
  shows "read_pack can_map dir name ms = read_members False name (cf_data f) [] [] ms"
  using assms read_members_unmapped [OF assms(2)] by (simp add: read_pack_def find_misfit [THEN iffD2])

lemma read_pack_cases:
  assumes "read_pack can_map dir name ms = Inr found"
  obtains f where "map_of dir name = Some f" "\<forall>m \<in> set ms. pack_member_fits (length (cf_data f)) m"
    "read_members False name (cf_data f) [] [] ms = Inr found"
proof -
  from assms obtain f where f: "map_of dir name = Some f"
    and "find (\<lambda>m. \<not> pack_member_fits (length (cf_data f)) m) ms = None"
    by (auto simp only: read_pack_def split: option.splits)
  then have fits: "\<forall>m \<in> set ms. pack_member_fits (length (cf_data f)) m" by (simp only: find_misfit)
  from that [OF f fits] assms show thesis by (simp add: read_pack_fits [OF f fits])
qed

lemma read_pack_unmapped: "read_pack can_map = read_pack False"
proof (intro ext)
  fix dir name ms
  show "read_pack can_map dir name ms = read_pack False dir name ms"
  proof (cases "map_of dir name")
    case None
    then show ?thesis by (simp add: read_pack_def)
  next
    case (Some f)
    show ?thesis
    proof (cases "find (\<lambda>m. \<not> pack_member_fits (length (cf_data f)) m) ms")
      case None
      with Some show ?thesis by (simp only: find_misfit read_pack_fits)
    next
      case (Some m)
      with \<open>map_of dir name = Some f\<close> show ?thesis by (simp add: read_pack_def)
    qed
  qed
qed

lemma read_pack_found:
  assumes "read_pack can_map dir name ms = Inr found" and "distinct (map fst ms)"
  shows "dict_ok found \<and> fst ` set found \<subseteq> fst ` set ms \<and>
    (\<forall>(i, offset, n, crc) \<in> set ms. \<exists>data. map_of found i = Some data \<and> length data = n \<and> checksum data = crc)"
proof -
  from assms(1) obtain f where f: "map_of dir name = Some f"
    and fits: "\<forall>m \<in> set ms. pack_member_fits (length (cf_data f)) m"
    and run: "read_members False name (cf_data f) [] [] ms = Inr found"
    by (rule read_pack_cases)
  have found: "(\<forall>(i, offset, n, crc) \<in> set ms. map_of found i = Some (bytes_at (cf_data f) offset n)
        \<and> checksum (bytes_at (cf_data f) offset n) = crc)
      \<and> (\<forall>i. i \<notin> fst ` set ms \<longrightarrow> map_of found i = map_of [] i)"
    using read_members_found [OF run fits assms(2)] by simp
  have "\<forall>(i, offset, n, crc) \<in> set ms. length (bytes_at (cf_data f) offset n) = n"
    using fits by (auto simp: bytes_at_def pack_member_fits_def)
  moreover have "fst ` set found \<subseteq> fst ` set ms"
    using found by (metis (no_types, lifting) map_of_eq_None_iff map_of.simps(1) subsetI)
  ultimately show ?thesis
    using found read_members_dict_ok [OF run] by fastforce
qed

abbreviation members_of :: "(string \<times> pack_member list) list \<Rightarrow> pack_member list" where
  "members_of by_file \<equiv> concat (map snd by_file)"

lemma map_of_updates_found:
  "dict_ok found \<Longrightarrow> map_of (AList.updates (map fst found) (map snd found) out) = map_of out ++ map_of found"
  by (induction found arbitrary: out)
     (auto simp: map_of_update fun_eq_iff map_add_def map_of_eq_None_iff split: option.splits)

lemma read_packs_found:
  assumes "read_packs can_map dir out by_file = Inr out'" and "distinct (map fst (members_of by_file))"
  shows "(\<forall>(i, offset, n, crc) \<in> set (members_of by_file).
            \<exists>data. map_of out' i = Some data \<and> length data = n \<and> checksum data = crc)
       \<and> (\<forall>i. i \<notin> fst ` set (members_of by_file) \<longrightarrow> map_of out' i = map_of out i)"
  using assms
proof (induction can_map dir out by_file rule: read_packs.induct)
  case (1 can_map dir out)
  then show ?case by simp
next
  case (2 can_map dir out name members by_file)
  then obtain found where run: "read_pack can_map dir name members = Inr found"
    and rest: "read_packs can_map dir (AList.updates (map fst found) (map snd found) out) by_file = Inr out'"
    by (auto simp: and_then_Inr)
  from "2.prems" have dist: "distinct (map fst members)" "distinct (map fst (members_of by_file))"
    and disj: "fst ` set members \<inter> fst ` set (members_of by_file) = {}"
    by auto
  note found = read_pack_found [OF run dist(1)]
  note IH = "2.IH" [OF rest dist(2)]
  have mid: "map_of out' i = (map_of out ++ map_of found) i" if "i \<notin> fst ` set (members_of by_file)" for i
    using IH that found by (simp add: map_of_updates_found)
  show ?case
  proof (intro conjI ballI allI impI)
    fix m
    assume "m \<in> set (members_of ((name, members) # by_file))"
    then consider "m \<in> set members" | "m \<in> set (members_of by_file)" by auto
    then show "case m of (i, offset, n, crc) \<Rightarrow> \<exists>data. map_of out' i = Some data \<and> length data = n \<and> checksum data = crc"
    proof cases
      case 1
      obtain i offset n crc where m: "m = (i, offset, n, crc)" by (cases m)
      with 1 have "i \<notin> fst ` set (members_of by_file)" using disj by force
      note mid = mid [OF this]
      from found 1 m obtain data where "map_of found i = Some data" "length data = n" "checksum data = crc"
        by auto
      with mid m show ?thesis by simp
    next
      case 2
      then show ?thesis by (rule bspec [OF conjunct1 [OF IH]])
    qed
  next
    fix i
    assume i: "i \<notin> fst ` set (members_of ((name, members) # by_file))"
    then have "map_of found i = None" using found by (auto simp: map_of_eq_None_iff)
    moreover have "i \<notin> fst ` set (members_of by_file)" using i by auto
    ultimately show "map_of out' i = map_of out i" using mid by (simp add: map_add_def)
  qed
qed

lemma mset_by_file_add:
  "dict_ok by_file \<Longrightarrow> mset (members_of (by_file_add name m by_file)) = add_mset m (mset (members_of by_file))"
proof (induction by_file)
  case (Cons x by_file)
  obtain n ms where x: "x = (n, ms)" by (cases x)
  show ?case
  proof (cases "n = name")
    case True
    with x show ?thesis by (simp add: by_file_add_def)
  next
    case False
    with x Cons show ?thesis by (auto simp: by_file_add_def)
  qed
qed (simp add: by_file_add_def)

lemma dict_ok_by_file_add: "dict_ok by_file \<Longrightarrow> dict_ok (by_file_add name m by_file)"
  by (simp add: by_file_add_def dict_ok_update)

text \<open>What the first loop hands on: the members to read from packs, and the chunks read.\<close>

fun placed_member :: "nat list \<Rightarrow> meta_places option \<Rightarrow> nat \<times> digest \<times> crc \<Rightarrow> pack_member option" where
  "placed_member lengths places (index, digest, crc) =
     map_option (\<lambda>(name, offset, nbytes, _). (index, offset, nat nbytes, crc))
       (map_of (case places of None \<Rightarrow> [] | Some ps \<Rightarrow> ps) (hex digest))"

lemma collect_chunks_found:
  assumes "collect_chunks can_map removable lengths places dir by_file out wanted = (dir', Inr (by_file', out'))"
    and "dict_ok by_file" and "distinct (map fst wanted)"
  shows "dir' = dir \<and> mset (members_of by_file') = mset (members_of by_file) + mset (List.map_filter (placed_member lengths places) wanted)
       \<and> (\<forall>(i, digest, crc) \<in> set wanted. case placed_member lengths places (i, digest, crc) of
            None \<Rightarrow> \<exists>data. map_of out' i = Some data \<and> length data = lengths ! i \<and> checksum data = crc
          | Some (_, _, n, _) \<Rightarrow> n = lengths ! i)
       \<and> (\<forall>i. i \<notin> fst ` set wanted \<longrightarrow> map_of out' i = map_of out i)"
  using assms
proof (induction can_map removable lengths places dir by_file out wanted rule: collect_chunks.induct)
  case (1 can_map removable lengths places dir by_file out)
  then show ?case by (simp add: map_filter_simps)
next
  case (2 can_map removable lengths places dir by_file out index digest crc wanted)
  let ?ps = "case places of None \<Rightarrow> [] | Some ps \<Rightarrow> ps"
  show ?case
  proof (cases "map_of ?ps (hex digest)")
    case None
    with "2.prems"(1) obtain data where read: "read_chunk can_map removable dir digest (lengths ! index) crc = (dir, Inr data)"
      and rest: "collect_chunks can_map removable lengths places dir by_file (AList.update index data out) wanted = (dir', Inr (by_file', out'))"
      using read_chunk_keeps_dir [of can_map removable dir digest "lengths ! index" crc]
      by (auto split: prod.splits sum.splits)
    have "length data = lengths ! index \<and> checksum data = crc"
      using read_chunk_Inr [of can_map removable dir digest "lengths ! index" crc data] read by auto
    moreover note "2.IH"(1) [OF None read [symmetric] refl rest "2.prems"(2)]
    ultimately show ?thesis using "2.prems"(3) None
      by (auto simp: map_filter_simps map_of_update)
  next
    case (Some entry)
    obtain name offset nbytes c where entry: "entry = (name, offset, nbytes, c)" by (cases entry)
    let ?by = "by_file_add name (index, offset, nat nbytes, crc) by_file"
    from "2.prems"(1) Some entry have ok: "nbytes = int (lengths ! index)"
      and rest: "collect_chunks can_map removable lengths places dir ?by out wanted = (dir', Inr (by_file', out'))"
      by (auto split: if_splits)
    from "2.prems" Some entry ok show ?thesis
      using "2.IH"(2) [OF Some entry [symmetric] refl refl _ rest dict_ok_by_file_add] 
      by (auto simp: map_filter_simps mset_by_file_add split: if_splits)
  qed
qed

lemma placed_members_fst:
  "map fst (List.map_filter (placed_member lengths places) wanted)
     = map fst (filter (\<lambda>w. placed_member lengths places w \<noteq> None) wanted)"
proof (induction wanted)
  case (Cons w wanted)
  then show ?case by (cases w; cases "placed_member lengths places w") (auto simp: map_filter_simps)
qed (simp add: map_filter_simps)

lemma read_chunks_unmapped: "read_chunks can_map = read_chunks False"
proof -
  have "collect_chunks can_map removable lengths places dir by_file out wanted
      = collect_chunks False removable lengths places dir by_file out wanted"
    for removable lengths places dir by_file out wanted
    by (induction wanted arbitrary: dir by_file out)
       (auto simp: read_chunk_unmapped [of can_map] split: option.splits prod.splits sum.splits)
  moreover have "read_packs can_map dir out by_file = read_packs False dir out by_file" for dir out by_file
    by (induction by_file arbitrary: out) (auto simp: read_pack_unmapped [of can_map])
  ultimately show ?thesis by (intro ext) (auto simp: read_chunks_def split: prod.splits sum.splits)
qed

text \<open>
  C9: Reading the buffers an entry keeps apart: when it succeeds, every buffer asked for is
  there, with the length and the crc32 the entry's table gives it, and no file of the
  chunk store is touched; a mapped read and a plain one give the same answer.
\<close>

theorem read_chunks_checked:
  assumes "read_chunks can_map removable dir wanted lengths places = (dir', Inr out)"
    and "distinct (map fst wanted)" and "(index, digest, crc) \<in> set wanted"
  shows "(\<exists>data. map_of out index = Some data \<and> length data = lengths ! index \<and> checksum data = crc)
    \<and> dir' = dir \<and> read_chunks (\<not> can_map) removable dir wanted lengths places = (dir', Inr out)"
proof -
  from assms(1) obtain by_file out1
    where collect: "collect_chunks can_map removable lengths places dir [] [] wanted = (dir', Inr (by_file, out1))"
      and packs: "read_packs can_map dir' out1 by_file = Inr out"
    by (auto simp: read_chunks_def split: prod.splits sum.splits)
  note found = collect_chunks_found [OF collect _ assms(2), simplified]
  let ?ms = "List.map_filter (placed_member lengths places) wanted"
  have ms: "mset (members_of by_file) = mset ?ms" using found by blast
  have "distinct (map fst ?ms)"
    using assms(2) by (simp add: placed_members_fst distinct_map_filter)
  with ms have "distinct (map fst (members_of by_file))"
    by (metis mset_eq_imp_distinct_iff mset_map)
  note read = read_packs_found [OF packs this]
  have "\<exists>data. map_of out index = Some data \<and> length data = lengths ! index \<and> checksum data = crc"
  proof (cases "placed_member lengths places (index, digest, crc)")
    case None
    have "index \<notin> fst ` set ?ms"
    proof
      assume "index \<in> fst ` set ?ms"
      then have "index \<in> set (map fst (filter (\<lambda>w. placed_member lengths places w \<noteq> None) wanted))"
        unfolding placed_members_fst [symmetric] by simp
      then obtain d c where "(index, d, c) \<in> set wanted" "placed_member lengths places (index, d, c) \<noteq> None" by auto
      with assms(2,3) None show False by (metis Pair_inject map_of_eq_Some_iff option.inject)
    qed
    then have "index \<notin> fst ` set (members_of by_file)" using ms by (metis set_mset_mset)
    with read have "map_of out index = map_of out1 index" by blast
    with found assms(3) None show ?thesis by fastforce
  next
    case (Some m)
    obtain offset n where m: "m = (index, offset, n, crc)" using Some by auto
    with found assms(3) Some have n: "n = lengths ! index" by fastforce
    from Some assms(3) have "m \<in> set ?ms" by (force simp: map_filter_def)
    then have "m \<in> set (members_of by_file)" using ms by (metis set_mset_mset)
    from bspec [OF conjunct1 [OF read] this] m n show ?thesis by simp
  qed
  moreover have "dir' = dir" using found by blast
  moreover have "read_chunks (\<not> can_map) removable dir wanted lengths places = (dir', Inr out)"
    using assms(1) read_chunks_unmapped by metis
  ultimately show ?thesis by blast
qed

definition sample_dir :: chunk_dir where
  "sample_dir = [(''a.pack'', \<lparr>cf_data = [1, 2] @ checksum [1, 2], cf_mtime = 5\<rparr>)]"

lemma sample_digest_hex: "hex [7] = ''07''"
  by code_simp

lemmas read_eval = read_chunks_def read_pack_def pack_member_fits_def bytes_at_def by_file_add_def
  TRAILER_def PACK_ALIGN_def PACK_SUFFIX_def MAP_MIN_BYTES_def endswith_def read_into_def

theorem read_chunks_checked_witness:
  "map_of (projr (snd (read_chunks True True sample_dir [(0, [7], checksum [1, 2])] [2]
      (Some [(''07'', (''a.pack'', 0, 2, []))])))) 0 = Some [1, 2]
   \<and> fst (read_chunks True True sample_dir [(0, [7], checksum [1, 2])] [2]
      (Some [(''07'', (''a.pack'', 0, 2, []))])) = sample_dir"
proof -
  have run: "read_chunks True True sample_dir [(0, [7], checksum [1, 2])] [2]
      (Some [(''07'', (''a.pack'', 0, 2, []))]) = (sample_dir, Inr [(0, [1, 2])])"
    by (simp add: sample_dir_def sample_digest_hex read_eval)
  from read_chunks_checked [OF run, of 0 "[7]" "checksum [1, 2]"] run show ?thesis by simp
qed

end
