(* ===== verification/Entry_Format.thy ===== *)
theory Entry_Format
  imports Entry_Meta Chunk_Read
begin

text \<open>
  The on-disk layout of one entry (\<open>src/cash/backends/entry_format.py\<close>): a header, a
  padded metadata region and the payload, either in one piece (\<open>CSH2\<close>) or a pickle stream
  and its out-of-band buffers (\<open>CSH3\<close>), the big ones of which are in the chunk store.

  Files are byte lists and every read names its position. Pickle is a pair of functions,
  \<open>dumps\<close> and \<open>loads\<close>, of which the theorems use that loading what was dumped gives it
  back, for the metadata at hand. Each reason for \<open>CorruptEntry\<close> is a value, and so is
  \<open>struct.error\<close>: \<open>None\<close> where a length does not fit its field.
\<close>

subsection \<open>Data\<close>

text \<open>The metadata of an entry as the file holds it: the entry's own fields, the chunks its
  payload keeps apart and where they are, and the payload's checksum.\<close>

record stored_meta = entry_metadata +
  sm_chunks :: "(string \<times> int) list option"
  sm_places :: "meta_places option"
  sm_checksum :: "crc option"

datatype unpickled = Raises | NotDict | Dict stored_meta

datatype corrupt =
    TruncatedHeader | BadMagic | MetaLenOverCap | MetadataTruncated | MetadataUnpicklable
  | MetadataNotDict | NoChecksum | SplitTruncated | ChunkTable nat | SplitSize
  | ChecksumMismatch | Truncated | ChunkUnreadable chunk_error

datatype payload = Plain "byte list" | SplitPayload "byte list" "byte list option list"

record packed_entry =
  pe_head :: "byte list"
  pe_chunks :: "byte list list"
  pe_checksum :: crc
  pe_size :: nat

definition MAGIC :: "byte list" where
  "MAGIC = [67, 83, 72, 50]"

definition MAGIC_SPLIT :: "byte list" where
  "MAGIC_SPLIT = [67, 83, 72, 51]"

definition MAGICS :: "byte list list" where
  "MAGICS = [MAGIC, MAGIC_SPLIT]"

definition SPLIT_ALIGN :: nat where
  "SPLIT_ALIGN = 64"

definition HEADER_SIZE :: nat where
  "HEADER_SIZE = 12"

definition META_SLACK :: nat where
  "META_SLACK = 64"

definition checksum_of :: "byte list list \<Rightarrow> crc" where
  "checksum_of chunks = crc_bytes (foldl (\<lambda>crc chunk. crc32 chunk crc) 0 chunks)"

definition split_pad :: "nat \<Rightarrow> nat" where
  "split_pad offset = (SPLIT_ALIGN - offset mod SPLIT_ALIGN) mod SPLIT_ALIGN"

definition zeros :: "nat \<Rightarrow> byte list" where
  "zeros n = replicate n 0"

subsection \<open>Packing\<close>

text \<open>\<open>struct.pack\<close> of several fields: all of them fit, or \<open>struct.error\<close>.\<close>

fun pack_all :: "byte list option list \<Rightarrow> byte list option" where
  "pack_all [] = Some []"
| "pack_all (f # fs) = (case (f, pack_all fs) of (Some b, Some bs) \<Rightarrow> Some (b @ bs) | _ \<Rightarrow> None)"

definition header_pack :: "byte list \<Rightarrow> nat \<Rightarrow> nat \<Rightarrow> byte list option" where
  "header_pack magic meta_len cap = pack_all [Some (pack_str 4 magic), pack_uint 4 meta_len, pack_uint 4 cap]"

definition header_unpack :: "byte list \<Rightarrow> byte list \<times> nat \<times> nat" where
  "header_unpack h = (take 4 h, le_nat (take 4 (drop 4 h)), le_nat (take 4 (drop 8 h)))"

definition chunk_ref_pack :: "nat \<times> digest \<times> crc \<Rightarrow> byte list option" where
  "chunk_ref_pack r = (case r of (i, digest, crc) \<Rightarrow>
     pack_all [pack_uint 4 i, Some (pack_str 32 digest), Some (pack_str 4 crc)])"

definition split_table :: "byte list \<Rightarrow> byte list list \<Rightarrow> (nat \<times> digest \<times> crc) list \<Rightarrow> byte list option" where
  "split_table stream buffers apart = pack_all (
     [pack_uint 8 (length stream), pack_uint 4 (length buffers)]
     @ map (\<lambda>b. pack_uint 8 (length b)) buffers
     @ [pack_uint 4 (length apart)]
     @ map chunk_ref_pack (sort_key fst apart))"

fun split_tail :: "(nat \<times> digest \<times> crc) list \<Rightarrow> nat \<Rightarrow> nat \<Rightarrow> byte list list \<Rightarrow> byte list list" where
  "split_tail apart i offset [] = []"
| "split_tail apart i offset (buf # bufs) =
     (if map_of apart i \<noteq> None then split_tail apart (Suc i) offset bufs
      else (if split_pad offset = 0 then [] else [zeros (split_pad offset)])
        @ buf # split_tail apart (Suc i) (offset + split_pad offset + length buf) bufs)"

definition split_chunks :: "byte list \<Rightarrow> byte list list \<Rightarrow> (nat \<times> digest \<times> crc) list \<Rightarrow> byte list list option" where
  "split_chunks stream buffers apart = (case split_table stream buffers apart of
       None \<Rightarrow> None
     | Some table \<Rightarrow>
         let first = table @ zeros (split_pad (length table)) in
         Some (first # stream # split_tail apart 0 (length first + length stream) buffers))"

definition payload_checksum :: "byte list \<Rightarrow> crc" where
  "payload_checksum payload = checksum payload"

definition entry_identity :: "stored_meta \<Rightarrow> crc option \<Rightarrow> crc option \<times> seconds option" where
  "entry_identity m crc = (crc, m_created_at m)"

definition pack_entry_parts ::
  "(stored_meta \<Rightarrow> byte list) \<Rightarrow> stored_meta \<Rightarrow> byte list list \<Rightarrow> bool \<Rightarrow> crc option \<Rightarrow> packed_entry option" where
  "pack_entry_parts dumps m chunks split given = (
     let crc = (case given of None \<Rightarrow> checksum_of chunks | Some c \<Rightarrow> c);
         meta_bytes = dumps (m\<lparr>sm_checksum := Some crc\<rparr>);
         cap = length meta_bytes + META_SLACK;
         cap = (if split then cap + split_pad (HEADER_SIZE + cap) else cap) in
     case header_pack (if split then MAGIC_SPLIT else MAGIC) (length meta_bytes) cap of
       None \<Rightarrow> None
     | Some h \<Rightarrow>
         let head = h @ meta_bytes @ zeros (cap - length meta_bytes) in
         Some \<lparr>pe_head = head, pe_chunks = chunks, pe_checksum = crc,
               pe_size = length head + sum_list (map length chunks)\<rparr>)"

definition pack_entry ::
  "(stored_meta \<Rightarrow> byte list) \<Rightarrow> stored_meta \<Rightarrow> byte list \<Rightarrow> crc option \<Rightarrow> byte list option" where
  "pack_entry dumps m payload given =
     map_option (\<lambda>entry. pe_head entry @ payload) (pack_entry_parts dumps m [payload] False given)"

definition packed_size :: "(stored_meta \<Rightarrow> byte list) \<Rightarrow> stored_meta \<Rightarrow> nat \<Rightarrow> nat" where
  "packed_size dumps m payload_len =
     HEADER_SIZE + length (dumps (m\<lparr>sm_checksum := Some (zeros 4)\<rparr>)) + META_SLACK + payload_len"

subsection \<open>Reading\<close>

definition load_metadata :: "(byte list \<Rightarrow> unpickled) \<Rightarrow> byte list \<Rightarrow> corrupt + stored_meta" where
  "load_metadata loads meta_bytes = (case loads meta_bytes of
       Raises \<Rightarrow> Inl MetadataUnpicklable
     | NotDict \<Rightarrow> Inl MetadataNotDict
     | Dict m \<Rightarrow> Inr m)"

definition verify :: "byte list \<Rightarrow> crc option \<Rightarrow> corrupt + unit" where
  "verify payload expected = (case expected of
       None \<Rightarrow> Inl NoChecksum
     | Some c \<Rightarrow> require (checksum payload = c) ChecksumMismatch)"

definition unpack_entry ::
  "(byte list \<Rightarrow> unpickled) \<Rightarrow> byte list \<Rightarrow> bool \<Rightarrow> corrupt + stored_meta \<times> byte list option" where
  "unpack_entry loads blob with_payload = (
     if length blob < HEADER_SIZE then Inl TruncatedHeader
     else let (magic, meta_len, meta_cap) = header_unpack (take HEADER_SIZE blob) in
     if magic \<notin> set MAGICS \<or> (with_payload \<and> magic \<noteq> MAGIC) then Inl BadMagic
     else if meta_len > meta_cap then Inl MetaLenOverCap
     else if length blob < HEADER_SIZE + meta_len then Inl MetadataTruncated
     else and_then (load_metadata loads (take meta_len (drop HEADER_SIZE blob))) (\<lambda>m.
       let expected = sm_checksum m; m = m\<lparr>sm_checksum := None\<rparr> in
       if \<not> with_payload then Inr (m, None)
       else let payload = drop (HEADER_SIZE + meta_cap) blob in
         and_then (verify payload expected) (\<lambda>_. Inr (m, Some payload))))"

definition metadata_span :: "byte list \<Rightarrow> corrupt + nat" where
  "metadata_span blob = (if length blob < HEADER_SIZE then Inl TruncatedHeader
     else Inr (HEADER_SIZE + snd (snd (header_unpack (take HEADER_SIZE blob)))))"

text \<open>\<open>fh.read(n)\<close> at a position: what is there, at most \<open>n\<close> bytes.\<close>

definition read_at :: "byte list \<Rightarrow> nat \<Rightarrow> nat \<Rightarrow> byte list" where
  "read_at fdata pos n = take n (drop pos fdata)"

definition read_exact :: "byte list \<Rightarrow> nat \<Rightarrow> nat \<Rightarrow> corrupt + byte list" where
  "read_exact fdata pos n = (let data = (if n = 0 then [] else read_at fdata pos n) in
     if length data \<noteq> n then Inl Truncated else Inr data)"

text \<open>\<open>struct.unpack\<close> of \<open>n\<close> 8-byte lengths, and \<open>_CHUNK_REF.iter_unpack\<close>.\<close>

fun unpack_lengths :: "nat \<Rightarrow> byte list \<Rightarrow> nat list" where
  "unpack_lengths 0 raw = []"
| "unpack_lengths (Suc n) raw = le_nat (take 8 raw) # unpack_lengths n (drop 8 raw)"

definition CHUNK_REF_SIZE :: nat where
  "CHUNK_REF_SIZE = 40"

fun unpack_refs :: "nat \<Rightarrow> byte list \<Rightarrow> (nat \<times> digest \<times> crc) list" where
  "unpack_refs 0 raw = []"
| "unpack_refs (Suc n) raw =
     (le_nat (take 4 raw), take 32 (drop 4 raw), take 4 (drop 36 raw)) # unpack_refs n (drop CHUNK_REF_SIZE raw)"

fun apart_of :: "nat \<Rightarrow> (nat \<times> digest \<times> crc) list \<Rightarrow> (nat \<times> digest \<times> crc) list
    \<Rightarrow> corrupt + (nat \<times> digest \<times> crc) list" where
  "apart_of n_bufs apart [] = Inr apart"
| "apart_of n_bufs apart ((index, digest, crc) # refs) =
     (if index \<ge> n_bufs \<or> map_of apart index \<noteq> None then Inl (ChunkTable index)
      else apart_of n_bufs (AList.update index (digest, crc) apart) refs)"

fun layout_end :: "(nat \<times> digest \<times> crc) list \<Rightarrow> nat \<Rightarrow> nat \<Rightarrow> nat list \<Rightarrow> nat" where
  "layout_end apart i offset [] = offset"
| "layout_end apart i offset (n # ns) =
     layout_end apart (Suc i) (if map_of apart i = None then offset + split_pad offset + n else offset) ns"

text \<open>The buffer loop of \<open>_read_split\<close>: the buffers (\<open>None\<close> where one is kept apart) and the
  running checksum.\<close>

fun read_buffers :: "byte list \<Rightarrow> nat \<Rightarrow> (nat \<times> digest \<times> crc) list \<Rightarrow> nat \<Rightarrow> nat \<Rightarrow> 32 word \<Rightarrow> nat list
    \<Rightarrow> corrupt + byte list option list \<times> 32 word" where
  "read_buffers fdata start apart i offset crc [] = Inr ([], crc)"
| "read_buffers fdata start apart i offset crc (n # ns) =
     (if map_of apart i \<noteq> None then
        and_then (read_buffers fdata start apart (Suc i) offset crc ns) (\<lambda>(bufs, crc). Inr (None # bufs, crc))
      else let pad = split_pad offset in
        and_then (if pad = 0 then Inr crc
                  else and_then (read_exact fdata (start + offset) pad) (\<lambda>z. Inr (crc32 z crc))) (\<lambda>crc.
        and_then (read_into fdata (start + offset + pad) n Truncated) (\<lambda>buf.
        and_then (read_buffers fdata start apart (Suc i) (offset + pad + n) (crc32 buf crc) ns) (\<lambda>(bufs, crc).
        Inr (Some buf # bufs, crc)))))"

text \<open>The buffer loop of \<open>_map_split\<close>: views of the mapped payload.\<close>

fun map_buffers :: "byte list \<Rightarrow> (nat \<times> digest \<times> crc) list \<Rightarrow> nat \<Rightarrow> nat \<Rightarrow> nat list \<Rightarrow> byte list option list" where
  "map_buffers payload apart i offset [] = []"
| "map_buffers payload apart i offset (n # ns) =
     (if map_of apart i \<noteq> None then None # map_buffers payload apart (Suc i) offset ns
      else let offset = offset + split_pad offset in
        Some (take n (drop offset payload)) # map_buffers payload apart (Suc i) (offset + n) ns)"

text \<open>What the folder and the machine add to a read: its chunk files, whether a mapping
  succeeds, whether a damaged chunk can be removed.\<close>

record read_env =
  re_dir :: chunk_dir
  re_can_map :: bool
  re_removable :: bool

fun fill :: "byte list option list \<Rightarrow> (nat \<times> byte list) list \<Rightarrow> byte list option list" where
  "fill buffers [] = buffers"
| "fill buffers ((index, data) # found) = fill (buffers[index := Some data]) found"

definition read_apart ::
  "read_env \<Rightarrow> byte list option list \<Rightarrow> nat list \<Rightarrow> (nat \<times> digest \<times> crc) list \<Rightarrow> meta_places option
    \<Rightarrow> chunk_dir \<times> (corrupt + byte list option list)" where
  "read_apart env buffers lengths apart places = (
     if apart = [] then (re_dir env, Inr buffers)
     else case read_chunks (re_can_map env) (re_removable env) (re_dir env) apart lengths places of
         (dir, Inl e) \<Rightarrow> (dir, Inl (ChunkUnreadable e))
       | (dir, Inr found) \<Rightarrow> (dir, Inr (fill buffers found)))"

definition map_split ::
  "read_env \<Rightarrow> byte list \<Rightarrow> nat \<Rightarrow> nat \<Rightarrow> nat \<Rightarrow> nat list \<Rightarrow> (nat \<times> digest \<times> crc) list \<Rightarrow> crc
    \<Rightarrow> meta_places option \<Rightarrow> chunk_dir \<times> (corrupt + payload)" where
  "map_split env fdata start table stream_len lengths apart expected places = (
     let payload = drop start fdata in
     if checksum payload \<noteq> expected then (re_dir env, Inl ChecksumMismatch)
     else let offset = table + split_pad table;
              stream = take stream_len (drop offset payload);
              buffers = map_buffers payload apart 0 (offset + stream_len) lengths in
       case read_apart env buffers lengths apart places of
         (dir, Inl e) \<Rightarrow> (dir, Inl e)
       | (dir, Inr bufs) \<Rightarrow> (dir, Inr (SplitPayload stream bufs)))"

text \<open>The table at the head of a split payload, read and checked against the file: stream
  length, buffer lengths, the chunks kept apart, the table's size and its raw bytes.\<close>

definition read_split_table ::
  "byte list \<Rightarrow> nat \<Rightarrow> corrupt + nat \<times> nat list \<times> (nat \<times> digest \<times> crc) list \<times> nat \<times> byte list list" where
  "read_split_table fdata start = (
     let fend = length fdata in
     and_then (read_exact fdata start 12) (\<lambda>head.
     let stream_len = le_nat (take 8 head); n_bufs = le_nat (take 4 (drop 8 head)) in
     and_then (require (start + 12 + 8 * n_bufs + 4 \<le> fend) SplitTruncated) (\<lambda>_.
     and_then (read_exact fdata (start + 12) (8 * n_bufs)) (\<lambda>lengths_raw.
     let lengths = unpack_lengths n_bufs lengths_raw in
     and_then (read_exact fdata (start + 12 + 8 * n_bufs) 4) (\<lambda>count_raw.
     let n_apart = le_nat count_raw; table = 12 + 8 * n_bufs + 4 + CHUNK_REF_SIZE * n_apart in
     and_then (require (start + table \<le> fend) SplitTruncated) (\<lambda>_.
     and_then (read_exact fdata (start + 12 + 8 * n_bufs + 4) (CHUNK_REF_SIZE * n_apart)) (\<lambda>refs_raw.
     and_then (apart_of n_bufs [] (unpack_refs n_apart refs_raw)) (\<lambda>apart.
     and_then (require (start + layout_end apart 0 (table + split_pad table + stream_len) lengths = fend) SplitSize) (\<lambda>_.
     Inr (stream_len, lengths, apart, table, [head, lengths_raw, count_raw, refs_raw]))))))))))"

text \<open>The part of \<open>_read_split\<close> that reads: stream, buffers and the checksum over every
  byte of the payload.\<close>

definition read_split_body ::
  "byte list \<Rightarrow> nat \<Rightarrow> nat \<Rightarrow> nat list \<Rightarrow> (nat \<times> digest \<times> crc) list \<Rightarrow> nat \<Rightarrow> byte list list \<Rightarrow> crc
    \<Rightarrow> corrupt + byte list \<times> byte list option list" where
  "read_split_body fdata start stream_len lengths apart table raws expected = (
     let crc = foldl (\<lambda>crc raw. crc32 raw crc) 0 raws in
     and_then (read_exact fdata (start + table) (split_pad table)) (\<lambda>z.
     and_then (read_into fdata (start + table + split_pad table) stream_len Truncated) (\<lambda>stream.
     and_then (read_buffers fdata start apart 0 (table + split_pad table + stream_len)
                 (crc32 stream (crc32 z crc)) lengths) (\<lambda>(buffers, crc).
     and_then (require (crc_bytes crc = expected) ChecksumMismatch) (\<lambda>_.
     Inr (stream, buffers))))))"

definition read_split ::
  "read_env \<Rightarrow> byte list \<Rightarrow> nat \<Rightarrow> crc option \<Rightarrow> meta_places option \<Rightarrow> chunk_dir \<times> (corrupt + payload)" where
  "read_split env fdata start expected places = (case expected of
       None \<Rightarrow> (re_dir env, Inl NoChecksum)
     | Some crc \<Rightarrow> (case read_split_table fdata start of
         Inl e \<Rightarrow> (re_dir env, Inl e)
       | Inr (stream_len, lengths, apart, table, raws) \<Rightarrow>
           if re_can_map env \<and> MAP_MIN_BYTES \<le> length fdata - start \<and> start mod SPLIT_ALIGN = 0
           then map_split env fdata start table stream_len lengths apart crc places
           else (case read_split_body fdata start stream_len lengths apart table raws crc of
               Inl e \<Rightarrow> (re_dir env, Inl e)
             | Inr (stream, buffers) \<Rightarrow> (case read_apart env buffers lengths apart places of
                   (dir, Inl e) \<Rightarrow> (dir, Inl e)
                 | (dir, Inr bufs) \<Rightarrow> (dir, Inr (SplitPayload stream bufs))))))"

text \<open>The header and metadata of a file: magic, capacity, metadata without its checksum, and
  the checksum.\<close>

definition read_head :: "(byte list \<Rightarrow> unpickled) \<Rightarrow> byte list \<Rightarrow> corrupt + byte list \<times> nat \<times> stored_meta \<times> crc option" where
  "read_head loads fdata = (
     let head = read_at fdata 0 HEADER_SIZE in
     if length head < HEADER_SIZE then Inl TruncatedHeader
     else let (magic, meta_len, meta_cap) = header_unpack head in
     if magic \<notin> set MAGICS then Inl BadMagic
     else if meta_len > meta_cap then Inl MetaLenOverCap
     else let meta_bytes = read_at fdata HEADER_SIZE meta_len in
       if length meta_bytes < meta_len then Inl MetadataTruncated
       else and_then (load_metadata loads meta_bytes) (\<lambda>m.
         Inr (magic, meta_cap, m\<lparr>sm_checksum := None\<rparr>, sm_checksum m)))"

definition read_entry_and_checksum ::
  "(byte list \<Rightarrow> unpickled) \<Rightarrow> read_env \<Rightarrow> byte list \<Rightarrow> bool
    \<Rightarrow> chunk_dir \<times> (corrupt + stored_meta \<times> payload option \<times> crc option)" where
  "read_entry_and_checksum loads env fdata with_payload = (case read_head loads fdata of
       Inl e \<Rightarrow> (re_dir env, Inl e)
     | Inr (magic, meta_cap, m, expected) \<Rightarrow>
         if \<not> with_payload then (re_dir env, Inr (m, None, expected))
         else if magic = MAGIC_SPLIT then
           (case read_split env fdata (HEADER_SIZE + meta_cap) expected (sm_places m) of
              (dir, Inl e) \<Rightarrow> (dir, Inl e)
            | (dir, Inr payload) \<Rightarrow> (dir, Inr (m, Some payload, expected)))
         else let payload = drop (HEADER_SIZE + meta_cap) fdata in
           (re_dir env, and_then (verify payload expected) (\<lambda>_. Inr (m, Some (Plain payload), expected))))"

definition read_entry ::
  "(byte list \<Rightarrow> unpickled) \<Rightarrow> read_env \<Rightarrow> byte list \<Rightarrow> bool \<Rightarrow> chunk_dir \<times> (corrupt + stored_meta \<times> payload option)" where
  "read_entry loads env fdata with_payload = (case read_entry_and_checksum loads env fdata with_payload of
       (dir, Inl e) \<Rightarrow> (dir, Inl e)
     | (dir, Inr (m, payload, _)) \<Rightarrow> (dir, Inr (m, payload)))"

subsection \<open>The header and the metadata region\<close>

named_theorems entry_consts \<open>sizes of the layout\<close>

declare HEADER_SIZE_def [entry_consts] META_SLACK_def [entry_consts] SPLIT_ALIGN_def [entry_consts]
  CHUNK_REF_SIZE_def [entry_consts]

lemma length_zeros [simp]: "length (zeros n) = n"
  by (simp add: zeros_def)

lemma checksum_of_concat: "checksum_of chunks = checksum (concat chunks)"
  by (simp add: checksum_of_def checksum_def crc32_concat)

lemma length_checksum_of [simp]: "length (checksum_of chunks) = 4"
  by (simp add: checksum_of_concat)

lemma split_pad_aligns: "(n + split_pad n) mod SPLIT_ALIGN = 0"
proof (cases "n mod 64 = 0")
  case False
  have "(n mod 64 + (64 - n mod 64)) mod 64 = 0" by simp
  then have "(n + (64 - n mod 64)) mod 64 = 0" by (metis mod_add_left_eq)
  with False show ?thesis by (simp add: split_pad_def SPLIT_ALIGN_def)
qed (simp add: split_pad_def SPLIT_ALIGN_def)

lemma pack_uint_Some: "pack_uint k n = Some b \<longleftrightarrow> n < 256 ^ k \<and> b = le_bytes k n"
  by (auto simp: pack_uint_def)

lemma pack_all_Cons_Some:
  "pack_all (f # fs) = Some b \<longleftrightarrow> (\<exists>x y. f = Some x \<and> pack_all fs = Some y \<and> b = x @ y)"
  by (auto split: option.splits)

declare pack_all.simps(2) [simp del]

lemma magic_lengths: "magic \<in> set MAGICS \<Longrightarrow> length magic = 4"
  by (auto simp: MAGICS_def MAGIC_def MAGIC_SPLIT_def)

lemma magics_differ: "MAGIC \<noteq> MAGIC_SPLIT" "MAGIC \<in> set MAGICS" "MAGIC_SPLIT \<in> set MAGICS"
  by (simp_all add: MAGIC_def MAGIC_SPLIT_def MAGICS_def)

lemma header_pack_cases:
  assumes "header_pack magic ml cap = Some h" and "length magic = 4"
  shows "length h = HEADER_SIZE" and "header_unpack h = (magic, ml, cap)"
proof -
  from assms have h: "h = magic @ le_bytes 4 ml @ le_bytes 4 cap" and "ml < 256 ^ 4" "cap < 256 ^ 4"
    by (auto simp: header_pack_def pack_all_Cons_Some pack_uint_Some pack_str_exact)
  then show "length h = HEADER_SIZE" "header_unpack h = (magic, ml, cap)"
    using assms(2) by (simp_all add: HEADER_SIZE_def header_unpack_def le_nat_le_bytes)
qed

text \<open>A file that starts with a header and the metadata it announces is read as such,
  whatever follows.\<close>

lemma read_head_written:
  assumes "header_pack magic (length mb) cap = Some h" and "magic \<in> set MAGICS"
    and "length mb \<le> cap" and "loads mb = Dict m"
  shows "read_head loads (h @ mb @ rest) = Inr (magic, cap, m\<lparr>sm_checksum := None\<rparr>, sm_checksum m)"
  using header_pack_cases [OF assms(1) magic_lengths [OF assms(2)]] assms(2,3,4)
  by (simp add: read_head_def read_at_def load_metadata_def)

lemma pack_entry_parts_Some:
  assumes "pack_entry_parts dumps m chunks split given = Some e"
  obtains c mb cap h where
    "c = (case given of None \<Rightarrow> checksum_of chunks | Some c \<Rightarrow> c)"
    "mb = dumps (m\<lparr>sm_checksum := Some c\<rparr>)"
    "cap = length mb + META_SLACK + (if split then split_pad (HEADER_SIZE + length mb + META_SLACK) else 0)"
    "header_pack (if split then MAGIC_SPLIT else MAGIC) (length mb) cap = Some h" "length h = HEADER_SIZE"
    "e = \<lparr>pe_head = h @ mb @ zeros (cap - length mb), pe_chunks = chunks, pe_checksum = c,
          pe_size = HEADER_SIZE + cap + length (concat chunks)\<rparr>"
proof -
  let ?c = "case given of None \<Rightarrow> checksum_of chunks | Some c \<Rightarrow> c"
  let ?mb = "dumps (m\<lparr>sm_checksum := Some ?c\<rparr>)"
  let ?cap = "length ?mb + META_SLACK + (if split then split_pad (HEADER_SIZE + length ?mb + META_SLACK) else 0)"
  from assms obtain h where h: "header_pack (if split then MAGIC_SPLIT else MAGIC) (length ?mb) ?cap = Some h"
    and e: "e = \<lparr>pe_head = h @ ?mb @ zeros (?cap - length ?mb), pe_chunks = chunks, pe_checksum = ?c,
        pe_size = length (h @ ?mb @ zeros (?cap - length ?mb)) + sum_list (map length chunks)\<rparr>"
    by (cases split) (auto simp: pack_entry_parts_def Let_def add.assoc split: option.splits)
  have len: "length h = HEADER_SIZE"
    by (rule header_pack_cases [OF h]) (use magics_differ in \<open>auto intro: magic_lengths\<close>)
  show thesis
    by (rule that [OF refl refl refl h len]) (use e len in \<open>simp add: length_concat\<close>)
qed

text \<open>Reading the head of a packed entry gives back the metadata and the stamped checksum.\<close>

lemma read_head_packed:
  assumes "pack_entry_parts dumps m chunks split given = Some e"
    and "loads (dumps (m\<lparr>sm_checksum := Some (pe_checksum e)\<rparr>)) = Dict (m\<lparr>sm_checksum := Some (pe_checksum e)\<rparr>)"
  obtains cap where
    "length (pe_head e) = HEADER_SIZE + cap" "split \<Longrightarrow> (HEADER_SIZE + cap) mod SPLIT_ALIGN = 0"
    "\<And>payload. read_head loads (pe_head e @ payload) =
       Inr (if split then MAGIC_SPLIT else MAGIC, cap, m\<lparr>sm_checksum := None\<rparr>, Some (pe_checksum e))"
    "pe_size e = length (pe_head e) + length (concat chunks)" "pe_chunks e = chunks"
  using assms(1)
proof (rule pack_entry_parts_Some)
  fix c mb cap h
  assume c: "c = (case given of None \<Rightarrow> checksum_of chunks | Some c \<Rightarrow> c)"
    and mb: "mb = dumps (m\<lparr>sm_checksum := Some c\<rparr>)"
    and cap: "cap = length mb + META_SLACK + (if split then split_pad (HEADER_SIZE + length mb + META_SLACK) else 0)"
    and h: "header_pack (if split then MAGIC_SPLIT else MAGIC) (length mb) cap = Some h" "length h = HEADER_SIZE"
    and e: "e = \<lparr>pe_head = h @ mb @ zeros (cap - length mb), pe_chunks = chunks, pe_checksum = c,
          pe_size = HEADER_SIZE + cap + length (concat chunks)\<rparr>"
  have le: "length mb \<le> cap" using cap by simp
  have magic: "(if split then MAGIC_SPLIT else MAGIC) \<in> set MAGICS" using magics_differ by simp
  have "loads mb = Dict (m\<lparr>sm_checksum := Some c\<rparr>)" using assms(2) e mb by simp
  note head = read_head_written [where loads = loads, OF h(1) magic le this]
  show thesis
  proof (rule that)
    show len: "length (pe_head e) = HEADER_SIZE + cap" using e h(2) le by simp
    show "read_head loads (pe_head e @ payload) =
       Inr (if split then MAGIC_SPLIT else MAGIC, cap, m\<lparr>sm_checksum := None\<rparr>, Some (pe_checksum e))" for payload
      using head [of "zeros (cap - length mb) @ payload"] e by simp
    show "pe_size e = length (pe_head e) + length (concat chunks)" "pe_chunks e = chunks"
      using e len by simp_all
    show "(HEADER_SIZE + cap) mod SPLIT_ALIGN = 0" if split
      using that cap split_pad_aligns [of "HEADER_SIZE + length mb + META_SLACK"] by (simp add: add.assoc)
  qed
qed

subsection \<open>A payload in one piece\<close>

lemma read_plain:
  assumes "read_head loads fdata = Inr (MAGIC, cap, m, Some c)"
  shows "read_entry loads env fdata True =
    (re_dir env, if checksum (drop (HEADER_SIZE + cap) fdata) = c
                 then Inr (m, Some (Plain (drop (HEADER_SIZE + cap) fdata))) else Inl ChecksumMismatch)"
  using assms magics_differ
  by (simp add: read_entry_def read_entry_and_checksum_def verify_def require_then)

lemma read_metadata_only:
  assumes "read_head loads fdata = Inr (magic, cap, m, c)"
  shows "read_entry_and_checksum loads env fdata False = (re_dir env, Inr (m, None, c))"
  using assms by (simp add: read_entry_and_checksum_def)

text \<open>Parsing an entry in memory agrees with reading it from a file.\<close>

lemma unpack_entry_file:
  assumes "read_head loads blob = Inr (MAGIC, cap, m, Some c)"
    and "checksum (drop (HEADER_SIZE + cap) blob) = c" and "payload = drop (HEADER_SIZE + cap) blob"
  shows "unpack_entry loads blob True = Inr (m, Some payload)"
  using assms
  by (auto simp: read_head_def unpack_entry_def Let_def read_at_def and_then_Inr verify_def
      split: prod.splits if_splits)

lemma pack_entry_Some:
  "pack_entry dumps m payload given = Some blob \<longleftrightarrow>
     (\<exists>e. pack_entry_parts dumps m [payload] False given = Some e \<and> blob = pe_head e @ payload)"
  by (auto simp: pack_entry_def)

lemma pe_checksum_given:
  "pack_entry_parts dumps m chunks split given = Some e \<Longrightarrow>
     pe_checksum e = (case given of None \<Rightarrow> checksum (concat chunks) | Some c \<Rightarrow> c)"
  by (elim pack_entry_parts_Some) (auto simp: checksum_of_concat split: option.splits)

lemma pack_entry_head:
  assumes pack: "pack_entry dumps m payload None = Some blob"
    and pickle: "loads (dumps (m\<lparr>sm_checksum := Some (checksum payload)\<rparr>))
                   = Dict (m\<lparr>sm_checksum := Some (checksum payload)\<rparr>)"
  obtains e cap where "blob = pe_head e @ payload" "length (pe_head e) = HEADER_SIZE + cap"
    "\<And>rest. read_head loads (pe_head e @ rest) = Inr (MAGIC, cap, m\<lparr>sm_checksum := None\<rparr>, Some (checksum payload))"
    "pack_entry_parts dumps m [payload] False None = Some e"
proof -
  from pack obtain e where e: "pack_entry_parts dumps m [payload] False None = Some e"
    and blob: "blob = pe_head e @ payload"
    by (auto simp: pack_entry_Some)
  have crc: "pe_checksum e = checksum payload" using pe_checksum_given [OF e] by simp
  from e pickle [folded crc] obtain cap where len: "length (pe_head e) = HEADER_SIZE + cap"
    and head: "\<And>payload. read_head loads (pe_head e @ payload) =
      Inr (MAGIC, cap, m\<lparr>sm_checksum := None\<rparr>, Some (pe_checksum e))"
    by (rule read_head_packed) auto
  show thesis by (rule that [OF blob len _ e]) (simp add: head crc)
qed

lemma pack_entry_reads:
  assumes "pack_entry dumps m payload None = Some blob"
    and "loads (dumps (m\<lparr>sm_checksum := Some (checksum payload)\<rparr>))
                   = Dict (m\<lparr>sm_checksum := Some (checksum payload)\<rparr>)"
  shows "read_entry loads env blob True = (re_dir env, Inr (m\<lparr>sm_checksum := None\<rparr>, Some (Plain payload)))"
proof -
  obtain e cap where "blob = pe_head e @ payload" "length (pe_head e) = HEADER_SIZE + cap"
    and head: "\<And>rest. read_head loads (pe_head e @ rest) =
      Inr (MAGIC, cap, m\<lparr>sm_checksum := None\<rparr>, Some (checksum payload))"
    and "pack_entry_parts dumps m [payload] False None = Some e"
    by (rule pack_entry_head [where loads = loads, OF assms]) (rule that, assumption+)
  then show ?thesis using read_plain [OF head [of payload]] by simp
qed

text \<open>
  C6: An entry packed in one piece and read back gives the metadata it was packed with and
  the payload, byte for byte, whether it is read from a file or from memory; a read of the
  metadata alone gives that metadata; and its size is the one computed without packing it,
  when the length of pickled metadata does not depend on which four bytes the checksum is.
\<close>

theorem pack_entry_round_trip:
  assumes pack: "pack_entry dumps m payload None = Some blob"
    and pickle: "loads (dumps (m\<lparr>sm_checksum := Some (checksum payload)\<rparr>))
                   = Dict (m\<lparr>sm_checksum := Some (checksum payload)\<rparr>)"
    and width: "length (dumps (m\<lparr>sm_checksum := Some (checksum payload)\<rparr>))
                   = length (dumps (m\<lparr>sm_checksum := Some (zeros 4)\<rparr>))"
  shows "read_entry loads env blob True = (re_dir env, Inr (m\<lparr>sm_checksum := None\<rparr>, Some (Plain payload)))
    \<and> unpack_entry loads blob True = Inr (m\<lparr>sm_checksum := None\<rparr>, Some payload)
    \<and> read_entry loads env blob False = (re_dir env, Inr (m\<lparr>sm_checksum := None\<rparr>, None))
    \<and> length blob = packed_size dumps m (length payload)"
proof -
  obtain e cap where blob: "blob = pe_head e @ payload" and len: "length (pe_head e) = HEADER_SIZE + cap"
    and head: "\<And>rest. read_head loads (pe_head e @ rest) =
      Inr (MAGIC, cap, m\<lparr>sm_checksum := None\<rparr>, Some (checksum payload))"
    and e: "pack_entry_parts dumps m [payload] False None = Some e"
    by (rule pack_entry_head [where loads = loads, OF pack pickle]) (rule that, assumption+)
  have "read_entry loads env blob False = (re_dir env, Inr (m\<lparr>sm_checksum := None\<rparr>, None))"
    using read_metadata_only [OF head [of payload]] blob by (simp add: read_entry_def)
  moreover from e have "length blob = packed_size dumps m (length payload)"
    by (rule pack_entry_parts_Some) (use blob width in \<open>simp add: packed_size_def checksum_of_concat\<close>)
  moreover have "unpack_entry loads blob True = Inr (m\<lparr>sm_checksum := None\<rparr>, Some payload)"
    by (rule unpack_entry_file [OF head [of payload, folded blob]]) (use len blob in simp_all)
  ultimately show ?thesis using pack_entry_reads [where loads = loads, OF pack pickle] by simp
qed

subsection \<open>A sample entry\<close>

definition empty_stored :: stored_meta where
  "empty_stored = entry_metadata.extend no_metadata (stored_meta.fields None None None)"

definition sample_dumps :: "stored_meta \<Rightarrow> byte list" where
  "sample_dumps m = [9]"

definition sample_loads :: "crc \<Rightarrow> byte list \<Rightarrow> unpickled" where
  "sample_loads crc bs = (if bs = [9] then Dict (empty_stored\<lparr>sm_checksum := Some crc\<rparr>) else Raises)"

definition sample_env :: read_env where
  "sample_env = \<lparr>re_dir = sample_dir, re_can_map = False, re_removable = True\<rparr>"

definition sample_head :: "byte list" where
  "sample_head = MAGIC @ le_bytes 4 1 @ le_bytes 4 65 @ [9] @ zeros 64"

lemma length_sample_head: "length sample_head = 77"
  by (simp add: sample_head_def MAGIC_def)

lemma sample_packed: "pack_entry sample_dumps empty_stored payload None = Some (sample_head @ payload)"
  by (simp add: pack_entry_def pack_entry_parts_def sample_dumps_def header_pack_def pack_all.simps pack_uint_def
      META_SLACK_def pack_str_exact MAGIC_def sample_head_def)

lemma sample_pickle: "sample_loads crc (sample_dumps (empty_stored\<lparr>sm_checksum := Some crc\<rparr>))
    = Dict (empty_stored\<lparr>sm_checksum := Some crc\<rparr>)"
  by (simp add: sample_loads_def sample_dumps_def)

theorem pack_entry_round_trip_witness:
  "read_entry (sample_loads (checksum [1, 2])) sample_env (sample_head @ [1, 2]) True
     = (sample_dir, Inr (empty_stored\<lparr>sm_checksum := None\<rparr>, Some (Plain [1, 2])))
   \<and> packed_size sample_dumps empty_stored 2 = 79"
  using pack_entry_round_trip [where loads = "sample_loads (checksum [1, 2])", OF sample_packed [of "[1, 2]"] sample_pickle, of sample_env] length_sample_head
  by (simp add: sample_dumps_def sample_env_def packed_size_def entry_consts)

end
