(* ===== verification/Split_Layout.thy ===== *)
theory Split_Layout
  imports Entry_Format
begin

text \<open>
  What the layout of a split entry guarantees: the checksum a read computes piece by piece
  is the checksum of the whole payload, so a mapped read and a plain one agree and any
  change of one byte is caught; a file cut short is caught by its own table; and an entry
  written is read back buffer by buffer.
\<close>

subsection \<open>Reading and mapping agree\<close>

lemma read_exact_fits: "pos + n \<le> length fdata \<Longrightarrow> read_exact fdata pos n = Inr (take n (drop pos fdata))"
  by (simp add: read_exact_def read_at_def)

lemma read_exact_Inr: "read_exact fdata pos n = Inr b \<Longrightarrow> n \<noteq> 0 \<Longrightarrow> pos + n \<le> length fdata"
  by (auto simp: read_exact_def read_at_def Let_def split: if_splits)

lemma read_exact_data: "read_exact fdata pos n = Inr b \<Longrightarrow> b = take n (drop pos fdata)"
  by (auto simp: read_exact_def read_at_def Let_def split: if_splits)

lemma layout_end_ge: "offset \<le> layout_end apart i offset ns"
proof (induction apart i offset ns rule: layout_end.induct)
  case (2 apart i offset n ns)
  then show ?case by (auto split: if_splits)
qed simp

lemma take_drop_3:
  "take (a + b + c) (drop p xs) = take a (drop p xs) @ take b (drop (p + a) xs) @ take c (drop (p + a + b) xs)"
  by (simp only: take_add drop_drop append_assoc) (simp only: ac_simps)

lemma read_buffers_map:
  assumes "start + layout_end apart i offset ns \<le> length fdata"
  shows "read_buffers fdata start apart i offset crc ns =
    Inr (map_buffers (drop start fdata) apart i offset ns,
         crc32 (take (layout_end apart i offset ns - offset) (drop (start + offset) fdata)) crc)"
  using assms
proof (induction fdata start apart i offset crc ns rule: read_buffers.induct)
  case (1 fdata start apart i offset crc)
  then show ?case by (simp add: crc32_def)
next
  case (2 fdata start apart i offset crc n ns)
  show ?case
  proof (cases "map_of apart i")
    case (Some r)
    with 2 show ?thesis by simp
  next
    case None
    let ?pad = "split_pad offset"
    let ?rest = "layout_end apart (Suc i) (offset + ?pad + n) ns"
    have le: "offset + ?pad + n \<le> ?rest" by (rule layout_end_ge)
    have fit: "start + ?rest \<le> length fdata" using "2.prems" None by simp
    let ?z = "take ?pad (drop (start + offset) fdata)"
    let ?b = "take n (drop (start + offset + ?pad) fdata)"
    have pad: "(if ?pad = 0 then Inr crc
        else and_then (read_exact fdata (start + offset) ?pad) (\<lambda>z. Inr (crc32 z crc))) = Inr (crc32 ?z crc)"
      using le fit by (simp add: read_exact_fits crc32_def)
    have buf: "read_into fdata (start + offset + ?pad) n Truncated = Inr ?b"
      using le fit by (simp add: read_into_fits)
    have IH: "read_buffers fdata start apart (Suc i) (offset + ?pad + n) (crc32 ?b (crc32 ?z crc)) ns =
      Inr (map_buffers (drop start fdata) apart (Suc i) (offset + ?pad + n) ns,
           crc32 (take (?rest - (offset + ?pad + n)) (drop (start + (offset + ?pad + n)) fdata)) (crc32 ?b (crc32 ?z crc)))"
      using "2.IH"(2) None pad buf fit by simp
    have "take (?rest - offset) (drop (start + offset) fdata)
        = ?z @ ?b @ take (?rest - (offset + ?pad + n)) (drop (start + (offset + ?pad + n)) fdata)"
      using take_drop_3 [of ?pad n "?rest - (offset + ?pad + n)" "start + offset" fdata] le
      by (simp add: add.assoc)
    with None pad buf IH show ?thesis by (simp add: crc32_append Let_def ac_simps)
  qed
qed

text \<open>Once the table has been checked against the file, the read succeeds exactly when the
  whole payload has the stamped checksum, and gives what the mapping gives.\<close>

lemma apart_of_Inr:
  "apart_of n acc refs = Inr apart \<Longrightarrow> dict_ok acc \<Longrightarrow>
     apart = acc @ refs \<and> dict_ok apart \<and> fst ` set refs \<subseteq> {..<n}"
proof (induction n acc refs rule: apart_of.induct)
  case (2 n acc index digest crc refs)
  then have "index \<notin> fst ` set acc" "index < n" by (auto simp: map_of_eq_None_iff split: if_splits)
  with 2 have "apart = AList.update index (digest, crc) acc @ refs \<and> dict_ok apart \<and> fst ` set refs \<subseteq> {..<n}"
    by (auto simp only: apart_of.simps dict_ok_update split: if_splits)
  with \<open>index \<notin> fst ` set acc\<close> \<open>index < n\<close> show ?case
    by (elim conjE, intro conjI) (simp_all add: update_fresh)
qed simp

lemma length_unpack_lengths [simp]: "length (unpack_lengths n raw) = n"
  by (induction n arbitrary: raw) auto

lemma read_split_table_Inr:
  assumes "read_split_table fdata start = Inr (stream_len, lengths, apart, table, raws)"
  shows "concat raws = take table (drop start fdata)"
    and "start + layout_end apart 0 (table + split_pad table + stream_len) lengths = length fdata"
    and "dict_ok apart" and "fst ` set apart \<subseteq> {..<length lengths}"
proof -
  from assms obtain head lengths_raw count_raw refs_raw n where
      raws: "raws = [head, lengths_raw, count_raw, refs_raw]"
    and reads: "read_exact fdata start 12 = Inr head" "read_exact fdata (start + 12) (8 * n) = Inr lengths_raw"
      "read_exact fdata (start + 12 + 8 * n) 4 = Inr count_raw"
      "read_exact fdata (start + 12 + 8 * n + 4) (CHUNK_REF_SIZE * le_nat count_raw) = Inr refs_raw"
    and table: "table = 12 + 8 * n + 4 + CHUNK_REF_SIZE * le_nat count_raw"
    and fits: "start + layout_end apart 0 (table + split_pad table + stream_len) lengths = length fdata"
    and apart: "apart_of n [] (unpack_refs (le_nat count_raw) refs_raw) = Inr apart"
    and lengths: "lengths = unpack_lengths n lengths_raw"
    by (auto simp: read_split_table_def Let_def and_then_Inr require_Inr)
  show "start + layout_end apart 0 (table + split_pad table + stream_len) lengths = length fdata" by (rule fits)
  show "dict_ok apart" "fst ` set apart \<subseteq> {..<length lengths}"
    using apart_of_Inr [OF apart] lengths by auto
  show "concat raws = take table (drop start fdata)"
    using raws table reads [THEN read_exact_data]
      take_drop_3 [of 12 "8 * n" "4 + CHUNK_REF_SIZE * le_nat count_raw" start fdata]
      take_add [of 4 "CHUNK_REF_SIZE * le_nat count_raw" "drop (start + 12 + 8 * n) fdata"]
    by (simp add: ac_simps)
qed

lemma read_split_body_checked:
  assumes "read_split_table fdata start = Inr (stream_len, lengths, apart, table, raws)"
  shows "read_split_body fdata start stream_len lengths apart table raws expected =
    (if checksum (drop start fdata) = expected
     then Inr (take stream_len (drop (table + split_pad table) (drop start fdata)),
               map_buffers (drop start fdata) apart 0 (table + split_pad table + stream_len) lengths)
     else Inl ChecksumMismatch)"
proof -
  note tab = read_split_table_Inr [OF assms]
  let ?off = "table + split_pad table + stream_len"
  let ?fin = "layout_end apart 0 ?off lengths"
  have le: "?off \<le> ?fin" by (rule layout_end_ge)
  let ?z = "take (split_pad table) (drop (start + table) fdata)"
  let ?s = "take stream_len (drop (start + table + split_pad table) fdata)"
  let ?b = "take (?fin - ?off) (drop (start + ?off) fdata)"
  have z: "read_exact fdata (start + table) (split_pad table) = Inr ?z"
    and s: "read_into fdata (start + table + split_pad table) stream_len Truncated = Inr ?s"
    using tab(2) le by (simp_all add: read_exact_fits read_into_fits)
  have "drop start fdata = take ?fin (drop start fdata)" using tab(2) by simp
  also have "\<dots> = take table (drop start fdata) @ ?z @ ?s @ ?b"
    using take_drop_3 [of "split_pad table" stream_len "?fin - ?off" "start + table" fdata]
      take_add [of table "?fin - table" "drop start fdata"] le
    by (simp add: add.assoc add.commute [of _ start])
  finally have whole: "drop start fdata = concat raws @ ?z @ ?s @ ?b" using tab(1) by simp
  have "read_buffers fdata start apart 0 ?off crc lengths
      = Inr (map_buffers (drop start fdata) apart 0 ?off lengths, crc32 ?b crc)" for crc
    using read_buffers_map [of start apart 0 ?off lengths fdata crc] tab(2) by simp
  moreover have "crc32 (drop start fdata) 0 = crc32 ?b (crc32 ?s (crc32 ?z (crc32 (concat raws) 0)))"
    by (subst whole) (simp add: crc32_append)
  ultimately show ?thesis
    using z s by (simp add: read_split_body_def Let_def crc32_concat checksum_def require_then ac_simps)
qed

lemma read_apart_unmapped: "read_apart env = read_apart (env\<lparr>re_can_map := False\<rparr>)"
  by (intro ext) (simp add: read_apart_def read_chunks_unmapped [of "re_can_map env"])

lemma read_split_eq:
  "read_split env fdata start expected places = (case expected of
       None \<Rightarrow> (re_dir env, Inl NoChecksum)
     | Some crc \<Rightarrow> (case read_split_table fdata start of
         Inl e \<Rightarrow> (re_dir env, Inl e)
       | Inr (stream_len, lengths, apart, table, raws) \<Rightarrow>
           map_split (env\<lparr>re_can_map := False\<rparr>) fdata start table stream_len lengths apart crc places))"
proof -
  have "map_split env fdata start table stream_len lengths apart crc places
      = map_split (env\<lparr>re_can_map := False\<rparr>) fdata start table stream_len lengths apart crc places"
    for table stream_len lengths apart crc
    by (simp add: map_split_def Let_def read_apart_unmapped [of env])
  moreover have "(case read_split_body fdata start stream_len lengths apart table raws crc of
        Inl e \<Rightarrow> (re_dir env, Inl e)
      | Inr (stream, buffers) \<Rightarrow> (case read_apart env buffers lengths apart places of
            (dir, Inl e) \<Rightarrow> (dir, Inl e)
          | (dir, Inr bufs) \<Rightarrow> (dir, Inr (SplitPayload stream bufs))))
      = map_split env fdata start table stream_len lengths apart crc places"
    if "read_split_table fdata start = Inr (stream_len, lengths, apart, table, raws)"
    for table stream_len lengths apart raws crc
    by (simp add: read_split_body_checked [OF that] map_split_def Let_def)
  ultimately show ?thesis
    by (auto simp: read_split_def split: option.split sum.split)
qed

lemma read_split_Inr:
  assumes "read_split env fdata start expected places = (dir, Inr payload)"
  shows "expected = Some (checksum (drop start fdata))"
  using assms by (auto simp: read_split_eq map_split_def Let_def split: option.splits sum.splits if_splits)

lemma read_split_unmapped: "read_split (env\<lparr>re_can_map := True\<rparr>) = read_split (env\<lparr>re_can_map := False\<rparr>)"
  by (intro ext) (simp add: read_split_eq split: option.split sum.split)

text \<open>
  C12: A split entry is read alike whether its file is mapped or read piece by piece: the same
  value, the same refusal.
\<close>

theorem map_split_agrees:
  "read_entry loads (env\<lparr>re_can_map := True\<rparr>) fdata with_payload
     = read_entry loads (env\<lparr>re_can_map := False\<rparr>) fdata with_payload"
  by (simp add: read_entry_def read_entry_and_checksum_def read_split_unmapped split: sum.split)

lemma read_entry_payload_checksum:
  assumes "read_entry loads env fdata True = (dir, Inr (m, payload))"
  obtains magic cap where "read_head loads fdata = Inr (magic, cap, m, Some (checksum (drop (HEADER_SIZE + cap) fdata)))"
  using assms
  by (auto simp: read_entry_def read_entry_and_checksum_def verify_def require_Inr Let_def and_then_Inr
      dest!: read_split_Inr split: sum.splits prod.splits if_splits option.splits)

subsection \<open>Damage and truncation\<close>

lemma read_head_prefix:
  assumes "read_head loads fdata = Inr r"
  shows "read_head loads (fdata @ t) = Inr r"
proof -
  have "read_at (fdata @ t) pos n = read_at fdata pos n" if "\<not> length (read_at fdata pos n) < n" for pos n
    using that by (auto simp: read_at_def)
  with assms show ?thesis by (auto simp: read_head_def Let_def split: prod.splits if_splits)
qed

lemma read_head_local:
  assumes "read_head loads fdata = Inr (magic, cap, m, c)"
  shows "read_head loads (take (HEADER_SIZE + cap) fdata) = Inr (magic, cap, m, c)"
proof -
  have "read_at (take (HEADER_SIZE + cap) fdata) 0 HEADER_SIZE = read_at fdata 0 HEADER_SIZE"
    and "n \<le> cap \<Longrightarrow> read_at (take (HEADER_SIZE + cap) fdata) HEADER_SIZE n = read_at fdata HEADER_SIZE n" for n
    by (simp_all add: read_at_def drop_take)
  with assms show ?thesis by (auto simp: read_head_def Let_def and_then_Inr split: prod.splits if_splits)
qed

lemma metadata_span_head:
  "read_head loads fdata = Inr (magic, cap, m, c) \<Longrightarrow> metadata_span fdata = Inr (HEADER_SIZE + cap)"
  by (auto simp: read_head_def metadata_span_def read_at_def Let_def and_then_Inr split: prod.splits if_splits)

lemma checksum_one_byte: "a \<noteq> b \<Longrightarrow> checksum (xs @ a # ys) \<noteq> checksum (xs @ b # ys)"
  using crc32_one_byte [of a b xs ys 0] by (auto simp: checksum_def dest: crc_bytes_inj)

text \<open>
  C4: In an entry that can be read, of either format, changing any one byte past the
  metadata region makes the entry unreadable: damage to a single byte of a stored value is
  always found.
\<close>

theorem one_byte_damage_found:
  assumes good: "snd (read_entry loads env (pre @ a # post) True) = Inr r"
    and span: "metadata_span (pre @ a # post) = Inr n" "n \<le> length pre" and "a \<noteq> b"
  shows "isl (snd (read_entry loads env' (pre @ b # post) True))"
proof (rule ccontr)
  assume "\<not> isl (snd (read_entry loads env' (pre @ b # post) True))"
  then obtain dir' m' p' where bad: "read_entry loads env' (pre @ b # post) True = (dir', Inr (m', p'))"
    using sum.collapse(2) [of "snd (read_entry loads env' (pre @ b # post) True)"] prod.collapse by metis
  from good obtain dir m p where "read_entry loads env (pre @ a # post) True = (dir, Inr (m, p))"
    by (cases "read_entry loads env (pre @ a # post) True"; cases r) auto
  then obtain magic cap where head: "read_head loads (pre @ a # post) =
      Inr (magic, cap, m, Some (checksum (drop (HEADER_SIZE + cap) (pre @ a # post))))"
    by (rule read_entry_payload_checksum)
  from bad obtain magic' cap' where head': "read_head loads (pre @ b # post) =
      Inr (magic', cap', m', Some (checksum (drop (HEADER_SIZE + cap') (pre @ b # post))))"
    by (rule read_entry_payload_checksum)
  have n: "n = HEADER_SIZE + cap" using metadata_span_head [OF head] span by simp
  have "take n (pre @ a # post) = take n (pre @ b # post)" using span(2) by simp
  then have "read_head loads (take n (pre @ b # post)) =
      Inr (magic, cap, m, Some (checksum (drop n (pre @ a # post))))"
    using read_head_local [OF head] n by simp
  from read_head_prefix [OF this, of "drop n (pre @ b # post)"]
  have "read_head loads (pre @ b # post) = Inr (magic, cap, m, Some (checksum (drop n (pre @ a # post))))"
    by (simp only: append_take_drop_id)
  then have "checksum (drop n (pre @ a # post)) = checksum (drop n (pre @ b # post))"
    using head' n by (auto simp del: drop_append)
  with span(2) checksum_one_byte [OF assms(4), of "drop n pre" post] show False by simp
qed

lemma read_exact_prefix: "read_exact fdata pos n = Inr b \<Longrightarrow> read_exact (fdata @ t) pos n = Inr b"
  using read_exact_Inr [of fdata pos n b] read_exact_fits [of pos n fdata] read_exact_fits [of pos n "fdata @ t"]
  by (cases "n = 0") (auto simp: read_exact_def)

lemma read_split_table_prefix:
  assumes short: "read_split_table fdata start = Inr r" and "read_split_table (fdata @ t) start = Inr r'"
  shows "t = []"
proof -
  obtain stream_len lengths apart table raws where r: "r = (stream_len, lengths, apart, table, raws)" by (cases r)
  from short [unfolded r] have "start + layout_end apart 0 (table + split_pad table + stream_len) lengths = length fdata"
    by (rule read_split_table_Inr)
  moreover have "start + layout_end apart 0 (table + split_pad table + stream_len) lengths = length (fdata @ t)"
    using assms unfolding r read_split_table_def Let_def and_then_Inr require_Inr
    by (elim exE conjE) (drule read_exact_prefix [where t = t], simp)+
  ultimately show ?thesis by simp
qed

lemma read_head_magic: "read_head loads fdata = Inr (magic, cap, m, c) \<Longrightarrow> magic = take 4 fdata"
  by (auto simp: read_head_def Let_def and_then_Inr header_unpack_def read_at_def HEADER_SIZE_def
      split: prod.splits if_splits)

lemma read_entry_split_table:
  assumes "read_entry loads env fdata True = (dir, Inr r)" and "read_head loads fdata = Inr (MAGIC_SPLIT, cap, m, c)"
  shows "\<exists>r. read_split_table fdata (HEADER_SIZE + cap) = Inr r"
  using assms
  by (auto simp: read_entry_def read_entry_and_checksum_def read_split_def split: sum.splits prod.splits option.splits)

text \<open>
  C13: A split entry that can be read becomes unreadable when its file is cut short at any
  point: its own table says how long it is.
\<close>

theorem split_truncation_found:
  assumes good: "snd (read_entry loads env (fdata @ t) True) = Inr r"
    and "take 4 (fdata @ t) = MAGIC_SPLIT" and "t \<noteq> []"
  shows "isl (snd (read_entry loads env' fdata True))"
proof (rule ccontr)
  assume "\<not> isl (snd (read_entry loads env' fdata True))"
  then obtain dir' m' p' where bad: "read_entry loads env' fdata True = (dir', Inr (m', p'))"
    using sum.collapse(2) [of "snd (read_entry loads env' fdata True)"] prod.collapse by metis
  then obtain magic cap c where head: "read_head loads fdata = Inr (magic, cap, m', c)"
    by (rule read_entry_payload_checksum) blast
  note full = read_head_prefix [OF head, of t]
  have "magic = MAGIC_SPLIT" using read_head_magic [OF full] assms(2) by simp
  with read_entry_split_table [OF bad] head full obtain r1 where
    "read_split_table fdata (HEADER_SIZE + cap) = Inr r1" by blast
  moreover obtain r2 where "read_split_table (fdata @ t) (HEADER_SIZE + cap) = Inr r2"
    using read_entry_split_table [of loads env "fdata @ t" _ r cap m' c] good full \<open>magic = MAGIC_SPLIT\<close>
    by (metis prod.collapse)
  ultimately have "t = []" by (rule read_split_table_prefix)
  with assms(3) show False ..
qed

subsection \<open>Writing and reading back\<close>

lemma pack_all_append:
  "pack_all (xs @ ys) = Some b \<longleftrightarrow> (\<exists>x y. pack_all xs = Some x \<and> pack_all ys = Some y \<and> b = x @ y)"
  by (induction xs arbitrary: b) (auto simp: pack_all_Cons_Some)

lemma pack_lengths:
  "pack_all (map (\<lambda>b. pack_uint 8 (length b)) bufs) = Some raw \<Longrightarrow>
     length raw = 8 * length bufs \<and> unpack_lengths (length bufs) raw = map length bufs"
  by (induction bufs arbitrary: raw) (auto simp: pack_all_Cons_Some pack_uint_Some le_nat_le_bytes)

lemma pack_refs:
  "pack_all (map chunk_ref_pack refs) = Some raw \<Longrightarrow> \<forall>(i, digest, crc) \<in> set refs. length digest = 32 \<and> length crc = 4 \<Longrightarrow>
     length raw = CHUNK_REF_SIZE * length refs \<and> unpack_refs (length refs) raw = refs"
proof (induction refs arbitrary: raw)
  case (Cons r refs)
  obtain i digest crc where r: "r = (i, digest, crc)" by (cases r)
  from Cons.prems(2) r have len: "length digest = 32" "length crc = 4" by simp_all
  from Cons.prems(1) r obtain x y where xy: "chunk_ref_pack (i, digest, crc) = Some x" "raw = x @ y"
    and "pack_all (map chunk_ref_pack refs) = Some y"
    by (auto simp: pack_all_Cons_Some)
  moreover have "i < 256 ^ 4 \<and> x = le_bytes 4 i @ digest @ crc"
    using xy(1) len by (auto simp: chunk_ref_pack_def pack_all_Cons_Some pack_uint_Some pack_str_exact)
  moreover note len
  ultimately show ?case using Cons.IH Cons.prems(2) r by (simp add: CHUNK_REF_SIZE_def le_nat_le_bytes)
qed simp

lemma apart_of_ok:
  "dict_ok (acc @ refs) \<Longrightarrow> fst ` set refs \<subseteq> {..<n} \<Longrightarrow> apart_of n acc refs = Inr (acc @ refs)"
proof (induction n acc refs rule: apart_of.induct)
  case (2 n acc index digest crc refs)
  then have "index \<notin> fst ` set acc" "index < n" by auto
  with 2 show ?case by (simp add: update_fresh map_of_eq_None_iff [THEN iffD2])
qed simp

lemma read_exact_here: "length pre = pos \<Longrightarrow> length x = n \<Longrightarrow> read_exact (pre @ x @ post) pos n = Inr x"
  by (auto simp: read_exact_def read_at_def)

lemma split_table_Some:
  assumes "split_table stream buffers apart = Some table"
    and "\<forall>(i, digest, crc) \<in> set apart. length digest = 32 \<and> length crc = 4"
  obtains ls refs where
    "table = le_bytes 8 (length stream) @ le_bytes 4 (length buffers) @ ls @ le_bytes 4 (length apart) @ refs"
    "length stream < 256 ^ 8" "length buffers < 256 ^ 4" "length apart < 256 ^ 4"
    "length ls = 8 * length buffers" "unpack_lengths (length buffers) ls = map length buffers"
    "length refs = CHUNK_REF_SIZE * length apart" "unpack_refs (length apart) refs = sort_key fst apart"
proof -
  from assms(1) obtain ls refs where
      table: "table = le_bytes 8 (length stream) @ le_bytes 4 (length buffers) @ ls @ le_bytes 4 (length apart) @ refs"
    and bounds: "length stream < 256 ^ 8" "length buffers < 256 ^ 4" "length apart < 256 ^ 4"
    and ls: "pack_all (map (\<lambda>b. pack_uint 8 (length b)) buffers) = Some ls"
    and refs: "pack_all (map chunk_ref_pack (sort_key fst apart)) = Some refs"
    by (auto simp: split_table_def pack_all_append pack_all_Cons_Some pack_uint_Some)
  from that [OF table bounds] pack_lengths [OF ls] pack_refs [OF refs] assms(2) show thesis by simp
qed

lemma layout_tail:
  "layout_end apart i offset (map length bufs) = offset + length (concat (split_tail apart i offset bufs))"
  by (induction apart i offset bufs rule: split_tail.induct) auto

fun inline_buffers :: "(nat \<times> digest \<times> crc) list \<Rightarrow> nat \<Rightarrow> byte list list \<Rightarrow> byte list option list" where
  "inline_buffers apart i [] = []"
| "inline_buffers apart i (b # bs) = (if map_of apart i = None then Some b else None) # inline_buffers apart (Suc i) bs"

lemma map_buffers_tail:
  "length p = offset \<Longrightarrow>
     map_buffers (p @ concat (split_tail apart i offset bufs)) apart i offset (map length bufs) = inline_buffers apart i bufs"
proof (induction apart i offset bufs arbitrary: p rule: split_tail.induct)
  case (2 apart i offset buf bufs)
  show ?case
  proof (cases "map_of apart i")
    case (Some r)
    with 2 show ?thesis by simp
  next
    case None
    let ?p = "p @ zeros (split_pad offset) @ buf"
    have "map_buffers (?p @ concat (split_tail apart (Suc i) (offset + split_pad offset + length buf) bufs))
        apart (Suc i) (offset + split_pad offset + length buf) (map length bufs) = inline_buffers apart (Suc i) bufs"
      using "2.IH"(2) [of ?p] None "2.prems" by simp
    then show ?thesis using None "2.prems" by (cases "split_pad offset = 0") (simp_all add: Let_def zeros_def)
  qed
qed simp

lemma sorted_apart:
  "dict_ok apart \<Longrightarrow> dict_ok (sort_key fst apart) \<and> map_of (sort_key fst apart) = map_of apart"
proof -
  assume ok: "dict_ok apart"
  have "mset (map fst (sort_key fst apart)) = mset (map fst apart)" by simp
  then have "dict_ok (sort_key fst apart)" using ok mset_eq_imp_distinct_iff by blast
  with ok show ?thesis by (simp add: map_of_inject_set)
qed

lemma split_tail_cong: "map_of apart = map_of apart' \<Longrightarrow> split_tail apart i offset bufs = split_tail apart' i offset bufs"
  by (induction apart i offset bufs rule: split_tail.induct) simp_all

lemma read_split_table_written:
  assumes table: "split_table stream buffers apart = Some table"
    and refs: "\<forall>(i, digest, crc) \<in> set apart. i < length buffers \<and> length digest = 32 \<and> length crc = 4"
    and ok: "dict_ok apart"
    and whole: "length rest = layout_end apart 0 (length table + split_pad (length table) + length stream) (map length buffers)
                  - length table"
  obtains raws where "read_split_table (pre @ table @ rest) (length pre)
    = Inr (length stream, map length buffers, sort_key fst apart, length table, raws)"
proof -
  obtain ls rf where t: "table = le_bytes 8 (length stream) @ le_bytes 4 (length buffers) @ ls @ le_bytes 4 (length apart) @ rf"
    and bounds: "length stream < 256 ^ 8" "length buffers < 256 ^ 4" "length apart < 256 ^ 4"
    and ls: "length ls = 8 * length buffers" "unpack_lengths (length buffers) ls = map length buffers"
    and rf: "length rf = CHUNK_REF_SIZE * length apart" "unpack_refs (length apart) rf = sort_key fst apart"
    by (rule split_table_Some [OF table]) (use refs in blast)+
  let ?h = "le_bytes 8 (length stream) @ le_bytes 4 (length buffers)"
  let ?n = "le_bytes 4 (length apart)"
  let ?f = "pre @ table @ rest"
  have reads: "read_exact ?f (length pre) 12 = Inr ?h"
    "read_exact ?f (length pre + 12) (8 * length buffers) = Inr ls"
    "read_exact ?f (length pre + 12 + 8 * length buffers) 4 = Inr ?n"
    "read_exact ?f (length pre + 12 + 8 * length buffers + 4) (CHUNK_REF_SIZE * length apart) = Inr rf"
    using read_exact_here [of pre "length pre" ?h 12 "ls @ ?n @ rf @ rest"]
      read_exact_here [of "pre @ ?h" "length pre + 12" ls "8 * length buffers" "?n @ rf @ rest"]
      read_exact_here [of "pre @ ?h @ ls" "length pre + 12 + 8 * length buffers" ?n 4 "rf @ rest"]
      read_exact_here [of "pre @ ?h @ ls @ ?n" "length pre + 12 + 8 * length buffers + 4" rf
        "CHUNK_REF_SIZE * length apart" rest]
    by (simp_all add: t ls rf)
  have len: "length table = 12 + 8 * length buffers + 4 + CHUNK_REF_SIZE * length apart"
    using t ls rf by simp
  have sorted: "dict_ok (sort_key fst apart)" "map_of (sort_key fst apart) = map_of apart"
    using sorted_apart [OF ok] by simp_all
  have apart: "apart_of (length buffers) [] (sort_key fst apart) = Inr (sort_key fst apart)"
    using apart_of_ok [of "[]" "sort_key fst apart" "length buffers"] sorted refs by fastforce
  have layout: "layout_end (sort_key fst apart) 0 offset (map length buffers)
      = layout_end apart 0 offset (map length buffers)" for offset
    by (simp add: layout_tail split_tail_cong [OF sorted(2)])
  let ?off = "length table + split_pad (length table) + length stream"
  have "length table \<le> layout_end apart 0 ?off (map length buffers)"
    using layout_end_ge [of ?off apart 0 "map length buffers"] by simp
  then have "length pre + layout_end (sort_key fst apart) 0 ?off (map length buffers) = length ?f"
    using whole layout by simp
  then have "read_split_table ?f (length pre)
      = Inr (length stream, map length buffers, sort_key fst apart, length table, [?h, ls, ?n, rf])"
    using reads len ls(2) rf(2) bounds apart
    by (simp add: read_split_table_def Let_def le_nat_le_bytes require_then)
  then show thesis by (rule that)
qed

lemma length_inline [simp]: "length (inline_buffers apart i bufs) = length bufs"
  by (induction bufs arbitrary: i) auto

lemma inline_nth:
  "j < length bufs \<Longrightarrow> inline_buffers apart i bufs ! j = (if map_of apart (i + j) = None then Some (bufs ! j) else None)"
proof (induction bufs arbitrary: i j)
  case (Cons b bufs)
  then show ?case by (cases j) auto
qed simp

lemma length_fill [simp]: "length (fill bs found) = length bs"
  by (induction bs found rule: fill.induct) auto

lemma fill_nth:
  "\<forall>(i, data) \<in> set found. data = bufs ! i \<Longrightarrow> j < length bs \<Longrightarrow>
     fill bs found ! j = (if j \<in> fst ` set found then Some (bufs ! j) else bs ! j)"
  by (induction bs found rule: fill.induct) (auto simp: nth_list_update)

lemma fill_inline:
  assumes "\<forall>(i, data) \<in> set found. data = bufs ! i" and "fst ` set found = fst ` set apart"
  shows "fill (inline_buffers apart 0 bufs) found = map Some bufs"
  using assms
  by (intro nth_equalityI) (auto simp: fill_nth [OF assms(1)] inline_nth map_of_eq_None_iff)

lemma inline_none: "inline_buffers [] i bufs = map Some bufs"
  by (induction bufs arbitrary: i) auto

lemma inline_cong: "map_of apart = map_of apart' \<Longrightarrow> inline_buffers apart i bufs = inline_buffers apart' i bufs"
  by (induction bufs arbitrary: i) simp_all

lemma split_entry_reads:
  assumes split: "split_chunks stream buffers apart = Some chunks"
    and pack: "pack_entry_parts dumps m chunks True None = Some e"
    and pickle: "loads (dumps (m\<lparr>sm_checksum := Some (pe_checksum e)\<rparr>)) = Dict (m\<lparr>sm_checksum := Some (pe_checksum e)\<rparr>)"
    and apart: "dict_ok apart" "\<forall>(i, digest, crc) \<in> set apart. i < length buffers \<and> length digest = 32 \<and> length crc = 4"
    and store: "apart \<noteq> [] \<longrightarrow> read_chunks (re_can_map env) (re_removable env) (re_dir env) (sort_key fst apart)
        (map length buffers) (sm_places m) = (re_dir env, Inr found)"
      "\<forall>(i, data) \<in> set found. data = buffers ! i" "fst ` set found = fst ` set apart"
  shows "read_entry loads env (pe_head e @ concat (pe_chunks e)) True
      = (re_dir env, Inr (m\<lparr>sm_checksum := None\<rparr>, Some (SplitPayload stream (map Some buffers))))"
proof -
  from split obtain table where table: "split_table stream buffers apart = Some table"
    and chunks: "chunks = (table @ zeros (split_pad (length table))) # stream
      # split_tail apart 0 (length table + split_pad (length table) + length stream) buffers"
    by (auto simp: split_chunks_def Let_def split: option.splits)
  from pack pickle obtain cap where len: "length (pe_head e) = HEADER_SIZE + cap"
    and head: "\<And>payload. read_head loads (pe_head e @ payload) =
       Inr (MAGIC_SPLIT, cap, m\<lparr>sm_checksum := None\<rparr>, Some (pe_checksum e))"
    and sizes: "pe_chunks e = chunks"
    by (rule read_head_packed) auto
  let ?off = "length table + split_pad (length table) + length stream"
  let ?rest = "zeros (split_pad (length table)) @ stream @ concat (split_tail apart 0 ?off buffers)"
  let ?f = "pe_head e @ table @ ?rest"
  have f: "pe_head e @ concat (pe_chunks e) = ?f" using chunks sizes by simp
  have crc: "pe_checksum e = checksum (table @ ?rest)"
    using pe_checksum_given [OF pack] chunks by simp
  have sorted: "map_of (sort_key fst apart) = map_of apart" using sorted_apart [OF apart(1)] by simp
  obtain raws where read: "read_split_table ?f (length (pe_head e))
      = Inr (length stream, map length buffers, sort_key fst apart, length table, raws)"
    by (rule read_split_table_written [OF table apart(2,1), of ?rest "pe_head e"]) (auto simp: layout_tail)
  have bufs: "map_buffers (table @ ?rest) (sort_key fst apart) 0 ?off (map length buffers) = inline_buffers apart 0 buffers"
    using map_buffers_tail [of "table @ zeros (split_pad (length table)) @ stream" ?off "sort_key fst apart" 0 buffers]
    by (simp add: split_tail_cong [OF sorted] inline_cong [OF sorted])
  have "read_apart env (inline_buffers apart 0 buffers) (map length buffers) (sort_key fst apart) (sm_places m)
      = (re_dir env, Inr (map Some buffers))"
  proof (cases "apart = []")
    case True
    then show ?thesis by (simp add: read_apart_def inline_none)
  next
    case False
    then have "sort_key fst apart \<noteq> []" by (metis length_0_conv length_sort)
    with False store fill_inline [OF store(2,3)] show ?thesis by (simp add: read_apart_def)
  qed
  then have "read_split env ?f (length (pe_head e)) (Some (pe_checksum e)) (sm_places m)
      = (re_dir env, Inr (SplitPayload stream (map Some buffers)))"
    using read crc bufs by (simp add: read_split_eq map_split_def Let_def read_apart_unmapped [of env, symmetric])
  then show ?thesis using head [of "table @ ?rest"] len f sizes
    by (simp add: read_entry_def read_entry_and_checksum_def)
qed

text \<open>
  C5: An entry written as a pickle stream and out-of-band buffers is read back as that stream
  and those buffers, with its metadata, when the chunk store gives back the buffers kept
  apart; and the size noted for it is the length of the file.
\<close>

theorem split_round_trip:
  assumes split: "split_chunks stream buffers apart = Some chunks"
    and pack: "pack_entry_parts dumps m chunks True None = Some e"
    and pickle: "loads (dumps (m\<lparr>sm_checksum := Some (pe_checksum e)\<rparr>)) = Dict (m\<lparr>sm_checksum := Some (pe_checksum e)\<rparr>)"
    and apart: "dict_ok apart" "\<forall>(i, digest, crc) \<in> set apart. i < length buffers \<and> length digest = 32 \<and> length crc = 4"
    and store: "apart \<noteq> [] \<longrightarrow> read_chunks (re_can_map env) (re_removable env) (re_dir env) (sort_key fst apart)
        (map length buffers) (sm_places m) = (re_dir env, Inr found)"
      "\<forall>(i, data) \<in> set found. data = buffers ! i" "fst ` set found = fst ` set apart"
  shows "read_entry loads env (pe_head e @ concat (pe_chunks e)) True
      = (re_dir env, Inr (m\<lparr>sm_checksum := None\<rparr>, Some (SplitPayload stream (map Some buffers))))
    \<and> pe_size e = length (pe_head e @ concat (pe_chunks e))"
proof -
  from pack pickle have "pe_size e = length (pe_head e @ concat (pe_chunks e))"
    by (rule read_head_packed) simp
  with split_entry_reads [where loads = loads, OF assms] show ?thesis by blast
qed

subsection \<open>Sample entries\<close>

lemma sample_reads:
  "read_entry (sample_loads (checksum payload)) env (sample_head @ payload) True
     = (re_dir env, Inr (empty_stored\<lparr>sm_checksum := None\<rparr>, Some (Plain payload)))"
  by (rule pack_entry_reads [where loads = "sample_loads (checksum payload)", OF sample_packed sample_pickle])

lemma sample_span: "metadata_span (sample_head @ payload) = Inr 77"
  by (simp add: metadata_span_def header_unpack_def HEADER_SIZE_def sample_head_def MAGIC_def le_nat_le_bytes)

theorem one_byte_damage_found_witness:
  "isl (snd (read_entry (sample_loads (checksum [1, 2, 3])) sample_env (sample_head @ [1, 5, 3]) True))"
  using one_byte_damage_found [of "sample_loads (checksum [1, 2, 3])" sample_env "sample_head @ [1]" 2 "[3]"
      "(empty_stored\<lparr>sm_checksum := None\<rparr>, Some (Plain [1, 2, 3]))" 77 5 sample_env]
    sample_reads [of "[1, 2, 3]" sample_env] sample_span [of "[1, 2, 3]"] length_sample_head
  by simp

definition sample_digest :: digest where
  "sample_digest = replicate 32 7"

definition split_env :: read_env where
  "split_env = \<lparr>re_dir = [(chunk_name sample_digest, \<lparr>cf_data = [1, 2] @ checksum [1, 2], cf_mtime = 5\<rparr>)],
     re_can_map = False, re_removable = True\<rparr>"

definition sample_apart :: "(nat \<times> digest \<times> crc) list" where
  "sample_apart = [(1, sample_digest, checksum [1, 2])]"

definition sample_chunks :: "byte list list" where
  "sample_chunks = the (split_chunks [8, 8, 8] [[3], [1, 2]] sample_apart)"

definition sample_split :: packed_entry where
  "sample_split = the (pack_entry_parts sample_dumps empty_stored sample_chunks True None)"

definition sample_file :: "byte list" where
  "sample_file = pe_head sample_split @ concat (pe_chunks sample_split)"

lemma sample_split_chunks: "split_chunks [8, 8, 8] [[3], [1, 2]] sample_apart = Some sample_chunks"
  unfolding sample_chunks_def
  by (simp add: split_chunks_def split_table_def pack_all.simps pack_uint_def chunk_ref_pack_def
      sample_apart_def Let_def)

lemma sample_split_packed: "pack_entry_parts sample_dumps empty_stored sample_chunks True None = Some sample_split"
  unfolding sample_split_def
  by (simp add: pack_entry_parts_def sample_dumps_def header_pack_def pack_all.simps pack_uint_def
      split_pad_def entry_consts Let_def)

lemma sample_store:
  "read_chunks False True (re_dir split_env) (sort_key fst sample_apart) (map length [[3], [1, 2]]) None
     = (re_dir split_env, Inr [(1, [1, 2])])"
  by (simp add: split_env_def sample_apart_def read_chunk_def read_eval)

lemma no_places: "sm_places empty_stored = None"
  by (simp add: empty_stored_def entry_metadata.extend_def stored_meta.fields_def)

lemma sample_split_reads:
  "read_entry (sample_loads (pe_checksum sample_split)) split_env sample_file True
     = (re_dir split_env, Inr (empty_stored\<lparr>sm_checksum := None\<rparr>, Some (SplitPayload [8, 8, 8] [Some [3], Some [1, 2]])))"
  unfolding sample_file_def
  using split_entry_reads [where loads = "sample_loads (pe_checksum sample_split)",
      OF sample_split_chunks sample_split_packed sample_pickle, of split_env "[(1, [1, 2])]"] sample_store no_places
  by (simp add: sample_apart_def sample_digest_def split_env_def)

theorem split_round_trip_witness:
  "read_entry (sample_loads (pe_checksum sample_split)) split_env sample_file True
     = (re_dir split_env, Inr (empty_stored\<lparr>sm_checksum := None\<rparr>, Some (SplitPayload [8, 8, 8] [Some [3], Some [1, 2]])))"
  unfolding sample_file_def
  using split_round_trip [where loads = "sample_loads (pe_checksum sample_split)",
      OF sample_split_chunks sample_split_packed sample_pickle, of split_env "[(1, [1, 2])]"] sample_store no_places
  by (simp add: sample_apart_def sample_digest_def split_env_def)

theorem split_truncation_found_witness:
  "isl (snd (read_entry (sample_loads (pe_checksum sample_split)) split_env (butlast sample_file) True))"
proof -
  let ?loads = "sample_loads (pe_checksum sample_split)"
  have "read_entry ?loads split_env sample_file True
     = (re_dir split_env, Inr (empty_stored\<lparr>sm_checksum := None\<rparr>, Some (SplitPayload [8, 8, 8] [Some [3], Some [1, 2]])))"
    by (rule sample_split_reads)
  moreover have head: "length (pe_head sample_split) \<ge> HEADER_SIZE"
    "\<exists>cap m c. read_head ?loads sample_file = Inr (MAGIC_SPLIT, cap, m, c)"
    using read_head_packed [where loads = ?loads, OF sample_split_packed sample_pickle] by (metis le_add1 sample_file_def)+
  moreover have "butlast sample_file @ [last sample_file] = sample_file"
    using head(1) by (intro append_butlast_last_id) (auto simp: sample_file_def HEADER_SIZE_def)
  moreover have "take 4 sample_file = MAGIC_SPLIT" using head(2) read_head_magic by metis
  ultimately show ?thesis
    using split_truncation_found [of ?loads split_env "butlast sample_file" "[last sample_file]"] by simp
qed

text \<open>A payload in one piece has no length of its own in the file: cut short, it is refused only
  by its checksum, and a prefix can have the checksum of the whole. The four bytes
  \<open>9d 0a d9 6d\<close> have the checksum of no bytes at all, so an entry holding them, cut to its
  header, still reads.\<close>

lemma plain_truncation_can_pass:
  "read_entry (sample_loads (checksum [0x9d, 0x0a, 0xd9, 0x6d])) env sample_head True
     = (re_dir env, Inr (empty_stored\<lparr>sm_checksum := None\<rparr>, Some (Plain [])))"
proof -
  have "crc32 [0x9d, 0x0a, 0xd9, 0x6d] 0 = 0" unfolding crc32_def crc_start by (simp add: crc_eval)
  moreover have "crc32 [] 0 = 0" by (simp add: crc32_def)
  ultimately have "checksum [0x9d, 0x0a, 0xd9, 0x6d] = checksum []" by (simp add: checksum_def)
  with sample_reads [of "[]" env] show ?thesis by simp
qed

end
