(* ===== verification/Entry_Update.thy ===== *)
theory Entry_Update
  imports Split_Layout
begin

text \<open>
  The two ways an entry file changes after it is written
  (\<open>src/cash/backends/entry_format.py\<close>): its metadata region is rewritten in place, for
  access stamps, and its head is rewritten when the chunk store moves its chunks to another
  pack. Both leave the payload and its checksum as they are.
\<close>

type_synonym identity = "crc option \<times> seconds option"

definition update_metadata_in_place ::
  "(stored_meta \<Rightarrow> byte list) \<Rightarrow> (byte list \<Rightarrow> unpickled) \<Rightarrow> byte list \<Rightarrow> stored_meta \<Rightarrow> identity option
    \<Rightarrow> byte list \<times> bool" where
  "update_metadata_in_place dumps loads fdata m expected = (
     let head = read_at fdata 0 HEADER_SIZE in
     if length head < HEADER_SIZE then (fdata, False)
     else let (magic, meta_len, cap) = header_unpack head in
     if magic \<notin> set MAGICS then (fdata, False)
     else case load_metadata loads (read_at fdata HEADER_SIZE meta_len) of
         Inl _ \<Rightarrow> (fdata, False)
       | Inr stored \<Rightarrow> (case sm_checksum stored of
             None \<Rightarrow> (fdata, False)
           | Some crc \<Rightarrow>
               let previous = stored\<lparr>sm_checksum := None\<rparr> in
               if (case expected of None \<Rightarrow> False | Some ident \<Rightarrow> entry_identity previous (Some crc) \<noteq> ident)
               then (fdata, False)
               else let stamped = m\<lparr>sm_checksum := Some crc, sm_chunks := sm_chunks previous,
                                    sm_places := sm_places previous\<rparr>;
                        meta_bytes = dumps stamped in
                 if length meta_bytes > cap then (fdata, False)
                 else (case header_pack magic (length meta_bytes) cap of
                     None \<Rightarrow> (fdata, False)
                   | Some h \<Rightarrow> let out = h @ meta_bytes in (out @ drop (length out) fdata, True))))"

text \<open>The loop of \<open>moved_head\<close> over an entry's places: those in the pack \<open>old\<close> move.\<close>

fun move_places :: "string \<Rightarrow> meta_places \<Rightarrow> meta_places \<Rightarrow> meta_places option" where
  "move_places old moved [] = Some []"
| "move_places old moved ((digest, place) # ps) =
     (if fst place = old then
        (case (map_of moved digest, move_places old moved ps) of
           (Some place', Some ps') \<Rightarrow> Some ((digest, place') # ps')
         | _ \<Rightarrow> None)
      else map_option ((#) (digest, place)) (move_places old moved ps))"

definition move_held :: "string \<Rightarrow> string \<times> int \<Rightarrow> (string \<times> int) list \<Rightarrow> (string \<times> int) list" where
  "move_held old new held =
     (if list_ex (\<lambda>(name, _). name = fst new) held then filter (\<lambda>(name, _). name \<noteq> old) held
      else map (\<lambda>(name, sz). if name = old then new else (name, sz)) held)"

definition moved_head ::
  "(stored_meta \<Rightarrow> byte list) \<Rightarrow> (byte list \<Rightarrow> unpickled) \<Rightarrow> byte list option \<Rightarrow> string \<Rightarrow> string \<times> int \<Rightarrow> meta_places
    \<Rightarrow> (byte list \<times> nat \<times> identity) option" where
  "moved_head dumps loads content old new moved = (case content of None \<Rightarrow> None | Some fdata \<Rightarrow>
     let head = read_at fdata 0 HEADER_SIZE in
     if length head < HEADER_SIZE then None
     else let (magic, meta_len, cap) = header_unpack head in
     if magic \<noteq> MAGIC_SPLIT then None
     else case load_metadata loads (read_at fdata HEADER_SIZE meta_len) of
         Inl _ \<Rightarrow> None
       | Inr m \<Rightarrow>
           let held = (case sm_chunks m of None \<Rightarrow> [] | Some h \<Rightarrow> h);
               places = (case sm_places m of None \<Rightarrow> [] | Some p \<Rightarrow> p) in
           if \<not> list_ex (\<lambda>(name, _). name = old) held then None
           else (case move_places old moved places of
               None \<Rightarrow> None
             | Some places' \<Rightarrow>
                 let meta_bytes = dumps (m\<lparr>sm_chunks := Some (move_held old new held), sm_places := Some places'\<rparr>) in
                 if length meta_bytes > cap then None
                 else (case header_pack magic (length meta_bytes) cap of
                     None \<Rightarrow> None
                   | Some h \<Rightarrow> Some (h @ meta_bytes @ zeros (cap - length meta_bytes), HEADER_SIZE + cap,
                                entry_identity m (sm_checksum m)))))"

definition identity_at :: "(byte list \<Rightarrow> unpickled) \<Rightarrow> read_env \<Rightarrow> byte list option \<Rightarrow> identity option" where
  "identity_at loads env content = (case content of None \<Rightarrow> None | Some fdata \<Rightarrow>
     (case read_entry_and_checksum loads env fdata False of
        (_, Inl _) \<Rightarrow> None
      | (_, Inr (m, _, crc)) \<Rightarrow> Some (entry_identity m crc)))"

subsection \<open>Updating in place\<close>

text \<open>Reading the payload looks only at the bytes past the metadata region.\<close>

lemma read_exact_shift:
  "read_exact (pre @ p) (length pre) n = read_exact p 0 n"
  "read_exact (pre @ p) (length pre + k) n = read_exact p k n"
  by (simp_all add: read_exact_def read_at_def)

lemma read_split_table_shift: "read_split_table (pre @ p) (length pre) = read_split_table p 0"
  by (simp add: read_split_table_def Let_def add.assoc read_exact_shift)

lemma read_split_shift: "read_split env (pre @ p) (length pre) c places = read_split env p 0 c places"
  by (auto simp: read_split_eq read_split_table_shift map_split_def split: option.split sum.split)

definition with_metadata :: "stored_meta \<Rightarrow> chunk_dir \<times> (corrupt + stored_meta \<times> payload option)
    \<Rightarrow> chunk_dir \<times> (corrupt + stored_meta \<times> payload option)" where
  "with_metadata m r = map_prod id (map_sum id (map_prod (\<lambda>_. m) id)) r"

lemma read_entry_same_payload:
  assumes "read_head loads (pre @ p) = Inr (magic, cap, m, c)" "length pre = HEADER_SIZE + cap"
    and "read_head loads (pre' @ p) = Inr (magic, cap, m', c)" "length pre' = HEADER_SIZE + cap"
    and "sm_places m' = sm_places m"
  shows "read_entry loads env (pre' @ p) True = with_metadata m' (read_entry loads env (pre @ p) True)"
proof -
  have "read_split env (pre' @ p) (HEADER_SIZE + cap) c (sm_places m')
      = read_split env (pre @ p) (HEADER_SIZE + cap) c (sm_places m)"
    using assms(2,4,5) read_split_shift [of env pre p] read_split_shift [of env pre' p] by simp
  then show ?thesis using assms
    by (auto simp: read_entry_def read_entry_and_checksum_def with_metadata_def verify_def require_then Let_def
        split: option.split sum.split prod.split)
qed

lemma update_Some:
  assumes "update_metadata_in_place dumps loads fdata m expected = (fdata', True)"
    and "read_head loads fdata = Inr (magic, cap, previous, c)"
  obtains crc h mb where "c = Some crc"
    "mb = dumps (m\<lparr>sm_checksum := Some crc, sm_chunks := sm_chunks previous, sm_places := sm_places previous\<rparr>)"
    "length mb \<le> cap" "header_pack magic (length mb) cap = Some h" "magic \<in> set MAGICS"
    "fdata' = h @ mb @ drop (HEADER_SIZE + length mb) fdata" "length h = HEADER_SIZE"
    "expected = None \<or> expected = Some (entry_identity previous c)"
proof -
  from assms(2) obtain ml stored where head: "header_unpack (read_at fdata 0 HEADER_SIZE) = (magic, ml, cap)"
    and load: "load_metadata loads (read_at fdata HEADER_SIZE ml) = Inr stored"
    and m: "magic \<in> set MAGICS" "\<not> length (read_at fdata 0 HEADER_SIZE) < HEADER_SIZE"
    and prev: "previous = stored\<lparr>sm_checksum := None\<rparr>" "c = sm_checksum stored"
    by (auto simp: read_head_def Let_def and_then_Inr split: prod.splits if_splits)
  from assms(1) head load m obtain crc where crc: "sm_checksum stored = Some crc"
    by (auto simp: update_metadata_in_place_def Let_def split: option.splits)
  let ?mb = "dumps (m\<lparr>sm_checksum := Some crc, sm_chunks := sm_chunks previous, sm_places := sm_places previous\<rparr>)"
  from assms(1) head load m crc prev obtain h where fits: "length ?mb \<le> cap"
    and h: "header_pack magic (length ?mb) cap = Some h"
    and out: "fdata' = (h @ ?mb) @ drop (length (h @ ?mb)) fdata"
    and expected: "expected = None \<or> expected = Some (entry_identity previous c)"
    by (auto simp: update_metadata_in_place_def Let_def split: option.splits if_splits)
  have len: "length h = HEADER_SIZE" by (rule header_pack_cases [OF h magic_lengths [OF m(1)]])
  show thesis
    by (rule that [OF _ refl fits h m(1) _ len expected]) (use crc prev out len in simp_all)
qed

text \<open>
  C10: Rewriting the metadata of an entry in place changes only its metadata: the file keeps
  its length and every byte past the metadata region, and reading it gives what it gave
  before, or the refusal it gave before, with the new metadata; the payload's checksum and
  the chunks it names stay those of the file, whatever the caller passed.
\<close>

theorem update_keeps_payload:
  assumes upd: "update_metadata_in_place dumps loads fdata m expected = (fdata', True)"
    and head: "read_head loads fdata = Inr (magic, cap, previous, Some crc)" "HEADER_SIZE + cap \<le> length fdata"
    and pickle: "m' = m\<lparr>sm_checksum := Some crc, sm_chunks := sm_chunks previous, sm_places := sm_places previous\<rparr>"
      "loads (dumps m') = Dict m'"
  shows "length fdata' = length fdata \<and> drop (HEADER_SIZE + cap) fdata' = drop (HEADER_SIZE + cap) fdata
    \<and> read_entry loads env fdata' True = with_metadata (m'\<lparr>sm_checksum := None\<rparr>) (read_entry loads env fdata True)"
proof -
  obtain h where fits: "length (dumps m') \<le> cap" and h: "header_pack magic (length (dumps m')) cap = Some h"
    and m: "magic \<in> set MAGICS" and len: "length h = HEADER_SIZE"
    and out: "fdata' = h @ dumps m' @ drop (HEADER_SIZE + length (dumps m')) fdata"
    using update_Some [OF upd head(1)] pickle(1) by (metis option.inject)
  let ?p = "drop (HEADER_SIZE + cap) fdata"
  let ?gap = "take (cap - length (dumps m')) (drop (HEADER_SIZE + length (dumps m')) fdata)"
  have "drop (HEADER_SIZE + length (dumps m')) fdata = ?gap @ ?p"
    using fits append_take_drop_id [of "cap - length (dumps m')" "drop (HEADER_SIZE + length (dumps m')) fdata"]
    by (simp add: add.commute add.left_commute)
  then have out': "fdata' = (h @ dumps m' @ ?gap) @ ?p" using out by simp
  have pre: "length (h @ dumps m' @ ?gap) = HEADER_SIZE + cap" using len fits head(2) by simp
  have old: "read_head loads (take (HEADER_SIZE + cap) fdata @ ?p) = Inr (magic, cap, previous, Some crc)"
    using head(1) by simp
  have new: "read_head loads ((h @ dumps m' @ ?gap) @ ?p) = Inr (magic, cap, m'\<lparr>sm_checksum := None\<rparr>, Some crc)"
    using read_head_written [where loads = loads, OF h m fits pickle(2), of "?gap @ ?p"] pickle(1) by simp
  have "read_entry loads env fdata' True = with_metadata (m'\<lparr>sm_checksum := None\<rparr>) (read_entry loads env fdata True)"
    using read_entry_same_payload [OF old _ new pre, of env] out' head(2) pickle(1) by simp
  with out' pre head(2) show ?thesis by simp
qed

text \<open>
  C11: An in-place update that came from reading another write of the entry is refused and
  leaves the file as it is: metadata a process remembers never lands on a payload it was
  not read with.
\<close>

theorem update_refuses_replaced:
  assumes "read_head loads fdata = Inr (magic, cap, previous, c)" and "ident \<noteq> entry_identity previous c"
  shows "update_metadata_in_place dumps loads fdata m (Some ident) = (fdata, False)"
proof -
  obtain fdata' ok where run: "update_metadata_in_place dumps loads fdata m (Some ident) = (fdata', ok)" by force
  have "\<not> ok" using update_Some [OF _ assms(1), of dumps m "Some ident" fdata'] run assms(2) by auto
  moreover have "ok \<or> fdata' = fdata"
    using run by (auto simp: update_metadata_in_place_def Let_def split: prod.splits sum.splits option.splits if_splits)
  ultimately show ?thesis using run by simp
qed

subsection \<open>Moving an entry's chunks\<close>

text \<open>The places after the move, digest by digest.\<close>

lemma move_places_Some:
  "move_places old moved ps = Some ps' \<Longrightarrow>
     map_of ps' d = Option.bind (map_of ps d) (\<lambda>place. if fst place = old then map_of moved d else Some place)"
proof (induction ps arbitrary: ps')
  case (Cons x ps)
  obtain digest place where x: "x = (digest, place)" by (cases x)
  show ?case
  proof (cases "fst place = old")
    case True
    with Cons.prems x obtain place' qs where "map_of moved digest = Some place'" "move_places old moved ps = Some qs"
      and "ps' = (digest, place') # qs"
      by (auto split: option.splits)
    with Cons.IH True x show ?thesis by simp
  next
    case False
    with Cons.prems x obtain qs where "move_places old moved ps = Some qs" "ps' = (digest, place) # qs"
      by auto
    with Cons.IH False x show ?thesis by simp
  qed
qed simp

lemma moved_head_Some:
  assumes "moved_head dumps loads (Some fdata) old new moved = Some (head, start, ident)"
    and "read_head loads fdata = Inr (magic, cap, m, c)"
  obtains places' h mb where "magic = MAGIC_SPLIT" "start = HEADER_SIZE + cap" "ident = entry_identity m c"
    "move_places old moved (case sm_places m of None \<Rightarrow> [] | Some p \<Rightarrow> p) = Some places'"
    "mb = dumps (m\<lparr>sm_checksum := c, sm_chunks := Some (move_held old new (case sm_chunks m of None \<Rightarrow> [] | Some h \<Rightarrow> h)),
             sm_places := Some places'\<rparr>)"
    "length mb \<le> cap" "header_pack magic (length mb) cap = Some h" "length h = HEADER_SIZE"
    "head = h @ mb @ zeros (cap - length mb)"
proof -
  from assms(2) obtain ml stored where hd: "header_unpack (read_at fdata 0 HEADER_SIZE) = (magic, ml, cap)"
    and load: "load_metadata loads (read_at fdata HEADER_SIZE ml) = Inr stored"
    and mg: "magic \<in> set MAGICS" "\<not> length (read_at fdata 0 HEADER_SIZE) < HEADER_SIZE"
    and prev: "m = stored\<lparr>sm_checksum := None\<rparr>" "c = sm_checksum stored"
    by (auto simp: read_head_def Let_def and_then_Inr split: prod.splits if_splits)
  let ?held = "case sm_chunks m of None \<Rightarrow> [] | Some h \<Rightarrow> h"
  let ?places = "case sm_places m of None \<Rightarrow> [] | Some p \<Rightarrow> p"
  have same: "m\<lparr>sm_checksum := c, sm_chunks := x, sm_places := y\<rparr> = stored\<lparr>sm_chunks := x, sm_places := y\<rparr>" for x y
    using prev by simp
  from assms(1) hd load mg prev obtain places' h where "magic = MAGIC_SPLIT" "start = HEADER_SIZE + cap"
    "ident = entry_identity m c" "move_places old moved ?places = Some places'"
    and fits: "length (dumps (stored\<lparr>sm_chunks := Some (move_held old new ?held), sm_places := Some places'\<rparr>)) \<le> cap"
      "header_pack magic (length (dumps (stored\<lparr>sm_chunks := Some (move_held old new ?held), sm_places := Some places'\<rparr>))) cap = Some h"
      "head = h @ dumps (stored\<lparr>sm_chunks := Some (move_held old new ?held), sm_places := Some places'\<rparr>)
         @ zeros (cap - length (dumps (stored\<lparr>sm_chunks := Some (move_held old new ?held), sm_places := Some places'\<rparr>)))"
    by (auto simp: moved_head_def Let_def entry_identity_def split: if_splits option.splits sum.splits)
  moreover have "length h = HEADER_SIZE" by (rule header_pack_cases [OF fits(2) magic_lengths [OF mg(1)]])
  ultimately show thesis by (intro that [of places' _ h]) (simp_all add: same)
qed

lemma move_held_gone: "old \<noteq> fst new \<Longrightarrow> old \<notin> fst ` set (move_held old new held)"
  by (auto simp: move_held_def split: if_splits)

lemma move_held_there:
  "list_ex (\<lambda>(name, _). name = old) held \<Longrightarrow> old \<noteq> fst new \<Longrightarrow> fst new \<in> fst ` set (move_held old new held)"
proof -
  assume old: "list_ex (\<lambda>(name, _). name = old) held" and differ: "old \<noteq> fst new"
  then obtain sz where held: "(old, sz) \<in> set held" by (auto simp: list_ex_iff)
  show "fst new \<in> fst ` set (move_held old new held)"
  proof (cases "list_ex (\<lambda>(name, _). name = fst new) held")
    case True
    then obtain sz' where "(fst new, sz') \<in> set held" by (auto simp: list_ex_iff)
    with differ have "(fst new, sz') \<in> set (move_held old new held)" using True by (simp add: move_held_def)
    then show ?thesis by (rule rev_image_eqI) simp
  next
    case False
    have "new \<in> (\<lambda>(name, sz). if name = old then new else (name, sz)) ` set held"
      using held by (intro image_eqI [of _ _ "(old, sz)"]) simp_all
    with False show ?thesis by (simp add: move_held_def)
  qed
qed

lemma identity_at_head:
  "read_head loads fdata = Inr (magic, cap, m, c) \<Longrightarrow> identity_at loads env (Some fdata) = Some (entry_identity m c)"
  by (simp add: identity_at_def read_metadata_only)

text \<open>
  The head the chunk store writes when it moves an entry's chunks to another pack fits
  exactly in place of the old one: with the payload after it, the file is the same write of
  the entry, with the same checksum; it names the new pack instead of the old one; and each
  chunk that was in the old pack has the place it was moved to, every other the place it had.
\<close>

theorem moved_head_keeps_entry:
  assumes moved: "moved_head dumps loads (Some fdata) old new moved = Some (head, start, ident)"
    and old: "read_head loads fdata = Inr (magic, cap, m, c)" "old \<noteq> fst new"
    and places: "move_places old moved (case sm_places m of None \<Rightarrow> [] | Some p \<Rightarrow> p) = Some places"
    and pickle: "m' = m\<lparr>sm_checksum := c,
        sm_chunks := Some (move_held old new (case sm_chunks m of None \<Rightarrow> [] | Some h \<Rightarrow> h)),
        sm_places := Some places\<rparr>"
      "loads (dumps m') = Dict m'"
  shows "length head = start
    \<and> read_head loads (head @ drop start fdata) = Inr (magic, cap, m'\<lparr>sm_checksum := None\<rparr>, c)
    \<and> ident = entry_identity m c
    \<and> identity_at loads env (Some (head @ drop start fdata)) = identity_at loads env (Some fdata)
    \<and> old \<notin> fst ` set (the (sm_chunks m'))
    \<and> (\<forall>d. map_of places d = Option.bind (case sm_places m of None \<Rightarrow> None | Some p \<Rightarrow> map_of p d)
           (\<lambda>place. if fst place = old then map_of moved d else Some place))"
proof -
  obtain h where magic: "magic = MAGIC_SPLIT" and start: "start = HEADER_SIZE + cap" "ident = entry_identity m c"
    and fits: "length (dumps m') \<le> cap" and h: "header_pack magic (length (dumps m')) cap = Some h" "length h = HEADER_SIZE"
    and head: "head = h @ dumps m' @ zeros (cap - length (dumps m'))"
    by (rule moved_head_Some [OF moved old(1)]) (rule that, use places pickle(1) in simp_all)
  have "magic \<in> set MAGICS" using magic magics_differ by simp
  note new = read_head_written [where loads = loads, OF h(1) this fits pickle(2), of "zeros (cap - length (dumps m')) @ drop start fdata"]
  have read: "read_head loads (head @ drop start fdata) = Inr (magic, cap, m'\<lparr>sm_checksum := None\<rparr>, c)"
    using new head pickle(1) by simp
  have "identity_at loads env (Some (head @ drop start fdata)) = identity_at loads env (Some fdata)"
    using identity_at_head [OF read, of env] identity_at_head [OF old(1), of env] pickle(1)
    by (simp add: entry_identity_def)
  moreover have "length head = start" using head h(2) fits start by simp
  moreover have "old \<notin> fst ` set (the (sm_chunks m'))" using pickle(1) move_held_gone [OF old(2)] by simp
  moreover have "map_of places d = Option.bind (case sm_places m of None \<Rightarrow> None | Some p \<Rightarrow> map_of p d)
           (\<lambda>place. if fst place = old then map_of moved d else Some place)" for d
    using move_places_Some [OF places, of d] by (simp split: option.splits)
  ultimately show ?thesis using read start by blast
qed

subsection \<open>Sample updates\<close>

definition touched_meta :: "crc \<Rightarrow> stored_meta" where
  "touched_meta crc = empty_stored\<lparr>m_access_count := Some 3, sm_checksum := Some crc\<rparr>"

definition touch_dumps :: "stored_meta \<Rightarrow> byte list" where
  "touch_dumps m = (if m_access_count m = None then [9] else [8, 8])"

definition touch_loads :: "crc \<Rightarrow> byte list \<Rightarrow> unpickled" where
  "touch_loads crc bs = (if bs = [9] then Dict (empty_stored\<lparr>sm_checksum := Some crc\<rparr>)
     else if bs = [8, 8] then Dict (touched_meta crc) else Raises)"

lemma sample_head_unpack: "header_unpack (take HEADER_SIZE (sample_head @ p)) = (MAGIC, 1, 65)"
  by (simp add: header_unpack_def HEADER_SIZE_def sample_head_def MAGIC_def le_nat_le_bytes)

lemma sample_head_meta: "read_at (sample_head @ p) HEADER_SIZE 1 = [9]"
  by (simp add: read_at_def HEADER_SIZE_def sample_head_def MAGIC_def)

lemma touch_head:
  "read_head (touch_loads crc) (sample_head @ p) = Inr (MAGIC, 65, empty_stored\<lparr>sm_checksum := None\<rparr>, Some crc)"
  using sample_head_unpack [of p] sample_head_meta [of p] length_sample_head magics_differ
  by (simp add: read_head_def read_at_def touch_loads_def load_metadata_def HEADER_SIZE_def)

lemma touch_stored:
  "sm_chunks empty_stored = None" "sm_places empty_stored = None" "m_created_at empty_stored = None"
  "m_access_count empty_stored = None"
  by (simp_all add: empty_stored_def no_metadata_def entry_metadata.extend_def stored_meta.fields_def)

lemma touch_update:
  "update_metadata_in_place touch_dumps (touch_loads crc) (sample_head @ p) (touched_meta crc) None
     = (MAGIC @ le_bytes 4 2 @ le_bytes 4 65 @ [8, 8] @ zeros 63 @ p, True)"
  using sample_head_unpack [of p] sample_head_meta [of p] length_sample_head magics_differ
  by (simp add: update_metadata_in_place_def touch_loads_def load_metadata_def HEADER_SIZE_def read_at_def touch_dumps_def
      touched_meta_def touch_stored header_pack_def pack_all.simps pack_uint_def pack_str_exact Let_def)
     (simp add: sample_head_def MAGIC_def zeros_def pack_str_exact numeral_2_eq_2)

theorem update_keeps_payload_witness:
  "read_entry (touch_loads (checksum [1, 2])) sample_env
      (MAGIC @ le_bytes 4 2 @ le_bytes 4 65 @ [8, 8] @ zeros 63 @ [1, 2]) True
     = (sample_dir, Inr (touched_meta (checksum [1, 2])\<lparr>sm_checksum := None\<rparr>, Some (Plain [1, 2])))"
proof -
  let ?crc = "checksum [1, 2]" and ?loads = "touch_loads (checksum [1, 2])"
  have "read_entry ?loads sample_env (sample_head @ [1, 2]) True
      = (sample_dir, Inr (empty_stored\<lparr>sm_checksum := None\<rparr>, Some (Plain [1, 2])))"
    using read_plain [OF touch_head [of ?crc "[1, 2]"], of sample_env] length_sample_head
    by (simp add: HEADER_SIZE_def sample_env_def)
  moreover have "?loads (touch_dumps (touched_meta ?crc)) = Dict (touched_meta ?crc)"
    by (simp add: touch_loads_def touch_dumps_def touched_meta_def)
  moreover have "touched_meta ?crc = touched_meta ?crc\<lparr>sm_checksum := Some ?crc,
      sm_chunks := sm_chunks (empty_stored\<lparr>sm_checksum := None\<rparr>), sm_places := sm_places (empty_stored\<lparr>sm_checksum := None\<rparr>)\<rparr>"
    by (simp add: touched_meta_def touch_stored)
  ultimately show ?thesis
    using update_keeps_payload [OF touch_update [of ?crc "[1, 2]"] touch_head, of "touched_meta ?crc" sample_env] length_sample_head
    by (simp add: HEADER_SIZE_def with_metadata_def)
qed

theorem update_refuses_replaced_witness:
  "update_metadata_in_place touch_dumps (touch_loads [1, 2, 3, 4]) (sample_head @ [1, 2]) (touched_meta [1, 2, 3, 4])
     (Some (Some [5, 6, 7, 8], None)) = (sample_head @ [1, 2], False)"
  by (rule update_refuses_replaced [OF touch_head]) (simp add: entry_identity_def)

definition packed_meta :: "string \<Rightarrow> stored_meta" where
  "packed_meta name = empty_stored\<lparr>sm_checksum := Some [1, 2, 3, 4], sm_chunks := Some [(name, 5)],
     sm_places := Some [(''07'', (name, 0, 1, ''ff''))]\<rparr>"

definition move_dumps :: "stored_meta \<Rightarrow> byte list" where
  "move_dumps m = (if sm_chunks m = Some [(''a.pack'', 5)] then [9] else [8])"

definition move_loads :: "byte list \<Rightarrow> unpickled" where
  "move_loads bs = (if bs = [9] then Dict (packed_meta ''a.pack'') else if bs = [8] then Dict (packed_meta ''b.pack'') else Raises)"

definition move_file :: "byte list" where
  "move_file = MAGIC_SPLIT @ le_bytes 4 1 @ le_bytes 4 4 @ [9] @ zeros 3 @ [1, 2]"

lemma move_file_head:
  "read_head move_loads move_file = Inr (MAGIC_SPLIT, 4, packed_meta ''a.pack''\<lparr>sm_checksum := None\<rparr>, Some [1, 2, 3, 4])"
proof -
  have "header_pack MAGIC_SPLIT (length [9 :: byte]) 4 = Some (MAGIC_SPLIT @ le_bytes 4 1 @ le_bytes 4 4)"
    by (simp add: header_pack_def pack_all.simps pack_uint_def pack_str_exact MAGIC_SPLIT_def)
  from read_head_written [where loads = move_loads, OF this _ _, of "packed_meta ''a.pack''" "zeros 3 @ [1, 2]"] magics_differ
  show ?thesis by (simp add: move_file_def move_loads_def packed_meta_def)
qed

lemma move_file_moved:
  "moved_head move_dumps move_loads (Some move_file) ''a.pack'' (''b.pack'', 5) [(''07'', (''b.pack'', 0, 1, ''ff''))]
     = Some (MAGIC_SPLIT @ le_bytes 4 1 @ le_bytes 4 4 @ [8] @ zeros 3, 16, (Some [1, 2, 3, 4], None))"
  by (simp add: moved_head_def move_file_def read_at_def HEADER_SIZE_def header_unpack_def MAGIC_SPLIT_def le_nat_le_bytes
      load_metadata_def move_loads_def packed_meta_def move_held_def move_dumps_def header_pack_def pack_all.simps
      pack_uint_def pack_str_exact entry_identity_def touch_stored Let_def)

theorem moved_head_keeps_entry_witness:
  "identity_at move_loads sample_env (Some (MAGIC_SPLIT @ le_bytes 4 1 @ le_bytes 4 4 @ [8] @ zeros 3 @ [1, 2]))
     = identity_at move_loads sample_env (Some move_file)"
proof -
  have "drop 16 move_file = [1, 2]" by (simp add: move_file_def MAGIC_SPLIT_def zeros_def numeral_3_eq_3)
  moreover have "move_loads (move_dumps (packed_meta ''b.pack'')) = Dict (packed_meta ''b.pack'')"
    by (simp add: move_loads_def move_dumps_def packed_meta_def)
  ultimately show ?thesis
    using moved_head_keeps_entry [OF move_file_moved move_file_head, of "[(''07'', (''b.pack'', 0, 1, ''ff''))]" "packed_meta ''b.pack''" sample_env]
    by (simp add: packed_meta_def move_held_def)
qed

end
