(* ===== verification/Chunk_Store.thy ===== *)
theory Chunk_Store
  imports Entry_Update
begin

text \<open>
  The chunk store of a cache folder (class \<open>ChunkStore\<close> of
  \<open>src/cash/backends/chunk_store.py\<close>): what is stored, which entries hold each file, and
  when a file goes.

  \<open>chunk_store\<close> is the object and the folder together: the files of \<open>chunks/\<close>, the entry
  files the store rewrites, and the object's dictionaries. A dictionary whose values are sets
  is a function to lists, the empty list where the key is absent; \<open>_pending\<close> is a function
  to counts, 0 where absent. Everything outside is in \<open>chunk_env\<close>: the clock (nanoseconds),
  the digest and pack-name functions, pickle, what the entries' metadata lists, which files
  can be removed, whether a pack can be written, which entries another thread has locked, and
  what another process writes over an entry while this one rewrites it.
\<close>

record chunk_env =
  ce_now :: int
  ce_bulk_digest :: "byte list \<Rightarrow> digest"
  ce_pack_name :: "digest list \<Rightarrow> string"
  ce_dumps :: "stored_meta \<Rightarrow> byte list"
  ce_loads :: "byte list \<Rightarrow> unpickled"
  ce_listing :: "(string \<times> (string \<times> int) list \<times> meta_places option) list"
  ce_removable :: "string \<Rightarrow> bool"
  ce_writable :: bool
  ce_can_map :: bool
  ce_busy :: "string \<Rightarrow> bool"
  ce_landed :: "string \<Rightarrow> byte list option"

record chunk_store =
  cs_dir :: chunk_dir
  cs_entries :: "string \<rightharpoonup> byte list"
  cs_held_by :: "string \<rightharpoonup> string list"
  cs_holders :: "string \<Rightarrow> string list"
  cs_pending :: "string \<Rightarrow> nat"
  cs_own_mtime :: "string \<rightharpoonup> int"
  cs_size :: "string \<rightharpoonup> int"
  cs_places :: "digest \<rightharpoonup> place"
  cs_in_pack :: "string \<Rightarrow> digest list"
  cs_placed_by :: "(string \<times> (digest \<times> place) list) list"
  cs_old_chunks :: bool
  cs_indexed :: bool
  cs_indexed_at :: int

definition CLAIM_SUFFIX :: string where
  "CLAIM_SUFFIX = ''.claim''"

text \<open>\<open>ORPHAN_CHUNK_AGE\<close>, in nanoseconds.\<close>

definition ORPHAN_CHUNK_AGE :: int where
  "ORPHAN_CHUNK_AGE = 3600 * 1000000000"

definition init_store :: "chunk_dir \<Rightarrow> (string \<rightharpoonup> byte list) \<Rightarrow> chunk_store" where
  "init_store dir entries = \<lparr>
     cs_dir = dir, cs_entries = entries, cs_held_by = Map.empty, cs_holders = (\<lambda>_. []), cs_pending = (\<lambda>_. 0),
     cs_own_mtime = Map.empty, cs_size = Map.empty, cs_places = Map.empty, cs_in_pack = (\<lambda>_. []),
     cs_placed_by = [], cs_old_chunks = False, cs_indexed = False, cs_indexed_at = 0\<rparr>"

subsection \<open>Files and stamps\<close>

definition file_size :: "chunk_dir \<Rightarrow> string \<Rightarrow> int option" where
  "file_size dir name = map_option (\<lambda>f. int (length (cf_data f))) (map_of dir name)"

definition remove_file :: "string \<Rightarrow> chunk_store \<Rightarrow> chunk_store" where
  "remove_file name cs = cs\<lparr>cs_dir := AList.delete name (cs_dir cs)\<rparr>"

definition write_file :: "int \<Rightarrow> string \<Rightarrow> byte list \<Rightarrow> chunk_store \<Rightarrow> chunk_store" where
  "write_file now name data cs =
     cs\<lparr>cs_dir := AList.update name \<lparr>cf_data = data, cf_mtime = now\<rparr> (cs_dir cs)\<rparr>"

text \<open>\<open>os.utime(path)\<close>.\<close>

definition touch_file :: "int \<Rightarrow> string \<Rightarrow> chunk_store \<Rightarrow> chunk_store" where
  "touch_file now name cs = cs\<lparr>cs_dir := map (\<lambda>(n, f). (n, if n = name then f\<lparr>cf_mtime := now\<rparr> else f)) (cs_dir cs)\<rparr>"

definition note_own :: "string \<Rightarrow> chunk_store \<Rightarrow> chunk_store" where
  "note_own name cs = (case map_of (cs_dir cs) name of
       None \<Rightarrow> cs
     | Some f \<Rightarrow> cs\<lparr>cs_own_mtime := (cs_own_mtime cs)(name \<mapsto> cf_mtime f)\<rparr>)"

definition pend :: "string \<Rightarrow> chunk_store \<Rightarrow> chunk_store" where
  "pend name cs = cs\<lparr>cs_pending := (cs_pending cs)(name := cs_pending cs name + 1)\<rparr>"

fun unpend :: "string list \<Rightarrow> chunk_store \<Rightarrow> chunk_store" where
  "unpend [] cs = cs"
| "unpend (name # names) cs =
     unpend names (cs\<lparr>cs_pending := (cs_pending cs)(name := cs_pending cs name - 1)\<rparr>)"

definition forget :: "string \<Rightarrow> chunk_store \<Rightarrow> chunk_store" where
  "forget name cs = cs\<lparr>
     cs_places := (\<lambda>d. if d \<in> set (cs_in_pack cs name) then
         (case cs_places cs d of Some p \<Rightarrow> if fst p = name then None else Some p | None \<Rightarrow> None)
       else cs_places cs d),
     cs_in_pack := (cs_in_pack cs)(name := [])\<rparr>"

definition learn :: "string \<Rightarrow> (digest \<times> place) list \<Rightarrow> chunk_store \<Rightarrow> chunk_store" where
  "learn name placed cs = cs\<lparr>
     cs_in_pack := (cs_in_pack cs)(name := remdups (cs_in_pack cs name @ map fst placed)),
     cs_places := cs_places cs ++ map_of placed\<rparr>"

subsection \<open>Who holds a file\<close>

text \<open>\<open>_parse_places\<close>: what does not parse is left out.\<close>

definition parse_places :: "meta_places option \<Rightarrow> (digest \<times> place) list" where
  "parse_places places = List.map_filter (\<lambda>(key, name, offset, nbytes, crc).
     if \<not> endswith name PACK_SUFFIX then None
     else (case (fromhex key, fromhex crc) of
         (Some d, Some c) \<Rightarrow> Some (d, (name, offset, nbytes, c))
       | _ \<Rightarrow> None)) (case places of None \<Rightarrow> [] | Some ps \<Rightarrow> ps)"

text \<open>\<open>dict(...)\<close> of a list of pairs: the last value of a key, at its first position.\<close>

definition dict_of :: "('k \<times> 'v) list \<Rightarrow> ('k \<times> 'v) list" where
  "dict_of kvs = foldl (\<lambda>d (k, v). AList.update k v d) [] kvs"

definition set_placed :: "string \<Rightarrow> meta_places option \<Rightarrow> chunk_store \<Rightarrow> chunk_store" where
  "set_placed stem places cs = (let parsed = dict_of (parse_places places) in
     if parsed \<noteq> [] then cs\<lparr>cs_placed_by := AList.update stem parsed (cs_placed_by cs)\<rparr>
     else cs\<lparr>cs_placed_by := AList.delete stem (cs_placed_by cs)\<rparr>)"

definition set_holder :: "string \<Rightarrow> string list \<Rightarrow> string list \<Rightarrow> chunk_store \<Rightarrow> chunk_store" where
  "set_holder stem names before cs = cs\<lparr>
     cs_holders := (\<lambda>name. if name \<in> set names then List.insert stem (cs_holders cs name)
                           else if name \<in> set before then removeAll stem (cs_holders cs name)
                           else cs_holders cs name),
     cs_held_by := (cs_held_by cs)(stem := (if names = [] then None else Some names))\<rparr>"

definition unheld :: "chunk_store \<Rightarrow> string \<Rightarrow> bool" where
  "unheld cs name = (cs_holders cs name = [] \<and> cs_pending cs name = 0)"

fun sweep_files :: "chunk_env \<Rightarrow> string list \<Rightarrow> chunk_store \<Rightarrow> chunk_store \<times> int" where
  "sweep_files w [] cs = (cs, 0)"
| "sweep_files w (name # names) cs =
     (case map_of (cs_dir cs) name of
        Some f \<Rightarrow>
          if unheld cs name \<and> cf_mtime f < ce_now w - ORPHAN_CHUNK_AGE \<and> ce_removable w name then
            (let (cs', freed) = sweep_files w names (remove_file name cs) in (cs', int (length (cf_data f)) + freed))
          else sweep_files w names cs
      | None \<Rightarrow> sweep_files w names cs)"

definition sweep_orphans :: "chunk_env \<Rightarrow> chunk_store \<Rightarrow> chunk_store \<times> int" where
  "sweep_orphans w cs = sweep_files w
     (filter (\<lambda>n. endswith n CHUNK_SUFFIX \<or> endswith n PACK_SUFFIX \<or> endswith n CLAIM_SUFFIX) (map fst (cs_dir cs))) cs"

text \<open>\<open>ensure_index\<close>: sizes as listed (the last listing of a file), places pack by pack in
  the order the packs were met, and the holders of the entries not known yet.\<close>

definition listed_sizes :: "chunk_env \<Rightarrow> (string \<times> int) list" where
  "listed_sizes w = dict_of (concat (map (\<lambda>(_, held, _). held) (ce_listing w)))"

definition add_listed ::
  "(string \<times> (digest \<times> place) list) list \<Rightarrow> digest \<times> place \<Rightarrow> (string \<times> (digest \<times> place) list) list" where
  "add_listed packs dp = (let name = fst (snd dp) in
     AList.update name (AList.update (fst dp) (snd dp) (case map_of packs name of None \<Rightarrow> [] | Some ds \<Rightarrow> ds)) packs)"

definition listed_places :: "chunk_env \<Rightarrow> (string \<times> (digest \<times> place) list) list" where
  "listed_places w = foldl add_listed []
     (concat (map (\<lambda>(_, _, places). parse_places places) (ce_listing w)))"

definition found_entries :: "chunk_env \<Rightarrow> (string \<times> string list) list" where
  "found_entries w = dict_of (map (\<lambda>(stem, held, _). (stem, remdups (map fst held))) (ce_listing w))"

definition entry_places :: "chunk_env \<Rightarrow> string \<Rightarrow> meta_places option" where
  "entry_places w stem = (case map_of (rev (map (\<lambda>(s, _, places). (s, places)) (ce_listing w))) stem of
       None \<Rightarrow> None | Some places \<Rightarrow> places)"

definition index_entry :: "chunk_env \<Rightarrow> chunk_store \<Rightarrow> string \<times> string list \<Rightarrow> chunk_store" where
  "index_entry w cs e = (case e of (stem, names) \<Rightarrow>
     if cs_held_by cs stem = None then set_placed stem (entry_places w stem) (set_holder stem names [] cs) else cs)"

definition ensure_index :: "chunk_env \<Rightarrow> chunk_store \<Rightarrow> chunk_store \<times> int" where
  "ensure_index w cs = (if cs_indexed cs then (cs, 0) else
     let cs = cs\<lparr>cs_size := map_of (listed_sizes w) ++ cs_size cs\<rparr>;
         cs = foldl (\<lambda>cs (name, chunks). learn name chunks cs) cs (listed_places w);
         cs = foldl (index_entry w) cs (found_entries w) in
     sweep_orphans w (cs\<lparr>
       cs_old_chunks := cs_old_chunks cs \<or> list_ex (\<lambda>(name, _). endswith name CHUNK_SUFFIX) (listed_sizes w),
       cs_indexed_at := ce_now w, cs_indexed := True\<rparr>))"

subsection \<open>Removing\<close>

fun drop_files :: "chunk_env \<Rightarrow> string list \<Rightarrow> chunk_store \<Rightarrow> chunk_store \<times> int" where
  "drop_files w [] cs = (cs, 0)"
| "drop_files w (name # names) cs =
     (case map_of (cs_dir cs) name of
        Some f \<Rightarrow>
          if unheld cs name \<and> \<not> (cs_indexed_at cs < cf_mtime f \<and> cs_own_mtime cs name \<noteq> Some (cf_mtime f))
             \<and> ce_removable w name then
            (let cs1 = remove_file name cs;
                 cs2 = cs1\<lparr>cs_own_mtime := (cs_own_mtime cs1)(name := None), cs_size := (cs_size cs1)(name := None)\<rparr>;
                 (cs', freed) = drop_files w names (forget name cs2)
             in (cs', int (length (cf_data f)) + freed))
          else drop_files w names cs
      | None \<Rightarrow> drop_files w names cs)"

definition drop_unheld :: "chunk_env \<Rightarrow> string list \<Rightarrow> chunk_store \<Rightarrow> chunk_store \<times> int" where
  "drop_unheld w names cs = (if names = [] then (cs, 0) else
     let (cs1, freed) = ensure_index w cs; (cs2, dropped) = drop_files w names cs1 in (cs2, freed + dropped))"

definition abandon :: "chunk_env \<Rightarrow> (string \<times> int) list \<Rightarrow> chunk_store \<Rightarrow> chunk_store \<times> int" where
  "abandon w held cs = drop_unheld w (remdups (map fst held)) (unpend (map fst held) cs)"

subsection \<open>Writing\<close>

definition hold_stored :: "chunk_env \<Rightarrow> string \<Rightarrow> chunk_store \<Rightarrow> chunk_store \<times> int option" where
  "hold_stored w name cs = (let cs1 = pend name cs in
     case file_size (cs_dir cs1) name of
       None \<Rightarrow> (unpend [name] cs1, None)
     | Some sz \<Rightarrow> (note_own name (touch_file (ce_now w) name cs1), Some sz))"

definition reuse :: "chunk_env \<Rightarrow> string \<Rightarrow> nat \<Rightarrow> chunk_store \<Rightarrow> chunk_store \<times> crc option" where
  "reuse w name nbytes cs = (case map_of (cs_dir cs) name of
       None \<Rightarrow> (cs, None)
     | Some f \<Rightarrow>
         if length (cf_data f) \<noteq> nbytes + TRAILER then (cs, None)
         else let c = take TRAILER (drop nbytes (cf_data f)) in
           (touch_file (ce_now w) name cs, if length c = TRAILER then Some c else None))"

definition hold_chunk :: "chunk_env \<Rightarrow> string \<Rightarrow> nat \<Rightarrow> chunk_store \<Rightarrow> chunk_store \<times> crc option" where
  "hold_chunk w name nbytes cs = (case reuse w name nbytes (pend name cs) of
       (cs1, None) \<Rightarrow> (unpend [name] cs1, None)
     | (cs1, Some c) \<Rightarrow> (note_own name cs1, Some c))"

text \<open>\<open>_write\<close>: a temp file renamed into place; \<open>None\<close> when writing fails.\<close>

definition write_chunk :: "chunk_env \<Rightarrow> string \<Rightarrow> byte list \<Rightarrow> crc \<Rightarrow> chunk_store \<Rightarrow> (chunk_store \<times> int) option" where
  "write_chunk w name view c cs = (
     let before = (case file_size (cs_dir cs) name of None \<Rightarrow> 0 | Some sz \<Rightarrow> sz) in
     if ce_writable w then Some (write_file (ce_now w) name (view @ c) cs, int (length view) + int TRAILER - before)
     else None)"

definition put :: "chunk_env \<Rightarrow> byte list \<Rightarrow> digest option \<Rightarrow> chunk_store \<Rightarrow> chunk_store \<times> (digest \<times> crc \<times> int) option" where
  "put w view known cs = (
     let digest = (case known of None \<Rightarrow> ce_bulk_digest w view | Some d \<Rightarrow> d);
         name = chunk_name digest;
         cs = pend name cs in
     case reuse w name (length view) cs of
       (cs1, Some c) \<Rightarrow> (note_own name cs1, Some (digest, c, 0))
     | (cs1, None) \<Rightarrow> (case write_chunk w name view (checksum view) cs1 of
           Some (cs2, added) \<Rightarrow> (note_own name cs2, Some (digest, checksum view, added))
         | None \<Rightarrow> (unpend [name] cs1, None)))"

text \<open>The bytes of a pack and the place of each member, member by member.\<close>

fun pack_bytes :: "nat \<Rightarrow> (digest \<times> byte list) list \<Rightarrow> byte list" where
  "pack_bytes offset [] = []"
| "pack_bytes offset ((d, view) # fresh) =
     zeros (aligned offset) @ view @ checksum view
     @ pack_bytes (offset + aligned offset + length view + TRAILER) fresh"

fun pack_places :: "string \<Rightarrow> nat \<Rightarrow> (digest \<times> byte list) list \<Rightarrow> (digest \<times> place) list" where
  "pack_places name offset [] = []"
| "pack_places name offset ((d, view) # fresh) =
     (d, (name, int (offset + aligned offset), int (length view), checksum view))
     # pack_places name (offset + aligned offset + length view + TRAILER) fresh"

definition write_pack ::
  "chunk_env \<Rightarrow> (digest \<times> byte list) list \<Rightarrow> chunk_store
    \<Rightarrow> chunk_store \<times> (string \<times> int \<times> int \<times> (digest \<times> place) list) option" where
  "write_pack w fresh cs = (
     let name = ce_pack_name w (map fst fresh);
         cs = pend name cs;
         before = (case file_size (cs_dir cs) name of None \<Rightarrow> 0 | Some sz \<Rightarrow> sz);
         data = pack_bytes 0 fresh;
         placed = pack_places name 0 fresh in
     if ce_writable w then
       (learn name placed (note_own name (write_file (ce_now w) name data cs)),
        Some (name, int (length data), int (length data) - before, placed))
     else (unpend [name] cs, None))"

text \<open>What \<open>put_all\<close> has gathered so far: a reference per buffer, the entry's places, the
  files it holds, the buffers to write and the indices waiting for them.\<close>

record gathered =
  ga_refs :: "(digest \<times> crc) option list"
  ga_places :: meta_places
  ga_files :: "(string \<times> int) list"
  ga_fresh :: "(digest \<times> byte list) list"
  ga_waiting :: "(nat \<times> digest) list"
  ga_old_crcs :: "(string \<times> crc) list"

definition place_meta :: "place \<Rightarrow> string \<times> int \<times> int \<times> string" where
  "place_meta p = (case p of (name, offset, nbytes, c) \<Rightarrow> (name, offset, nbytes, hex c))"

text \<open>A buffer known to be in a pack: the pack is held, or forgotten when it is gone.\<close>

definition use_place :: "chunk_env \<Rightarrow> place \<Rightarrow> gathered \<Rightarrow> chunk_store \<Rightarrow> chunk_store \<times> gathered option" where
  "use_place w p g cs = (let name = fst p in
     if map_of (ga_files g) name \<noteq> None then (cs, Some g)
     else case hold_stored w name cs of
         (cs1, None) \<Rightarrow> (forget name cs1, None)
       | (cs1, Some sz) \<Rightarrow> (cs1, Some (g\<lparr>ga_files := AList.update name sz (ga_files g)\<rparr>)))"

text \<open>A buffer that may be in a chunk file from before packs.\<close>

definition use_chunk :: "chunk_env \<Rightarrow> string \<Rightarrow> nat \<Rightarrow> gathered \<Rightarrow> chunk_store \<Rightarrow> chunk_store \<times> gathered \<times> crc option" where
  "use_chunk w name nbytes g cs = (
     if \<not> cs_old_chunks cs then (cs, g, None)
     else case map_of (ga_old_crcs g) name of
         Some c \<Rightarrow> (cs, g, Some c)
       | None \<Rightarrow> (case hold_chunk w name nbytes cs of
             (cs1, None) \<Rightarrow> (cs1, g, None)
           | (cs1, Some c) \<Rightarrow> (cs1, g\<lparr>ga_old_crcs := AList.update name c (ga_old_crcs g),
                 ga_files := AList.update name (int nbytes + int TRAILER) (ga_files g)\<rparr>, Some c)))"

definition gather :: "chunk_env \<Rightarrow> nat \<Rightarrow> byte list \<Rightarrow> digest \<Rightarrow> gathered \<Rightarrow> chunk_store \<Rightarrow> chunk_store \<times> gathered" where
  "gather w i view digest g cs = (
     let (cs1, stored) = (case cs_places cs digest of
           None \<Rightarrow> (cs, None)
         | Some p \<Rightarrow>
             if fst (snd (snd p)) \<noteq> int (length view) then (cs, None)
             else (case use_place w p g cs of
                 (cs1, None) \<Rightarrow> (cs1, None)
               | (cs1, Some g1) \<Rightarrow> (cs1, Some (g1\<lparr>
                     ga_refs := (ga_refs g1)[i := Some (digest, snd (snd (snd p)))],
                     ga_places := AList.update (hex digest) (place_meta p) (ga_places g1)\<rparr>)))) in
     case stored of
       Some g1 \<Rightarrow> (cs1, g1)
     | None \<Rightarrow> (case use_chunk w (chunk_name digest) (length view) g cs1 of
           (cs2, g2, Some c) \<Rightarrow> (cs2, g2\<lparr>ga_refs := (ga_refs g2)[i := Some (digest, c)]\<rparr>)
         | (cs2, g2, None) \<Rightarrow> (cs2, g2\<lparr>
               ga_fresh := (if map_of (ga_fresh g2) digest = None then ga_fresh g2 @ [(digest, view)] else ga_fresh g2),
               ga_waiting := ga_waiting g2 @ [(i, digest)]\<rparr>)))"

fun gather_all :: "chunk_env \<Rightarrow> nat \<Rightarrow> (byte list \<times> digest option) list \<Rightarrow> gathered \<Rightarrow> chunk_store \<Rightarrow> chunk_store \<times> gathered" where
  "gather_all w i [] g cs = (cs, g)"
| "gather_all w i ((view, known) # rest) g cs =
     (let (cs1, g1) = gather w i view (case known of None \<Rightarrow> ce_bulk_digest w view | Some d \<Rightarrow> d) g cs
      in gather_all w (Suc i) rest g1 cs1)"

fun place_waiting :: "(digest \<times> place) list \<Rightarrow> (nat \<times> digest) list \<Rightarrow> gathered \<Rightarrow> gathered" where
  "place_waiting written [] g = g"
| "place_waiting written ((i, digest) # waiting) g =
     (let p = the (map_of written digest) in
      place_waiting written waiting (g\<lparr>
        ga_refs := (ga_refs g)[i := Some (digest, snd (snd (snd p)))],
        ga_places := AList.update (hex digest) (place_meta p) (ga_places g)\<rparr>))"

definition put_all ::
  "chunk_env \<Rightarrow> (byte list \<times> digest option) list \<Rightarrow> chunk_store
    \<Rightarrow> chunk_store \<times> ((digest \<times> crc) option list \<times> meta_places \<times> (string \<times> int) list \<times> int) option" where
  "put_all w views cs = (
     let (cs, _) = ensure_index w cs;
         (cs, g) = gather_all w 0 views \<lparr>ga_refs = replicate (length views) None, ga_places = [], ga_files = [],
                     ga_fresh = [], ga_waiting = [], ga_old_crcs = []\<rparr> cs in
     if ga_fresh g = [] then (cs, Some (ga_refs g, ga_places g, ga_files g, 0))
     else case write_pack w (ga_fresh g) cs of
         (cs1, None) \<Rightarrow> (fst (abandon w (ga_files g) cs1), None)
       | (cs1, Some (name, sz, added, written)) \<Rightarrow>
           let g1 = place_waiting written (ga_waiting g) g in
           (cs1, Some (ga_refs g1, ga_places g1, AList.update name sz (ga_files g1), added)))"

subsection \<open>Rewriting a pack\<close>

text \<open>\<open>_swap_if_same\<close>: the entry is taken away, compared, and the new file linked in where
  nothing is. \<open>landed\<close> is what another process puts at the path in between. \<open>None\<close> is
  \<open>_Replaced\<close>.\<close>

definition swap_if_same ::
  "(byte list \<Rightarrow> unpickled) \<Rightarrow> read_env \<Rightarrow> byte list option \<Rightarrow> byte list option \<Rightarrow> byte list \<Rightarrow> identity
    \<Rightarrow> byte list option \<times> bool" where
  "swap_if_same loads env content landed new identity = (case content of
       None \<Rightarrow> (landed, False)
     | Some taken \<Rightarrow>
         if identity_at loads env (Some taken) \<noteq> Some identity then
           ((case landed of None \<Rightarrow> Some taken | Some x \<Rightarrow> Some x), False)
         else (case landed of None \<Rightarrow> (Some new, True) | Some x \<Rightarrow> (Some x, False)))"

definition entry_env :: "chunk_env \<Rightarrow> chunk_store \<Rightarrow> read_env" where
  "entry_env w cs = \<lparr>re_dir = cs_dir cs, re_can_map = ce_can_map w, re_removable = True\<rparr>"

definition repoint ::
  "chunk_env \<Rightarrow> string \<Rightarrow> string \<Rightarrow> string \<times> int \<Rightarrow> meta_places \<Rightarrow> (digest \<times> place) list \<Rightarrow> chunk_store
    \<Rightarrow> chunk_store \<times> bool" where
  "repoint w stem old new planned placed cs = (
     if ce_busy w stem then (cs, False)
     else case moved_head (ce_dumps w) (ce_loads w) (cs_entries cs stem) old new planned of
         None \<Rightarrow> (cs, False)
       | Some (head, start, identity) \<Rightarrow>
           let content = cs_entries cs stem;
               (content', ok) = swap_if_same (ce_loads w) (entry_env w cs) content (ce_landed w stem)
                  (head @ drop start (the content)) identity;
               cs1 = cs\<lparr>cs_entries := (cs_entries cs)(stem := content')\<rparr> in
           if \<not> ok then (cs1, False)
           else let held = (case cs_held_by cs1 stem of None \<Rightarrow> [] | Some h \<Rightarrow> h);
                    cs2 = set_holder stem (List.insert (fst new) (removeAll old held)) held cs1;
                    mine = (case map_of (cs_placed_by cs2) stem of None \<Rightarrow> [] | Some ps \<Rightarrow> ps) in
             (cs2\<lparr>cs_placed_by := AList.update stem
                (map (\<lambda>(d, p). (d, if fst p = old then the (map_of placed d) else p)) mine) (cs_placed_by cs2)\<rparr>, True))"

fun repoint_all ::
  "chunk_env \<Rightarrow> string list \<Rightarrow> string \<Rightarrow> string \<times> int \<Rightarrow> meta_places \<Rightarrow> (digest \<times> place) list \<Rightarrow> chunk_store
    \<Rightarrow> chunk_store \<times> nat" where
  "repoint_all w [] old new planned placed cs = (cs, 0)"
| "repoint_all w (stem # stems) old new planned placed cs =
     (let (cs1, ok) = repoint w stem old new planned placed cs;
          (cs2, moved) = repoint_all w stems old new planned placed cs1
      in (cs2, (if ok then 1 else 0) + moved))"

text \<open>Where each live chunk will be in the new pack, and the new pack's size.\<close>

fun plan_places :: "string \<Rightarrow> nat \<Rightarrow> (digest \<times> place) list \<Rightarrow> meta_places \<times> nat" where
  "plan_places new_name offset [] = ([], offset)"
| "plan_places new_name offset ((d, (_, _, nbytes, c)) # live) =
     (let at_off = offset + aligned offset;
          (rest, sz) = plan_places new_name (at_off + nat nbytes + TRAILER) live
      in ((hex d, (new_name, int at_off, nbytes, hex c)) # rest, sz))"

definition rewrite_pack :: "chunk_env \<Rightarrow> string \<Rightarrow> string \<Rightarrow> (digest \<times> place) list \<Rightarrow> string list \<Rightarrow> chunk_store \<Rightarrow> chunk_store \<times> int" where
  "rewrite_pack w name new_name live holders cs = (
     let (planned, sz) = plan_places new_name 0 live in
     if list_ex (\<lambda>stem. moved_head (ce_dumps w) (ce_loads w) (cs_entries cs stem) name (new_name, int sz) planned = None) holders
     then (cs, 0)
     else case read_pack (ce_can_map w) (cs_dir cs) name
            (map (\<lambda>(i, (_, (_, offset, nbytes, c))). (i, offset, nat nbytes, c)) (enumerate 0 live)) of
         Inl _ \<Rightarrow> (cs, 0)
       | Inr data \<Rightarrow>
           let existed = (map_of (cs_dir cs) new_name \<noteq> None) in
           (case write_pack w (map (\<lambda>(i, (d, _)). (d, the (map_of data i))) (enumerate 0 live)) cs of
              (cs1, None) \<Rightarrow> (cs1, 0)
            | (cs1, Some (new_name, new_size, added, placed)) \<Rightarrow>
                let (cs2, moved) = repoint_all w holders name (new_name, new_size) planned placed cs1;
                    cs3 = unpend [new_name] (cs2\<lparr>cs_size := (cs_size cs2)(new_name \<mapsto> new_size)\<rparr>) in
                if moved = 0 then (if existed then (cs3, 0) else (fst (drop_unheld w [new_name] cs3), 0))
                else let (cs4, freed) = drop_unheld w [name] cs3 in (cs4, freed - added)))"

text \<open>\<open>_claim\<close>: a claim left by a crash is removed, and the pack left for the next time.\<close>

definition claim :: "chunk_env \<Rightarrow> string \<Rightarrow> chunk_store \<Rightarrow> chunk_store \<times> bool" where
  "claim w name cs = (let path = name @ CLAIM_SUFFIX in
     case map_of (cs_dir cs) path of
       None \<Rightarrow> (write_file (ce_now w) path [] cs, True)
     | Some f \<Rightarrow> (if cf_mtime f < ce_now w - ORPHAN_CHUNK_AGE \<and> ce_removable w path then remove_file path cs else cs, False))"

definition live_chunks :: "chunk_store \<Rightarrow> string \<Rightarrow> (digest \<times> place) list" where
  "live_chunks cs name = dict_of (concat (map (\<lambda>stem.
     filter (\<lambda>(d, p). fst p = name) (case map_of (cs_placed_by cs) stem of None \<Rightarrow> [] | Some ps \<Rightarrow> ps)) (cs_holders cs name)))"

definition compact_one :: "chunk_env \<Rightarrow> string \<Rightarrow> chunk_store \<Rightarrow> chunk_store \<times> int" where
  "compact_one w name cs = (
     let holders = cs_holders cs name in
     if holders = [] \<or> cs_pending cs name \<noteq> 0 \<or> list_ex (\<lambda>s. map_of (cs_placed_by cs) s = None) holders then (cs, 0)
     else let live = live_chunks cs name;
              sz = (case cs_size cs name of None \<Rightarrow> 0 | Some n \<Rightarrow> n);
              kept = sum_list (map (\<lambda>(_, (_, _, nbytes, _)). nbytes + int TRAILER + int PACK_ALIGN) live) in
     if live = [] \<or> 3 * kept > 2 * sz then (cs, 0)
     else let live = sort_key (\<lambda>(_, p). fst (snd p)) live;
              new_name = ce_pack_name w (map fst live) in
     if new_name = name then (cs, 0)
     else case claim w name cs of
         (cs1, False) \<Rightarrow> (cs1, 0)
       | (cs1, True) \<Rightarrow>
           let (cs2, freed) = rewrite_pack w name new_name live holders cs1;
               path = name @ CLAIM_SUFFIX in
           (if ce_removable w path then remove_file path cs2 else cs2, freed))"

fun compact :: "chunk_env \<Rightarrow> string list \<Rightarrow> chunk_store \<Rightarrow> chunk_store \<times> int" where
  "compact w [] cs = (cs, 0)"
| "compact w (name # names) cs =
     (let (cs1, n) = (if endswith name PACK_SUFFIX then compact_one w name cs else (cs, 0));
          (cs2, m) = compact w names cs1
      in (cs2, n + m))"

subsection \<open>The end of a write, a removal, and the rest\<close>

definition commit ::
  "chunk_env \<Rightarrow> string \<Rightarrow> (string \<times> int) list \<Rightarrow> (string \<times> int) list option \<Rightarrow> meta_places option \<Rightarrow> chunk_store
    \<Rightarrow> chunk_store \<times> int" where
  "commit w stem held replaced places cs = (
     let names = remdups (map fst held);
         cs = cs\<lparr>cs_size := cs_size cs ++ map_of (rev held)\<rparr>;
         cs = unpend (map fst held) cs;
         before = (case cs_held_by cs stem of
             Some b \<Rightarrow> b
           | None \<Rightarrow> remdups (map fst (case replaced of None \<Rightarrow> [] | Some r \<Rightarrow> r)));
         cs = set_placed stem places (set_holder stem names before cs);
         gone = filter (\<lambda>n. n \<notin> set names) before;
         (cs1, freed) = drop_unheld w gone cs;
         (cs2, smaller) = compact w (gone @ names) cs1 in
     (cs2, freed + smaller))"

definition release :: "chunk_env \<Rightarrow> string \<Rightarrow> (string \<times> int) list option \<Rightarrow> chunk_store \<Rightarrow> chunk_store \<times> int" where
  "release w stem held cs = (
     let before = (case cs_held_by cs stem of
             Some b \<Rightarrow> b
           | None \<Rightarrow> remdups (map fst (case held of None \<Rightarrow> [] | Some h \<Rightarrow> h)));
         cs = set_holder stem [] before cs;
         cs = cs\<lparr>cs_placed_by := AList.delete stem (cs_placed_by cs)\<rparr>;
         (cs1, freed) = drop_unheld w before cs;
         (cs2, smaller) = compact w before cs1 in
     (cs2, freed + smaller))"

definition damaged :: "chunk_env \<Rightarrow> string \<Rightarrow> int \<Rightarrow> chunk_store \<Rightarrow> chunk_store \<times> string list" where
  "damaged w pack offset cs = (
     let (cs, _) = ensure_index w cs;
         here = (\<lambda>p. fst p = pack \<and> fst (snd p) = offset) in
     (cs\<lparr>cs_places := (\<lambda>d. case cs_places cs d of Some p \<Rightarrow> if here p then None else Some p | None \<Rightarrow> None),
         cs_in_pack := (cs_in_pack cs)(pack := filter (\<lambda>d. case cs_places cs d of Some p \<Rightarrow> \<not> here p | None \<Rightarrow> True)
            (cs_in_pack cs pack))\<rparr>,
      map fst (filter (\<lambda>(stem, placed). list_ex (\<lambda>(_, p). here p) placed) (cs_placed_by cs))))"

definition knows :: "chunk_store \<Rightarrow> string \<Rightarrow> bool" where
  "knows cs stem = (cs_held_by cs stem \<noteq> None)"

definition share :: "chunk_store \<Rightarrow> string \<Rightarrow> real" where
  "share cs stem = (case cs_held_by cs stem of
       None \<Rightarrow> 0
     | Some names \<Rightarrow> sum_list (map (\<lambda>name.
         of_int (case cs_size cs name of None \<Rightarrow> 0 | Some n \<Rightarrow> n) / of_nat (max 1 (length (cs_holders cs name)))) names))"

definition clear_store :: "chunk_env \<Rightarrow> chunk_store \<Rightarrow> chunk_store" where
  "clear_store w cs = cs\<lparr>
     cs_held_by := Map.empty, cs_holders := (\<lambda>_. []), cs_own_mtime := Map.empty, cs_size := Map.empty,
     cs_places := Map.empty, cs_in_pack := (\<lambda>_. []), cs_indexed := True, cs_indexed_at := ce_now w,
     cs_dir := filter (\<lambda>(n, _). \<not> ((endswith n CHUNK_SUFFIX \<or> endswith n PACK_SUFFIX \<or> endswith n CLAIM_SUFFIX)
         \<and> ce_removable w n)) (cs_dir cs)\<rparr>"

end
