(* ===== verification/Chunk_Ledger.thy ===== *)
theory Chunk_Ledger
  imports Chunk_Store
begin

text \<open>
  What the chunk store's bookkeeping guarantees: the two tables of holders agree, and no file
  that an entry known to this process holds, or that a write in flight will hold, is ever
  removed, whatever order writes, failures, removals and pack rewrites come in.
\<close>

named_theorems store_simps \<open>fields the small steps of the store leave alone\<close>

definition present :: "chunk_store \<Rightarrow> string \<Rightarrow> bool" where
  "present cs name = (map_of (cs_dir cs) name \<noteq> None)"

text \<open>\<open>_holders\<close> and \<open>_held_by\<close> are inverse to each other.\<close>

definition ledger_ok :: "chunk_store \<Rightarrow> bool" where
  "ledger_ok cs = (\<forall>stem name. stem \<in> set (cs_holders cs name) \<longleftrightarrow>
     (\<exists>names. cs_held_by cs stem = Some names \<and> name \<in> set names))"

text \<open>Every place is in a pack, and listed among the chunks of that pack.\<close>

definition places_ok :: "chunk_store \<Rightarrow> bool" where
  "places_ok cs = (\<forall>d p. cs_places cs d = Some p \<longrightarrow> d \<in> set (cs_in_pack cs (fst p)) \<and> endswith (fst p) PACK_SUFFIX)"

text \<open>A file that is held, by an entry or a write in flight, is there, and is not a claim.\<close>

definition files_ok :: "chunk_store \<Rightarrow> bool" where
  "files_ok cs = (\<forall>name. \<not> unheld cs name \<longrightarrow> present cs name \<and> \<not> endswith name CLAIM_SUFFIX)"

definition store_ok :: "chunk_store \<Rightarrow> bool" where
  "store_ok cs = (ledger_ok cs \<and> places_ok cs \<and> files_ok cs)"

subsection \<open>Names\<close>

lemma endswith_append [simp]: "endswith (s @ suffix) suffix"
  by (simp add: endswith_def)

lemma endswith_last: "endswith s suffix \<Longrightarrow> suffix \<noteq> [] \<Longrightarrow> last s = last suffix"
  by (metis endswith_def last_appendR append_take_drop_id)

lemma pack_not_claim: "endswith name PACK_SUFFIX \<Longrightarrow> \<not> endswith name CLAIM_SUFFIX"
  by (auto simp: PACK_SUFFIX_def CLAIM_SUFFIX_def dest!: endswith_last)

lemma chunk_not_claim: "\<not> endswith (chunk_name d) CLAIM_SUFFIX"
  by (auto simp: chunk_name_def CHUNK_SUFFIX_def CLAIM_SUFFIX_def dest!: endswith_last)

lemma claim_suffixed: "endswith (name @ CLAIM_SUFFIX) CLAIM_SUFFIX"
  by simp

subsection \<open>Small steps\<close>

lemma present_write [store_simps]: "present (write_file now name data cs) n \<longleftrightarrow> n = name \<or> present cs n"
  by (simp add: present_def write_file_def map_of_update)

lemma present_remove [store_simps]: "present (remove_file name cs) n \<longleftrightarrow> n \<noteq> name \<and> present cs n"
  by (simp add: present_def remove_file_def map_of_delete)

lemma map_of_touch: "map_of (map (\<lambda>(n, f). (n, if n = name then g f else f)) d) k
    = map_option (\<lambda>f. if k = name then g f else f) (map_of d k)"
  by (induction d) auto

lemma present_touch [store_simps]: "present (touch_file now name cs) n = present cs n"
  by (simp add: present_def touch_file_def map_of_touch)

lemma note_own_fields [store_simps]:
  "cs_dir (note_own name cs) = cs_dir cs" "cs_holders (note_own name cs) = cs_holders cs"
  "cs_held_by (note_own name cs) = cs_held_by cs" "cs_pending (note_own name cs) = cs_pending cs"
  "cs_places (note_own name cs) = cs_places cs" "cs_in_pack (note_own name cs) = cs_in_pack cs"
  "cs_indexed (note_own name cs) = cs_indexed cs" "cs_old_chunks (note_own name cs) = cs_old_chunks cs"
  "cs_entries (note_own name cs) = cs_entries cs" "cs_placed_by (note_own name cs) = cs_placed_by cs"
  by (simp_all add: note_own_def split: option.split)

lemma present_note_own [store_simps]: "present (note_own name cs) n = present cs n"
  by (simp add: present_def note_own_fields)

lemma unpend_fields [store_simps]:
  "cs_dir (unpend names cs) = cs_dir cs" "cs_holders (unpend names cs) = cs_holders cs"
  "cs_held_by (unpend names cs) = cs_held_by cs"
  "cs_places (unpend names cs) = cs_places cs" "cs_in_pack (unpend names cs) = cs_in_pack cs"
  "cs_indexed (unpend names cs) = cs_indexed cs" "cs_old_chunks (unpend names cs) = cs_old_chunks cs"
  "cs_entries (unpend names cs) = cs_entries cs" "cs_placed_by (unpend names cs) = cs_placed_by cs"
  by (induction names cs rule: unpend.induct) simp_all

lemma unpend_pending: "distinct names \<Longrightarrow>
    cs_pending (unpend names cs) = (\<lambda>n. if n \<in> set names then cs_pending cs n - 1 else cs_pending cs n)"
  by (induction names cs rule: unpend.induct) auto

lemma unpend_le: "cs_pending (unpend names cs) n \<le> cs_pending cs n"
  by (induction names cs rule: unpend.induct) (auto intro: le_trans split: if_splits)

lemma present_unpend [store_simps]: "present (unpend names cs) n = present cs n"
  by (simp add: present_def unpend_fields)

lemma unheld_unpend: "unheld cs n \<Longrightarrow> unheld (unpend names cs) n"
  using unpend_le [of names cs n] by (simp add: unheld_def unpend_fields)

text \<open>A step that leaves the holders alone and removes only what nothing holds keeps the store
  in order.\<close>

lemma store_ok_trans:
  assumes "store_ok cs" and "cs_holders cs' = cs_holders cs" "cs_held_by cs' = cs_held_by cs" "places_ok cs'"
    and "\<And>n. unheld cs n \<Longrightarrow> unheld cs' n" and "\<And>n. \<not> unheld cs' n \<Longrightarrow> present cs n \<Longrightarrow> present cs' n"
  shows "store_ok cs'"
  using assms unfolding store_ok_def ledger_ok_def files_ok_def by metis

lemma places_ok_same: "cs_places cs' = cs_places cs \<Longrightarrow> cs_in_pack cs' = cs_in_pack cs \<Longrightarrow> places_ok cs' = places_ok cs"
  by (simp add: places_ok_def)

lemma store_ok_unpend: "store_ok cs \<Longrightarrow> store_ok (unpend names cs)"
  by (rule store_ok_trans [of cs]) (auto simp: store_ok_def store_simps unheld_unpend cong: places_ok_same)

lemma store_ok_note_own: "store_ok (note_own name cs) = store_ok cs"
  by (simp add: store_ok_def ledger_ok_def places_ok_def files_ok_def unheld_def store_simps)

lemma store_ok_touch: "store_ok (touch_file now name cs) = store_ok cs"
  by (simp add: store_ok_def ledger_ok_def places_ok_def files_ok_def unheld_def present_touch) (simp add: touch_file_def)

lemma touch_fields [store_simps]:
  "cs_holders (touch_file now name cs) = cs_holders cs" "cs_held_by (touch_file now name cs) = cs_held_by cs"
  "cs_pending (touch_file now name cs) = cs_pending cs" "cs_places (touch_file now name cs) = cs_places cs"
  "cs_in_pack (touch_file now name cs) = cs_in_pack cs" "cs_indexed (touch_file now name cs) = cs_indexed cs"
  "cs_old_chunks (touch_file now name cs) = cs_old_chunks cs" "cs_entries (touch_file now name cs) = cs_entries cs"
  "cs_placed_by (touch_file now name cs) = cs_placed_by cs"
  by (simp_all add: touch_file_def)

lemma pend_fields [store_simps]:
  "cs_dir (pend name cs) = cs_dir cs" "cs_holders (pend name cs) = cs_holders cs"
  "cs_held_by (pend name cs) = cs_held_by cs" "cs_places (pend name cs) = cs_places cs"
  "cs_in_pack (pend name cs) = cs_in_pack cs" "cs_indexed (pend name cs) = cs_indexed cs"
  "cs_old_chunks (pend name cs) = cs_old_chunks cs" "cs_entries (pend name cs) = cs_entries cs"
  "cs_placed_by (pend name cs) = cs_placed_by cs"
  "cs_pending (pend name cs) = (cs_pending cs)(name := cs_pending cs name + 1)"
  by (simp_all add: pend_def)

lemma store_ok_pend:
  "store_ok cs \<Longrightarrow> present cs name \<Longrightarrow> \<not> endswith name CLAIM_SUFFIX \<Longrightarrow> store_ok (pend name cs)"
  by (auto simp: store_ok_def ledger_ok_def places_ok_def files_ok_def unheld_def present_def pend_fields)

lemma unpend_pend: "unpend [name] (pend name cs) = cs"
  by (simp add: pend_def)

lemma forget_fields [store_simps]:
  "cs_dir (forget name cs) = cs_dir cs" "cs_holders (forget name cs) = cs_holders cs"
  "cs_held_by (forget name cs) = cs_held_by cs" "cs_pending (forget name cs) = cs_pending cs"
  "cs_indexed (forget name cs) = cs_indexed cs" "cs_old_chunks (forget name cs) = cs_old_chunks cs"
  "cs_entries (forget name cs) = cs_entries cs" "cs_placed_by (forget name cs) = cs_placed_by cs"
  by (simp_all add: forget_def)

text \<open>After \<open>_forget\<close> nothing is placed in the pack.\<close>

lemma forget_places:
  "places_ok cs \<Longrightarrow> cs_places (forget name cs) d
     = (case cs_places cs d of Some p \<Rightarrow> if fst p = name then None else Some p | None \<Rightarrow> None)"
  by (auto simp: places_ok_def forget_def split: option.splits)

lemma places_ok_forget: "places_ok cs \<Longrightarrow> places_ok (forget name cs)"
  by (auto simp: places_ok_def forget_def split: option.splits if_splits)

lemma store_ok_forget: "store_ok cs \<Longrightarrow> store_ok (forget name cs)"
  using places_ok_forget [of cs name]
  by (auto simp: store_ok_def ledger_ok_def files_ok_def unheld_def present_def store_simps)

lemma learn_fields [store_simps]:
  "cs_dir (learn name placed cs) = cs_dir cs" "cs_holders (learn name placed cs) = cs_holders cs"
  "cs_held_by (learn name placed cs) = cs_held_by cs" "cs_pending (learn name placed cs) = cs_pending cs"
  "cs_indexed (learn name placed cs) = cs_indexed cs" "cs_old_chunks (learn name placed cs) = cs_old_chunks cs"
  "cs_entries (learn name placed cs) = cs_entries cs" "cs_placed_by (learn name placed cs) = cs_placed_by cs"
  by (simp_all add: learn_def)

lemma places_ok_learn:
  assumes "places_ok cs" and "\<forall>(d, p) \<in> set placed. fst p = name \<and> endswith name PACK_SUFFIX"
  shows "places_ok (learn name placed cs)"
  using assms by (auto simp: places_ok_def learn_def map_add_Some_iff dest!: map_of_SomeD) force+

lemma store_ok_learn:
  "store_ok cs \<Longrightarrow> \<forall>(d, p) \<in> set placed. fst p = name \<and> endswith name PACK_SUFFIX \<Longrightarrow> store_ok (learn name placed cs)"
  using places_ok_learn [of cs placed name]
  by (auto simp: store_ok_def ledger_ok_def files_ok_def unheld_def present_def store_simps)

subsection \<open>Removing what nothing holds\<close>

text \<open>\<open>trimmed cs cs'\<close>: files that nothing holds were removed, nothing else changed that the
  store's order rests on.\<close>

definition trimmed :: "chunk_store \<Rightarrow> chunk_store \<Rightarrow> bool" where
  "trimmed cs cs' = (cs_holders cs' = cs_holders cs \<and> cs_held_by cs' = cs_held_by cs \<and> cs_pending cs' = cs_pending cs
     \<and> cs_indexed cs' = cs_indexed cs \<and> cs_entries cs' = cs_entries cs \<and> cs_placed_by cs' = cs_placed_by cs
     \<and> (places_ok cs \<longrightarrow> places_ok cs')
     \<and> (\<forall>n. map_of (cs_dir cs') n = map_of (cs_dir cs) n \<or> unheld cs n \<and> map_of (cs_dir cs') n = None))"

lemma trimmed_refl [simp]: "trimmed cs cs"
  by (simp add: trimmed_def)

lemma trimmed_unheld: "trimmed cs cs' \<Longrightarrow> unheld cs' = unheld cs"
  by (simp add: trimmed_def unheld_def fun_eq_iff)

lemma trimmed_trans: "trimmed a b \<Longrightarrow> trimmed b c \<Longrightarrow> trimmed a c"
  using trimmed_unheld [of a b] unfolding trimmed_def by metis

lemma trimmed_kept: "trimmed cs cs' \<Longrightarrow> \<not> unheld cs n \<Longrightarrow> map_of (cs_dir cs') n = map_of (cs_dir cs) n"
  unfolding trimmed_def by blast

lemma trimmed_store_ok: "trimmed cs cs' \<Longrightarrow> store_ok cs \<Longrightarrow> store_ok cs'"
proof -
  assume t: "trimmed cs cs'" and ok: "store_ok cs"
  show "store_ok cs'"
  proof (rule store_ok_trans [OF ok])
    show "cs_holders cs' = cs_holders cs" "cs_held_by cs' = cs_held_by cs" using t by (simp_all add: trimmed_def)
    show "places_ok cs'" using t ok by (simp add: trimmed_def store_ok_def)
    show "unheld cs n \<Longrightarrow> unheld cs' n" "\<not> unheld cs' n \<Longrightarrow> present cs n \<Longrightarrow> present cs' n" for n
      using trimmed_unheld [OF t] trimmed_kept [OF t] by (simp_all add: present_def)
  qed
qed

lemma trimmed_remove: "unheld cs name \<Longrightarrow> trimmed cs (remove_file name cs)"
  by (auto simp: trimmed_def remove_file_def map_of_delete places_ok_def)

lemma sweep_trimmed: "trimmed cs (fst (sweep_files w names cs))"
proof (induction w names cs rule: sweep_files.induct)
  case (2 w name names cs)
  then show ?case
    by (auto simp: Let_def split: option.splits prod.splits intro: trimmed_trans [OF trimmed_remove])
qed simp

lemma trimmed_drop_step:
  assumes "unheld cs name"
  shows "trimmed cs (forget name ((remove_file name cs)\<lparr>cs_own_mtime := m, cs_size := s\<rparr>))"
proof -
  let ?cs = "(remove_file name cs)\<lparr>cs_own_mtime := m, cs_size := s\<rparr>"
  have "trimmed cs ?cs" using trimmed_remove [OF assms] by (simp add: trimmed_def places_ok_def)
  moreover have "trimmed ?cs (forget name ?cs)"
    using places_ok_forget [of ?cs name] by (auto simp: trimmed_def forget_fields)
  ultimately show ?thesis by (rule trimmed_trans)
qed

lemma drop_trimmed: "trimmed cs (fst (drop_files w names cs))"
proof (induction names arbitrary: cs)
  case (Cons name names)
  show ?case
  proof (cases "map_of (cs_dir cs) name")
    case None
    with Cons show ?thesis by simp
  next
    case (Some f)
    let ?go = "unheld cs name \<and> \<not> (cs_indexed_at cs < cf_mtime f \<and> cs_own_mtime cs name \<noteq> Some (cf_mtime f)) \<and> ce_removable w name"
    show ?thesis
    proof (cases ?go)
      case True
      let ?cs = "forget name ((remove_file name cs)\<lparr>cs_own_mtime := (cs_own_mtime (remove_file name cs))(name := None),
          cs_size := (cs_size (remove_file name cs))(name := None)\<rparr>)"
      have "trimmed ?cs (fst (drop_files w names ?cs))" by (rule Cons.IH)
      moreover have "trimmed cs ?cs" by (rule trimmed_drop_step) (use True in simp)
      ultimately have "trimmed cs (fst (drop_files w names ?cs))" using trimmed_trans by blast
      with Some True show ?thesis by (simp add: Let_def split_def)
    next
      case False
      with Cons Some show ?thesis by auto
    qed
  qed
qed simp

subsection \<open>Learning who holds what\<close>

lemma set_holder_fields [store_simps]:
  "cs_dir (set_holder stem names before cs) = cs_dir cs" "cs_pending (set_holder stem names before cs) = cs_pending cs"
  "cs_places (set_holder stem names before cs) = cs_places cs" "cs_in_pack (set_holder stem names before cs) = cs_in_pack cs"
  "cs_indexed (set_holder stem names before cs) = cs_indexed cs" "cs_placed_by (set_holder stem names before cs) = cs_placed_by cs"
  "cs_entries (set_holder stem names before cs) = cs_entries cs"
  by (simp_all add: set_holder_def)

lemma set_placed_fields [store_simps]:
  "cs_dir (set_placed stem places cs) = cs_dir cs" "cs_pending (set_placed stem places cs) = cs_pending cs"
  "cs_places (set_placed stem places cs) = cs_places cs" "cs_in_pack (set_placed stem places cs) = cs_in_pack cs"
  "cs_indexed (set_placed stem places cs) = cs_indexed cs" "cs_holders (set_placed stem places cs) = cs_holders cs"
  "cs_held_by (set_placed stem places cs) = cs_held_by cs" "cs_entries (set_placed stem places cs) = cs_entries cs"
  by (simp_all add: set_placed_def Let_def)

lemma store_ok_set_placed: "store_ok (set_placed stem places cs) = store_ok cs"
  by (simp add: store_ok_def ledger_ok_def places_ok_def files_ok_def unheld_def present_def store_simps)

text \<open>Recording an entry's files keeps the two tables inverse, when the files it held before
  are among those it is taken off.\<close>

lemma ledger_set_holder:
  assumes "ledger_ok cs" and "\<And>held. cs_held_by cs stem = Some held \<Longrightarrow> set held \<subseteq> set before"
  shows "ledger_ok (set_holder stem names before cs)"
proof -
  have "stem \<notin> set (cs_holders cs name)" if "name \<notin> set before" for name
    using assms that unfolding ledger_ok_def by blast
  with assms(1) show ?thesis by (auto simp: ledger_ok_def set_holder_def)
qed

lemma unheld_set_holder: "unheld cs n \<Longrightarrow> n \<notin> set names \<Longrightarrow> unheld (set_holder stem names before cs) n"
  by (auto simp: unheld_def set_holder_def)

lemma store_ok_set_holder:
  assumes ok: "store_ok cs" and before: "\<And>held. cs_held_by cs stem = Some held \<Longrightarrow> set held \<subseteq> set before"
    and names: "\<And>n. n \<in> set names \<Longrightarrow> present cs n \<and> \<not> endswith n CLAIM_SUFFIX"
  shows "store_ok (set_holder stem names before cs)"
proof -
  have "files_ok (set_holder stem names before cs)"
    unfolding files_ok_def
  proof (intro allI impI)
    fix n
    assume n: "\<not> unheld (set_holder stem names before cs) n"
    show "present (set_holder stem names before cs) n \<and> \<not> endswith n CLAIM_SUFFIX"
    proof (cases "n \<in> set names")
      case True
      with names show ?thesis by (simp add: present_def set_holder_fields)
    next
      case False
      with n unheld_set_holder have "\<not> unheld cs n" by blast
      with ok show ?thesis by (simp add: store_ok_def files_ok_def present_def set_holder_fields)
    qed
  qed
  moreover have "ledger_ok (set_holder stem names before cs)"
    by (rule ledger_set_holder) (use ok before in \<open>simp_all add: store_ok_def\<close>)
  ultimately show ?thesis using ok by (simp add: store_ok_def places_ok_def set_holder_fields)
qed

subsection \<open>Reading the folder\<close>

text \<open>What the entries' metadata lists is there.\<close>

definition listing_ok :: "chunk_env \<Rightarrow> chunk_store \<Rightarrow> bool" where
  "listing_ok w cs = (\<forall>(stem, held, places) \<in> set (ce_listing w). \<forall>(n, sz) \<in> set held.
     present cs n \<and> \<not> endswith n CLAIM_SUFFIX)"

lemma set_update: "set (AList.update k v d) \<subseteq> insert (k, v) (set d)"
  by (induction d) auto

lemma dict_of_snoc: "dict_of (kvs @ [(k, v)]) = AList.update k v (dict_of kvs)"
  by (simp add: dict_of_def)

lemma dict_of_subset: "set (dict_of kvs) \<subseteq> set kvs"
proof (induction kvs rule: rev_induct)
  case (snoc x kvs)
  with set_update [of "fst x" "snd x" "dict_of kvs"] show ?case by (cases x) (auto simp: dict_of_snoc)
qed (simp add: dict_of_def)

lemma dict_ok_dict_of: "dict_ok (dict_of kvs)"
proof (induction kvs rule: rev_induct)
  case (snoc x kvs)
  then show ?case by (cases x) (simp add: dict_of_snoc dict_ok_update)
qed (simp add: dict_of_def)

lemma parse_places_pack: "(d, p) \<in> set (parse_places places) \<Longrightarrow> endswith (fst p) PACK_SUFFIX"
  by (auto simp: parse_places_def List.map_filter_def split: if_splits option.splits)

definition packs_ok :: "(string \<times> (digest \<times> place) list) list \<Rightarrow> bool" where
  "packs_ok packs = (\<forall>name chunks d p. (name, chunks) \<in> set packs \<longrightarrow> (d, p) \<in> set chunks \<longrightarrow>
     fst p = name \<and> endswith name PACK_SUFFIX)"

lemma packs_ok_add:
  assumes ok: "packs_ok packs" and pack: "endswith (fst p) PACK_SUFFIX"
  shows "packs_ok (add_listed packs (d, p))"
  unfolding packs_ok_def
proof (intro allI impI)
  let ?old = "case map_of packs (fst p) of None \<Rightarrow> [] | Some ds \<Rightarrow> ds"
  fix name chunks d' p'
  assume "(name, chunks) \<in> set (add_listed packs (d, p))" and in_chunks: "(d', p') \<in> set chunks"
  then consider "name = fst p" "chunks = AList.update d p ?old" | "(name, chunks) \<in> set packs"
    using set_update [of "fst p" "AList.update d p ?old" packs] by (auto simp: add_listed_def Let_def)
  then show "fst p' = name \<and> endswith name PACK_SUFFIX"
  proof cases
    case 1
    show ?thesis
    proof (cases "(d', p') = (d, p)")
      case False
      then have old: "(d', p') \<in> set ?old" using 1 in_chunks set_update [of d p ?old] by blast
      then obtain ds where "map_of packs (fst p) = Some ds" "(d', p') \<in> set ds" by (cases "map_of packs (fst p)") auto
      with ok 1 pack show ?thesis unfolding packs_ok_def by (metis map_of_SomeD)
    qed (use 1 pack in simp)
  next
    case 2
    with ok in_chunks show ?thesis unfolding packs_ok_def by blast
  qed
qed

lemma listed_places_ok: "packs_ok (listed_places w)"
proof -
  have fold: "packs_ok (foldl add_listed packs xs)"
    if "\<And>d p. (d, p) \<in> set xs \<Longrightarrow> endswith (fst p) PACK_SUFFIX" "packs_ok packs" for xs packs
    using that
  proof (induction xs arbitrary: packs)
    case (Cons x xs)
    obtain d p where x: "x = (d, p)" by (cases x)
    have "packs_ok (add_listed packs x)" unfolding x
      by (rule packs_ok_add [OF Cons.prems(2)]) (rule Cons.prems(1) [of d p], simp add: x)
    then have "packs_ok (foldl add_listed (add_listed packs x) xs)"
      by (rule Cons.IH [rotated]) (meson Cons.prems(1) list.set_intros(2))
    then show ?case by simp
  qed simp
  show ?thesis unfolding listed_places_def
    by (rule fold) (auto simp: packs_ok_def dest: parse_places_pack)
qed

text \<open>Steps that change neither files nor pending writes.\<close>

definition same_files :: "chunk_store \<Rightarrow> chunk_store \<Rightarrow> bool" where
  "same_files cs cs' = (cs_dir cs' = cs_dir cs \<and> cs_pending cs' = cs_pending cs \<and> cs_indexed cs' = cs_indexed cs
     \<and> cs_entries cs' = cs_entries cs)"

lemma foldl_learn:
  "packs_ok packs \<Longrightarrow> store_ok cs \<Longrightarrow>
     store_ok (foldl (\<lambda>cs (name, chunks). learn name chunks cs) cs packs)
     \<and> same_files cs (foldl (\<lambda>cs (name, chunks). learn name chunks cs) cs packs)"
proof (induction packs arbitrary: cs)
  case (Cons x packs)
  obtain name chunks where x: "x = (name, chunks)" by (cases x)
  have "store_ok (learn name chunks cs)"
    by (rule store_ok_learn [OF Cons.prems(2)]) (use Cons.prems(1) x in \<open>auto simp: packs_ok_def\<close>)
  moreover have "packs_ok packs" using Cons.prems(1) unfolding packs_ok_def by simp blast
  ultimately show ?case using Cons.IH [of "learn name chunks cs"] x by (simp add: same_files_def learn_fields)
qed (simp add: same_files_def)

lemma foldl_index:
  "store_ok cs \<Longrightarrow> \<forall>(stem, names) \<in> set es. \<forall>n \<in> set names. present cs n \<and> \<not> endswith n CLAIM_SUFFIX \<Longrightarrow>
     store_ok (foldl (index_entry w) cs es) \<and> same_files cs (foldl (index_entry w) cs es)"
proof (induction es arbitrary: cs)
  case (Cons e es)
  obtain stem names where e: "e = (stem, names)" by (cases e)
  let ?cs = "index_entry w cs e"
  have ok: "store_ok ?cs"
    using Cons.prems e by (auto simp: index_entry_def store_ok_set_placed intro: store_ok_set_holder)
  have same: "same_files cs ?cs"
    using e by (simp add: index_entry_def same_files_def set_placed_fields set_holder_fields)
  then have "present ?cs n = present cs n" for n by (simp add: same_files_def present_def)
  with Cons ok have "store_ok (foldl (index_entry w) ?cs es) \<and> same_files ?cs (foldl (index_entry w) ?cs es)" by simp
  with same show ?case by (simp add: same_files_def)
qed (simp add: same_files_def)

lemma found_entries_listed:
  assumes "(stem, names) \<in> set (found_entries w)" and "n \<in> set names"
  obtains held places sz where "(stem, held, places) \<in> set (ce_listing w)" "(n, sz) \<in> set held"
  using assms dict_of_subset unfolding found_entries_def by fastforce

lemma ensure_index_ok:
  assumes ok: "store_ok cs" and listing: "\<not> cs_indexed cs \<Longrightarrow> listing_ok w cs"
  shows "store_ok (fst (ensure_index w cs)) \<and> cs_pending (fst (ensure_index w cs)) = cs_pending cs
    \<and> cs_indexed (fst (ensure_index w cs))
    \<and> (\<forall>n. \<not> unheld (fst (ensure_index w cs)) n \<longrightarrow> map_of (cs_dir (fst (ensure_index w cs))) n = map_of (cs_dir cs) n)"
proof (cases "cs_indexed cs")
  case True
  with ok show ?thesis by (simp add: ensure_index_def)
next
  case False
  let ?c1 = "cs\<lparr>cs_size := map_of (listed_sizes w) ++ cs_size cs\<rparr>"
  let ?c2 = "foldl (\<lambda>cs (name, chunks). learn name chunks cs) ?c1 (listed_places w)"
  let ?c3 = "foldl (index_entry w) ?c2 (found_entries w)"
  let ?c4 = "?c3\<lparr>cs_old_chunks := cs_old_chunks ?c3 \<or> list_ex (\<lambda>(name, _). endswith name CHUNK_SUFFIX) (listed_sizes w),
       cs_indexed_at := ce_now w, cs_indexed := True\<rparr>"
  have c1: "store_ok ?c1" using ok by (simp add: store_ok_def ledger_ok_def places_ok_def files_ok_def unheld_def present_def)
  have c2: "store_ok ?c2" "same_files ?c1 ?c2" using foldl_learn [OF listed_places_ok c1] by simp_all
  have "\<forall>(stem, names) \<in> set (found_entries w). \<forall>n \<in> set names. present ?c2 n \<and> \<not> endswith n CLAIM_SUFFIX"
  proof (intro ballI, clarify)
    fix stem names n
    assume "(stem, names) \<in> set (found_entries w)" "n \<in> set names"
    then obtain held places sz where "(stem, held, places) \<in> set (ce_listing w)" "(n, sz) \<in> set held"
      by (rule found_entries_listed)
    with listing False have "present cs n \<and> \<not> endswith n CLAIM_SUFFIX" by (fastforce simp: listing_ok_def)
    with c2 show "present ?c2 n \<and> \<not> endswith n CLAIM_SUFFIX" by (simp add: same_files_def present_def)
  qed
  with c2 have c3: "store_ok ?c3" "same_files ?c2 ?c3" using foldl_index by blast+
  have c4: "store_ok ?c4" using c3 by (simp add: store_ok_def ledger_ok_def places_ok_def files_ok_def unheld_def present_def)
  have t: "trimmed ?c4 (fst (ensure_index w cs))"
    using False sweep_trimmed by (simp add: ensure_index_def sweep_orphans_def Let_def)
  have "cs_dir ?c4 = cs_dir cs" "cs_pending ?c4 = cs_pending cs" using c2 c3 by (simp_all add: same_files_def)
  with trimmed_store_ok [OF t c4] t trimmed_kept [OF t] trimmed_unheld [OF t] show ?thesis
    by (simp add: trimmed_def)
qed

lemma drop_unheld_ok:
  assumes ok: "store_ok cs" and listing: "\<not> cs_indexed cs \<Longrightarrow> listing_ok w cs"
  shows "store_ok (fst (drop_unheld w names cs)) \<and> cs_pending (fst (drop_unheld w names cs)) = cs_pending cs
    \<and> (cs_indexed cs \<longrightarrow> cs_indexed (fst (drop_unheld w names cs)))
    \<and> (names \<noteq> [] \<longrightarrow> cs_indexed (fst (drop_unheld w names cs)))"
proof (cases "names = []")
  case True
  with ok show ?thesis by (simp add: drop_unheld_def)
next
  case False
  let ?cs = "fst (ensure_index w cs)"
  have e: "store_ok ?cs" "cs_pending ?cs = cs_pending cs" "cs_indexed ?cs" using ensure_index_ok [OF assms] by simp_all
  have t: "trimmed ?cs (fst (drop_files w names ?cs))" by (rule drop_trimmed)
  have "fst (drop_unheld w names cs) = fst (drop_files w names ?cs)"
    using False by (simp add: drop_unheld_def split_def Let_def)
  with trimmed_store_ok [OF t e(1)] t e show ?thesis by (simp add: trimmed_def)
qed

subsection \<open>Writing\<close>

text \<open>The pack names a process makes are names of packs.\<close>

definition packs_named :: "chunk_env \<Rightarrow> bool" where
  "packs_named w = (\<forall>members. endswith (ce_pack_name w members) PACK_SUFFIX)"

lemma hold_stored_ok:
  assumes "store_ok cs" and "\<not> endswith name CLAIM_SUFFIX"
  shows "store_ok (fst (hold_stored w name cs)) \<and> cs_indexed (fst (hold_stored w name cs)) = cs_indexed cs \<and>
    cs_pending (fst (hold_stored w name cs)) =
      (if snd (hold_stored w name cs) = None then cs_pending cs else (cs_pending cs)(name := cs_pending cs name + 1))
    \<and> cs_places (fst (hold_stored w name cs)) = cs_places cs"
proof (cases "map_of (cs_dir cs) name")
  case None
  with assms show ?thesis by (simp add: hold_stored_def file_size_def pend_fields unpend_pend del: unpend.simps)
next
  case (Some f)
  with assms have "store_ok (pend name cs)" by (intro store_ok_pend) (simp_all add: present_def)
  with Some show ?thesis
    by (simp add: hold_stored_def file_size_def store_ok_note_own store_ok_touch store_simps)
qed

lemma hold_chunk_ok:
  assumes "store_ok cs" and "\<not> endswith name CLAIM_SUFFIX"
  shows "store_ok (fst (hold_chunk w name n cs)) \<and> cs_indexed (fst (hold_chunk w name n cs)) = cs_indexed cs \<and>
    (if snd (hold_chunk w name n cs) = None then cs_pending (fst (hold_chunk w name n cs)) = cs_pending cs
     else cs_pending (fst (hold_chunk w name n cs)) = (cs_pending cs)(name := cs_pending cs name + 1))"
proof (cases "map_of (cs_dir cs) name")
  case None
  with assms show ?thesis
    by (simp add: hold_chunk_def reuse_def pend_fields unpend_pend del: unpend.simps)
next
  case (Some f)
  with assms have ok: "store_ok (pend name cs)" by (intro store_ok_pend) (simp_all add: present_def)
  show ?thesis
  proof (cases "length (cf_data f) = n + TRAILER")
    case True
    with Some ok show ?thesis
      by (simp add: hold_chunk_def reuse_def store_ok_note_own store_ok_touch store_simps TRAILER_def)
  next
    case False
    with Some assms show ?thesis by (simp add: hold_chunk_def reuse_def pend_fields unpend_pend del: unpend.simps)
  qed
qed

lemma pack_places_name: "(d, p) \<in> set (pack_places name offset fresh) \<Longrightarrow> fst p = name"
  by (induction name offset fresh rule: pack_places.induct) auto

lemma store_ok_write_file: "store_ok cs \<Longrightarrow> store_ok (write_file now name data cs)"
proof (rule store_ok_trans [of cs])
  assume "store_ok cs"
  then show "places_ok (write_file now name data cs)" by (simp add: store_ok_def places_ok_def write_file_def)
next
  show "\<not> unheld (write_file now name data cs) n \<Longrightarrow> present cs n \<Longrightarrow> present (write_file now name data cs) n" for n
    by (simp add: present_write)
qed (simp_all add: write_file_def unheld_def)

lemma write_pack_ok:
  assumes ok: "store_ok cs" and "packs_named w"
  shows "store_ok (fst (write_pack w fresh cs)) \<and> cs_indexed (fst (write_pack w fresh cs)) = cs_indexed cs
    \<and> (case snd (write_pack w fresh cs) of
         None \<Rightarrow> cs_pending (fst (write_pack w fresh cs)) = cs_pending cs
       | Some (name, sz, added, placed) \<Rightarrow> name = ce_pack_name w (map fst fresh)
           \<and> cs_pending (fst (write_pack w fresh cs)) = (cs_pending cs)(name := cs_pending cs name + 1)
           \<and> present (fst (write_pack w fresh cs)) name)"
proof -
  let ?name = "ce_pack_name w (map fst fresh)"
  have pack: "endswith ?name PACK_SUFFIX" using assms(2) by (simp add: packs_named_def)
  show ?thesis
  proof (cases "ce_writable w")
    case False
    with ok show ?thesis by (simp add: write_pack_def Let_def unpend_pend pend_fields del: unpend.simps)
  next
    case True
    let ?written = "write_file (ce_now w) ?name (pack_bytes 0 fresh) cs"
    have swap: "write_file (ce_now w) ?name (pack_bytes 0 fresh) (pend ?name cs) = pend ?name ?written"
      by (simp add: write_file_def pend_def)
    have "store_ok (pend ?name ?written)"
      using store_ok_write_file [OF ok] pack_not_claim [OF pack]
      by (intro store_ok_pend) (simp_all add: present_write)
    then have "store_ok (learn ?name (pack_places ?name 0 fresh) (note_own ?name (pend ?name ?written)))"
      by (intro store_ok_learn) (auto simp: store_ok_note_own pack dest: pack_places_name)
    with True swap show ?thesis
      by (simp add: write_pack_def Let_def store_simps present_def) (simp add: write_file_def pend_def map_of_update)
  qed
qed

text \<open>Every file gathered so far is counted as held by the write, over what was pending before
  it (\<open>base\<close>).\<close>

definition counted :: "(string \<Rightarrow> nat) \<Rightarrow> (string \<times> int) list \<Rightarrow> chunk_store \<Rightarrow> bool" where
  "counted base files cs = (dict_ok files \<and> (\<forall>n. base n + (if n \<in> fst ` set files then 1 else 0) \<le> cs_pending cs n))"

lemma counted_add:
  assumes "counted base files cs" and "cs_pending cs' = (cs_pending cs)(name := cs_pending cs name + 1)"
  shows "counted base (AList.update name sz files) cs'"
  using assms by (auto simp: counted_def dict_ok_update dom_update split: if_splits dest: spec [of _ name])

lemma counted_same: "counted base files cs \<Longrightarrow> cs_pending cs' = cs_pending cs \<Longrightarrow> counted base files cs'"
  by (simp add: counted_def)

lemma use_place_ok:
  assumes "store_ok cs" and "endswith (fst p) PACK_SUFFIX" and "counted base (ga_files g) cs"
    and run: "use_place w p g cs = (cs', r)"
  shows "store_ok cs' \<and> cs_indexed cs' = cs_indexed cs
    \<and> counted base (case r of None \<Rightarrow> ga_files g | Some g' \<Rightarrow> ga_files g') cs'"
proof (cases "map_of (ga_files g) (fst p)")
  case None
  obtain cs1 r1 where hold: "hold_stored w (fst p) cs = (cs1, r1)" by force
  note ok = hold_stored_ok [OF assms(1) pack_not_claim [OF assms(2)], of w, unfolded hold]
  show ?thesis
  proof (cases r1)
    case None
    with run hold \<open>map_of (ga_files g) (fst p) = None\<close> have "cs' = forget (fst p) cs1" "r = None" by (auto simp: use_place_def Let_def)
    with ok None assms(3) show ?thesis by (auto simp: store_ok_forget forget_fields counted_def)
  next
    case (Some sz)
    with run hold \<open>map_of (ga_files g) (fst p) = None\<close>
    have "cs' = cs1" "r = Some (g\<lparr>ga_files := AList.update (fst p) sz (ga_files g)\<rparr>)" by (auto simp: use_place_def Let_def)
    with ok Some counted_add [OF assms(3), of cs1 "fst p" sz] show ?thesis by simp
  qed
next
  case (Some sz)
  with run assms show ?thesis by (auto simp: use_place_def Let_def)
qed

lemma use_chunk_ok:
  assumes "store_ok cs" and "counted base (ga_files g) cs" and run: "use_chunk w (chunk_name d) n g cs = (cs', g', r)"
  shows "store_ok cs' \<and> cs_indexed cs' = cs_indexed cs \<and> counted base (ga_files g') cs'"
proof (cases "cs_old_chunks cs \<and> map_of (ga_old_crcs g) (chunk_name d) = None")
  case True
  obtain cs1 r1 where hold: "hold_chunk w (chunk_name d) n cs = (cs1, r1)" by force
  note ok = hold_chunk_ok [OF assms(1) chunk_not_claim, of w d n, unfolded hold]
  show ?thesis
  proof (cases r1)
    case None
    with run hold True have "cs' = cs1" "g' = g" by (auto simp: use_chunk_def)
    with ok None assms(2) show ?thesis by (simp add: counted_same)
  next
    case (Some c)
    with run hold True have "cs' = cs1" "ga_files g' = AList.update (chunk_name d) (int n + int TRAILER) (ga_files g)"
      by (auto simp: use_chunk_def)
    with ok Some counted_add [OF assms(2), of cs1 "chunk_name d"] show ?thesis by simp
  qed
next
  case False
  with run assms show ?thesis by (auto simp: use_chunk_def split: option.splits if_splits)
qed

lemma gather_ok:
  assumes ok: "store_ok cs" and files: "counted base (ga_files g) cs" and run: "gather w i view d g cs = (cs', g')"
  shows "store_ok cs' \<and> cs_indexed cs' = cs_indexed cs \<and> counted base (ga_files g') cs'"
proof -
  let ?place = "case cs_places cs d of
           None \<Rightarrow> (cs, None)
         | Some p \<Rightarrow>
             if fst (snd (snd p)) \<noteq> int (length view) then (cs, None)
             else (case use_place w p g cs of
                 (cs1, None) \<Rightarrow> (cs1, None)
               | (cs1, Some g1) \<Rightarrow> (cs1, Some (g1\<lparr>
                     ga_refs := (ga_refs g1)[i := Some (d, snd (snd (snd p)))],
                     ga_places := AList.update (hex d) (place_meta p) (ga_places g1)\<rparr>)))"
  obtain cs1 stored where place: "?place = (cs1, stored)" by force
  have mid: "store_ok cs1 \<and> cs_indexed cs1 = cs_indexed cs
    \<and> counted base (case stored of None \<Rightarrow> ga_files g | Some g1 \<Rightarrow> ga_files g1) cs1"
  proof (cases "cs_places cs d")
    case None
    with place ok files show ?thesis by auto
  next
    case (Some p)
    then have "endswith (fst p) PACK_SUFFIX" using ok unfolding store_ok_def places_ok_def by blast
    note use = use_place_ok [OF ok this files, of w]
    obtain cs2 r where r: "use_place w p g cs = (cs2, r)" by force
    from use [OF r] r place Some ok files show ?thesis
      by (auto split: if_splits option.splits)
  qed
  show ?thesis
  proof (cases stored)
    case (Some g1)
    with run place have "cs' = cs1" "g' = g1" by (simp_all add: gather_def split_def)
    with mid Some show ?thesis by simp
  next
    case None
    obtain cs2 g2 c where chunk: "use_chunk w (chunk_name d) (length view) g cs1 = (cs2, g2, c)" by (metis prod_cases3)
    with run place None have "cs' = cs2" "ga_files g' = ga_files g2"
      by (auto simp: gather_def split: option.splits prod.splits)
    with use_chunk_ok [OF _ _ chunk, of base] mid None show ?thesis by simp
  qed
qed

lemma gather_all_ok:
  "store_ok cs \<Longrightarrow> counted base (ga_files g) cs \<Longrightarrow> gather_all w i views g cs = (cs', g') \<Longrightarrow>
     store_ok cs' \<and> cs_indexed cs' = cs_indexed cs \<and> counted base (ga_files g') cs'"
proof (induction views arbitrary: i g cs)
  case (Cons v views)
  obtain view known where v: "v = (view, known)" by (cases v)
  obtain cs1 g1 where "gather w i view (case known of None \<Rightarrow> ce_bulk_digest w view | Some d \<Rightarrow> d) g cs = (cs1, g1)" by force
  with gather_ok [OF Cons.prems(1,2) this] Cons.IH [of cs1 g1 "Suc i"] Cons.prems(3) v show ?case by simp
qed simp

lemma place_waiting_files: "ga_files (place_waiting written waiting g) = ga_files g"
  by (induction written waiting g rule: place_waiting.induct) (simp_all add: Let_def)

lemma counted_unpend:
  assumes "counted base files cs"
  shows "base n \<le> cs_pending (unpend (map fst files) cs) n"
proof -
  have "base n + (if n \<in> fst ` set files then 1 else 0) \<le> cs_pending cs n" "distinct (map fst files)"
    using assms by (simp_all add: counted_def)
  then show ?thesis by (auto simp: unpend_pending split: if_splits)
qed

lemma put_all_ok:
  assumes ok: "store_ok cs" and listing: "\<not> cs_indexed cs \<Longrightarrow> listing_ok w cs" and "packs_named w"
  shows "store_ok (fst (put_all w views cs)) \<and> cs_indexed (fst (put_all w views cs))
    \<and> (case snd (put_all w views cs) of
         None \<Rightarrow> \<forall>n. cs_pending cs n \<le> cs_pending (fst (put_all w views cs)) n
       | Some (refs, places, held, added) \<Rightarrow> counted (cs_pending cs) held (fst (put_all w views cs)))"
proof -
  let ?cs = "fst (ensure_index w cs)"
  let ?g = "\<lparr>ga_refs = replicate (length views) None, ga_places = [], ga_files = [],
                     ga_fresh = [], ga_waiting = [], ga_old_crcs = []\<rparr>"
  have e: "store_ok ?cs" "cs_pending ?cs = cs_pending cs" "cs_indexed ?cs" using ensure_index_ok [OF ok listing] by simp_all
  obtain cs1 g where all: "gather_all w 0 views ?g ?cs = (cs1, g)" by force
  have "counted (cs_pending cs) (ga_files ?g) ?cs" using e by (simp add: counted_def)
  from gather_all_ok [OF e(1) this all] e(3)
  have g: "store_ok cs1" "cs_indexed cs1" "counted (cs_pending cs) (ga_files g) cs1" by simp_all
  show ?thesis
  proof (cases "ga_fresh g = []")
    case True
    then have "put_all w views cs = (cs1, Some (ga_refs g, ga_places g, ga_files g, 0))"
      using all by (simp add: put_all_def split_def Let_def)
    with g show ?thesis by simp
  next
    case False
    obtain cs2 r where pack: "write_pack w (ga_fresh g) cs1 = (cs2, r)" by force
    note wp = write_pack_ok [OF g(1) assms(3), of "ga_fresh g", unfolded pack]
    show ?thesis
    proof (cases r)
      case None
      then have run: "put_all w views cs = (fst (abandon w (ga_files g) cs2), None)"
        using all False pack by (simp add: put_all_def split_def Let_def)
      have c2: "counted (cs_pending cs) (ga_files g) cs2" using wp None g(3) by (simp add: counted_same)
      have "store_ok (unpend (map fst (ga_files g)) cs2)" "cs_indexed (unpend (map fst (ga_files g)) cs2)"
        using wp g(2) by (simp_all add: store_ok_unpend unpend_fields)
      with drop_unheld_ok [OF this(1), of w "remdups (map fst (ga_files g))"] counted_unpend [OF c2]
      show ?thesis by (simp add: run abandon_def)
    next
      case (Some res)
      obtain name sz added placed where res: "res = (name, sz, added, placed)" by (cases res)
      then have run: "put_all w views cs = (cs2, Some (ga_refs (place_waiting placed (ga_waiting g) g),
            ga_places (place_waiting placed (ga_waiting g) g), AList.update name sz (ga_files g), added))"
        using all False pack Some by (simp add: put_all_def split_def Let_def place_waiting_files)
      have "counted (cs_pending cs) (AList.update name sz (ga_files g)) cs2"
        by (rule counted_add [OF g(3)]) (use wp Some res in simp)
      with wp Some res g(2) show ?thesis by (simp add: run)
    qed
  qed
qed

subsection \<open>Rewriting a pack\<close>

lemma repoint_ok:
  assumes ok: "store_ok cs" and new: "present cs (fst new)" "\<not> endswith (fst new) CLAIM_SUFFIX"
  shows "store_ok (fst (repoint w stem old new planned placed cs))
    \<and> cs_pending (fst (repoint w stem old new planned placed cs)) = cs_pending cs
    \<and> cs_dir (fst (repoint w stem old new planned placed cs)) = cs_dir cs
    \<and> cs_indexed (fst (repoint w stem old new planned placed cs)) = cs_indexed cs"
proof -
  have entries: "store_ok (cs\<lparr>cs_entries := x\<rparr>)" for x
    using ok by (simp add: store_ok_def ledger_ok_def places_ok_def files_ok_def unheld_def present_def)
  have placed_by: "store_ok (c\<lparr>cs_placed_by := x\<rparr>) = store_ok c" for c x
    by (simp add: store_ok_def ledger_ok_def places_ok_def files_ok_def unheld_def present_def)
  let ?held = "case cs_held_by cs stem of None \<Rightarrow> [] | Some h \<Rightarrow> h"
  have names: "present cs n \<and> \<not> endswith n CLAIM_SUFFIX" if "n \<in> set (List.insert (fst new) (removeAll old ?held))" for n
  proof (cases "n = fst new")
    case False
    with that have "n \<in> set ?held" by simp
    then have "stem \<in> set (cs_holders cs n)" using ok
      by (cases "cs_held_by cs stem") (auto simp: store_ok_def ledger_ok_def)
    then have "\<not> unheld cs n" by (auto simp: unheld_def)
    with ok show ?thesis by (simp add: store_ok_def files_ok_def)
  qed (use new in simp)
  have "store_ok (set_holder stem (List.insert (fst new) (removeAll old ?held)) ?held (cs\<lparr>cs_entries := x\<rparr>))" for x
    by (rule store_ok_set_holder [OF entries]) (use names in \<open>auto simp: present_def\<close>)
  with ok entries show ?thesis
    by (simp add: repoint_def Let_def split_def placed_by set_holder_fields split: option.split)
qed

lemma repoint_all_ok:
  assumes "store_ok cs" and "present cs (fst new)" "\<not> endswith (fst new) CLAIM_SUFFIX"
  shows "store_ok (fst (repoint_all w stems old new planned placed cs))
    \<and> cs_pending (fst (repoint_all w stems old new planned placed cs)) = cs_pending cs
    \<and> cs_indexed (fst (repoint_all w stems old new planned placed cs)) = cs_indexed cs"
  using assms(1,2)
proof (induction stems arbitrary: cs)
  case (Cons stem stems)
  let ?cs = "fst (repoint w stem old new planned placed cs)"
  have step: "store_ok ?cs" "cs_pending ?cs = cs_pending cs" "cs_dir ?cs = cs_dir cs" "cs_indexed ?cs = cs_indexed cs"
    using repoint_ok [OF Cons.prems(1,2) assms(3)] by simp_all
  with Cons.IH [of ?cs] Cons.prems(2) show ?case by (simp add: split_def Let_def present_def)
qed simp

lemma store_ok_size [simp]: "store_ok (cs\<lparr>cs_size := s\<rparr>) = store_ok cs"
  by (simp add: store_ok_def ledger_ok_def places_ok_def files_ok_def unheld_def present_def)

lemma rewrite_pack_ok:
  assumes ok: "store_ok cs" and ix: "cs_indexed cs" and "packs_named w"
  shows "store_ok (fst (rewrite_pack w name new_name live holders cs))
    \<and> cs_pending (fst (rewrite_pack w name new_name live holders cs)) = cs_pending cs
    \<and> cs_indexed (fst (rewrite_pack w name new_name live holders cs))"
proof -
  obtain planned sz where plan: "plan_places new_name 0 live = (planned, sz)" by force
  let ?read = "read_pack (ce_can_map w) (cs_dir cs) name
            (map (\<lambda>(i, (_, (_, offset, nbytes, c))). (i, offset, nat nbytes, c)) (enumerate 0 live))"
  show ?thesis
  proof (cases "list_ex (\<lambda>stem. moved_head (ce_dumps w) (ce_loads w) (cs_entries cs stem) name (new_name, int sz) planned = None) holders
      \<or> isl ?read")
    case True
    with ok ix plan show ?thesis by (auto simp: rewrite_pack_def isl_def)
  next
    case False
    then obtain data where data: "?read = Inr data" by (cases ?read) auto
    let ?fresh = "map (\<lambda>(i, (d, _)). (d, the (map_of data i))) (enumerate 0 live)"
    obtain cs1 r where pack: "write_pack w ?fresh cs = (cs1, r)" by force
    note wp = write_pack_ok [OF ok assms(3), of ?fresh, unfolded pack]
    show ?thesis
    proof (cases r)
      case None
      with wp ix False plan data pack show ?thesis by (simp add: rewrite_pack_def)
    next
      case (Some res)
      obtain nn ns added placed where res: "res = (nn, ns, added, placed)" by (cases res)
      have nn: "present cs1 nn" "\<not> endswith nn CLAIM_SUFFIX" "store_ok cs1" "cs_indexed cs1"
        "cs_pending cs1 = (cs_pending cs)(nn := cs_pending cs nn + 1)"
        using wp Some res ix assms(3) by (auto simp: packs_named_def dest: pack_not_claim)
      obtain cs2 moved where re: "repoint_all w holders name (nn, ns) planned placed cs1 = (cs2, moved)" by force
      have cs2: "store_ok cs2" "cs_pending cs2 = cs_pending cs1" "cs_indexed cs2"
        using repoint_all_ok [of cs1 "(nn, ns)" w holders name planned placed] nn re by simp_all
      let ?cs3 = "unpend [nn] (cs2\<lparr>cs_size := (cs_size cs2)(nn \<mapsto> ns)\<rparr>)"
      have cs3: "store_ok ?cs3" "cs_indexed ?cs3" "cs_pending ?cs3 = cs_pending cs"
        using cs2 nn by (simp_all add: store_ok_unpend unpend_fields del: unpend.simps) (simp add: fun_eq_iff)
      have drop: "store_ok (fst (drop_unheld w ns ?cs3)) \<and> cs_pending (fst (drop_unheld w ns ?cs3)) = cs_pending cs
          \<and> cs_indexed (fst (drop_unheld w ns ?cs3))" for ns
        using drop_unheld_ok [OF cs3(1), of w ns] cs3 by simp
      show ?thesis
        using False plan data pack Some res re cs3 drop [of "[nn]"] drop [of "[name]"]
        by (simp add: rewrite_pack_def Let_def split_def del: unpend.simps)
    qed
  qed
qed

lemma remove_claim_ok:
  assumes "store_ok cs"
  shows "store_ok (remove_file (name @ CLAIM_SUFFIX) cs)
    \<and> cs_pending (remove_file (name @ CLAIM_SUFFIX) cs) = cs_pending cs
    \<and> cs_indexed (remove_file (name @ CLAIM_SUFFIX) cs) = cs_indexed cs"
proof -
  have "unheld cs (name @ CLAIM_SUFFIX)" using assms claim_suffixed by (auto simp: store_ok_def files_ok_def)
  from trimmed_store_ok [OF trimmed_remove [OF this] assms] show ?thesis by (simp add: remove_file_def)
qed

lemma claim_ok:
  assumes "store_ok cs"
  shows "store_ok (fst (claim w name cs)) \<and> cs_pending (fst (claim w name cs)) = cs_pending cs
    \<and> cs_indexed (fst (claim w name cs)) = cs_indexed cs"
  using assms remove_claim_ok [OF assms, of name] store_ok_write_file [OF assms]
  by (simp add: claim_def Let_def split: option.split) (simp add: write_file_def)

lemma compact_one_ok:
  assumes ok: "store_ok cs" "cs_indexed cs" "packs_named w"
  shows "store_ok (fst (compact_one w name cs)) \<and> cs_pending (fst (compact_one w name cs)) = cs_pending cs
    \<and> cs_indexed (fst (compact_one w name cs))"
proof -
  obtain cs1 mine where claim: "claim w name cs = (cs1, mine)" by force
  have cs1: "store_ok cs1" "cs_pending cs1 = cs_pending cs" "cs_indexed cs1" using claim_ok [OF ok(1), of w name] claim ok(2) by simp_all
  have rw: "store_ok (fst (rewrite_pack w name nn live holders cs1)) \<and> cs_pending (fst (rewrite_pack w name nn live holders cs1)) = cs_pending cs
      \<and> cs_indexed (fst (rewrite_pack w name nn live holders cs1))" for nn live holders
    using rewrite_pack_ok [OF cs1(1,3) ok(3)] cs1(2) by simp
  show ?thesis
    using ok cs1 rw remove_claim_ok [of "fst (rewrite_pack w name nn live holders cs1)" name for nn live holders] claim
    by (auto simp: compact_one_def Let_def split_def split: bool.split)
qed

lemma compact_ok:
  "store_ok cs \<Longrightarrow> cs_indexed cs \<Longrightarrow> packs_named w \<Longrightarrow>
     store_ok (fst (compact w names cs)) \<and> cs_pending (fst (compact w names cs)) = cs_pending cs
     \<and> cs_indexed (fst (compact w names cs))"
proof (induction names arbitrary: cs)
  case (Cons name names)
  let ?cs = "fst (if endswith name PACK_SUFFIX then compact_one w name cs else (cs, 0))"
  have "store_ok ?cs" "cs_pending ?cs = cs_pending cs" "cs_indexed ?cs"
    using compact_one_ok [OF Cons.prems, of name] Cons.prems by simp_all
  with Cons.IH [of ?cs] Cons.prems(3) show ?case by (simp add: split_def Let_def)
qed simp

subsection \<open>Ends of writes and removals\<close>

lemma commit_ok:
  assumes ok: "store_ok cs" "cs_indexed cs" "packs_named w" and held: "counted base held cs"
  shows "store_ok (fst (commit w stem held replaced places cs)) \<and> cs_indexed (fst (commit w stem held replaced places cs))
    \<and> (\<forall>n. base n \<le> cs_pending (fst (commit w stem held replaced places cs)) n)"
proof -
  let ?names = "remdups (map fst held)"
  let ?c1 = "unpend (map fst held) (cs\<lparr>cs_size := cs_size cs ++ map_of (rev held)\<rparr>)"
  let ?before = "case cs_held_by ?c1 stem of Some b \<Rightarrow> b | None \<Rightarrow> remdups (map fst (case replaced of None \<Rightarrow> [] | Some r \<Rightarrow> r))"
  let ?c2 = "set_placed stem places (set_holder stem ?names ?before ?c1)"
  let ?gone = "filter (\<lambda>n. n \<notin> set ?names) ?before"
  let ?c3 = "fst (drop_unheld w ?gone ?c2)"
  have c1: "store_ok ?c1" using ok by (simp add: store_ok_unpend)
  have names: "present cs n \<and> \<not> endswith n CLAIM_SUFFIX" if "n \<in> set ?names" for n
  proof -
    have "base n + (if n \<in> fst ` set held then 1 else 0) \<le> cs_pending cs n" using held by (simp add: counted_def)
    with that have "base n + 1 \<le> cs_pending cs n" by simp
    then have "\<not> unheld cs n" by (simp add: unheld_def)
    with ok(1) show ?thesis by (simp add: store_ok_def files_ok_def)
  qed
  have "store_ok (set_holder stem ?names ?before ?c1)"
  proof (rule store_ok_set_holder [OF c1])
    show "set h \<subseteq> set ?before" if "cs_held_by ?c1 stem = Some h" for h using that by simp
    show "present ?c1 n \<and> \<not> endswith n CLAIM_SUFFIX" if "n \<in> set ?names" for n
      using names [OF that] by (simp add: present_def unpend_fields)
  qed
  then have "store_ok ?c2" by (simp only: store_ok_set_placed)
  moreover have "cs_indexed ?c2" using ok(2) by (simp add: store_simps)
  ultimately have c3: "store_ok ?c3" "cs_pending ?c3 = cs_pending ?c1" "cs_indexed ?c3"
    using drop_unheld_ok [of ?c2 w ?gone] by (simp_all add: store_simps)
  have "base n \<le> cs_pending ?c1 n" for n
    by (rule counted_unpend) (use held in \<open>simp add: counted_def\<close>)
  moreover have "fst (commit w stem held replaced places cs) = fst (compact w (?gone @ ?names) ?c3)"
    by (simp add: commit_def Let_def split_def)
  ultimately show ?thesis using compact_ok [OF c3(1,3) ok(3)] c3(2) by simp
qed

lemma release_ok:
  assumes ok: "store_ok cs" "packs_named w" and listing: "\<not> cs_indexed cs \<Longrightarrow> listing_ok w cs"
  shows "store_ok (fst (release w stem held cs)) \<and> (cs_indexed cs \<longrightarrow> cs_indexed (fst (release w stem held cs)))
    \<and> cs_pending (fst (release w stem held cs)) = cs_pending cs"
proof -
  let ?before = "case cs_held_by cs stem of Some b \<Rightarrow> b | None \<Rightarrow> remdups (map fst (case held of None \<Rightarrow> [] | Some h \<Rightarrow> h))"
  let ?c1 = "(set_holder stem [] ?before cs)\<lparr>cs_placed_by := AList.delete stem (cs_placed_by (set_holder stem [] ?before cs))\<rparr>"
  let ?c2 = "fst (drop_unheld w ?before ?c1)"
  have "store_ok (set_holder stem [] ?before cs)" by (rule store_ok_set_holder [OF ok(1)]) auto
  then have c1: "store_ok ?c1" by (simp add: store_ok_def ledger_ok_def places_ok_def files_ok_def unheld_def present_def)
  have "listing_ok w ?c1" if "\<not> cs_indexed ?c1"
    using listing that by (simp add: listing_ok_def present_def set_holder_fields)
  note d = drop_unheld_ok [OF c1 this, of ?before]
  have run: "fst (release w stem held cs) = fst (compact w ?before ?c2)" by (simp add: release_def Let_def split_def)
  show ?thesis
  proof (cases "?before = []")
    case True
    then have "fst (release w stem held cs) = ?c1" using run by (simp add: drop_unheld_def)
    with c1 show ?thesis by (simp add: set_holder_fields)
  next
    case False
    with d have "store_ok ?c2" "cs_indexed ?c2" "cs_pending ?c2 = cs_pending cs" by (simp_all add: set_holder_fields)
    with compact_ok [of ?c2 w ?before] ok(2) run show ?thesis by simp
  qed
qed

lemma abandon_ok:
  assumes ok: "store_ok cs" "cs_indexed cs" and held: "counted base held cs"
  shows "store_ok (fst (abandon w held cs)) \<and> cs_indexed (fst (abandon w held cs))
    \<and> (\<forall>n. base n \<le> cs_pending (fst (abandon w held cs)) n)"
  using drop_unheld_ok [OF store_ok_unpend [OF ok(1)], of "map fst held" w "remdups (map fst held)"] ok(2)
    counted_unpend [OF held] by (simp add: abandon_def unpend_fields)

lemma damaged_ok:
  assumes ok: "store_ok cs" and listing: "\<not> cs_indexed cs \<Longrightarrow> listing_ok w cs"
  shows "store_ok (fst (damaged w pack offset cs)) \<and> cs_indexed (fst (damaged w pack offset cs))
    \<and> cs_pending (fst (damaged w pack offset cs)) = cs_pending cs"
proof -
  let ?cs = "fst (ensure_index w cs)"
  have e: "store_ok ?cs" "cs_pending ?cs = cs_pending cs" "cs_indexed ?cs" using ensure_index_ok [OF assms] by simp_all
  have "store_ok (fst (damaged w pack offset cs))"
  proof (rule store_ok_trans [OF e(1)])
    show "places_ok (fst (damaged w pack offset cs))"
      using e(1) by (auto simp: store_ok_def places_ok_def damaged_def Let_def split_def split: option.splits if_splits) blast+
  qed (simp_all add: damaged_def Let_def split_def unheld_def present_def)
  with e show ?thesis by (simp add: damaged_def Let_def split_def)
qed

lemma clear_ok:
  assumes "\<forall>n. cs_pending cs n = 0"
  shows "store_ok (clear_store w cs)"
  using assms by (simp add: store_ok_def ledger_ok_def places_ok_def files_ok_def unheld_def clear_store_def)

subsection \<open>The store as a state machine\<close>

text \<open>
  A state is the store and the writes in flight, each by the files it holds. A step is a call
  of the store, with any environment: the buffers of an entry are stored, or fail to be; a
  write in flight lands or is abandoned; an entry is removed; a damaged chunk is reported;
  the cache is cleared while no write is in flight; another process adds or touches a file.
  What an environment must keep: pack names end as packs do, and the entries' metadata, where
  it is read, lists files that are there.
\<close>

type_synonym flights = "(string \<times> int) list list"

definition env_ok :: "chunk_env \<Rightarrow> chunk_store \<Rightarrow> bool" where
  "env_ok w cs = (packs_named w \<and> (\<not> cs_indexed cs \<longrightarrow> listing_ok w cs))"

inductive store_step :: "chunk_store \<times> flights \<Rightarrow> chunk_store \<times> flights \<Rightarrow> bool" where
  put: "env_ok w cs \<Longrightarrow> put_all w views cs = (cs', Some (refs, places, held, added)) \<Longrightarrow>
     store_step (cs, fl) (cs', held # fl)"
| put_failed: "env_ok w cs \<Longrightarrow> put_all w views cs = (cs', None) \<Longrightarrow> store_step (cs, fl) (cs', fl)"
| landed: "env_ok w cs \<Longrightarrow> held \<in> set fl \<Longrightarrow>
     store_step (cs, fl) (fst (commit w stem held replaced places cs), remove1 held fl)"
| abandoned: "env_ok w cs \<Longrightarrow> held \<in> set fl \<Longrightarrow> store_step (cs, fl) (fst (abandon w held cs), remove1 held fl)"
| removed: "env_ok w cs \<Longrightarrow> store_step (cs, fl) (fst (release w stem held cs), fl)"
| damage: "env_ok w cs \<Longrightarrow> store_step (cs, fl) (fst (damaged w pack offset cs), fl)"
| cleared: "\<forall>n. cs_pending cs n = 0 \<Longrightarrow> store_step (cs, []) (clear_store w cs, [])"
| other: "store_step (cs, fl) (write_file now name data cs, fl)"

inductive reachable :: "chunk_store \<times> flights \<Rightarrow> bool" where
  start: "reachable (init_store dir entries, [])"
| next_step: "reachable s \<Longrightarrow> store_step s s' \<Longrightarrow> reachable s'"

definition in_flight :: "flights \<Rightarrow> string \<Rightarrow> nat" where
  "in_flight fl n = length (filter (\<lambda>held. n \<in> fst ` set held) fl)"

definition machine_ok :: "chunk_store \<times> flights \<Rightarrow> bool" where
  "machine_ok s = (case s of (cs, fl) \<Rightarrow> store_ok cs \<and> (\<forall>n. in_flight fl n \<le> cs_pending cs n)
     \<and> (\<forall>held \<in> set fl. dict_ok held) \<and> (fl \<noteq> [] \<longrightarrow> cs_indexed cs))"

lemma in_flight_remove1:
  "held \<in> set fl \<Longrightarrow> in_flight fl n = in_flight (remove1 held fl) n + (if n \<in> fst ` set held then 1 else 0)"
proof (induction fl)
  case (Cons h fl)
  then show ?case by (cases "h = held") (simp_all add: in_flight_def)
qed simp

lemma machine_counted:
  assumes "machine_ok (cs, fl)" and "held \<in> set fl"
  shows "counted (in_flight (remove1 held fl)) held cs"
  using assms in_flight_remove1 [OF assms(2)] by (simp add: machine_ok_def counted_def)

lemma machine_ok_start: "machine_ok (init_store dir entries, [])"
  by (simp add: machine_ok_def store_ok_def ledger_ok_def places_ok_def files_ok_def unheld_def init_store_def in_flight_def)

lemma machine_okD:
  assumes "machine_ok (cs, fl)"
  shows "store_ok cs" "\<And>n. in_flight fl n \<le> cs_pending cs n" "\<And>held. held \<in> set fl \<Longrightarrow> dict_ok held"
    "\<And>held. held \<in> set fl \<Longrightarrow> cs_indexed cs"
  using assms by (auto simp: machine_ok_def)

lemma machine_okI:
  assumes "store_ok cs" "\<And>n. in_flight fl n \<le> cs_pending cs n" "\<And>held. held \<in> set fl \<Longrightarrow> dict_ok held"
    and "fl \<noteq> [] \<Longrightarrow> cs_indexed cs"
  shows "machine_ok (cs, fl)"
  using assms by (simp add: machine_ok_def)

lemma env_okD: "env_ok w cs \<Longrightarrow> packs_named w" "env_ok w cs \<Longrightarrow> \<not> cs_indexed cs \<Longrightarrow> listing_ok w cs"
  by (simp_all add: env_ok_def)

lemma machine_step: "store_step s s' \<Longrightarrow> machine_ok s \<Longrightarrow> machine_ok s'"
proof (induction rule: store_step.induct)
  case (put w cs views cs' refs places held added fl)
  note ok = machine_okD [OF put.prems] and env = env_okD [OF put.hyps(1)]
  have res: "store_ok cs'" "cs_indexed cs'" "counted (cs_pending cs) held cs'"
    using put_all_ok [OF ok(1) env(2,1), of views] put.hyps(2) by simp_all
  have "in_flight (held # fl) n \<le> cs_pending cs' n" for n
  proof -
    have "cs_pending cs n + (if n \<in> fst ` set held then 1 else 0) \<le> cs_pending cs' n" using res(3) by (simp add: counted_def)
    moreover have "in_flight (held # fl) n = in_flight fl n + (if n \<in> fst ` set held then 1 else 0)" by (simp add: in_flight_def)
    ultimately show ?thesis using ok(2) [of n] by linarith
  qed
  moreover have "dict_ok h" if "h \<in> set (held # fl)" for h using that ok(3) res(3) by (auto simp: counted_def)
  ultimately show ?case using res by (intro machine_okI)
next
  case (put_failed w cs views cs' fl)
  note ok = machine_okD [OF put_failed.prems] and env = env_okD [OF put_failed.hyps(1)]
  have "store_ok cs'" "cs_indexed cs'" and le: "\<And>n. cs_pending cs n \<le> cs_pending cs' n"
    using put_all_ok [OF ok(1) env(2,1), of views] put_failed.hyps(2) by simp_all
  with ok show ?case by (intro machine_okI) (auto intro: order_trans [OF ok(2) le])
next
  case (landed w cs held fl stem replaced places)
  note ok = machine_okD [OF landed.prems]
  show ?case
    using commit_ok [OF ok(1) ok(4) [OF landed.hyps(2)] env_okD(1) [OF landed.hyps(1)] machine_counted [OF landed.prems landed.hyps(2)]]
      ok(3) by (intro machine_okI) (auto dest: set_remove1_subset [THEN subsetD])
next
  case (abandoned w cs held fl)
  note ok = machine_okD [OF abandoned.prems]
  show ?case
    using abandon_ok [OF ok(1) ok(4) [OF abandoned.hyps(2)] machine_counted [OF abandoned.prems abandoned.hyps(2)]]
      ok(3) by (intro machine_okI) (auto dest: set_remove1_subset [THEN subsetD])
next
  case (removed w cs fl stem held)
  note ok = machine_okD [OF removed.prems] and env = env_okD [OF removed.hyps(1)]
  show ?case
    using release_ok [OF ok(1) env, of stem held] ok(2,3) removed.prems
    by (intro machine_okI) (simp_all add: machine_ok_def)
next
  case (damage w cs fl pack offset)
  note ok = machine_okD [OF damage.prems] and env = env_okD [OF damage.hyps(1)]
  show ?case using damaged_ok [OF ok(1) env(2), of pack offset] ok(2,3) by (intro machine_okI) simp_all
next
  case (cleared cs w)
  show ?case by (intro machine_okI clear_ok [OF cleared.hyps]) (simp_all add: in_flight_def)
next
  case (other cs fl now name data)
  note ok = machine_okD [OF other.prems]
  have "cs_pending (write_file now name data cs) = cs_pending cs" "cs_indexed (write_file now name data cs) = cs_indexed cs"
    by (simp_all add: write_file_def)
  with store_ok_write_file [OF ok(1)] ok(2,3) other.prems show ?case by (intro machine_okI) (simp_all add: machine_ok_def)
qed

lemma reachable_ok: "reachable s \<Longrightarrow> machine_ok s"
proof (induction rule: reachable.induct)
  case (start dir entries)
  show ?case by (rule machine_ok_start)
next
  case (next_step s s')
  then show ?case by (blast intro: machine_step)
qed


subsection \<open>A sample write\<close>

definition sample_world :: chunk_env where
  "sample_world = \<lparr>ce_now = 10, ce_bulk_digest = (\<lambda>_. [7]), ce_pack_name = (\<lambda>_. ''p.pack''), ce_dumps = sample_dumps,
     ce_loads = sample_loads [], ce_listing = [], ce_removable = (\<lambda>_. True), ce_writable = True, ce_can_map = False,
     ce_busy = (\<lambda>_. False), ce_landed = (\<lambda>_. None)\<rparr>"

definition sample_store :: chunk_store where
  "sample_store = fst (put_all sample_world [([1, 2], None)] (init_store [] Map.empty))"

lemma sample_put:
  "put_all sample_world [([1, 2], None)] (init_store [] Map.empty)
     = (sample_store, Some ([Some ([7], checksum [1, 2])], [(hex [7], (''p.pack'', 0, 2, hex (checksum [1, 2])))],
          [(''p.pack'', 6)], 6))"
  unfolding sample_store_def
  by (simp add: put_all_def ensure_index_def listed_sizes_def listed_places_def found_entries_def dict_of_def
      sweep_orphans_def init_store_def sample_world_def gather_def use_chunk_def write_pack_def file_size_def pend_def
      aligned_def PACK_ALIGN_def place_meta_def Let_def)


end
