(* ===== verification/Chunk_Round_Trip.thy ===== *)
theory Chunk_Round_Trip
  imports Chunk_Ledger
begin

text \<open>
  What is put in the chunk store comes back: after \<open>put_all\<close>, reading the buffers by the
  references and places it returned gives the buffers, whether each was written now, was in
  a pack already, or is in a chunk file from before packs.
\<close>

subsection \<open>Reads that succeed\<close>

definition stored_at :: "byte list \<Rightarrow> int \<Rightarrow> byte list \<Rightarrow> bool" where
  "stored_at fdata offset v = (0 \<le> offset \<and> offset mod int PACK_ALIGN = 0
     \<and> offset + int (length v) + int TRAILER \<le> int (length fdata) \<and> bytes_at fdata offset (length v) = v)"

definition member_stored :: "(nat \<Rightarrow> byte list) \<Rightarrow> byte list \<Rightarrow> pack_member \<Rightarrow> bool" where
  "member_stored val fdata m = (case m of (i, offset, n, c) \<Rightarrow>
     n = length (val i) \<and> c = checksum (val i) \<and> stored_at fdata offset (val i))"

lemma member_stored_fits: "member_stored val fdata m \<Longrightarrow> pack_member_fits (length fdata) m"
  by (auto simp: member_stored_def stored_at_def pack_member_fits_def)

text \<open>Members that start at the same offset have the same length.\<close>

definition no_clash :: "pack_member list \<Rightarrow> bool" where
  "no_clash ms = (\<forall>i offset n c i' n' c'. (i, offset, n, c) \<in> set ms \<longrightarrow> (i', offset, n', c') \<in> set ms \<longrightarrow> n = n')"

lemma read_members_succeeds:
  assumes "\<forall>m \<in> set ms. member_stored val fdata m" and "no_clash (prior @ ms)"
    and "\<And>offset src sz want. map_of first offset = Some (src, sz, want) \<Longrightarrow>
           (src, offset, sz, want) \<in> set prior \<and> want = checksum (bytes_at fdata offset sz)"
  shows "\<exists>out'. read_members False name fdata first out ms = Inr out'"
  using assms
proof (induction ms arbitrary: first out prior)
  case (Cons m ms)
  obtain i offset n c where m: "m = (i, offset, n, c)" by (cases m)
  have mine: "n = length (val i)" "c = checksum (val i)" "stored_at fdata offset (val i)"
    using Cons.prems(1) m by (simp_all add: member_stored_def)
  then have at_off: "bytes_at fdata offset n = val i" by (simp add: stored_at_def)
  have read: "read_into fdata (nat offset) n e = Inr (bytes_at fdata offset n)" for e :: chunk_error
    by (rule read_member_data [of fdata i offset n c]) (use Cons.prems(1) m member_stored_fits in force)
  have ms: "\<forall>m \<in> set ms. member_stored val fdata m" "no_clash ((prior @ [m]) @ ms)" using Cons.prems(1,2) by simp_all
  show ?case
  proof (cases "map_of first offset")
    case None
    have "\<exists>out'. read_members False name fdata (AList.update offset (i, n, c) first) (AList.update i (val i) out) ms = Inr out'"
      using Cons.prems(3) m mine at_off by (intro Cons.IH [OF ms]) (auto simp: map_of_update split: if_splits)
    with None m read at_off mine show ?thesis by simp
  next
    case (Some entry)
    obtain src sz want where entry: "entry = (src, sz, want)" by (cases entry)
    with Cons.prems(3) Some have old: "(src, offset, sz, want) \<in> set prior" "want = checksum (bytes_at fdata offset sz)" by blast+
    moreover have "(i, offset, n, c) \<in> set (prior @ m # ms)" "(src, offset, sz, want) \<in> set (prior @ m # ms)"
      using m old(1) by simp_all
    ultimately have "sz = n" using Cons.prems(2) unfolding no_clash_def by blast
    moreover have "\<exists>out'. read_members False name fdata first (AList.update i (the (map_of out src)) out) ms = Inr out'"
      using Cons.prems(3) by (intro Cons.IH [OF ms]) auto
    ultimately show ?thesis using Some entry m old mine at_off by simp
  qed
qed simp

lemma read_pack_succeeds:
  assumes "map_of dir name = Some f" and "\<forall>m \<in> set ms. member_stored val (cf_data f) m"
    and "no_clash ms" and "distinct (map fst ms)"
  shows "\<exists>found. read_pack can_map dir name ms = Inr found \<and> dict_ok found \<and> fst ` set found \<subseteq> fst ` set ms
    \<and> (\<forall>i \<in> fst ` set ms. map_of found i = Some (val i))"
proof -
  have fits: "\<forall>m \<in> set ms. pack_member_fits (length (cf_data f)) m" using assms(2) member_stored_fits by blast
  obtain found where run: "read_members False name (cf_data f) [] [] ms = Inr found"
    using read_members_succeeds [OF assms(2), of "[]" "[]"] assms(3) by auto
  have "(\<forall>(i, offset, n, crc) \<in> set ms. map_of found i = Some (bytes_at (cf_data f) offset n) \<and> checksum (bytes_at (cf_data f) offset n) = crc)"
    using read_members_found [OF run fits assms(4)] by simp
  with assms(2) have "\<forall>i \<in> fst ` set ms. map_of found i = Some (val i)"
    by (fastforce simp: member_stored_def stored_at_def)
  moreover have pack: "read_pack can_map dir name ms = Inr found" using read_pack_fits [OF assms(1) fits] run by simp
  ultimately show ?thesis using read_pack_found [OF pack assms(4)] by blast
qed

text \<open>What the two loops of \<open>read_chunks\<close> need of the folder: each file's members are stored in
  it.\<close>

definition packs_stored :: "(nat \<Rightarrow> byte list) \<Rightarrow> chunk_dir \<Rightarrow> (string \<times> pack_member list) list \<Rightarrow> bool" where
  "packs_stored val dir by_file = (\<forall>(name, ms) \<in> set by_file. no_clash ms \<and>
     (\<exists>f. map_of dir name = Some f \<and> (\<forall>m \<in> set ms. member_stored val (cf_data f) m)))"

lemma read_packs_succeeds:
  assumes "packs_stored val dir by_file" and "distinct (map fst (members_of by_file))"
  shows "\<exists>out'. read_packs can_map dir out by_file = Inr out'
    \<and> (\<forall>i. map_of out' i = (if i \<in> fst ` set (members_of by_file) then Some (val i) else map_of out i))"
  using assms
proof (induction by_file arbitrary: out)
  case (Cons x by_file)
  obtain name ms where x: "x = (name, ms)" by (cases x)
  obtain f where f: "map_of dir name = Some f" "\<forall>m \<in> set ms. member_stored val (cf_data f) m" "no_clash ms"
    using Cons.prems(1) x by (auto simp: packs_stored_def)
  have dist: "distinct (map fst ms)" "distinct (map fst (members_of by_file))"
    and disj: "fst ` set ms \<inter> fst ` set (members_of by_file) = {}" using Cons.prems(2) x by auto
  obtain found where found: "read_pack can_map dir name ms = Inr found" "dict_ok found" "fst ` set found \<subseteq> fst ` set ms"
    "\<forall>i \<in> fst ` set ms. map_of found i = Some (val i)"
    using read_pack_succeeds [OF f dist(1)] by blast
  let ?out = "AList.updates (map fst found) (map snd found) out"
  have rest: "packs_stored val dir by_file" using Cons.prems(1) by (simp add: packs_stored_def)
  obtain out' where out': "read_packs can_map dir ?out by_file = Inr out'"
    "\<forall>i. map_of out' i = (if i \<in> fst ` set (members_of by_file) then Some (val i) else map_of ?out i)"
    using Cons.IH [OF rest dist(2)] by blast
  have "map_of ?out i = (if i \<in> fst ` set ms then Some (val i) else map_of out i)" for i
  proof (cases "i \<in> fst ` set ms")
    case True
    then have "map_of found i = Some (val i)" using found(4) by blast
    with True found(2) show ?thesis by (simp add: map_of_updates_found map_add_def)
  next
    case False
    then have "map_of found i = None" using found(3) by (auto simp: map_of_eq_None_iff)
    with False found(2) show ?thesis by (simp add: map_of_updates_found map_add_def)
  qed
  with out' found(1) x disj show ?case by (auto simp del: set_concat)
qed simp

text \<open>A reference is good: the bytes it stands for are where the places say, or in the chunk file
  named by the digest.\<close>

definition ref_good ::
  "(nat \<Rightarrow> byte list) \<Rightarrow> chunk_dir \<Rightarrow> nat list \<Rightarrow> meta_places \<Rightarrow> nat \<times> digest \<times> crc \<Rightarrow> bool" where
  "ref_good val dir lengths places r = (case r of (i, d, c) \<Rightarrow>
     c = checksum (val i) \<and> lengths ! i = length (val i) \<and>
     (case map_of places (hex d) of
        None \<Rightarrow> map_option cf_data (map_of dir (chunk_name d)) = Some (val i @ checksum (val i))
      | Some (name, offset, n, _) \<Rightarrow> n = int (length (val i)) \<and> endswith name PACK_SUFFIX \<and> CHR ''/'' \<notin> set name
          \<and> (\<exists>f. map_of dir name = Some f \<and> stored_at (cf_data f) offset (val i))))"

text \<open>Two places at one offset of one pack are of one length.\<close>

definition places_apart :: "meta_places \<Rightarrow> bool" where
  "places_apart places = (\<forall>k name offset n c k' n' c'.
     map_of places k = Some (name, offset, n, c) \<longrightarrow> map_of places k' = Some (name, offset, n', c') \<longrightarrow> n = n')"

text \<open>Each collected member stands for a place of the entry.\<close>

definition from_places :: "meta_places \<Rightarrow> (string \<times> pack_member list) list \<Rightarrow> bool" where
  "from_places places by_file = (\<forall>name ms i offset n c. (name, ms) \<in> set by_file \<longrightarrow> (i, offset, n, c) \<in> set ms \<longrightarrow>
     (\<exists>k h. map_of places k = Some (name, offset, int n, h)))"

lemma from_places_clash:
  "from_places places by_file \<Longrightarrow> places_apart places \<Longrightarrow> (name, ms) \<in> set by_file \<Longrightarrow> no_clash ms"
  unfolding no_clash_def
proof (intro allI impI)
  assume src: "from_places places by_file" and apart: "places_apart places" and held: "(name, ms) \<in> set by_file"
  fix i offset n c i' n' c'
  assume m: "(i, offset, n, c) \<in> set ms" "(i', offset, n', c') \<in> set ms"
  obtain k h where "map_of places k = Some (name, offset, int n, h)"
    using src held m(1) unfolding from_places_def by meson
  moreover obtain k' h' where "map_of places k' = Some (name, offset, int n', h')"
    using src held m(2) unfolding from_places_def by meson
  ultimately have "int n = int n'" using apart unfolding places_apart_def by meson
  then show "n = n'" by simp
qed

lemma by_file_add_members:
  assumes "(name', ms') \<in> set (by_file_add name m by_file)" and "x \<in> set ms'"
  shows "(name' = name \<and> x = m) \<or> (\<exists>ms. (name', ms) \<in> set by_file \<and> x \<in> set ms)"
proof -
  let ?old = "case map_of by_file name of None \<Rightarrow> [] | Some ms \<Rightarrow> ms"
  have "(name', ms') = (name, ?old @ [m]) \<or> (name', ms') \<in> set by_file"
    using set_update [of name "?old @ [m]" by_file] assms(1) by (auto simp: by_file_add_def)
  with assms(2) show ?thesis by (auto split: option.splits dest: map_of_SomeD)
qed

definition packs_there :: "(nat \<Rightarrow> byte list) \<Rightarrow> chunk_dir \<Rightarrow> (string \<times> pack_member list) list \<Rightarrow> bool" where
  "packs_there val dir by_file = (\<forall>name ms. (name, ms) \<in> set by_file \<longrightarrow>
     (\<exists>f. map_of dir name = Some f \<and> (\<forall>m \<in> set ms. member_stored val (cf_data f) m)))"

lemma packs_there_add:
  assumes there: "packs_there val dir by_file" and f: "map_of dir name = Some f" "member_stored val (cf_data f) m"
  shows "packs_there val dir (by_file_add name m by_file)"
  unfolding packs_there_def
proof (intro allI impI)
  let ?old = "case map_of by_file name of None \<Rightarrow> [] | Some ms \<Rightarrow> ms"
  fix name' ms'
  assume "(name', ms') \<in> set (by_file_add name m by_file)"
  then consider "name' = name" "ms' = ?old @ [m]" | "(name', ms') \<in> set by_file"
    using set_update [of name "?old @ [m]" by_file] by (auto simp: by_file_add_def)
  then show "\<exists>f. map_of dir name' = Some f \<and> (\<forall>m \<in> set ms'. member_stored val (cf_data f) m)"
  proof cases
    case 1
    have "\<forall>x \<in> set ?old. member_stored val (cf_data f) x"
    proof (cases "map_of by_file name")
      case (Some ms)
      then have "(name, ms) \<in> set by_file" by (rule map_of_SomeD)
      then obtain f' where "map_of dir name = Some f'" "\<forall>x \<in> set ms. member_stored val (cf_data f') x"
        using there unfolding packs_there_def by blast
      with f(1) Some show ?thesis by simp
    qed simp
    with 1 f show ?thesis by simp
  next
    case 2
    with there show ?thesis by (simp add: packs_there_def)
  qed
qed

lemma from_places_add:
  assumes "from_places places by_file" and "map_of places k = Some (name, offset, int n, h)"
  shows "from_places places (by_file_add name (i, offset, n, c) by_file)"
  unfolding from_places_def
proof (intro allI impI)
  fix name' ms i' offset' n' c'
  assume "(name', ms) \<in> set (by_file_add name (i, offset, n, c) by_file)" "(i', offset', n', c') \<in> set ms"
  from by_file_add_members [OF this] show "\<exists>k h. map_of places k = Some (name', offset', int n', h)"
  proof (elim disjE exE conjE)
    assume "name' = name" "(i', offset', n', c') = (i, offset, n, c)"
    with assms(2) show ?thesis by auto
  next
    fix ms'
    assume "(name', ms') \<in> set by_file" "(i', offset', n', c') \<in> set ms'"
    with assms(1) show ?thesis unfolding from_places_def by blast
  qed
qed

lemma read_chunk_good:
  assumes "map_option cf_data (map_of dir (chunk_name d)) = Some (v @ checksum v)"
  shows "read_chunk can_map removable dir d (length v) (checksum v) = (dir, Inr v)"
  using assms by (auto simp: read_chunk_def Let_def read_into_def TRAILER_def)

definition unplaced :: "meta_places \<Rightarrow> digest \<Rightarrow> bool" where
  "unplaced places d = (map_of places (hex d) = None)"

lemma placed_ex:
  "\<not> unplaced places d \<Longrightarrow>
     (\<exists>d' c'. (j, d', c') \<in> set ((i, d, c) # wanted) \<and> unplaced places d')
       = (\<exists>d' c'. (j, d', c') \<in> set wanted \<and> unplaced places d')"
  by auto

lemma collect_chunks_succeeds:
  assumes "\<forall>r \<in> set wanted. ref_good val dir lengths places r" and "dict_ok by_file"
    and "from_places places by_file" and "packs_there val dir by_file" and "distinct (map fst wanted)"
  shows "\<exists>by_file' out'. collect_chunks can_map removable lengths (Some places) dir by_file out wanted = (dir, Inr (by_file', out'))
    \<and> dict_ok by_file' \<and> from_places places by_file' \<and> packs_there val dir by_file'
    \<and> mset (map fst (members_of by_file')) = mset (map fst (members_of by_file))
         + mset (map fst (filter (\<lambda>(i, d, c). \<not> unplaced places d) wanted))
    \<and> (\<forall>i. map_of out' i = (if \<exists>d c. (i, d, c) \<in> set wanted \<and> unplaced places d then Some (val i) else map_of out i))"
  using assms
proof (induction wanted arbitrary: by_file out)
  case (Cons r wanted)
  obtain i d c where r: "r = (i, d, c)" by (cases r)
  have good: "ref_good val dir lengths places (i, d, c)" and rest: "\<forall>r \<in> set wanted. ref_good val dir lengths places r"
    using Cons.prems(1) r by simp_all
  have dist: "distinct (map fst wanted)" and fresh: "\<And>d c. (i, d, c) \<notin> set wanted" using Cons.prems(5) r by force+
  show ?case
  proof (cases "map_of places (hex d)")
    case None
    with good have read: "read_chunk can_map removable dir d (lengths ! i) c = (dir, Inr (val i))"
      using read_chunk_good [of dir d "val i"] by (simp add: ref_good_def)
    have un: "unplaced places d" using None by (simp add: unplaced_def)
    from Cons.IH [OF rest Cons.prems(2,3,4) dist, of "AList.update i (val i) out"] obtain by' out' where
        run: "collect_chunks can_map removable lengths (Some places) dir by_file (AList.update i (val i) out) wanted = (dir, Inr (by', out'))"
      and inv: "dict_ok by'" "from_places places by'" "packs_there val dir by'"
      and ms: "mset (map fst (members_of by')) = mset (map fst (members_of by_file))
         + mset (map fst (filter (\<lambda>(i, d, c). \<not> unplaced places d) wanted))"
      and out': "\<And>j. map_of out' j = (if \<exists>d c. (j, d, c) \<in> set wanted \<and> unplaced places d then Some (val j)
          else map_of (AList.update i (val i) out) j)"
      by (elim exE conjE) (rule that, assumption+, blast)
    have "map_of out' j = (if \<exists>d c. (j, d, c) \<in> set (r # wanted) \<and> unplaced places d then Some (val j) else map_of out j)" for j
    proof (cases "j = i")
      case True
      with out' [of i] un r fresh show ?thesis by (auto simp: map_of_update)
    next
      case False
      then have "(\<exists>d c. (j, d, c) \<in> set (r # wanted) \<and> unplaced places d) \<longleftrightarrow> (\<exists>d c. (j, d, c) \<in> set wanted \<and> unplaced places d)"
        using r by auto
      moreover have "map_of (AList.update i (val i) out) j = map_of out j" using False by (simp add: map_of_update)
      ultimately show ?thesis using out' [of j] by presburger
    qed
    with run inv ms None read r un show ?thesis by simp
  next
    case (Some p)
    obtain name offset n h where p: "p = (name, offset, n, h)" by (cases p)
    from good Some p obtain f where n: "n = int (length (val i))" "lengths ! i = length (val i)" "c = checksum (val i)"
      and name: "endswith name PACK_SUFFIX" "CHR ''/'' \<notin> set name"
      and f: "map_of dir name = Some f" "stored_at (cf_data f) offset (val i)"
      by (auto simp: ref_good_def)
    let ?m = "(i, offset, length (val i), c)"
    let ?by = "by_file_add name ?m by_file"
    have "member_stored val (cf_data f) ?m" using f n by (simp add: member_stored_def)
    then have there: "packs_there val dir ?by" by (rule packs_there_add [OF Cons.prems(4) f(1)])
    have places: "from_places places ?by" using Some p n by (intro from_places_add [OF Cons.prems(3)]) simp
    have add: "mset (map fst (members_of ?by)) = add_mset i (mset (map fst (members_of by_file)))"
      by (simp only: mset_map mset_by_file_add [OF Cons.prems(2)] image_mset_add_mset fst_conv)
    have placed: "\<not> unplaced places d" using Some by (simp add: unplaced_def)
    from Cons.IH [OF rest dict_ok_by_file_add [OF Cons.prems(2)] places there dist, of out] obtain by' out' where
        run: "collect_chunks can_map removable lengths (Some places) dir ?by out wanted = (dir, Inr (by', out'))"
      and inv: "dict_ok by'" "from_places places by'" "packs_there val dir by'"
      and ms: "mset (map fst (members_of by')) = mset (map fst (members_of ?by))
         + mset (map fst (filter (\<lambda>(i, d, c). \<not> unplaced places d) wanted))"
      and out': "\<And>j. map_of out' j = (if \<exists>d c. (j, d, c) \<in> set wanted \<and> unplaced places d then Some (val j) else map_of out j)"
      by (elim exE conjE) (rule that, assumption+, blast)
    have "collect_chunks can_map removable lengths (Some places) dir by_file out (r # wanted) = (dir, Inr (by', out'))"
      using run Some p r n name by simp
    moreover have "mset (map fst (members_of by')) = mset (map fst (members_of by_file))
         + mset (map fst (filter (\<lambda>(i, d, c). \<not> unplaced places d) (r # wanted)))"
      using ms add placed r by simp
    moreover have "map_of out' j = (if \<exists>d c. (j, d, c) \<in> set (r # wanted) \<and> unplaced places d then Some (val j) else map_of out j)" for j
      unfolding r placed_ex [OF placed] by (rule out')
    ultimately show ?thesis using inv by blast
  qed
qed simp

lemma read_chunks_succeeds:
  assumes good: "\<forall>r \<in> set wanted. ref_good val dir lengths places r"
    and apart: "places_apart places" and dist: "distinct (map fst wanted)"
  shows "\<exists>out. read_chunks can_map removable dir wanted lengths (Some places) = (dir, Inr out)
    \<and> (\<forall>(i, d, c) \<in> set wanted. map_of out i = Some (val i))"
proof -
  have none: "dict_ok []" "from_places places []" "packs_there val dir []"
    by (simp_all add: from_places_def packs_there_def)
  from collect_chunks_succeeds [OF good none dist, where out = "[]" and can_map = can_map and removable = removable]
  obtain by_file out where
      run: "collect_chunks can_map removable lengths (Some places) dir [] [] wanted = (dir, Inr (by_file, out))"
    and inv: "from_places places by_file" "packs_there val dir by_file"
    and ms: "mset (map fst (members_of by_file)) = mset (map fst (filter (\<lambda>(i, d, c). \<not> unplaced places d) wanted))"
    and out: "\<And>j. map_of out j = (if \<exists>d c. (j, d, c) \<in> set wanted \<and> unplaced places d then Some (val j) else None)"
    by auto
  let ?placed = "filter (\<lambda>(i, d, c). \<not> unplaced places d) wanted"
  have dist': "distinct (map fst (members_of by_file))"
    using mset_eq_imp_distinct_iff [OF ms] distinct_map_filter [OF dist] by (rule iffD2)
  have stored: "packs_stored val dir by_file"
    using inv(2) from_places_clash [OF inv(1) apart] unfolding packs_stored_def packs_there_def by blast
  obtain out' where packs: "read_packs can_map dir out by_file = Inr out'"
    and vals: "\<forall>i. map_of out' i = (if i \<in> fst ` set (members_of by_file) then Some (val i) else map_of out i)"
    using read_packs_succeeds [OF stored dist', of can_map out] by (elim exE conjE)
  have keys: "fst ` set (members_of by_file) = fst ` set ?placed"
    using mset_eq_setD [OF ms] by (simp only: set_map)
  have "map_of out' i = Some (val i)" if "(i, d, c) \<in> set wanted" for i d c
  proof (cases "unplaced places d")
    case True
    then have "map_of out i = Some (val i)" using out that by auto
    with vals show ?thesis by simp
  next
    case False
    with that have "(i, d, c) \<in> set ?placed" by simp
    then have "i \<in> fst ` set ?placed" by (rule rev_image_eqI) simp
    with vals keys show ?thesis by simp
  qed
  with run packs show ?thesis by (auto simp: read_chunks_def)
qed

end
