(* ===== verification/Chunk_Put.thy ===== *)
theory Chunk_Put
  imports Chunk_Round_Trip
begin

text \<open>
  The write side of the chunk store's round trip: what gathering an entry's buffers decides
  for each buffer, where the buffers of a new pack are, and so that the references and
  places \<open>put_all\<close> returns read back as the buffers.
\<close>

subsection \<open>What gathering an entry's buffers does\<close>

text \<open>The bytes of the files, by name: touching a file, counting it as held and forgetting a
  pack leave them alone.\<close>

definition fdat :: "chunk_store \<Rightarrow> string \<Rightarrow> byte list option" where
  "fdat cs name = map_option cf_data (map_of (cs_dir cs) name)"

definition same_data :: "chunk_store \<Rightarrow> chunk_store \<Rightarrow> bool" where
  "same_data cs cs' = (fdat cs' = fdat cs \<and> cs_places cs' = cs_places cs \<and> cs_old_chunks cs' = cs_old_chunks cs)"

lemma fdat_cong: "cs_dir cs' = cs_dir cs \<Longrightarrow> fdat cs' = fdat cs"
  by (simp add: fdat_def fun_eq_iff)

lemma fdat_touch: "fdat (touch_file now name cs) = fdat cs"
proof
  fix x
  show "fdat (touch_file now name cs) x = fdat cs x"
    by (cases "map_of (cs_dir cs) x") (simp_all add: fdat_def touch_file_def map_of_touch)
qed

lemma fdat_steps [store_simps]:
  "fdat (pend name cs) = fdat cs" "fdat (note_own name cs) = fdat cs" "fdat (unpend names cs) = fdat cs"
  "fdat (forget name cs) = fdat cs" "fdat (learn name placed cs) = fdat cs" "fdat (touch_file now name cs) = fdat cs"
  by (rule fdat_cong, simp only: pend_fields note_own_fields forget_fields learn_fields unpend_fields)+ (rule fdat_touch)

lemma file_size_fdat: "file_size (cs_dir cs) name = map_option (int \<circ> length) (fdat cs name)"
  by (simp add: file_size_def fdat_def option.map_comp comp_def)

lemma hold_stored_data:
  "same_data cs (fst (hold_stored w name cs)) \<and> (snd (hold_stored w name cs) = None \<longleftrightarrow> fdat cs name = None)"
  by (cases "fdat cs name")
     (simp_all add: hold_stored_def same_data_def file_size_fdat Let_def store_simps unpend_pend del: unpend.simps)

lemma reuse_data:
  "same_data cs (fst (reuse w name n cs)) \<and>
     snd (reuse w name n cs) = (case fdat cs name of
         None \<Rightarrow> None
       | Some f \<Rightarrow> if length f = n + TRAILER then Some (drop n f) else None)"
  by (cases "map_of (cs_dir cs) name")
     (auto simp: reuse_def same_data_def store_simps Let_def fdat_def [of cs])

lemma hold_chunk_data:
  "same_data cs (fst (hold_chunk w name n cs)) \<and>
     snd (hold_chunk w name n cs) = (case fdat cs name of
         None \<Rightarrow> None
       | Some f \<Rightarrow> if length f = n + TRAILER then Some (drop n f) else None)"
  using reuse_data [of "pend name cs" w name n]
  by (auto simp: hold_chunk_def same_data_def store_simps simp del: unpend.simps split: prod.split option.split)

text \<open>Where a buffer is before the write: its place in a pack that is there, or else the checksum
  at the end of its chunk file.\<close>

definition packed_at :: "chunk_store \<Rightarrow> digest \<Rightarrow> byte list \<Rightarrow> place option" where
  "packed_at c d v = (case cs_places c d of
       None \<Rightarrow> None
     | Some p \<Rightarrow> if fst (snd (snd p)) = int (length v) \<and> fdat c (fst p) \<noteq> None then Some p else None)"

definition old_at :: "chunk_store \<Rightarrow> digest \<Rightarrow> byte list \<Rightarrow> crc option" where
  "old_at c d v = (if \<not> cs_old_chunks c then None else case fdat c (chunk_name d) of
       None \<Rightarrow> None
     | Some f \<Rightarrow> if length f = length v + TRAILER then Some (drop (length v) f) else None)"

text \<open>The store while an entry's buffers are gathered: the files are as they were, and a place is
  forgotten only when its pack was not there.\<close>

definition behind :: "chunk_store \<Rightarrow> chunk_store \<Rightarrow> bool" where
  "behind c cs = (fdat cs = fdat c \<and> cs_old_chunks cs = cs_old_chunks c \<and>
     (\<forall>d. cs_places cs d = cs_places c d \<or> (cs_places cs d = None \<and> (\<forall>v. packed_at c d v = None))))"

definition held_there :: "chunk_store \<Rightarrow> gathered \<Rightarrow> bool" where
  "held_there c g = (\<forall>name. map_of (ga_files g) name \<noteq> None \<longrightarrow> fdat c name \<noteq> None)"

definition crcs_known :: "chunk_store \<Rightarrow> (digest \<times> byte list) set \<Rightarrow> gathered \<Rightarrow> bool" where
  "crcs_known c seen g = (\<forall>name h. map_of (ga_old_crcs g) name = Some h \<longrightarrow>
     (\<exists>(d, v) \<in> seen. name = chunk_name d \<and> old_at c d v = Some h))"

text \<open>What gathering one buffer adds, read off the store as it was.\<close>

definition settle :: "chunk_store \<Rightarrow> nat \<Rightarrow> byte list \<Rightarrow> digest \<Rightarrow> gathered \<Rightarrow> gathered" where
  "settle c i v d g = (case packed_at c d v of
       Some p \<Rightarrow> g\<lparr>ga_refs := (ga_refs g)[i := Some (d, snd (snd (snd p)))],
                   ga_places := AList.update (hex d) (place_meta p) (ga_places g)\<rparr>
     | None \<Rightarrow> (case old_at c d v of
           Some h \<Rightarrow> g\<lparr>ga_refs := (ga_refs g)[i := Some (d, h)]\<rparr>
         | None \<Rightarrow> g\<lparr>ga_fresh := (if map_of (ga_fresh g) d = None then ga_fresh g @ [(d, v)] else ga_fresh g),
                     ga_waiting := ga_waiting g @ [(i, d)]\<rparr>))"

definition same_gathered :: "gathered \<Rightarrow> gathered \<Rightarrow> bool" where
  "same_gathered g g' = (ga_refs g = ga_refs g' \<and> ga_places g = ga_places g' \<and> ga_fresh g = ga_fresh g' \<and> ga_waiting g = ga_waiting g')"

lemma settle_cong: "same_gathered g g' \<Longrightarrow> same_gathered (settle c i v d g) (settle c i v d g')"
  by (simp add: same_gathered_def settle_def split: option.split)

lemma behind_same: "behind c cs \<Longrightarrow> same_data cs cs' \<Longrightarrow> behind c cs'"
  by (simp add: behind_def same_data_def)

lemma behind_places:
  assumes "behind c cs"
  shows behind_Some: "cs_places cs d = Some p \<Longrightarrow> cs_places c d = Some p"
    and behind_None: "cs_places cs d = None \<Longrightarrow> packed_at c d v = None"
proof -
  from assms have "cs_places cs d = cs_places c d \<or> (cs_places cs d = None \<and> packed_at c d v = None)"
    unfolding behind_def by blast
  then show "cs_places cs d = Some p \<Longrightarrow> cs_places c d = Some p" "cs_places cs d = None \<Longrightarrow> packed_at c d v = None"
    by (auto simp: packed_at_def [where d = d])
qed

lemma use_place_behind:
  assumes "behind c cs" and "held_there c g" and "cs_places cs d = Some p"
  shows "behind c (fst (use_place w p g cs)) \<and>
    (case snd (use_place w p g cs) of
       None \<Rightarrow> fdat c (fst p) = None
     | Some g' \<Rightarrow> fdat c (fst p) \<noteq> None \<and> same_gathered g' g \<and> ga_old_crcs g' = ga_old_crcs g \<and> held_there c g')"
proof (cases "map_of (ga_files g) (fst p)")
  case (Some sz)
  with assms show ?thesis by (simp add: use_place_def held_there_def same_gathered_def)
next
  case None
  obtain cs1 r where h: "hold_stored w (fst p) cs = (cs1, r)" by force
  have data: "same_data cs cs1" "r = None \<longleftrightarrow> fdat c (fst p) = None"
    using hold_stored_data [of cs w "fst p"] h assms(1) by (simp_all add: behind_def)
  from behind_same [OF assms(1) data(1)] have b1: "behind c cs1" .
  show ?thesis
  proof (cases r)
    case None2: None
    have "behind c (forget (fst p) cs1)"
      unfolding behind_def
    proof (intro conjI allI)
      fix d'
      have "packed_at c d' v = None" if q: "cs_places cs1 d' = Some q" "fst q = fst p" for q v
      proof -
        have "cs_places c d' = Some q" by (rule behind_Some [OF b1 q(1)])
        with q(2) data(2) None2 show ?thesis by (simp add: packed_at_def)
      qed
      then show "cs_places (forget (fst p) cs1) d' = cs_places c d' \<or>
          cs_places (forget (fst p) cs1) d' = None \<and> (\<forall>v. packed_at c d' v = None)"
        using b1 [unfolded behind_def, THEN conjunct2, THEN conjunct2, THEN spec, of d']
        by (cases "cs_places cs1 d'"; cases "cs_places c d'") (auto simp: forget_def simp del: split_paired_All)
    qed (use b1 in \<open>simp_all add: behind_def store_simps\<close>)
    with None None2 h data show ?thesis by (simp add: use_place_def Let_def)
  next
    case (Some sz)
    with None h data b1 assms(2) show ?thesis
      by (auto simp: use_place_def Let_def same_gathered_def held_there_def map_of_update)
  qed
qed

lemma use_chunk_behind:
  assumes "behind c cs" and "held_there c g" and "crcs_known c seen g" and "\<And>v'. (d, v') \<in> seen \<Longrightarrow> v' = v"
  obtains cs' g' where "use_chunk w (chunk_name d) (length v) g cs = (cs', g', old_at c d v)"
    and "behind c cs'" and "held_there c g'" and "crcs_known c (insert (d, v) seen) g'" and "same_gathered g' g"
proof -
  have more_seen: "crcs_known c (insert (d, v) seen) g" using assms(3) unfolding crcs_known_def by blast
  have old: "cs_old_chunks cs = cs_old_chunks c" "fdat cs = fdat c" using assms(1) by (simp_all add: behind_def)
  consider "\<not> cs_old_chunks c" | h where "cs_old_chunks c" "map_of (ga_old_crcs g) (chunk_name d) = Some h"
    | "cs_old_chunks c" "map_of (ga_old_crcs g) (chunk_name d) = None" by fastforce
  then show thesis
  proof cases
    case 1
    then have "use_chunk w (chunk_name d) (length v) g cs = (cs, g, old_at c d v)"
      using old by (simp add: use_chunk_def old_at_def)
    then show thesis by (rule that) (use assms more_seen in \<open>simp_all add: same_gathered_def\<close>)
  next
    case (2 h)
    then obtain d' v' where "(d', v') \<in> seen" "chunk_name d = chunk_name d'" "old_at c d' v' = Some h"
      using assms(3) unfolding crcs_known_def by blast
    moreover from this have "d' = d" by (simp add: chunk_name_def hex_inj)
    ultimately have "old_at c d v = Some h" using assms(4) by blast
    with 2 have "use_chunk w (chunk_name d) (length v) g cs = (cs, g, old_at c d v)"
      using old by (simp add: use_chunk_def)
    then show thesis by (rule that) (use assms more_seen in \<open>simp_all add: same_gathered_def\<close>)
  next
    case 3
    obtain cs1 r where h: "hold_chunk w (chunk_name d) (length v) cs = (cs1, r)" by force
    have b1: "behind c cs1" and r: "r = old_at c d v"
      using hold_chunk_data [of cs w "chunk_name d" "length v"] h 3 old behind_same [OF assms(1), of cs1]
      by (simp_all add: old_at_def)
    show thesis
    proof (cases r)
      case None
      with 3 h r old have "use_chunk w (chunk_name d) (length v) g cs = (cs1, g, old_at c d v)" by (simp add: use_chunk_def)
      then show thesis by (rule that) (use assms more_seen b1 in \<open>simp_all add: same_gathered_def\<close>)
    next
      case (Some x)
      let ?g = "g\<lparr>ga_old_crcs := AList.update (chunk_name d) x (ga_old_crcs g),
        ga_files := AList.update (chunk_name d) (int (length v) + int TRAILER) (ga_files g)\<rparr>"
      have "use_chunk w (chunk_name d) (length v) g cs = (cs1, ?g, old_at c d v)"
        using 3 h [unfolded Some] old r [unfolded Some, symmetric] by (simp add: use_chunk_def)
      moreover have "fdat c (chunk_name d) \<noteq> None" using r Some by (auto simp: old_at_def split: if_splits option.splits)
      then have "held_there c ?g" using assms(2) by (simp add: held_there_def map_of_update)
      moreover have "crcs_known c (insert (d, v) seen) ?g"
        using more_seen r Some unfolding crcs_known_def by (auto simp: map_of_update)
      ultimately show thesis using b1 by (intro that [of cs1 ?g]) (simp_all add: same_gathered_def)
    qed
  qed
qed

lemma gather_settles:
  assumes "behind c cs" and "held_there c g" and "crcs_known c seen g" and "\<And>v'. (d, v') \<in> seen \<Longrightarrow> v' = v"
  obtains cs' g' where "gather w i v d g cs = (cs', g')" and "behind c cs'" and "held_there c g'"
    and "crcs_known c (insert (d, v) seen) g'" and "same_gathered g' (settle c i v d g)"
proof -
  have more_seen: "crcs_known c (insert (d, v) seen) g" using assms(3) unfolding crcs_known_def by blast
  note goal = that
  have missed: thesis if none: "packed_at c d v = None" and b1: "behind c cs1"
    and run: "gather w i v d g cs = (case use_chunk w (chunk_name d) (length v) g cs1 of
           (cs2, g2, Some c) \<Rightarrow> (cs2, g2\<lparr>ga_refs := (ga_refs g2)[i := Some (d, c)]\<rparr>)
         | (cs2, g2, None) \<Rightarrow> (cs2, g2\<lparr>
               ga_fresh := (if map_of (ga_fresh g2) d = None then ga_fresh g2 @ [(d, v)] else ga_fresh g2),
               ga_waiting := ga_waiting g2 @ [(i, d)]\<rparr>))" for cs1
  proof -
    obtain cs2 g2 where u: "use_chunk w (chunk_name d) (length v) g cs1 = (cs2, g2, old_at c d v)"
      "behind c cs2" "held_there c g2" "crcs_known c (insert (d, v) seen) g2" "same_gathered g2 g"
      using use_chunk_behind [OF b1 assms(2-4)] by blast
    show thesis
    proof (cases "old_at c d v")
      case None
      let ?g = "g2\<lparr>ga_fresh := (if map_of (ga_fresh g2) d = None then ga_fresh g2 @ [(d, v)] else ga_fresh g2),
               ga_waiting := ga_waiting g2 @ [(i, d)]\<rparr>"
      have "gather w i v d g cs = (cs2, ?g)" using run u(1) None by simp
      then show thesis
        by (rule goal) (use u none None in \<open>simp_all add: settle_def same_gathered_def held_there_def crcs_known_def\<close>)
    next
      case (Some h)
      let ?g = "g2\<lparr>ga_refs := (ga_refs g2)[i := Some (d, h)]\<rparr>"
      have "gather w i v d g cs = (cs2, ?g)" using run u(1) Some by simp
      then show thesis
        by (rule goal) (use u none Some in \<open>simp_all add: settle_def same_gathered_def held_there_def crcs_known_def\<close>)
    qed
  qed
  show thesis
  proof (cases "cs_places cs d")
    case None
    then have "packed_at c d v = None" by (rule behind_None [OF assms(1)])
    then show thesis by (rule missed [OF _ assms(1)]) (simp add: gather_def None)
  next
    case (Some p)
    then have c: "cs_places c d = Some p" by (rule behind_Some [OF assms(1)])
    show thesis
    proof (cases "fst (snd (snd p)) = int (length v)")
      case False
      with c have "packed_at c d v = None" by (simp add: packed_at_def)
      then show thesis by (rule missed [OF _ assms(1)]) (simp add: gather_def Some False)
    next
      case True
      obtain cs1 r where u: "use_place w p g cs = (cs1, r)" by force
      note place = use_place_behind [OF assms(1,2) Some, of w, unfolded u, simplified]
      show thesis
      proof (cases r)
        case None
        with place c have "packed_at c d v = None" "behind c cs1" by (simp_all add: packed_at_def)
        then show thesis by (rule missed) (simp add: gather_def Some True u None)
      next
        case (Some g1)
        let ?g = "g1\<lparr>ga_refs := (ga_refs g1)[i := Some (d, snd (snd (snd p)))],
          ga_places := AList.update (hex d) (place_meta p) (ga_places g1)\<rparr>"
        have "packed_at c d v = Some p" using place Some c True by (simp add: packed_at_def)
        moreover have "gather w i v d g cs = (cs1, ?g)" using \<open>cs_places cs d = Some p\<close> True u Some by (simp add: gather_def)
        ultimately show thesis
          using place Some more_seen
          by (intro goal [of cs1 ?g]) (simp_all add: settle_def same_gathered_def held_there_def crcs_known_def)
      qed
    qed
  qed
qed

text \<open>All the buffers, each with the digest it goes by.\<close>

definition digest_of :: "chunk_env \<Rightarrow> byte list \<times> digest option \<Rightarrow> digest" where
  "digest_of w x = (case snd x of None \<Rightarrow> ce_bulk_digest w (fst x) | Some d \<Rightarrow> d)"

definition digested :: "chunk_env \<Rightarrow> (byte list \<times> digest option) list \<Rightarrow> (digest \<times> byte list) list" where
  "digested w views = map (\<lambda>x. (digest_of w x, fst x)) views"

text \<open>No two buffers that differ go by one digest.\<close>

definition agree :: "(digest \<times> byte list) set \<Rightarrow> bool" where
  "agree seen = (\<forall>d v v'. (d, v) \<in> seen \<longrightarrow> (d, v') \<in> seen \<longrightarrow> v = v')"

fun settle_all :: "chunk_store \<Rightarrow> nat \<Rightarrow> (digest \<times> byte list) list \<Rightarrow> gathered \<Rightarrow> gathered" where
  "settle_all c i [] g = g"
| "settle_all c i ((d, v) # rest) g = settle_all c (Suc i) rest (settle c i v d g)"

lemma settle_all_cong: "same_gathered g g' \<Longrightarrow> same_gathered (settle_all c i xs g) (settle_all c i xs g')"
proof (induction xs arbitrary: i g g')
  case (Cons x xs)
  obtain d v where "x = (d, v)" by (cases x)
  with Cons.IH [OF settle_cong [OF Cons.prems]] show ?case by simp
qed simp

lemma gather_all_settles:
  assumes "behind c cs" and "held_there c g" and "crcs_known c seen g" and "agree (seen \<union> set (digested w views))"
  shows "\<exists>cs' g'. gather_all w i views g cs = (cs', g') \<and> behind c cs' \<and> same_gathered g' (settle_all c i (digested w views) g)"
  using assms
proof (induction views arbitrary: i g cs seen)
  case Nil
  then show ?case by (simp add: digested_def same_gathered_def)
next
  case (Cons x views)
  obtain v k where x: "x = (v, k)" by (cases x)
  let ?d = "digest_of w x"
  have mine: "v' = v" if "(?d, v') \<in> seen" for v'
  proof -
    have "(?d, v) \<in> seen \<union> set (digested w (x # views))" using x by (simp add: digested_def)
    with that Cons.prems(4) show ?thesis unfolding agree_def by blast
  qed
  obtain cs1 g1 where step: "gather w i v ?d g cs = (cs1, g1)" "behind c cs1" "held_there c g1"
      "crcs_known c (insert (?d, v) seen) g1" "same_gathered g1 (settle c i v ?d g)"
    using gather_settles [OF Cons.prems(1-3) mine] by blast
  have "agree (insert (?d, v) seen \<union> set (digested w views))"
    using Cons.prems(4) x by (simp add: digested_def Un_insert_left Un_insert_right)
  from Cons.IH [OF step(2-4) this, of "Suc i"] obtain cs' g' where
      rest: "gather_all w (Suc i) views g1 cs1 = (cs', g')" "behind c cs'"
        "same_gathered g' (settle_all c (Suc i) (digested w views) g1)"
    by blast
  have "same_gathered g' (settle_all c i (digested w (x # views)) g)"
    using settle_all_cong [OF step(5), of c "Suc i" "digested w views"] rest(3) x
    by (simp add: same_gathered_def digested_def)
  moreover have "?d = (case k of None \<Rightarrow> ce_bulk_digest w v | Some d \<Rightarrow> d)" by (simp add: x digest_of_def split: option.split)
  then have "gather_all w i (x # views) g cs = (cs', g')" using step(1) rest(1) x by simp
  ultimately show ?case using rest(2) by blast
qed

text \<open>What is gathered once the first \<open>k\<close> buffers are: each has its reference, or waits for the
  pack to be written.\<close>

definition settled_one :: "chunk_store \<Rightarrow> gathered \<Rightarrow> nat \<Rightarrow> digest \<Rightarrow> byte list \<Rightarrow> bool" where
  "settled_one c g j d v = (case packed_at c d v of
       Some p \<Rightarrow> ga_refs g ! j = Some (d, snd (snd (snd p))) \<and> map_of (ga_places g) (hex d) = Some (place_meta p)
     | None \<Rightarrow> (case old_at c d v of
           Some h \<Rightarrow> ga_refs g ! j = Some (d, h)
         | None \<Rightarrow> (j, d) \<in> set (ga_waiting g) \<and> map_of (ga_fresh g) d = Some v))"

definition fresh_buffer :: "chunk_store \<Rightarrow> digest \<Rightarrow> byte list \<Rightarrow> bool" where
  "fresh_buffer c d v = (packed_at c d v = None \<and> old_at c d v = None)"

definition settled :: "chunk_store \<Rightarrow> (digest \<times> byte list) list \<Rightarrow> nat \<Rightarrow> gathered \<Rightarrow> bool" where
  "settled c xs k g = (length (ga_refs g) = length xs \<and> dict_ok (ga_fresh g) \<and>
     (\<forall>j < k. settled_one c g j (fst (xs ! j)) (snd (xs ! j))) \<and>
     (\<forall>h q. map_of (ga_places g) h = Some q \<longrightarrow> (\<exists>d v p. (d, v) \<in> set xs \<and> h = hex d \<and> packed_at c d v = Some p \<and> q = place_meta p)) \<and>
     (\<forall>d v. (d, v) \<in> set (ga_fresh g) \<longrightarrow> (d, v) \<in> set xs \<and> fresh_buffer c d v) \<and>
     (\<forall>j d. (j, d) \<in> set (ga_waiting g) \<longrightarrow> j < k \<and> d = fst (xs ! j) \<and> fresh_buffer c d (snd (xs ! j))))"

lemma settle_settled:
  assumes "settled c xs k g" and "k < length xs" and "agree (set xs)" and x: "xs ! k = (d, v)"
  shows "settled c xs (Suc k) (settle c k v d g)"
proof -
  from assms(1) have len: "length (ga_refs g) = length xs" and ok: "dict_ok (ga_fresh g)"
    and one: "\<And>j. j < k \<Longrightarrow> settled_one c g j (fst (xs ! j)) (snd (xs ! j))"
    and pl: "\<And>h q. map_of (ga_places g) h = Some q \<Longrightarrow>
      \<exists>d v p. (d, v) \<in> set xs \<and> h = hex d \<and> packed_at c d v = Some p \<and> q = place_meta p"
    and fr: "\<And>d v. (d, v) \<in> set (ga_fresh g) \<Longrightarrow> (d, v) \<in> set xs \<and> fresh_buffer c d v"
    and wa: "\<And>j d. (j, d) \<in> set (ga_waiting g) \<Longrightarrow> j < k \<and> d = fst (xs ! j) \<and> fresh_buffer c d (snd (xs ! j))"
    unfolding settled_def by blast+
  have here: "(d, v) \<in> set xs" using nth_mem [OF assms(2)] x by simp
  then have same: "v' = v" if "(d, v') \<in> set xs" for v' using that assms(3) unfolding agree_def by blast
  have sameat: "snd (xs ! j) = v" if "fst (xs ! j) = d" "j < k" for j
    using same [of "snd (xs ! j)"] nth_mem [of j xs] that assms(2) by (metis Suc_lessD less_trans_Suc prod.collapse)
  have fresh: "map_of (ga_fresh g) d = None \<or> map_of (ga_fresh g) d = Some v"
    using fr same by (cases "map_of (ga_fresh g) d") (auto dest: map_of_SomeD)
  let ?g = "settle c k v d g"
  have "settled_one c ?g j (fst (xs ! j)) (snd (xs ! j))" if "j < Suc k" for j
  proof (cases "j = k")
    case True
    then show ?thesis using x len assms(2) fresh
      by (cases "packed_at c d v"; cases "old_at c d v") (auto simp: settled_one_def settle_def map_of_update map_add_def)
  next
    case False
    with that have j: "j < k" by simp
    have eq: "settled_one c ?g j (fst (xs ! j)) (snd (xs ! j))" if "fst (xs ! j) = d"
      using one [OF j] False that sameat [OF that j] fresh
      by (cases "packed_at c d v"; cases "old_at c d v") (auto simp: settled_one_def settle_def map_of_update)
    have "settled_one c ?g j (fst (xs ! j)) (snd (xs ! j))" if "fst (xs ! j) \<noteq> d"
      using one [OF j] False that
      by (cases "packed_at c d v"; cases "old_at c d v"; cases "packed_at c (fst (xs ! j)) (snd (xs ! j))";
          cases "old_at c (fst (xs ! j)) (snd (xs ! j))")
         (simp_all add: settled_one_def settle_def map_of_update hex_inj map_add_def)
    with eq show ?thesis by blast
  qed
  moreover have "\<exists>d' v' p. (d', v') \<in> set xs \<and> h = hex d' \<and> packed_at c d' v' = Some p \<and> q = place_meta p"
    if q: "map_of (ga_places ?g) h = Some q" for h q
  proof (cases "packed_at c d v")
    case None
    then have "ga_places ?g = ga_places g" by (simp add: settle_def split: option.split)
    with q pl show ?thesis by simp
  next
    case (Some p)
    from Some q have "(if h = hex d then Some (place_meta p) else map_of (ga_places g) h) = Some q"
      by (simp add: settle_def map_of_update fun_upd_def)
    with pl here Some show ?thesis by (metis option.inject)
  qed
  moreover have "(d', v') \<in> set xs \<and> fresh_buffer c d' v'" if "(d', v') \<in> set (ga_fresh ?g)" for d' v'
    using that fr [of d' v'] here
    by (cases "packed_at c d v"; cases "old_at c d v") (auto simp: settle_def fresh_buffer_def split: if_splits)
  moreover have "j < Suc k \<and> d' = fst (xs ! j) \<and> fresh_buffer c d' (snd (xs ! j))" if "(j, d') \<in> set (ga_waiting ?g)" for j d'
    using that wa [of j d'] x by (cases "packed_at c d v"; cases "old_at c d v") (auto simp: settle_def fresh_buffer_def)
  moreover have "length (ga_refs ?g) = length xs" "dict_ok (ga_fresh ?g)"
    using len ok by (cases "packed_at c d v"; cases "old_at c d v"; auto simp: settle_def map_of_eq_None_iff)+
  ultimately show ?thesis unfolding settled_def by blast
qed

lemma settle_all_settled:
  assumes "settled c xs i g" and "agree (set xs)" and "i \<le> length xs"
  shows "settled c xs (length xs) (settle_all c i (drop i xs) g)"
  using assms
proof (induction "length xs - i" arbitrary: i g)
  case (Suc n)
  then have i: "i < length xs" by simp
  obtain d v where x: "xs ! i = (d, v)" by (cases "xs ! i")
  have "drop i xs = (d, v) # drop (Suc i) xs" using Cons_nth_drop_Suc [OF i] x by simp
  moreover have "settled c xs (length xs) (settle_all c (Suc i) (drop (Suc i) xs) (settle c i v d g))"
    by (rule Suc.hyps(1)) (use Suc i settle_settled [OF Suc.prems(1) i Suc.prems(2) x] in simp_all)
  ultimately show ?case by simp
qed simp

subsection \<open>Where the buffers of a new pack are\<close>

lemma aligned_aligns: "(n + aligned n) mod PACK_ALIGN = 0"
  using split_pad_aligns [of n] by (simp add: aligned_def split_pad_def PACK_ALIGN_def SPLIT_ALIGN_def)

lemma pack_place:
  assumes "dict_ok fresh" and "(d, v) \<in> set fresh"
  shows "\<exists>offset. map_of (pack_places name (length pre) fresh) d = Some (name, offset, int (length v), checksum v)
    \<and> int (length pre) \<le> offset \<and> stored_at (pre @ pack_bytes (length pre) fresh) offset v"
  using assms
proof (induction fresh arbitrary: pre)
  case (Cons x fresh)
  obtain d' v' where x: "x = (d', v')" by (cases x)
  let ?at = "length pre + aligned (length pre)"
  let ?pre = "pre @ zeros (aligned (length pre)) @ v' @ checksum v'"
  have pre: "length ?pre = ?at + length v' + TRAILER" by (simp add: TRAILER_def)
  show ?case
  proof (cases "d' = d")
    case True
    then have "v' = v" using Cons.prems x by (auto simp: rev_image_eqI)
    moreover have "stored_at (?pre @ pack_bytes (length ?pre) fresh) (int ?at) v'"
    proof -
      have "int ?at mod int PACK_ALIGN = 0" 
        using arg_cong [OF aligned_aligns [of "length pre"], of int] by (simp only: zmod_int of_nat_0)
      then show ?thesis by (simp add: stored_at_def bytes_at_def TRAILER_def)
    qed
    ultimately show ?thesis using True x pre by (simp add: add.assoc)
  next
    case False
    with Cons.prems x have "dict_ok fresh" "(d, v) \<in> set fresh" by simp_all
    from Cons.IH [OF this, of ?pre] obtain offset where
        "map_of (pack_places name (length ?pre) fresh) d = Some (name, offset, int (length v), checksum v)"
        "int (length ?pre) \<le> offset" "stored_at (?pre @ pack_bytes (length ?pre) fresh) offset v"
      by blast
    with False x pre show ?thesis by (simp add: add.assoc)
  qed
qed simp

lemma pack_places_from: "(d, name', offset, n, h) \<in> set (pack_places name at_off fresh) \<Longrightarrow> name' = name \<and> int at_off \<le> offset"
  by (induction fresh arbitrary: at_off) fastforce+

lemma pack_places_apart:
  "(d, name, offset, n, h) \<in> set (pack_places pack at_off fresh) \<Longrightarrow> (d', name, offset, n', h') \<in> set (pack_places pack at_off fresh) \<Longrightarrow> n = n'"
proof (induction fresh arbitrary: at_off)
  case (Cons x fresh)
  obtain dx vx where x: "x = (dx, vx)" by (cases x)
  let ?next = "at_off + aligned at_off + length vx + TRAILER"
  have far: "int (at_off + aligned at_off) < o'" if "(y, nm, o', k, c) \<in> set (pack_places pack ?next fresh)" for y nm o' k c
    using pack_places_from [OF that] by (simp add: TRAILER_def)
  from Cons.prems x Cons.IH [of ?next] show ?case by (auto dest: far)
qed simp

subsection \<open>The round trip\<close>

lemma place_waiting_refs:
  assumes "\<And>j d. (j, d) \<in> set waiting \<Longrightarrow> d = dig j" and "j < length (ga_refs g)"
  shows "ga_refs (place_waiting written waiting g) ! j =
    (if \<exists>d. (j, d) \<in> set waiting then Some (dig j, snd (snd (snd (the (map_of written (dig j)))))) else ga_refs g ! j)"
  using assms
proof (induction waiting arbitrary: g)
  case (Cons x waiting)
  obtain i d where x: "x = (i, d)" by (cases x)
  with Cons.prems have d: "d = dig i" by simp
  let ?g = "g\<lparr>ga_refs := (ga_refs g)[i := Some (d, snd (snd (snd (the (map_of written d)))))],
    ga_places := AList.update (hex d) (place_meta (the (map_of written d))) (ga_places g)\<rparr>"
  have "ga_refs (place_waiting written waiting ?g) ! j =
    (if \<exists>d. (j, d) \<in> set waiting then Some (dig j, snd (snd (snd (the (map_of written (dig j)))))) else ga_refs ?g ! j)"
    by (rule Cons.IH) (use Cons.prems in simp_all)
  with d x Cons.prems(2) show ?case by (auto simp: Let_def nth_list_update)
qed simp

lemma length_place_waiting: "length (ga_refs (place_waiting written waiting g)) = length (ga_refs g)"
  by (induction waiting arbitrary: g) (auto simp: Let_def)

lemma place_waiting_places:
  "map_of (ga_places (place_waiting written waiting g)) (hex d) =
    (if \<exists>j. (j, d) \<in> set waiting then Some (place_meta (the (map_of written d))) else map_of (ga_places g) (hex d))"
  by (induction waiting arbitrary: g) (auto simp: Let_def map_of_update hex_inj)

lemma place_waiting_keys:
  "map_of (ga_places (place_waiting written waiting g)) h = Some q \<Longrightarrow>
     map_of (ga_places g) h = Some q \<or> (\<exists>d j. h = hex d \<and> (j, d) \<in> set waiting)"
  by (induction waiting arbitrary: g) (fastforce simp: Let_def map_of_update split: if_splits)+

text \<open>What the store records of these buffers is right: a buffer found in a pack or in a chunk file
  is there, two places at one offset of a pack are of one length, and a buffer whose place is in
  the pack named for some members is one of them.\<close>

definition sound_for :: "chunk_env \<Rightarrow> (digest \<times> byte list) list \<Rightarrow> chunk_store \<Rightarrow> bool" where
  "sound_for w xs c = (agree (set xs) \<and> packs_named w \<and> (\<forall>members. CHR ''/'' \<notin> set (ce_pack_name w members)) \<and>
     (\<forall>d v name offset n h. (d, v) \<in> set xs \<longrightarrow> packed_at c d v = Some (name, offset, n, h) \<longrightarrow>
        endswith name PACK_SUFFIX \<and> CHR ''/'' \<notin> set name \<and> h = checksum v \<and> stored_at (the (fdat c name)) offset v \<and>
        (\<forall>members. name = ce_pack_name w members \<longrightarrow> d \<in> set members)) \<and>
     (\<forall>d v h. (d, v) \<in> set xs \<longrightarrow> old_at c d v = Some h \<longrightarrow> fdat c (chunk_name d) = Some (v @ checksum v)) \<and>
     (\<forall>d v d' v' name offset n h n' h'. (d, v) \<in> set xs \<longrightarrow> (d', v') \<in> set xs \<longrightarrow>
        packed_at c d v = Some (name, offset, n, h) \<longrightarrow> packed_at c d' v' = Some (name, offset, n', h') \<longrightarrow> n = n'))"

lemma packed_at_there: "packed_at c d v = Some (name, offset, n, h) \<Longrightarrow> n = int (length v) \<and> fdat c name \<noteq> None"
  by (auto simp: packed_at_def split: option.splits if_splits)

lemma chunk_not_pack: "\<not> endswith (chunk_name d) PACK_SUFFIX"
  by (auto simp: chunk_name_def CHUNK_SUFFIX_def PACK_SUFFIX_def endswith_def)

text \<open>The references and places once the pack, if one is needed, is written.\<close>

definition files_after :: "chunk_env \<Rightarrow> chunk_store \<Rightarrow> gathered \<Rightarrow> chunk_dir \<Rightarrow> bool" where
  "files_after w c g dir = (\<forall>name. map_option cf_data (map_of dir name) =
     (if ga_fresh g \<noteq> [] \<and> name = ce_pack_name w (map fst (ga_fresh g)) then Some (pack_bytes 0 (ga_fresh g)) else fdat c name))"

abbreviation new_places :: "chunk_env \<Rightarrow> gathered \<Rightarrow> (digest \<times> place) list" where
  "new_places w g \<equiv> pack_places (ce_pack_name w (map fst (ga_fresh g))) 0 (ga_fresh g)"

abbreviation completed :: "chunk_env \<Rightarrow> gathered \<Rightarrow> gathered" where
  "completed w g \<equiv> place_waiting (new_places w g) (ga_waiting g) g"

lemma new_place:
  assumes "settled c xs k g" and "map_of (ga_fresh g) d = Some v"
  shows "\<exists>offset. map_of (new_places w g) d = Some (ce_pack_name w (map fst (ga_fresh g)), offset, int (length v), checksum v)
    \<and> stored_at (pack_bytes 0 (ga_fresh g)) offset v"
proof -
  have "dict_ok (ga_fresh g)" using assms(1) unfolding settled_def by blast
  from pack_place [OF this map_of_SomeD [OF assms(2)], of _ "[]"] show ?thesis by fastforce
qed

text \<open>A buffer that was stored does not wait.\<close>

lemma stored_not_waiting:
  assumes "settled c xs k g" and "k \<le> length xs" and "agree (set xs)" and "(d, v) \<in> set xs" and "\<not> fresh_buffer c d v"
  shows "(i, d) \<notin> set (ga_waiting g)"
proof
  assume w: "(i, d) \<in> set (ga_waiting g)"
  then have i: "i < k" "d = fst (xs ! i)" "fresh_buffer c d (snd (xs ! i))" using assms(1) unfolding settled_def by blast+
  with assms(2) have "(d, snd (xs ! i)) \<in> set xs" using nth_mem [of i xs] by simp
  with assms(3,4) have "snd (xs ! i) = v" unfolding agree_def by blast
  with i(3) assms(5) show False by simp
qed

lemma pack_apart:
  assumes "settled c xs k g" and "sound_for w xs c" and "(d, v) \<in> set xs" and "packed_at c d v = Some (name, offset, n, h)"
  shows "name \<noteq> ce_pack_name w (map fst (ga_fresh g))"
proof
  assume "name = ce_pack_name w (map fst (ga_fresh g))"
  then have "d \<in> set (map fst (ga_fresh g))" using assms(2-4) unfolding sound_for_def by blast
  then obtain v' where "(d, v') \<in> set (ga_fresh g)" by auto
  then have "(d, v') \<in> set xs" "fresh_buffer c d v'" using assms(1) unfolding settled_def by blast+
  moreover have "agree (set xs)" using assms(2) unfolding sound_for_def by blast
  with assms(3) calculation(1) have "v' = v" unfolding agree_def by blast
  ultimately show False using assms(4) by (simp add: fresh_buffer_def)
qed

lemma completed_ref:
  assumes st: "settled c xs (length xs) g" and sound: "sound_for w xs c" and files: "files_after w c g dir"
    and j: "j < length xs"
  shows "\<exists>h. ga_refs (completed w g) ! j = Some (fst (xs ! j), h)
    \<and> ref_good (\<lambda>i. snd (xs ! i)) dir (map (length \<circ> snd) xs) (ga_places (completed w g)) (j, fst (xs ! j), h)"
proof -
  obtain d v where x: "xs ! j = (d, v)" by (cases "xs ! j")
  then have here: "(d, v) \<in> set xs" using nth_mem [OF j] by simp
  let ?pack = "ce_pack_name w (map fst (ga_fresh g))"
  have agree: "agree (set xs)" and named: "endswith ?pack PACK_SUFFIX" "CHR ''/'' \<notin> set ?pack"
    using sound by (simp_all add: sound_for_def packs_named_def)
  have one: "settled_one c g j d v" and len: "length (ga_refs g) = length xs"
    using st j x unfolding settled_def by fastforce+
  have dig: "d' = fst (xs ! i)" if "(i, d') \<in> set (ga_waiting g)" for i d' using st that unfolding settled_def by blast
  note refs = place_waiting_refs [of "ga_waiting g" "\<lambda>i. fst (xs ! i)" j g "new_places w g", OF dig, simplified len, OF _ j]
  note stays = stored_not_waiting [OF st le_refl agree here]
  consider p where "packed_at c d v = Some p" | h where "packed_at c d v = None" "old_at c d v = Some h"
    | "packed_at c d v = None" "old_at c d v = None" by fastforce
  then show ?thesis
  proof cases
    case (1 p)
    obtain name offset n h where p: "p = (name, offset, n, h)" by (cases p)
    have n: "n = int (length v)" "fdat c name \<noteq> None" using packed_at_there 1 p by blast+
    have s: "endswith name PACK_SUFFIX" "CHR ''/'' \<notin> set name" "h = checksum v" "stored_at (the (fdat c name)) offset v"
      using sound here 1 p unfolding sound_for_def by blast+
    have "name \<noteq> ?pack" using pack_apart [OF st sound here] 1 p by blast
    then obtain f where f: "map_of dir name = Some f" "fdat c name = Some (cf_data f)"
      using files n(2) unfolding files_after_def by (metis map_option_eq_Some option.exhaust)
    have wait: "(i, d) \<notin> set (ga_waiting g)" for i using stays 1 by (simp add: fresh_buffer_def)
    then have alone: "(j, d') \<notin> set (ga_waiting g)" for d' using dig [of j d'] x by auto
    have "map_of (ga_places (completed w g)) (hex d) = Some (place_meta p)"
      using one 1 wait by (simp add: settled_one_def place_waiting_places)
    moreover have "ga_refs (completed w g) ! j = Some (d, h)"
      using one 1 alone p x refs by (simp add: settled_one_def)
    ultimately show ?thesis using s n f p x j by (auto simp: ref_good_def place_meta_def)
  next
    case (2 h)
    have f: "fdat c (chunk_name d) = Some (v @ checksum v)" using sound here 2 unfolding sound_for_def by blast
    have h: "h = checksum v" using 2(2) f by (auto simp: old_at_def TRAILER_def split: if_splits)
    have wait: "(i, d) \<notin> set (ga_waiting g)" for i using stays 2 by (simp add: fresh_buffer_def)
    then have alone: "(j, d') \<notin> set (ga_waiting g)" for d' using dig [of j d'] x by auto
    have "map_of (ga_places g) (hex d) = None"
    proof (rule ccontr)
      assume "map_of (ga_places g) (hex d) \<noteq> None"
      then obtain d' v' p where "(d', v') \<in> set xs" "hex d = hex d'" "packed_at c d' v' = Some p"
        using st unfolding settled_def by blast
      with here agree 2 show False unfolding agree_def hex_inj by fastforce
    qed
    then have "map_of (ga_places (completed w g)) (hex d) = None" using wait by (simp add: place_waiting_places)
    moreover have "ga_refs (completed w g) ! j = Some (d, h)" using one 2 alone x refs by (simp add: settled_one_def)
    moreover have "chunk_name d \<noteq> ?pack" using chunk_not_pack named by metis
    then have "map_option cf_data (map_of dir (chunk_name d)) = Some (v @ checksum v)" using files f unfolding files_after_def by simp
    ultimately show ?thesis using h x j by (simp add: ref_good_def)
  next
    case 3
    then have wait: "(j, d) \<in> set (ga_waiting g)" and fr: "map_of (ga_fresh g) d = Some v" using one by (simp_all add: settled_one_def)
    then obtain offset where pl: "map_of (new_places w g) d = Some (?pack, offset, int (length v), checksum v)"
      and s: "stored_at (pack_bytes 0 (ga_fresh g)) offset v" using new_place [OF st fr] by blast
    have "ga_fresh g \<noteq> []" using fr by auto
    then obtain f where "map_of dir ?pack = Some f" "cf_data f = pack_bytes 0 (ga_fresh g)"
      using files [unfolded files_after_def, THEN spec, of ?pack] by auto
    moreover have "map_of (ga_places (completed w g)) (hex d) = Some (?pack, offset, int (length v), hex (checksum v))"
      using wait pl by (auto simp: place_waiting_places place_meta_def)
    moreover have "ga_refs (completed w g) ! j = Some (d, checksum v)" using wait refs pl x by auto
    ultimately show ?thesis using named s x j by (simp add: ref_good_def)
  qed
qed

lemma completed_places:
  assumes st: "settled c xs (length xs) g" and sound: "sound_for w xs c"
    and q: "map_of (ga_places (completed w g)) k = Some (name, offset, n, h)"
  shows "(\<exists>d v h'. (d, v) \<in> set xs \<and> packed_at c d v = Some (name, offset, n, h') \<and> name \<noteq> ce_pack_name w (map fst (ga_fresh g)))
    \<or> (\<exists>d h'. (d, name, offset, n, h') \<in> set (new_places w g) \<and> name = ce_pack_name w (map fst (ga_fresh g)))"
proof -
  let ?pack = "ce_pack_name w (map fst (ga_fresh g))"
  consider (old) "map_of (ga_places g) k = Some (name, offset, n, h)"
    | (new) d j where "k = hex d" "(j, d) \<in> set (ga_waiting g)"
    using place_waiting_keys [OF q] by blast
  then show ?thesis
  proof cases
    case old
    then obtain d v p where x: "(d, v) \<in> set xs" "packed_at c d v = Some p" "(name, offset, n, h) = place_meta p"
      using st unfolding settled_def by blast
    then obtain h' where p: "p = (name, offset, n, h')" by (auto simp: place_meta_def split: prod.splits)
    then have "name \<noteq> ?pack" using pack_apart [OF st sound x(1)] x(2) by blast
    with x p show ?thesis by blast
  next
    case (new d j)
    then have jd: "j < length xs" "d = fst (xs ! j)" "fresh_buffer c d (snd (xs ! j))" using st unfolding settled_def by blast+
    then have "settled_one c g j d (snd (xs ! j))" using st unfolding settled_def by blast
    with jd(3) have "map_of (ga_fresh g) d = Some (snd (xs ! j))" by (simp add: settled_one_def fresh_buffer_def)
    then obtain off' where pl: "map_of (new_places w g) d = Some (?pack, off', int (length (snd (xs ! j))), checksum (snd (xs ! j)))"
      using new_place [OF st] by blast
    moreover have "Some (name, offset, n, h) = Some (place_meta (the (map_of (new_places w g) d)))"
      using q new by (auto simp: place_waiting_places split: if_splits)
    ultimately show ?thesis by (auto simp: place_meta_def dest: map_of_SomeD)
  qed
qed

lemma completed_apart:
  assumes "settled c xs (length xs) g" and "sound_for w xs c"
  shows "places_apart (ga_places (completed w g))"
  unfolding places_apart_def
proof (intro allI impI)
  fix k name offset n h k' n' h'
  assume "map_of (ga_places (completed w g)) k = Some (name, offset, n, h)"
    and "map_of (ga_places (completed w g)) k' = Some (name, offset, n', h')"
  from this [THEN completed_places [OF assms]] show "n = n'"
  proof (elim disjE exE conjE)
    fix d v x d' v' x'
    assume "(d, v) \<in> set xs" "packed_at c d v = Some (name, offset, n, x)"
      "(d', v') \<in> set xs" "packed_at c d' v' = Some (name, offset, n', x')"
    with assms(2) show "n = n'" unfolding sound_for_def by blast
  qed (auto dest: pack_places_apart)
qed

text \<open>What \<open>put_all\<close> returns, read off what it gathered.\<close>

lemma settled_start: "settled c xs 0 \<lparr>ga_refs = replicate (length xs) None, ga_places = [], ga_files = [],
    ga_fresh = [], ga_waiting = [], ga_old_crcs = []\<rparr>"
  by (simp add: settled_def)

lemma settled_cong:
  assumes "same_gathered g g'" and "settled c xs k g'"
  shows "settled c xs k g"
proof -
  have "settled_one c g = settled_one c g'"
    using assms(1) by (simp add: settled_one_def same_gathered_def fun_eq_iff split: option.split)
  with assms show ?thesis by (simp add: settled_def same_gathered_def)
qed

lemma put_all_completes:
  assumes "put_all w views cs = (cs', Some (refs, places, held, added))" and "c = fst (ensure_index w cs)"
    and "agree (set (digested w views))"
  obtains g where "settled c (digested w views) (length views) g" and "refs = ga_refs (completed w g)"
    and "places = ga_places (completed w g)" and "files_after w c g (cs_dir cs')"
proof -
  let ?xs = "digested w views"
  let ?g0 = "\<lparr>ga_refs = replicate (length views) None, ga_places = [], ga_files = [],
    ga_fresh = [], ga_waiting = [], ga_old_crcs = []\<rparr>"
  have n: "length ?xs = length views" by (simp add: digested_def)
  have "behind c c" "held_there c ?g0" "crcs_known c {} ?g0" by (simp_all add: behind_def held_there_def crcs_known_def)
  from gather_all_settles [OF this, of w views 0] assms(3) obtain cs1 g where
      run: "gather_all w 0 views ?g0 c = (cs1, g)" and b: "behind c cs1" and sg: "same_gathered g (settle_all c 0 ?xs ?g0)"
    by auto
  have st: "settled c ?xs (length views) g"
    using settled_cong [OF sg] settle_all_settled [OF settled_start assms(3), of c] n by simp
  have each: "settled_one c g j (fst (?xs ! j)) (snd (?xs ! j))" if "j < length views" for j
    using st that unfolding settled_def by blast
  show thesis
  proof (cases "ga_fresh g = []")
    case True
    have "ga_waiting g = []"
    proof (rule ccontr)
      assume "ga_waiting g \<noteq> []"
      then obtain j d where "(j, d) \<in> set (ga_waiting g)" by (cases "ga_waiting g") auto
      then have "j < length views" "fresh_buffer c (fst (?xs ! j)) (snd (?xs ! j))" using st unfolding settled_def by blast+
      with each True show False by (fastforce simp: settled_one_def fresh_buffer_def)
    qed
    moreover have "refs = ga_refs g" "places = ga_places g" "cs' = cs1"
      using assms(1,2) run True by (simp_all add: put_all_def split_def)
    ultimately show thesis using b True by (intro that [OF st]) (simp_all add: files_after_def behind_def fdat_def fun_eq_iff)
  next
    case False
    show thesis
    proof (cases "ce_writable w")
      case True
      let ?pack = "ce_pack_name w (map fst (ga_fresh g))"
      have "refs = ga_refs (completed w g)" "places = ga_places (completed w g)"
        and cs': "cs' = learn ?pack (new_places w g) (note_own ?pack (write_file (ce_now w) ?pack (pack_bytes 0 (ga_fresh g)) (pend ?pack cs1)))"
        using assms(1,2) run False True by (simp_all add: put_all_def split_def write_pack_def Let_def)
      moreover have "files_after w c g (cs_dir cs')"
        using False b by (simp add: files_after_def cs' store_simps write_file_def map_of_update behind_def fdat_def fun_eq_iff)
      ultimately show thesis by (intro that [OF st])
    qed (use assms(1,2) run False in \<open>simp add: put_all_def split_def write_pack_def Let_def\<close>)
  qed
qed


lemma sample_index: "ensure_index sample_world (init_store [] Map.empty) = ((init_store [] Map.empty)\<lparr>cs_indexed_at := 10, cs_indexed := True\<rparr>, 0)"
  by (simp add: ensure_index_def listed_sizes_def listed_places_def found_entries_def dict_of_def sweep_orphans_def
      init_store_def sample_world_def)

lemma sample_sound: "sound_for sample_world (digested sample_world [([1, 2], None)]) (fst (ensure_index sample_world (init_store [] Map.empty)))"
  unfolding sample_index
  by (simp add: sound_for_def agree_def digested_def digest_of_def packed_at_def old_at_def init_store_def
      packs_named_def sample_world_def endswith_def PACK_SUFFIX_def)


end
