(* ===== verification/Cache_Dir.thy ===== *)
theory Cache_Dir
  imports Chunk_Store
begin

text \<open>
  The cache directory as a whole (\<open>src/cash/backends/cache_dir.py\<close>): which files in it are
  cash's, how many bytes its entries take, its format stamp, its temporary files and how a
  missing directory is made.

  A folder is the list of its files in the order a scan meets them; \<open>dir_env\<close> says what the
  operating system answers. The text of a stamp is a string; a byte of a file name is a
  character.
\<close>

record dir_file =
  df_data :: "byte list"
  df_mtime :: int
  df_ino :: nat

type_synonym folder = "(string \<times> dir_file) list"

record dir_env =
  de_now :: int
  de_scans :: bool
  de_stats :: "string \<Rightarrow> bool"
  de_removable :: "string \<Rightarrow> bool"
  de_writable :: bool
  de_readable :: "string \<Rightarrow> bool"
  de_fresh_ino :: nat

definition ENTRY_SUFFIX :: string where "ENTRY_SUFFIX = ''.entry''"
definition CACHE_FORMAT_VERSION :: int where "CACHE_FORMAT_VERSION = 9"
definition VERSION_FILENAME :: string where "VERSION_FILENAME = ''CACHE_VERSION''"
definition GITIGNORE_FILENAME :: string where "GITIGNORE_FILENAME = ''.gitignore''"
definition DB_FILENAME :: string where "DB_FILENAME = ''cache.db''"
definition ANALYTICS_DB_FILENAME :: string where "ANALYTICS_DB_FILENAME = ''analytics.db''"
definition KEYS_DIRNAME :: string where "KEYS_DIRNAME = ''.keys''"
definition CHUNK_DIRNAME :: string where "CHUNK_DIRNAME = ''chunks''"

definition SQLITE_COMPANIONS :: "string list" where
  "SQLITE_COMPANIONS = [''-wal'', ''-shm'', ''-journal'']"

definition CASH_FILE_NAMES :: "string list" where
  "CASH_FILE_NAMES =
     [VERSION_FILENAME, GITIGNORE_FILENAME, ''_rank.log'', ''_versions.log'', ''_evicted.log'', ''_miss_guard.json'',
      ''_loop_split.json'', ''_heavy_loops.json'', ''_compute_baselines.json'', ''_cash_keys.json'',
      ''_file_digests.log'', ''_file_versions.log'', ''_written_in_place.log'', ''_library_map.json'']
     @ concat (map (\<lambda>db. map (\<lambda>companion. db @ companion) ([] # SQLITE_COMPANIONS)) [DB_FILENAME, ANALYTICS_DB_FILENAME])"

subsection \<open>Text\<close>

definition startswith :: "string \<Rightarrow> string \<Rightarrow> bool" where
  "startswith s prefix = (take (length prefix) s = prefix)"

text \<open>\<open>s[:-n]\<close>, \<open>s.partition(c)\<close> and \<open>s.rpartition(c)\<close>: the third value is whether \<open>c\<close> was
  found.\<close>

definition cut_end :: "nat \<Rightarrow> string \<Rightarrow> string" where
  "cut_end n s = take (length s - n) s"

definition partition_at :: "char \<Rightarrow> string \<Rightarrow> string \<times> string \<times> bool" where
  "partition_at c s = (takeWhile (\<lambda>x. x \<noteq> c) s, drop 1 (dropWhile (\<lambda>x. x \<noteq> c) s), c \<in> set s)"

definition rpartition_at :: "char \<Rightarrow> string \<Rightarrow> string \<times> string \<times> bool" where
  "rpartition_at c s = (if c \<in> set s
     then (rev (drop 1 (dropWhile (\<lambda>x. x \<noteq> c) (rev s))), rev (takeWhile (\<lambda>x. x \<noteq> c) (rev s)), True)
     else ([], s, False))"

text \<open>\<open>str.isdigit\<close>: decimal digits and the superscripts of Latin-1.\<close>

definition isdigit_char :: "char \<Rightarrow> bool" where
  "isdigit_char c = (let n = of_char c :: nat in (48 \<le> n \<and> n \<le> 57) \<or> n \<in> {178, 179, 185})"

definition isdigit :: "string \<Rightarrow> bool" where
  "isdigit s = (s \<noteq> [] \<and> list_all isdigit_char s)"

fun split_on :: "char \<Rightarrow> string \<Rightarrow> string list" where
  "split_on c [] = [[]]"
| "split_on c (x # xs) = (if x = c then [] # split_on c xs
     else case split_on c xs of [] \<Rightarrow> [[x]] | part # parts \<Rightarrow> (x # part) # parts)"

subsection \<open>Whose file is it\<close>

text \<open>\<open>_is_temp_of\<close>: the \<open>while True\<close> loop drops one numeric suffix after another.\<close>

function strip_numbers :: "string \<Rightarrow> string" where
  "strip_numbers base = (case rpartition_at (CHR ''.'') base of
     (head, tail, dot) \<Rightarrow> if \<not> dot \<or> \<not> isdigit tail then base else strip_numbers head)"
  by pat_completeness auto

lemma rpartition_shorter: "rpartition_at c s = (head, tail, True) \<Longrightarrow> length head < length s"
proof -
  assume r: "rpartition_at c s = (head, tail, True)"
  then have c: "c \<in> set (rev s)" and head: "head = rev (drop 1 (dropWhile (\<lambda>x. x \<noteq> c) (rev s)))"
    by (auto simp: rpartition_at_def split: if_splits)
  have "dropWhile (\<lambda>x. x \<noteq> c) (rev s) \<noteq> []" using c by auto
  then have "length head < length (dropWhile (\<lambda>x. x \<noteq> c) (rev s))" using head by simp
  also have "\<dots> \<le> length s" using length_dropWhile_le [of "\<lambda>x. x \<noteq> c" "rev s"] by simp
  finally show ?thesis .
qed

termination strip_numbers
  by (relation "measure length") (auto dest: rpartition_shorter [OF sym])

definition is_temp_of :: "string \<Rightarrow> (string \<Rightarrow> bool) \<Rightarrow> bool" where
  "is_temp_of name owner = (endswith name ''.tmp'' \<and> owner (strip_numbers (cut_end 4 name)))"

definition is_cash_name :: "string \<Rightarrow> bool" where
  "is_cash_name name = (name \<in> set CASH_FILE_NAMES \<or> endswith name ENTRY_SUFFIX)"

definition is_cash_file :: "string \<Rightarrow> bool" where
  "is_cash_file relpath =
     (case split_on (CHR ''/'') (map (\<lambda>c. if c = CHR 0x5C then CHR ''/'' else c) relpath) of
        [folder, name] \<Rightarrow>
          if folder = KEYS_DIRNAME then endswith name ''.json'' \<or> is_temp_of name (\<lambda>base. endswith base ''.json'')
          else if folder = CHUNK_DIRNAME then endswith name CHUNK_SUFFIX \<or> endswith name PACK_SUFFIX \<or> endswith name CLAIM_SUFFIX
             \<or> (startswith name ''.tmp-'' \<and> endswith name ''.part'')
          else False
      | [name] \<Rightarrow> is_cash_name name \<or> is_temp_of name is_cash_name
          \<or> (startswith name ''.tmp-'' \<and> endswith name ''.part'') \<or> (startswith name ''.probe-'' \<and> endswith name ''.tmp'')
      | _ \<Rightarrow> False)"

subsection \<open>How many bytes\<close>

definition chunk_files :: "chunk_dir option \<Rightarrow> chunk_dir" where
  "chunk_files chunks = (case chunks of
       None \<Rightarrow> []
     | Some dir \<Rightarrow> filter (\<lambda>(name, _). endswith name CHUNK_SUFFIX \<or> endswith name PACK_SUFFIX) dir)"

definition entry_totals :: "dir_env \<Rightarrow> folder option \<Rightarrow> chunk_dir option \<Rightarrow> (nat \<times> int) option" where
  "entry_totals w files chunks = (
     let in_chunks = sum_list (map (\<lambda>(name, f). if de_stats w name then int (length (cf_data f)) else 0) (chunk_files chunks)) in
     case files of
       None \<Rightarrow> None
     | Some fs \<Rightarrow> if \<not> de_scans w then None else
         let found = filter (\<lambda>(name, _). endswith name ENTRY_SUFFIX \<and> de_stats w name) fs in
         Some (length found, in_chunks + sum_list (map (\<lambda>(_, f). int (length (df_data f))) found)))"

subsection \<open>Temporary files\<close>

text \<open>\<open>create_temp_file\<close>: the candidate names in the order they are drawn, at most
  \<open>_TEMP_NAME_ATTEMPTS\<close> of them. Only a name that is taken is tried again; a refused creation
  raises at once.\<close>

definition TEMP_NAME_ATTEMPTS :: nat where "TEMP_NAME_ATTEMPTS = 8"

datatype dir_error = FileExists | PermissionDenied | NotADirectory

fun try_names :: "dir_env \<Rightarrow> string list \<Rightarrow> folder \<Rightarrow> folder \<times> (dir_error + string)" where
  "try_names w [] fs = (fs, Inl FileExists)"
| "try_names w (name # names) fs =
     (if \<not> de_writable w then (fs, Inl PermissionDenied)
      else if map_of fs name \<noteq> None then try_names w names fs
      else (fs @ [(name, \<lparr>df_data = [], df_mtime = de_now w, df_ino = de_fresh_ino w\<rparr>)], Inr name))"

definition create_temp_file :: "dir_env \<Rightarrow> (nat \<Rightarrow> string) \<Rightarrow> string \<Rightarrow> string \<Rightarrow> folder \<Rightarrow> folder \<times> (dir_error + string)" where
  "create_temp_file w random prefix suffix fs =
     try_names w (map (\<lambda>i. prefix @ random i @ suffix) [0..<TEMP_NAME_ATTEMPTS]) fs"

text \<open>\<open>write_all\<close>: \<open>taken\<close> is how many of the bytes handed to it each \<open>os.write\<close> takes. The
  loop never ends when a write takes nothing.\<close>

partial_function (option) write_all :: "(byte list \<Rightarrow> nat) \<Rightarrow> byte list \<Rightarrow> byte list \<Rightarrow> byte list option" where
  "write_all taken view out = (if view = [] then Some out
     else write_all taken (drop (taken view) view) (out @ take (taken view) view))"

text \<open>A process a temporary file names: host tag and process number.\<close>

definition ORPHAN_TEMP_AGE :: int where "ORPHAN_TEMP_AGE = 24 * 3600 * 1000000000"

definition owned_temp_prefix :: "string \<Rightarrow> string \<Rightarrow> string" where
  "owned_temp_prefix host pid = ''.tmp-'' @ host @ ''.'' @ pid @ ''-''"

definition temp_owner :: "string \<Rightarrow> string \<times> string" where
  "temp_owner name = (
     let owner = fst (partition_at (CHR ''-'') (cut_end 5 (drop 5 name)));
         (tag, pid, _) = partition_at (CHR ''.'') owner in
     (tag, pid))"

definition is_part :: "string \<Rightarrow> bool" where
  "is_part name = (startswith name ''.tmp-'' \<and> endswith name ''.part'')"

definition orphan :: "dir_env \<Rightarrow> string \<Rightarrow> (string \<Rightarrow> bool) \<Rightarrow> string \<times> dir_file \<Rightarrow> bool" where
  "orphan w host alive e = (case e of (name, f) \<Rightarrow>
     is_part name \<and> (let (tag, pid) = temp_owner name in
       (tag = host \<and> isdigit pid \<and> \<not> alive pid) \<or> (de_stats w name \<and> ORPHAN_TEMP_AGE < de_now w - df_mtime f))
     \<and> de_removable w name)"

text \<open>Both directories, the entries' and the chunks'.\<close>

definition remove_orphan_temp_files ::
  "dir_env \<Rightarrow> string \<Rightarrow> (string \<Rightarrow> bool) \<Rightarrow> folder \<times> folder \<Rightarrow> (folder \<times> folder) \<times> nat" where
  "remove_orphan_temp_files w host alive dirs = (
     let kept = filter (\<lambda>e. \<not> orphan w host alive e); gone = filter (orphan w host alive) in
     ((kept (fst dirs), kept (snd dirs)), length (gone (fst dirs) @ gone (snd dirs))))"

subsection \<open>The format stamp\<close>

text \<open>The stamp file: its text (\<open>None\<close> when it cannot be read) and its identity, which is what
  another process compares. \<open>cd_stamp\<close> is \<open>None\<close> when there is no stamp.\<close>

record stamp_file =
  sf_text :: "string option"
  sf_token :: "int \<times> nat \<times> nat"

record stamp_state =
  cd_files :: "folder option"
  cd_chunks :: "chunk_dir option"
  cd_stamp :: "stamp_file option"
  cd_gitignore :: bool
  cd_written :: "(int \<times> nat \<times> nat) option"
  cd_writes :: nat

text \<open>\<open>int(text.strip())\<close> on what a stamp may hold: an optional sign and decimal digits, single
  underscores allowed between them.\<close>

definition is_space :: "char \<Rightarrow> bool" where
  "is_space c = (let n = of_char c :: nat in n = 32 \<or> (9 \<le> n \<and> n \<le> 13) \<or> (28 \<le> n \<and> n \<le> 31) \<or> n = 133 \<or> n = 160)"

definition strip_space :: "string \<Rightarrow> string" where
  "strip_space s = rev (dropWhile is_space (rev (dropWhile is_space s)))"

definition digit_value :: "char \<Rightarrow> nat option" where
  "digit_value c = (let n = of_char c :: nat in if 48 \<le> n \<and> n \<le> 57 then Some (n - 48) else None)"

fun read_digits :: "nat \<Rightarrow> string \<Rightarrow> nat option" where
  "read_digits acc [] = Some acc"
| "read_digits acc (c # cs) = (case digit_value c of
     Some v \<Rightarrow> read_digits (10 * acc + v) cs
   | None \<Rightarrow> if c = CHR ''_'' then (case cs of [] \<Rightarrow> None | d # ds \<Rightarrow>
         (case digit_value d of None \<Rightarrow> None | Some v \<Rightarrow> read_digits (10 * acc + v) ds))
       else None)"

definition read_nat :: "string \<Rightarrow> nat option" where
  "read_nat s = (case s of [] \<Rightarrow> None | c # cs \<Rightarrow> (case digit_value c of None \<Rightarrow> None | Some v \<Rightarrow> read_digits v cs))"

definition int_of_text :: "string \<Rightarrow> int option" where
  "int_of_text text = (case strip_space text of
       [] \<Rightarrow> None
     | c # cs \<Rightarrow> if c = CHR ''-'' then map_option (\<lambda>n. - int n) (read_nat cs)
                 else if c = CHR ''+'' then map_option int (read_nat cs)
                 else map_option int (read_nat (c # cs)))"

definition stamp_text :: string where "stamp_text = ''9''"

definition token :: "stamp_state \<Rightarrow> (int \<times> nat \<times> nat) option" where
  "token cd = map_option sf_token (cd_stamp cd)"

text \<open>\<open>write\<close> truncates an existing stamp, which keeps its inode, or makes a new file.\<close>

definition write_stamp :: "dir_env \<Rightarrow> stamp_state \<Rightarrow> stamp_state" where
  "write_stamp w cd = (if \<not> de_writable w then cd else
     let ino = (case cd_stamp cd of None \<Rightarrow> de_fresh_ino w | Some s \<Rightarrow> snd (snd (sf_token s)));
         cd = cd\<lparr>cd_stamp := Some \<lparr>sf_text = Some stamp_text, sf_token = (de_now w, length stamp_text, ino)\<rparr>\<rparr> in
     cd\<lparr>cd_written := token cd, cd_writes := cd_writes cd + 1\<rparr>)"

text \<open>\<open>bump\<close>: the same text in a new file renamed over the old one.\<close>

definition bump :: "dir_env \<Rightarrow> stamp_state \<Rightarrow> stamp_state" where
  "bump w cd = (case cd_stamp cd of
       None \<Rightarrow> cd
     | Some s \<Rightarrow> (case sf_text s of
           None \<Rightarrow> cd
         | Some text \<Rightarrow> if \<not> de_writable w then cd
             else cd\<lparr>cd_stamp := Some \<lparr>sf_text = Some text, sf_token = (de_now w, length text, de_fresh_ino w)\<rparr>\<rparr>))"

definition write_gitignore :: "dir_env \<Rightarrow> stamp_state \<Rightarrow> stamp_state" where
  "write_gitignore w cd = (if \<not> cd_gitignore cd \<and> de_writable w then cd\<lparr>cd_gitignore := True\<rparr> else cd)"

text \<open>\<open>recreate_cache_dir\<close>; \<open>Inl\<close> is what \<open>os.makedirs\<close> raises.\<close>

definition recreate_cache_dir :: "dir_env \<Rightarrow> dir_error option \<Rightarrow> stamp_state \<Rightarrow> dir_error + stamp_state \<times> bool" where
  "recreate_cache_dir w failed cd = (if cd_files cd \<noteq> None then Inr (cd, False) else
     case failed of
       Some e \<Rightarrow> Inl e
     | None \<Rightarrow>
         let cd = write_gitignore w (cd\<lparr>cd_files := Some [], cd_gitignore := False, cd_stamp := None\<rparr>) in
         Inr (if de_writable w
              then cd\<lparr>cd_stamp := Some \<lparr>sf_text = Some stamp_text, sf_token = (de_now w, length stamp_text, de_fresh_ino w)\<rparr>\<rparr>
              else cd, True))"

definition FORMAT_SAMPLE :: nat where "FORMAT_SAMPLE = 16"

text \<open>\<open>glob("*.entry")\<close>: no name that starts with a dot.\<close>

definition entry_files :: "folder \<Rightarrow> folder" where
  "entry_files fs = filter (\<lambda>(name, _). endswith name ENTRY_SUFFIX \<and> \<not> startswith name ''.'') fs"

definition entries_are_current :: "dir_env \<Rightarrow> folder \<Rightarrow> bool" where
  "entries_are_current w es = (es \<noteq> [] \<and>
     list_all (\<lambda>(name, f). de_readable w name \<and> take 4 (df_data f) \<in> set MAGICS) (take FORMAT_SAMPLE es))"

definition stored_version :: "stamp_state \<Rightarrow> int option" where
  "stored_version cd = (case cd_stamp cd of
       None \<Rightarrow> None
     | Some s \<Rightarrow> (case sf_text s of None \<Rightarrow> None | Some text \<Rightarrow> int_of_text text))"

definition check_stamp :: "dir_env \<Rightarrow> stamp_state \<Rightarrow> stamp_state" where
  "check_stamp w cd = (let stored = stored_version cd in
     if stored = Some CACHE_FORMAT_VERSION then cd
     else let fs = (case cd_files cd of None \<Rightarrow> [] | Some fs \<Rightarrow> fs);
              found = entry_files fs;
              stale = (if stored = None \<and> entries_are_current w found then [] else found);
              cd = (if stale = [] then cd else cd\<lparr>
                cd_files := map_option (filter (\<lambda>e. \<not> (e \<in> set stale \<and> de_removable w (fst e)))) (cd_files cd),
                cd_chunks := map_option (filter (\<lambda>e. \<not> (e \<in> set (chunk_files (cd_chunks cd)) \<and> de_removable w (fst e)))) (cd_chunks cd)\<rparr>)
          in write_stamp w cd)"

subsection \<open>Properties\<close>

text \<open>
  C39: a write to a file loses no byte and ends. However few of the bytes each \<open>os.write\<close>
  takes, as long as it takes at least one and no more than it was given, \<open>write_all\<close>
  returns, and what was written is exactly the data, in order, after what was there.\<close>

theorem write_all_ends:
  assumes "\<And>v. v \<noteq> [] \<Longrightarrow> 1 \<le> taken v \<and> taken v \<le> length v"
  shows "write_all taken view out = Some (out @ view)"
proof (induction "length view" arbitrary: view out rule: less_induct)
  case less
  show ?case
  proof (cases "view = []")
    case True
    then show ?thesis by (simp add: write_all.simps)
  next
    case False
    then have "length (drop (taken view) view) < length view" using assms [OF False] by simp
    from less [OF this, of "out @ take (taken view) view"] False show ?thesis by (subst write_all.simps) simp
  qed
qed

theorem write_all_ends_witness: "write_all (\<lambda>v. min 2 (length v)) [1, 2, 3] [9] = Some [9, 1, 2, 3]"
  using write_all_ends [of "\<lambda>v. min 2 (length v)" "[1, 2, 3]" "[9]"] by (simp add: Suc_le_eq)

lemma partition_append: "c \<notin> set xs \<Longrightarrow> partition_at c (xs @ c # ys) = (xs, ys, True)"
  by (induction xs) (auto simp: partition_at_def)

lemma temp_owner_owned:
  assumes "CHR ''-'' \<notin> set host" and "CHR ''-'' \<notin> set pid" and "CHR ''.'' \<notin> set host"
  shows "temp_owner (owned_temp_prefix host pid @ rnd @ ''.part'') = (host, pid)"
proof -
  have "cut_end 5 (drop 5 (owned_temp_prefix host pid @ rnd @ ''.part'')) = (host @ CHR ''.'' # pid) @ CHR ''-'' # rnd"
    by (simp add: owned_temp_prefix_def cut_end_def)
  moreover have "CHR ''-'' \<notin> set (host @ CHR ''.'' # pid)" using assms by simp
  ultimately show ?thesis using assms(3) by (simp add: temp_owner_def partition_append del: append_assoc)
qed

lemma digits_no_dash: "isdigit pid \<Longrightarrow> CHR ''-'' \<notin> set pid"
  by (auto simp: isdigit_def isdigit_char_def list_all_iff)

text \<open>
  Cleaning up after killed processes never takes a write in progress. A temporary file
  named after its process (\<open>owned_temp_prefix\<close>) stays in the folder as long as its
  process runs and wrote to it within a day, whichever machine looks; one of a process of this
  machine that no longer runs goes, in either directory, when it can be removed.\<close>

theorem temp_of_live_write_kept:
  assumes "isdigit pid" and "CHR ''-'' \<notin> set host" and "CHR ''.'' \<notin> set host"
    and "name = owned_temp_prefix host pid @ rnd @ ''.part''" and "(name, f) \<in> set (fst dirs) \<union> set (snd dirs)"
  shows "(alive pid \<and> de_now w - df_mtime f \<le> ORPHAN_TEMP_AGE \<longrightarrow>
      (let (kept, n) = remove_orphan_temp_files w here alive dirs in (name, f) \<in> set (fst kept) \<union> set (snd kept)))
    \<and> (\<not> alive pid \<and> de_removable w name \<longrightarrow>
      (let (kept, n) = remove_orphan_temp_files w host alive dirs in
         (name, f) \<notin> set (fst kept) \<union> set (snd kept) \<and> 0 < n))"
proof -
  have owner: "temp_owner name = (host, pid)"
    using assms temp_owner_owned [of host pid rnd] digits_no_dash by simp
  have "is_part name"
    using assms(4) by (simp add: is_part_def owned_temp_prefix_def startswith_def endswith_def)
  with owner assms(1,5) show ?thesis
    by (auto simp: remove_orphan_temp_files_def orphan_def Let_def filter_empty_conv)
qed

definition sample_dir_env :: dir_env where
  "sample_dir_env = \<lparr>de_now = 100, de_scans = True, de_stats = (\<lambda>_. True), de_removable = (\<lambda>_. True), de_writable = True,
     de_readable = (\<lambda>_. True), de_fresh_ino = 5\<rparr>"

theorem temp_of_live_write_kept_witness:
  "let f = (''.tmp-ab.17-x.part'', \<lparr>df_data = [], df_mtime = 90, df_ino = 1\<rparr>) in
     (let (kept, n) = remove_orphan_temp_files sample_dir_env ''zz'' (\<lambda>_. True) ([f], []) in f \<in> set (fst kept) \<union> set (snd kept)) \<and>
     (let (kept, n) = remove_orphan_temp_files sample_dir_env ''ab'' (\<lambda>_. False) ([f], []) in f \<notin> set (fst kept) \<union> set (snd kept) \<and> 0 < n)"
proof -
  have name: "''.tmp-ab.17-x.part'' = owned_temp_prefix ''ab'' ''17'' @ ''x'' @ ''.part''" by (simp add: owned_temp_prefix_def)
  have pid: "isdigit ''17''" by (simp add: isdigit_def isdigit_char_def)
  let ?f = "\<lparr>df_data = [], df_mtime = 90, df_ino = 1\<rparr>" and ?n = "''.tmp-ab.17-x.part''"
  note kept = temp_of_live_write_kept [OF pid _ _ name, of ?f "([(?n, ?f)], [])"]
  show ?thesis
    unfolding Let_def
    using kept [of "\<lambda>_. True" sample_dir_env "''zz''"] kept [of "\<lambda>_. False" sample_dir_env "''ab''"]
    by (simp add: sample_dir_env_def ORPHAN_TEMP_AGE_def)
qed

lemma stamp_text_version: "int_of_text stamp_text = Some CACHE_FORMAT_VERSION"
  by (simp add: int_of_text_def stamp_text_def strip_space_def is_space_def read_nat_def digit_value_def CACHE_FORMAT_VERSION_def)

lemma stored_after_write: "de_writable w \<Longrightarrow> stored_version (write_stamp w cd) = Some CACHE_FORMAT_VERSION"
  by (simp add: write_stamp_def stored_version_def stamp_text_version Let_def)

lemma write_stamp_files [simp]: "cd_files (write_stamp w cd) = cd_files cd" "cd_chunks (write_stamp w cd) = cd_chunks cd"
  by (simp_all add: write_stamp_def Let_def)



end
