(* ===== verification/Touched_Entries.thy ===== *)
theory Touched_Entries
  imports Entry_Format
begin

text \<open>
  What a file backend knows about the entries this process has touched
  (\<open>src/cash/backends/touched_entries.py\<close>): the metadata of the keys it read or wrote, the
  key of each path, the keys whose reads are not yet on disk, and the write each key's
  metadata came from. The backend and its evictor share this object.

  An entry identity and a \<open>stat\<close> signature are opaque here (\<open>'i\<close>): the code only compares
  them. The set of unflushed keys is a list without repetition, in the order they were added.
\<close>

type_synonym stat_sig = "nat \<times> int \<times> int"

record 'i touched =
  te_metadata :: "string \<rightharpoonup> stored_meta"
  te_keys :: "string \<rightharpoonup> string"
  te_unflushed :: "string list"
  te_origin :: "string \<rightharpoonup> 'i option \<times> stat_sig option"

definition te_init :: "'i touched" where
  "te_init = \<lparr>te_metadata = Map.empty, te_keys = Map.empty, te_unflushed = [], te_origin = Map.empty\<rparr>"

definition remember :: "string \<Rightarrow> string \<Rightarrow> stored_meta \<Rightarrow> 'i option \<Rightarrow> stat_sig option \<Rightarrow> 'i touched \<Rightarrow> 'i touched" where
  "remember key path m ident st t = t\<lparr>
     te_metadata := (te_metadata t)(key \<mapsto> m), te_keys := (te_keys t)(path \<mapsto> key),
     te_origin := (te_origin t)(key \<mapsto> (ident, st))\<rparr>"

definition te_identity :: "string \<Rightarrow> 'i touched \<Rightarrow> 'i option" where
  "te_identity key t = (case te_origin t key of None \<Rightarrow> None | Some (ident, _) \<Rightarrow> ident)"

definition stat_matches :: "string \<Rightarrow> stat_sig \<Rightarrow> 'i touched \<Rightarrow> bool" where
  "stat_matches key st t = (case te_origin t key of
       Some (_, Some st') \<Rightarrow> st' = st
     | _ \<Rightarrow> False)"

definition note_stat :: "string \<Rightarrow> stat_sig \<Rightarrow> 'i touched \<Rightarrow> 'i touched" where
  "note_stat key st t = (case te_origin t key of
       None \<Rightarrow> t
     | Some (ident, _) \<Rightarrow> t\<lparr>te_origin := (te_origin t)(key \<mapsto> (ident, Some st))\<rparr>)"

text \<open>The metadata as the file holds it, and the fields the rankings read.\<close>

definition te_stored :: "string \<Rightarrow> 'i touched \<Rightarrow> stored_meta option" where
  "te_stored key t = te_metadata t key"

definition te_meta :: "string option \<Rightarrow> 'i touched \<Rightarrow> entry_metadata option" where
  "te_meta key t = (case key of None \<Rightarrow> None | Some k \<Rightarrow> map_option entry_metadata.truncate (te_stored k t))"

definition key_for :: "string \<Rightarrow> 'i touched \<Rightarrow> string option" where
  "key_for path t = te_keys t path"

definition drop_metadata :: "string \<Rightarrow> 'i touched \<Rightarrow> 'i touched" where
  "drop_metadata key t = t\<lparr>te_metadata := (te_metadata t)(key := None), te_origin := (te_origin t)(key := None),
     te_unflushed := removeAll key (te_unflushed t)\<rparr>"

definition te_note_read :: "string \<Rightarrow> 'i touched \<Rightarrow> 'i touched" where
  "te_note_read key t = t\<lparr>te_unflushed := (if key \<in> set (te_unflushed t) then te_unflushed t else te_unflushed t @ [key])\<rparr>"

definition has_unflushed_read :: "string option \<Rightarrow> 'i touched \<Rightarrow> bool" where
  "has_unflushed_read key t = (case key of None \<Rightarrow> False | Some k \<Rightarrow> k \<in> set (te_unflushed t))"

definition take_unflushed :: "(string \<Rightarrow> bool) option \<Rightarrow> 'i touched \<Rightarrow> 'i touched \<times> string list" where
  "take_unflushed due t = (case due of
       None \<Rightarrow> (t\<lparr>te_unflushed := []\<rparr>, te_unflushed t)
     | Some d \<Rightarrow> (t\<lparr>te_unflushed := filter (\<lambda>k. \<not> d k) (te_unflushed t)\<rparr>, filter d (te_unflushed t)))"

definition te_forget :: "string option \<Rightarrow> string \<Rightarrow> 'i touched \<Rightarrow> 'i touched" where
  "te_forget key path t = (
     let t = (case key of None \<Rightarrow> t | Some k \<Rightarrow> t\<lparr>te_metadata := (te_metadata t)(k := None),
                te_origin := (te_origin t)(k := None), te_unflushed := removeAll k (te_unflushed t)\<rparr>)
     in t\<lparr>te_keys := (te_keys t)(path := None)\<rparr>)"

definition te_clear :: "'i touched \<Rightarrow> 'i touched" where
  "te_clear t = te_init"

subsection \<open>Metadata and its origin go together\<close>

text \<open>A key has metadata exactly when the write it came from is on record, and no key is marked
  unflushed twice.\<close>

definition touched_ok :: "'i touched \<Rightarrow> bool" where
  "touched_ok t = ((\<forall>key. te_metadata t key = None \<longleftrightarrow> te_origin t key = None) \<and> distinct (te_unflushed t))"

inductive touch_step :: "'i touched \<Rightarrow> 'i touched \<Rightarrow> bool" where
  "touch_step t (remember key path m ident st t)"
| "touch_step t (note_stat key st t)"
| "touch_step t (drop_metadata key t)"
| "touch_step t (te_note_read key t)"
| "touch_step t (fst (take_unflushed due t))"
| "touch_step t (te_forget key path t)"
| "touch_step t (te_clear t)"

inductive_cases touch_stepE: "touch_step t t'"

lemma touch_step_ok: "touch_step t t' \<Longrightarrow> touched_ok t \<Longrightarrow> touched_ok t'"
  by (erule touch_stepE)
     (auto simp: touched_ok_def remember_def note_stat_def drop_metadata_def te_note_read_def take_unflushed_def
        te_forget_def te_clear_def te_init_def Let_def distinct_removeAll split: option.splits)

lemma touched_reachable_ok: "touch_step\<^sup>*\<^sup>* te_init t \<Longrightarrow> touched_ok t"
proof (induction rule: rtranclp_induct)
  case base
  show ?case by (simp add: touched_ok_def te_init_def)
qed (rule touch_step_ok)

end
