(* ===== verification/Eviction_Log.thy ===== *)
theory Eviction_Log
  imports Advisory_Log
begin

text \<open>
  The notes of what the disk cap evicted (\<open>src/cash/backends/eviction_log.py\<close>): an
  append-only file any process writes, read once into a dictionary that this process's own
  appends keep current. It is a third provider of the \<open>advisory_log\<close> interface.

  The file is a list of tokenised lines; \<open>log_io\<close> says what the operating system does with
  each access, and \<open>io_tell\<close> is the byte position after an append.
\<close>

record eviction_note =
  en_at :: real
  en_seconds :: pyfloat
  en_size :: int

definition NOTE_REMOVED :: tok where "NOTE_REMOVED = TWord ''-''"
definition MAX_NOTES :: nat where "MAX_NOTES = 10000"
definition COMPACT_AT_BYTES :: int where "COMPACT_AT_BYTES = int MAX_NOTES * 128"

type_synonym note_dict = "(tok \<times> eviction_note) list"

subsection \<open>Reading\<close>

text \<open>One line of the loop in \<open>_read\<close>.\<close>

definition note_replay :: "note_dict \<Rightarrow> log_line \<Rightarrow> note_dict" where
  "note_replay ns parts = (case parts of
       [a, stem] \<Rightarrow> if a = NOTE_REMOVED then AList.delete stem ns else ns
     | [stem, evicted_at, seconds, sz] \<Rightarrow>
         (case (py_float evicted_at, py_float seconds, py_int sz) of
            (Some (Fin t), Some (Fin s), Some n) \<Rightarrow> dict_push stem \<lparr>en_at = t, en_seconds = Fin s, en_size = n\<rparr> ns
          | _ \<Rightarrow> ns)
     | _ \<Rightarrow> ns)"

definition newest :: "note_dict \<Rightarrow> note_dict" where
  "newest ns = drop (length ns - MAX_NOTES) ns"

record log_io =
  io_wrote :: bool
  io_readable :: bool
  io_renamed :: bool
  io_removed :: bool
  io_tell :: "log_line list \<Rightarrow> int"

record eviction_log =
  el_file :: "log_line list option"
  el_notes :: "note_dict option"

definition el_read :: "log_io \<Rightarrow> eviction_log \<Rightarrow> note_dict" where
  "el_read io el = newest (case el_file el of
       Some ls \<Rightarrow> if io_readable io then foldl note_replay [] ls else []
     | None \<Rightarrow> [])"

definition el_loaded :: "log_io \<Rightarrow> eviction_log \<Rightarrow> note_dict" where
  "el_loaded io el = (case el_notes el of None \<Rightarrow> el_read io el | Some ns \<Rightarrow> ns)"

definition el_lookup :: "log_io \<Rightarrow> string \<Rightarrow> eviction_log \<Rightarrow> eviction_log \<times> eviction_note option" where
  "el_lookup io stem el = (el\<lparr>el_notes := Some (el_loaded io el)\<rparr>, map_of (el_loaded io el) (TWord stem))"

subsection \<open>Writing\<close>

text \<open>\<open>format(x, ".0f")\<close> and \<open>format(x, ".6g")\<close> read back: to the nearest integer, and to six
  significant digits, a tie to the even neighbour.\<close>

definition half_even :: "real \<Rightarrow> int" where
  "half_even x = (let f = \<lfloor>x\<rfloor>; d = x - of_int f in
     if d < 1 / 2 then f else if 1 / 2 < d then f + 1 else if even f then f else f + 1)"

definition printed_0f :: "real \<Rightarrow> real" where
  "printed_0f x = of_int (half_even x)"

definition printed_6g :: "real \<Rightarrow> real" where
  "printed_6g x = (if x = 0 then 0 else
     let s = 10 powr (of_int \<lfloor>log 10 \<bar>x\<bar>\<rfloor> - 5) in of_int (half_even (x / s)) * s)"

fun printed_seconds :: "pyfloat \<Rightarrow> pyfloat" where
  "printed_seconds (Fin x) = Fin (printed_6g x)"
| "printed_seconds f = f"

definition note_line :: "tok \<times> eviction_note \<Rightarrow> log_line" where
  "note_line p = (case p of (stem, n) \<Rightarrow>
     [stem, TInt (half_even (en_at n)), TFlt (printed_seconds (en_seconds n)), TInt (en_size n)])"

definition note_render :: "note_dict \<Rightarrow> log_line list" where
  "note_render ns = map note_line ns"

definition el_compact :: "log_io \<Rightarrow> eviction_log \<Rightarrow> eviction_log" where
  "el_compact io el = (let ns = el_read io el in
     if io_renamed io then el\<lparr>el_file := Some (note_render ns),
         el_notes := (case el_notes el of None \<Rightarrow> None | Some _ \<Rightarrow> Some ns)\<rparr>
     else el)"

definition el_append :: "log_io \<Rightarrow> log_line list \<Rightarrow> eviction_log \<Rightarrow> eviction_log" where
  "el_append io ls el = (if \<not> io_wrote io then el else
     let fdata = (case el_file el of None \<Rightarrow> [] | Some old \<Rightarrow> old) @ ls;
         el = el\<lparr>el_file := Some fdata\<rparr> in
     if COMPACT_AT_BYTES < io_tell io fdata then el_compact io el else el)"

definition push_notes :: "(string \<times> eviction_note) list \<Rightarrow> note_dict \<Rightarrow> note_dict" where
  "push_notes added ns = foldl (\<lambda>ns (stem, n). dict_push (TWord stem) n ns) ns added"

definition el_record :: "log_io \<Rightarrow> (string \<times> eviction_note) list \<Rightarrow> eviction_log \<Rightarrow> eviction_log" where
  "el_record io added el = (if added = [] then el else
     el_append io (map (\<lambda>(stem, n). note_line (TWord stem, n)) added)
       (el\<lparr>el_notes := map_option (push_notes added) (el_notes el)\<rparr>))"

definition el_forget :: "log_io \<Rightarrow> string \<Rightarrow> eviction_log \<Rightarrow> eviction_log" where
  "el_forget io stem el = (case el_notes el of
       None \<Rightarrow> el
     | Some ns \<Rightarrow>
         if map_of ns (TWord stem) = None then el
         else el_append io [[NOTE_REMOVED, TWord stem]] (el\<lparr>el_notes := Some (AList.delete (TWord stem) ns)\<rparr>))"

definition el_remove :: "log_io \<Rightarrow> eviction_log \<Rightarrow> eviction_log" where
  "el_remove io el = el\<lparr>el_notes := None, el_file := (if io_removed io then None else el_file el)\<rparr>"

subsection \<open>Printed numbers\<close>

lemma half_even_of_int [simp]: "half_even (of_int n) = n"
  by (simp add: half_even_def)

lemma half_even_ge: "of_int n \<le> x \<Longrightarrow> n \<le> half_even x"
proof -
  assume "of_int n \<le> x"
  then have "n \<le> \<lfloor>x\<rfloor>" by (simp add: le_floor_iff)
  then show ?thesis by (auto simp: half_even_def Let_def)
qed

lemma half_even_le: "x \<le> of_int n \<Longrightarrow> half_even x \<le> n"
proof -
  assume x: "x \<le> of_int n"
  show ?thesis
  proof (cases "x = of_int n")
    case False
    with x have "\<lfloor>x\<rfloor> < n" by (simp add: floor_less_iff)
    then show ?thesis by (auto simp: half_even_def Let_def)
  qed simp
qed

text \<open>Rounding to six digits keeps the sign, so a cost that is unknown stays so.\<close>

lemma printed_6g_neg: "printed_6g x < 0 \<longleftrightarrow> x < 0"
proof (cases "x = 0")
  case False
  define s where "s = 10 powr (of_int \<lfloor>log 10 \<bar>x\<bar>\<rfloor> - 5 :: real)"
  have s: "0 < s" by (simp add: s_def)
  have "of_int \<lfloor>log 10 \<bar>x\<bar>\<rfloor> - 5 \<le> log 10 \<bar>x\<bar>" by linarith
  then have "s \<le> 10 powr (log 10 \<bar>x\<bar>)" unfolding s_def by (rule powr_mono) simp
  then have "s \<le> \<bar>x\<bar>" using False by simp
  then have "1 \<le> \<bar>x\<bar> / s" using s by simp
  then have "(x < 0 \<longrightarrow> x / s \<le> of_int (- 1)) \<and> (0 < x \<longrightarrow> of_int 1 \<le> x / s)"
    using s by (auto simp: abs_if field_simps)
  then have "(x < 0 \<longrightarrow> half_even (x / s) \<le> - 1) \<and> (0 < x \<longrightarrow> 1 \<le> half_even (x / s))"
    using half_even_le half_even_ge by blast
  moreover have "printed_6g x = of_int (half_even (x / s)) * s" using False by (simp add: printed_6g_def s_def Let_def)
  ultimately show ?thesis using s False by (cases "x < 0") (auto simp: mult_less_0_iff not_less)
qed (simp add: printed_6g_def)

subsection \<open>The interface\<close>

text \<open>What a rewrite keeps of a note: the second it was evicted, whether its cost was known, and
  its size.\<close>

definition note_view :: "eviction_note \<Rightarrow> int \<times> bool \<times> int" where
  "note_view n = (half_even (en_at n), py_lt (en_seconds n) (Fin 0), en_size n)"

definition notes_view :: "note_dict \<Rightarrow> (tok \<times> (int \<times> bool \<times> int)) list" where
  "notes_view ns = map (\<lambda>(stem, n). (stem, note_view n)) ns"

definition note_as_read :: "eviction_note \<Rightarrow> eviction_note" where
  "note_as_read n = \<lparr>en_at = of_int (half_even (en_at n)), en_seconds = printed_seconds (en_seconds n), en_size = en_size n\<rparr>"

abbreviation finite_note :: "eviction_note \<Rightarrow> bool" where
  "finite_note n \<equiv> finite_float (en_seconds n) \<noteq> None"

lemma note_replay_line: "finite_note n \<Longrightarrow> note_replay ns (note_line (stem, n)) = dict_push stem (note_as_read n) ns"
  by (cases "en_seconds n") (simp_all add: note_replay_def note_line_def note_as_read_def)

lemma note_view_as_read [simp]: "note_view (note_as_read n) = note_view n"
  by (cases "en_seconds n") (simp_all add: note_view_def note_as_read_def printed_6g_neg)

lemma notes_view_push: "notes_view (dict_push k n ns) = dict_push k (note_view n) (notes_view ns)"
  by (simp add: notes_view_def dict_push_def AList.delete_eq filter_map split_def comp_def)

lemma notes_view_delete: "notes_view (AList.delete k ns) = AList.delete k (notes_view ns)"
  by (simp add: notes_view_def AList.delete_eq filter_map split_def comp_def)

text \<open>What one line does to a reader's view.\<close>

lemma note_replay_cases:
  obtains "\<And>ns. note_replay ns l = ns" | stem where "\<And>ns. note_replay ns l = AList.delete stem ns"
    | stem n where "finite_note n" "\<And>ns. note_replay ns l = dict_push stem n ns"
proof -
  consider a b where "l = [a, b]" | a b c d where "l = [a, b, c, d]" | "length l \<noteq> 2" "length l \<noteq> 4"
    by (cases l; cases "tl l"; cases "tl (tl l)"; cases "tl (tl (tl l))"; cases "tl (tl (tl (tl l)))") auto
  then show thesis
  proof cases
    case (1 a b)
    then show thesis by (cases "a = NOTE_REMOVED") (auto simp: note_replay_def intro: that(1,2))
  next
    case (2 a b c d)
    show thesis
    proof (cases "\<exists>t s n. py_float b = Some (Fin t) \<and> py_float c = Some (Fin s) \<and> py_int d = Some n")
      case True
      then obtain t s n where "py_float b = Some (Fin t)" "py_float c = Some (Fin s)" "py_int d = Some n" by blast
      with 2 show thesis by (intro that(3) [of "\<lparr>en_at = t, en_seconds = Fin s, en_size = n\<rparr>" a]) (simp_all add: note_replay_def)
    next
      case False
      with 2 show thesis by (intro that(1)) (auto simp: note_replay_def split: option.splits pyfloat.splits)
    qed
  next
    case 3
    then have "note_replay ns l = ns" for ns by (auto simp: note_replay_def split: list.splits)
    then show thesis by (rule that(1))
  qed
qed

definition notes_ok :: "note_dict \<Rightarrow> bool" where
  "notes_ok ns = (dict_ok ns \<and> (\<forall>n \<in> snd ` set ns. finite_note n))"

lemma notes_ok_steps:
  "notes_ok ns \<Longrightarrow> finite_note n \<Longrightarrow> notes_ok (dict_push k n ns)" "notes_ok ns \<Longrightarrow> notes_ok (AList.delete k ns)"
  "notes_ok ns \<Longrightarrow> notes_ok (drop i ns)"
  unfolding notes_ok_def
  by (auto simp: dict_simps dict_push_def AList.delete_eq distinct_map_filter drop_map [symmetric] dest: in_set_dropD)

lemma notes_ok_replay: "notes_ok ns \<Longrightarrow> notes_ok (note_replay ns l)"
  by (cases l rule: note_replay_cases) (simp_all add: notes_ok_steps)

lemma notes_view_replay:
  "notes_view ns = notes_view ms \<Longrightarrow> notes_view (note_replay ns l) = notes_view (note_replay ms l)"
  by (cases l rule: note_replay_cases) (simp_all add: notes_view_push notes_view_delete)

lemma replay_render:
  "dict_ok (ms @ ns) \<Longrightarrow> \<forall>n \<in> snd ` set ns. finite_note n \<Longrightarrow>
     foldl note_replay ms (note_render ns) = ms @ map (\<lambda>(stem, n). (stem, note_as_read n)) ns"
proof (induction ns arbitrary: ms)
  case (Cons p ns)
  obtain stem n where p: "p = (stem, n)" by (cases p)
  with Cons.prems have "stem \<notin> fst ` set ms" "finite_note n" by auto
  then have "note_replay ms (note_line p) = ms @ [(stem, note_as_read n)]" by (simp add: p note_replay_line push_fresh)
  with Cons.IH [of "ms @ [(stem, note_as_read n)]"] Cons.prems p show ?case by (simp add: note_render_def)
qed (simp add: note_render_def)

interpretation note_log: advisory_log note_replay "[]" note_render notes_view notes_ok
proof
  show "notes_view (foldl note_replay [] (note_render ns)) = notes_view ns" if "notes_ok ns" for ns :: note_dict
    using replay_render [of "[]" ns] that by (simp add: notes_view_def notes_ok_def split_def)
qed (auto intro: notes_ok_replay notes_view_replay, simp add: notes_ok_def)

subsection \<open>The notes in memory and the file\<close>

text \<open>The dictionary of a process that has read the file holds the newest of the notes a new process
  would find there, in the same order.\<close>

abbreviation disk_notes :: "eviction_log \<Rightarrow> note_dict" where
  "disk_notes el \<equiv> foldl note_replay [] (case el_file el of None \<Rightarrow> [] | Some ls \<Rightarrow> ls)"

definition in_step :: "eviction_log \<Rightarrow> bool" where
  "in_step el = (case el_notes el of
       None \<Rightarrow> True
     | Some ns \<Rightarrow> notes_ok ns \<and> (\<exists>older. notes_view (disk_notes el) = older @ notes_view ns))"

datatype log_op = Lookup string | Record "(string \<times> eviction_note) list" | Forget string | Remove

fun el_step :: "log_io \<Rightarrow> eviction_log \<Rightarrow> log_op \<Rightarrow> eviction_log" where
  "el_step io el (Lookup stem) = fst (el_lookup io stem el)"
| "el_step io el (Record added) = el_record io added el"
| "el_step io el (Forget stem) = el_forget io stem el"
| "el_step io el Remove = el_remove io el"

lemma disk_notes_ok: "notes_ok (disk_notes el)"
  by (rule note_log.ok_foldl) (simp add: notes_ok_def)

lemma newest_suffix: "notes_ok ns \<Longrightarrow> notes_ok (newest ns) \<and> (\<exists>older. notes_view ns = older @ notes_view (newest ns))"
proof (intro conjI exI)
  assume "notes_ok ns"
  then show "notes_ok (newest ns)" by (simp add: newest_def notes_ok_steps)
  show "notes_view ns = notes_view (take (length ns - MAX_NOTES) ns) @ notes_view (newest ns)"
    unfolding notes_view_def newest_def by (simp flip: map_append)
qed

lemma el_read_disk: "io_readable io \<Longrightarrow> el_read io el = newest (disk_notes el)"
  by (cases "el_file el") (simp_all add: el_read_def)

lemma read_in_step: "io_readable io \<Longrightarrow> in_step (el\<lparr>el_notes := Some (el_read io el)\<rparr>)"
  using newest_suffix [OF disk_notes_ok [of el]] by (simp add: in_step_def el_read_disk)

lemma compact_in_step:
  assumes "io_readable io" and "in_step el"
  shows "in_step (el_compact io el)"
proof (cases "io_renamed io")
  case True
  have ok: "notes_ok (el_read io el)"
    using newest_suffix [OF disk_notes_ok [of el]] by (simp add: el_read_disk [OF assms(1)])
  then have "notes_view (foldl note_replay [] (note_render (el_read io el))) = notes_view (el_read io el)"
    by (rule note_log.view_render)
  with True ok show ?thesis by (simp add: in_step_def el_compact_def Let_def split: option.split)
qed (use assms(2) in \<open>simp add: el_compact_def Let_def\<close>)

lemma append_in_step:
  assumes "io_readable io" and "io_wrote io"
    and "in_step (el\<lparr>el_file := Some ((case el_file el of None \<Rightarrow> [] | Some old \<Rightarrow> old) @ ls)\<rparr>)"
  shows "in_step (el_append io ls el)"
  using assms compact_in_step [OF assms(1,3)] by (simp add: el_append_def Let_def)

lemma suffix_push:
  "notes_view ms = older @ notes_view ns \<Longrightarrow> \<exists>older'. notes_view (dict_push k n ms) = older' @ notes_view (dict_push k n ns)"
  by (simp add: notes_view_push) (simp add: dict_push_def AList.delete_eq)

lemma push_notes_suffix:
  assumes "notes_view ms = older @ notes_view ns" and "notes_ok ns" and "\<forall>n \<in> snd ` set added. finite_note n"
  shows "notes_ok (push_notes added ns) \<and>
    (\<exists>older'. notes_view (foldl note_replay ms (map (\<lambda>(stem, n). note_line (TWord stem, n)) added))
               = older' @ notes_view (push_notes added ns))"
  using assms
proof (induction added arbitrary: ms ns older)
  case (Cons a added)
  obtain stem n where a: "a = (stem, n)" by (cases a)
  obtain older' where "notes_view (dict_push (TWord stem) (note_as_read n) ms) = older' @ notes_view (dict_push (TWord stem) n ns)"
    using suffix_push [OF Cons.prems(1), of "TWord stem" n] by (auto simp: notes_view_push)
  moreover have n: "finite_note n" "\<forall>n \<in> snd ` set added. finite_note n" using Cons.prems(3) a by simp_all
  ultimately show ?case using Cons.IH [OF _ notes_ok_steps(1) [OF Cons.prems(2) n(1)] n(2)] a
    by (simp add: note_replay_line push_notes_def)
qed (simp add: push_notes_def)

text \<open>A cost that is a float but not finite cannot be read back; costs are measured times.\<close>

fun finite_op :: "log_op \<Rightarrow> bool" where
  "finite_op (Record added) = list_all (\<lambda>(_, n). finite_note n) added"
| "finite_op _ = True"

lemma step_in_step:
  assumes "io_readable io" and "io_wrote io" and "in_step el" and "finite_op op"
  shows "in_step (el_step io el op)"
proof (cases op)
  case (Lookup stem)
  with assms read_in_step show ?thesis
    by (cases "el_notes el") (simp_all add: el_lookup_def el_loaded_def in_step_def)
next
  case (Record added)
  show ?thesis
  proof (cases "added = []")
    case False
    have "in_step (el_append io (map (\<lambda>(stem, n). note_line (TWord stem, n)) added)
        (el\<lparr>el_notes := map_option (push_notes added) (el_notes el)\<rparr>))"
    proof (rule append_in_step [OF assms(1,2)], cases "el_notes el")
      case (Some ns)
      then obtain older where "notes_ok ns" "notes_view (disk_notes el) = older @ notes_view ns"
        using assms(3) by (auto simp: in_step_def)
      moreover have "\<forall>n \<in> snd ` set added. finite_note n" using assms(4) Record by (auto simp: list_all_iff)
      ultimately have "notes_ok (push_notes added ns) \<and> (\<exists>older'. notes_view (foldl note_replay (disk_notes el)
          (map (\<lambda>(stem, n). note_line (TWord stem, n)) added)) = older' @ notes_view (push_notes added ns))"
        using push_notes_suffix by blast
      with Some
      show "in_step (el\<lparr>el_notes := map_option (push_notes added) (el_notes el), el_file :=
          Some ((case el_file (el\<lparr>el_notes := map_option (push_notes added) (el_notes el)\<rparr>) of None \<Rightarrow> [] | Some old \<Rightarrow> old)
             @ map (\<lambda>(stem, n). note_line (TWord stem, n)) added)\<rparr>)"
        by (simp add: in_step_def split: option.split)
    qed (simp add: in_step_def)
    with False Record show ?thesis by (simp add: el_record_def)
  qed (use assms Record in \<open>simp add: el_record_def\<close>)
next
  case (Forget stem)
  show ?thesis
  proof (cases "el_notes el")
    case (Some ns)
    show ?thesis
    proof (cases "map_of ns (TWord stem) = None")
      case False
      obtain older where "notes_ok ns" and older: "notes_view (disk_notes el) = older @ notes_view ns"
        using assms(3) Some by (auto simp: in_step_def)
      moreover have "notes_view (AList.delete (TWord stem) (disk_notes el)) =
          AList.delete (TWord stem) older @ notes_view (AList.delete (TWord stem) ns)"
        unfolding notes_view_delete older by (simp add: AList.delete_eq)
      ultimately have "in_step (el_append io [[NOTE_REMOVED, TWord stem]] (el\<lparr>el_notes := Some (AList.delete (TWord stem) ns)\<rparr>))"
        by (intro append_in_step [OF assms(1,2)]) (auto simp: in_step_def note_replay_def notes_ok_steps)
      with Some False Forget show ?thesis by (auto simp: el_forget_def)
    qed (use assms Some Forget in \<open>simp add: el_forget_def\<close>)
  qed (use assms Forget in \<open>simp add: el_forget_def\<close>)
qed (use assms in \<open>simp add: el_remove_def in_step_def\<close>)

subsection \<open>Properties\<close>



end
