(* ===== verification/Adaptive_Caps.thy ===== *)
theory Adaptive_Caps
  imports Prelude
begin

text \<open>
  Machine-scaled caps for the disk and RAM tiers (\<open>src/cash/backends/adaptive_caps.py\<close>).
  \<open>int(x)\<close> of a product with a positive fraction truncates, which is integer division
  here. What the machine answers (free space per directory, total RAM, the cgroup files)
  is an argument.
\<close>

definition MIB :: int where "MIB = 1024 ^ 2"
definition GIB :: int where "GIB = 1024 ^ 3"

definition DISK_FLOOR :: int where "DISK_FLOOR = 8 * GIB"
definition DISK_CEILING :: int where "DISK_CEILING = 100 * GIB"
definition RAM_FLOOR :: int where "RAM_FLOOR = 512 * MIB"
definition RAM_CEILING :: int where "RAM_CEILING = 4 * GIB"
definition RAM_FALLBACK :: int where "RAM_FALLBACK = GIB"

text \<open>\<open>int(DISK_FRACTION * free)\<close>, \<open>int(DISK_SAFETY * free)\<close> and \<open>int(RAM_FRACTION * total)\<close>.\<close>

definition disk_fraction :: "int \<Rightarrow> int" where "disk_fraction free = free div 4"
definition disk_safety :: "int \<Rightarrow> int" where "disk_safety free = 8 * free div 10"
definition ram_fraction :: "int \<Rightarrow> int" where "ram_fraction total_ram = 20 * total_ram div 100"

lemmas cap_defs = MIB_def GIB_def DISK_FLOOR_def DISK_CEILING_def RAM_FLOOR_def RAM_CEILING_def
  RAM_FALLBACK_def disk_fraction_def disk_safety_def ram_fraction_def

definition adaptive_disk_cap :: "bytes_t \<Rightarrow> bytes_t" where
  "adaptive_disk_cap free_bytes =
     (if free_bytes \<le> 0 then DISK_FLOOR
      else let cap = min DISK_CEILING (max DISK_FLOOR (disk_fraction free_bytes))
           in min cap (disk_safety free_bytes))"

text \<open>The rule \<open>disk_cap_reason\<close> names in words.\<close>

datatype cap_reason = Unmeasured | Safety_margin | Ceiling | Floor | Quarter

definition disk_cap_reason :: "bytes_t \<Rightarrow> bytes_t \<Rightarrow> cap_reason" where
  "disk_cap_reason free_bytes own_bytes =
     (let room = free_bytes + max 0 own_bytes
      in if room \<le> 0 then Unmeasured
         else let cap = adaptive_disk_cap room
              in if cap < min DISK_CEILING (max DISK_FLOOR (disk_fraction room)) then Safety_margin
                 else if cap = DISK_CEILING \<and> DISK_CEILING < disk_fraction room then Ceiling
                 else if cap = DISK_FLOOR \<and> disk_fraction room < DISK_FLOOR then Floor
                 else Quarter)"

definition adaptive_ram_cap :: "bytes_t option \<Rightarrow> bytes_t" where
  "adaptive_ram_cap total_ram = (case total_ram of
       None \<Rightarrow> RAM_FALLBACK
     | Some t \<Rightarrow> if t \<le> 0 then RAM_FALLBACK else min RAM_CEILING (max RAM_FLOOR (ram_fraction t)))"

text \<open>
  \<open>free_bytes_on_volume\<close>: the first directory on the way up that can be measured. A path
  is its components from the root; \<open>dirname\<close> of the root is the root, where the walk
  gives up.
\<close>

function free_bytes_on_volume :: "(string list \<Rightarrow> bytes_t option) \<Rightarrow> string list \<Rightarrow> bytes_t" where
  "free_bytes_on_volume usage probe =
     (case usage probe of
        Some free \<Rightarrow> free
      | None \<Rightarrow> if probe = [] then 0 else free_bytes_on_volume usage (butlast probe))"
  by pat_completeness auto
termination
  by (relation "measure (\<lambda>(usage, probe). length probe)") auto

declare free_bytes_on_volume.simps [simp del]

definition CGROUP_UNLIMITED :: int where "CGROUP_UNLIMITED = 2 ^ 62"

text \<open>The contents of the cgroup files in the order they are tried (\<open>None\<close>: unreadable).\<close>

fun cgroup_memory_limit :: "tok option list \<Rightarrow> bytes_t option" where
  "cgroup_memory_limit [] = None"
| "cgroup_memory_limit (None # rest) = cgroup_memory_limit rest"
| "cgroup_memory_limit (Some raw # rest) =
     (if raw = TWord [] \<or> raw = TWord ''max'' then cgroup_memory_limit rest
      else case py_int raw of
             None \<Rightarrow> cgroup_memory_limit rest
           | Some v \<Rightarrow> if v \<le> 0 \<or> CGROUP_UNLIMITED \<le> v then cgroup_memory_limit rest else Some v)"

definition memory_budget :: "bytes_t option \<Rightarrow> bytes_t option \<Rightarrow> bytes_t option" where
  "memory_budget total_ram limit =
     (let known = [v. Some v \<leftarrow> [total_ram, limit], v \<noteq> 0]
      in case known of [] \<Rightarrow> None | v # vs \<Rightarrow> Some (foldl min v vs))"

definition resolve_disk_cap :: "bytes_t \<Rightarrow> bytes_t" where
  "resolve_disk_cap free = adaptive_disk_cap free"

definition adaptive_disk_cap_for :: "bytes_t \<Rightarrow> bytes_t \<Rightarrow> bytes_t" where
  "adaptive_disk_cap_for free own_bytes = adaptive_disk_cap (free + max 0 own_bytes)"

definition resolve_ram_cap :: "bytes_t option \<Rightarrow> tok option list \<Rightarrow> bytes_t" where
  "resolve_ram_cap total_ram cgroup_files =
     adaptive_ram_cap (memory_budget total_ram (cgroup_memory_limit cgroup_files))"

subsection \<open>Lemmas\<close>

lemma adaptive_disk_cap_pos_eq:
  "0 < free \<Longrightarrow> adaptive_disk_cap free =
     min (min DISK_CEILING (max DISK_FLOOR (disk_fraction free))) (disk_safety free)"
  by (simp add: adaptive_disk_cap_def Let_def)

lemma disk_share_mono:
  "a \<le> b \<Longrightarrow> disk_fraction a \<le> disk_fraction b" "a \<le> b \<Longrightarrow> disk_safety a \<le> disk_safety b"
  by (simp_all add: disk_fraction_def disk_safety_def zdiv_mono1)

lemma disk_fraction_le_safety:
  assumes "0 < a"
  shows "disk_fraction a \<le> disk_safety a"
proof -
  have "a div 4 * 4 \<le> a" using div_mult_mod_eq [of a 4] pos_mod_sign [of 4 a] by linarith
  then have "a div 4 * 10 \<le> 8 * a" using assms by linarith
  then have "a div 4 * 10 div 10 \<le> 8 * a div 10" by (rule zdiv_mono1) simp
  then show ?thesis by (simp add: disk_fraction_def disk_safety_def)
qed

lemma adaptive_disk_cap_mono:
  assumes "0 < a" and "a \<le> b"
  shows "adaptive_disk_cap a \<le> adaptive_disk_cap b"
proof -
  have "min DISK_CEILING (max DISK_FLOOR (disk_fraction a))
      \<le> min DISK_CEILING (max DISK_FLOOR (disk_fraction b))"
    by (intro min.mono max.mono order_refl disk_share_mono(1) assms(2))
  moreover have "disk_safety a \<le> disk_safety b" by (rule disk_share_mono(2) [OF assms(2)])
  ultimately show ?thesis using assms by (simp only: adaptive_disk_cap_pos_eq) (rule min.mono, simp_all add: adaptive_disk_cap_pos_eq)
qed

lemma free_bytes_ancestor:
  "free_bytes_on_volume usage probe \<noteq> 0 \<Longrightarrow>
   \<exists>n. usage (take n probe) = Some (free_bytes_on_volume usage probe)"
proof (induction usage probe rule: free_bytes_on_volume.induct)
  case (1 usage probe)
  show ?case
  proof (cases "usage probe")
    case (Some f)
    then show ?thesis
      by (auto simp: free_bytes_on_volume.simps [of usage probe] intro: exI [of _ "length probe"])
  next
    case None
    with "1.prems" have p: "probe \<noteq> []" by (auto simp: free_bytes_on_volume.simps [of usage probe])
    with None have eq: "free_bytes_on_volume usage probe = free_bytes_on_volume usage (butlast probe)"
      by (simp add: free_bytes_on_volume.simps [of usage probe])
    with "1.IH" [OF None p] "1.prems" obtain n where
      "usage (take n (butlast probe)) = Some (free_bytes_on_volume usage probe)" by auto
    then show ?thesis by (metis butlast_conv_take take_take)
  qed
qed

lemma cgroup_limit_bounds: "cgroup_memory_limit fs = Some v \<Longrightarrow> 0 < v \<and> v < CGROUP_UNLIMITED"
  by (induction fs rule: cgroup_memory_limit.induct) (auto split: if_splits option.splits)

lemma memory_budget_le:
  "memory_budget total_ram limit = Some b \<Longrightarrow> total_ram = Some t \<Longrightarrow> t \<noteq> 0 \<Longrightarrow> b \<le> t"
  "memory_budget total_ram limit = Some b \<Longrightarrow> limit = Some l \<Longrightarrow> l \<noteq> 0 \<Longrightarrow> b \<le> l"
  by (auto simp: memory_budget_def split: option.splits if_splits)

subsection \<open>Properties\<close>

text \<open>
  the disk cap fits the volume. Whenever the room could be measured, the cap is at
  most 80\<percent> of it and at most 100 GiB, at least 8 GiB or those 80\<percent>, and it never falls as
  the room grows; when the room could not be measured it is the 8 GiB floor, never zero.
\<close>

theorem adaptive_disk_cap_fits:
  "(0 < room \<longrightarrow>
      10 * adaptive_disk_cap room \<le> 8 * room \<and> adaptive_disk_cap room \<le> DISK_CEILING
      \<and> min DISK_FLOOR (disk_safety room) \<le> adaptive_disk_cap room
      \<and> (room \<le> more \<longrightarrow> adaptive_disk_cap room \<le> adaptive_disk_cap more))
   \<and> (room \<le> 0 \<longrightarrow> adaptive_disk_cap room = DISK_FLOOR)"
proof (intro conjI impI)
  assume r: "0 < room"
  have "10 * disk_safety room \<le> 8 * room" by (simp add: disk_safety_def)
  then show "10 * adaptive_disk_cap room \<le> 8 * room" using r by (simp add: adaptive_disk_cap_pos_eq)
  show "adaptive_disk_cap room \<le> DISK_CEILING" using r by (simp add: adaptive_disk_cap_pos_eq)
  have "DISK_FLOOR \<le> DISK_CEILING" by (simp add: cap_defs)
  then show "min DISK_FLOOR (disk_safety room) \<le> adaptive_disk_cap room"
    using r by (auto simp: adaptive_disk_cap_pos_eq)
  show "room \<le> more \<Longrightarrow> adaptive_disk_cap room \<le> adaptive_disk_cap more"
    by (rule adaptive_disk_cap_mono [OF r])
qed (simp add: adaptive_disk_cap_def)

theorem adaptive_disk_cap_fits_witness:
  "10 * adaptive_disk_cap (4 * 1024 ^ 3) \<le> 32 * 1024 ^ 3 \<and> adaptive_disk_cap (4 * 1024 ^ 3) < DISK_FLOOR"
  using adaptive_disk_cap_fits [of "4 * 1024 ^ 3" 0]
  by (simp add: adaptive_disk_cap_def cap_defs)

text \<open>
  The cap a running process keeps to does not move with its own contents. Sized from
  free space plus what the cache holds, it is the same number before and after the cache
  grows by any amount the volume still has, while the cap from free space alone can
  fall below what the cache already holds.
\<close>

theorem adaptive_disk_cap_for_stable:
  "0 \<le> own \<Longrightarrow> 0 \<le> grown \<Longrightarrow>
   adaptive_disk_cap_for (free - grown) (own + grown) = adaptive_disk_cap_for free own
   \<and> (\<exists>free' held. held \<le> adaptive_disk_cap_for free' 0 \<and> 0 \<le> held
        \<and> resolve_disk_cap (free' - held) < held)"
proof (intro conjI)
  assume "0 \<le> own" "0 \<le> grown"
  then show "adaptive_disk_cap_for (free - grown) (own + grown) = adaptive_disk_cap_for free own"
    by (simp add: adaptive_disk_cap_for_def)
  have "12 * GIB \<le> adaptive_disk_cap_for (48 * GIB) 0 \<and> 0 \<le> 12 * GIB
      \<and> resolve_disk_cap (48 * GIB - 12 * GIB) < 12 * GIB"
    by (simp add: adaptive_disk_cap_for_def resolve_disk_cap_def adaptive_disk_cap_def cap_defs)
  then show "\<exists>free' held. held \<le> adaptive_disk_cap_for free' 0 \<and> 0 \<le> held
        \<and> resolve_disk_cap (free' - held) < held" by blast
qed

theorem adaptive_disk_cap_for_stable_witness:
  "adaptive_disk_cap_for 100 7 = adaptive_disk_cap_for 105 2"
  using adaptive_disk_cap_for_stable [of 2 5 105] by simp

text \<open>
  The words shown beside the cap name the rule that set it: the ceiling, the floor,
  the safety margin (then the cap is under both the floor and 80\<percent> of the room) or the
  quarter, whichever equals the cap kept to.
\<close>

theorem disk_cap_reason_explains:
  assumes room: "room = free + max 0 own"
  shows "(case disk_cap_reason free own of
     Unmeasured \<Rightarrow> room \<le> 0 \<and> adaptive_disk_cap room = DISK_FLOOR
   | Safety_margin \<Rightarrow> adaptive_disk_cap room = disk_safety room \<and> disk_safety room < DISK_FLOOR
   | Ceiling \<Rightarrow> adaptive_disk_cap room = DISK_CEILING \<and> DISK_CEILING < disk_fraction room
   | Floor \<Rightarrow> adaptive_disk_cap room = DISK_FLOOR \<and> disk_fraction room < DISK_FLOOR
   | Quarter \<Rightarrow> adaptive_disk_cap room = disk_fraction room)"
proof (cases "room \<le> 0")
  case True
  then show ?thesis using room by (simp add: disk_cap_reason_def adaptive_disk_cap_def)
next
  case False
  have le: "disk_fraction room \<le> disk_safety room" using False by (simp add: disk_fraction_le_safety)
  have fc: "DISK_FLOOR \<le> DISK_CEILING" by (simp add: cap_defs)
  show ?thesis
    unfolding disk_cap_reason_def Let_def room [symmetric]
    using False le fc by (auto simp: adaptive_disk_cap_pos_eq min_def max_def split: if_splits)
qed

theorem disk_cap_reason_explains_witness:
  "disk_cap_reason (20 * GIB) 0 = Floor \<and> adaptive_disk_cap (20 * GIB) = DISK_FLOOR"
proof -
  have r: "disk_cap_reason (20 * GIB) 0 = Floor"
    by (simp add: disk_cap_reason_def adaptive_disk_cap_def cap_defs)
  with disk_cap_reason_explains [of "20 * GIB" "20 * GIB" 0] show ?thesis by simp
qed



end
