(* ===== verification/File_Eviction.thy ===== *)
theory File_Eviction
  imports Cache_Dir Touched_Entries Eviction_Log Adaptive_Caps Chunk_Ledger
    "HOL-Library.Product_Lexorder" "HOL-Library.List_Lexorder" "HOL-Library.Char_ord"
begin

text \<open>
  Keeping a file cache under its byte cap (class \<open>FileEvictor\<close> of
  \<open>src/cash/backends/file_eviction.py\<close>): the running byte total, the adaptive cap, the
  ranking of what to evict and the pass that evicts.

  \<open>evictor\<close> is the object together with the folder it works on: the entry files, the chunk
  store, the rank index and the eviction log. A path is the file's name in the folder. The
  heap of fresh candidates is the list of its elements in order. \<open>evict_env\<close> holds what the
  code asks of the outside: clocks, free space, what the operating system does with each
  access, and the write queue. An exception of the float arithmetic in a priority ends a pass;
  the operations that compute one return whether they ran through.
\<close>

record evict_env =
  ee_dir :: dir_env
  ee_now :: real
  ee_monotonic :: real
  ee_free :: bytes_t
  ee_log :: log_io
  ee_rank_wrote :: bool
  ee_rank_readable :: bool
  ee_rank_renamed :: bool
  ee_rank_removed :: bool
  ee_denied :: "string \<Rightarrow> nat \<Rightarrow> bool"
  ee_stuck :: "string \<Rightarrow> bool"
  ee_pending :: "string \<Rightarrow> bool"
  ee_own_key :: "string option"
  ee_chunk_env :: chunk_env
  ee_chunks_dir :: bool
  ee_notices_wanted :: bool

text \<open>What the user is told: the cap when it is first sized, and that the cache evicts what it
  has just written.\<close>

record disk_budget =
  db_cap :: bytes_t
  db_why :: "cap_reason option"

record thrash_warning =
  tw_cap :: bytes_t
  tw_free :: bytes_t
  tw_room :: bool
  tw_fits :: "bytes_t option"

type_synonym queue_item = "string \<times> bytes_t \<times> real"
type_synonym fresh_item = "real \<times> nat \<times> string \<times> bytes_t \<times> real"

record evictor =
  fe_files :: folder
  fe_chunks :: "chunk_store option"
  fe_max :: "bytes_t option"
  fe_adaptive :: bool
  fe_cap_derived_at :: real
  fe_current :: bytes_t
  fe_scanned :: bool
  fe_rank_index :: rank_index
  fe_evictions :: eviction_log
  fe_touched :: "identity touched"
  fe_write_seq :: nat
  fe_seq_by_key :: "string \<rightharpoonup> nat"
  fe_warned_thrash :: bool
  fe_warnings :: "thrash_warning list"
  fe_budget_shown :: bool
  fe_announced :: "disk_budget list"
  fe_eviction_told :: bool
  fe_notices :: "(bytes_t \<times> bytes_t \<times> nat) list"
  fe_queue :: "queue_item list"
  fe_rank_h :: "string \<rightharpoonup> real"
  fe_fresh :: "fresh_item list"
  fe_ranked :: bool
  fe_clock :: real
  fe_clock_loaded :: bool
  fe_base :: "string \<rightharpoonup> real option"

definition CAP_REFRESH_INTERVAL :: real where "CAP_REFRESH_INTERVAL = 60"
definition EVICT_WARN_RECENT_OPS :: nat where "EVICT_WARN_RECENT_OPS = 3"
definition FEW_ENTRIES_FIT :: int where "FEW_ENTRIES_FIT = 20"
definition REMOVE_RETRIES :: nat where "REMOVE_RETRIES = 6"

definition stem_of :: "string \<Rightarrow> string" where
  "stem_of path = cut_end (length ENTRY_SUFFIX) path"

definition priority :: "entry_metadata \<Rightarrow> bytes_t \<Rightarrow> real \<Rightarrow> real option" where
  "priority m sz base = map_option (\<lambda>v. base + v) (gdsf_value m sz)"

text \<open>\<open>os.path.getmtime\<close> and \<open>os.path.getsize\<close>; \<open>None\<close> is the \<open>OSError\<close>.\<close>

definition mtime_of :: "dir_file \<Rightarrow> real" where
  "mtime_of f = of_int (df_mtime f) / 1000000000"

definition getmtime :: "evict_env \<Rightarrow> evictor \<Rightarrow> string \<Rightarrow> real option" where
  "getmtime w ev path = (if de_stats (ee_dir w) path then map_option mtime_of (map_of (fe_files ev) path) else None)"

definition getsize :: "evict_env \<Rightarrow> evictor \<Rightarrow> string \<Rightarrow> bytes_t option" where
  "getsize w ev path = (if de_stats (ee_dir w) path then map_option (\<lambda>f. int (length (df_data f))) (map_of (fe_files ev) path) else None)"

definition capped :: "evictor \<Rightarrow> bool" where
  "capped ev = (case fe_max ev of None \<Rightarrow> False | Some n \<Rightarrow> n \<noteq> 0)"

subsection \<open>Bookkeeping the backend reports\<close>

definition note_write :: "string \<Rightarrow> bytes_t \<Rightarrow> bytes_t \<Rightarrow> evictor \<Rightarrow> evictor" where
  "note_write key old_bytes new_bytes ev = (let seq = fe_write_seq ev + 1 in
     ev\<lparr>fe_current := fe_current ev + (new_bytes - old_bytes), fe_write_seq := seq,
        fe_seq_by_key := (fe_seq_by_key ev)(key \<mapsto> seq)\<rparr>)"

definition ev_note_read :: "string \<Rightarrow> evictor \<Rightarrow> evictor" where
  "ev_note_read key ev = ev\<lparr>fe_base := (fe_base ev)(key \<mapsto> None)\<rparr>"

definition evictor_clear :: "evict_env \<Rightarrow> evictor \<Rightarrow> evictor" where
  "evictor_clear w ev = ev\<lparr>
     fe_rank_index := ri_remove (ee_rank_removed w) (fe_rank_index ev), fe_evictions := el_remove (ee_log w) (fe_evictions ev),
     fe_seq_by_key := Map.empty, fe_queue := [], fe_rank_h := Map.empty, fe_fresh := [], fe_ranked := False,
     fe_base := Map.empty, fe_clock := 0, fe_current := 0\<rparr>"

subsection \<open>Size and cap\<close>

definition scan_size_bytes :: "evict_env \<Rightarrow> evictor \<Rightarrow> bytes_t" where
  "scan_size_bytes w ev = (case entry_totals (ee_dir w) (Some (fe_files ev)) (map_option cs_dir (fe_chunks ev)) of
       None \<Rightarrow> 0 | Some (_, sz) \<Rightarrow> sz)"

definition refresh_adaptive_cap :: "evict_env \<Rightarrow> bool \<Rightarrow> evictor \<Rightarrow> evictor" where
  "refresh_adaptive_cap w force ev = (
     if \<not> fe_adaptive ev then ev
     else if \<not> force \<and> ee_monotonic w - fe_cap_derived_at ev < CAP_REFRESH_INTERVAL then ev
     else ev\<lparr>fe_cap_derived_at := ee_monotonic w, fe_max := Some (adaptive_disk_cap_for (ee_free w) (fe_current ev))\<rparr>)"

definition budget :: "evict_env \<Rightarrow> evictor \<Rightarrow> disk_budget option" where
  "budget w ev = (if \<not> capped ev then None
     else if \<not> fe_adaptive ev then Some \<lparr>db_cap = the (fe_max ev), db_why = None\<rparr>
     else let own = (if fe_scanned ev then fe_current ev else scan_size_bytes w ev) in
       Some \<lparr>db_cap = adaptive_disk_cap (ee_free w + own), db_why = Some (disk_cap_reason (ee_free w) own)\<rparr>)"

definition announce_budget :: "evict_env \<Rightarrow> evictor \<Rightarrow> evictor" where
  "announce_budget w ev = (if \<not> ee_notices_wanted w \<or> fe_budget_shown ev then ev
     else ev\<lparr>fe_budget_shown := True, fe_announced := fe_announced ev @ (case budget w ev of None \<Rightarrow> [] | Some b \<Rightarrow> [b])\<rparr>)"

definition ensure_size_scanned :: "evict_env \<Rightarrow> evictor \<Rightarrow> evictor" where
  "ensure_size_scanned w ev = (if fe_scanned ev then ev
     else announce_budget w (refresh_adaptive_cap w True (ev\<lparr>fe_current := scan_size_bytes w ev, fe_scanned := True\<rparr>)))"

definition take_notices :: "evictor \<Rightarrow> evictor \<times> (bytes_t \<times> bytes_t \<times> nat) list" where
  "take_notices ev = (ev\<lparr>fe_notices := []\<rparr>, fe_notices ev)"

subsection \<open>Ranking\<close>

definition ensure_clock :: "evict_env \<Rightarrow> evictor \<Rightarrow> evictor" where
  "ensure_clock w ev = (if fe_clock_loaded ev then ev
     else let (ri, s, _) = ri_load (ee_rank_wrote w) (ee_rank_readable w) (fe_rank_index ev) in
       ev\<lparr>fe_rank_index := ri, fe_clock := max (fe_clock ev) (rs_clock s), fe_clock_loaded := True\<rparr>)"

text \<open>\<open>access_record\<close>; \<open>None\<close> when the file is gone or the priority cannot be computed.\<close>

definition access_record :: "evict_env \<Rightarrow> string \<Rightarrow> entry_metadata \<Rightarrow> string \<Rightarrow> evictor \<Rightarrow> evictor \<times> (string \<times> real) option" where
  "access_record w key m path ev = (
     let base = (case fe_base ev key of Some (Some b) \<Rightarrow> b | _ \<Rightarrow> fe_clock ev);
         ev = ev\<lparr>fe_base := (fe_base ev)(key \<mapsto> Some base)\<rparr> in
     (ev, case getsize w ev path of
        None \<Rightarrow> None
      | Some sz \<Rightarrow> map_option (\<lambda>p. (stem_of path, p)) (priority m sz base)))"

definition record_rank :: "evict_env \<Rightarrow> string \<Rightarrow> string \<Rightarrow> entry_metadata \<Rightarrow> bytes_t \<Rightarrow> evictor \<Rightarrow> evictor \<times> bool" where
  "record_rank w key path m sz ev = (
     let ev = ensure_clock w ev;
         seen = (case getmtime w ev path of Some t \<Rightarrow> t | None \<Rightarrow> ee_now w);
         ranked_at = (case m_last_access m of Some la \<Rightarrow> if seen < la then la else seen | None \<Rightarrow> seen);
         clock = fe_clock ev;
         ev = ev\<lparr>fe_base := (fe_base ev)(key \<mapsto> Some clock)\<rparr> in
     case priority m sz clock of
       None \<Rightarrow> (ev, False)
     | Some p \<Rightarrow>
         let seq = (case fe_seq_by_key ev key of None \<Rightarrow> 0 | Some n \<Rightarrow> n);
             ev = (if fe_ranked ev then ev\<lparr>fe_fresh := insort (p, seq, path, sz, ranked_at) (fe_fresh ev)\<rparr> else ev) in
         (ev\<lparr>fe_rank_index := ri_append (ee_rank_wrote w) [(stem_of path, p)] None (fe_rank_index ev)\<rparr>, True))"

text \<open>What a scan of the folder finds of each entry: its file time, and its size with its share of
  the chunks.\<close>

definition int_of_float :: "real \<Rightarrow> int" where
  "int_of_float x = (if 0 \<le> x then \<lfloor>x\<rfloor> else \<lceil>x\<rceil>)"

definition scan_ranks :: "evict_env \<Rightarrow> evictor \<Rightarrow> (string \<times> real \<times> bytes_t) list" where
  "scan_ranks w ev = (if \<not> de_scans (ee_dir w) then [] else
     map (\<lambda>(path, f). (path, mtime_of f, int (length (df_data f)) + int_of_float (case fe_chunks ev of
         None \<Rightarrow> 0 | Some cs \<Rightarrow> share cs (stem_of path))))
       (filter (\<lambda>(path, _). endswith path ENTRY_SUFFIX \<and> de_stats (ee_dir w) path) (fe_files ev)))"

record ranked =
  rk_path :: string
  rk_size :: bytes_t
  rk_stamp :: real
  rk_recency :: real
  rk_prio :: real
  rk_seq :: nat

text \<open>One entry of the scan: its ranking, and the clock its key is re-based at.\<close>

definition rank_entry ::
  "rank_state \<Rightarrow> real \<Rightarrow> evictor \<Rightarrow> string \<times> real \<times> bytes_t \<Rightarrow> evictor \<times> ranked option" where
  "rank_entry indexed clock ev e = (case e of (path, mtime, sz) \<Rightarrow>
     let key = key_for path (fe_touched ev);
         meta = te_meta key (fe_touched ev);
         read = (case meta of None \<Rightarrow> None | Some m \<Rightarrow>
                   (case m_last_access m of None \<Rightarrow> None | Some la \<Rightarrow> if mtime < la then Some la else None));
         stamp = (case read of None \<Rightarrow> mtime | Some la \<Rightarrow> la);
         recency = (case read of None \<Rightarrow> mtime
                     | Some la \<Rightarrow> if has_unflushed_read key (fe_touched ev) then la else mtime);
         seq = (case (meta, key) of (Some _, Some k) \<Rightarrow> (case fe_seq_by_key ev k of None \<Rightarrow> 0 | Some n \<Rightarrow> n) | _ \<Rightarrow> 0);
         based = (case (meta, key) of (Some _, Some k) \<Rightarrow> fe_base ev k | _ \<Rightarrow> None);
         ev1 = (case based of Some None \<Rightarrow> ev\<lparr>fe_base := (fe_base ev)(the key \<mapsto> Some clock)\<rparr> | _ \<Rightarrow> ev);
         prio = (case based of
             Some b \<Rightarrow> priority (the meta) sz (case b of None \<Rightarrow> clock | Some x \<Rightarrow> x)
           | None \<Rightarrow> (case map_of (rs_ranks indexed) (TWord (stem_of path)) of
                 Some p \<Rightarrow> Some p
               | None \<Rightarrow> priority (case meta of None \<Rightarrow> no_metadata | Some m \<Rightarrow> m) sz 0)) in
     (ev1, map_option (\<lambda>p. \<lparr>rk_path = path, rk_size = sz, rk_stamp = stamp, rk_recency = recency, rk_prio = p, rk_seq = seq\<rparr>) prio))"

fun rank_entries ::
  "rank_state \<Rightarrow> real \<Rightarrow> (string \<times> real \<times> bytes_t) list \<Rightarrow> evictor \<Rightarrow> evictor \<times> ranked list option" where
  "rank_entries indexed clock [] ev = (ev, Some [])"
| "rank_entries indexed clock (e # es) ev = (case rank_entry indexed clock ev e of
     (ev1, None) \<Rightarrow> (ev1, None)
   | (ev1, Some r) \<Rightarrow> (case rank_entries indexed clock es ev1 of
         (ev2, None) \<Rightarrow> (ev2, None)
       | (ev2, Some rs) \<Rightarrow> (ev2, Some (r # rs))))"

text \<open>Where the index last recorded a stem: its position, -1 when it did not.\<close>

definition recorded_at :: "rank_state \<Rightarrow> string \<Rightarrow> int" where
  "recorded_at indexed stem = (case List.find (\<lambda>i. fst (rs_ranks indexed ! i) = TWord stem) [0..<length (rs_ranks indexed)] of
       None \<Rightarrow> - 1 | Some i \<Rightarrow> int i)"

definition rank_order :: "rank_state \<Rightarrow> ranked \<Rightarrow> real \<times> real \<times> int \<times> nat" where
  "rank_order indexed r = (rk_prio r, rk_recency r, recorded_at indexed (stem_of (rk_path r)), rk_seq r)"

definition rebuild_queue :: "evict_env \<Rightarrow> evictor \<Rightarrow> evictor \<times> bool" where
  "rebuild_queue w ev = (
     let ranks = scan_ranks w ev;
         (ri, indexed, index_lines) = ri_load (ee_rank_wrote w) (ee_rank_readable w) (fe_rank_index ev);
         clock = max (fe_clock ev) (rs_clock indexed);
         ev1 = ev\<lparr>fe_rank_index := ri, fe_clock := clock, fe_clock_loaded := True\<rparr> in
     case rank_entries indexed clock ranks ev1 of
       (ev2, None) \<Rightarrow> (ev2, False)
     | (ev2, Some rs) \<Rightarrow>
         let ordered = sort_key (rank_order indexed) rs;
             ev3 = ev2\<lparr>fe_queue := map (\<lambda>r. (rk_path r, rk_size r, rk_stamp r)) ordered,
                       fe_rank_h := map_of (map (\<lambda>r. (rk_path r, rk_prio r)) rs), fe_fresh := [], fe_ranked := True\<rparr> in
         (if 2 * length ranks + 64 < index_lines
          then ev3\<lparr>fe_rank_index := ri_compact (ee_rank_renamed w)
                     \<lparr>rs_ranks = map (\<lambda>r. (TWord (stem_of (rk_path r)), rk_prio r)) ordered, rs_clock = clock\<rparr> (fe_rank_index ev3)\<rparr>
          else ev3, True))"

text \<open>The next victim: the lower of the two heads.\<close>

definition pop_candidate :: "evictor \<Rightarrow> evictor \<times> (string \<times> bytes_t \<times> real \<times> real) option" where
  "pop_candidate ev = (case (fe_queue ev, fe_fresh ev) of
       ([], []) \<Rightarrow> (ev, None)
     | ([], (p, _, path, sz, ranked_at) # fresh) \<Rightarrow> (ev\<lparr>fe_fresh := fresh\<rparr>, Some (path, sz, ranked_at, p))
     | ((path, sz, ranked_at) # rest, fresh) \<Rightarrow>
         let h = (case fe_rank_h ev path of None \<Rightarrow> 0 | Some x \<Rightarrow> x) in
         if fresh = [] \<or> (h, ranked_at) \<le> (fst (hd fresh), snd (snd (snd (snd (hd fresh))))) then
           (ev\<lparr>fe_queue := rest, fe_rank_h := (fe_rank_h ev)(path := None)\<rparr>, Some (path, sz, ranked_at, h))
         else (case hd fresh of (p, _, path', sz', at') \<Rightarrow> (ev\<lparr>fe_fresh := tl fresh\<rparr>, Some (path', sz', at', p))))"

subsection \<open>Removing an entry\<close>

text \<open>A key that is absent or empty is no key.\<close>

definition touched_since :: "evict_env \<Rightarrow> string \<Rightarrow> string option \<Rightarrow> real \<Rightarrow> evictor \<Rightarrow> bool" where
  "touched_since w path key ranked_at ev = (
     let meta = (if key = None \<or> key = Some [] then None else te_meta key (fe_touched ev)) in
     (case meta of
        None \<Rightarrow> False
      | Some m \<Rightarrow> (case m_last_access m of None \<Rightarrow> False | Some la \<Rightarrow> ranked_at < la))
     \<or> (case getmtime w ev path of None \<Rightarrow> False | Some t \<Rightarrow> ranked_at < t))"

text \<open>One \<open>os.remove\<close>, and \<open>_remove_with_retry\<close>: \<open>left\<close> retries of a denied attempt.\<close>

datatype removal = Removed | Missing | Denied | Failed

definition attempt_remove :: "evict_env \<Rightarrow> evictor \<Rightarrow> string \<Rightarrow> nat \<Rightarrow> removal" where
  "attempt_remove w ev path i = (
     if map_of (fe_files ev) path = None then Missing
     else if ee_denied w path i then Denied
     else if ee_stuck w path then Failed
     else Removed)"

fun remove_with_retry :: "evict_env \<Rightarrow> evictor \<Rightarrow> string \<Rightarrow> nat \<Rightarrow> nat \<Rightarrow> removal" where
  "remove_with_retry w ev path i 0 = attempt_remove w ev path i"
| "remove_with_retry w ev path i (Suc left) = (case attempt_remove w ev path i of
     Denied \<Rightarrow> remove_with_retry w ev path (Suc i) left
   | r \<Rightarrow> r)"

text \<open>The chunk store sees the entries by stem, and what it rewrites is a new file.\<close>

definition with_entries :: "folder \<Rightarrow> chunk_store \<Rightarrow> chunk_store" where
  "with_entries fs cs = cs\<lparr>cs_entries := (\<lambda>stem. map_option df_data (map_of fs (stem @ ENTRY_SUFFIX)))\<rparr>"

definition rewritten :: "dir_env \<Rightarrow> chunk_store \<Rightarrow> folder \<Rightarrow> folder" where
  "rewritten w cs fs = map (\<lambda>(path, f). (path,
     if endswith path ENTRY_SUFFIX then (case cs_entries cs (stem_of path) of
         Some d \<Rightarrow> if d = df_data f then f else \<lparr>df_data = d, df_mtime = de_now w, df_ino = de_fresh_ino w\<rparr>
       | None \<Rightarrow> f)
     else f)) fs"

definition chunks_held :: "evict_env \<Rightarrow> string \<Rightarrow> string \<Rightarrow> evictor \<Rightarrow> (string \<times> int) list option" where
  "chunks_held w path stem ev = (case fe_chunks ev of
       None \<Rightarrow> None
     | Some cs \<Rightarrow> if knows cs stem \<or> \<not> ee_chunks_dir w then None else
         (case map_of (fe_files ev) path of
            None \<Rightarrow> None
          | Some f \<Rightarrow> if \<not> de_readable (ee_dir w) path then None else
              (case snd (read_entry (ce_loads (ee_chunk_env w)) (entry_env (ee_chunk_env w) cs) (df_data f) False) of
                 Inl _ \<Rightarrow> None
               | Inr (m, _) \<Rightarrow> (case sm_chunks m of Some [] \<Rightarrow> None | held \<Rightarrow> held))))"

definition remove_path :: "evict_env \<Rightarrow> string \<Rightarrow> string option \<Rightarrow> evictor \<Rightarrow> evictor \<times> bytes_t" where
  "remove_path w path key ev = (
     let stem = stem_of path;
         held = chunks_held w path stem ev;
         own = (case getsize w ev path of None \<Rightarrow> 0 | Some sz \<Rightarrow> sz) in
     if remove_with_retry w ev path 0 REMOVE_RETRIES \<in> {Denied, Failed} then (ev, 0)
     else let fs = AList.delete path (fe_files ev);
              (chunks, fs, freed) = (case fe_chunks ev of
                  None \<Rightarrow> (None, fs, own)
                | Some cs \<Rightarrow> (case release (ee_chunk_env w) stem held (with_entries fs cs) of
                      (cs1, n) \<Rightarrow> (Some cs1, rewritten (ee_dir w) cs1 fs, own + n)));
              key = (case key of None \<Rightarrow> key_for path (fe_touched ev) | Some k \<Rightarrow> Some k) in
          (ev\<lparr>fe_files := fs, fe_chunks := chunks, fe_touched := te_forget key path (fe_touched ev),
              fe_seq_by_key := (case key of None \<Rightarrow> fe_seq_by_key ev | Some k \<Rightarrow> (fe_seq_by_key ev)(k := None)),
              fe_base := (case key of None \<Rightarrow> fe_base ev | Some k \<Rightarrow> (fe_base ev)(k := None)),
              fe_current := fe_current ev - freed\<rparr>, freed))"

subsection \<open>The eviction pass\<close>

record evict_pass =
  ep_recent :: bool
  ep_evicted :: nat
  ep_freed :: bytes_t
  ep_notes :: "(string \<times> eviction_note) list"

definition pass_start :: evict_pass where
  "pass_start = \<lparr>ep_recent = False, ep_evicted = 0, ep_freed = 0, ep_notes = []\<rparr>"

text \<open>What an entry took to compute, for its note; \<open>None\<close> is an exception of \<open>float\<close>.\<close>

definition note_seconds :: "entry_metadata option \<Rightarrow> pyfloat option" where
  "note_seconds meta = (case meta of
       None \<Rightarrow> Some (Fin (- 1))
     | Some m \<Rightarrow> if truthy (m_execution_time m) then float_of_val (m_execution_time m) else Some (Fin 0))"

text \<open>A write of the key is queued behind the one running now.\<close>

definition write_in_flight :: "evict_env \<Rightarrow> string option \<Rightarrow> bool" where
  "write_in_flight w key = (case key of None \<Rightarrow> False | Some k \<Rightarrow> Some k \<noteq> ee_own_key w \<and> ee_pending w k)"

definition written_recently :: "string option \<Rightarrow> evictor \<Rightarrow> bool" where
  "written_recently key ev = (case key of
       None \<Rightarrow> False
     | Some k \<Rightarrow> k \<noteq> [] \<and> (case fe_seq_by_key ev k of None \<Rightarrow> False | Some at_seq \<Rightarrow> int (fe_write_seq ev) - int at_seq \<le> int EVICT_WARN_RECENT_OPS))"

text \<open>One candidate of the loop; the flag is whether it ran through.\<close>

definition evict_candidate ::
  "evict_env \<Rightarrow> string \<times> bytes_t \<times> real \<times> real \<Rightarrow> evict_pass \<Rightarrow> evictor \<Rightarrow> evictor \<times> evict_pass \<times> bool" where
  "evict_candidate w c p ev = (case c of (path, _, ranked_at, prio) \<Rightarrow>
     let key = key_for path (fe_touched ev) in
     if touched_since w path key ranked_at ev then (ev, p, True)
     else if write_in_flight w key then (ev, p, True)
     else let p1 = p\<lparr>ep_recent := ep_recent p \<or> written_recently key ev\<rparr>;
              meta = te_meta key (fe_touched ev);
              held_value = (case meta of None \<Rightarrow> True | Some m \<Rightarrow> \<not> m_metadata_only m) in
       case note_seconds meta of
         None \<Rightarrow> (ev, p1, False)
       | Some seconds \<Rightarrow> (case remove_path w path key ev of (ev1, freed) \<Rightarrow>
           if freed = 0 then (ev1, p1, True)
           else (ev1\<lparr>fe_clock := max (fe_clock ev1) prio\<rparr>,
                 p1\<lparr>ep_evicted := ep_evicted p1 + 1, ep_freed := ep_freed p1 + freed,
                    ep_notes := ep_notes p1 @ (if held_value
                      then [(stem_of path, \<lparr>en_at = ee_now w, en_seconds = seconds, en_size = freed\<rparr>)] else [])\<rparr>, True)))"

lemma remove_path_queues [simp]:
  "fe_queue (fst (remove_path w path key ev)) = fe_queue ev" "fe_fresh (fst (remove_path w path key ev)) = fe_fresh ev"
  "fe_rank_h (fst (remove_path w path key ev)) = fe_rank_h ev" "fe_clock (fst (remove_path w path key ev)) = fe_clock ev"
  by (simp_all add: remove_path_def Let_def split_def)

lemma evict_candidate_queues [simp]:
  "fe_queue (fst (evict_candidate w c p ev)) = fe_queue ev" "fe_fresh (fst (evict_candidate w c p ev)) = fe_fresh ev"
  "fe_rank_h (fst (evict_candidate w c p ev)) = fe_rank_h ev"
  by (simp_all add: evict_candidate_def Let_def split_def split: option.split)

text \<open>How many candidates are queued; popping takes one.\<close>

definition queued :: "evictor \<Rightarrow> nat" where
  "queued ev = length (fe_queue ev) + length (fe_fresh ev)"

lemma pop_candidate_queued: "pop_candidate ev = (ev', Some c) \<Longrightarrow> queued ev = Suc (queued ev')"
  by (auto simp: pop_candidate_def queued_def Let_def neq_Nil_conv split: list.splits if_splits prod.splits)

lemma pop_candidate_None: "pop_candidate ev = (ev', None) \<longleftrightarrow> queued ev = 0 \<and> ev' = ev"
  by (auto simp: pop_candidate_def queued_def Let_def split: list.splits if_splits prod.splits)

lemma evict_candidate_queued: "evict_candidate w c p ev = (ev', r) \<Longrightarrow> queued ev' = queued ev"
  using evict_candidate_queues [of w c p ev] by (simp add: queued_def)

text \<open>The \<open>while\<close> loop of \<open>evict\<close>. Each turn takes a candidate away, and the ranking is rebuilt at
  most once, so it ends.\<close>

function evict_loop :: "evict_env \<Rightarrow> real \<Rightarrow> bool \<Rightarrow> evict_pass \<Rightarrow> evictor \<Rightarrow> evictor \<times> evict_pass \<times> bool" where
  "evict_loop w target rebuilt p ev = (
     if of_int (fe_current ev) \<le> target then (ev, p, True)
     else case pop_candidate ev of
       (ev1, None) \<Rightarrow>
         if rebuilt then (ev1, p, True)
         else (case rebuild_queue w ev1 of
             (ev2, False) \<Rightarrow> (ev2, p, False)
           | (ev2, True) \<Rightarrow> if fe_queue ev2 = [] \<and> fe_fresh ev2 = [] then (ev2, p, True) else evict_loop w target True p ev2)
     | (ev1, Some c) \<Rightarrow> (case evict_candidate w c p ev1 of
           (ev2, p2, False) \<Rightarrow> (ev2, p2, False)
         | (ev2, p2, True) \<Rightarrow> evict_loop w target rebuilt p2 ev2))"
  by pat_completeness auto

termination
  by (relation "measures [\<lambda>(w, target, rebuilt, p, ev). if rebuilt then 0 else 1, \<lambda>(w, target, rebuilt, p, ev). queued ev]")
     (auto dest!: pop_candidate_queued [OF sym] evict_candidate_queued [OF sym])

declare evict_loop.simps [simp del]

definition report_eviction :: "bytes_t \<Rightarrow> nat \<Rightarrow> evictor \<Rightarrow> evictor" where
  "report_eviction freed n ev = (if fe_eviction_told ev then ev
     else ev\<lparr>fe_eviction_told := True,
            fe_notices := fe_notices ev @ [(case fe_max ev of None \<Rightarrow> 0 | Some m \<Rightarrow> m, freed, n)]\<rparr>)"

text \<open>The size at which the bytes of the ranked entries, counted from the smallest, cross half.\<close>

fun crossing :: "real \<Rightarrow> bytes_t \<Rightarrow> bytes_t list \<Rightarrow> bytes_t option" where
  "crossing half run [] = None"
| "crossing half run (sz # szs) = (if half \<le> of_int (run + sz) then Some sz else crossing half (run + sz) szs)"

definition dominant_entry_size :: "evictor \<Rightarrow> bytes_t option" where
  "dominant_entry_size ev = (
     let szs = sort (map (\<lambda>(_, s, _). s) (fe_queue ev) @ map (\<lambda>(_, _, _, s, _). s) (fe_fresh ev)) in
     if szs = [] then None
     else case crossing (of_int (sum_list szs) / 2) 0 szs of Some s \<Rightarrow> Some s | None \<Rightarrow> Some (last szs))"

definition warn_thrash :: "evict_env \<Rightarrow> evictor \<Rightarrow> evictor" where
  "warn_thrash w ev = (if fe_warned_thrash ev then ev
     else let cap = (case fe_max ev of None \<Rightarrow> 0 | Some m \<Rightarrow> m);
              fits = (case dominant_entry_size ev of
                  None \<Rightarrow> None
                | Some d \<Rightarrow> if d = 0 \<or> cap = 0 then None
                    else let n = max 1 (cap div d) in if n < FEW_ENTRIES_FIT then Some n else None) in
          ev\<lparr>fe_warned_thrash := True, fe_warnings := fe_warnings ev @
               [\<lparr>tw_cap = cap, tw_free = ee_free w, tw_room = (cap \<le> ee_free w), tw_fits = fits\<rparr>]\<rparr>)"

definition index_chunks :: "evict_env \<Rightarrow> evictor \<Rightarrow> evictor" where
  "index_chunks w ev = (case fe_chunks ev of
       None \<Rightarrow> ev
     | Some cs \<Rightarrow> if cs_indexed cs then ev
         else let (cs1, swept) = ensure_index (ee_chunk_env w) (with_entries (fe_files ev) cs) in
           ev\<lparr>fe_chunks := Some cs1, fe_current := fe_current ev - swept\<rparr>)"

definition finish_pass :: "evict_env \<Rightarrow> evict_pass \<Rightarrow> evictor \<Rightarrow> evictor" where
  "finish_pass w p ev = (
     let ev = ev\<lparr>fe_evictions := el_record (ee_log w) (ep_notes p) (fe_evictions ev)\<rparr>;
         ev = (if ep_evicted p = 0 then ev
               else report_eviction (ep_freed p) (ep_evicted p)
                 (ev\<lparr>fe_rank_index := ri_append (ee_rank_wrote w) [] (Some (fe_clock ev)) (fe_rank_index ev)\<rparr>)) in
     if ep_recent p then warn_thrash w ev else ev)"

definition over_cap :: "evictor \<Rightarrow> bool" where
  "over_cap ev = (case fe_max ev of None \<Rightarrow> False | Some m \<Rightarrow> m < fe_current ev)"

definition target_of :: "evictor \<Rightarrow> real" where
  "target_of ev = of_int (the (fe_max ev)) * (9 / 10)"

definition evict :: "evict_env \<Rightarrow> evictor \<Rightarrow> evictor \<times> bool" where
  "evict w ev = (if \<not> capped ev then (ev, True) else
     let ev = refresh_adaptive_cap w False (ensure_size_scanned w ev) in
     if \<not> over_cap ev then (ev, True)
     else case evict_loop w (target_of ev) False pass_start (index_chunks w ev) of
         (ev1, p, False) \<Rightarrow> (ev1, False)
       | (ev1, p, True) \<Rightarrow> (finish_pass w p ev1, True))"

end
