(* ===== verification/Eviction_Pass.thy ===== *)
theory Eviction_Pass
  imports File_Eviction
begin

text \<open>
  What an eviction pass does, whatever the folder holds: it ends, it never touches an entry
  with a write in flight, it keeps the byte total true, it takes the least valuable candidate
  first, and when nothing stands in its way it gets the cache under its target.
\<close>

subsection \<open>What holds throughout a pass\<close>

text \<open>A relation between the pass and the evictor that rebuilding the ranking keeps, and that taking
  and handling a candidate keep, holds at the end of the loop.\<close>

locale pass_invariant =
  fixes w :: evict_env and P :: "evict_pass \<Rightarrow> evictor \<Rightarrow> bool"
  assumes rebuild_keeps: "P p ev \<Longrightarrow> P p (fst (rebuild_queue w ev))"
    and turn_keeps: "P p ev \<Longrightarrow> pop_candidate ev = (ev1, Some c) \<Longrightarrow> evict_candidate w c p ev1 = (ev', p', ok) \<Longrightarrow> P p' ev'"
begin

lemma loop_keeps: "u = w \<Longrightarrow> P p ev \<Longrightarrow> evict_loop u target rebuilt p ev = (ev', p', ok) \<Longrightarrow> P p' ev'"
proof (induction u target rebuilt p ev arbitrary: ev' p' rule: evict_loop.induct)
  case (1 u target rebuilt p ev)
  note step = evict_loop.simps [of u target rebuilt p ev]
  show ?case
  proof (cases "of_int (fe_current ev) \<le> target")
    case True
    with "1.prems" step show ?thesis by simp
  next
    case False
    obtain ev1 c where pop: "pop_candidate ev = (ev1, c)" by force
    show ?thesis
    proof (cases c)
      case (Some x)
      obtain ev2 p2 b where cand: "evict_candidate u x p ev1 = (ev2, p2, b)" by (cases "evict_candidate u x p ev1")
      then have "P p2 ev2" using turn_keeps [OF "1.prems"(2)] pop Some "1.prems"(1) by blast
      moreover have run: "evict_loop u target rebuilt p ev = (if b then evict_loop u target rebuilt p2 ev2 else (ev2, p2, False))"
        using cand pop Some False by (subst step) (cases b, simp_all)
      moreover have "P p' ev'" if "b" "P p2 ev2"
        using "1.IH"(2) [OF False pop [symmetric] Some cand [symmetric] refl] that run "1.prems" by simp
      ultimately show ?thesis using "1.prems"(3) by (cases b) simp_all
    next
      case None
      obtain ev2 b where rb: "rebuild_queue u ev1 = (ev2, b)" by force
      moreover have P1: "P p ev1" using "1.prems"(2) pop None pop_candidate_None [of ev ev1] by simp
      ultimately have "P p ev2" using rebuild_keeps [OF P1] "1.prems"(1) by (metis fst_conv)
      moreover have run: "evict_loop u target rebuilt p ev = (if rebuilt then (ev1, p, True) else if \<not> b then (ev2, p, False)
          else if fe_queue ev2 = [] \<and> fe_fresh ev2 = [] then (ev2, p, True) else evict_loop u target True p ev2)"
        using rb pop None False by (subst step) (cases b, simp_all)
      moreover have "P p' ev'" if "\<not> rebuilt" "b" "\<not> (fe_queue ev2 = [] \<and> fe_fresh ev2 = [])" "P p ev2"
        using "1.IH"(1) [OF False pop [symmetric] None that(1) rb [symmetric]] that run "1.prems"
        by (simp split: if_splits)
      ultimately show ?thesis using P1 "1.prems"(3) by (auto split: if_splits)
    qed
  qed
qed

end

lemma pop_candidate_fields [simp]:
  "fe_files (fst (pop_candidate ev)) = fe_files ev" "fe_touched (fst (pop_candidate ev)) = fe_touched ev"
  "fe_chunks (fst (pop_candidate ev)) = fe_chunks ev" "fe_current (fst (pop_candidate ev)) = fe_current ev"
  "fe_clock (fst (pop_candidate ev)) = fe_clock ev" "fe_max (fst (pop_candidate ev)) = fe_max ev"
  by (simp_all add: pop_candidate_def Let_def split: list.split prod.split)

lemma pop_same:
  assumes "pop_candidate ev = (ev1, c)"
  shows "fe_files ev1 = fe_files ev" and "fe_touched ev1 = fe_touched ev" and "fe_chunks ev1 = fe_chunks ev"
    and "fe_current ev1 = fe_current ev" and "fe_clock ev1 = fe_clock ev"
  using pop_candidate_fields [of ev] unfolding assms fst_conv by simp_all

lemma rank_entries_fields:
  "rank_entries indexed clock es ev = (ev', r) \<Longrightarrow>
     fe_files ev' = fe_files ev \<and> fe_touched ev' = fe_touched ev \<and> fe_chunks ev' = fe_chunks ev \<and> fe_current ev' = fe_current ev
     \<and> fe_clock ev' = fe_clock ev \<and> fe_max ev' = fe_max ev"
proof (induction es arbitrary: ev r)
  case (Cons e es)
  obtain ev1 r1 where one: "rank_entry indexed clock ev e = (ev1, r1)" by force
  then have "fe_files ev1 = fe_files ev \<and> fe_touched ev1 = fe_touched ev \<and> fe_chunks ev1 = fe_chunks ev \<and> fe_current ev1 = fe_current ev
     \<and> fe_clock ev1 = fe_clock ev \<and> fe_max ev1 = fe_max ev"
    by (auto simp: rank_entry_def Let_def split: prod.splits option.splits)
  with one Cons show ?case by (auto split: option.splits prod.splits)
qed simp

lemma rebuild_queue_fields [simp]:
  "fe_files (fst (rebuild_queue w ev)) = fe_files ev" "fe_touched (fst (rebuild_queue w ev)) = fe_touched ev"
  "fe_chunks (fst (rebuild_queue w ev)) = fe_chunks ev" "fe_current (fst (rebuild_queue w ev)) = fe_current ev"
  "fe_max (fst (rebuild_queue w ev)) = fe_max ev"
  by (auto simp: rebuild_queue_def Let_def split: prod.splits option.splits dest!: rank_entries_fields)

lemma rebuild_clock: "fe_clock ev \<le> fe_clock (fst (rebuild_queue w ev))"
  by (auto simp: rebuild_queue_def Let_def split: prod.splits option.splits dest!: rank_entries_fields)

lemma map_of_map_key: "map_of (map (\<lambda>(k, v). (k, f k v)) xs) k = map_option (f k) (map_of xs k)"
  by (induction xs) auto

lemma rewritten_names: "map_of (rewritten w cs fs) path = None \<longleftrightarrow> map_of fs path = None"
  by (simp add: rewritten_def map_of_map_key)

lemma remove_path_others:
  assumes "path \<noteq> gone"
  shows "map_of (fe_files (fst (remove_path w gone key ev))) path = None \<longleftrightarrow> map_of (fe_files ev) path = None"
    and "te_keys (fe_touched (fst (remove_path w gone key ev))) path = te_keys (fe_touched ev) path"
proof -
  show "map_of (fe_files (fst (remove_path w gone key ev))) path = None \<longleftrightarrow> map_of (fe_files ev) path = None"
    using assms by (auto simp: remove_path_def Let_def split_def rewritten_names map_of_delete split: option.splits)
  show "te_keys (fe_touched (fst (remove_path w gone key ev))) path = te_keys (fe_touched ev) path"
    using assms by (simp add: remove_path_def Let_def split_def te_forget_def split: option.split)
qed

text \<open>Handling a candidate either leaves the folder alone or removes the candidate.\<close>

lemma evict_candidate_cases:
  assumes "evict_candidate w (path, sz, ranked_at, prio) p ev = (ev', p', ok)"
  obtains (kept) "ev' = ev" "ep_evicted p' = ep_evicted p" "ep_freed p' = ep_freed p" "ep_notes p' = ep_notes p"
      "touched_since w path (key_for path (fe_touched ev)) ranked_at ev \<or> write_in_flight w (key_for path (fe_touched ev)) \<or> \<not> ok"
  | (taken) ev1 freed where "\<not> touched_since w path (key_for path (fe_touched ev)) ranked_at ev"
      "\<not> write_in_flight w (key_for path (fe_touched ev))" "remove_path w path (key_for path (fe_touched ev)) ev = (ev1, freed)"
      "ev' = (if freed = 0 then ev1 else ev1\<lparr>fe_clock := max (fe_clock ev1) prio\<rparr>)"
      "ep_freed p' = ep_freed p + freed" "ok"
proof -
  let ?key = "key_for path (fe_touched ev)"
  obtain ev1 freed where rm: "remove_path w path ?key ev = (ev1, freed)" by force
  show thesis
  proof (cases "touched_since w path ?key ranked_at ev \<or> write_in_flight w ?key \<or> note_seconds (te_meta ?key (fe_touched ev)) = None")
    case True
    with assms show thesis by (intro kept) (auto simp: evict_candidate_def Let_def split: if_splits)
  next
    case False
    with assms rm show thesis
      by (intro taken [of ev1 freed]) (auto simp: evict_candidate_def Let_def split: if_splits option.splits)
  qed
qed

subsection \<open>Writes in flight\<close>

definition guarded :: "evict_env \<Rightarrow> string \<Rightarrow> string \<Rightarrow> evict_pass \<Rightarrow> evictor \<Rightarrow> bool" where
  "guarded w path key p ev = (write_in_flight w (Some key) \<and> map_of (fe_files ev) path \<noteq> None \<and> te_keys (fe_touched ev) path = Some key)"

lemma guarded_candidate:
  assumes "guarded w path key p ev" and "evict_candidate w c p ev = (ev', p', ok)"
  shows "guarded w path key p' ev'"
proof -
  obtain gone sz ranked_at prio where c: "c = (gone, sz, ranked_at, prio)" by (cases c)
  from assms(2) [unfolded c] show ?thesis
  proof (cases rule: evict_candidate_cases)
    case kept
    with assms(1) show ?thesis by (simp add: guarded_def)
  next
    case (taken ev1 freed)
    then have "gone \<noteq> path" using assms(1) by (auto simp: guarded_def key_for_def)
    with taken(3,4) assms(1) show ?thesis
      using remove_path_others [of path gone w "key_for gone (fe_touched ev)" ev] by (auto simp: guarded_def)
  qed
qed

interpretation guarded_pass: pass_invariant w "guarded w path key" for w path key
proof
  fix p ev ev1 c ev' p' ok
  assume g: "guarded w path key p ev" and pop: "pop_candidate ev = (ev1, Some c)" and c: "evict_candidate w c p ev1 = (ev', p', ok)"
  from g have "guarded w path key p ev1" by (simp add: guarded_def pop_same [OF pop])
  then show "guarded w path key p' ev'" using c by (rule guarded_candidate)
qed (simp add: guarded_def)

lemma scan_fields [simp]:
  "fe_files (ensure_size_scanned w ev) = fe_files ev" "fe_touched (ensure_size_scanned w ev) = fe_touched ev"
  "fe_files (refresh_adaptive_cap w force ev) = fe_files ev" "fe_touched (refresh_adaptive_cap w force ev) = fe_touched ev"
  "fe_files (index_chunks w ev) = fe_files ev" "fe_touched (index_chunks w ev) = fe_touched ev"
  "fe_files (finish_pass w p ev) = fe_files ev" "fe_touched (finish_pass w p ev) = fe_touched ev"
  by (simp_all add: ensure_size_scanned_def announce_budget_def refresh_adaptive_cap_def index_chunks_def finish_pass_def
      report_eviction_def warn_thrash_def Let_def split_def split: option.split)


subsection \<open>The byte total\<close>

definition entry_bytes :: "folder \<Rightarrow> bytes_t" where
  "entry_bytes fs = sum_list (map (\<lambda>(path, f). if endswith path ENTRY_SUFFIX then int (length (df_data f)) else 0) fs)"

lemma entry_bytes_simps [simp]:
  "entry_bytes [] = 0"
  "entry_bytes ((path, f) # fs) = (if endswith path ENTRY_SUFFIX then int (length (df_data f)) else 0) + entry_bytes fs"
  by (simp_all add: entry_bytes_def)

lemma entry_bytes_delete:
  "dict_ok fs \<Longrightarrow> endswith path ENTRY_SUFFIX \<Longrightarrow>
     entry_bytes (AList.delete path fs) = entry_bytes fs - (case map_of fs path of None \<Rightarrow> 0 | Some f \<Rightarrow> int (length (df_data f)))"
  by (induction fs) (auto simp: delete_notin)

lemma entry_bytes_none: "(\<forall>path \<in> fst ` set fs. \<not> endswith path ENTRY_SUFFIX) \<Longrightarrow> entry_bytes fs = 0"
  by (induction fs) auto

lemma scan_entry_bytes:
  assumes "de_scans (ee_dir w)" and "\<And>path. de_stats (ee_dir w) path" and "fe_chunks ev = None"
  shows "scan_size_bytes w ev = entry_bytes (fe_files ev)"
proof -
  have "sum_list (map (\<lambda>(_, f). int (length (df_data f))) (filter (\<lambda>(name, _). endswith name ENTRY_SUFFIX) fs)) = entry_bytes fs" for fs
    by (induction fs) auto
  with assms show ?thesis by (simp add: scan_size_bytes_def entry_totals_def chunk_files_def Let_def)
qed

text \<open>The paths the evictor may take are entries.\<close>

definition candidates :: "evictor \<Rightarrow> string set" where
  "candidates ev = fst ` set (fe_queue ev) \<union> (\<lambda>f. fst (snd (snd f))) ` set (fe_fresh ev)"

definition tracked :: "evict_env \<Rightarrow> evict_pass \<Rightarrow> evictor \<Rightarrow> bool" where
  "tracked w p ev = ((\<forall>path. de_stats (ee_dir w) path) \<and> fe_chunks ev = None \<and> dict_ok (fe_files ev)
     \<and> fe_current ev = entry_bytes (fe_files ev) \<and> (\<forall>path \<in> candidates ev. endswith path ENTRY_SUFFIX))"

text \<open>The two ways a candidate is taken, and why that one.\<close>

abbreviation rank_of :: "evictor \<Rightarrow> string \<Rightarrow> real" where
  "rank_of ev path \<equiv> (case fe_rank_h ev path of None \<Rightarrow> 0 | Some x \<Rightarrow> x)"

lemma pop_candidate_cases:
  assumes "pop_candidate ev = (ev', Some (path, sz, ranked_at, prio))"
  obtains (queue) rest where "fe_queue ev = (path, sz, ranked_at) # rest" "prio = rank_of ev path"
      "ev' = ev\<lparr>fe_queue := rest, fe_rank_h := (fe_rank_h ev)(path := None)\<rparr>"
      "\<And>p seq path' sz' at' fresh. fe_fresh ev = (p, seq, path', sz', at') # fresh \<Longrightarrow> (prio, ranked_at) \<le> (p, at')"
  | (fresh) seq fresh where "fe_fresh ev = (prio, seq, path, sz, ranked_at) # fresh" "ev' = ev\<lparr>fe_fresh := fresh\<rparr>"
      "\<And>path' sz' at' rest. fe_queue ev = (path', sz', at') # rest \<Longrightarrow> (prio, ranked_at) \<le> (rank_of ev path', at')"
proof (cases "fe_queue ev")
  case Nil
  with assms show thesis by (cases "fe_fresh ev") (auto simp: pop_candidate_def intro: fresh)
next
  case (Cons q rest)
  obtain path1 sz1 at1 where q: "q = (path1, sz1, at1)" by (cases q)
  show thesis
  proof (cases "fe_fresh ev = [] \<or> (rank_of ev path1, at1) \<le> (fst (hd (fe_fresh ev)), snd (snd (snd (snd (hd (fe_fresh ev))))))")
    case True
    with assms Cons q show thesis by (intro queue [of rest]) (auto simp: pop_candidate_def Let_def)
  next
    case False
    then obtain p seq path2 sz2 at2 fr where f: "fe_fresh ev = (p, seq, path2, sz2, at2) # fr"
      by (cases "fe_fresh ev") auto
    with False assms Cons q show thesis by (intro fresh [of seq fr]) (auto simp: pop_candidate_def Let_def split: if_splits)
  qed
qed

lemma pop_candidate_from:
  "candidates (fst (pop_candidate ev)) \<subseteq> candidates ev"
  "pop_candidate ev = (ev', Some (path, sz, ranked_at, prio)) \<Longrightarrow> path \<in> candidates ev"
proof -
  show "candidates (fst (pop_candidate ev)) \<subseteq> candidates ev"
  proof (cases "snd (pop_candidate ev)")
    case None
    then show ?thesis using pop_candidate_None [of ev "fst (pop_candidate ev)"] by (metis order_refl prod.collapse)
  next
    case (Some c)
    then obtain path sz at_t prio where "pop_candidate ev = (fst (pop_candidate ev), Some (path, sz, at_t, prio))"
      by (metis prod.collapse)
    then show ?thesis by (cases rule: pop_candidate_cases) (auto simp: candidates_def)
  qed
  show "pop_candidate ev = (ev', Some (path, sz, ranked_at, prio)) \<Longrightarrow> path \<in> candidates ev"
    by (erule pop_candidate_cases) (auto simp: candidates_def)
qed

lemma rank_entries_paths: "rank_entries indexed clock es ev = (ev', Some rs) \<Longrightarrow> map rk_path rs = map fst es"
proof (induction es arbitrary: ev rs)
  case (Cons e es)
  obtain ev1 r1 where one: "rank_entry indexed clock ev e = (ev1, r1)" by force
  with Cons show ?case
    by (auto simp: rank_entry_def Let_def split: prod.splits option.splits)
qed simp

lemma rebuild_candidates:
  assumes "rebuild_queue w ev = (ev', True)"
  shows "fe_fresh ev' = [] \<and> fst ` set (fe_queue ev') = fst ` set (scan_ranks w ev)"
proof -
  obtain ri indexed lines where load: "ri_load (ee_rank_wrote w) (ee_rank_readable w) (fe_rank_index ev) = (ri, indexed, lines)"
    by (cases "ri_load (ee_rank_wrote w) (ee_rank_readable w) (fe_rank_index ev)")
  let ?clock = "max (fe_clock ev) (rs_clock indexed)"
  obtain ev2 rs where rank: "rank_entries indexed ?clock (scan_ranks w ev)
      (ev\<lparr>fe_rank_index := ri, fe_clock := ?clock, fe_clock_loaded := True\<rparr>) = (ev2, Some rs)"
    using assms load by (auto simp: rebuild_queue_def Let_def split: prod.splits option.splits)
  then have "fe_fresh ev' = []" "fe_queue ev' = map (\<lambda>r. (rk_path r, rk_size r, rk_stamp r)) (sort_key (rank_order indexed) rs)"
    using assms load by (auto simp: rebuild_queue_def Let_def)
  moreover have "rk_path ` set rs = fst ` set (scan_ranks w ev)"
    using arg_cong [OF rank_entries_paths [OF rank], of set] by simp
  ultimately show ?thesis by (simp add: image_image)
qed

lemma rebuild_failed_queues:
  assumes "rebuild_queue w ev = (ev', False)"
  shows "fe_queue ev' = fe_queue ev \<and> fe_fresh ev' = fe_fresh ev"
proof -
  have "fe_queue ev2 = fe_queue ev1 \<and> fe_fresh ev2 = fe_fresh ev1" if "rank_entries indexed clock es ev1 = (ev2, r)" for indexed clock es ev1 ev2 r
    using that
  proof (induction es arbitrary: ev1 r)
    case (Cons e es)
    obtain ev3 r3 where one: "rank_entry indexed clock ev1 e = (ev3, r3)" by force
    then have "fe_queue ev3 = fe_queue ev1 \<and> fe_fresh ev3 = fe_fresh ev1"
      by (auto simp: rank_entry_def Let_def split: prod.splits option.splits)
    with one Cons show ?case by (auto split: option.splits prod.splits)
  qed simp
  with assms show ?thesis by (fastforce simp: rebuild_queue_def Let_def split: prod.splits option.splits)
qed

lemma scan_ranks_entries: "path \<in> fst ` set (scan_ranks w ev) \<Longrightarrow> endswith path ENTRY_SUFFIX"
  by (auto simp: scan_ranks_def split: if_splits)

lemma remove_with_retry_present:
  "map_of (fe_files ev) path = None \<Longrightarrow> remove_with_retry w ev path i n = Missing"
  by (cases n) (simp_all add: attempt_remove_def)

lemma remove_path_plain:
  assumes "fe_chunks ev = None" and "\<And>path. de_stats (ee_dir w) path" and "remove_path w path key ev = (ev', freed)"
  shows "(ev' = ev \<and> freed = 0 \<and> remove_with_retry w ev path 0 REMOVE_RETRIES \<in> {Denied, Failed})
    \<or> (fe_files ev' = AList.delete path (fe_files ev) \<and> fe_chunks ev' = None \<and> fe_current ev' = fe_current ev - freed
       \<and> freed = (case map_of (fe_files ev) path of None \<Rightarrow> 0 | Some f \<Rightarrow> int (length (df_data f)))
       \<and> fe_touched ev' = te_forget (case key of None \<Rightarrow> key_for path (fe_touched ev) | Some k \<Rightarrow> Some k) path (fe_touched ev))"
  using assms by (auto simp: remove_path_def getsize_def Let_def split: if_splits option.splits)

lemma tracked_candidate:
  assumes tr: "tracked w p ev" and "evict_candidate w (path, sz, ranked_at, prio) p ev = (ev', p', ok)"
    and suffix: "endswith path ENTRY_SUFFIX"
  shows "tracked w p' ev'"
  using assms(2)
proof (cases rule: evict_candidate_cases)
  case kept
  with tr show ?thesis by (simp add: tracked_def)
next
  case (taken ev1 freed)
  have cand: "candidates ev1 = candidates ev" using taken(3) remove_path_queues [of w path "key_for path (fe_touched ev)" ev]
    by (simp add: candidates_def)
  have "tracked w p' ev1"
    using remove_path_plain [OF _ _ taken(3)] tr suffix cand
    by (auto simp: tracked_def dict_ok_delete entry_bytes_delete)
  with taken(4) show ?thesis by (auto simp: tracked_def candidates_def)
qed

interpretation tracked_pass: pass_invariant w "tracked w" for w
proof
  fix p ev
  assume tr: "tracked w p ev"
  obtain ev' b where rb: "rebuild_queue w ev = (ev', b)" by force
  then have "\<forall>path \<in> candidates ev'. endswith path ENTRY_SUFFIX"
    using tr rebuild_candidates [of w ev ev'] rebuild_failed_queues [of w ev ev'] scan_ranks_entries
    by (cases b) (auto simp: candidates_def tracked_def)
  with tr rb rebuild_queue_fields [of w ev] show "tracked w p (fst (rebuild_queue w ev))" by (simp add: tracked_def)
next
  fix p ev ev1 c ev' p' ok
  assume tr: "tracked w p ev" and pop: "pop_candidate ev = (ev1, Some c)" and cand: "evict_candidate w c p ev1 = (ev', p', ok)"
  obtain path sz ranked_at prio where c: "c = (path, sz, ranked_at, prio)" by (cases c)
  have "candidates ev1 \<subseteq> candidates ev" using pop_candidate_from(1) [of ev] unfolding pop fst_conv .
  with tr have "tracked w p ev1" by (auto simp: tracked_def pop_same [OF pop])
  moreover have "endswith path ENTRY_SUFFIX" using tr pop_candidate_from(2) [OF pop [unfolded c]] by (simp add: tracked_def)
  ultimately show "tracked w p' ev'" by (intro tracked_candidate [OF _ cand [unfolded c]])
qed


subsection \<open>Getting under the target\<close>

definition stamp_of :: "evictor \<Rightarrow> string \<Rightarrow> real \<Rightarrow> real" where
  "stamp_of ev path mtime = (case te_meta (key_for path (fe_touched ev)) (fe_touched ev) of
       None \<Rightarrow> mtime
     | Some m \<Rightarrow> (case m_last_access m of None \<Rightarrow> mtime | Some la \<Rightarrow> if mtime < la then la else mtime))"

lemma rank_entries_stamps:
  "rank_entries indexed clock es ev = (ev', Some rs) \<Longrightarrow> (path, mtime, sz) \<in> set es \<Longrightarrow>
     \<exists>r \<in> set rs. rk_path r = path \<and> rk_stamp r = stamp_of ev path mtime"
proof (induction es arbitrary: ev rs)
  case (Cons e es)
  obtain ev1 r1 where one: "rank_entry indexed clock ev e = (ev1, Some r1)"
    using Cons.prems(1) by (cases "rank_entry indexed clock ev e"; cases "snd (rank_entry indexed clock ev e)") auto
  obtain rs' where rs: "rank_entries indexed clock es ev1 = (ev', Some rs')" "rs = r1 # rs'"
    using Cons.prems(1) one by (auto split: prod.splits option.splits)
  have t: "fe_touched ev1 = fe_touched ev" using one by (auto simp: rank_entry_def Let_def split: prod.splits option.splits)
  have "rk_path r1 = fst e \<and> rk_stamp r1 = stamp_of ev (fst e) (fst (snd e))"
    using one by (auto simp: rank_entry_def stamp_of_def Let_def split: prod.splits option.splits)
  moreover have "stamp_of ev1 = stamp_of ev" using t by (simp add: stamp_of_def fun_eq_iff)
  moreover have "\<exists>r \<in> set rs'. rk_path r = path \<and> rk_stamp r = stamp_of ev1 path mtime" if "(path, mtime, sz) \<in> set es"
    by (rule Cons.IH [OF rs(1) that])
  moreover have "e = (path, mtime, sz) \<or> (path, mtime, sz) \<in> set es" using Cons.prems(2) by auto
  ultimately show ?case using rs(2) by auto
qed simp

lemma rebuild_stamps:
  assumes "rebuild_queue w ev = (ev', True)" and "(path, mtime, sz) \<in> set (scan_ranks w ev)"
  shows "\<exists>sz. (path, sz, stamp_of ev path mtime) \<in> set (fe_queue ev')"
proof -
  obtain ri indexed lines where load: "ri_load (ee_rank_wrote w) (ee_rank_readable w) (fe_rank_index ev) = (ri, indexed, lines)"
    by (cases "ri_load (ee_rank_wrote w) (ee_rank_readable w) (fe_rank_index ev)")
  let ?clock = "max (fe_clock ev) (rs_clock indexed)"
  let ?ev = "ev\<lparr>fe_rank_index := ri, fe_clock := ?clock, fe_clock_loaded := True\<rparr>"
  obtain ev2 rs where rank: "rank_entries indexed ?clock (scan_ranks w ev) ?ev = (ev2, Some rs)"
    using assms(1) load by (auto simp: rebuild_queue_def Let_def split: prod.splits option.splits)
  then have q: "fe_queue ev' = map (\<lambda>r. (rk_path r, rk_size r, rk_stamp r)) (sort_key (rank_order indexed) rs)"
    using assms(1) load by (auto simp: rebuild_queue_def Let_def)
  have "stamp_of ?ev path mtime = stamp_of ev path mtime" by (simp add: stamp_of_def)
  with rank_entries_stamps [OF rank assms(2)] obtain r where "r \<in> set rs" "rk_path r = path" "rk_stamp r = stamp_of ev path mtime"
    by auto
  then have "(path, rk_size r, stamp_of ev path mtime) \<in> (\<lambda>r. (rk_path r, rk_size r, rk_stamp r)) ` set rs"
    by (intro image_eqI [of _ _ r]) simp_all
  with q show ?thesis by auto
qed

lemma stamp_not_touched:
  assumes "map_of (fe_files ev) path = Some f"
  shows "\<not> touched_since w path (key_for path (fe_touched ev)) (stamp_of ev path (mtime_of f)) ev"
  using assms by (auto simp: touched_since_def stamp_of_def getmtime_def Let_def split: option.splits if_splits)

text \<open>Nothing stands in the way of a removal.\<close>

definition free_to_evict :: "evict_env \<Rightarrow> bool" where
  "free_to_evict w = ((\<forall>path i. \<not> ee_denied w path i) \<and> (\<forall>path. \<not> ee_stuck w path) \<and> (\<forall>key. \<not> write_in_flight w key))"

text \<open>Every entry in the folder is queued and not touched since it was ranked.\<close>

definition all_ranked :: "evict_env \<Rightarrow> evictor \<Rightarrow> bool" where
  "all_ranked w ev = (fe_fresh ev = [] \<and> (\<forall>path f. map_of (fe_files ev) path = Some f \<longrightarrow> endswith path ENTRY_SUFFIX \<longrightarrow>
     (\<exists>sz st. (path, sz, st) \<in> set (fe_queue ev) \<and> \<not> touched_since w path (key_for path (fe_touched ev)) st ev)))"

lemma rebuild_ranks_all:
  assumes "rebuild_queue w ev = (ev', True)" and "de_scans (ee_dir w)" and "tracked w p ev"
  shows "all_ranked w ev'"
proof -
  have same: "fe_files ev' = fe_files ev" "fe_touched ev' = fe_touched ev"
    using rebuild_queue_fields [of w ev] unfolding assms(1) fst_conv by simp_all
  have "\<exists>sz st. (path, sz, st) \<in> set (fe_queue ev') \<and> \<not> touched_since w path (key_for path (fe_touched ev')) st ev'"
    if f: "map_of (fe_files ev') path = Some f" and suffix: "endswith path ENTRY_SUFFIX" for path f
  proof -
    have "(path, f) \<in> set (fe_files ev)" using f same map_of_SomeD by metis
    then have "\<exists>sz. (path, mtime_of f, sz) \<in> set (scan_ranks w ev)"
      using assms(2,3) suffix by (force simp: scan_ranks_def tracked_def)
    then obtain sz where "(path, sz, stamp_of ev path (mtime_of f)) \<in> set (fe_queue ev')"
      using rebuild_stamps [OF assms(1)] by blast
    moreover have "stamp_of ev path (mtime_of f) = stamp_of ev' path (mtime_of f)" using same by (simp add: stamp_of_def)
    ultimately show ?thesis using stamp_not_touched [OF f, of w] by metis
  qed
  then show ?thesis using rebuild_candidates [OF assms(1)] by (simp add: all_ranked_def)
qed

lemma te_meta_forget: "te_meta key (te_forget k path t) = te_meta key t \<or> te_meta key (te_forget k path t) = None"
  by (auto simp: te_meta_def te_stored_def te_forget_def Let_def split: option.splits)

lemma touched_since_mono:
  assumes "te_meta key (fe_touched ev2) = te_meta key (fe_touched ev) \<or> te_meta key (fe_touched ev2) = None"
    and "getmtime w ev2 path = getmtime w ev path" and "touched_since w path key st ev2"
  shows "touched_since w path key st ev"
  using assms(1)
proof
  assume "te_meta key (fe_touched ev2) = te_meta key (fe_touched ev)"
  with assms(2,3) show ?thesis by (auto simp: touched_since_def Let_def split: if_splits)
next
  assume "te_meta key (fe_touched ev2) = None"
  with assms(2,3) show ?thesis by (auto simp: touched_since_def Let_def split: if_splits)
qed

lemma turn_all_ranked:
  assumes free: "free_to_evict w" and tr: "tracked w p ev" and ranked: "all_ranked w ev"
    and pop: "pop_candidate ev = (ev1, Some c)" and cand: "evict_candidate w c p ev1 = (ev2, p2, True)"
  shows "all_ranked w ev2"
proof -
  obtain gone sz0 at0 prio where c: "c = (gone, sz0, at0, prio)" by (cases c)
  obtain rest where q: "fe_queue ev = (gone, sz0, at0) # rest" and ev1: "fe_queue ev1 = rest" "fe_fresh ev1 = []"
    using pop [unfolded c] ranked by (cases rule: pop_candidate_cases) (auto simp: all_ranked_def)
  note same = pop_same [OF pop]
  have touched1: "touched_since w path key st ev1 = touched_since w path key st ev" for path key st
    using same by (simp add: touched_since_def getmtime_def)
  have still: "fe_fresh ev2 = []" "fe_queue ev2 = rest" using evict_candidate_queues [of w c p ev1] cand ev1 by simp_all
  from cand [unfolded c] show ?thesis
  proof (cases rule: evict_candidate_cases)
    case kept
    then have skip: "touched_since w gone (key_for gone (fe_touched ev)) at0 ev"
      using free same touched1 by (auto simp: free_to_evict_def)
    have "\<exists>sz st. (path, sz, st) \<in> set rest \<and> \<not> touched_since w path (key_for path (fe_touched ev)) st ev"
      if "map_of (fe_files ev) path = Some f" "endswith path ENTRY_SUFFIX" for path f
    proof -
      obtain sz st where *: "(path, sz, st) \<in> set (fe_queue ev)" "\<not> touched_since w path (key_for path (fe_touched ev)) st ev"
        using ranked \<open>map_of (fe_files ev) path = Some f\<close> \<open>endswith path ENTRY_SUFFIX\<close> unfolding all_ranked_def by blast
      with skip q show ?thesis by auto
    qed
    with kept(1) still same touched1 show ?thesis by (simp add: all_ranked_def)
  next
    case (taken ev3 freed)
    have "remove_with_retry w ev1 gone 0 REMOVE_RETRIES \<notin> {Denied, Failed}"
      using free by (simp add: free_to_evict_def attempt_remove_def REMOVE_RETRIES_def numeral_eq_Suc)
    then have rm: "fe_files ev3 = AList.delete gone (fe_files ev1)"
        "fe_touched ev3 = te_forget (case key_for gone (fe_touched ev1) of None \<Rightarrow> key_for gone (fe_touched ev1) | Some k \<Rightarrow> Some k) gone (fe_touched ev1)"
      using remove_path_plain [OF _ _ taken(3)] tr same by (auto simp: tracked_def)
    have ev2: "fe_files ev2 = fe_files ev3" "fe_touched ev2 = fe_touched ev3" using taken(4) by simp_all
    have "\<exists>sz st. (path, sz, st) \<in> set rest \<and> \<not> touched_since w path (key_for path (fe_touched ev2)) st ev2"
      if f: "map_of (fe_files ev2) path = Some f" and suffix: "endswith path ENTRY_SUFFIX" for path f
    proof -
      have other: "path \<noteq> gone" and f0: "map_of (fe_files ev) path = Some f"
        using f ev2 rm same by (auto simp: map_of_delete split: if_splits)
      obtain sz st where *: "(path, sz, st) \<in> set (fe_queue ev)" "\<not> touched_since w path (key_for path (fe_touched ev)) st ev"
        using ranked f0 suffix unfolding all_ranked_def by blast
      have "key_for path (fe_touched ev2) = key_for path (fe_touched ev)"
        using other ev2 rm same by (simp add: key_for_def te_forget_def Let_def split: option.split)
      moreover have "getmtime w ev2 path = getmtime w ev path" using f f0 by (simp add: getmtime_def)
      moreover have "te_meta key (fe_touched ev2) = te_meta key (fe_touched ev) \<or> te_meta key (fe_touched ev2) = None" for key
        using te_meta_forget ev2 rm same by metis
      ultimately have "\<not> touched_since w path (key_for path (fe_touched ev2)) st ev2"
        using *(2) touched_since_mono [of _ ev2 ev w path st] by metis
      with * q other show ?thesis by auto
    qed
    with still show ?thesis by (simp add: all_ranked_def)
  qed
qed

lemma none_left: "tracked w p ev \<Longrightarrow> all_ranked w ev \<Longrightarrow> fe_queue ev = [] \<Longrightarrow> fe_current ev = 0"
proof -
  assume tr: "tracked w p ev" and ranked: "all_ranked w ev" and empty: "fe_queue ev = []"
  have "\<forall>path \<in> fst ` set (fe_files ev). \<not> endswith path ENTRY_SUFFIX"
    using tr ranked empty by (fastforce simp: tracked_def all_ranked_def map_of_eq_Some_iff)
  with tr show ?thesis by (simp add: tracked_def entry_bytes_none)
qed

lemma loop_reaches_target:
  assumes "de_scans (ee_dir w)" and "free_to_evict w"
  shows "u = w \<Longrightarrow> tracked w p ev \<Longrightarrow> (rebuilt \<longrightarrow> all_ranked w ev) \<Longrightarrow> evict_loop u target rebuilt p ev = (ev', p', True) \<Longrightarrow>
    0 \<le> target \<Longrightarrow> of_int (fe_current ev') \<le> target"
proof (induction u target rebuilt p ev arbitrary: ev' p' rule: evict_loop.induct)
  case (1 u target rebuilt p ev)
  note step = evict_loop.simps [of u target rebuilt p ev]
  show ?case
  proof (cases "of_int (fe_current ev) \<le> target")
    case True
    with "1.prems" step show ?thesis by simp
  next
    case False
    obtain ev1 c where pop: "pop_candidate ev = (ev1, c)" by force
    show ?thesis
    proof (cases c)
      case (Some x)
      obtain ev2 p2 b where cand: "evict_candidate u x p ev1 = (ev2, p2, b)" by (cases "evict_candidate u x p ev1")
      have run: "evict_loop u target rebuilt p ev = (if b then evict_loop u target rebuilt p2 ev2 else (ev2, p2, False))"
        using cand pop Some False by (subst step) (cases b, simp_all)
      with "1.prems"(4) have b: b by (cases b) simp_all
      have tr2: "tracked w p2 ev2" using tracked_pass.turn_keeps [OF "1.prems"(2)] pop Some cand "1.prems"(1) by blast
      have "rebuilt \<longrightarrow> all_ranked w ev2"
        using turn_all_ranked [OF assms(2) "1.prems"(2), of ev1 x ev2 p2] "1.prems"(1,3) pop Some cand b by simp
      with "1.IH"(2) [OF False pop [symmetric] Some cand [symmetric] refl] b run tr2 "1.prems"(1,4,5) show ?thesis by simp
    next
      case None
      then have ev1: "ev1 = ev" and empty: "queued ev = 0" using pop pop_candidate_None [of ev ev1] by simp_all
      obtain ev2 b where rb: "rebuild_queue u ev1 = (ev2, b)" by force
      have run: "evict_loop u target rebuilt p ev = (if rebuilt then (ev1, p, True) else if \<not> b then (ev2, p, False)
          else if fe_queue ev2 = [] \<and> fe_fresh ev2 = [] then (ev2, p, True) else evict_loop u target True p ev2)"
        using rb pop None False by (subst step) (cases b, simp_all)
      show ?thesis
      proof (cases rebuilt)
        case True
        with none_left [OF "1.prems"(2)] "1.prems"(3) empty have "fe_current ev = 0" by (simp add: queued_def)
        with True run "1.prems"(4,5) ev1 show ?thesis by auto
      next
        case not_yet: False
        with run "1.prems"(4) have b: b by (cases b) simp_all
        have tr2: "tracked w p ev2" using tracked_pass.rebuild_keeps [OF "1.prems"(2)] rb ev1 "1.prems"(1) by (metis fst_conv)
        have ar2: "all_ranked w ev2" using rebuild_ranks_all [OF _ assms(1) "1.prems"(2), of ev2] rb b ev1 "1.prems"(1) by simp
        show ?thesis
        proof (cases "fe_queue ev2 = [] \<and> fe_fresh ev2 = []")
          case True
          with none_left [OF tr2 ar2] run b not_yet "1.prems"(4) have "fe_current ev' = 0" by simp
          with "1.prems"(5) show ?thesis by simp
        next
          case more_left: False
          with "1.IH"(1) [OF False pop [symmetric] None not_yet rb [symmetric]] run b not_yet tr2 ar2 "1.prems"(1,4,5)
          show ?thesis by (simp split: if_splits)
        qed
      qed
    qed
  qed
qed


subsection \<open>The least valuable first\<close>

definition in_order :: "evictor \<Rightarrow> bool" where
  "in_order ev = (sorted (map (\<lambda>q. rank_of ev (fst q)) (fe_queue ev)) \<and> distinct (map fst (fe_queue ev)) \<and> sorted (fe_fresh ev))"

lemma fst_mono: "(x :: 'a :: linorder \<times> 'b :: linorder) \<le> y \<Longrightarrow> fst x \<le> fst y"
  by (auto simp: less_eq_prod_def less_prod_def)

lemma in_order_cong:
  "fe_queue ev' = fe_queue ev \<Longrightarrow> fe_rank_h ev' = fe_rank_h ev \<Longrightarrow> fe_fresh ev' = fe_fresh ev \<Longrightarrow> in_order ev' = in_order ev"
  by (simp add: in_order_def)

lemma pop_least:
  assumes "in_order ev" and "pop_candidate ev = (ev', Some (path, sz, ranked_at, prio))"
  shows "in_order ev' \<and> (\<forall>q \<in> set (fe_queue ev'). prio \<le> rank_of ev' (fst q)) \<and> (\<forall>f \<in> set (fe_fresh ev'). prio \<le> fst f)"
  using assms(2)
proof (cases rule: pop_candidate_cases)
  case (queue rest)
  have same: "rank_of ev' (fst q) = rank_of ev (fst q)" if "q \<in> set rest" for q
    using that queue(1,3) assms(1) by (force simp: in_order_def)
  then have ranks: "map (\<lambda>q. rank_of ev' (fst q)) rest = map (\<lambda>q. rank_of ev (fst q)) rest" by simp
  have "\<forall>q \<in> set rest. prio \<le> rank_of ev (fst q)" using assms(1) queue(1,2) by (simp add: in_order_def)
  moreover have "prio \<le> fst f" if f: "f \<in> set (fe_fresh ev)" for f
  proof -
    obtain g fresh where g: "fe_fresh ev = g # fresh" using f by (cases "fe_fresh ev") auto
    obtain p seq path' sz' at' where gg: "g = (p, seq, path', sz', at')" by (cases g)
    have "g \<le> f" using f g assms(1) by (auto simp: in_order_def)
    then have "p \<le> fst f" using fst_mono [of g f] gg by simp
    moreover have "prio \<le> p" using queue(4) g gg fst_mono [of "(prio, ranked_at)" "(p, at')"] by simp
    ultimately show ?thesis by simp
  qed
  moreover have rest: "fe_queue ev' = rest" "fe_fresh ev' = fe_fresh ev" using queue(3) by simp_all
  have "in_order ev'"
    using assms(1) queue(1) unfolding in_order_def rest ranks by simp
  ultimately show ?thesis unfolding rest using same by simp
next
  case (fresh seq fr)
  have "\<forall>f \<in> set fr. prio \<le> fst f" using assms(1) fresh(1) fst_mono by (fastforce simp: in_order_def)
  moreover have "prio \<le> rank_of ev (fst q)" if q: "q \<in> set (fe_queue ev)" for q
  proof -
    obtain h rest where h: "fe_queue ev = h # rest" using q by (cases "fe_queue ev") auto
    obtain path' sz' at' where hh: "h = (path', sz', at')" by (cases h)
    have "prio \<le> rank_of ev path'" using fresh(3) h hh fst_mono [of "(prio, ranked_at)" "(rank_of ev path', at')"] by simp
    moreover have "rank_of ev path' \<le> rank_of ev (fst q)" using q h hh assms(1) by (auto simp: in_order_def)
    ultimately show ?thesis by simp
  qed
  ultimately show ?thesis using fresh assms(1) by (simp add: in_order_def)
qed

lemma rebuild_in_order:
  assumes "in_order ev" and "dict_ok (fe_files ev)" and "rebuild_queue w ev = (ev', ok)"
  shows "in_order ev'"
proof (cases ok)
  case False
  have "fe_rank_h ev2 = fe_rank_h ev1" if "rank_entries indexed clock es ev1 = (ev2, r)" for indexed clock es ev1 ev2 r
    using that
  proof (induction es arbitrary: ev1 r)
    case (Cons e es)
    obtain ev3 r3 where one: "rank_entry indexed clock ev1 e = (ev3, r3)" by force
    then have "fe_rank_h ev3 = fe_rank_h ev1" by (auto simp: rank_entry_def Let_def split: prod.splits option.splits)
    with one Cons show ?case by (auto split: option.splits prod.splits)
  qed simp
  then have "fe_rank_h ev' = fe_rank_h ev"
    using False assms(3) by (fastforce simp: rebuild_queue_def Let_def split: prod.splits option.splits)
  with rebuild_failed_queues [of w ev ev'] False assms show ?thesis using in_order_cong by metis
next
  case True
  obtain ri indexed lines where load: "ri_load (ee_rank_wrote w) (ee_rank_readable w) (fe_rank_index ev) = (ri, indexed, lines)"
    by (cases "ri_load (ee_rank_wrote w) (ee_rank_readable w) (fe_rank_index ev)")
  let ?clock = "max (fe_clock ev) (rs_clock indexed)"
  obtain ev2 rs where rank: "rank_entries indexed ?clock (scan_ranks w ev)
      (ev\<lparr>fe_rank_index := ri, fe_clock := ?clock, fe_clock_loaded := True\<rparr>) = (ev2, Some rs)"
    using assms(3) load True by (auto simp: rebuild_queue_def Let_def split: prod.splits option.splits)
  let ?ordered = "sort_key (rank_order indexed) rs"
  have q: "fe_queue ev' = map (\<lambda>r. (rk_path r, rk_size r, rk_stamp r)) ?ordered"
    and h: "fe_rank_h ev' = map_of (map (\<lambda>r. (rk_path r, rk_prio r)) rs)" and fr: "fe_fresh ev' = []"
    using assms(3) load rank by (auto simp: rebuild_queue_def Let_def)
  have "distinct (map fst (scan_ranks w ev))"
    using assms(2) distinct_map_filter by (auto simp: scan_ranks_def comp_def split_def)
  then have dist: "distinct (map rk_path rs)" using rank_entries_paths [OF rank] by simp
  then have "map_of (map (\<lambda>r. (rk_path r, rk_prio r)) rs) (rk_path r) = Some (rk_prio r)" if "r \<in> set rs" for r
    using that by (intro map_of_is_SomeI) (auto simp: comp_def)
  then have ranks: "map (\<lambda>q. rank_of ev' (fst q)) (fe_queue ev') = map rk_prio ?ordered" using q h by simp
  have "sorted (map (rank_order indexed) ?ordered)" by simp
  then have "sorted_wrt (\<lambda>a b. rk_prio a \<le> rk_prio b) ?ordered"
    unfolding sorted_map by (rule sorted_wrt_mono_rel [rotated]) (auto simp: rank_order_def dest: fst_mono)
  then have "sorted (map rk_prio ?ordered)" by (simp add: sorted_map)
  moreover have "mset (map rk_path ?ordered) = mset (map rk_path rs)" by simp
  then have "distinct (map rk_path ?ordered)" using dist mset_eq_imp_distinct_iff by metis
  ultimately show ?thesis unfolding in_order_def ranks by (simp add: q fr comp_def)
qed

definition ordered_pass :: "evict_pass \<Rightarrow> evictor \<Rightarrow> bool" where
  "ordered_pass p ev = (in_order ev \<and> dict_ok (fe_files ev))"

lemma remove_path_dict_ok: "dict_ok (fe_files ev) \<Longrightarrow> dict_ok (fe_files (fst (remove_path w path key ev)))"
  by (auto simp: remove_path_def rewritten_def Let_def split_def dict_ok_delete comp_def split: option.split)

interpretation ordered_pass: pass_invariant w ordered_pass for w
proof
  fix p ev
  assume "ordered_pass p ev"
  then show "ordered_pass p (fst (rebuild_queue w ev))"
    using rebuild_in_order [of ev w "fst (rebuild_queue w ev)" "snd (rebuild_queue w ev)"] by (simp add: ordered_pass_def)
next
  fix p ev ev1 c ev' p' ok
  assume o: "ordered_pass p ev" and pop: "pop_candidate ev = (ev1, Some c)" and cand: "evict_candidate w c p ev1 = (ev', p', ok)"
  obtain path sz ranked_at prio where c: "c = (path, sz, ranked_at, prio)" by (cases c)
  have "in_order ev1" using pop_least pop o c unfolding ordered_pass_def by blast
  then have "in_order ev'" using in_order_cong [of ev' ev1] evict_candidate_queues [of w c p ev1] cand by simp
  moreover have "dict_ok (fe_files ev1)" using o pop_same(1) [OF pop] by (simp add: ordered_pass_def)
  then have rm: "dict_ok (fe_files (fst (remove_path w path (key_for path (fe_touched ev1)) ev1)))" by (rule remove_path_dict_ok)
  from cand [unfolded c] have "dict_ok (fe_files ev')"
  proof (cases rule: evict_candidate_cases)
    case kept
    with \<open>dict_ok (fe_files ev1)\<close> show ?thesis by simp
  next
    case (taken ev3 freed)
    with rm show ?thesis by simp
  qed
  ultimately show "ordered_pass p' ev'" by (simp add: ordered_pass_def)
qed

text \<open>The evictor between passes: what the backend reports, passes, clears, and whatever happens to
  the folder, the chunk store and the metadata in the meantime.\<close>

definition evictor_start :: "folder \<Rightarrow> chunk_store option \<Rightarrow> bytes_t option \<Rightarrow> bool \<Rightarrow> evictor" where
  "evictor_start fs chunks cap adaptive = \<lparr>
     fe_files = fs, fe_chunks = chunks, fe_max = cap, fe_adaptive = adaptive, fe_cap_derived_at = 0, fe_current = 0,
     fe_scanned = False, fe_rank_index = \<lparr>ri_buffer = [], ri_file = None\<rparr>, fe_evictions = \<lparr>el_file = None, el_notes = None\<rparr>,
     fe_touched = te_init, fe_write_seq = 0, fe_seq_by_key = Map.empty, fe_warned_thrash = False, fe_warnings = [],
     fe_budget_shown = False, fe_announced = [], fe_eviction_told = False, fe_notices = [], fe_queue = [],
     fe_rank_h = Map.empty, fe_fresh = [], fe_ranked = False, fe_clock = 0, fe_clock_loaded = False, fe_base = Map.empty\<rparr>"

inductive evictor_step :: "evictor \<Rightarrow> evictor \<Rightarrow> bool" where
  wrote: "evictor_step ev (note_write key old_bytes new_bytes ev)"
| read: "evictor_step ev (ev_note_read key ev)"
| flushed: "evictor_step ev (fst (access_record w key m path ev))"
| ranked: "evictor_step ev (fst (record_rank w key path m sz ev))"
| evicted: "evictor_step ev (fst (evict w ev))"
| cleared: "evictor_step ev (evictor_clear w ev)"
| shown: "evictor_step ev (fst (take_notices ev))"
| changed: "dict_ok fs \<Longrightarrow> evictor_step ev (ev\<lparr>fe_files := fs, fe_chunks := chunks, fe_touched := touched, fe_rank_index := ri\<rparr>)"

inductive_cases evictor_stepE: "evictor_step ev ev'"

lemma prepare_order [simp]:
  "in_order (index_chunks w ev) = in_order ev" "in_order (refresh_adaptive_cap w force ev) = in_order ev"
  "in_order (announce_budget w ev) = in_order ev" "in_order (ensure_size_scanned w ev) = in_order ev"
  by (simp_all add: in_order_def index_chunks_def refresh_adaptive_cap_def ensure_size_scanned_def announce_budget_def
      Let_def split_def split: option.split)

lemma finish_order [simp]: "in_order (finish_pass w p ev) = in_order ev"
  by (intro in_order_cong) (simp_all add: finish_pass_def report_eviction_def warn_thrash_def Let_def)

lemma evict_in_order:
  assumes "ordered_pass pass_start ev"
  shows "ordered_pass pass_start (fst (evict w ev))"
proof -
  let ?ev = "refresh_adaptive_cap w False (ensure_size_scanned w ev)"
  obtain ev1 p ok where run: "evict_loop w (target_of ?ev) False pass_start (index_chunks w ?ev) = (ev1, p, ok)"
    by (cases "evict_loop w (target_of ?ev) False pass_start (index_chunks w ?ev)")
  have "ordered_pass pass_start (index_chunks w ?ev)" using assms by (simp add: ordered_pass_def)
  from ordered_pass.loop_keeps [OF refl this run] have "ordered_pass p ev1" .
  with run assms show ?thesis by (cases ok) (auto simp: evict_def Let_def ordered_pass_def)
qed

lemma evictor_step_order: "evictor_step ev ev' \<Longrightarrow> ordered_pass pass_start ev \<Longrightarrow> ordered_pass pass_start ev'"
proof (erule evictor_stepE)
  fix w key path m sz
  assume "ordered_pass pass_start ev" "ev' = fst (record_rank w key path m sz ev)"
  then show "ordered_pass pass_start ev'"
    by (auto simp: ordered_pass_def record_rank_def ensure_clock_def Let_def in_order_def sorted_insort split_def split: option.split)
next
  fix w
  assume "ordered_pass pass_start ev" "ev' = fst (evict w ev)"
  then show "ordered_pass pass_start ev'" using evict_in_order by blast
qed (auto simp: ordered_pass_def in_order_def note_write_def ev_note_read_def access_record_def evictor_clear_def take_notices_def Let_def)

text \<open>
  C16: the least valuable entry goes first, at every moment. In every state an evictor can get
  into (writes, reads and flushes reported to it, priorities recorded, earlier passes whether
  they ran through or not, clears, and arbitrary changes of the folder by other processes)
  the candidate it takes next has a priority no higher than that of every other candidate,
  ranked or written since, and the rest stay in order.\<close>

theorem least_valuable_first:
  assumes "evictor_step\<^sup>*\<^sup>* (evictor_start fs chunks cap adaptive) ev" and "dict_ok fs"
    and "pop_candidate ev = (ev', Some (path, sz, ranked_at, prio))"
  shows "(\<forall>q \<in> set (fe_queue ev'). prio \<le> (case fe_rank_h ev' (fst q) of None \<Rightarrow> 0 | Some x \<Rightarrow> x))
    \<and> (\<forall>f \<in> set (fe_fresh ev'). prio \<le> fst f)"
proof -
  from assms(1) have "ordered_pass pass_start ev"
  proof (induction rule: rtranclp_induct)
    case base
    with assms(2) show ?case by (simp add: ordered_pass_def in_order_def evictor_start_def)
  next
    case (step y z)
    from evictor_step_order [OF step(2,3)] show ?case .
  qed
  with pop_least [OF _ assms(3)] show ?thesis by (simp add: ordered_pass_def)
qed

subsection \<open>A sample folder\<close>

text \<open>Two entries of ten bytes under a cap of fifteen, their priorities on record.\<close>

definition sample_evict_env :: evict_env where
  "sample_evict_env = \<lparr>ee_dir = sample_dir_env, ee_now = 200, ee_monotonic = 0, ee_free = 0,
     ee_log = \<lparr>io_wrote = True, io_readable = True, io_renamed = True, io_removed = True, io_tell = (\<lambda>_. 0)\<rparr>,
     ee_rank_wrote = True, ee_rank_readable = True, ee_rank_renamed = True, ee_rank_removed = True,
     ee_denied = (\<lambda>_ _. False), ee_stuck = (\<lambda>_. False), ee_pending = (\<lambda>key. key = ''k''), ee_own_key = None,
     ee_chunk_env = sample_world, ee_chunks_dir = False, ee_notices_wanted = False\<rparr>"

definition sample_folder :: folder where
  "sample_folder = [(''b.entry'', \<lparr>df_data = replicate 10 1, df_mtime = 0, df_ino = 1\<rparr>),
     (''a.entry'', \<lparr>df_data = replicate 10 2, df_mtime = 0, df_ino = 2\<rparr>)]"

definition sample_evictor :: evictor where
  "sample_evictor = (evictor_start [] None (Some 15) False)\<lparr>fe_files := sample_folder, fe_chunks := None, fe_touched := te_init,
     fe_rank_index := \<lparr>ri_buffer = [], ri_file = Some [rank_record (TWord ''a'') 1, rank_record (TWord ''b'') 2]\<rparr>\<rparr>"

lemma sample_suffix: "endswith ''a.entry'' ENTRY_SUFFIX" "endswith ''b.entry'' ENTRY_SUFFIX"
  by (simp_all add: endswith_def ENTRY_SUFFIX_def)

lemma sample_stem: "stem_of ''a.entry'' = ''a''" "stem_of ''b.entry'' = ''b''"
  by (simp_all add: stem_of_def cut_end_def ENTRY_SUFFIX_def)

lemma sample_rebuild:
  "rebuild_queue sample_evict_env (sample_evictor\<lparr>fe_current := 20, fe_scanned := True\<rparr>) =
     (sample_evictor\<lparr>fe_current := 20, fe_scanned := True, fe_clock := 0, fe_clock_loaded := True,
        fe_queue := [(''a.entry'', 10, 0), (''b.entry'', 10, 0)], fe_rank_h := [''a.entry'' \<mapsto> 1, ''b.entry'' \<mapsto> 2],
        fe_ranked := True\<rparr>, True)"
  by (simp add: rebuild_queue_def scan_ranks_def ri_load_def ri_flush_def sample_evictor_def sample_folder_def evictor_start_def
      sample_evict_env_def sample_dir_env_def sample_suffix sample_stem rank_entry_def key_for_def te_init_def te_meta_def
      has_unflushed_read_def rank_replay_record rank_start_def CLOCK_TAG_def dict_push_def recorded_at_def rank_order_def
      mtime_of_def int_of_float_def Let_def)

lemma remove_first_try: "attempt_remove w ev path i \<noteq> Denied \<Longrightarrow> remove_with_retry w ev path i n = attempt_remove w ev path i"
  by (cases n) (auto split: removal.split)

lemma sample_pass: "\<exists>ev'. evict sample_evict_env sample_evictor = (ev', True) \<and> fe_queue ev' = [(''b.entry'', 10, 0)] \<and> fe_fresh ev' = []
    \<and> fe_rank_h ev' ''b.entry'' = Some 2"
proof -
  let ?s = "sample_evictor\<lparr>fe_current := 20, fe_scanned := True\<rparr>"
  have scan: "refresh_adaptive_cap sample_evict_env False (ensure_size_scanned sample_evict_env sample_evictor) = ?s"
    by (simp add: ensure_size_scanned_def refresh_adaptive_cap_def announce_budget_def scan_size_bytes_def entry_totals_def chunk_files_def
        sample_evictor_def evictor_start_def sample_folder_def sample_evict_env_def sample_dir_env_def sample_suffix)
  have fields: "fe_max sample_evictor = Some 15" "fe_chunks sample_evictor = None" "fe_queue ?s = []" "fe_fresh ?s = []"
    by (simp_all add: sample_evictor_def evictor_start_def)
  have pop: "pop_candidate ?s = (?s, None)" using fields by (simp add: pop_candidate_None queued_def)
  show ?thesis
    using sample_rebuild fields
    by (simp add: evict_def scan capped_def over_cap_def target_of_def index_chunks_def Let_def)
       (simp add: evict_loop.simps pop sample_rebuild pop_candidate_def evict_candidate_def touched_since_def getmtime_def getsize_def
         remove_path_def remove_first_try attempt_remove_def key_for_def te_meta_def te_init_def note_seconds_def
         write_in_flight_def written_recently_def mtime_of_def pass_start_def finish_pass_def report_eviction_def Let_def
         sample_evictor_def evictor_start_def sample_folder_def sample_evict_env_def sample_dir_env_def)
qed

lemma sample_conditions:
  "de_scans (ee_dir sample_evict_env)" "de_stats (ee_dir sample_evict_env) path" "fe_chunks sample_evictor = None"
  "dict_ok (fe_files sample_evictor)" "candidates sample_evictor = {}" "fe_scanned sample_evictor = False"
  "fe_max sample_evictor = Some 15" "fe_adaptive sample_evictor = False" "capped sample_evictor"
  by (simp_all add: sample_evict_env_def sample_dir_env_def sample_evictor_def evictor_start_def sample_folder_def candidates_def capped_def)




theorem least_valuable_first_witness:
  "\<exists>ev ev'. evictor_step\<^sup>*\<^sup>* (evictor_start [] None (Some 15) False) ev \<and> pop_candidate ev = (ev', Some (''b.entry'', 10, 0, 2))
     \<and> (\<forall>q \<in> set (fe_queue ev'). 2 \<le> (case fe_rank_h ev' (fst q) of None \<Rightarrow> 0 | Some x \<Rightarrow> x))"
proof -
  obtain ev where ev: "evict sample_evict_env sample_evictor = (ev, True)" "fe_queue ev = [(''b.entry'', 10, 0)]" "fe_fresh ev = []"
    "fe_rank_h ev ''b.entry'' = Some 2" using sample_pass by blast
  have "dict_ok sample_folder" by (simp add: sample_folder_def)
  then have "evictor_step (evictor_start [] None (Some 15) False) sample_evictor"
    unfolding sample_evictor_def by (rule evictor_step.changed)
  moreover have "evictor_step sample_evictor ev" using evictor_step.evicted [of sample_evictor sample_evict_env] ev(1) by simp
  ultimately have reach: "evictor_step\<^sup>*\<^sup>* (evictor_start [] None (Some 15) False) ev" by simp
  obtain ev' where pop: "pop_candidate ev = (ev', Some (''b.entry'', 10, 0, 2))" using ev by (simp add: pop_candidate_def Let_def)
  from least_valuable_first [OF reach _ pop] reach pop show ?thesis by auto
qed

end
