(* ===== verification/Pending_Writes.thy ===== *)
theory Pending_Writes
  imports Prelude
begin

text \<open>
  Background cache writes (class \<open>PendingWrites\<close> and \<open>_DaemonWriterPool\<close> of
  \<open>src/cash/backends/_writes.py\<close>): the queue of one backend, its single worker thread, and
  the threads that submit to it, wait for it and drain it.

  \<open>writes\<close> is the state of the queue. A future is a number; \<open>pw_outcome\<close> holds how the
  finished ones ended. What a write stores is opaque (\<open>'v\<close>); \<open>pw_landed\<close> lists what reached
  the backend, in order. An operation that blocks is enabled only when what it waits for has
  finished, and \<open>queue_step\<close> interleaves the worker with the threads that use the queue; one
  thread submits at a time.
\<close>

subsection \<open>The queue\<close>

record 'v write_task =
  wt_key :: string
  wt_value :: 'v
  wt_bytes :: "nat option"

datatype outcome = Wrote | Raised string

record 'v writes =
  pw_queue :: "(nat \<times> 'v write_task) list"
  pw_running :: "(nat \<times> 'v write_task) option"
  pw_outcome :: "nat \<rightharpoonup> outcome"
  pw_pending :: "(string \<times> nat) list"
  pw_sizes :: "(nat \<times> nat \<times> bool) list"
  pw_seconds_per_byte :: real
  pw_seconds_per_write :: real
  pw_timed :: "(real \<times> nat) option"
  pw_measured :: bool
  pw_shutdown :: bool
  pw_discarded :: "(string \<times> string) list"
  pw_next :: nat
  pw_landed :: "(string \<times> 'v) list"

definition MAX_QUEUED_BYTES :: nat where "MAX_QUEUED_BYTES = 512 * 1024 * 1024"
definition MAX_BACKLOG_S :: real where "MAX_BACKLOG_S = 2"
definition DEFAULT_SECONDS_PER_BYTE :: real where "DEFAULT_SECONDS_PER_BYTE = 1 / (100 * 1024 * 1024)"
definition DEFAULT_SECONDS_PER_WRITE :: real where "DEFAULT_SECONDS_PER_WRITE = 1 / 100"
definition TIMED_PER_BYTE_FROM :: nat where "TIMED_PER_BYTE_FROM = 1024 * 1024"
definition UNFINISHED_S :: real where "UNFINISHED_S = 1 / 1000"

definition pw_init :: "'v writes" where
  "pw_init = \<lparr>pw_queue = [], pw_running = None, pw_outcome = Map.empty, pw_pending = [], pw_sizes = [],
     pw_seconds_per_byte = DEFAULT_SECONDS_PER_BYTE, pw_seconds_per_write = DEFAULT_SECONDS_PER_WRITE,
     pw_timed = None, pw_measured = False, pw_shutdown = False, pw_discarded = [], pw_next = 0, pw_landed = []\<rparr>"

definition fdone :: "'v writes \<Rightarrow> nat \<Rightarrow> bool" where
  "fdone q f = (pw_outcome q f \<noteq> None)"

text \<open>A forked child starts the queue afresh: the unfinished writes are the parent's.\<close>

definition after_fork_in_child :: "'v writes \<Rightarrow> 'v writes" where
  "after_fork_in_child q = q\<lparr>pw_queue := [], pw_running := None, pw_pending := [], pw_sizes := [], pw_timed := None\<rparr>"

subsection \<open>Submitting\<close>

datatype submit_error = ShutDown

text \<open>\<open>submit\<close> waits for the key's previous write to finish.\<close>

definition can_submit :: "string \<Rightarrow> 'v writes \<Rightarrow> bool" where
  "can_submit key q = (case map_of (pw_pending q) key of None \<Rightarrow> True | Some f \<Rightarrow> fdone q f)"

definition submit :: "'v write_task \<Rightarrow> 'v writes \<Rightarrow> submit_error + 'v writes \<times> nat" where
  "submit t q = (if pw_shutdown q then Inl ShutDown else
     let f = pw_next q in
     Inr (q\<lparr>pw_queue := pw_queue q @ [(f, t)], pw_next := f + 1, pw_pending := AList.update (wt_key t) f (pw_pending q)\<rparr>, f))"

definition unfinished_sized :: "'v writes \<Rightarrow> (nat \<times> nat \<times> bool) list" where
  "unfinished_sized q = filter (\<lambda>(f, _). \<not> fdone q f) (pw_sizes q)"

text \<open>\<open>_make_room\<close> waits, oldest copy first, until this holds.\<close>

definition queued_copies :: "'v writes \<Rightarrow> nat list" where
  "queued_copies q = map (\<lambda>(_, n, _). n) (filter (\<lambda>(_, _, copied). copied) (unfinished_sized q))"

definition has_room :: "nat \<Rightarrow> 'v writes \<Rightarrow> bool" where
  "has_room nbytes q = (queued_copies q = [] \<or> sum_list (queued_copies q) + nbytes \<le> MAX_QUEUED_BYTES)"

text \<open>The worker does not wait for the writes queued behind its own.\<close>

definition can_make_room :: "bool \<Rightarrow> nat \<Rightarrow> 'v writes \<Rightarrow> bool" where
  "can_make_room own nbytes q = (own \<or> has_room nbytes q)"

definition submit_sized :: "string \<Rightarrow> nat \<Rightarrow> bool \<Rightarrow> 'v \<Rightarrow> 'v writes \<Rightarrow> submit_error + 'v writes \<times> nat" where
  "submit_sized key nbytes copied v q = and_then (submit \<lparr>wt_key = key, wt_value = v, wt_bytes = Some nbytes\<rparr> q)
     (\<lambda>(q1, f). Inr (if fdone q1 f then q1 else q1\<lparr>pw_sizes := AList.update f (nbytes, copied) (pw_sizes q1)\<rparr>, f))"

text \<open>\<open>_run_inline\<close>: in a multiprocessing child the write runs on the calling thread, and only a
  failure stays on record.\<close>

definition run_inline :: "'v write_task \<Rightarrow> outcome \<Rightarrow> 'v writes \<Rightarrow> submit_error + 'v writes \<times> nat" where
  "run_inline t how q = (if pw_shutdown q then Inl ShutDown else
     let f = pw_next q; q = q\<lparr>pw_next := f + 1, pw_outcome := (pw_outcome q)(f \<mapsto> how)\<rparr> in
     Inr (case how of
        Wrote \<Rightarrow> q\<lparr>pw_landed := pw_landed q @ [(wt_key t, wt_value t)]\<rparr>
      | Raised e \<Rightarrow> q\<lparr>pw_discarded := pw_discarded q @ [(wt_key t, e)], pw_pending := AList.update (wt_key t) f (pw_pending q)\<rparr>, f))"

subsection \<open>The worker\<close>

text \<open>The worker takes the oldest task; a sized one notes when it started.\<close>

definition start_task :: "real \<Rightarrow> 'v writes \<Rightarrow> 'v writes" where
  "start_task now q = (case (pw_running q, pw_queue q) of
       (None, (f, t) # rest) \<Rightarrow> q\<lparr>pw_queue := rest, pw_running := Some (f, t),
          pw_timed := (case wt_bytes t of None \<Rightarrow> pw_timed q | Some n \<Rightarrow> Some (now, n))\<rparr>
     | _ \<Rightarrow> q)"

text \<open>\<open>_timed\<close>: what a finished sized write teaches.\<close>

definition learn_cost :: "real \<Rightarrow> 'v write_task \<Rightarrow> 'v writes \<Rightarrow> 'v writes" where
  "learn_cost took t q = (case wt_bytes t of
       None \<Rightarrow> q
     | Some n \<Rightarrow> (if TIMED_PER_BYTE_FROM \<le> n then q\<lparr>pw_seconds_per_byte := took / of_nat n\<rparr>
                  else q\<lparr>pw_seconds_per_write := took\<rparr>)\<lparr>pw_timed := None, pw_measured := True\<rparr>)"

definition forget_if_succeeded :: "string \<Rightarrow> nat \<Rightarrow> 'v writes \<Rightarrow> 'v writes" where
  "forget_if_succeeded key f q = (if pw_outcome q f = Some Wrote \<and> map_of (pw_pending q) key = Some f
     then q\<lparr>pw_pending := AList.delete key (pw_pending q)\<rparr> else q)"

definition forget_size :: "nat \<Rightarrow> 'v writes \<Rightarrow> 'v writes" where
  "forget_size f q = q\<lparr>pw_sizes := AList.delete f (pw_sizes q)\<rparr>"

text \<open>The running task ends: the future gets its outcome, and the callbacks run.\<close>

definition finish_task :: "real \<Rightarrow> outcome \<Rightarrow> 'v writes \<Rightarrow> 'v writes" where
  "finish_task took how q = (case pw_running q of
       None \<Rightarrow> q
     | Some (f, t) \<Rightarrow>
         let q = learn_cost took t q;
             q = (case how of
                 Wrote \<Rightarrow> q\<lparr>pw_landed := pw_landed q @ [(wt_key t, wt_value t)]\<rparr>
               | Raised e \<Rightarrow> q\<lparr>pw_discarded := pw_discarded q @ [(wt_key t, e)]\<rparr>);
             q = q\<lparr>pw_running := None, pw_outcome := (pw_outcome q)(f \<mapsto> how)\<rparr> in
         forget_size f (forget_if_succeeded (wt_key t) f q))"

subsection \<open>Waiting\<close>

text \<open>\<open>current_worker_key\<close>: \<open>on_worker\<close> is whether the calling thread is the worker.\<close>

definition current_worker_key :: "bool \<Rightarrow> 'v writes \<Rightarrow> string option" where
  "current_worker_key on_worker q = (if on_worker then map_option (wt_key \<circ> snd) (pw_running q) else None)"

definition can_wait :: "bool \<Rightarrow> string \<Rightarrow> 'v writes \<Rightarrow> bool" where
  "can_wait on_worker key q = (current_worker_key on_worker q = Some key \<or> can_submit key q)"

text \<open>\<open>wait\<close>: a failure is reported, once, and dropped.\<close>

definition wait_key :: "bool \<Rightarrow> string \<Rightarrow> 'v writes \<Rightarrow> 'v writes \<times> string option" where
  "wait_key on_worker key q = (if current_worker_key on_worker q = Some key then (q, None) else
     case map_of (pw_pending q) key of
       None \<Rightarrow> (q, None)
     | Some f \<Rightarrow> (case pw_outcome q f of
           Some (Raised e) \<Rightarrow> (q\<lparr>pw_pending := AList.delete key (pw_pending q)\<rparr>, Some e)
         | _ \<Rightarrow> (q, None)))"

text \<open>\<open>drain\<close> forgets the key's write at once, and then waits for it (\<open>Some f\<close>) unless it is the
  worker's own.\<close>

definition drain :: "bool \<Rightarrow> string \<Rightarrow> 'v writes \<Rightarrow> 'v writes \<times> nat option" where
  "drain on_worker key q = (q\<lparr>pw_pending := AList.delete key (pw_pending q)\<rparr>,
     if current_worker_key on_worker q = Some key then None else map_of (pw_pending q) key)"

definition has_pending :: "string \<Rightarrow> 'v writes \<Rightarrow> bool" where
  "has_pending key q = (case map_of (pw_pending q) key of None \<Rightarrow> False | Some f \<Rightarrow> \<not> fdone q f)"

definition pending_count :: "'v writes \<Rightarrow> nat" where
  "pending_count q = length (filter (\<lambda>(_, f). \<not> fdone q f) (pw_pending q))"

definition failed_writes :: "'v writes \<Rightarrow> (string \<times> string) list" where
  "failed_writes q = List.map_filter (\<lambda>(key, f). case pw_outcome q f of Some (Raised e) \<Rightarrow> Some (key, e) | _ \<Rightarrow> None) (pw_pending q)"

text \<open>\<open>wait_all\<close> returns True when everything pending has finished, except on the worker, which
  does not wait.\<close>

definition wait_all_done :: "bool \<Rightarrow> 'v writes \<Rightarrow> bool" where
  "wait_all_done on_worker q = (current_worker_key on_worker q \<noteq> None \<or>
     list_all (\<lambda>(_, f). fdone q f) (pw_pending q))"

definition shutdown :: "'v writes \<Rightarrow> 'v writes" where
  "shutdown q = q\<lparr>pw_shutdown := True\<rparr>"

text \<open>How long the sized writes still queued will take.\<close>

definition estimate :: "real \<Rightarrow> real \<Rightarrow> nat \<Rightarrow> real" where
  "estimate per_byte per_write n = (if TIMED_PER_BYTE_FROM \<le> n then of_nat n * per_byte else per_write)"

definition backlog_seconds :: "real \<Rightarrow> 'v writes \<Rightarrow> real" where
  "backlog_seconds now q = (
     let live = unfinished_sized q in
     if live = [] then 0 else
     case pw_timed q of
       None \<Rightarrow> max (sum_list (map (\<lambda>(_, n, _). estimate (pw_seconds_per_byte q) (pw_seconds_per_write q) n) live)) UNFINISHED_S
     | Some (began, n) \<Rightarrow>
         let elapsed = now - began;
             per_byte = (if TIMED_PER_BYTE_FROM \<le> n then max (pw_seconds_per_byte q) (elapsed / of_nat n) else pw_seconds_per_byte q);
             per_write = (if TIMED_PER_BYTE_FROM \<le> n then pw_seconds_per_write q else max (pw_seconds_per_write q) elapsed);
             todo = sum_list (map (\<lambda>(_, n, _). estimate per_byte per_write n) live) in
         max (todo - min elapsed (estimate per_byte per_write n)) UNFINISHED_S)"

subsection \<open>The threads together\<close>

text \<open>\<open>h\<close> lists every write submitted, in order; \<open>w\<close> is whether a task that the worker runs
  submits copies of its own (\<open>own\<close>).\<close>

type_synonym 'v submissions = "(nat \<times> 'v write_task) list"

inductive queue_step :: "bool \<Rightarrow> 'v writes \<times> 'v submissions \<Rightarrow> 'v writes \<times> 'v submissions \<Rightarrow> bool" for w where
  submitted: "can_submit (wt_key t) q \<Longrightarrow> submit t q = Inr (q', f) \<Longrightarrow> queue_step w (q, h) (q', h @ [(f, t)])"
| sized: "can_submit key q \<Longrightarrow> (own \<longrightarrow> w) \<Longrightarrow> (copied \<longrightarrow> can_make_room own nbytes q) \<Longrightarrow>
    submit_sized key nbytes copied v q = Inr (q', f) \<Longrightarrow>
    queue_step w (q, h) (q', h @ [(f, \<lparr>wt_key = key, wt_value = v, wt_bytes = Some nbytes\<rparr>)])"
| started: "pw_running q = None \<Longrightarrow> pw_queue q \<noteq> [] \<Longrightarrow> queue_step w (q, h) (start_task now q, h)"
| finished: "pw_running q \<noteq> None \<Longrightarrow> queue_step w (q, h) (finish_task took how q, h)"
| waited: "can_wait on_worker key q \<Longrightarrow> queue_step w (q, h) (fst (wait_key on_worker key q), h)"
| drained: "queue_step w (q, h) (fst (drain on_worker key q), h)"
| closed: "queue_step w (q, h) (shutdown q, h)"

inductive_cases queue_stepE: "queue_step w (q, h) (q', h')"

abbreviation in_queue :: "'v writes \<Rightarrow> 'v submissions" where
  "in_queue q \<equiv> (case pw_running q of None \<Rightarrow> [] | Some x \<Rightarrow> [x]) @ pw_queue q"

definition written :: "'v writes \<Rightarrow> nat \<times> 'v write_task \<Rightarrow> bool" where
  "written q x = (pw_outcome q (fst x) = Some Wrote)"

text \<open>What every reachable queue satisfies: the writes submitted are those that have finished, in
  order, then the one running, then those queued; what landed are the finished writes that
  succeeded, in that order.\<close>

definition queue_ok :: "'v writes \<times> 'v submissions \<Rightarrow> bool" where
  "queue_ok s = (case s of (q, h) \<Rightarrow> map fst h = [0..<pw_next q] \<and>
     (\<exists>fin. h = fin @ in_queue q \<and> dom (pw_outcome q) = set (map fst fin) \<and>
        pw_landed q = map (\<lambda>(f, t). (wt_key t, wt_value t)) (filter (written q) fin)))"

definition pending_ok :: "'v writes \<times> 'v submissions \<Rightarrow> bool" where
  "pending_ok s = (case s of (q, h) \<Rightarrow> dict_ok (pw_pending q) \<and>
     (\<forall>key f. map_of (pw_pending q) key = Some f \<longrightarrow> f \<in> fst ` set h \<and> (\<forall>g t. (g, t) \<in> set h \<longrightarrow> wt_key t = key \<longrightarrow> g \<le> f)))"

definition sizes_ok :: "'v writes \<Rightarrow> bool" where
  "sizes_ok q = (dict_ok (pw_sizes q) \<and> (\<forall>f \<in> fst ` set (pw_sizes q). f < pw_next q \<and> \<not> fdone q f) \<and>
     (sum_list (queued_copies q) \<le> MAX_QUEUED_BYTES \<or> length (queued_copies q) \<le> 1))"

lemma learn_cost_keeps:
  "pw_running (learn_cost took t q) = pw_running q" "pw_queue (learn_cost took t q) = pw_queue q"
  "pw_next (learn_cost took t q) = pw_next q" "pw_outcome (learn_cost took t q) = pw_outcome q"
  "pw_sizes (learn_cost took t q) = pw_sizes q" "pw_landed (learn_cost took t q) = pw_landed q"
  "pw_pending (learn_cost took t q) = pw_pending q"
  by (cases "wt_bytes t"; simp add: learn_cost_def)+

lemma finish_task_eq:
  assumes "pw_running q = Some (f, t)" and "q' = finish_task took how q"
  shows "pw_running q' = None" and "pw_queue q' = pw_queue q" and "pw_next q' = pw_next q"
    and "pw_outcome q' = (pw_outcome q)(f \<mapsto> how)" and "pw_sizes q' = AList.delete f (pw_sizes q)"
    and "pw_landed q' = pw_landed q @ (if how = Wrote then [(wt_key t, wt_value t)] else [])"
    and "pw_pending q' = (if how = Wrote \<and> map_of (pw_pending q) (wt_key t) = Some f
           then AList.delete (wt_key t) (pw_pending q) else pw_pending q)"
  unfolding assms(2)
  by (cases how; simp add: finish_task_def assms(1) learn_cost_keeps forget_size_def forget_if_succeeded_def Let_def)+

lemma start_task_eq:
  assumes "pw_running q = None" and "pw_queue q = x # rest" and "q' = start_task now q"
  shows "pw_running q' = Some x" and "pw_queue q' = rest" and "pw_next q' = pw_next q" and "pw_outcome q' = pw_outcome q"
    and "pw_sizes q' = pw_sizes q" and "pw_landed q' = pw_landed q" and "pw_pending q' = pw_pending q"
  using assms by (cases x; simp add: start_task_def)+

lemma submit_eq:
  assumes "submit t q = Inr (q', f)"
  shows "f = pw_next q" and "pw_running q' = pw_running q" and "pw_queue q' = pw_queue q @ [(f, t)]" and "pw_next q' = Suc (pw_next q)"
    and "pw_outcome q' = pw_outcome q" and "pw_sizes q' = pw_sizes q" and "pw_landed q' = pw_landed q"
    and "pw_pending q' = AList.update (wt_key t) f (pw_pending q)"
  using assms by (auto simp: submit_def Let_def split: if_splits)

lemma submit_sized_eq:
  assumes "submit_sized key nbytes copied v q = Inr (q', f)"
  obtains q1 where "submit \<lparr>wt_key = key, wt_value = v, wt_bytes = Some nbytes\<rparr> q = Inr (q1, f)"
    and "q' = (if fdone q1 f then q1 else q1\<lparr>pw_sizes := AList.update f (nbytes, copied) (pw_sizes q1)\<rparr>)"
  using assms by (auto simp: submit_sized_def and_then_Inr)

lemma queue_ok_submit:
  assumes "queue_ok (q, h)" and "submit t q = Inr (q1, f)" and "pw_running q' = pw_running q1" and "pw_queue q' = pw_queue q1"
    and "pw_next q' = pw_next q1" and "pw_outcome q' = pw_outcome q1" and "pw_landed q' = pw_landed q1"
  shows "queue_ok (q', h @ [(f, t)])"
  using assms(1) submit_eq [OF assms(2)] assms(3-7) by (auto simp: queue_ok_def written_def [abs_def])

lemma queue_step_ok:
  assumes "queue_step w (q, h) (q', h')" and "queue_ok (q, h)"
  shows "queue_ok (q', h')"
  using assms(1)
proof cases
  case (submitted t f)
  then show ?thesis using queue_ok_submit [OF assms(2)] by blast
next
  case (sized key own copied nbytes v f)
  from sized(5) obtain q1 where q1: "submit \<lparr>wt_key = key, wt_value = v, wt_bytes = Some nbytes\<rparr> q = Inr (q1, f)"
    and q': "q' = (if fdone q1 f then q1 else q1\<lparr>pw_sizes := AList.update f (nbytes, copied) (pw_sizes q1)\<rparr>)"
    by (rule submit_sized_eq)
  show ?thesis unfolding sized(1) by (rule queue_ok_submit [OF assms(2) q1]) (simp_all add: q')
next
  case (started now)
  obtain x rest where "pw_queue q = x # rest" using started(4) by (cases "pw_queue q") auto
  with start_task_eq [OF started(3) this started(1)] started assms(2) show ?thesis
    by (auto simp: queue_ok_def written_def [abs_def])
next
  case (finished took how)
  obtain f t where run: "pw_running q = Some (f, t)" using finished(3) by auto
  note eq = finish_task_eq [OF run finished(1)]
  obtain fin where fin: "h = fin @ in_queue q" "dom (pw_outcome q) = set (map fst fin)"
      "pw_landed q = map (\<lambda>(f, t). (wt_key t, wt_value t)) (filter (written q) fin)" "map fst h = [0..<pw_next q]"
    using assms(2) by (auto simp: queue_ok_def)
  have "distinct (map fst h)" using fin(4) by simp
  then have "f \<notin> set (map fst fin)" using fin(1) run by auto
  then have "filter (written q') fin = filter (written q) fin"
    by (intro filter_cong) (auto simp: written_def eq(4) rev_image_eqI)
  then have "pw_landed q' = map (\<lambda>(f, t). (wt_key t, wt_value t)) (filter (written q') (fin @ [(f, t)]))"
    using eq(4,6) fin(3) by (simp add: written_def)
  moreover have "h = (fin @ [(f, t)]) @ in_queue q'" using fin(1) run eq(1,2) by simp
  moreover have "dom (pw_outcome q') = set (map fst (fin @ [(f, t)]))" using eq(4) fin(2) by auto
  ultimately show ?thesis using finished(2) eq(3) fin(4) unfolding queue_ok_def by auto
qed (use assms(2) in \<open>auto simp: queue_ok_def written_def [abs_def] wait_key_def drain_def shutdown_def split: option.splits outcome.splits\<close>)

lemma reachable_queue_ok:
  assumes "(queue_step w)\<^sup>*\<^sup>* (pw_init, []) (q, h)"
  shows "queue_ok (q, h)"
  using assms
proof (induction rule: rtranclp_induct2)
  case refl
  show ?case by (simp add: queue_ok_def pw_init_def)
qed (rule queue_step_ok)

text \<open>A future is done exactly when every earlier one is, and those of \<open>in_queue\<close> are not.\<close>

lemma queue_ok_futures:
  assumes "queue_ok (q, h)"
  obtains fin where "h = fin @ in_queue q" and "\<forall>f. fdone q f \<longleftrightarrow> f < length fin"
    and "map fst h = [0..<pw_next q]" and "\<forall>i < length h. fst (h ! i) = i"
    and "pw_landed q = map (\<lambda>(f, t). (wt_key t, wt_value t)) (filter (written q) fin)"
proof -
  from assms obtain fin where fin: "map fst h = [0..<pw_next q]" "h = fin @ in_queue q" "dom (pw_outcome q) = set (map fst fin)"
      "pw_landed q = map (\<lambda>(f, t). (wt_key t, wt_value t)) (filter (written q) fin)"
    by (auto simp: queue_ok_def)
  have nth: "fst (h ! i) = i" if "i < length h" for i
    using that arg_cong [OF fin(1), of "\<lambda>xs. xs ! i"] arg_cong [OF fin(1), of length] by simp
  have "fst (fin ! i) = i" if "i < length fin" for i
    using nth [of i] that fin(2) by (simp add: nth_append)
  then have "map fst fin = [0..<length fin]" by (intro nth_equalityI) simp_all
  then have "fdone q f \<longleftrightarrow> f < length fin" for f
    using fin(3) by (simp add: fdone_def dom_def set_eq_iff del: set_map)
  with that fin nth show thesis by blast
qed

lemma pending_ok_submit:
  assumes "pending_ok (q, h)" and "queue_ok (q, h)" and "submit t q = Inr (q1, f)" and "pw_pending q' = pw_pending q1"
  shows "pending_ok (q', h @ [(f, t)])"
proof -
  note eq = submit_eq [OF assms(3)]
  have "fst ` set h = {0..<pw_next q}" using assms(2) by (simp add: queue_ok_def flip: set_map)
  then have "g \<le> f" if "(g, t') \<in> set h" for g t' using imageI [OF that, of fst] eq(1) by simp
  with assms(1,4) eq(8) show ?thesis
    by (auto simp: pending_ok_def update_conv' dict_simps split: if_splits)
qed

lemma pending_ok_forget:
  assumes "pending_ok (q, h)" and "pw_pending q' = AList.delete key (pw_pending q) \<or> pw_pending q' = pw_pending q"
  shows "pending_ok (q', h)"
  using assms by (auto simp: pending_ok_def delete_conv' dict_simps split: if_splits)

lemma queue_step_pending:
  assumes "queue_step w (q, h) (q', h')" and "pending_ok (q, h)" and "queue_ok (q, h)"
  shows "pending_ok (q', h')"
  using assms(1)
proof cases
  case (submitted t f)
  then show ?thesis using pending_ok_submit [OF assms(2,3)] by blast
next
  case (sized key own copied nbytes v f)
  from sized(5) obtain q1 where q1: "submit \<lparr>wt_key = key, wt_value = v, wt_bytes = Some nbytes\<rparr> q = Inr (q1, f)"
    and q': "q' = (if fdone q1 f then q1 else q1\<lparr>pw_sizes := AList.update f (nbytes, copied) (pw_sizes q1)\<rparr>)"
    by (rule submit_sized_eq)
  show ?thesis unfolding sized(1) by (rule pending_ok_submit [OF assms(2,3) q1]) (simp add: q')
next
  case (started now)
  obtain x rest where "pw_queue q = x # rest" using started(4) by (cases "pw_queue q") auto
  from start_task_eq(7) [OF started(3) this started(1)] started(2) show ?thesis
    using pending_ok_forget [OF assms(2)] by simp
next
  case (finished took how)
  obtain f t where run: "pw_running q = Some (f, t)" using finished(3) by auto
  show ?thesis unfolding finished(2)
    by (rule pending_ok_forget [OF assms(2), of _ "wt_key t"]) (simp add: finish_task_eq(7) [OF run finished(1)])
next
  case (waited on_worker key)
  show ?thesis unfolding waited(2)
    by (rule pending_ok_forget [OF assms(2), of _ key]) (simp add: waited(1) wait_key_def split: option.split outcome.split)
next
  case (drained on_worker key)
  show ?thesis unfolding drained(2)
    by (rule pending_ok_forget [OF assms(2), of _ key]) (simp add: drained(1) drain_def)
next
  case closed
  show ?thesis unfolding closed(2)
    by (rule pending_ok_forget [OF assms(2)]) (simp add: closed(1) shutdown_def)
qed

lemma reachable_pending_ok:
  assumes "(queue_step w)\<^sup>*\<^sup>* (pw_init, []) (q, h)"
  shows "pending_ok (q, h) \<and> queue_ok (q, h)"
  using assms
proof (induction rule: rtranclp_induct2)
  case refl
  show ?case by (simp add: queue_ok_def pending_ok_def pw_init_def)
next
  case (step q h q' h')
  then show ?case using queue_step_pending queue_step_ok by blast
qed

lemma in_queue_undone:
  assumes "queue_ok (q, h)" and "x \<in> set (in_queue q)"
  shows "\<not> fdone q (fst x)"
proof -
  from assms(1) obtain fin where fin: "h = fin @ in_queue q" "\<forall>f. fdone q f \<longleftrightarrow> f < length fin"
      "map fst h = [0..<pw_next q]" "\<forall>i < length h. fst (h ! i) = i"
      "pw_landed q = map (\<lambda>(f, t). (wt_key t, wt_value t)) (filter (written q) fin)"
    by (rule queue_ok_futures)
  from assms(2) obtain j where "j < length (in_queue q)" "x = in_queue q ! j" by (metis in_set_conv_nth)
  then have "fst x = length fin + j" using fin(1) fin(4) [rule_format, of "length fin + j"] by simp
  with fin(2) show ?thesis by simp
qed

lemma queue_ok_done:
  assumes "queue_ok (q, h)"
  shows "dom (pw_outcome q) \<subseteq> {..<pw_next q}"
proof -
  from assms obtain fin where fin: "map fst h = [0..<pw_next q]" "h = fin @ in_queue q" "dom (pw_outcome q) = set (map fst fin)"
    by (auto simp: queue_ok_def)
  have "set (map fst fin) \<subseteq> set (map fst h)" unfolding fin(2) by simp
  with fin show ?thesis by (simp add: atLeast0LessThan del: set_map)
qed

subsection \<open>The copies held in memory\<close>

lemma sizes_ok_remove:
  assumes "sizes_ok q" and "pw_sizes q' = AList.delete f (pw_sizes q)" and "pw_next q' = pw_next q"
    and "\<And>g. g \<noteq> f \<Longrightarrow> fdone q' g = fdone q g"
  shows "sizes_ok q'"
proof -
  have all: "unfinished_sized q = pw_sizes q"
    using assms(1) unfolding sizes_ok_def unfinished_sized_def by (intro filter_True) auto
  have "unfinished_sized q' = AList.delete f (pw_sizes q)"
    using assms(1,2,4) unfolding sizes_ok_def unfinished_sized_def
    by (intro filter_True trans [OF _ assms(2)]) (auto simp: AList.delete_eq)
  then have copies: "queued_copies q' = map (fst \<circ> snd) (filter (\<lambda>x. fst x \<noteq> f) (filter (snd \<circ> snd) (pw_sizes q)))"
    and before: "queued_copies q = map (fst \<circ> snd) (filter (snd \<circ> snd) (pw_sizes q))"
    using all by (simp_all add: queued_copies_def AList.delete_eq comp_def split_def conj_commute eq_commute [of f])
  have "sum_list (queued_copies q') \<le> sum_list (queued_copies q)" "length (queued_copies q') \<le> length (queued_copies q)"
    unfolding copies before by (rule sum_list_filter_le_nat, simp del: filter_filter)
  with assms show ?thesis unfolding sizes_ok_def by (auto simp: dict_simps)
qed

lemma sizes_ok_same:
  assumes "sizes_ok q" and "pw_sizes q' = pw_sizes q" and "pw_next q \<le> pw_next q'" and "pw_outcome q' = pw_outcome q"
  shows "sizes_ok q'"
  using assms by (auto simp: sizes_ok_def fdone_def queued_copies_def unfinished_sized_def)

lemma sizes_ok_submit_sized:
  assumes "sizes_ok q" and "queue_ok (q, h)" and "copied \<longrightarrow> has_room nbytes q" and "submit_sized key nbytes copied v q = Inr (q', f)"
  shows "sizes_ok q'"
proof -
  from assms(4) obtain q1 where q1: "submit \<lparr>wt_key = key, wt_value = v, wt_bytes = Some nbytes\<rparr> q = Inr (q1, f)"
    and q': "q' = (if fdone q1 f then q1 else q1\<lparr>pw_sizes := AList.update f (nbytes, copied) (pw_sizes q1)\<rparr>)"
    by (rule submit_sized_eq)
  note eq = submit_eq [OF q1]
  have fresh: "f \<notin> fst ` set (pw_sizes q)" using assms(1) eq(1) by (auto simp: sizes_ok_def)
  have "dom (pw_outcome q) \<subseteq> {..<pw_next q}" using assms(2) by (rule queue_ok_done)
  then have "\<not> fdone q f" using eq(1) by (auto simp: fdone_def)
  then have undone: "\<not> fdone q1 f" using eq(5) by (simp add: fdone_def)
  then have sizes: "pw_sizes q' = pw_sizes q @ [(f, nbytes, copied)]" "pw_next q' = Suc f" "pw_outcome q' = pw_outcome q"
    using q' eq fresh by (simp_all add: update_fresh)
  then have "queued_copies q' = queued_copies q @ (if copied then [nbytes] else [])"
    using undone eq(5) by (simp add: queued_copies_def unfinished_sized_def fdone_def)
  with assms(1,3) sizes fresh undone eq(1,5) show ?thesis
    by (auto simp: sizes_ok_def has_room_def fdone_def)
qed

lemma queue_step_sizes:
  assumes "queue_step False (q, h) (q', h')" and "sizes_ok q" and "queue_ok (q, h)"
  shows "sizes_ok q'"
  using assms(1)
proof cases
  case (submitted t f)
  note eq = submit_eq [OF submitted(3)]
  show ?thesis by (rule sizes_ok_same [OF assms(2)]) (use eq in simp_all)
next
  case (sized key own copied nbytes v f)
  then show ?thesis using sizes_ok_submit_sized [OF assms(2,3) _ sized(5)] by (simp add: can_make_room_def)
next
  case (started now)
  obtain x rest where "pw_queue q = x # rest" using started(4) by (cases "pw_queue q") auto
  note eq = start_task_eq [OF started(3) this started(1)]
  show ?thesis by (rule sizes_ok_same [OF assms(2)]) (use eq in simp_all)
next
  case (finished took how)
  obtain f t where "pw_running q = Some (f, t)" using finished(3) by auto
  note eq = finish_task_eq [OF this finished(1)]
  show ?thesis by (rule sizes_ok_remove [OF assms(2) eq(5,3)]) (simp add: fdone_def eq(4))
next
  case (waited on_worker key)
  show ?thesis by (rule sizes_ok_same [OF assms(2)]; simp add: waited(1) wait_key_def split: option.split outcome.split)
next
  case (drained on_worker key)
  show ?thesis by (rule sizes_ok_same [OF assms(2)]; simp add: drained(1) drain_def)
next
  case closed
  show ?thesis by (rule sizes_ok_same [OF assms(2)]; simp add: closed(1) shutdown_def)
qed

lemma reachable_sizes_ok:
  assumes "(queue_step False)\<^sup>*\<^sup>* (pw_init, []) (q, h)"
  shows "sizes_ok q \<and> queue_ok (q, h)"
  using assms
proof (induction rule: rtranclp_induct2)
  case refl
  show ?case by (simp add: queue_ok_def sizes_ok_def pw_init_def queued_copies_def unfinished_sized_def)
next
  case (step q h q' h')
  then show ?case using queue_step_sizes queue_step_ok by blast
qed

subsection \<open>What the queue promises\<close>

text \<open>One round of the worker: take a task unless one runs, and finish it.\<close>

definition work :: "real \<times> real \<times> outcome \<Rightarrow> 'v writes \<Rightarrow> 'v writes" where
  "work x q = (case x of (now, took, how) \<Rightarrow> finish_task took how (start_task now q))"

lemma work_in_queue: "in_queue q \<noteq> [] \<Longrightarrow> in_queue (work x q) = tl (in_queue q)"
  by (cases x; cases "pw_running q"; cases "pw_queue q")
     (auto simp: work_def start_task_def finish_task_eq(1,2) [OF _ refl])

lemma work_steps: "in_queue q \<noteq> [] \<Longrightarrow> (queue_step w)\<^sup>*\<^sup>* (q, h) (work x q, h)"
proof (cases "pw_running q")
  case None
  obtain now took how where x: "x = (now, took, how)" by (cases x)
  assume "in_queue q \<noteq> []"
  then have queued: "pw_queue q \<noteq> []" using None by simp
  then have "pw_running (start_task now q) \<noteq> None" using start_task_eq(1) [OF None _ refl] by (cases "pw_queue q") auto
  then have "queue_step w (start_task now q, h) (work x q, h)" using queue_step.finished x by (simp add: work_def)
  then have "(queue_step w)\<^sup>*\<^sup>* (start_task now q, h) (work x q, h)" by (rule r_into_rtranclp)
  with queue_step.started [OF None queued] show ?thesis by (rule converse_rtranclp_into_rtranclp)
next
  case (Some y)
  obtain now took how where x: "x = (now, took, how)" by (cases x)
  have "start_task now q = q" using Some by (simp add: start_task_def)
  then show ?thesis using Some x by (simp add: work_def r_into_rtranclp queue_step.finished)
qed

lemma work_all:
  assumes "length (in_queue q) = length xs"
  shows "in_queue (fold work xs q) = [] \<and> (queue_step w)\<^sup>*\<^sup>* (q, h) (fold work xs q, h)"
  using assms
proof (induction xs arbitrary: q)
  case (Cons x xs)
  then have ne: "in_queue q \<noteq> []" by auto
  then have "length (in_queue (work x q)) = length xs" using Cons.prems work_in_queue [OF ne, of x] by simp
  then show ?case using Cons.IH [of "work x q"] work_steps [OF ne, of w h x] by auto
qed simp

text \<open>A run for the witnesses: key \<open>a\<close> is written, then \<open>b\<close>, and the worker takes the first.\<close>

definition sample_run :: "nat writes \<times> nat submissions" where
  "sample_run = (case submit_sized ''a'' 10 True 1 pw_init of
       Inr (q1, f) \<Rightarrow> (case submit_sized ''b'' 20 True 2 q1 of
           Inr (q2, g) \<Rightarrow> (start_task 0 q2, [(f, \<lparr>wt_key = ''a'', wt_value = 1, wt_bytes = Some 10\<rparr>),
              (g, \<lparr>wt_key = ''b'', wt_value = 2, wt_bytes = Some 20\<rparr>)])
         | _ \<Rightarrow> (pw_init, []))
     | _ \<Rightarrow> (pw_init, []))"

lemmas sample_defs = sample_run_def submit_sized_def submit_def pw_init_def fdone_def start_task_def Let_def

lemma steps3: "r a b \<Longrightarrow> r b c \<Longrightarrow> r c d \<Longrightarrow> r\<^sup>*\<^sup>* a d"
  by (meson converse_rtranclp_into_rtranclp r_into_rtranclp)

lemma sample_reachable: "(queue_step False)\<^sup>*\<^sup>* (pw_init, []) sample_run"
proof -
  let ?t1 = "\<lparr>wt_key = ''a'', wt_value = 1, wt_bytes = Some 10\<rparr>" and ?t2 = "\<lparr>wt_key = ''b'', wt_value = 2, wt_bytes = Some 20\<rparr>"
  obtain q1 :: "nat writes" where q1: "submit_sized ''a'' 10 True 1 pw_init = Inr (q1, 0)"
    by (simp add: sample_defs)
  obtain q2 where q2: "submit_sized ''b'' 20 True 2 q1 = Inr (q2, 1)"
    using q1 by (auto simp: sample_defs)
  have s1: "queue_step False (pw_init, []) (q1, [] @ [(0, ?t1)])"
    by (rule queue_step.sized [where own = False, OF _ _ _ q1])
       (simp_all add: can_submit_def pw_init_def can_make_room_def has_room_def queued_copies_def unfinished_sized_def)
  have s2: "queue_step False (q1, [(0, ?t1)]) (q2, [(0, ?t1)] @ [(1, ?t2)])"
    by (rule queue_step.sized [where own = False, OF _ _ _ q2])
       (use q1 in \<open>auto simp: sample_defs can_submit_def can_make_room_def has_room_def queued_copies_def unfinished_sized_def MAX_QUEUED_BYTES_def\<close>)
  have s3: "queue_step False (q2, [(0, ?t1), (1, ?t2)]) (start_task 0 q2, [(0, ?t1), (1, ?t2)])"
    by (rule queue_step.started) (use q1 q2 in \<open>auto simp: sample_defs\<close>)
  have run: "sample_run = (start_task 0 q2, [(0, ?t1), (1, ?t2)])"
    using q1 q2 by (simp add: sample_run_def)
  show ?thesis unfolding run
    by (rule steps3 [where r = "queue_step False", OF s1 [simplified append.simps] s2 [simplified append.simps] s3])
qed

text \<open>
  C18: Whatever the threads do, what reached the backend are the submitted writes that succeeded,
  in the order they were submitted, and no write has finished before an earlier one.\<close>

theorem writes_land_in_order:
  assumes "(queue_step w)\<^sup>*\<^sup>* (pw_init, []) (q, h)"
  shows "pw_landed q = map (\<lambda>(f, t). (wt_key t, wt_value t)) (filter (\<lambda>(f, t). pw_outcome q f = Some Wrote) h) \<and>
    (\<forall>f g. fdone q g \<and> f \<le> g \<longrightarrow> fdone q f)"
proof -
  have ok: "queue_ok (q, h)" using assms by (rule reachable_queue_ok)
  then obtain fin where fin: "h = fin @ in_queue q" "\<forall>f. fdone q f \<longleftrightarrow> f < length fin"
      "map fst h = [0..<pw_next q]" "\<forall>i < length h. fst (h ! i) = i"
      "pw_landed q = map (\<lambda>(f, t). (wt_key t, wt_value t)) (filter (written q) fin)"
    by (rule queue_ok_futures)
  have "filter (written q) (in_queue q) = []"
    using in_queue_undone [OF ok] by (auto simp: filter_empty_conv written_def fdone_def)
  then have "filter (written q) fin = filter (written q) h" using fin(1) by (metis append_Nil2 filter_append)
  moreover have "written q = (\<lambda>(f, t). pw_outcome q f = Some Wrote)" by (auto simp: written_def)
  ultimately show ?thesis using fin(2,5) by auto
qed

theorem writes_land_in_order_witness:
  "pw_landed (fst sample_run) =
     map (\<lambda>(f, t). (wt_key t, wt_value t)) (filter (\<lambda>(f, t). pw_outcome (fst sample_run) f = Some Wrote) (snd sample_run))"
  using writes_land_in_order [of False "fst sample_run" "snd sample_run"] sample_reachable by simp

text \<open>
  C19: Once the write that \<^const>\<open>drain\<close> waits for has finished, no write of that key is queued or
  running unless it was submitted after the drain: a delete that drained first is never undone
  by a write from before it.\<close>

theorem drained_key_not_written_later:
  assumes "(queue_step w)\<^sup>*\<^sup>* (pw_init, []) (q, h)" and "drain False key q = (q1, Some f)"
    and "(queue_step w)\<^sup>*\<^sup>* (q1, h) (q2, h @ later)" and "fdone q2 f"
    and "\<forall>(g, t) \<in> set later. wt_key t \<noteq> key"
  shows "\<forall>(g, t) \<in> set (in_queue q2). wt_key t \<noteq> key"
proof -
  have pend: "pending_ok (q, h)" using reachable_pending_ok [OF assms(1)] by blast
  have f: "map_of (pw_pending q) key = Some f" using assms(2) by (simp add: drain_def current_worker_key_def)
  have "queue_step w (q, h) (q1, h)" using queue_step.drained [of w q h False key] assms(2) by simp
  then have "(queue_step w)\<^sup>*\<^sup>* (pw_init, []) (q2, h @ later)" using assms(1,3) by (meson rtranclp.rtrancl_into_rtrancl rtranclp_trans)
  then have ok: "queue_ok (q2, h @ later)" by (rule reachable_queue_ok)
  then obtain fin where fin: "h @ later = fin @ in_queue q2" "\<forall>f. fdone q2 f \<longleftrightarrow> f < length fin"
      "map fst (h @ later) = [0..<pw_next q2]" "\<forall>i < length (h @ later). fst ((h @ later) ! i) = i"
      "pw_landed q2 = map (\<lambda>(f, t). (wt_key t, wt_value t)) (filter (written q2) fin)"
    by (rule queue_ok_futures)
  have "wt_key t \<noteq> key" if "(g, t) \<in> set (in_queue q2)" for g t
  proof
    assume key: "wt_key t = key"
    have "(g, t) \<in> set (h @ later)" unfolding fin(1) using that by simp
    with assms(5) key have "(g, t) \<in> set h" by auto
    with pend f key have "g \<le> f" unfolding pending_ok_def by auto
    with fin(2) assms(4) have "fdone q2 g" by auto
    with in_queue_undone [OF ok that] show False by simp
  qed
  then show ?thesis by blast
qed

text \<open>In the sample, \<open>a\<close> is drained while it runs, and \<open>b\<close> is still queued when it has finished.\<close>

theorem drained_key_not_written_later_witness:
  "''a'' \<notin> (wt_key \<circ> snd) ` set (in_queue (finish_task 1 Wrote (fst (drain False ''a'' (fst sample_run)))))"
proof -
  let ?q1 = "fst (drain False ''a'' (fst sample_run))"
  have reach: "(queue_step False)\<^sup>*\<^sup>* (pw_init, []) (fst sample_run, snd sample_run)" using sample_reachable by simp
  have drains: "drain False ''a'' (fst sample_run) = (?q1, Some 0)"
    by (simp add: drain_def sample_defs current_worker_key_def)
  have "pw_running ?q1 \<noteq> None" by (simp add: drain_def sample_defs)
  then have finishes: "(queue_step False)\<^sup>*\<^sup>* (?q1, snd sample_run) (finish_task 1 Wrote ?q1, snd sample_run @ [])"
    by (simp add: r_into_rtranclp queue_step.finished)
  have "fdone (finish_task 1 Wrote ?q1) 0"
    by (simp add: drain_def sample_defs finish_task_def learn_cost_def forget_size_def forget_if_succeeded_def TIMED_PER_BYTE_FROM_def)
  from drained_key_not_written_later [OF reach drains finishes this]
  have all: "\<forall>(g, t) \<in> set (in_queue (finish_task 1 Wrote ?q1)). wt_key t \<noteq> ''a''" by simp
  show ?thesis
  proof
    assume "''a'' \<in> (wt_key \<circ> snd) ` set (in_queue (finish_task 1 Wrote ?q1))"
    then obtain x where "x \<in> set (in_queue (finish_task 1 Wrote ?q1))" and "''a'' = (wt_key \<circ> snd) x" by (rule imageE)
    from bspec [OF all this(1)] this(2) show False by (simp add: split_def)
  qed
qed




definition sample_work :: "nat writes" where
  "sample_work = fold work [(1, 1, Wrote), (2, 1, Raised ''OSError'')] (fst sample_run)"


end
