(* ===== verification/Memory_Tier.thy ===== *)
theory Memory_Tier
  imports Entry_Meta Cost_Model
    "HOL-Library.Product_Lexorder" "HOL-Library.List_Lexorder" "HOL-Library.Char_ord"
begin

text \<open>
  The RAM tier (class \<open>InMemoryBackend\<close> of \<open>src/cash/backends/memory_backend.py\<close>): the entries
  of this process, their byte accounting, the choice of what to keep, refuse and evict, and what
  a hit hands out.

  A value is opaque (\<open>'v\<close>). How cash looks at a value and copies it (\<open>_plain_data\<close>,
  \<open>frame_sharing\<close>, \<open>stored_pickle\<close>, the walks of \<open>memory_backend.py\<close> itself) is the argument
  \<open>look\<close>: what each of those calls answers for the value at hand; \<open>reading\<close> is what reading a
  stored value back does. Operations run under the tier's lock, one at a time. An exception
  is the outcome \<open>RamRaised\<close>, with the state it leaves.
\<close>

subsection \<open>What reading objects back was measured to take\<close>

definition ROUND_TRIP_MIN_BYTES :: bytes_t where "ROUND_TRIP_MIN_BYTES = 1024 * 1024"
definition ROUND_TRIP_CLASSES :: nat where "ROUND_TRIP_CLASSES = 256"
definition COPY_READINGS :: nat where "COPY_READINGS = 8"

text \<open>The last readings of each class, seconds per byte, the most recently seen class last.\<close>

type_synonym rates = "(string \<times> real list) list"

definition note_round_trip :: "string \<Rightarrow> bytes_t \<Rightarrow> seconds \<Rightarrow> rates \<Rightarrow> rates" where
  "note_round_trip name nbytes seconds rates = (
     if nbytes < ROUND_TRIP_MIN_BYTES \<or> seconds \<le> 0 then rates
     else let readings = (case map_of rates name of None \<Rightarrow> [] | Some rs \<Rightarrow> rs) @ [seconds / of_int nbytes];
              readings = drop (length readings - COPY_READINGS) readings;
              rates = dict_push name readings rates in
       drop (length rates - ROUND_TRIP_CLASSES) rates)"

text \<open>The type of a value, as far as the tier tells: a dict, data copied as such, or an object of a
  class of its own (its \<open>class_key\<close> and its bare name).\<close>

datatype value_class = DictValue | DataValue | OwnClass string string

definition min_reading :: "rates \<Rightarrow> string \<Rightarrow> real option" where
  "min_reading rates name = (case map_of rates name of
       None \<Rightarrow> None | Some [] \<Rightarrow> None | Some (r # rs) \<Rightarrow> Some (foldl min r rs))"

definition round_trip_seconds :: "value_class \<Rightarrow> bytes_t \<Rightarrow> rates \<Rightarrow> seconds option" where
  "round_trip_seconds kind nbytes rates = (case kind of
       OwnClass name _ \<Rightarrow> map_option (\<lambda>r. of_int nbytes * r) (min_reading rates name)
     | _ \<Rightarrow> None)"

definition copied_by_round_trip :: "value_class \<Rightarrow> entry_metadata \<Rightarrow> bool" where
  "copied_by_round_trip kind m = (case kind of
       DictValue \<Rightarrow> m_cost_model_family m = Some GENERIC_FAMILY | DataValue \<Rightarrow> False | OwnClass _ _ \<Rightarrow> True)"

definition learned_round_trip :: "value_class \<Rightarrow> bytes_t \<Rightarrow> entry_metadata \<Rightarrow> rates \<Rightarrow> seconds option" where
  "learned_round_trip kind nbytes m rates = (case kind of
       DictValue \<Rightarrow> map_option (\<lambda>r. of_int nbytes * r)
          (min_reading rates (case m_round_trip_class m of None \<Rightarrow> '''' | Some c \<Rightarrow> c))
     | _ \<Rightarrow> round_trip_seconds kind nbytes rates)"

definition judged_by_compute :: "entry_metadata \<Rightarrow> bool" where
  "judged_by_compute m = (if m_decorator_entry m \<or> m_force_persist m \<or> m_copy_required m then False
     else truthy (m_execution_time m))"

text \<open>\<open>seconds >= metadata["execution_time"]\<close>: the entry records a number, as \<open>EntryMetadata\<close> has it.\<close>

definition no_faster :: "seconds \<Rightarrow> entry_metadata \<Rightarrow> bool" where
  "no_faster seconds m = (case float_of_val (m_execution_time m) of None \<Rightarrow> False | Some f \<Rightarrow> py_le f (Fin seconds))"

definition hit_no_faster :: "value_class \<Rightarrow> seconds \<Rightarrow> entry_metadata \<Rightarrow> bool" where
  "hit_no_faster kind seconds m = (case kind of
       OwnClass _ _ \<Rightarrow> judged_by_compute m \<and> no_faster seconds m | _ \<Rightarrow> False)"

definition may_refuse :: "seconds \<Rightarrow> entry_metadata \<Rightarrow> bool" where
  "may_refuse seconds m = (judged_by_compute m \<and> no_faster (2 * seconds) m)"

text \<open>\<open>_slower_than_its_compute\<close>: the answer, and the metadata with the prediction noted.\<close>

definition slower_than_its_compute ::
  "value_class \<Rightarrow> bytes_t \<Rightarrow> entry_metadata \<Rightarrow> rates \<Rightarrow> entry_metadata \<times> bool" where
  "slower_than_its_compute kind sz m rates = (case kind of
       OwnClass _ name \<Rightarrow>
         if \<not> judged_by_compute m then (m, False)
         else (case round_trip_seconds kind sz rates of
             None \<Rightarrow> (m, case estimated_restore_time name sz ''ram'' of None \<Rightarrow> False | Some t \<Rightarrow> no_faster t m)
           | Some predicted \<Rightarrow> if no_faster predicted m then (m\<lparr>m_measured_round_trip := Some predicted\<rparr>, True) else (m, False))
     | _ \<Rightarrow> (m, False))"

definition credited_class :: "value_class \<Rightarrow> entry_metadata \<Rightarrow> string option" where
  "credited_class kind m = (case kind of
       DictValue \<Rightarrow> if m_cost_model_family m \<noteq> Some GENERIC_FAMILY \<or> m_call_refs m \<noteq> [] then None else m_round_trip_class m
     | DataValue \<Rightarrow> None
     | OwnClass name _ \<Rightarrow> Some name)"

text \<open>A class name that is absent or empty is none.\<close>

definition restore_too_slow :: "value_class \<Rightarrow> entry_metadata \<Rightarrow> seconds \<Rightarrow> bool" where
  "restore_too_slow kind m seconds = (if credited_class kind m \<in> {None, Some []} then False
     else judged_by_compute m \<and> no_faster seconds m)"

definition restored_no_faster :: "value_class \<Rightarrow> entry_metadata \<Rightarrow> seconds \<Rightarrow> rates \<Rightarrow> rates \<times> bool" where
  "restored_no_faster kind m seconds rates = (case credited_class kind m of
       None \<Rightarrow> (rates, False)
     | Some [] \<Rightarrow> (rates, False)
     | Some name \<Rightarrow>
         let nbytes = (case m_cost_model_size_bytes m of None \<Rightarrow> 0 | Some n \<Rightarrow> n);
             nbytes = (if nbytes = 0 then (case m_size m of None \<Rightarrow> 0 | Some n \<Rightarrow> n) else nbytes) in
         (note_round_trip name nbytes seconds rates, judged_by_compute m \<and> no_faster seconds m))"

subsection \<open>The tier\<close>

text \<open>How a value is kept: as marshal bytes, as pickle bytes (read out before or not, and the class
  they were made of), or as a copy.\<close>

datatype 'v form = Marshalled 'v | Pickled 'v bool "string option" | Copied 'v

text \<open>\<open>re_dict\<close> is which metadata dict the entry was stored with: the code compares the dicts by
  identity.\<close>

record 'v ram_entry =
  re_meta :: entry_metadata
  re_form :: "'v form"
  re_dict :: nat

record 'v ram =
  ram_store :: "(string \<times> 'v ram_entry) list"
  ram_max_percent :: real
  ram_check_interval :: nat
  ram_max_entries :: "nat option"
  ram_max_size :: "bytes_t option"
  ram_current :: bytes_t
  ram_pressure_floor :: "bytes_t option"
  ram_pressure_percent :: "real option"
  ram_set_count :: nat
  ram_immutable :: "string set"
  ram_dict_rows :: "string set"
  ram_frame_cells :: "string \<rightharpoonup> bool option list"
  ram_plans :: "string set"
  ram_holds_bytes :: "string set"
  ram_shared :: "string set"
  ram_own :: "string set"
  ram_checked :: "string set"
  ram_written :: "string set"
  ram_clock :: real
  ram_base :: "string \<rightharpoonup> real"
  ram_seq :: nat
  ram_seq_by_key :: "string \<rightharpoonup> nat"
  ram_handoff :: "(string \<times> 'v ram_entry) option"
  ram_rates :: rates

definition ram_init :: "real \<Rightarrow> nat \<Rightarrow> nat option \<Rightarrow> bytes_t option \<Rightarrow> 'v ram" where
  "ram_init max_percent interval max_entries max_size = \<lparr>ram_store = [], ram_max_percent = max_percent,
     ram_check_interval = interval, ram_max_entries = max_entries, ram_max_size = max_size, ram_current = 0,
     ram_pressure_floor = None, ram_pressure_percent = None, ram_set_count = 0, ram_immutable = {}, ram_dict_rows = {},
     ram_frame_cells = Map.empty, ram_plans = {}, ram_holds_bytes = {}, ram_shared = {}, ram_own = {}, ram_checked = {},
     ram_written = {}, ram_clock = 0, ram_base = Map.empty, ram_seq = 0, ram_seq_by_key = Map.empty, ram_handoff = None,
     ram_rates = []\<rparr>"

definition PRESSURE_WORSENED_POINTS :: real where "PRESSURE_WORSENED_POINTS = 2"
definition PRESSURE_KEEPS_BYTES :: bytes_t where "PRESSURE_KEEPS_BYTES = 16 * 1024 ^ 2"
definition RAM_LABEL :: string where "RAM_LABEL = ''RAM''"

definition entry_size :: "'v ram_entry \<Rightarrow> bytes_t" where
  "entry_size e = (case m_size (re_meta e) of None \<Rightarrow> 0 | Some n \<Rightarrow> n)"

definition ram_touch :: "string \<Rightarrow> 'v ram \<Rightarrow> 'v ram" where
  "ram_touch key r = r\<lparr>ram_base := (ram_base r)(key \<mapsto> ram_clock r), ram_seq := ram_seq r + 1,
     ram_seq_by_key := (ram_seq_by_key r)(key \<mapsto> ram_seq r + 1)\<rparr>"

definition ram_drop :: "string \<Rightarrow> 'v ram \<Rightarrow> 'v ram" where
  "ram_drop key r = r\<lparr>ram_immutable := ram_immutable r - {key}, ram_dict_rows := ram_dict_rows r - {key},
     ram_frame_cells := (ram_frame_cells r)(key := None), ram_plans := ram_plans r - {key},
     ram_holds_bytes := ram_holds_bytes r - {key}, ram_shared := ram_shared r - {key}, ram_own := ram_own r - {key},
     ram_checked := ram_checked r - {key}, ram_base := (ram_base r)(key := None),
     ram_seq_by_key := (ram_seq_by_key r)(key := None), ram_store := AList.delete key (ram_store r),
     ram_current := ram_current r - (case map_of (ram_store r) key of None \<Rightarrow> 0 | Some e \<Rightarrow> entry_size e)\<rparr>"

definition ram_delete :: "string \<Rightarrow> 'v ram \<Rightarrow> 'v ram" where
  "ram_delete key r = ram_drop key r"

definition ram_clear :: "'v ram \<Rightarrow> 'v ram" where
  "ram_clear r = r\<lparr>ram_store := [], ram_immutable := {}, ram_dict_rows := {}, ram_frame_cells := Map.empty, ram_plans := {},
     ram_holds_bytes := {}, ram_shared := {}, ram_own := {}, ram_checked := {}, ram_base := Map.empty,
     ram_seq_by_key := Map.empty, ram_current := 0, ram_pressure_floor := None, ram_pressure_percent := None\<rparr>"

definition ram_list_entries :: "'v ram \<Rightarrow> entry_metadata list" where
  "ram_list_entries r = map (re_meta \<circ> snd) (ram_store r)"

definition ram_entry_count :: "'v ram \<Rightarrow> nat" where
  "ram_entry_count r = length (ram_store r)"

definition ram_cleanup_expired :: "(entry_metadata \<Rightarrow> bool) \<Rightarrow> 'v ram \<Rightarrow> 'v ram \<times> nat" where
  "ram_cleanup_expired is_expired r = (
     let keys = map fst (filter (\<lambda>(_, e). is_expired (re_meta e)) (ram_store r)) in
     (fold ram_drop keys r, length keys))"

subsection \<open>Eviction\<close>

text \<open>\<open>_gdsf_priority\<close>; \<open>None\<close> is an exception of the float arithmetic.\<close>

definition gdsf_priority :: "'v ram \<Rightarrow> string \<Rightarrow> entry_metadata \<Rightarrow> real option" where
  "gdsf_priority r key m = map_option (\<lambda>v. (case ram_base r key of None \<Rightarrow> 0 | Some b \<Rightarrow> b) + v)
     (gdsf_value m (case m_size m of None \<Rightarrow> 1 | Some n \<Rightarrow> n))"

text \<open>The entries by value per byte, the least first; ties by access order, then by key.\<close>

type_synonym ranked_key = "real \<times> nat \<times> string"

definition ranked_keys :: "'v ram \<Rightarrow> ranked_key list option" where
  "ranked_keys r = map_option sort (those (map (\<lambda>(key, e). map_option
     (\<lambda>p. (p, case ram_seq_by_key r key of None \<Rightarrow> 0 | Some n \<Rightarrow> n, key)) (gdsf_priority r key (re_meta e))) (ram_store r)))"

fun evict_down :: "real \<Rightarrow> ranked_key list \<Rightarrow> 'v ram \<Rightarrow> 'v ram" where
  "evict_down target [] r = r"
| "evict_down target ((p, _, key) # items) r = (
     if of_int (ram_current r) \<le> target then r
     else let r = ram_drop key r in evict_down target items (r\<lparr>ram_clock := max (ram_clock r) p\<rparr>))"

definition evict_to_byte_cap :: "'v ram \<Rightarrow> 'v ram \<times> bool" where
  "evict_to_byte_cap r = (case ram_max_size r of
       None \<Rightarrow> (r, True)
     | Some cap \<Rightarrow> if cap = 0 \<or> ram_current r \<le> cap then (r, True)
         else (case ranked_keys r of None \<Rightarrow> (r, False) | Some items \<Rightarrow> (evict_down (of_int cap * (9 / 10)) items r, True)))"

definition evict_lru :: "nat \<Rightarrow> 'v ram \<Rightarrow> 'v ram" where
  "evict_lru n r = (
     let items = sort (map (\<lambda>(key, e). (case m_last_access (re_meta e) of None \<Rightarrow> 0 | Some t \<Rightarrow> t, key)) (ram_store r)) in
     fold (\<lambda>(_, key). ram_drop key) (take n items) r)"

text \<open>Memory pressure: the machine's total memory and the percent of it in use.\<close>

record mem_reading =
  mr_total :: real
  mr_percent :: real

definition pressure_share :: "mem_reading \<Rightarrow> real \<Rightarrow> 'v ram \<Rightarrow> 'v ram \<times> real" where
  "pressure_share mem target_percent r = (
     let own = of_int (ram_current r);
         worsening = (case ram_pressure_percent r of None \<Rightarrow> False | Some p \<Rightarrow> p + PRESSURE_WORSENED_POINTS < mr_percent mem) in
     case (ram_pressure_floor r, worsening) of
       (Some fl, False) \<Rightarrow> (r, max 0 (own - of_int fl))
     | _ \<Rightarrow>
         let r = r\<lparr>ram_pressure_percent := Some (mr_percent mem)\<rparr>;
             in_use = mr_total mem * mr_percent mem / 100;
             overshoot = in_use - mr_total mem * target_percent in
         (r, if overshoot \<le> 0 \<or> in_use \<le> 0 then 0
             else min (max 0 (own - of_int PRESSURE_KEEPS_BYTES)) (overshoot * min 1 (own / in_use))))"

fun shed_items :: "real \<Rightarrow> bytes_t \<Rightarrow> ranked_key list \<Rightarrow> 'v ram \<Rightarrow> 'v ram" where
  "shed_items nbytes freed [] r = r"
| "shed_items nbytes freed ((p, _, key) # items) r = (
     if nbytes \<le> of_int freed then r
     else case map_of (ram_store r) key of
         None \<Rightarrow> shed_items nbytes freed items r
       | Some e \<Rightarrow> let r' = ram_drop key r in
           shed_items nbytes (freed + entry_size e) items (r'\<lparr>ram_clock := max (ram_clock r') p\<rparr>))"

definition hold_floor :: "'v ram \<Rightarrow> 'v ram" where
  "hold_floor r = r\<lparr>ram_pressure_floor := Some (max (ram_current r) PRESSURE_KEEPS_BYTES)\<rparr>"

text \<open>The operations that rank entries also tell whether they ran through.\<close>

definition shed :: "real \<Rightarrow> 'v ram \<Rightarrow> 'v ram \<times> bool" where
  "shed nbytes r = (if 0 < nbytes
     then (case ranked_keys r of None \<Rightarrow> (r, False) | Some items \<Rightarrow> (hold_floor (shed_items nbytes 0 items r), True))
     else (hold_floor r, True))"

definition ram_evict :: "mem_reading \<Rightarrow> 'v ram \<Rightarrow> 'v ram \<times> bool" where
  "ram_evict mem r = (let (r, n) = pressure_share mem (ram_max_percent r * (9 / 10)) r in shed n r)"

definition check_and_evict :: "mem_reading option \<Rightarrow> 'v ram \<Rightarrow> 'v ram \<times> bool" where
  "check_and_evict reading r = (case reading of
       None \<Rightarrow> (r, True)
     | Some mem \<Rightarrow> if ram_max_percent r < mr_percent mem / 100 then ram_evict mem r
         else (r\<lparr>ram_pressure_floor := None, ram_pressure_percent := None\<rparr>, True))"

subsection \<open>Storing\<close>

text \<open>What cash finds when it looks at the value: its profile as plain data (size, immutable below
  its top), as rows of dicts, as a tree of JSON-like data (its size), whether that tree is kept
  as marshal bytes and could be dumped, whether big shared lists lie in it, the sizes of its
  parts kept as bytes and whether any was dumped, its footprint in memory (whole, and without
  those parts), what its pickle comes to, and how copying it went.\<close>

datatype snapshot = NoSnapshot | OverHashBudget | SnapshotOf bytes_t "string option"

record copied_value =
  cv_fell_back :: bool
  cv_by_spine :: bool
  cv_by_deepcopy :: bool
  cv_cells :: "bool option list"
  cv_cells_bytes :: bool
  cv_checked :: bool
  cv_frames_own :: bool
  cv_unpickle :: seconds
  cv_again :: "seconds option"

record look =
  lk_kind :: value_class
  lk_plain :: "(bytes_t \<times> bool) option"
  lk_dict_rows :: "bytes_t option"
  lk_facts :: "bytes_t option"
  lk_marshals :: bool
  lk_dumped :: bool
  lk_shared :: bool
  lk_parts :: "bytes_t list"
  lk_parts_dumped :: bool
  lk_footprint :: bytes_t
  lk_footprint_rest :: bytes_t
  lk_nested :: bool
  lk_estimate :: bytes_t
  lk_at_least :: bool
  lk_snapshot :: snapshot
  lk_copy :: "copied_value option"
  lk_cheap :: bool
  lk_freezes :: bool

record ram_env =
  rn_now :: seconds
  rn_mem :: "mem_reading option"

datatype ram_outcome = RamKept | RamRefused | RamRaised

definition over_target :: "bytes_t \<Rightarrow> 'v ram \<Rightarrow> bool" where
  "over_target sz r = (case ram_max_size r of None \<Rightarrow> False | Some cap \<Rightarrow> of_int cap * (9 / 10) < (of_int sz :: real))"

text \<open>Which of the looks apply: each is taken only when the ones before it found nothing.\<close>

definition use_dict_rows :: "look \<Rightarrow> bytes_t option" where
  "use_dict_rows l = (if lk_plain l \<noteq> None then None else lk_dict_rows l)"

definition use_tree :: "look \<Rightarrow> bool" where
  "use_tree l = (lk_plain l = None \<and> use_dict_rows l = None)"

definition use_facts :: "look \<Rightarrow> bytes_t option" where
  "use_facts l = (if use_tree l then lk_facts l else None)"

definition found_shared :: "look \<Rightarrow> bool" where
  "found_shared l = (use_tree l \<and> lk_kind l = DictValue \<and> lk_shared l)"

definition use_shared :: "look \<Rightarrow> bool" where
  "use_shared l = (found_shared l \<and> use_facts l = None)"

definition use_parts :: "look \<Rightarrow> bytes_t list" where
  "use_parts l = (if use_tree l \<and> use_facts l = None \<and> lk_kind l = DictValue then lk_parts l else [])"

definition use_whole :: "look \<Rightarrow> bool" where
  "use_whole l = (\<not> found_shared l \<and> use_facts l \<noteq> None \<and> lk_marshals l)"

text \<open>Is the value asked for its pickle?\<close>

definition try_pickle :: "look \<Rightarrow> entry_metadata \<Rightarrow> bool" where
  "try_pickle l m = (use_tree l \<and> use_facts l = None \<and> use_parts l = [] \<and> \<not> use_shared l \<and>
     ((lk_kind l = DictValue \<and> lk_nested l) \<or> copied_by_round_trip (lk_kind l) m))"

text \<open>The pickle made, and the size of what the tier will hold.\<close>

definition snapshot_of :: "look \<Rightarrow> snapshot" where
  "snapshot_of l = (if (lk_kind l = DictValue \<and> lk_nested l) \<or> ROUND_TRIP_MIN_BYTES \<le> lk_estimate l \<or> lk_at_least l
     then lk_snapshot l else NoSnapshot)"

definition size_of :: "look \<Rightarrow> snapshot \<Rightarrow> bytes_t" where
  "size_of l pickled = (case pickled of
       SnapshotOf n _ \<Rightarrow> if ROUND_TRIP_MIN_BYTES \<le> n then n else lk_footprint l
     | _ \<Rightarrow> (case use_dict_rows l of Some n \<Rightarrow> n
        | None \<Rightarrow> (case use_facts l of Some n \<Rightarrow> n
        | None \<Rightarrow> if use_parts l \<noteq> [] then lk_footprint_rest l + sum_list (use_parts l)
        else (case lk_plain l of None \<Rightarrow> lk_footprint l | Some (n, _) \<Rightarrow> n))))"

text \<open>How the value is going to be kept, and what the tier notes about it.\<close>

record 'v kept =
  kp_form :: "'v form"
  kp_immutable :: bool
  kp_cells :: "bool option list"
  kp_plan :: bool
  kp_holds_bytes :: bool
  kp_own :: bool
  kp_checked :: bool

definition keep_as :: "'v form \<Rightarrow> bool \<Rightarrow> 'v kept" where
  "keep_as f immutable = \<lparr>kp_form = f, kp_immutable = immutable, kp_cells = [], kp_plan = False, kp_holds_bytes = False,
     kp_own = True, kp_checked = False\<rparr>"

text \<open>The general copy (\<open>_safe_deep_copy\<close>): the entry kept, or \<open>Inl RamRefused\<close> when a hit would be no
  faster than the compute, or \<open>Inl RamRaised\<close>.\<close>

definition copy_unpickle :: "copied_value \<Rightarrow> entry_metadata \<Rightarrow> seconds" where
  "copy_unpickle c m = (if may_refuse (cv_unpickle c) m
     then (case cv_again c of None \<Rightarrow> cv_unpickle c | Some t \<Rightarrow> min (cv_unpickle c) t) else cv_unpickle c)"

definition note_copy :: "value_class \<Rightarrow> bytes_t \<Rightarrow> seconds \<Rightarrow> rates \<Rightarrow> rates" where
  "note_copy kind sz seconds rates = (case kind of OwnClass name _ \<Rightarrow> note_round_trip name sz seconds rates | _ \<Rightarrow> rates)"

definition copy_value :: "look \<Rightarrow> 'v \<Rightarrow> bytes_t \<Rightarrow> entry_metadata \<Rightarrow> rates \<Rightarrow>
    (entry_metadata \<times> rates) \<times> (ram_outcome + 'v kept)" where
  "copy_value l v sz m rates = (case lk_copy l of
       None \<Rightarrow> ((m, rates), Inl RamRaised)
     | Some c \<Rightarrow>
         let timed = (\<not> (cv_fell_back c \<or> cv_by_deepcopy c) \<and> ROUND_TRIP_MIN_BYTES \<le> sz);
             secs = copy_unpickle c m;
             m1 = (if timed \<and> copied_by_round_trip (lk_kind l) m then m\<lparr>m_measured_round_trip := Some secs\<rparr> else m);
             rates1 = (if timed then note_copy (lk_kind l) sz secs rates else rates);
             shares_cells = (None \<in> set (cv_cells c)) in
         if timed \<and> hit_no_faster (lk_kind l) secs m1 then ((m1, rates1), Inl RamRefused)
         else if m_copy_required m1 \<and> shares_cells then ((m1, rates1), Inl RamRaised)
         else ((if cv_fell_back c \<or> shares_cells then m1\<lparr>m_by_reference := True\<rparr> else m1, rates1),
           Inr \<lparr>kp_form = Copied v, kp_immutable = False, kp_cells = cv_cells c,
             kp_plan = (cv_by_spine c \<and> lk_kind l = DictValue),
             kp_holds_bytes = ((lk_parts_dumped l \<and> use_parts l \<noteq> [] \<or> cv_cells_bytes c) \<and> \<not> cv_fell_back c),
             kp_own = (\<not> cv_fell_back c \<and> \<not> cv_by_deepcopy c \<and> cv_frames_own c), kp_checked = cv_checked c\<rparr>))"

definition keep_value :: "look \<Rightarrow> snapshot \<Rightarrow> 'v \<Rightarrow> bytes_t \<Rightarrow> entry_metadata \<Rightarrow> rates \<Rightarrow>
    (entry_metadata \<times> rates) \<times> (ram_outcome + 'v kept)" where
  "keep_value l pickled v sz m rates = (
     if use_dict_rows l \<noteq> None then ((m, rates), Inr (keep_as (Copied v) False))
     else if use_whole l \<and> lk_dumped l then ((m, rates), Inr (keep_as (Marshalled v) False))
     else case pickled of
         SnapshotOf n cls \<Rightarrow>
           ((case learned_round_trip (lk_kind l) sz m rates of None \<Rightarrow> m | Some t \<Rightarrow> m\<lparr>m_measured_round_trip := Some t\<rparr>, rates),
            Inr (keep_as (Pickled v False cls) False))
       | _ \<Rightarrow> (case lk_plain l of
             None \<Rightarrow> copy_value l v sz m rates
           | Some (_, immutable) \<Rightarrow> ((m, rates), Inr (keep_as (Copied v) immutable))))"

text \<open>The store itself, under the lock: the bookkeeping, the caps, the memory check.\<close>

definition put_key :: "bool \<Rightarrow> string \<Rightarrow> string set \<Rightarrow> string set" where
  "put_key b key s = (if b then insert key s else s - {key})"

definition ram_record :: "string \<Rightarrow> 'v kept \<Rightarrow> bool \<Rightarrow> bool \<Rightarrow> entry_metadata \<Rightarrow> nat \<Rightarrow> bytes_t \<Rightarrow> 'v ram \<Rightarrow> 'v ram" where
  "ram_record key k dict_rows shared m d sz r = (
     let r = r\<lparr>ram_current := ram_current r - (case map_of (ram_store r) key of None \<Rightarrow> 0 | Some e \<Rightarrow> entry_size e)\<rparr>;
         r = ram_touch key (r\<lparr>ram_store := AList.update key \<lparr>re_meta = m, re_form = kp_form k, re_dict = d\<rparr> (ram_store r)\<rparr>) in
     r\<lparr>ram_immutable := put_key (kp_immutable k) key (ram_immutable r),
       ram_dict_rows := put_key dict_rows key (ram_dict_rows r),
       ram_frame_cells := (ram_frame_cells r)(key := if kp_cells k = [] then None else Some (kp_cells k)),
       ram_plans := put_key (kp_plan k) key (ram_plans r),
       ram_holds_bytes := put_key (kp_holds_bytes k) key (ram_holds_bytes r),
       ram_shared := put_key (shared \<and> kp_own k) key (ram_shared r),
       ram_own := put_key (kp_own k) key (ram_own r),
       ram_checked := put_key (kp_checked k) key (ram_checked r),
       ram_current := ram_current r + sz\<rparr>)"

definition ram_within_entries :: "'v ram \<Rightarrow> 'v ram" where
  "ram_within_entries r = (case ram_max_entries r of None \<Rightarrow> r
     | Some n \<Rightarrow> if n < length (ram_store r) then evict_lru (length (ram_store r) - n) r else r)"

definition ram_commit :: "ram_env \<Rightarrow> string \<Rightarrow> 'v kept \<Rightarrow> bool \<Rightarrow> bool \<Rightarrow> entry_metadata \<Rightarrow> nat \<Rightarrow> bytes_t \<Rightarrow> 'v ram \<Rightarrow> 'v ram \<times> bool" where
  "ram_commit w key k dict_rows shared m d sz r = (
     let r = ram_within_entries (ram_record key k dict_rows shared m d sz r);
         (r, ok) = (case ram_max_size r of None \<Rightarrow> (r, True)
            | Some cap \<Rightarrow> if cap < ram_current r then evict_to_byte_cap r else (r, True)) in
     if \<not> ok then (r, False) else
     let r = r\<lparr>ram_set_count := ram_set_count r + 1\<rparr>;
         (r, ok) = (if ram_check_interval r = 0 then (r, False)
           else if ram_set_count r mod ram_check_interval r = 0 then check_and_evict (rn_mem w) r else (r, True)) in
     if \<not> ok then (r, False) else
     let at_once = (map_of (ram_store r) key = None \<and> kp_own k \<and> \<not> kp_checked k \<and> \<not> m_by_reference m) in
     (r\<lparr>ram_handoff := (if at_once \<and> \<not> kp_holds_bytes k then Some (key, \<lparr>re_meta = m, re_form = kp_form k, re_dict = d\<rparr>) else None)\<rparr>, True))"

text \<open>\<open>_set\<close>: the tier, the metadata as the call leaves it, and the outcome.\<close>

definition ram_set :: "ram_env \<Rightarrow> look \<Rightarrow> string \<Rightarrow> 'v \<Rightarrow> entry_metadata option \<Rightarrow> nat \<Rightarrow> 'v ram \<Rightarrow>
    'v ram \<times> entry_metadata \<times> ram_outcome" where
  "ram_set w l key v metadata d r = (
     let m = init_metadata metadata key (rn_now w);
         tried = try_pickle l m;
         (m, early) = (if tried then (if over_target (lk_estimate l) r then (m, True)
             else slower_than_its_compute (lk_kind l) (lk_estimate l) m (ram_rates r)) else (m, False)) in
     if early then (ram_drop key r, m, RamRefused) else
     let pickled = (if tried then snapshot_of l else NoSnapshot) in
     if pickled = OverHashBudget then (ram_drop key r, m, RamRefused) else
     let sz = size_of l pickled;
         pickled = (if sz < ROUND_TRIP_MIN_BYTES then NoSnapshot else pickled) in
     if over_target sz r then (ram_drop key r, m, RamRefused) else
     let (m, slow) = slower_than_its_compute (lk_kind l) sz m (ram_rates r) in
     if slow then (ram_drop key r, m, RamRefused) else
     let m = (if m_storage m = None then m\<lparr>m_storage := Some [RAM_LABEL]\<rparr> else m);
         ((m, rates), how) = keep_value l pickled v sz m (ram_rates r);
         r = r\<lparr>ram_rates := rates\<rparr> in
     case how of
       Inl RamRefused \<Rightarrow> (ram_drop key r, m, RamRefused)
     | Inl _ \<Rightarrow> (r, m, RamRaised)
     | Inr k \<Rightarrow>
         let m = m\<lparr>m_size := Some sz\<rparr>;
             (r, ok) = ram_commit w key k (use_dict_rows l \<noteq> None) (use_shared l) m d sz r in
         (r, m, if ok then RamKept else RamRaised))"

subsection \<open>Reading\<close>

text \<open>What reading the stored value back does: whether tables kept uncopied are still as stored, and
  all taken over since their caller let go of them, whether pickle bytes load, how long that takes and a second time (\<open>None\<close>: it failed), whether a
  copy can be made of parts kept as bytes, and whether making the copy raises because it would
  change a file, or raises otherwise.\<close>

record reading =
  rd_still :: bool
  rd_adopts :: bool
  rd_loads :: bool
  rd_seconds :: seconds
  rd_again :: "seconds option"
  rd_servable :: bool
  rd_writes_file :: bool
  rd_raises :: bool

datatype 'v ram_read = RamHit entry_metadata 'v | RamMiss | RamError

definition ram_alter :: "string \<Rightarrow> ('v ram_entry \<Rightarrow> 'v ram_entry) \<Rightarrow> 'v ram \<Rightarrow> 'v ram" where
  "ram_alter key f r = (case map_of (ram_store r) key of None \<Rightarrow> r
     | Some e \<Rightarrow> r\<lparr>ram_store := AList.update key (f e) (ram_store r)\<rparr>)"

definition count_access :: "seconds \<Rightarrow> entry_metadata \<Rightarrow> entry_metadata" where
  "count_access now m = m\<lparr>m_last_access := Some now,
     m_access_count := Some ((case m_access_count m of None \<Rightarrow> 0 | Some n \<Rightarrow> n) + 1),
     m_source := (case m_source m of None \<Rightarrow> Some RAM_LABEL | Some s \<Rightarrow> Some s)\<rparr>"

definition set_meta :: "string \<Rightarrow> entry_metadata \<Rightarrow> 'v ram \<Rightarrow> 'v ram" where
  "set_meta key m r = ram_alter key (\<lambda>e. e\<lparr>re_meta := m\<rparr>) r"

text \<open>\<open>_learn_reading\<close>: what reading the pickle bytes took, on the entry and its class; an entry no
  faster to read than to compute goes.\<close>

definition reading_class :: "string option \<Rightarrow> entry_metadata \<Rightarrow> string option" where
  "reading_class cls m = (case cls of Some c \<Rightarrow> Some c
     | None \<Rightarrow> if m_call_refs m = [] \<and> m_cost_model_family m \<noteq> None then m_round_trip_class m else None)"

definition credit_reading :: "string option \<Rightarrow> bytes_t \<Rightarrow> seconds \<Rightarrow> 'v ram \<Rightarrow> 'v ram" where
  "credit_reading name sz seconds r = (case name of None \<Rightarrow> r
     | Some c \<Rightarrow> r\<lparr>ram_rates := note_round_trip c sz seconds (ram_rates r)\<rparr>)"

definition learn_reading :: "string \<Rightarrow> entry_metadata \<Rightarrow> string option \<Rightarrow> seconds \<Rightarrow> 'v ram \<Rightarrow> 'v ram \<times> entry_metadata" where
  "learn_reading key m cls seconds r = (
     let sz = (case m_size m of None \<Rightarrow> 0 | Some n \<Rightarrow> n);
         m = m\<lparr>m_measured_round_trip := Some seconds\<rparr>;
         r = credit_reading (reading_class cls m) sz seconds (set_meta key m r) in
     (if judged_by_compute m \<and> no_faster seconds m then ram_drop key r else r, m))"

definition read_pickled :: "reading \<Rightarrow> string \<Rightarrow> entry_metadata \<Rightarrow> 'v \<Rightarrow> bool \<Rightarrow> string option \<Rightarrow> 'v ram \<Rightarrow> 'v ram \<times> 'v ram_read" where
  "read_pickled rd key m v served cls r = (
     if \<not> rd_loads rd then (ram_drop key r, RamMiss)
     else if served then (r, RamHit m v)
     else let r = ram_alter key (\<lambda>e. e\<lparr>re_form := Pickled v True cls\<rparr>) r in
       if m_measured_round_trip m \<noteq> None then (r, RamHit m v)
       else let seconds = (if judged_by_compute m \<and> no_faster (rd_seconds rd) m
                then (case rd_again rd of None \<Rightarrow> rd_seconds rd | Some t \<Rightarrow> min (rd_seconds rd) t) else rd_seconds rd);
              (r, m) = learn_reading key m cls seconds r in
         (r, RamHit m v))"

definition adopt_tables :: "reading \<Rightarrow> string \<Rightarrow> 'v ram \<Rightarrow> 'v ram" where
  "adopt_tables rd key r = (if key \<in> ram_checked r \<and> rd_adopts rd \<and> ram_frame_cells r key \<noteq> None
     then r\<lparr>ram_checked := ram_checked r - {key}\<rparr> else r)"

text \<open>\<open>_get_copy\<close>. The ways to copy a value that is not kept as bytes differ in cost only; the plan
  of a dict's copy is made by its first hit.\<close>

definition get_copy :: "seconds \<Rightarrow> reading \<Rightarrow> string \<Rightarrow> 'v ram \<Rightarrow> 'v ram \<times> 'v ram_read" where
  "get_copy now rd key r = (case map_of (ram_store r) key of
       None \<Rightarrow> (r, RamMiss)
     | Some e \<Rightarrow>
         let m = count_access now (re_meta e);
             r = ram_touch key (set_meta key m r) in
         if key \<in> ram_checked r \<and> \<not> rd_still rd then (ram_drop key (r\<lparr>ram_written := insert key (ram_written r)\<rparr>), RamMiss)
         else let r = adopt_tables rd key r in (case re_form e of
             Marshalled v \<Rightarrow> (r, RamHit m v)
           | Pickled v served cls \<Rightarrow> read_pickled rd key m v served cls r
           | Copied v \<Rightarrow>
               if (key \<in> ram_holds_bytes r \<or> key \<in> ram_shared r) \<and> \<not> rd_servable rd then (ram_drop key r, RamMiss)
               else (r, RamHit m v)))"

definition ram_get :: "seconds \<Rightarrow> reading \<Rightarrow> string \<Rightarrow> 'v ram \<Rightarrow> 'v ram \<times> 'v ram_read" where
  "ram_get now rd key r = (
     if map_of (ram_store r) key \<noteq> None \<and> rd_writes_file rd then (ram_drop key (ram_touch key r), RamMiss)
     else if map_of (ram_store r) key \<noteq> None \<and> rd_raises rd
     then (ram_touch key (ram_alter key (\<lambda>e. e\<lparr>re_meta := count_access now (re_meta e)\<rparr>) r), RamError)
     else get_copy now rd key r)"

definition ram_get_metadata :: "seconds \<Rightarrow> string \<Rightarrow> 'v ram \<Rightarrow> 'v ram \<times> entry_metadata option" where
  "ram_get_metadata now key r = (case map_of (ram_store r) key of
       None \<Rightarrow> (r, None)
     | Some e \<Rightarrow> let m = count_access now (re_meta e) in (set_meta key m r, Some m))"

definition ram_peek_metadata :: "string \<Rightarrow> 'v ram \<Rightarrow> entry_metadata option" where
  "ram_peek_metadata key r = map_option re_meta (map_of (ram_store r) key)"

definition form_value :: "'v form \<Rightarrow> 'v" where
  "form_value f = (case f of Marshalled v \<Rightarrow> v | Pickled v _ _ \<Rightarrow> v | Copied v \<Rightarrow> v)"

text \<open>\<open>peek_entry\<close>: the entry, with its value when it is wanted; \<open>None\<close> too when that cannot be read.\<close>

definition ram_peek_entry :: "reading \<Rightarrow> bool \<Rightarrow> string \<Rightarrow> 'v ram \<Rightarrow> ('v ram_entry \<times> 'v option) option" where
  "ram_peek_entry rd want key r = (case map_of (ram_store r) key of
       None \<Rightarrow> None
     | Some e \<Rightarrow> if \<not> want then Some (e, None)
         else (case re_form e of
             Marshalled v \<Rightarrow> Some (e, Some v)
           | Pickled v _ _ \<Rightarrow> if rd_loads rd then Some (e, Some v) else None
           | Copied v \<Rightarrow> if key \<in> ram_holds_bytes r \<and> \<not> rd_servable rd then None else Some (e, Some v)))"

subsection \<open>What a persistent tier may take from this one\<close>

definition holds_own_copy :: "string \<Rightarrow> 'v ram \<Rightarrow> bool" where
  "holds_own_copy key r = (key \<in> ram_own r \<and> key \<notin> ram_checked r)"

definition may_share_with_caller :: "string \<Rightarrow> 'v ram \<Rightarrow> bool" where
  "may_share_with_caller key r = (case map_of (ram_store r) key of
       None \<Rightarrow> False
     | Some e \<Rightarrow> m_by_reference (re_meta e) \<or> (key \<notin> ram_own r \<and> key \<notin> ram_checked r))"

definition entry_or_handoff :: "string \<Rightarrow> 'v ram \<Rightarrow> ('v ram_entry \<times> bool \<times> bool) option" where
  "entry_or_handoff key r = (case map_of (ram_store r) key of
       Some e \<Rightarrow> Some (e, key \<in> ram_holds_bytes r, key \<in> ram_own r \<and> key \<notin> ram_checked r)
     | None \<Rightarrow> (case ram_handoff r of
           Some (k, e) \<Rightarrow> if k = key then Some (e, False, True) else None
         | None \<Rightarrow> None))"

definition private_copy :: "string \<Rightarrow> nat option \<Rightarrow> 'v ram \<Rightarrow> 'v option" where
  "private_copy key d r = (case entry_or_handoff key r of
       None \<Rightarrow> None
     | Some (e, holds_bytes, own) \<Rightarrow>
         if \<not> own \<or> holds_bytes \<or> m_by_reference (re_meta e) \<or> m_no_private_copy (re_meta e) then None
         else if d \<noteq> None \<and> d \<noteq> Some (re_dict e) then None
         else (case re_form e of Marshalled v \<Rightarrow> Some v | Pickled _ _ _ \<Rightarrow> None | Copied v \<Rightarrow> Some v))"

definition stored_payload :: "string \<Rightarrow> nat option \<Rightarrow> 'v ram \<Rightarrow> 'v option" where
  "stored_payload key d r = (case entry_or_handoff key r of
       None \<Rightarrow> None
     | Some (e, _, _) \<Rightarrow> (case re_form e of
           Pickled v _ _ \<Rightarrow> if d \<noteq> None \<and> d \<noteq> Some (re_dict e) then None else Some v
         | _ \<Rightarrow> None))"

definition release_handoff :: "'v ram \<Rightarrow> 'v ram" where
  "release_handoff r = r\<lparr>ram_handoff := None\<rparr>"

text \<open>\<open>promote\<close>: keep a value just read from a slower tier when that costs no copy.\<close>

definition ram_promote :: "ram_env \<Rightarrow> look \<Rightarrow> string \<Rightarrow> 'v \<Rightarrow> entry_metadata \<Rightarrow> nat \<Rightarrow> 'v ram \<Rightarrow>
    'v ram \<times> entry_metadata \<times> ram_outcome" where
  "ram_promote w l key v m d r = (if \<not> lk_cheap l \<or> \<not> lk_freezes l then (r, m, RamRefused) else ram_set w l key v (Some m) d r)"

end
