(* ===== verification/Memory_Laws.thy ===== *)
theory Memory_Laws
  imports Memory_Tier
begin

text \<open>
  What the RAM tier keeps true of itself: the byte total is that of its entries, what it notes of
  a key goes with the key's entry, the caps hold after a store, the least valuable entries go
  first, and memory pressure takes its share once.
\<close>

subsection \<open>Bookkeeping\<close>

abbreviation ram_keys :: "'v ram \<Rightarrow> string set" where
  "ram_keys r \<equiv> fst ` set (ram_store r)"

text \<open>Every key the tier has notes about.\<close>

definition marked :: "'v ram \<Rightarrow> string set" where
  "marked r = ram_immutable r \<union> ram_dict_rows r \<union> dom (ram_frame_cells r) \<union> ram_plans r \<union> ram_holds_bytes r \<union>
     ram_shared r \<union> ram_own r \<union> ram_checked r"

definition ram_ok :: "'v ram \<Rightarrow> bool" where
  "ram_ok r = (dict_ok (ram_store r) \<and> ram_current r = dict_total entry_size (ram_store r) \<and>
     (\<forall>e \<in> snd ` set (ram_store r). 0 \<le> entry_size e) \<and> marked r \<subseteq> ram_keys r \<and>
     dom (ram_base r) = ram_keys r \<and> dom (ram_seq_by_key r) = ram_keys r)"

lemma ram_okD:
  assumes "ram_ok r"
  shows "dict_ok (ram_store r)" and "ram_current r = dict_total entry_size (ram_store r)"
    and "\<And>e. e \<in> snd ` set (ram_store r) \<Longrightarrow> 0 \<le> entry_size e" and "marked r \<subseteq> ram_keys r"
    and "dom (ram_base r) = ram_keys r" and "dom (ram_seq_by_key r) = ram_keys r"
  using assms unfolding ram_ok_def by blast+

lemma ram_okI:
  assumes "dict_ok (ram_store r)" and "ram_current r = dict_total entry_size (ram_store r)"
    and "\<And>e. e \<in> snd ` set (ram_store r) \<Longrightarrow> 0 \<le> entry_size e" and "marked r \<subseteq> ram_keys r"
    and "dom (ram_base r) = ram_keys r" and "dom (ram_seq_by_key r) = ram_keys r"
  shows "ram_ok r"
  using assms unfolding ram_ok_def by blast

lemma ram_init_ok: "ram_ok (ram_init p i n b)"
  by (rule ram_okI) (simp_all add: ram_init_def marked_def)

lemma ram_drop_ok:
  assumes "ram_ok r"
  shows "ram_ok (ram_drop key r)"
proof (rule ram_okI)
  note ok = ram_okD [OF assms]
  show "dict_ok (ram_store (ram_drop key r))" using ok(1) by (simp add: ram_drop_def dict_simps)
  show "ram_current (ram_drop key r) = dict_total entry_size (ram_store (ram_drop key r))"
    using ok(1,2) by (simp add: ram_drop_def dict_total_delete)
  show "0 \<le> entry_size e" if "e \<in> snd ` set (ram_store (ram_drop key r))" for e
  proof (rule ok(3))
    show "e \<in> snd ` set (ram_store r)" using that by (auto simp: ram_drop_def AList.delete_eq)
  qed
  have "marked (ram_drop key r) = marked r - {key}" by (auto simp: marked_def ram_drop_def)
  then show "marked (ram_drop key r) \<subseteq> ram_keys (ram_drop key r)"
    using ok(4) by (auto simp: ram_drop_def dict_keys_delete)
  show "dom (ram_base (ram_drop key r)) = ram_keys (ram_drop key r)"
    using ok(5) by (simp add: ram_drop_def dict_keys_delete)
  show "dom (ram_seq_by_key (ram_drop key r)) = ram_keys (ram_drop key r)"
    using ok(6) by (simp add: ram_drop_def dict_keys_delete)
qed

lemma ram_drop_handoff: "ram_handoff (ram_drop key r) = ram_handoff r"
  by (simp add: ram_drop_def)

lemma ram_drop_store [simp]: "ram_store (ram_drop key r) = AList.delete key (ram_store r)"
  by (simp add: ram_drop_def)

lemma ram_ok_cong:
  assumes "ram_ok r" and "ram_store r' = ram_store r" and "ram_current r' = ram_current r" and "marked r' \<subseteq> marked r"
    and "ram_base r' = ram_base r" and "ram_seq_by_key r' = ram_seq_by_key r"
  shows "ram_ok r'"
  using assms unfolding ram_ok_def by (metis subset_trans)

lemma total_update:
  assumes "dict_ok d"
  shows "dict_total f (AList.update k v d) = dict_total f d - (case map_of d k of None \<Rightarrow> 0 | Some w \<Rightarrow> f w) + f v"
  using assms by (induction d) (auto simp: update_fresh split: if_splits)

lemma set_update_snd: "snd ` set (AList.update k v d) \<subseteq> insert v (snd ` set d)"
  by (induction d) (auto split: if_splits)

lemma keys_update: "fst ` set (AList.update k v d) = insert k (fst ` set d)"
  by (induction d) auto

lemma ram_alter_ok:
  assumes "ram_ok r" and "\<And>e. map_of (ram_store r) key = Some e \<Longrightarrow> entry_size (f e) = entry_size e"
  shows "ram_ok (ram_alter key f r)"
proof (cases "map_of (ram_store r) key")
  case (Some e)
  note ok = ram_okD [OF assms(1)]
  let ?d = "AList.update key (f e) (ram_store r)"
  have e: "(key, e) \<in> set (ram_store r)" using Some by (rule map_of_SomeD)
  then have e': "e \<in> snd ` set (ram_store r)" by (rule rev_image_eqI) simp
  have keys: "fst ` set ?d = ram_keys r" using imageI [OF e, of fst] by (simp add: keys_update insert_absorb)
  show ?thesis
  proof (rule ram_okI)
    show "dict_ok (ram_store (ram_alter key f r))" using Some ok(1) by (simp add: ram_alter_def dict_simps)
    show "ram_current (ram_alter key f r) = dict_total entry_size (ram_store (ram_alter key f r))"
      using Some ok(1,2) assms(2) by (simp add: ram_alter_def total_update)
    show "0 \<le> entry_size x" if "x \<in> snd ` set (ram_store (ram_alter key f r))" for x
    proof -
      have "x = f e \<or> x \<in> snd ` set (ram_store r)"
        using that Some subsetD [OF set_update_snd [of key "f e" "ram_store r"]] by (auto simp: ram_alter_def)
      then show ?thesis using ok(3) [OF e'] ok(3) [of x] assms(2) [OF Some] by auto
    qed
    show "marked (ram_alter key f r) \<subseteq> ram_keys (ram_alter key f r)"
      using Some ok(4) keys by (simp add: ram_alter_def marked_def)
  qed (use Some ok(5,6) keys in \<open>simp_all add: ram_alter_def\<close>)
qed (simp add: ram_alter_def assms(1))

subsection \<open>Taking entries out\<close>

text \<open>What every eviction is made of: entries dropped, and notes of the tier about itself changed.\<close>

inductive sheds :: "'v ram \<Rightarrow> 'v ram \<Rightarrow> bool" for r where
  keeps [intro]: "sheds r r"
| drops: "sheds r r' \<Longrightarrow> sheds r (ram_drop key r')"
| clock: "sheds r r' \<Longrightarrow> sheds r (r'\<lparr>ram_clock := c\<rparr>)"
| floor: "sheds r r' \<Longrightarrow> sheds r (r'\<lparr>ram_pressure_floor := f\<rparr>)"
| percent: "sheds r r' \<Longrightarrow> sheds r (r'\<lparr>ram_pressure_percent := p\<rparr>)"
| sets: "sheds r r' \<Longrightarrow> sheds r (r'\<lparr>ram_set_count := n\<rparr>)"
| rates: "sheds r r' \<Longrightarrow> sheds r (r'\<lparr>ram_rates := q\<rparr>)"
| written: "sheds r r' \<Longrightarrow> sheds r (r'\<lparr>ram_written := x\<rparr>)"

lemma sheds_trans: "sheds r r' \<Longrightarrow> sheds r' r'' \<Longrightarrow> sheds r r''"
  by (rotate_tac, induction rule: sheds.induct) (auto intro: sheds.intros)

lemma sheds_ok: "sheds r r' \<Longrightarrow> ram_ok r \<Longrightarrow> ram_ok r'"
  by (induction rule: sheds.induct) (auto intro: ram_drop_ok elim: ram_ok_cong simp: marked_def)

lemma sheds_store: "sheds r r' \<Longrightarrow> map_of (ram_store r') k = None \<or> map_of (ram_store r') k = map_of (ram_store r) k"
  by (induction rule: sheds.induct) (auto simp: map_of_delete)

lemma sheds_caps: "sheds r r' \<Longrightarrow> ram_max_size r' = ram_max_size r \<and> ram_max_entries r' = ram_max_entries r \<and>
    ram_max_percent r' = ram_max_percent r \<and> ram_check_interval r' = ram_check_interval r"
  by (induction rule: sheds.induct) (auto simp: ram_drop_def)

lemma sheds_handoff: "sheds r r' \<Longrightarrow> ram_handoff r' = ram_handoff r"
  by (induction rule: sheds.induct) (auto simp: ram_drop_def)

lemma sheds_length: "sheds r r' \<Longrightarrow> length (ram_store r') \<le> length (ram_store r)"
  by (induction rule: sheds.induct) (auto intro: le_trans [OF length_delete_le])

lemma drop_current_le:
  assumes "ram_ok r"
  shows "ram_current (ram_drop key r) \<le> ram_current r"
proof (cases "map_of (ram_store r) key")
  case (Some e)
  then have "e \<in> snd ` set (ram_store r)" using map_of_SomeD [OF Some] by (rule_tac rev_image_eqI) auto
  then show ?thesis using ram_okD(3) [OF assms] Some by (simp add: ram_drop_def)
qed (simp add: ram_drop_def)

lemma sheds_current: "sheds r r' \<Longrightarrow> ram_ok r \<Longrightarrow> ram_current r' \<le> ram_current r"
proof (induction rule: sheds.induct)
  case (drops r' key)
  then show ?case using drop_current_le [OF sheds_ok [OF drops.hyps drops.prems]] order_trans by blast
qed auto

lemma evict_down_sheds: "sheds r (evict_down target items r)"
proof (induction target items r rule: evict_down.induct)
  case (2 target p seq key items r)
  show ?case
  proof (cases "of_int (ram_current r) \<le> target")
    case False
    then show ?thesis using sheds_trans [OF sheds.clock [OF sheds.drops [OF sheds.keeps]] "2.IH" [OF False refl]]
      by (simp add: Let_def)
  qed auto
qed auto

lemma shed_items_sheds: "sheds r (shed_items n freed items r)"
proof (induction n freed items r rule: shed_items.induct)
  case (2 n freed p seq key items r)
  show ?case
  proof (cases "n \<le> of_int freed")
    case False
    show ?thesis
    proof (cases "map_of (ram_store r) key")
      case None
      then show ?thesis using "2.IH"(1) [OF False None] False by simp
    next
      case (Some e)
      then show ?thesis
        using sheds_trans [OF sheds.clock [OF sheds.drops [OF sheds.keeps]] "2.IH"(2) [OF False Some refl]] False
        by (simp add: Let_def)
    qed
  qed auto
qed auto

lemma fold_drop_sheds: "sheds r (fold (\<lambda>x. ram_drop (f x)) xs r)"
proof (induction xs arbitrary: r)
  case (Cons x xs)
  show ?case using sheds_trans [OF sheds.drops [OF sheds.keeps] Cons.IH] by simp
qed auto

lemma evict_lru_sheds: "sheds r (evict_lru n r)"
  using fold_drop_sheds [of r snd] by (simp add: evict_lru_def Let_def split_def)

lemma within_entries_sheds: "sheds r (ram_within_entries r)"
  by (auto simp: ram_within_entries_def evict_lru_sheds split: option.split)

lemma byte_cap_sheds: "sheds r (fst (evict_to_byte_cap r))"
  by (auto simp: evict_to_byte_cap_def evict_down_sheds split: option.split)

lemma shed_sheds: "sheds r (fst (shed n r))"
  by (auto simp: shed_def hold_floor_def intro: sheds.floor shed_items_sheds split: option.split)

lemma pressure_share_sheds: "sheds r (fst (pressure_share mem t r))"
  by (auto simp: pressure_share_def Let_def intro: sheds.percent split: option.split bool.split)

lemma ram_evict_sheds: "sheds r (fst (ram_evict mem r))"
  using sheds_trans [OF pressure_share_sheds shed_sheds] by (simp add: ram_evict_def split_def Let_def)

lemma check_sheds: "sheds r (fst (check_and_evict mem r))"
  by (auto simp: check_and_evict_def ram_evict_sheds intro!: sheds.floor sheds.percent split: option.split)

lemma cleanup_sheds: "sheds r (fst (ram_cleanup_expired is_expired r))"
  using fold_drop_sheds [of r "\<lambda>x. x"] by (simp add: ram_cleanup_expired_def Let_def)

subsection \<open>Storing and reading keep the books\<close>

text \<open>Byte counts are not negative.\<close>

definition look_ok :: "look \<Rightarrow> bool" where
  "look_ok l = ((\<forall>n b. lk_plain l = Some (n, b) \<longrightarrow> 0 \<le> n) \<and> (\<forall>n. lk_dict_rows l = Some n \<longrightarrow> 0 \<le> n) \<and>
     (\<forall>n. lk_facts l = Some n \<longrightarrow> 0 \<le> n) \<and> (\<forall>n \<in> set (lk_parts l). 0 \<le> n) \<and> 0 \<le> lk_footprint l \<and>
     0 \<le> lk_footprint_rest l)"

lemma size_of_nonneg:
  assumes "look_ok l"
  shows "0 \<le> size_of l p"
proof -
  have rows: "0 \<le> n" if "use_dict_rows l = Some n" for n
    using assms that by (simp add: look_ok_def use_dict_rows_def split: if_splits)
  have facts: "0 \<le> n" if "use_facts l = Some n" for n
    using assms that by (simp add: look_ok_def use_facts_def split: if_splits)
  have parts: "0 \<le> sum_list (use_parts l)"
    using assms by (intro sum_list_nonneg) (simp add: look_ok_def use_parts_def split: if_splits)
  have plain: "0 \<le> n" if "lk_plain l = Some (n, b)" for n b using assms that by (auto simp: look_ok_def)
  have foot: "0 \<le> lk_footprint l" "0 \<le> lk_footprint_rest l" using assms by (simp_all add: look_ok_def)
  show ?thesis
  proof (cases p)
    case (SnapshotOf n c)
    then show ?thesis using foot by (simp add: size_of_def ROUND_TRIP_MIN_BYTES_def)
  qed (use rows facts parts plain foot in \<open>auto simp: size_of_def split: option.splits\<close>)
qed

lemma marked_record: "marked (ram_record key k dr sh m d sz r) \<subseteq> insert key (marked r)"
  by (auto simp: marked_def ram_record_def Let_def ram_touch_def put_key_def split: if_splits)

lemma ram_record_fields:
  "ram_store (ram_record key k dr sh m d sz r) = AList.update key \<lparr>re_meta = m, re_form = kp_form k, re_dict = d\<rparr> (ram_store r)"
  "ram_current (ram_record key k dr sh m d sz r) =
     ram_current r - (case map_of (ram_store r) key of None \<Rightarrow> 0 | Some e \<Rightarrow> entry_size e) + sz"
  "ram_base (ram_record key k dr sh m d sz r) = (ram_base r)(key \<mapsto> ram_clock r)"
  "ram_seq_by_key (ram_record key k dr sh m d sz r) = (ram_seq_by_key r)(key \<mapsto> ram_seq r + 1)"
  "ram_max_size (ram_record key k dr sh m d sz r) = ram_max_size r"
  "ram_max_entries (ram_record key k dr sh m d sz r) = ram_max_entries r"
  by (simp_all add: ram_record_def Let_def ram_touch_def)

lemma ram_record_ok:
  assumes "ram_ok r" and "m_size m = Some sz" and "0 \<le> sz"
  shows "ram_ok (ram_record key k dr sh m d sz r)"
proof (rule ram_okI)
  note ok = ram_okD [OF assms(1)]
  let ?e = "\<lparr>re_meta = m, re_form = kp_form k, re_dict = d\<rparr>"
  have sz: "entry_size ?e = sz" using assms(2) by (simp add: entry_size_def)
  show "dict_ok (ram_store (ram_record key k dr sh m d sz r))" using ok(1) by (simp add: ram_record_fields dict_simps)
  show "ram_current (ram_record key k dr sh m d sz r) = dict_total entry_size (ram_store (ram_record key k dr sh m d sz r))"
    using ok(1,2) sz by (simp add: ram_record_fields total_update)
  show "0 \<le> entry_size x" if "x \<in> snd ` set (ram_store (ram_record key k dr sh m d sz r))" for x
  proof -
    have "x = ?e \<or> x \<in> snd ` set (ram_store r)"
      using that subsetD [OF set_update_snd [of key ?e "ram_store r"]] by (auto simp: ram_record_fields)
    then show ?thesis using ok(3) [of x] sz assms(3) by auto
  qed
  show "marked (ram_record key k dr sh m d sz r) \<subseteq> ram_keys (ram_record key k dr sh m d sz r)"
    using marked_record ok(4) by (fastforce simp: ram_record_fields keys_update)
qed (use ram_okD(5,6) [OF assms(1)] in \<open>simp_all add: ram_record_fields keys_update\<close>)

text \<open>A commit is the record and then evictions.\<close>

lemma ram_commit_sheds:
  obtains r4 h where "fst (ram_commit w key k dr sh m d sz r) = r4\<lparr>ram_handoff := h\<rparr>" and "sheds (ram_record key k dr sh m d sz r) r4"
    and "h = ram_handoff r \<or> h = None \<or> h = Some (key, \<lparr>re_meta = m, re_form = kp_form k, re_dict = d\<rparr>)"
proof -
  let ?r1 = "ram_within_entries (ram_record key k dr sh m d sz r)"
  define p2 where "p2 = (case ram_max_size ?r1 of None \<Rightarrow> (?r1, True)
      | Some cap \<Rightarrow> if cap < ram_current ?r1 then evict_to_byte_cap ?r1 else (?r1, True))"
  define r3 where "r3 = fst p2\<lparr>ram_set_count := ram_set_count (fst p2) + 1\<rparr>"
  define p4 where "p4 = (if ram_check_interval r3 = 0 then (r3, False)
      else if ram_set_count r3 mod ram_check_interval r3 = 0 then check_and_evict (rn_mem w) r3 else (r3, True))"
  have "sheds ?r1 (fst p2)" by (auto simp: p2_def byte_cap_sheds split: option.split)
  then have s2: "sheds (ram_record key k dr sh m d sz r) (fst p2)" using within_entries_sheds sheds_trans by blast
  then have "sheds (ram_record key k dr sh m d sz r) r3" unfolding r3_def by (rule sheds.sets)
  moreover have "sheds r3 (fst p4)" by (auto simp: p4_def check_sheds)
  ultimately have s4: "sheds (ram_record key k dr sh m d sz r) (fst p4)" by (rule sheds_trans)
  have commit: "fst (ram_commit w key k dr sh m d sz r) = (if \<not> snd p2 then fst p2 else if \<not> snd p4 then fst p4
      else fst p4\<lparr>ram_handoff := (if (map_of (ram_store (fst p4)) key = None \<and> kp_own k \<and> \<not> kp_checked k \<and> \<not> m_by_reference m) \<and> \<not> kp_holds_bytes k
        then Some (key, \<lparr>re_meta = m, re_form = kp_form k, re_dict = d\<rparr>) else None)\<rparr>)"
    unfolding ram_commit_def p4_def r3_def p2_def by (simp add: Let_def split_def)
  have "ram_handoff (ram_record key k dr sh m d sz r) = ram_handoff r" by (simp add: ram_record_def Let_def ram_touch_def)
  then have same: "fst p2\<lparr>ram_handoff := ram_handoff r\<rparr> = fst p2" "fst p4\<lparr>ram_handoff := ram_handoff r\<rparr> = fst p4"
    using sheds_handoff [OF s2] sheds_handoff [OF s4] by simp_all
  consider "\<not> snd p2" | "snd p2" "\<not> snd p4" | "snd p2" "snd p4" by blast
  then show thesis
  proof cases
    case 1
    show thesis by (rule that [of "ram_handoff r" "fst p2"]) (simp_all add: commit 1 same s2)
  next
    case 2
    show thesis by (rule that [of "ram_handoff r" "fst p4"]) (simp_all add: commit 2 same s4)
  next
    case 3
    show thesis
    proof (rule that [OF _ s4])
      show "fst (ram_commit w key k dr sh m d sz r) = fst p4\<lparr>ram_handoff := (if (map_of (ram_store (fst p4)) key = None \<and> kp_own k \<and> \<not> kp_checked k \<and> \<not> m_by_reference m) \<and> \<not> kp_holds_bytes k
        then Some (key, \<lparr>re_meta = m, re_form = kp_form k, re_dict = d\<rparr>) else None)\<rparr>" using 3 commit by simp
    qed simp
  qed
qed

lemma copy_value_form:
  assumes "copy_value l v sz m q = (x, Inr k)"
  shows "form_value (kp_form k) = v"
proof (cases "lk_copy l")
  case (Some c)
  then show ?thesis using assms by (simp add: copy_value_def Let_def form_value_def split: if_splits) auto
qed (use assms in \<open>simp add: copy_value_def\<close>)

lemma keep_value_form:
  assumes "keep_value l p v sz m q = (x, Inr k)"
  shows "form_value (kp_form k) = v"
proof -
  consider "use_dict_rows l \<noteq> None" | "use_dict_rows l = None" "use_whole l \<and> lk_dumped l"
    | "use_dict_rows l = None" "\<not> (use_whole l \<and> lk_dumped l)" by blast
  then show ?thesis
  proof cases
    case 3
    show ?thesis
    proof (cases "lk_plain l")
      case None
      then show ?thesis using 3 assms copy_value_form [of l v sz m q x k]
        by (cases p) (auto simp: keep_value_def keep_as_def form_value_def)
    next
      case (Some y)
      then show ?thesis using 3 assms
        by (cases p; cases y) (auto simp: keep_value_def keep_as_def form_value_def)
    qed
  qed (use assms in \<open>auto simp: keep_value_def keep_as_def form_value_def\<close>)
qed

text \<open>The branches of a store: the key goes, nothing changes but the readings, or the value is
  recorded and the caps are applied.\<close>

lemma ram_set_cases:
  assumes "ram_set w l key v metadata d r = (r', m, out)"
  obtains (refused) q where "out = RamRefused" and "r' = ram_drop key (r\<lparr>ram_rates := q\<rparr>)"
  | (raised) q where "out = RamRaised" and "r' = r\<lparr>ram_rates := q\<rparr>"
  | (recorded) q k sz ok where "(r', ok) = ram_commit w key k (use_dict_rows l \<noteq> None) (use_shared l) m d sz (r\<lparr>ram_rates := q\<rparr>)"
      and "out = (if ok then RamKept else RamRaised)" and "m_size m = Some sz" and "\<not> over_target sz r"
      and "form_value (kp_form k) = v" and "\<exists>p. sz = size_of l p"
proof -
  let ?m0 = "init_metadata metadata key (rn_now w)"
  let ?early = "if try_pickle l ?m0 then (if over_target (lk_estimate l) r then (?m0, True)
      else slower_than_its_compute (lk_kind l) (lk_estimate l) ?m0 (ram_rates r)) else (?m0, False)"
  obtain m1 early where e1: "?early = (m1, early)" by (cases ?early)
  let ?p = "if try_pickle l ?m0 then snapshot_of l else NoSnapshot"
  let ?sz = "size_of l ?p"
  let ?p2 = "if ?sz < ROUND_TRIP_MIN_BYTES then NoSnapshot else ?p"
  obtain m2 slow where e2: "slower_than_its_compute (lk_kind l) ?sz m1 (ram_rates r) = (m2, slow)" by fastforce
  let ?m3 = "if m_storage m2 = None then m2\<lparr>m_storage := Some [RAM_LABEL]\<rparr> else m2"
  obtain m4 q how where e3: "keep_value l ?p2 v ?sz ?m3 (ram_rates r) = ((m4, q), how)" by (metis surj_pair)
  note def = assms [unfolded ram_set_def Let_def e1 prod.case e2 e3]
  have same: "r = r\<lparr>ram_rates := ram_rates r\<rparr>" by simp
  show thesis
  proof (cases "early \<or> ?p = OverHashBudget \<or> over_target ?sz r \<or> slow")
    case True
    then have "out = RamRefused \<and> r' = ram_drop key r" using def by (auto split: if_splits)
    then show thesis using refused [of "ram_rates r"] same by simp
  next
    case False
    show thesis
    proof (cases how)
      case (Inl x)
      with False def have "(x = RamRefused \<and> out = RamRefused \<and> r' = ram_drop key (r\<lparr>ram_rates := q\<rparr>)) \<or>
          (out = RamRaised \<and> r' = r\<lparr>ram_rates := q\<rparr>)"
        by (cases x) auto
      then show thesis using refused raised by blast
    next
      case (Inr k)
      let ?m5 = "m4\<lparr>m_size := Some ?sz\<rparr>"
      obtain r5 ok where commit: "ram_commit w key k (use_dict_rows l \<noteq> None) (use_shared l) ?m5 d ?sz (r\<lparr>ram_rates := q\<rparr>) = (r5, ok)"
        by fastforce
      have "r' = r5 \<and> m = ?m5 \<and> out = (if ok then RamKept else RamRaised)"
        using False def Inr commit by (simp split: if_splits)
      moreover have "form_value (kp_form k) = v"
        by (rule keep_value_form [OF e3 [unfolded Inr]])
      ultimately show thesis using recorded [of ok k ?sz q] commit False by auto
    qed
  qed
qed

lemma ram_set_ok:
  assumes "ram_set w l key v metadata d r = (r', m, out)" and "ram_ok r" and "look_ok l"
  shows "ram_ok r'"
proof -
  have rated: "ram_ok (r\<lparr>ram_rates := q\<rparr>)" for q by (rule ram_ok_cong [OF assms(2)]) (simp_all add: marked_def)
  from assms(1) show ?thesis
  proof (cases rule: ram_set_cases)
    case (refused q)
    then show ?thesis using ram_drop_ok [OF rated] by simp
  next
    case (raised q)
    then show ?thesis using rated by simp
  next
    case (recorded q k sz ok)
    then have "0 \<le> sz" using size_of_nonneg [OF assms(3)] by auto
    then have "ram_ok (ram_record key k (use_dict_rows l \<noteq> None) (use_shared l) m d sz (r\<lparr>ram_rates := q\<rparr>))"
      using ram_record_ok [OF rated recorded(3)] by blast
    moreover obtain r4 h where "r' = r4\<lparr>ram_handoff := h\<rparr>"
        "sheds (ram_record key k (use_dict_rows l \<noteq> None) (use_shared l) m d sz (r\<lparr>ram_rates := q\<rparr>)) r4"
      by (rule ram_commit_sheds [of w key k "use_dict_rows l \<noteq> None" "use_shared l" m d sz "r\<lparr>ram_rates := q\<rparr>"]) (use recorded(1) in \<open>metis fst_conv\<close>)
    ultimately have "ram_ok r4" and "r' = r4\<lparr>ram_handoff := h\<rparr>" using sheds_ok by blast+
    then show ?thesis by (auto elim!: ram_ok_cong simp: marked_def)
  qed
qed

text \<open>What a read leaves: the tier it found, with the key's entry counted and noted anew, or gone.\<close>

definition same_value :: "'v ram_entry option \<Rightarrow> 'v ram_entry option \<Rightarrow> bool" where
  "same_value e e' = (map_option (\<lambda>e. (form_value (re_form e), re_dict e)) e = map_option (\<lambda>e. (form_value (re_form e), re_dict e)) e')"

definition reads_to :: "string \<Rightarrow> 'v ram \<Rightarrow> 'v ram \<Rightarrow> bool" where
  "reads_to key r r' = ((ram_ok r \<longrightarrow> ram_ok r') \<and> (\<forall>k. k \<noteq> key \<longrightarrow> map_of (ram_store r') k = map_of (ram_store r) k) \<and>
     (map_of (ram_store r') key = None \<or> same_value (map_of (ram_store r') key) (map_of (ram_store r) key)) \<and> ram_handoff r' = ram_handoff r)"

lemma reads_to_refl [intro]: "reads_to key r r"
  by (simp add: reads_to_def same_value_def)

lemma reads_to_trans: "reads_to key r r' \<Longrightarrow> reads_to key r' r'' \<Longrightarrow> reads_to key r r''"
  by (auto simp: reads_to_def same_value_def)

lemma reads_to_drop: "reads_to key r r' \<Longrightarrow> reads_to key r (ram_drop key r')"
  by (auto simp: reads_to_def map_of_delete ram_drop_ok ram_drop_handoff)

lemma reads_to_alter:
  assumes "reads_to key r r'" and "\<And>e. map_of (ram_store r') key = Some e \<Longrightarrow> entry_size (f e) = entry_size e"
    and "\<And>e. map_of (ram_store r') key = Some e \<Longrightarrow> form_value (re_form (f e)) = form_value (re_form e) \<and> re_dict (f e) = re_dict e"
  shows "reads_to key r (ram_alter key f r')"
proof (rule reads_to_trans [OF assms(1)])
  show "reads_to key r' (ram_alter key f r')"
    using assms(3) ram_alter_ok [where r = r' and key = key and f = f] assms(2)
    by (cases "map_of (ram_store r') key") (auto simp: reads_to_def ram_alter_def same_value_def map_of_update)
qed

lemma reads_to_touch:
  assumes "reads_to key r r'" and "map_of (ram_store r') key \<noteq> None"
  shows "reads_to key r (ram_touch key r')"
proof (rule reads_to_trans [OF assms(1)])
  have key: "key \<in> ram_keys r'" using assms(2) by (metis map_of_eq_None_iff)
  have "ram_ok (ram_touch key r')" if "ram_ok r'"
    by (rule ram_okI) (use ram_okD [OF that] key in \<open>auto simp: ram_touch_def marked_def\<close>)
  then show "reads_to key r' (ram_touch key r')" by (auto simp: reads_to_def ram_touch_def same_value_def)
qed

lemma reads_to_notes: "reads_to key r r' \<Longrightarrow> sheds r' r'' \<Longrightarrow> ram_store r'' = ram_store r' \<Longrightarrow> reads_to key r r''"
  by (rule reads_to_trans) (auto simp: reads_to_def same_value_def sheds_handoff intro: sheds_ok)

lemma count_access_size [simp]: "m_size (count_access now m) = m_size m"
  by (simp add: count_access_def)

lemma learn_reading_reads:
  assumes "map_of (ram_store r) key = Some e" and "m_size m = m_size (re_meta e)"
  shows "reads_to key r (fst (learn_reading key m cls secs r))"
proof -
  let ?m = "m\<lparr>m_measured_round_trip := Some secs\<rparr>"
  have meta: "reads_to key r (set_meta key ?m r)"
    unfolding set_meta_def by (rule reads_to_alter) (use assms in \<open>auto simp: entry_size_def\<close>)
  have noted: "reads_to key r (credit_reading name sz secs (set_meta key ?m r))" for name sz
    by (rule reads_to_notes [OF meta]) (auto simp: credit_reading_def intro: sheds.rates split: option.split)
  then show ?thesis using reads_to_drop [OF noted] by (simp add: learn_reading_def Let_def)
qed

lemma read_pickled_reads:
  assumes "map_of (ram_store r) key = Some e" and "m_size m = m_size (re_meta e)" and "re_form e = Pickled v served cls"
  shows "reads_to key r (fst (read_pickled rd key m v served cls r))"
proof -
  let ?r = "ram_alter key (\<lambda>e. e\<lparr>re_form := Pickled v True cls\<rparr>) r"
  have alter: "reads_to key r ?r"
    by (rule reads_to_alter) (use assms(1,3) in \<open>auto simp: entry_size_def form_value_def\<close>)
  have "map_of (ram_store ?r) key = Some (e\<lparr>re_form := Pickled v True cls\<rparr>)"
    using assms(1) by (simp add: ram_alter_def map_of_update)
  then have "reads_to key ?r (fst (learn_reading key m cls secs ?r))" for secs
    by (rule learn_reading_reads) (simp add: assms(2))
  then have "reads_to key r (fst (learn_reading key m cls secs ?r))" for secs using alter reads_to_trans by blast
  then show ?thesis using alter by (auto simp: read_pickled_def Let_def split_def intro: reads_to_drop)
qed

lemma read_pickled_hit: "snd (read_pickled rd key m v served cls r) = RamHit m' v' \<Longrightarrow> v' = v"
  by (auto simp: read_pickled_def Let_def split_def split: if_splits)

lemma get_copy_reads:
  "reads_to key r (fst (get_copy now rd key r)) \<and>
   (\<forall>m v. snd (get_copy now rd key r) = RamHit m v \<longrightarrow> (\<exists>e. map_of (ram_store r) key = Some e \<and> form_value (re_form e) = v))"
proof (cases "map_of (ram_store r) key")
  case (Some e)
  let ?m = "count_access now (re_meta e)"
  let ?r = "ram_touch key (set_meta key ?m r)"
  have "reads_to key r (set_meta key ?m r)"
    unfolding set_meta_def by (rule reads_to_alter) (use Some in \<open>auto simp: entry_size_def\<close>)
  then have touched: "reads_to key r ?r"
    by (rule reads_to_touch) (simp add: set_meta_def ram_alter_def Some map_of_update)
  then have dropped: "reads_to key r (ram_drop key (?r\<lparr>ram_written := x\<rparr>))" for x
    by (rule reads_to_drop [OF reads_to_notes [OF _ sheds.written [OF sheds.keeps]]]) simp
  let ?a = "adopt_tables rd key ?r"
  have "ram_ok ?r \<Longrightarrow> ram_ok ?a" by (erule ram_ok_cong) (auto simp: adopt_tables_def marked_def)
  moreover have "ram_store ?a = ram_store ?r" "ram_handoff ?a = ram_handoff ?r" by (simp_all add: adopt_tables_def)
  ultimately have adopted: "reads_to key r ?a"
    using reads_to_trans [OF touched, of ?a] by (simp add: reads_to_def [of key ?r] same_value_def)
  have at: "map_of (ram_store ?a) key = Some (e\<lparr>re_meta := ?m\<rparr>)"
    using Some by (simp add: adopt_tables_def ram_touch_def set_meta_def ram_alter_def map_of_update)
  have pickled: "reads_to key r (fst (read_pickled rd key ?m v served cls ?a))" if "re_form e = Pickled v served cls" for v served cls
    using reads_to_trans [OF adopted read_pickled_reads [OF at]] that by simp
  show ?thesis
  proof (cases "key \<in> ram_checked ?r \<and> \<not> rd_still rd")
    case True
    then show ?thesis using Some dropped by (simp add: get_copy_def Let_def)
  next
    case False
    show ?thesis
    proof (cases "re_form e")
      case (Pickled v served cls)
      then show ?thesis using Some False pickled [OF Pickled]
        by (auto simp: get_copy_def Let_def form_value_def dest: read_pickled_hit)
    qed (use Some False adopted in \<open>auto simp: get_copy_def Let_def form_value_def intro: reads_to_drop\<close>)
  qed
qed (auto simp: get_copy_def)

lemma ram_get_reads:
  "reads_to key r (fst (ram_get now rd key r)) \<and>
   (\<forall>m v. snd (ram_get now rd key r) = RamHit m v \<longrightarrow> (\<exists>e. map_of (ram_store r) key = Some e \<and> form_value (re_form e) = v))"
proof -
  have "reads_to key r (ram_alter key (\<lambda>e. e\<lparr>re_meta := count_access now (re_meta e)\<rparr>) r)"
    by (rule reads_to_alter) (auto simp: entry_size_def)
  then have "map_of (ram_store r) key \<noteq> None \<Longrightarrow>
      reads_to key r (ram_touch key (ram_alter key (\<lambda>e. e\<lparr>re_meta := count_access now (re_meta e)\<rparr>) r))"
    by (rule reads_to_touch) (auto simp: ram_alter_def map_of_update)
  then show ?thesis
    using get_copy_reads [of key r now rd] by (auto simp: ram_get_def intro: reads_to_drop reads_to_touch)
qed

lemma ram_get_metadata_reads: "reads_to key r (fst (ram_get_metadata now key r))"
  by (auto simp: ram_get_metadata_def Let_def set_meta_def entry_size_def split: option.split intro!: reads_to_alter)

end
