(* ===== verification/Memory_Caps.thy ===== *)
theory Memory_Caps
  imports Memory_Laws "HOL-Library.Multiset"
begin

text \<open>
  The RAM tier over its life (\<open>src/cash/backends/memory_backend.py\<close>): its byte total stays that of
  its entries, a store leaves it within its caps, what the byte cap takes is the least valuable
  per byte and no more than needed, and memory pressure takes its share once and stops near
  \<^const>\<open>PRESSURE_KEEPS_BYTES\<close>.
\<close>

subsection \<open>Every reachable tier\<close>

text \<open>The last step is a caller that updates the metadata dict it shares with the tier, as the tiered
  backend does; it leaves the size alone.\<close>

inductive ram_step :: "'v ram \<Rightarrow> 'v ram \<Rightarrow> bool" where
  stored: "look_ok l \<Longrightarrow> ram_step r (fst (ram_set w l key v metadata d r))"
| promoted: "look_ok l \<Longrightarrow> ram_step r (fst (ram_promote w l key v m d r))"
| read: "ram_step r (fst (ram_get now rd key r))"
| asked: "ram_step r (fst (ram_get_metadata now key r))"
| deleted: "ram_step r (ram_delete key r)"
| cleared: "ram_step r (ram_clear r)"
| expired: "ram_step r (fst (ram_cleanup_expired is_expired r))"
| released: "ram_step r (release_handoff r)"
| updated: "map_of (ram_store r) key = Some e \<Longrightarrow> m_size m = m_size (re_meta e) \<Longrightarrow> ram_step r (set_meta key m r)"

inductive_cases ram_stepE: "ram_step r r'"

lemma ram_set_fst_ok: "ram_ok r \<Longrightarrow> look_ok l \<Longrightarrow> ram_ok (fst (ram_set w l key v metadata d r))"
  using ram_set_ok [of w l key v metadata d r] by (metis prod.collapse)

lemma ram_step_ok:
  assumes "ram_step r r'" and "ram_ok r"
  shows "ram_ok r'"
  using assms(1)
proof cases
  case (promoted l w key v m d)
  then show ?thesis using assms(2) by (simp add: ram_promote_def ram_set_fst_ok)
next
  case (read now rd key)
  then show ?thesis using ram_get_reads [of key r now rd] assms(2) by (simp add: reads_to_def)
next
  case (asked now key)
  then show ?thesis using ram_get_metadata_reads [of key r now] assms(2) by (simp add: reads_to_def)
next
  case cleared
  show ?thesis unfolding cleared by (rule ram_okI) (simp_all add: ram_clear_def marked_def)
next
  case (expired is_expired)
  then show ?thesis using sheds_ok [OF cleanup_sheds] assms(2) by simp
next
  case released
  then show ?thesis by (auto intro: ram_ok_cong [OF assms(2)] simp: release_handoff_def marked_def)
next
  case (updated key e m)
  show ?thesis unfolding updated(1) set_meta_def by (rule ram_alter_ok [OF assms(2)]) (use updated in \<open>simp add: entry_size_def\<close>)
qed (use assms(2) in \<open>simp_all add: ram_set_fst_ok ram_delete_def ram_drop_ok\<close>)

lemma ram_reachable_ok:
  assumes "ram_step\<^sup>*\<^sup>* (ram_init p i n b) r"
  shows "ram_ok r"
  using assms by (induction rule: rtranclp_induct) (auto intro: ram_init_ok ram_step_ok)

subsection \<open>Evicting down to a target\<close>

lemma ranked_keys_cover:
  assumes "ranked_keys r = Some items"
  shows "(\<lambda>(_, _, key). key) ` set items = ram_keys r" and "sorted items" and "length items = length (ram_store r)"
proof -
  let ?f = "\<lambda>(key, e). map_option (\<lambda>p. (p, case ram_seq_by_key r key of None \<Rightarrow> 0 | Some n \<Rightarrow> n, key)) (gdsf_priority r key (re_meta e))"
  obtain xs where xs: "those (map ?f (ram_store r)) = Some xs" and items: "items = sort xs"
    using assms unfolding ranked_keys_def by auto
  have "map (\<lambda>(_, _, key). key) xs = map fst st" if "those (map ?f st) = Some xs" for st xs
    using that
  proof (induction st arbitrary: xs)
    case (Cons x st)
    then show ?case by (cases x) (auto split: option.splits)
  qed simp
  from this [OF xs] have keys: "map (\<lambda>(_, _, key). key) xs = map fst (ram_store r)" .
  show "(\<lambda>(_, _, key). key) ` set items = ram_keys r" using arg_cong [OF keys, of set] by (simp add: items)
  show "sorted items" by (simp add: items)
  show "length items = length (ram_store r)" using arg_cong [OF keys, of length] by (simp add: items)
qed

lemma evict_down_reaches:
  assumes "ram_ok r" and "ram_keys r \<subseteq> (\<lambda>(_, _, key). key) ` set items" and "0 \<le> target"
  shows "of_int (ram_current (evict_down target items r)) \<le> target"
  using assms
proof (induction target items r rule: evict_down.induct)
  case (1 target r)
  then show ?case using ram_okD(2) [OF 1(1)] by simp
next
  case (2 target p seq key items r)
  show ?case
  proof (cases "of_int (ram_current r) \<le> target")
    case False
    let ?r = "(ram_drop key r)\<lparr>ram_clock := max (ram_clock (ram_drop key r)) p\<rparr>"
    have "ram_ok ?r" using sheds_ok [OF sheds.clock [OF sheds.drops [OF sheds.keeps]]] "2.prems"(1) by blast
    moreover have "ram_keys ?r \<subseteq> (\<lambda>(_, _, key). key) ` set items" using "2.prems"(2) by (auto simp: dict_keys_delete)
    ultimately show ?thesis using "2.IH" [OF False refl] "2.prems"(3) False by (simp add: Let_def)
  qed simp
qed

lemma evict_to_byte_cap_reaches:
  assumes "ram_ok r" and "evict_to_byte_cap r = (r', True)" and "ram_max_size r = Some cap" and "0 < cap" and "cap < ram_current r"
  shows "of_int (ram_current r') \<le> of_int cap * (9 / 10 :: real)"
proof -
  obtain items where items: "ranked_keys r = Some items" and r': "r' = evict_down (of_int cap * (9 / 10)) items r"
    using assms(2-5) by (auto simp: evict_to_byte_cap_def split: option.splits if_splits)
  show ?thesis unfolding r'
    by (rule evict_down_reaches [OF assms(1)]) (use ranked_keys_cover [OF items] assms(4) in auto)
qed

lemma fold_drop_length:
  assumes "distinct keys" and "set keys \<subseteq> ram_keys r" and "dict_ok (ram_store r)"
  shows "length (ram_store (fold ram_drop keys r)) = length (ram_store r) - length keys"
  using assms
proof (induction keys arbitrary: r)
  case (Cons key keys)
  have "Suc (length (AList.delete key (ram_store r))) = length (ram_store r)"
    using Cons.prems by (intro length_delete_in) auto
  moreover have "length (ram_store (fold ram_drop keys (ram_drop key r))) = length (ram_store (ram_drop key r)) - length keys"
    using Cons.prems by (intro Cons.IH) (auto simp: dict_keys_delete dict_simps)
  ultimately show ?case by simp
qed simp

lemma evict_lru_length:
  assumes "ram_ok r" and "n \<le> length (ram_store r)"
  shows "length (ram_store (evict_lru n r)) = length (ram_store r) - n"
proof -
  let ?f = "\<lambda>(key, e). (case m_last_access (re_meta e) of None \<Rightarrow> 0 | Some t \<Rightarrow> t, key)"
  let ?items = "sort (map ?f (ram_store r))"
  have mset: "mset (map snd ?items) = mset (map fst (ram_store r))"
    by (simp add: multiset.map_comp comp_def split_def)
  have "distinct (map snd ?items)"
    using ram_okD(1) [OF assms(1)] mset_eq_imp_distinct_iff [OF mset] by blast
  then have "distinct (map snd (take n ?items))" by (simp only: distinct_take flip: take_map)
  moreover have "set (map snd (take n ?items)) \<subseteq> ram_keys r"
  proof -
    have "set (map snd (take n ?items)) \<subseteq> set (map snd ?items)" by (simp only: set_take_subset flip: take_map)
    also have "\<dots> = ram_keys r" using mset_eq_setD [OF mset] by simp
    finally show ?thesis .
  qed
  ultimately have "length (ram_store (fold ram_drop (map snd (take n ?items)) r)) = length (ram_store r) - length (map snd (take n ?items))"
    using ram_okD(1) [OF assms(1)] by (rule fold_drop_length)
  also have "length (map snd (take n ?items)) = n" using assms(2) by simp
  finally have "length (ram_store (fold ram_drop (map snd (take n ?items)) r)) = length (ram_store r) - n" .
  then show ?thesis by (simp add: evict_lru_def Let_def fold_map comp_def split_def)
qed

lemma within_entries_length:
  assumes "ram_ok r" and "ram_max_entries r = Some n"
  shows "length (ram_store (ram_within_entries r)) \<le> n"
  using assms evict_lru_length [of r "length (ram_store r) - n"] by (simp add: ram_within_entries_def)

text \<open>A commit that runs through leaves the tier within both caps.\<close>

lemma ram_commit_caps:
  assumes "ram_ok r" and "m_size m = Some sz" and "0 \<le> sz" and "ram_commit w key k dr sh m d sz r = (r', True)"
  shows "(\<forall>n. ram_max_entries r = Some n \<longrightarrow> length (ram_store r') \<le> n) \<and>
    (\<forall>cap. ram_max_size r = Some cap \<and> 0 < cap \<longrightarrow> ram_current r' \<le> cap)"
proof -
  define r0 where "r0 = ram_record key k dr sh m d sz r"
  define r1 where "r1 = ram_within_entries r0"
  define p2 where "p2 = (case ram_max_size r1 of None \<Rightarrow> (r1, True)
      | Some cap \<Rightarrow> if cap < ram_current r1 then evict_to_byte_cap r1 else (r1, True))"
  define r3 where "r3 = fst p2\<lparr>ram_set_count := ram_set_count (fst p2) + 1\<rparr>"
  define p4 where "p4 = (if ram_check_interval r3 = 0 then (r3, False)
      else if ram_set_count r3 mod ram_check_interval r3 = 0 then check_and_evict (rn_mem w) r3 else (r3, True))"
  have ok0: "ram_ok r0" unfolding r0_def by (rule ram_record_ok [OF assms(1-3)])
  have ok1: "ram_ok r1" unfolding r1_def by (rule sheds_ok [OF within_entries_sheds ok0])
  have s2: "sheds r1 (fst p2)" by (auto simp: p2_def byte_cap_sheds split: option.split)
  then have ok2: "ram_ok (fst p2)" using ok1 by (rule sheds_ok)
  have s4: "sheds (fst p2) (fst p4)"
    using sheds_trans [OF sheds.sets [OF sheds.keeps] check_sheds] by (auto simp: p4_def r3_def intro: sheds.sets)
  have commit: "snd p2 \<and> (\<exists>h. r' = fst p4\<lparr>ram_handoff := h\<rparr>)"
    using assms(4) unfolding ram_commit_def r0_def r1_def p2_def r3_def p4_def by (auto simp: Let_def split_def split: if_splits)
  have caps: "ram_max_entries r0 = ram_max_entries r" "ram_max_size r1 = ram_max_size r"
    using sheds_caps [OF within_entries_sheds, of r0] by (simp_all add: r0_def r1_def ram_record_fields)
  have "length (ram_store r') \<le> n" if "ram_max_entries r = Some n" for n
  proof -
    have "length (ram_store (fst p4)) \<le> length (ram_store r1)"
      using sheds_length [OF s4] sheds_length [OF s2] by simp
    also have "\<dots> \<le> n" unfolding r1_def by (rule within_entries_length [OF ok0]) (simp add: caps that)
    finally show ?thesis using commit by auto
  qed
  moreover have "ram_current r' \<le> cap" if "ram_max_size r = Some cap" and "0 < cap" for cap
  proof -
    have "of_int (ram_current (fst p2)) \<le> (of_int cap :: real)"
    proof (cases "cap < ram_current r1")
      case True
      then have "evict_to_byte_cap r1 = (fst p2, True)" using commit caps that by (simp add: p2_def) (metis prod.collapse)
      from evict_to_byte_cap_reaches [OF ok1 this _ that(2) True] caps that have
        "of_int (ram_current (fst p2)) \<le> of_int cap * (9 / 10 :: real)" by simp
      also have "\<dots> \<le> of_int cap" using that(2) by simp
      finally show ?thesis .
    qed (use caps that in \<open>simp add: p2_def\<close>)
    then have "ram_current (fst p2) \<le> cap" by simp
    then show ?thesis using sheds_current [OF s4 ok2] commit by auto
  qed
  ultimately show ?thesis by blast
qed

subsection \<open>Who goes first\<close>

lemma drop_clock: "ram_drop key (r\<lparr>ram_clock := c\<rparr>) = (ram_drop key r)\<lparr>ram_clock := c\<rparr>"
  by (simp add: ram_drop_def)

lemma fold_drop_clock: "fold ram_drop keys (r\<lparr>ram_clock := c\<rparr>) = (fold ram_drop keys r)\<lparr>ram_clock := c\<rparr>"
  by (induction keys arbitrary: r) (simp_all add: drop_clock)

text \<open>Evicting down takes a prefix of the ranking, and no more of it than it needs.\<close>

lemma evict_down_prefix:
  obtains n where "n \<le> length items"
    and "ram_store (evict_down target items r) = ram_store (fold ram_drop (map (snd \<circ> snd) (take n items)) r)"
    and "ram_current (evict_down target items r) = ram_current (fold ram_drop (map (snd \<circ> snd) (take n items)) r)"
    and "0 < n \<longrightarrow> target < of_int (ram_current (fold ram_drop (map (snd \<circ> snd) (take (n - 1) items)) r))"
proof -
  have "\<exists>n \<le> length items. ram_store (evict_down target items r) = ram_store (fold ram_drop (map (snd \<circ> snd) (take n items)) r) \<and>
      ram_current (evict_down target items r) = ram_current (fold ram_drop (map (snd \<circ> snd) (take n items)) r) \<and>
      (0 < n \<longrightarrow> target < of_int (ram_current (fold ram_drop (map (snd \<circ> snd) (take (n - 1) items)) r)))"
  proof (induction items arbitrary: r)
    case (Cons x items)
    obtain p seq key where x: "x = (p, seq, key)" by (cases x)
    show ?case
    proof (cases "of_int (ram_current r) \<le> target")
      case True
      then show ?thesis using x by (intro exI [of _ 0]) simp
    next
      case False
      let ?r = "(ram_drop key r)\<lparr>ram_clock := max (ram_clock (ram_drop key r)) p\<rparr>"
      have "\<exists>n \<le> length items. ram_store (evict_down target items ?r) = ram_store (fold ram_drop (map (snd \<circ> snd) (take n items)) (ram_drop key r)) \<and>
          ram_current (evict_down target items ?r) = ram_current (fold ram_drop (map (snd \<circ> snd) (take n items)) (ram_drop key r)) \<and>
          (0 < n \<longrightarrow> target < of_int (ram_current (fold ram_drop (map (snd \<circ> snd) (take (n - 1) items)) (ram_drop key r))))"
        using Cons.IH [of ?r] by (simp add: fold_drop_clock comp_def)
      then obtain n where n: "n \<le> length items"
          "ram_store (evict_down target items ?r) = ram_store (fold ram_drop (map (snd \<circ> snd) (take n items)) (ram_drop key r))"
          "ram_current (evict_down target items ?r) = ram_current (fold ram_drop (map (snd \<circ> snd) (take n items)) (ram_drop key r))"
          "0 < n \<longrightarrow> target < of_int (ram_current (fold ram_drop (map (snd \<circ> snd) (take (n - 1) items)) (ram_drop key r)))"
        by blast
      have "take n (x # items) = (if n = 0 then [] else x # take (n - 1) items)" by (cases n) auto
      then show ?thesis using n x False by (intro exI [of _ "Suc n"]) (auto simp: Let_def comp_def)
    qed
  qed simp
  then show thesis using that by blast
qed

lemma fold_drop_map_of: "map_of (ram_store (fold ram_drop keys r)) k = (if k \<in> set keys then None else map_of (ram_store r) k)"
  by (induction keys arbitrary: r) (auto simp: map_of_delete)

lemma ranked_keys_item:
  assumes "ranked_keys r = Some items" and "dict_ok (ram_store r)" and "map_of (ram_store r) key = Some e"
    and "(p, seq, key) \<in> set items"
  shows "gdsf_priority r key (re_meta e) = Some p"
proof -
  let ?f = "\<lambda>(key, e). map_option (\<lambda>p. (p, case ram_seq_by_key r key of None \<Rightarrow> 0 | Some n \<Rightarrow> n, key)) (gdsf_priority r key (re_meta e))"
  obtain xs where xs: "those (map ?f (ram_store r)) = Some xs" and items: "items = sort xs"
    using assms(1) unfolding ranked_keys_def by auto
  have "\<exists>y \<in> set st. ?f y = Some z" if "those (map ?f st) = Some ys" and "z \<in> set ys" for st ys z
    using that
  proof (induction st arbitrary: ys)
    case (Cons y st)
    then show ?case by (auto split: option.splits)
  qed simp
  moreover have "(p, seq, key) \<in> set xs" using assms(4) items by simp
  ultimately obtain y where "y \<in> set (ram_store r)" "?f y = Some (p, seq, key)" using xs by blast
  then obtain e' where "(key, e') \<in> set (ram_store r)" "gdsf_priority r key (re_meta e') = Some p"
    by (auto simp: map_option_eq_Some split: prod.splits)
  moreover from this(1) have "map_of (ram_store r) key = Some e'" using assms(2) by (simp add: map_of_is_SomeI)
  ultimately show ?thesis using assms(3) by simp
qed

lemma ranked_keys_distinct:
  assumes "ranked_keys r = Some items" and "dict_ok (ram_store r)"
  shows "distinct (map (snd \<circ> snd) items)"
proof (rule card_distinct)
  have "set (map (snd \<circ> snd) items) = ram_keys r" using ranked_keys_cover(1) [OF assms(1)] by (simp add: split_def comp_def)
  then show "card (set (map (snd \<circ> snd) items)) = length (map (snd \<circ> snd) items)"
    using ranked_keys_cover(3) [OF assms(1)] distinct_card [OF assms(2)] by simp
qed

text \<open>
  When a store takes the tier over its byte cap, eviction goes by value per byte: an entry it
  takes is ranked no higher than any entry it leaves, the tier ends within nine tenths of its
  cap, and it would not have been with one victim fewer.\<close>

theorem byte_cap_takes_least_valuable:
  assumes "ram_step\<^sup>*\<^sup>* (ram_init p i n (Some cap)) r0" and "m_size m = Some sz" and "0 \<le> sz"
    and "r = ram_within_entries (ram_record key kept dr sh m d sz r0)"
    and "ram_max_size r = Some cap" and "0 < cap" and "cap < ram_current r" and "evict_to_byte_cap r = (r', True)"
  shows "(\<forall>k e k' e'. map_of (ram_store r) k = Some e \<and> map_of (ram_store r') k = None \<and> map_of (ram_store r') k' = Some e' \<longrightarrow>
      (\<exists>h h'. gdsf_priority r k (re_meta e) = Some h \<and> gdsf_priority r k' (re_meta e') = Some h' \<and> h \<le> h')) \<and>
    of_int (ram_current r') \<le> of_int cap * (9 / 10 :: real) \<and>
    (\<exists>k. map_of (ram_store r') k = None \<and> map_of (ram_store r) k \<noteq> None \<and>
      of_int cap * (9 / 10 :: real) < of_int (ram_current r' + (case map_of (ram_store r) k of None \<Rightarrow> 0 | Some e \<Rightarrow> entry_size e)))"
proof -
  have ok: "ram_ok r" unfolding assms(4)
    by (rule sheds_ok [OF within_entries_sheds ram_record_ok [OF ram_reachable_ok [OF assms(1)] assms(2,3)]])
  obtain items where items: "ranked_keys r = Some items" and r': "r' = evict_down (of_int cap * (9 / 10)) items r"
    using assms(5-8) by (auto simp: evict_to_byte_cap_def split: option.splits if_splits)
  obtain m where m: "m \<le> length items" "ram_store r' = ram_store (fold ram_drop (map (snd \<circ> snd) (take m items)) r)"
      "ram_current r' = ram_current (fold ram_drop (map (snd \<circ> snd) (take m items)) r)"
      "0 < m \<longrightarrow> of_int cap * (9 / 10) < real_of_int (ram_current (fold ram_drop (map (snd \<circ> snd) (take (m - 1) items)) r))"
    unfolding r' by (rule evict_down_prefix)
  have store: "map_of (ram_store r') k = (if k \<in> set (map (snd \<circ> snd) (take m items)) then None else map_of (ram_store r) k)" for k
    unfolding m(2) by (rule fold_drop_map_of)
  have reached: "of_int (ram_current r') \<le> of_int cap * (9 / 10 :: real)"
    by (rule evict_to_byte_cap_reaches [OF ok assms(8,5,6,7)])
  have first: "\<exists>h h'. gdsf_priority r k (re_meta e) = Some h \<and> gdsf_priority r k' (re_meta e') = Some h' \<and> h \<le> h'"
    if k: "map_of (ram_store r) k = Some e" "map_of (ram_store r') k = None" and k': "map_of (ram_store r') k' = Some e'" for k e k' e'
  proof -
    have e': "map_of (ram_store r) k' = Some e'" and left: "k' \<notin> set (map (snd \<circ> snd) (take m items))"
      using k' store [of k'] by (auto split: if_splits)
    have "k \<in> set (map (snd \<circ> snd) (take m items))" using k store [of k] by (auto split: if_splits)
    then obtain h seq where h: "(h, seq, k) \<in> set (take m items)" by auto
    have "k' \<in> (\<lambda>(_, _, key). key) ` set items"
      using ranked_keys_cover(1) [OF items] map_of_SomeD [OF e'] by (metis fst_conv imageI)
    then obtain h' seq' where h': "(h', seq', k') \<in> set items" by auto
    have split: "set items = set (take m items) \<union> set (drop m items)" by (simp flip: set_append)
    have "(h', seq', k') \<notin> set (take m items)"
    proof
      assume "(h', seq', k') \<in> set (take m items)"
      then have "(snd \<circ> snd) (h', seq', k') \<in> set (map (snd \<circ> snd) (take m items))" unfolding set_map by (rule imageI)
      then show False using left by simp
    qed
    then have "(h', seq', k') \<in> set (drop m items)" using h' split by blast
    moreover have "sorted (take m items @ drop m items)" using ranked_keys_cover(2) [OF items] by simp
    ultimately have "(h, seq, k) \<le> (h', seq', k')" using h unfolding sorted_append by blast
    then have "h \<le> h'" by auto
    then show ?thesis
      using ranked_keys_item [OF items ram_okD(1) [OF ok] k(1)] ranked_keys_item [OF items ram_okD(1) [OF ok] e' h']
        in_set_takeD [OF h] by auto
  qed
  have "0 < m"
  proof (rule ccontr)
    assume "\<not> 0 < m"
    then show False using m(3) reached assms(6,7) by simp
  qed
  then obtain j where j: "m = Suc j" by (cases m) auto
  obtain h seq k where x: "items ! j = (h, seq, k)" by (cases "items ! j")
  have take: "take m items = take j items @ [items ! j]" using m(1) j by (simp add: take_Suc_conv_app_nth)
  have "distinct (map (snd \<circ> snd) (take m items))"
    using ranked_keys_distinct [OF items ram_okD(1) [OF ok]] by (metis distinct_take take_map)
  then have fresh: "k \<notin> set (map (snd \<circ> snd) (take j items))" unfolding take x by simp
  have "items ! j \<in> set items" using m(1) j by simp
  then have "k \<in> (\<lambda>(_, _, key). key) ` set items" unfolding x by (rule rev_image_eqI) simp
  then have "k \<in> ram_keys r" using ranked_keys_cover(1) [OF items] by simp
  then obtain e where e: "map_of (ram_store r) k = Some e" by (metis map_of_eq_None_iff not_None_eq)
  have "ram_current r' = ram_current (ram_drop k (fold ram_drop (map (snd \<circ> snd) (take j items)) r))"
    unfolding m(3) take x by simp
  also have "\<dots> = ram_current (fold ram_drop (map (snd \<circ> snd) (take j items)) r) - entry_size e"
    using fresh e by (simp add: ram_drop_def fold_drop_map_of)
  finally have "of_int cap * (9 / 10 :: real) < of_int (ram_current r' + entry_size e)"
    using m(4) j by simp
  moreover have "map_of (ram_store r') k = None" using store [of k] take x by simp
  ultimately show ?thesis using first reached e by auto
qed

subsection \<open>The caps and the books\<close>

text \<open>A tier of 1000 bytes that holds \<open>a\<close>, of 600.\<close>

definition sample_look :: look where
  "sample_look = \<lparr>lk_kind = DataValue, lk_plain = Some (600, True), lk_dict_rows = None, lk_facts = None, lk_marshals = False,
     lk_dumped = False, lk_shared = False, lk_parts = [], lk_parts_dumped = False, lk_footprint = 600, lk_footprint_rest = 0,
     lk_nested = False, lk_estimate = 600, lk_at_least = False, lk_snapshot = NoSnapshot, lk_copy = None, lk_cheap = True,
     lk_freezes = True\<rparr>"

definition sample_meta :: entry_metadata where
  "sample_meta = no_metadata\<lparr>m_execution_time := VInt 1\<rparr>"

definition sample_env :: ram_env where
  "sample_env = \<lparr>rn_now = 5, rn_mem = None\<rparr>"

definition empty_ram :: "nat ram" where
  "empty_ram = ram_init (9 / 10) 10 (Some 4) (Some 1000)"

definition sample_ram :: "nat ram" where
  "sample_ram = fst (ram_set sample_env sample_look ''a'' 1 (Some sample_meta) 0 empty_ram)"

lemmas sample_ram_simps = sample_ram_def ram_set_def Let_def sample_look_def sample_meta_def sample_env_def empty_ram_def
  try_pickle_def use_tree_def use_dict_rows_def size_of_def slower_than_its_compute_def over_target_def use_facts_def
  use_parts_def use_whole_def use_shared_def found_shared_def keep_value_def keep_as_def ram_commit_def ram_within_entries_def
  init_metadata_def no_metadata_def ram_record_def ram_touch_def ram_init_def entry_size_def ROUND_TRIP_MIN_BYTES_def put_key_def

lemma sample_look_ok: "look_ok sample_look"
  by (simp add: look_ok_def sample_look_def)

lemma sample_ram_reachable: "ram_step\<^sup>*\<^sup>* (ram_init (9 / 10) 10 (Some 4) (Some 1000)) sample_ram"
  unfolding sample_ram_def empty_ram_def by (rule r_into_rtranclp, rule ram_step.stored, rule sample_look_ok)

text \<open>
  C34: In every reachable RAM tier the running total is the bytes of the entries it holds, no key
  is held twice, no entry has a negative size, and what the tier notes of a key (how it is
  copied, whether it is its own, when it was used) it notes of held keys only.\<close>

theorem ram_books_balance:
  assumes "ram_step\<^sup>*\<^sup>* (ram_init p i n b) r"
  shows "ram_current r = sum_list (map (entry_size \<circ> snd) (ram_store r)) \<and> distinct (map fst (ram_store r)) \<and>
    (\<forall>(k, e) \<in> set (ram_store r). 0 \<le> entry_size e) \<and> marked r \<subseteq> fst ` set (ram_store r) \<and>
    dom (ram_base r) = fst ` set (ram_store r) \<and> dom (ram_seq_by_key r) = fst ` set (ram_store r)"
proof -
  note ok = ram_okD [OF ram_reachable_ok [OF assms]]
  have "\<forall>(k, e) \<in> set (ram_store r). 0 \<le> entry_size e" using ok(3) [OF imageI] by fastforce
  then show ?thesis using ok by (simp add: dict_total_def)
qed

theorem ram_books_balance_witness:
  "ram_current sample_ram = 600 \<and> ram_current sample_ram = sum_list (map (entry_size \<circ> snd) (ram_store sample_ram))"
proof
  show "ram_current sample_ram = 600" by (simp add: sample_ram_simps)
  show "ram_current sample_ram = sum_list (map (entry_size \<circ> snd) (ram_store sample_ram))"
    using ram_books_balance [OF sample_ram_reachable] by blast
qed

text \<open>
  C33: A store that keeps its value leaves the tier within its byte cap and within its number of
  entries, whatever it had to evict.\<close>

theorem ram_set_within_caps:
  assumes "ram_step\<^sup>*\<^sup>* (ram_init p i n b) r" and "look_ok l" and "ram_set w l key v metadata d r = (r', m, RamKept)"
  shows "(\<forall>k. ram_max_entries r = Some k \<longrightarrow> length (ram_store r') \<le> k) \<and>
    (\<forall>cap. ram_max_size r = Some cap \<and> 0 < cap \<longrightarrow> ram_current r' \<le> cap)"
  using assms(3)
proof (cases rule: ram_set_cases)
  case (recorded q k sz ok)
  have "ram_ok (r\<lparr>ram_rates := q\<rparr>)" by (rule ram_ok_cong [OF ram_reachable_ok [OF assms(1)]]) (simp_all add: marked_def)
  moreover have "0 \<le> sz" using recorded(6) size_of_nonneg [OF assms(2)] by auto
  moreover have ok using recorded(2) by (cases ok) simp_all
  ultimately show ?thesis
    using ram_commit_caps [of "r\<lparr>ram_rates := q\<rparr>" m sz w key k _ _ d r'] recorded(1,3) by simp
qed simp_all

text \<open>A second value of 600 bytes, \<open>b\<close>, takes the tier over its cap.\<close>

definition sample_kept :: "nat kept" where
  "sample_kept = keep_as (Copied 2) True"

definition sample_full :: "nat ram" where
  "sample_full = ram_within_entries (ram_record ''b'' sample_kept False False (sample_meta\<lparr>m_size := Some 600\<rparr>) 1 600 sample_ram)"

lemma gdsf_value_defined:
  assumes "store_seconds m = Fin c" and "0 < c" and "m_access_count m = None \<or> (\<exists>n. m_access_count m = Some n \<and> 0 \<le> n)"
  shows "gdsf_value m sz \<noteq> None"
proof -
  define hits where "hits = (case m_access_count m of None \<Rightarrow> 0 | Some n \<Rightarrow> n) + 1"
  have "0 < real_of_int hits * c / real_of_int (max 1 sz)" using assms(2,3) by (auto simp: hits_def)
  then have "\<not> real_of_int hits * c / real_of_int (max 1 sz) \<le> 0" by linarith
  then show ?thesis using assms(1,2) unfolding gdsf_value_def Let_def hits_def [symmetric] by simp
qed

text \<open>With costs and access counts as stores record them, nothing raises while entries are ranked.\<close>

lemma ranked_keys_defined:
  assumes "\<forall>(k, e) \<in> set (ram_store r). (\<exists>c. store_seconds (re_meta e) = Fin c \<and> 0 < c) \<and>
      (m_access_count (re_meta e) = None \<or> (\<exists>n. m_access_count (re_meta e) = Some n \<and> 0 \<le> n))"
  shows "ranked_keys r \<noteq> None"
proof -
  let ?f = "\<lambda>(key, e). map_option (\<lambda>p. (p, case ram_seq_by_key r key of None \<Rightarrow> 0 | Some n \<Rightarrow> n, key)) (gdsf_priority r key (re_meta e))"
  have "gdsf_priority r k (re_meta e) \<noteq> None" if "(k, e) \<in> set (ram_store r)" for k e
    using assms that gdsf_value_defined [of "re_meta e"] by (fastforce simp: gdsf_priority_def)
  then have "those (map ?f st) \<noteq> None" if "set st \<subseteq> set (ram_store r)" for st
    using that by (induction st) (auto split: option.splits)
  then show ?thesis by (simp add: ranked_keys_def)
qed

theorem ram_set_within_caps_witness:
  "length (ram_store sample_ram) \<le> 4 \<and> ram_current sample_ram \<le> 1000"
proof -
  have kept: "ram_set sample_env sample_look ''a'' 1 (Some sample_meta) 0 empty_ram =
      (sample_ram, fst (snd (ram_set sample_env sample_look ''a'' 1 (Some sample_meta) 0 empty_ram)), RamKept)"
    by (simp add: sample_ram_simps)
  have "ram_step\<^sup>*\<^sup>* (ram_init (9 / 10) 10 (Some 4) (Some 1000)) empty_ram" by (simp add: empty_ram_def)
  from ram_set_within_caps [OF this sample_look_ok kept] show ?thesis by (simp add: empty_ram_def ram_init_def)
qed

theorem byte_cap_takes_least_valuable_witness:
  "of_int (ram_current (fst (evict_to_byte_cap sample_full))) \<le> (900 :: real)"
proof -
  have size: "m_size (sample_meta\<lparr>m_size := Some 600\<rparr>) = Some 600" by simp
  have caps: "ram_max_size sample_full = Some 1000" "1000 < ram_current sample_full"
    by (simp_all add: sample_full_def sample_kept_def sample_ram_simps)
  have "ranked_keys sample_full \<noteq> None"
    by (rule ranked_keys_defined)
       (simp add: sample_full_def sample_kept_def sample_ram_simps store_seconds_def)
  then have "evict_to_byte_cap sample_full = (fst (evict_to_byte_cap sample_full), True)"
    using caps by (auto simp: evict_to_byte_cap_def)
  from byte_cap_takes_least_valuable [OF sample_ram_reachable size _ sample_full_def caps(1) _ caps(2) this]
  show ?thesis by simp
qed

subsection \<open>Memory pressure\<close>

text \<open>While an episode lasts, the floor it holds is at least \<^const>\<open>PRESSURE_KEEPS_BYTES\<close>.\<close>

definition floor_ok :: "'v ram \<Rightarrow> bool" where
  "floor_ok r = (\<forall>f. ram_pressure_floor r = Some f \<longrightarrow> PRESSURE_KEEPS_BYTES \<le> f)"

lemma pressure_share_bound:
  assumes "floor_ok r"
  shows "snd (pressure_share mem t r) \<le> max 0 (of_int (ram_current r) - of_int PRESSURE_KEEPS_BYTES)"
proof (cases "ram_pressure_floor r")
  case (Some f)
  then have "real_of_int PRESSURE_KEEPS_BYTES \<le> of_int f" using assms by (simp add: floor_ok_def)
  then show ?thesis using Some by (auto simp: pressure_share_def Let_def split: bool.split option.split)
qed (auto simp: pressure_share_def Let_def split: bool.split option.split)

text \<open>Shedding stops at the first entry past what it was asked for.\<close>

lemma shed_items_overshoot:
  assumes "ram_ok r" and "\<forall>e \<in> snd ` set (ram_store r). entry_size e \<le> s" and "0 \<le> s" and "of_int freed < n + of_int s \<or> freed = 0"
    and "n \<ge> 0"
  shows "of_int (ram_current r) - of_int (ram_current (shed_items n freed items r)) \<le> max 0 (n - of_int freed + of_int s)"
  using assms
proof (induction n freed items r rule: shed_items.induct)
  case (2 n freed p seq key items r)
  show ?case
  proof (cases "n \<le> of_int freed")
    case False
    show ?thesis
    proof (cases "map_of (ram_store r) key")
      case None
      then show ?thesis using "2.IH"(1) [OF False None "2.prems"] False by simp
    next
      case (Some e)
      let ?d = "(ram_drop key r)\<lparr>ram_clock := max (ram_clock (ram_drop key r)) p\<rparr>"
      have e: "e \<in> snd ` set (ram_store r)" using map_of_SomeD [OF Some] by (rule rev_image_eqI) simp
      then have sz: "0 \<le> entry_size e" "entry_size e \<le> s" using "2.prems"(2) ram_okD(3) [OF "2.prems"(1)] by auto
      have "ram_ok ?d" using sheds_ok [OF sheds.clock [OF sheds.drops [OF sheds.keeps]]] "2.prems"(1) by blast
      moreover have "\<forall>e \<in> snd ` set (ram_store ?d). entry_size e \<le> s" using "2.prems"(2) by (auto simp: AList.delete_eq)
      moreover have "of_int (freed + entry_size e) < n + of_int s" using False sz(2) by simp
      ultimately have "of_int (ram_current ?d) - of_int (ram_current (shed_items n (freed + entry_size e) items ?d))
          \<le> max 0 (n - of_int (freed + entry_size e) + of_int s)"
        using "2.IH"(2) [OF False Some refl] "2.prems"(3,5) by blast
      moreover have "ram_current ?d = ram_current r - entry_size e" using Some by (simp add: ram_drop_def)
      moreover have "0 \<le> n - of_int (freed + entry_size e) + of_int s"
        using False sz(2) by simp
      ultimately show ?thesis using Some False by (simp add: Let_def max_def)
    qed
  qed simp
qed simp


text \<open>A tier with one entry larger than what pressure is said to leave is emptied by it.\<close>

definition big_look :: look where
  "big_look = sample_look\<lparr>lk_plain := Some (64 * 1024 ^ 2, True)\<rparr>"

definition big_ram :: "nat ram" where
  "big_ram = fst (ram_set sample_env big_look ''a'' 1 (Some sample_meta) 0 (ram_init (9 / 10) 10 None None))"

definition full_machine :: mem_reading where
  "full_machine = \<lparr>mr_total = 1000 * 1024 ^ 3, mr_percent = 99\<rparr>"

lemmas big_ram_simps = big_ram_def big_look_def full_machine_def sample_ram_simps PRESSURE_KEEPS_BYTES_def PRESSURE_WORSENED_POINTS_def

lemma big_ram_reachable: "ram_step\<^sup>*\<^sup>* (ram_init (9 / 10) 10 None None) big_ram"
  unfolding big_ram_def
  by (rule r_into_rtranclp, rule ram_step.stored) (simp add: look_ok_def big_look_def sample_look_def)

lemma pressure_empties_tier:
  "ram_current big_ram = 64 * 1024 ^ 2 \<and> snd (check_and_evict (Some full_machine) big_ram) \<and>
   ram_current (fst (check_and_evict (Some full_machine) big_ram)) = 0 \<and> 0 < PRESSURE_KEEPS_BYTES"
proof -
  have "ranked_keys big_ram \<noteq> None"
    by (rule ranked_keys_defined) (simp add: big_ram_simps store_seconds_def)
  then obtain items where items: "ranked_keys (big_ram\<lparr>ram_pressure_percent := Some 99\<rparr>) = Some items"
    by (auto simp: ranked_keys_def gdsf_priority_def)
  have keys: "(\<lambda>(_, _, key). key) ` set items = {''a''}" "length items = 1"
    using ranked_keys_cover(1,3) [OF items] by (simp_all add: big_ram_simps)
  then obtain p seq where "items = [(p, seq, ''a'')]" by (cases items) auto
  then show ?thesis
    using items by (simp add: check_and_evict_def ram_evict_def pressure_share_def shed_def hold_floor_def ram_drop_def big_ram_simps)
qed


text \<open>
  Pressure that does not get worse takes nothing more: once a check has taken the tier's share,
  later checks leave it as it is for as long as the machine stays within two points of that
  reading and nothing is stored.\<close>

theorem pressure_taken_once:
  assumes "check_and_evict (Some mem) r = (r1, True)" and "ram_max_percent r < mr_percent mem / 100"
    and "ram_max_percent r < mr_percent mem' / 100"
    and "mr_percent mem' \<le> mr_percent mem + PRESSURE_WORSENED_POINTS" and "ram_pressure_floor r = None"
  shows "check_and_evict (Some mem') r1 = (r1, True)"
proof -
  define t where "t = ram_max_percent r * (9 / 10)"
  define r0 where "r0 = fst (pressure_share mem t r)"
  define m where "m = snd (pressure_share mem t r)"
  have r0: "ram_pressure_percent r0 = Some (mr_percent mem)" "ram_max_percent r0 = ram_max_percent r"
    using assms(5) by (simp_all add: r0_def pressure_share_def Let_def)
  have shed: "shed m r0 = (r1, True)"
    using assms(1,2) by (simp add: check_and_evict_def ram_evict_def m_def r0_def t_def split_def Let_def)
  have keeps: "ram_pressure_percent (shed_items n f items x) = ram_pressure_percent x" for n f items and x :: "'a ram"
    by (induction n f items x rule: shed_items.induct) (auto simp: ram_drop_def Let_def split: option.splits)
  have r1: "\<exists>x. r1 = hold_floor x \<and> ram_pressure_percent x = ram_pressure_percent r0"
    using shed keeps by (auto simp: shed_def split: if_splits option.splits)
  have "sheds r0 r1" using shed_sheds [of r0 m] shed by simp
  then have percent: "ram_max_percent r1 = ram_max_percent r" using sheds_caps r0(2) by metis
  have pp: "ram_pressure_percent r1 = Some (mr_percent mem)" using r1 r0(1) by (auto simp: hold_floor_def)
  have fl: "ram_pressure_floor r1 = Some (max (ram_current r1) PRESSURE_KEEPS_BYTES)" using r1 by (auto simp: hold_floor_def)
  have "\<not> mr_percent mem + PRESSURE_WORSENED_POINTS < mr_percent mem'" using assms(4) by simp
  then have "pressure_share mem' t' r1 = (r1, 0)" for t'
    using pp fl by (simp add: pressure_share_def Let_def)
  moreover have "shed 0 r1 = (r1, True)" using fl by (simp add: shed_def hold_floor_def)
  ultimately show ?thesis using assms(3) percent by (simp add: check_and_evict_def ram_evict_def)
qed

theorem pressure_taken_once_witness:
  "check_and_evict (Some full_machine) (fst (check_and_evict (Some full_machine) big_ram)) =
   (fst (check_and_evict (Some full_machine) big_ram), True)"
proof (rule pressure_taken_once [where r = big_ram and mem = full_machine])
  show "check_and_evict (Some full_machine) big_ram = (fst (check_and_evict (Some full_machine) big_ram), True)"
    using pressure_empties_tier by (metis prod.collapse)
qed (simp_all add: big_ram_simps)

end
