(* ===== verification/Cache_Tier.thy ===== *)
theory Cache_Tier
  imports Entry_Meta
begin

text \<open>
  What a cache tier promises (\<open>CacheBackend\<close> of \<open>src/cash/backends/_base.py\<close>), whatever it keeps
  its entries in. \<open>ok\<close> is what the tier keeps true of itself, and \<open>held s key\<close> the values a read of
  the key may hand out, now or once the writes still queued have run. An operation is told what it
  meets by its first argument (\<open>'i\<close>: clocks, the metadata of a store, what the operating system
  answers, how far the background writes have come) and may fail; a tier may also drop any entry
  at any time.

  \<open>cache_tier\<close> is the contract every tier keeps: a value is handed out only for the key it was
  stored under, and not after the key was deleted or the tier cleared. \<open>replacing_tier\<close> adds that
  a store which runs through also ends the value stored before.
\<close>

subsection \<open>The contract\<close>

datatype ('i, 'v) tier_op = StoreOp 'i string 'v | ReadOp 'i string | DeleteOp 'i string | ClearOp 'i

text \<open>One operation on a tier given by its four functions; a store, a delete and a clear say whether
  they ran through.\<close>

fun run_op ::
  "('i \<Rightarrow> string \<Rightarrow> 'v \<Rightarrow> 's \<Rightarrow> 's \<times> bool) \<Rightarrow> ('i \<Rightarrow> string \<Rightarrow> 's \<Rightarrow> 's \<times> 'v option) \<Rightarrow>
   ('i \<Rightarrow> string \<Rightarrow> 's \<Rightarrow> 's \<times> bool) \<Rightarrow> ('i \<Rightarrow> 's \<Rightarrow> 's \<times> bool) \<Rightarrow> ('i, 'v) tier_op \<Rightarrow> 's \<Rightarrow> 's" where
  "run_op st fe re wi (StoreOp i key v) s = fst (st i key v s)"
| "run_op st fe re wi (ReadOp i key) s = fst (fe i key s)"
| "run_op st fe re wi (DeleteOp i key) s = fst (re i key s)"
| "run_op st fe re wi (ClearOp i) s = fst (wi i s)"

text \<open>The values stored under a key since it was last deleted or the tier cleared: what they become
  with one operation, \<open>b\<close> telling whether that ran through.\<close>

fun offered :: "bool \<Rightarrow> ('i, 'v) tier_op \<Rightarrow> (string \<Rightarrow> 'v set) \<Rightarrow> string \<Rightarrow> 'v set" where
  "offered b (StoreOp i key v) vals = vals(key := insert v (vals key))"
| "offered b (ReadOp i key) vals = vals"
| "offered b (DeleteOp i key) vals = (if b then vals(key := {}) else vals)"
| "offered b (ClearOp i) vals = (if b then (\<lambda>_. {}) else vals)"

fun ran_through ::
  "('i \<Rightarrow> string \<Rightarrow> 'v \<Rightarrow> 's \<Rightarrow> 's \<times> bool) \<Rightarrow> ('i \<Rightarrow> string \<Rightarrow> 's \<Rightarrow> 's \<times> bool) \<Rightarrow> ('i \<Rightarrow> 's \<Rightarrow> 's \<times> bool) \<Rightarrow>
   ('i, 'v) tier_op \<Rightarrow> 's \<Rightarrow> bool" where
  "ran_through st re wi (StoreOp i key v) s = snd (st i key v s)"
| "ran_through st re wi (ReadOp i key) s = True"
| "ran_through st re wi (DeleteOp i key) s = snd (re i key s)"
| "ran_through st re wi (ClearOp i) s = snd (wi i s)"

text \<open>The operations in order, on the tier and on the record of what was offered to it.\<close>

fun run_ops ::
  "('i \<Rightarrow> string \<Rightarrow> 'v \<Rightarrow> 's \<Rightarrow> 's \<times> bool) \<Rightarrow> ('i \<Rightarrow> string \<Rightarrow> 's \<Rightarrow> 's \<times> 'v option) \<Rightarrow>
   ('i \<Rightarrow> string \<Rightarrow> 's \<Rightarrow> 's \<times> bool) \<Rightarrow> ('i \<Rightarrow> 's \<Rightarrow> 's \<times> bool) \<Rightarrow> ('i, 'v) tier_op list \<Rightarrow>
   's \<times> (string \<Rightarrow> 'v set) \<Rightarrow> 's \<times> (string \<Rightarrow> 'v set)" where
  "run_ops st fe re wi [] x = x"
| "run_ops st fe re wi (p # ps) (s, vals) =
     run_ops st fe re wi ps (run_op st fe re wi p s, offered (ran_through st re wi p s) p vals)"

definition stores_to :: "string \<Rightarrow> ('i, 'v) tier_op \<Rightarrow> bool" where
  "stores_to key p = (case p of StoreOp _ k _ \<Rightarrow> k = key | _ \<Rightarrow> False)"

locale cache_tier =
  fixes ok :: "'s \<Rightarrow> bool"
    and held :: "'s \<Rightarrow> string \<Rightarrow> 'v set"
    and store :: "'i \<Rightarrow> string \<Rightarrow> 'v \<Rightarrow> 's \<Rightarrow> 's \<times> bool"
    and fetch :: "'i \<Rightarrow> string \<Rightarrow> 's \<Rightarrow> 's \<times> 'v option"
    and remove :: "'i \<Rightarrow> string \<Rightarrow> 's \<Rightarrow> 's \<times> bool"
    and wipe :: "'i \<Rightarrow> 's \<Rightarrow> 's \<times> bool"
  assumes ok_store: "ok s \<Longrightarrow> ok (fst (store i key v s))" and ok_fetch: "ok s \<Longrightarrow> ok (fst (fetch i key s))"
    and ok_remove: "ok s \<Longrightarrow> ok (fst (remove i key s))" and ok_wipe: "ok s \<Longrightarrow> ok (fst (wipe i s))"
    and held_store: "ok s \<Longrightarrow> held (fst (store i key v s)) key \<subseteq> insert v (held s key)"
    and held_store_other: "ok s \<Longrightarrow> k \<noteq> key \<Longrightarrow> held (fst (store i key v s)) k \<subseteq> held s k"
    and held_fetch: "ok s \<Longrightarrow> held (fst (fetch i key s)) k \<subseteq> held s k"
    and fetch_held: "ok s \<Longrightarrow> snd (fetch i key s) = Some v \<Longrightarrow> v \<in> held s key"
    and held_remove: "ok s \<Longrightarrow> held (fst (remove i key s)) k \<subseteq> held s k"
    and removed: "ok s \<Longrightarrow> snd (remove i key s) \<Longrightarrow> held (fst (remove i key s)) key = {}"
    and held_wipe: "ok s \<Longrightarrow> held (fst (wipe i s)) k \<subseteq> held s k"
    and wiped: "ok s \<Longrightarrow> snd (wipe i s) \<Longrightarrow> held (fst (wipe i s)) k = {}"
begin

abbreviation run :: "('i, 'v) tier_op \<Rightarrow> 's \<Rightarrow> 's" where
  "run \<equiv> run_op store fetch remove wipe"

abbreviation runs :: "('i, 'v) tier_op list \<Rightarrow> 's \<times> (string \<Rightarrow> 'v set) \<Rightarrow> 's \<times> (string \<Rightarrow> 'v set)" where
  "runs \<equiv> run_ops store fetch remove wipe"

lemma run_ok: "ok s \<Longrightarrow> ok (run p s)"
  by (cases p) (simp_all add: ok_store ok_fetch ok_remove ok_wipe)

lemma runs_ok: "ok s \<Longrightarrow> ok (fst (runs ps (s, vals)))"
  by (induction ps arbitrary: s vals) (simp_all add: run_ok)

lemma folds_ok: "ok s \<Longrightarrow> ok (fold run ps s)"
  by (induction ps arbitrary: s) (simp_all add: run_ok)

definition confined :: "'s \<Rightarrow> (string \<Rightarrow> 'v set) \<Rightarrow> bool" where
  "confined s vals = (\<forall>k. held s k \<subseteq> vals k)"

lemma run_confined:
  assumes "ok s" and "confined s vals"
  shows "confined (run p s) (offered (ran_through store remove wipe p s) p vals)"
  unfolding confined_def
proof
  fix k
  have le: "held s k \<subseteq> vals k" using assms(2) by (simp add: confined_def)
  show "held (run p s) k \<subseteq> offered (ran_through store remove wipe p s) p vals k"
  proof (cases p)
    case (StoreOp i key v)
    then show ?thesis using le held_store [OF assms(1), of i key v] held_store_other [OF assms(1), of k key i v]
      by (cases "k = key") auto
  next
    case (ReadOp i key)
    then show ?thesis using le held_fetch [OF assms(1), of i key k] by auto
  next
    case (DeleteOp i key)
    then show ?thesis using le held_remove [OF assms(1), of i key k] removed [OF assms(1), of i key] by auto
  next
    case (ClearOp i)
    then show ?thesis using le held_wipe [OF assms(1), of i k] wiped [OF assms(1), of i k] by auto
  qed
qed

lemma runs_confined:
  assumes "ok s" and "confined s vals"
  shows "confined (fst (runs ps (s, vals))) (snd (runs ps (s, vals)))"
  using assms by (induction ps arbitrary: s vals) (simp_all add: run_confined run_ok)

text \<open>What a read hands out after any operations was stored under that key since its last delete, or
  was among the values \<open>vals\<close> the tier began with.\<close>

lemma served_was_stored:
  assumes "ok s" and "\<And>k. held s k \<subseteq> vals k" and "runs ps (s, vals) = (s', vals')" and "snd (fetch i key s') = Some v"
  shows "v \<in> vals' key"
proof -
  have "confined s vals" using assms(2) by (simp add: confined_def)
  then have "held s' key \<subseteq> vals' key"
    using runs_confined [OF assms(1), of vals ps] assms(3) by (simp add: confined_def)
  moreover have "ok s'" using runs_ok [OF assms(1), of ps vals] assms(3) by simp
  ultimately show ?thesis using fetch_held assms(4) by blast
qed

lemma held_runs:
  assumes "ok s" and "\<forall>p \<in> set ps. \<not> stores_to key p"
  shows "held (fold run ps s) key \<subseteq> held s key"
  using assms
proof (induction ps arbitrary: s)
  case (Cons p ps)
  have "held (run p s) key \<subseteq> held s key"
  proof (cases p)
    case (StoreOp i k u)
    then have "key \<noteq> k" using Cons.prems(2) by (auto simp: stores_to_def)
    from held_store_other [OF Cons.prems(1) this, of i u] StoreOp show ?thesis by simp
  qed (use held_fetch [OF Cons.prems(1)] held_remove [OF Cons.prems(1)] held_wipe [OF Cons.prems(1)] in simp_all)
  moreover have "held (fold run ps (run p s)) key \<subseteq> held (run p s) key"
    by (rule Cons.IH) (use Cons.prems run_ok in auto)
  ultimately show ?case by auto
qed simp

text \<open>A key that was deleted stays a miss until it is stored again.\<close>

lemma removed_not_served:
  assumes "ok s" and "snd (remove i key s)" and "\<forall>p \<in> set ps. \<not> stores_to key p"
  shows "snd (fetch j key (fold run ps (fst (remove i key s)))) = None"
proof (cases "snd (fetch j key (fold run ps (fst (remove i key s))))")
  case (Some v)
  note ok = ok_remove [OF assms(1)]
  have "v \<in> held (fst (remove i key s)) key"
    using fetch_held [OF folds_ok [OF ok] Some] held_runs [OF ok assms(3)] by blast
  then show ?thesis using removed [OF assms(1,2)] by simp
qed

end

locale replacing_tier = cache_tier +
  assumes replaced: "ok s \<Longrightarrow> snd (store i key v s) \<Longrightarrow> held (fst (store i key v s)) key \<subseteq> {v}"
begin

text \<open>A read after a store that ran through hands out its value, until the key is stored again.\<close>

lemma last_store_served:
  assumes "ok s" and "snd (store i key v s)" and "\<forall>p \<in> set ps. \<not> stores_to key p"
    and "snd (fetch j key (fold run ps (fst (store i key v s)))) = Some u"
  shows "u = v"
  using held_runs [OF ok_store [OF assms(1)] assms(3)] replaced [OF assms(1,2)]
    fetch_held [OF folds_ok [OF ok_store [OF assms(1)]] assms(4)] by blast

end

end
