(* ===== verification/Memory_Contract.thy ===== *)
theory Memory_Contract
  imports Memory_Caps Cache_Tier
begin

text \<open>
  The RAM tier as a cache tier: \<open>InMemoryBackend\<close> (\<open>src/cash/backends/memory_backend.py\<close>) keeps the
  contract of \<open>Cache_Tier\<close>, and a store that does not raise also ends the value stored before.
\<close>

record ram_call =
  rc_env :: ram_env
  rc_look :: look
  rc_meta :: "entry_metadata option"
  rc_dict :: nat
  rc_reading :: reading

definition ram_value :: "'v ram \<Rightarrow> string \<rightharpoonup> 'v" where
  "ram_value r key = map_option (form_value \<circ> re_form) (map_of (ram_store r) key)"

definition ram_held :: "'v ram \<Rightarrow> string \<Rightarrow> 'v set" where
  "ram_held r key = set_option (ram_value r key)"

definition ram_store_op :: "ram_call \<Rightarrow> string \<Rightarrow> 'v \<Rightarrow> 'v ram \<Rightarrow> 'v ram \<times> bool" where
  "ram_store_op i key v r = (case ram_set (rc_env i) (rc_look i) key v (rc_meta i) (rc_dict i) r of (r', _, out) \<Rightarrow> (r', out \<noteq> RamRaised))"

definition ram_read_op :: "ram_call \<Rightarrow> string \<Rightarrow> 'v ram \<Rightarrow> 'v ram \<times> 'v option" where
  "ram_read_op i key r = (case ram_get (rn_now (rc_env i)) (rc_reading i) key r of
       (r', RamHit _ v) \<Rightarrow> (r', Some v) | (r', _) \<Rightarrow> (r', None))"

text \<open>Neither raises.\<close>

definition ram_delete_op :: "ram_call \<Rightarrow> string \<Rightarrow> 'v ram \<Rightarrow> 'v ram \<times> bool" where
  "ram_delete_op i key r = (ram_delete key r, True)"

definition ram_clear_op :: "ram_call \<Rightarrow> 'v ram \<Rightarrow> 'v ram \<times> bool" where
  "ram_clear_op i r = (ram_clear r, True)"

lemma ram_value_drop: "ram_value (ram_drop key r) k = (if k = key then None else ram_value r k)"
  by (simp add: ram_value_def map_of_delete)

lemma sheds_held: "sheds r r' \<Longrightarrow> ram_value r' k \<in> {None, ram_value r k}"
  using sheds_store [of r r' k] by (auto simp: ram_value_def)

lemma reads_held:
  assumes "reads_to key r r'"
  shows "ram_value r' k \<in> {None, ram_value r k}"
  using assms by (cases "k = key") (auto simp: reads_to_def same_value_def ram_value_def map_option_case split: option.splits)

lemma ram_set_held:
  assumes "ram_set w l key v metadata d r = (r', m, out)"
  shows "ram_value r' key \<in> {None, Some v} \<or> out = RamRaised \<and> ram_value r' key = ram_value r key"
    and "k \<noteq> key \<Longrightarrow> ram_value r' k \<in> {None, ram_value r k}"
proof -
  have rated: "ram_value (r\<lparr>ram_rates := q\<rparr>) = ram_value r" for q by (rule ext) (simp add: ram_value_def)
  let ?P = "(ram_value r' key \<in> {None, Some v} \<or> out = RamRaised \<and> ram_value r' key = ram_value r key) \<and>
    (k \<noteq> key \<longrightarrow> ram_value r' k \<in> {None, ram_value r k})"
  have ?P using assms
  proof (cases rule: ram_set_cases)
    case (recorded q kp sz ok)
    let ?r = "ram_record key kp (use_dict_rows l \<noteq> None) (use_shared l) m d sz (r\<lparr>ram_rates := q\<rparr>)"
    obtain r4 h where r4: "r' = r4\<lparr>ram_handoff := h\<rparr>" "sheds ?r r4"
      by (rule ram_commit_sheds [of w key kp "use_dict_rows l \<noteq> None" "use_shared l" m d sz "r\<lparr>ram_rates := q\<rparr>"]) (use recorded(1) in \<open>metis fst_conv\<close>)
    have less: "ram_value r' k \<in> {None, ram_value ?r k}" for k
      using sheds_held [OF r4(2), of k] r4(1) by (simp add: ram_value_def)
    have "ram_value ?r key = Some v" using recorded(5) by (simp add: ram_value_def ram_record_fields map_of_update)
    moreover have "ram_value ?r k = ram_value r k" if "k \<noteq> key" using that by (simp add: ram_value_def ram_record_fields map_of_update)
    ultimately show ?thesis using less [of key] less [of k] by auto
  qed (simp_all add: rated ram_value_drop)
  then show "ram_value r' key \<in> {None, Some v} \<or> out = RamRaised \<and> ram_value r' key = ram_value r key"
    and "k \<noteq> key \<Longrightarrow> ram_value r' k \<in> {None, ram_value r k}" by blast+
qed

lemma ram_read_op_reads: "reads_to key r (fst (ram_read_op i key r))"
  using ram_get_reads [of key r "rn_now (rc_env i)" "rc_reading i"]
  by (auto simp: ram_read_op_def split: prod.splits ram_read.splits)

lemma ram_read_op_value: "snd (ram_read_op i key r) = Some v \<Longrightarrow> ram_value r key = Some v"
  using ram_get_reads [of key r "rn_now (rc_env i)" "rc_reading i"]
  by (auto simp: ram_read_op_def ram_value_def split: prod.splits ram_read.splits)

lemma ram_held_less: "ram_value r' k \<in> {None, ram_value r k} \<Longrightarrow> ram_held r' k \<subseteq> ram_held r k"
  by (auto simp: ram_held_def)

interpretation ram_tier: replacing_tier "\<lambda>_ :: 'v ram. True" ram_held ram_store_op ram_read_op ram_delete_op ram_clear_op
proof
  fix i :: ram_call and key v k and s :: "'v ram"
  obtain r' m out where set: "ram_set (rc_env i) (rc_look i) key v (rc_meta i) (rc_dict i) s = (r', m, out)" by (metis surj_pair)
  have op: "ram_store_op i key v s = (r', out \<noteq> RamRaised)" by (simp add: ram_store_op_def set)
  show "ram_held (fst (ram_store_op i key v s)) key \<subseteq> insert v (ram_held s key)"
    using ram_set_held(1) [OF set] op by (auto simp: ram_held_def)
  show "ram_held (fst (ram_store_op i key v s)) k \<subseteq> ram_held s k" if "k \<noteq> key"
    using ram_held_less [OF ram_set_held(2) [OF set that]] op by simp
  show "ram_held (fst (ram_store_op i key v s)) key \<subseteq> {v}" if "snd (ram_store_op i key v s)"
    using ram_set_held(1) [OF set] op that by (auto simp: ram_held_def)
  show "ram_held (fst (ram_read_op i key s)) k \<subseteq> ram_held s k" by (rule ram_held_less [OF reads_held [OF ram_read_op_reads]])
  show "snd (ram_read_op i key s) = Some v \<Longrightarrow> v \<in> ram_held s key"
    using ram_read_op_value [of i key s v] by (simp add: ram_held_def)
  show "ram_held (fst (ram_delete_op i key s)) k \<subseteq> ram_held s k" "ram_held (fst (ram_delete_op i key s)) key = {}"
    by (simp_all add: ram_delete_op_def ram_delete_def ram_held_def ram_value_drop)
  show "ram_held (fst (ram_clear_op i s)) k \<subseteq> ram_held s k" "ram_held (fst (ram_clear_op i s)) k = {}"
    by (simp_all add: ram_clear_op_def ram_held_def ram_value_def ram_clear_def)
qed simp_all

text \<open>
  C32: After a store that did not raise, whatever else is then done to the RAM tier short of storing
  that key again, a read of the key hands out the value of that store or nothing: eviction,
  refusal, memory pressure, reads and the stores of other keys never bring back an older value or
  another key's.\<close>

theorem ram_serves_last_store:
  assumes "snd (ram_store_op i key v r)" and "\<forall>p \<in> set ps. \<not> stores_to key p"
    and "snd (ram_read_op j key (fold (run_op ram_store_op ram_read_op ram_delete_op ram_clear_op) ps (fst (ram_store_op i key v r)))) = Some u"
  shows "u = v"
  by (rule ram_tier.last_store_served [OF TrueI assms])

definition sample_call :: ram_call where
  "sample_call = \<lparr>rc_env = sample_env, rc_look = sample_look, rc_meta = Some sample_meta, rc_dict = 0,
     rc_reading = \<lparr>rd_still = True, rd_adopts = False, rd_loads = True, rd_seconds = 1, rd_again = None, rd_servable = True,
       rd_writes_file = False, rd_raises = False\<rparr>\<rparr>"

theorem ram_serves_last_store_witness:
  "snd (ram_read_op sample_call ''a'' (fold (run_op ram_store_op ram_read_op ram_delete_op ram_clear_op) [DeleteOp sample_call ''b''] (fst (ram_store_op sample_call ''a'' 1 empty_ram)))) = Some (1 :: nat)"
proof -
  have kept: "ram_set sample_env sample_look ''a'' 1 (Some sample_meta) 0 empty_ram =
      (sample_ram, fst (snd (ram_set sample_env sample_look ''a'' 1 (Some sample_meta) 0 empty_ram)), RamKept)"
    by (simp add: sample_ram_simps)
  then obtain m where "ram_set sample_env sample_look ''a'' 1 (Some sample_meta) 0 empty_ram = (sample_ram, m, RamKept)" by blast
  then have st: "ram_store_op sample_call ''a'' 1 empty_ram = (sample_ram, True)"
    unfolding ram_store_op_def by (simp add: sample_call_def)
  have "map_option re_form (map_of (ram_store (ram_delete ''b'' sample_ram)) ''a'') = Some (Copied 1)"
    by (simp add: ram_delete_def map_of_delete) (simp add: sample_ram_simps)
  then have "\<exists>u. snd (ram_read_op sample_call ''a'' (ram_delete ''b'' sample_ram)) = Some u"
    by (auto simp: ram_read_op_def ram_get_def get_copy_def sample_call_def Let_def)
  moreover have "u = 1" if "snd (ram_read_op sample_call ''a'' (ram_delete ''b'' sample_ram)) = Some u" for u
    by (rule ram_serves_last_store [where i = sample_call and key = "''a''" and v = 1 and r = empty_ram and ps = "[DeleteOp sample_call ''b'']" and j = sample_call])
       (use that in \<open>simp_all add: st [simplified] stores_to_def ram_delete_op_def\<close>)
  ultimately show ?thesis using st by (auto simp: ram_delete_op_def)
qed

end
