(* ===== verification/Write_Worker.thy ===== *)
theory Write_Worker
  imports Pending_Writes
begin

text \<open>
  A backend and the worker of its write queue, seen from the thread that uses the backend: before each
  operation the worker has run some of the queued writes, whole ones, and where an operation waits the
  worker goes on until it may return. \<open>queue_inv\<close> is what holds of the queue between the worker's rounds.

  The locale \<open>queue_worker\<close> is what the waits of \<open>PendingWrites\<close> promise a backend whose rounds keep its own
  invariant \<open>good\<close> and hand out nothing new (\<open>keeps\<close>).
\<close>

subsection \<open>Waiting\<close>

text \<open>As many rounds as it takes until \<open>waited\<close> holds, at most \<open>k\<close>; the queue's length is enough (\<open>block_ok\<close>).\<close>

primrec settle_by :: "nat \<Rightarrow> ('s \<Rightarrow> 'j writes) \<Rightarrow> ('s \<Rightarrow> 's) \<Rightarrow> ('j writes \<Rightarrow> bool) \<Rightarrow> 's \<Rightarrow> 's" where
  "settle_by 0 q_of turn waited s = s"
| "settle_by (Suc k) q_of turn waited s = (if waited (q_of s) then s else settle_by k q_of turn waited (turn s))"

definition block_by :: "('s \<Rightarrow> 'j writes) \<Rightarrow> ('s \<Rightarrow> 's) \<Rightarrow> ('j writes \<Rightarrow> bool) \<Rightarrow> 's \<Rightarrow> 's" where
  "block_by q_of turn waited s = settle_by (length (pw_queue (q_of s))) q_of turn waited s"

definition wait_by :: "('s \<Rightarrow> 'j writes) \<Rightarrow> ('j writes \<Rightarrow> 's \<Rightarrow> 's) \<Rightarrow> ('s \<Rightarrow> 's) \<Rightarrow> string \<Rightarrow> 's \<Rightarrow> 's" where
  "wait_by q_of put_q turn key s = (let s = block_by q_of turn (can_wait False key) s in put_q (fst (wait_key False key (q_of s))) s)"

definition wait_all_by :: "('s \<Rightarrow> 'j writes) \<Rightarrow> ('s \<Rightarrow> 's) \<Rightarrow> 's \<Rightarrow> 's" where
  "wait_all_by q_of turn s = block_by q_of turn (wait_all_done False) s"

definition drain_by :: "('s \<Rightarrow> 'j writes) \<Rightarrow> ('j writes \<Rightarrow> 's \<Rightarrow> 's) \<Rightarrow> ('s \<Rightarrow> 's) \<Rightarrow> string \<Rightarrow> 's \<Rightarrow> 's" where
  "drain_by q_of put_q turn key s = (case drain False key (q_of s) of
       (q, None) \<Rightarrow> put_q q s
     | (q, Some f) \<Rightarrow> block_by q_of turn (\<lambda>q. fdone q f) (put_q q s))"

text \<open>\<open>submit_sized\<close>: a copy waits for room first, then for the key's previous write; in a multiprocessing
  child the write then runs here. \<open>run\<close> is the write, with its outcome and the seconds it took.\<close>

definition submit_by ::
  "('s \<Rightarrow> 'j writes) \<Rightarrow> ('j writes \<Rightarrow> 's \<Rightarrow> 's) \<Rightarrow> ('s \<Rightarrow> 's) \<Rightarrow> ('s \<Rightarrow> 's \<times> outcome \<times> real) \<Rightarrow> bool \<Rightarrow>
   string \<Rightarrow> nat \<Rightarrow> bool \<Rightarrow> 'j \<Rightarrow> 's \<Rightarrow> 's \<times> (submit_error + nat)" where
  "submit_by q_of put_q turn run child key nbytes copied j s = (
     let s = (if copied then block_by q_of turn (can_make_room False nbytes) s else s);
         s = block_by q_of turn (can_submit key) s;
         t = \<lparr>wt_key = key, wt_value = j, wt_bytes = Some nbytes\<rparr> in
     if child \<and> \<not> pw_shutdown (q_of s) then
       (case run s of (s, how, took) \<Rightarrow>
          (case run_inline t how (learn_cost took t (q_of s)) of
             Inl e \<Rightarrow> (s, Inl e) | Inr (q, f) \<Rightarrow> (put_q q s, Inr f)))
     else (case submit_sized key nbytes copied j (q_of s) of
             Inl e \<Rightarrow> (s, Inl e) | Inr (q, f) \<Rightarrow> (put_q q s, Inr f)))"

subsection \<open>The queue between two rounds\<close>

text \<open>Between two rounds no write runs; a queued write is the pending one of its key, and an
  unfinished pending one is queued. \<open>x\<close> is the write \<open>drain\<close> has forgotten and waits for.\<close>

definition queue_inv :: "(string \<times> nat) option \<Rightarrow> 'v writes \<Rightarrow> bool" where
  "queue_inv x q = (pw_running q = None \<and> distinct (map fst (pw_queue q)) \<and>
     (\<forall>(f, t) \<in> set (pw_queue q). f < pw_next q \<and> \<not> fdone q f \<and> (map_of (pw_pending q) (wt_key t) = Some f \<or> x = Some (wt_key t, f))) \<and>
     (\<forall>key f. map_of (pw_pending q) key = Some f \<or> x = Some (key, f) \<longrightarrow> fdone q f \<or> f \<in> fst ` set (pw_queue q)) \<and>
     (\<forall>f. fdone q f \<longrightarrow> f < pw_next q) \<and> (\<forall>key f. x = Some (key, f) \<longrightarrow> map_of (pw_pending q) key = None))"

lemma queue_invI:
  assumes "pw_running q = None" and "distinct (map fst (pw_queue q))"
    and "\<And>f t. (f, t) \<in> set (pw_queue q) \<Longrightarrow> f < pw_next q \<and> \<not> fdone q f \<and> (map_of (pw_pending q) (wt_key t) = Some f \<or> x = Some (wt_key t, f))"
    and "\<And>key f. map_of (pw_pending q) key = Some f \<or> x = Some (key, f) \<Longrightarrow> fdone q f \<or> f \<in> fst ` set (pw_queue q)"
    and "\<And>f. fdone q f \<Longrightarrow> f < pw_next q" and "\<And>key f. x = Some (key, f) \<Longrightarrow> map_of (pw_pending q) key = None"
  shows "queue_inv x q"
  unfolding queue_inv_def using assms by (auto simp: split_def)

lemma queue_invD:
  assumes "queue_inv x q"
  shows "pw_running q = None" and "distinct (map fst (pw_queue q))"
    and "(f, t) \<in> set (pw_queue q) \<Longrightarrow> f < pw_next q \<and> \<not> fdone q f \<and> (map_of (pw_pending q) (wt_key t) = Some f \<or> x = Some (wt_key t, f))"
    and "map_of (pw_pending q) key = Some f \<or> x = Some (key, f) \<Longrightarrow> fdone q f \<or> f \<in> fst ` set (pw_queue q)"
    and "fdone q f \<Longrightarrow> f < pw_next q" and "x = Some (key, f) \<Longrightarrow> map_of (pw_pending q) key = None"
  using assms unfolding queue_inv_def by auto

lemma queue_inv_init: "queue_inv None pw_init"
  by (simp add: queue_inv_def pw_init_def fdone_def)

text \<open>One round: the oldest queued write gets its outcome.\<close>

lemma queue_inv_round:
  assumes "queue_inv x q" and "pw_queue q = (f, t) # rest" and "q' = finish_task took how (start_task now q)"
  shows "queue_inv x q'" and "pw_queue q' = rest"
proof -
  define q1 where "q1 = start_task now q"
  note st = start_task_eq [OF queue_invD(1) [OF assms(1)] assms(2) q1_def]
  have q': "q' = finish_task took how q1" using assms(3) q1_def by simp
  note fin = finish_task_eq [OF st(1) q']
  show rest: "pw_queue q' = rest" using fin(2) st(2) by simp
  have fd: "fdone q' g \<longleftrightarrow> g = f \<or> fdone q g" for g by (simp add: fdone_def fin(4) st(4))
  have pend: "map_of (pw_pending q') k = (if how = Wrote \<and> map_of (pw_pending q) (wt_key t) = Some f \<and> k = wt_key t then None else map_of (pw_pending q) k)" for k
    by (simp add: fin(7) st(7) map_of_delete)
  have f: "f \<notin> fst ` set rest" using queue_invD(2) [OF assms(1)] assms(2) by simp
  show "queue_inv x q'"
  proof (rule queue_invI)
    fix g u assume g: "(g, u) \<in> set (pw_queue q')"
    then have in_q: "(g, u) \<in> set (pw_queue q)" and ne: "g \<noteq> f" using rest assms(2) f by force+
    show "g < pw_next q' \<and> \<not> fdone q' g \<and> (map_of (pw_pending q') (wt_key u) = Some g \<or> x = Some (wt_key u, g))"
      using queue_invD(3) [OF assms(1) in_q] ne fin(3) st(3) fd pend by auto
  next
    fix key g assume "map_of (pw_pending q') key = Some g \<or> x = Some (key, g)"
    then have "map_of (pw_pending q) key = Some g \<or> x = Some (key, g)" using pend by (auto split: if_splits)
    from queue_invD(4) [OF assms(1) this] show "fdone q' g \<or> g \<in> fst ` set (pw_queue q')"
      using fd rest assms(2) by auto
  next
    fix g assume "fdone q' g"
    then show "g < pw_next q'"
      using fd queue_invD(5) [OF assms(1), of g] queue_invD(3) [OF assms(1), of f t] assms(2) fin(3) st(3) by auto
  qed (use fin(1) rest pend queue_invD(2,6) [OF assms(1)] assms(2) in simp_all)
qed

text \<open>A write submitted after the key's last one has finished.\<close>

lemma not_queued:
  assumes "queue_inv None q" and "can_submit key q \<or> pw_queue q = []" and "(f, t) \<in> set (pw_queue q)"
  shows "wt_key t \<noteq> key"
  using queue_invD(3) [OF assms(1,3)] assms(2,3) by (auto simp: can_submit_def)

lemma queue_inv_submit:
  assumes "queue_inv None q" and "can_submit key q \<or> pw_queue q = []" and "submit_sized key nbytes copied v q = Inr (q', f)"
  shows "queue_inv None q'" and "pw_queue q' = pw_queue q @ [(f, \<lparr>wt_key = key, wt_value = v, wt_bytes = Some nbytes\<rparr>)]"
proof -
  obtain q1 where q1: "submit \<lparr>wt_key = key, wt_value = v, wt_bytes = Some nbytes\<rparr> q = Inr (q1, f)"
    and q': "q' = (if fdone q1 f then q1 else q1\<lparr>pw_sizes := AList.update f (nbytes, copied) (pw_sizes q1)\<rparr>)"
    using submit_sized_eq [OF assms(3)] by blast
  note eq = submit_eq [OF q1]
  have fields: "pw_running q' = pw_running q" "pw_queue q' = pw_queue q @ [(f, \<lparr>wt_key = key, wt_value = v, wt_bytes = Some nbytes\<rparr>)]"
    "pw_next q' = Suc f" "f = pw_next q" "pw_pending q' = AList.update key f (pw_pending q)" "pw_outcome q' = pw_outcome q"
    using eq q' by (simp_all split: if_splits)
  then show "pw_queue q' = pw_queue q @ [(f, \<lparr>wt_key = key, wt_value = v, wt_bytes = Some nbytes\<rparr>)]" by simp
  have fd: "fdone q' g \<longleftrightarrow> fdone q g" for g by (simp add: fdone_def fields(6))
  have new: "\<not> fdone q f" using queue_invD(5) [OF assms(1), of f] fields(4) by auto
  have "f \<notin> fst ` set (pw_queue q)" using queue_invD(3) [OF assms(1)] fields(4) by force
  show "queue_inv None q'"
  proof (rule queue_invI)
    fix g u assume "(g, u) \<in> set (pw_queue q')"
    then consider "(g, u) \<in> set (pw_queue q)" | "g = f" "wt_key u = key" using fields(2) by auto
    then show "g < pw_next q' \<and> \<not> fdone q' g \<and> (map_of (pw_pending q') (wt_key u) = Some g \<or> None = Some (wt_key u, g))"
    proof cases
      case 1
      from queue_invD(3) [OF assms(1) 1] not_queued [OF assms(1,2) 1] show ?thesis
        by (simp add: fd fields(3,4,5) update_conv')
    qed (simp add: fd new fields(3,5) update_conv')
  next
    fix k g assume "map_of (pw_pending q') k = Some g \<or> None = Some (k, g)"
    then show "fdone q' g \<or> g \<in> fst ` set (pw_queue q')"
      using queue_invD(4) [OF assms(1), of k g] fields(2,5) fd by (auto simp: update_conv' split: if_splits)
  next
    show "distinct (map fst (pw_queue q'))" using queue_invD(2) [OF assms(1)] fields(2) \<open>f \<notin> fst ` set (pw_queue q)\<close> by simp
  qed (use queue_invD(1,5) [OF assms(1)] fields fd in \<open>auto simp: less_SucI\<close>)
qed

lemma queue_inv_inline:
  assumes "queue_inv None q" and "can_submit (wt_key t) q \<or> pw_queue q = []"
    and "run_inline t how (learn_cost took t q) = Inr (q', f)"
  shows "queue_inv None q'" and "pw_queue q' = pw_queue q"
proof -
  have fields: "pw_running q' = pw_running q" "pw_queue q' = pw_queue q" "f = pw_next q" "pw_next q' = Suc f" "pw_outcome q' = (pw_outcome q)(f \<mapsto> how)"
    "pw_pending q' = (if how = Wrote then pw_pending q else AList.update (wt_key t) f (pw_pending q))"
    using assms(3) by (cases how; auto simp: run_inline_def learn_cost_keeps Let_def split: if_splits)+
  then show "pw_queue q' = pw_queue q" by simp
  have fd: "fdone q' g \<longleftrightarrow> g = f \<or> fdone q g" for g by (simp add: fdone_def fields(5))
  show "queue_inv None q'"
  proof (rule queue_invI)
    fix g u assume "(g, u) \<in> set (pw_queue q')"
    then have g: "(g, u) \<in> set (pw_queue q)" using fields(2) by simp
    from queue_invD(3) [OF assms(1) g] not_queued [OF assms(1,2) g]
    show "g < pw_next q' \<and> \<not> fdone q' g \<and> (map_of (pw_pending q') (wt_key u) = Some g \<or> None = Some (wt_key u, g))"
      by (simp add: fd fields(3,4,6) update_conv')
  next
    fix k g assume "map_of (pw_pending q') k = Some g \<or> None = Some (k, g)"
    then have "map_of (pw_pending q) k = Some g \<or> g = f" using fields(6) by (auto simp: update_conv' split: if_splits)
    then show "fdone q' g \<or> g \<in> fst ` set (pw_queue q')"
      using queue_invD(4) [OF assms(1), of k g] fields(2) fd by auto
  qed (use queue_invD(1,2,5) [OF assms(1)] fields fd in \<open>auto simp: less_SucI\<close>)
qed

lemma queue_inv_forget:
  assumes "queue_inv None q" and "\<And>t f. (f, t) \<in> set (pw_queue q) \<Longrightarrow> wt_key t \<noteq> key"
  shows "queue_inv None (q\<lparr>pw_pending := AList.delete key (pw_pending q)\<rparr>)"
proof (rule queue_invI)
  fix f t assume q: "(f, t) \<in> set (pw_queue (q\<lparr>pw_pending := AList.delete key (pw_pending q)\<rparr>))"
  then show "f < pw_next (q\<lparr>pw_pending := AList.delete key (pw_pending q)\<rparr>) \<and> \<not> fdone (q\<lparr>pw_pending := AList.delete key (pw_pending q)\<rparr>) f \<and>
      (map_of (pw_pending (q\<lparr>pw_pending := AList.delete key (pw_pending q)\<rparr>)) (wt_key t) = Some f \<or> None = Some (wt_key t, f))"
    using queue_invD(3) [OF assms(1), of f t] assms(2) [of f t] by (simp add: fdone_def map_of_delete)
qed (use queue_invD(1,2,4,5) [OF assms(1)] in \<open>auto simp: fdone_def map_of_delete split: if_splits\<close>)

lemma queue_inv_drain:
  assumes "queue_inv None q" and "map_of (pw_pending q) key = Some f"
  shows "queue_inv (Some (key, f)) (q\<lparr>pw_pending := AList.delete key (pw_pending q)\<rparr>)" (is "queue_inv _ ?q")
proof (rule queue_invI)
  fix g t assume "(g, t) \<in> set (pw_queue ?q)"
  then show "g < pw_next ?q \<and> \<not> fdone ?q g \<and> (map_of (pw_pending ?q) (wt_key t) = Some g \<or> Some (key, f) = Some (wt_key t, g))"
    using queue_invD(3) [OF assms(1), of g t] assms(2) by (auto simp: fdone_def map_of_delete)
qed (use queue_invD(1,2,4,5) [OF assms(1)] assms(2) in \<open>auto simp: fdone_def map_of_delete split: if_splits\<close>)

text \<open>No queued write is one of the key's.\<close>

definition not_in_queue :: "string \<Rightarrow> 'j writes \<Rightarrow> bool" where
  "not_in_queue key q = (\<forall>(f, t) \<in> set (pw_queue q). wt_key t \<noteq> key)"

subsection \<open>What the waits promise\<close>

locale queue_worker =
  fixes q_of :: "'s \<Rightarrow> 'j writes" and put_q :: "'j writes \<Rightarrow> 's \<Rightarrow> 's" and turn :: "'i \<Rightarrow> 's \<Rightarrow> 's"
    and good :: "'s \<Rightarrow> bool" and keeps :: "'s \<Rightarrow> 's \<Rightarrow> bool"
  assumes put_q: "q_of (put_q q s) = q"
    and keeps_refl: "keeps s s" and keeps_trans: "keeps s s' \<Longrightarrow> keeps s' s'' \<Longrightarrow> keeps s s''"
    and put_q_good: "good s \<Longrightarrow> good (put_q q s)"
    and put_q_keeps: "good s \<Longrightarrow> pw_queue q = pw_queue (q_of s) \<Longrightarrow> keeps s (put_q q s)"
    and round_idle: "pw_queue (q_of s) = [] \<Longrightarrow> turn n s = s"
    and round_next: "pw_queue (q_of s) = (f, t) # rest \<Longrightarrow> queue_inv x (q_of s) \<Longrightarrow> good s \<Longrightarrow>
      \<exists>took how now. q_of (turn n s) = finish_task took how (start_task now (q_of s))"
    and round_good: "queue_inv x (q_of s) \<Longrightarrow> good s \<Longrightarrow> good (turn n s)"
    and round_keeps: "queue_inv x (q_of s) \<Longrightarrow> good s \<Longrightarrow> keeps s (turn n s)"
begin

lemma round_step:
  assumes "pw_queue (q_of s) = (f, t) # rest" and "queue_inv x (q_of s)" and "good s"
  shows "queue_inv x (q_of (turn n s))" and "pw_queue (q_of (turn n s)) = rest"
proof -
  obtain took how now where q: "q_of (turn n s) = finish_task took how (start_task now (q_of s))" using round_next [OF assms] by blast
  show "queue_inv x (q_of (turn n s))" "pw_queue (q_of (turn n s)) = rest" using queue_inv_round [OF assms(2,1) q] by blast+
qed

lemma round_ok: "queue_inv x (q_of s) \<Longrightarrow> good s \<Longrightarrow> queue_inv x (q_of (turn n s)) \<and> good (turn n s) \<and> keeps s (turn n s)"
  using round_step [of s _ _ _ x n] round_idle [of s n] round_good [of x s n] round_keeps [of x s n]
  by (cases "pw_queue (q_of s)") auto

lemma settle_ok:
  "queue_inv x (q_of s) \<Longrightarrow> good s \<Longrightarrow> queue_inv x (q_of (settle_by k q_of (turn n) P s)) \<and> good (settle_by k q_of (turn n) P s) \<and>
     keeps s (settle_by k q_of (turn n) P s)"
proof (induction k arbitrary: s)
  case (Suc k)
  from Suc.IH [of "turn n s"] round_ok [OF Suc.prems, of n] Suc.prems show ?case by (auto intro: keeps_trans keeps_refl)
qed (simp add: keeps_refl)

text \<open>As many rounds as there are queued writes are enough: what is waited for holds, or nothing is
  left to wait for.\<close>

lemma settle_enough:
  assumes "queue_inv x (q_of s)" and "good s" and "length (pw_queue (q_of s)) \<le> k"
  shows "P (q_of (settle_by k q_of (turn n) P s)) \<or> pw_queue (q_of (settle_by k q_of (turn n) P s)) = []"
  using assms
proof (induction k arbitrary: s)
  case (Suc k)
  show ?case
  proof (cases "pw_queue (q_of s)")
    case Nil
    then have "settle_by m q_of (turn n) P s = s" for m by (induction m) (simp_all add: round_idle)
    with Nil show ?thesis by (simp del: settle_by.simps)
  next
    case (Cons p rest)
    then obtain f t where "pw_queue (q_of s) = (f, t) # rest" by (cases p) simp
    from round_step [OF this Suc.prems(1,2), of n] Suc.IH [of "turn n s"] Suc.prems(3) round_ok [OF Suc.prems(1,2), of n] Cons
    show ?thesis by simp
  qed
qed simp

lemma block_ok:
  assumes "queue_inv x (q_of s)" and "good s"
  shows "queue_inv x (q_of (block_by q_of (turn n) P s))" and "good (block_by q_of (turn n) P s)" and "keeps s (block_by q_of (turn n) P s)"
    and "P (q_of (block_by q_of (turn n) P s)) \<or> pw_queue (q_of (block_by q_of (turn n) P s)) = []"
  using settle_ok [OF assms] settle_enough [OF assms le_refl] by (simp_all add: block_by_def)

lemma rounds_ok:
  assumes "queue_inv x (q_of s)" and "good s"
  shows "queue_inv x (q_of ((turn n ^^ m) s))" and "good ((turn n ^^ m) s)" and "keeps s ((turn n ^^ m) s)"
proof -
  have "queue_inv x (q_of ((turn n ^^ m) s)) \<and> good ((turn n ^^ m) s) \<and> keeps s ((turn n ^^ m) s)"
    by (induction m) (use assms round_ok keeps_refl in \<open>auto intro: keeps_trans\<close>)
  then show "queue_inv x (q_of ((turn n ^^ m) s))" "good ((turn n ^^ m) s)" "keeps s ((turn n ^^ m) s)" by blast+
qed

text \<open>After a wait no write of the key is queued.\<close>

lemma wait_ok:
  assumes "queue_inv None (q_of s)" and "good s"
  shows "queue_inv None (q_of (wait_by q_of put_q (turn n) key s))" and "good (wait_by q_of put_q (turn n) key s)"
    and "keeps s (wait_by q_of put_q (turn n) key s)" and "not_in_queue key (q_of (wait_by q_of put_q (turn n) key s))"
proof -
  define s1 where "s1 = block_by q_of (turn n) (can_wait False key) s"
  note b = block_ok [OF assms, where n = n and P = "can_wait False key", folded s1_def]
  have "can_submit key (q_of s1) \<or> pw_queue (q_of s1) = []"
    using b(4) by (simp add: can_wait_def current_worker_key_def)
  note none = not_queued [OF b(1) this]
  have q: "fst (wait_key False key (q_of s1)) \<in> {q_of s1, (q_of s1)\<lparr>pw_pending := AList.delete key (pw_pending (q_of s1))\<rparr>}"
    by (simp add: wait_key_def current_worker_key_def split: option.split outcome.split)
  have w: "wait_by q_of put_q (turn n) key s = put_q (fst (wait_key False key (q_of s1))) s1" by (simp add: wait_by_def s1_def Let_def)
  have same: "pw_queue (fst (wait_key False key (q_of s1))) = pw_queue (q_of s1)" using q by auto
  show "queue_inv None (q_of (wait_by q_of put_q (turn n) key s))" using q b(1) queue_inv_forget [OF b(1) none] unfolding w put_q by auto
  show "good (wait_by q_of put_q (turn n) key s)" unfolding w by (rule put_q_good [OF b(2)])
  show "keeps s (wait_by q_of put_q (turn n) key s)" unfolding w by (rule keeps_trans [OF b(3) put_q_keeps [OF b(2) same]])
  show "not_in_queue key (q_of (wait_by q_of put_q (turn n) key s))" using none same unfolding w put_q by (auto simp: not_in_queue_def)
qed

lemma wait_all_ok:
  assumes "queue_inv None (q_of s)" and "good s"
  shows "queue_inv None (q_of (wait_all_by q_of (turn n) s))" and "good (wait_all_by q_of (turn n) s)" and "keeps s (wait_all_by q_of (turn n) s)"
    and "pw_queue (q_of (wait_all_by q_of (turn n) s)) = []"
proof -
  note b = block_ok [OF assms, where n = n and P = "wait_all_done False", folded wait_all_by_def]
  show "queue_inv None (q_of (wait_all_by q_of (turn n) s))" "good (wait_all_by q_of (turn n) s)" "keeps s (wait_all_by q_of (turn n) s)" by (fact b)+
  show "pw_queue (q_of (wait_all_by q_of (turn n) s)) = []"
  proof (rule ccontr)
    assume ne: "pw_queue (q_of (wait_all_by q_of (turn n) s)) \<noteq> []"
    then obtain f t where ft: "(f, t) \<in> set (pw_queue (q_of (wait_all_by q_of (turn n) s)))" by (metis list.set_intros(1) neq_Nil_conv surj_pair)
    from b(4) ne have "list_all (\<lambda>(_, f). fdone (q_of (wait_all_by q_of (turn n) s)) f) (pw_pending (q_of (wait_all_by q_of (turn n) s)))"
      by (simp add: wait_all_done_def current_worker_key_def)
    then show False using queue_invD(3) [OF b(1) ft] by (auto simp: list_all_iff dest!: map_of_SomeD)
  qed
qed

lemma drain_ok:
  assumes "queue_inv None (q_of s)" and "good s"
  shows "queue_inv None (q_of (drain_by q_of put_q (turn n) key s))" and "good (drain_by q_of put_q (turn n) key s)"
    and "keeps s (drain_by q_of put_q (turn n) key s)" and "not_in_queue key (q_of (drain_by q_of put_q (turn n) key s))"
proof -
  let ?q = "(q_of s)\<lparr>pw_pending := AList.delete key (pw_pending (q_of s))\<rparr>" and ?d = "drain_by q_of put_q (turn n) key s"
  have dr: "drain False key (q_of s) = (?q, map_of (pw_pending (q_of s)) key)" by (simp add: drain_def current_worker_key_def)
  have put: "good (put_q ?q s)" "keeps s (put_q ?q s)" using put_q_good [OF assms(2)] put_q_keeps [OF assms(2), of ?q] by simp_all
  have "queue_inv None (q_of ?d) \<and> good ?d \<and> keeps s ?d \<and> not_in_queue key (q_of ?d)"
  proof (cases "map_of (pw_pending (q_of s)) key")
    case None
    then have none: "wt_key t \<noteq> key" if "(f, t) \<in> set (pw_queue (q_of s))" for f t using queue_invD(3) [OF assms(1) that] by auto
    have "?d = put_q ?q s" using dr None by (simp add: drain_by_def)
    then show ?thesis using queue_inv_forget [OF assms(1), of key] none put by (auto simp: not_in_queue_def put_q)
  next
    case (Some f)
    define s1 where "s1 = block_by q_of (turn n) (\<lambda>q. fdone q f) (put_q ?q s)"
    note b = block_ok [OF _ put(1), where x = "Some (key, f)" and n = n and P = "\<lambda>q. fdone q f", folded s1_def, unfolded put_q, OF queue_inv_drain [OF assms(1) Some]]
    have "fdone (q_of s1) f" using b(4) queue_invD(4) [OF b(1), of key f] by auto
    then have queued: "map_of (pw_pending (q_of s1)) (wt_key t) = Some g" if "(g, t) \<in> set (pw_queue (q_of s1))" for g t
      using queue_invD(3) [OF b(1) that] by auto
    have inv1: "queue_inv None (q_of s1)"
    proof (rule queue_invI)
      fix g t assume gt: "(g, t) \<in> set (pw_queue (q_of s1))"
      from queue_invD(3) [OF b(1) gt] queued [OF gt]
      show "g < pw_next (q_of s1) \<and> \<not> fdone (q_of s1) g \<and> (map_of (pw_pending (q_of s1)) (wt_key t) = Some g \<or> None = Some (wt_key t, g))" by simp
    qed (use queue_invD(1,2,4,5) [OF b(1)] in auto)
    have "?d = s1" using dr Some by (simp add: drain_by_def s1_def)
    moreover have "not_in_queue key (q_of s1)"
      using queued queue_invD(6) [OF b(1), of key f] by (auto simp: not_in_queue_def)
    ultimately show ?thesis using inv1 b(2) keeps_trans [OF put(2) b(3)] by simp
  qed
  then show "queue_inv None (q_of ?d)" "good ?d" "keeps s ?d" "not_in_queue key (q_of ?d)" by blast+
qed

text \<open>A submission: the worker went on for a while, and then the write is refused, has run, or is queued.\<close>

lemma submit_cases:
  assumes "queue_inv None (q_of s)" and "good s" and "submit_by q_of put_q (turn n) run child key nbytes copied j s = (s', r)"
    and "\<And>s s' how took. run s = (s', how, took) \<Longrightarrow> q_of s' = q_of s"
  obtains s2 where "queue_inv None (q_of s2)" and "good s2" and "keeps s s2" and "s' = s2"
  | s2 s3 how took q where "queue_inv None (q_of s2)" and "good s2" and "keeps s s2" and "child" and "run s2 = (s3, how, took)"
      and "queue_inv None q" and "pw_queue q = pw_queue (q_of s2)" and "s' = put_q q s3"
  | s2 q f where "queue_inv None (q_of s2)" and "good s2" and "keeps s s2" and "queue_inv None q"
      and "pw_queue q = pw_queue (q_of s2) @ [(f, \<lparr>wt_key = key, wt_value = j, wt_bytes = Some nbytes\<rparr>)]" and "s' = put_q q s2"
proof -
  define s1 where "s1 = (if copied then block_by q_of (turn n) (can_make_room False nbytes) s else s)"
  define s2 where "s2 = block_by q_of (turn n) (can_submit key) s1"
  let ?t = "\<lparr>wt_key = key, wt_value = j, wt_bytes = Some nbytes\<rparr>"
  have s1: "queue_inv None (q_of s1)" "good s1" "keeps s s1"
    using block_ok(1-3) [OF assms(1,2), where n = n and P = "can_make_room False nbytes"] assms(1,2) keeps_refl by (simp_all add: s1_def)
  note b = block_ok [OF s1(1,2), where n = n and P = "can_submit key", folded s2_def]
  have s2: "keeps s s2" by (rule keeps_trans [OF s1(3) b(3)])
  show thesis
  proof (cases "child \<and> \<not> pw_shutdown (q_of s2)")
    case True
    obtain s3 how took where run: "run s2 = (s3, how, took)" by (metis surj_pair)
    have q3: "q_of s3 = q_of s2" by (rule assms(4) [OF run])
    have "pw_shutdown (learn_cost took ?t (q_of s2)) = pw_shutdown (q_of s2)" by (simp add: learn_cost_def)
    then obtain q f where q: "run_inline ?t how (learn_cost took ?t (q_of s2)) = Inr (q, f)"
      using True by (auto simp: run_inline_def Let_def)
    have "s' = put_q q s3"
      using assms(3) True run q q3 by (simp add: submit_by_def Let_def flip: s1_def s2_def)
    then show thesis
      using that(2) [OF b(1,2) s2 _ run _ _ \<open>s' = put_q q s3\<close>] queue_inv_inline [OF b(1) _ q] b(4) True by simp
  next
    case False
    show thesis
    proof (cases "submit_sized key nbytes copied j (q_of s2)")
      case (Inl e)
      then have "s' = s2" using assms(3) False by (auto simp: submit_by_def Let_def simp flip: s1_def s2_def)
      then show thesis using that(1) [OF b(1,2) s2] by simp
    next
      case (Inr x)
      then obtain q f where q: "submit_sized key nbytes copied j (q_of s2) = Inr (q, f)" by (cases x) simp
      have "s' = put_q q s2" using assms(3) False q by (auto simp: submit_by_def Let_def simp flip: s1_def s2_def)
      then show thesis using that(3) [OF b(1,2) s2 queue_inv_submit [OF b(1) b(4) q]] by simp
    qed
  qed
qed

end

end
