(* ===== verification/Sqlite_Backend.thy ===== *)
theory Sqlite_Backend
  imports Write_Worker Entry_Meta
begin

text \<open>
  The SQLite tier (class \<open>SQLiteBackend\<close> of \<open>src/cash/backends/sqlite_backend.py\<close>): one table
  of entries in a database file, written by the background worker of \<open>Pending_Writes\<close>.

  The table is an association list in \<open>rowid\<close> order. A row keeps the value itself in place of
  its pickle (\<open>row_data\<close>); whether the bytes of a key unpickle, what a statement of the database
  raises and how far the worker has come are arguments (\<open>sql_env\<close>, \<open>work_env\<close>). One thread
  of one process uses the backend; the worker runs the queued writes in between, one whole write
  (under the backend's lock) at a time.
\<close>

subsection \<open>The table\<close>

record 'v sql_row =
  row_metadata :: entry_metadata
  row_size_bytes :: bytes_t
  row_created_at :: "seconds option"
  row_last_access :: seconds
  row_access_count :: int
  row_ttl :: pyval
  row_data :: 'v

type_synonym 'v sql_table = "(string \<times> 'v sql_row) list"

text \<open>What a queued \<open>_do_set_sync\<close> was given, beside the key.\<close>

record 'v sql_job =
  job_value :: 'v
  job_metadata :: entry_metadata
  job_data_size :: bytes_t
  job_created_at :: "seconds option"
  job_ttl :: pyval

datatype connection = NotOpened | Opened | Unusable | Closed

record 'v sqlite =
  sq_rows :: "'v sql_table"
  sq_writes :: "'v sql_job writes"
  sq_connection :: connection
  sq_default_ttl :: "pyfloat option"
  sq_max_size_bytes :: "bytes_t option"

definition sql_init :: "pyfloat option \<Rightarrow> bytes_t option \<Rightarrow> 'v sql_table \<Rightarrow> 'v sqlite" where
  "sql_init ttl cap on_disk = \<lparr>sq_rows = on_disk, sq_writes = pw_init, sq_connection = NotOpened,
     sq_default_ttl = ttl, sq_max_size_bytes = cap\<rparr>"

definition SQLITE_LABEL :: string where "SQLITE_LABEL = ''SQLITE''"
definition SQLITE_HINT :: bytes_t where "SQLITE_HINT = 100 * 1024 * 1024"
definition SCHEMA_VERSION :: int where "SCHEMA_VERSION = 2"

text \<open>A statement that changes the table and its commit. A commit that fails leaves the change in
  the connection's open transaction, where the later statements of this process see it.\<close>

datatype fault = NoFault | ExecuteFails string | CommitFails string

definition sql_write :: "fault \<Rightarrow> ('v sql_table \<Rightarrow> 'v sql_table) \<Rightarrow> 'v sqlite \<Rightarrow> 'v sqlite \<times> string option" where
  "sql_write flt change s = (case flt of
       NoFault \<Rightarrow> (s\<lparr>sq_rows := change (sq_rows s)\<rparr>, None)
     | ExecuteFails e \<Rightarrow> (s, Some e)
     | CommitFails e \<Rightarrow> (s\<lparr>sq_rows := change (sq_rows s)\<rparr>, Some e))"

definition drop_keys :: "string list \<Rightarrow> 'v sql_table \<Rightarrow> 'v sql_table" where
  "drop_keys gone = filter (\<lambda>(key, _). key \<notin> set gone)"

text \<open>What the worker meets in one write.\<close>

record work_env =
  wk_now :: seconds
  wk_took :: real
  wk_fault :: fault
  wk_evict :: "(nat \<times> string) option"  \<comment> \<open>the eviction raises after so many deletes\<close>

record sql_env =
  se_now :: seconds
  se_opens :: bool
  se_user_version :: int
  se_select :: "string option"
  se_fault :: fault
  se_deleted :: nat  \<comment> \<open>the deletes of a cleanup that went through before one failed\<close>
  se_loads_metadata :: "string \<Rightarrow> bool"
  se_restores :: "string \<Rightarrow> bool"
  se_serialized :: "string + nat"
  se_ttl_given :: bool  \<comment> \<open>the metadata has a ttl field, if only \<open>None\<close>\<close>
  se_child :: bool  \<comment> \<open>\<open>in_multiprocessing_child()\<close>\<close>
  se_rounds :: nat
  se_work :: "nat \<Rightarrow> work_env"

subsection \<open>Opening\<close>

definition create_tables :: "int \<Rightarrow> 'v sql_table \<Rightarrow> 'v sql_table" where
  "create_tables stored rows = (if stored \<noteq> SCHEMA_VERSION then [] else rows)"

definition sql_open :: "sql_env \<Rightarrow> 'v sqlite \<Rightarrow> 'v sqlite" where
  "sql_open n s = (if sq_connection s \<noteq> NotOpened then s
     else if se_opens n then s\<lparr>sq_connection := Opened, sq_rows := create_tables (se_user_version n) (sq_rows s)\<rparr>
     else s\<lparr>sq_connection := Unusable\<rparr>)"

definition CLOSED_DATABASE :: string where "CLOSED_DATABASE = ''ProgrammingError''"

subsection \<open>The worker\<close>

fun lru_victims :: "real \<Rightarrow> bytes_t \<Rightarrow> (string \<times> bytes_t) list \<Rightarrow> string list" where
  "lru_victims target total_size [] = []"
| "lru_victims target total_size ((key, sz) # rest) =
     (if real_of_int total_size \<le> target then [] else key # lru_victims target (total_size - sz) rest)"

definition total_bytes :: "'v sql_table \<Rightarrow> bytes_t" where
  "total_bytes rows = sum_list (map (\<lambda>(_, r). row_size_bytes r) rows)"

definition sql_check_and_evict :: "(nat \<times> string) option \<Rightarrow> 'v sqlite \<Rightarrow> 'v sqlite \<times> string option" where
  "sql_check_and_evict flt s = (case sq_max_size_bytes s of
       None \<Rightarrow> (s, None)
     | Some cap \<Rightarrow>
         if total_bytes (sq_rows s) \<le> cap then (s, None) else
         let victims = lru_victims (real_of_int cap * (9 / 10)) (total_bytes (sq_rows s))
               (map (\<lambda>(key, r). (key, row_size_bytes r)) (sort_key (\<lambda>(_, r). row_last_access r) (sq_rows s)));
             gone = (case flt of None \<Rightarrow> victims | Some (m, _) \<Rightarrow> take m victims) in
         (s\<lparr>sq_rows := drop_keys gone (sq_rows s)\<rparr>, map_option snd flt))"

text \<open>\<open>INSERT OR REPLACE\<close> removes the key's row and adds a new one.\<close>

definition insert_row :: "seconds \<Rightarrow> string \<Rightarrow> 'v sql_job \<Rightarrow> 'v sql_table \<Rightarrow> 'v sql_table" where
  "insert_row now key j = dict_push key \<lparr>row_metadata = job_metadata j, row_size_bytes = job_data_size j,
     row_created_at = job_created_at j, row_last_access = now, row_access_count = 0, row_ttl = job_ttl j, row_data = job_value j\<rparr>"

definition do_set_sync :: "sql_env \<Rightarrow> work_env \<Rightarrow> string \<Rightarrow> 'v sql_job \<Rightarrow> 'v sqlite \<Rightarrow> 'v sqlite \<times> outcome" where
  "do_set_sync n w key j s = (
     let s = sql_open n s in
     case sq_connection s of
       Unusable \<Rightarrow> (s, Wrote)
     | Closed \<Rightarrow> (s, Raised CLOSED_DATABASE)
     | _ \<Rightarrow> (case sql_write (wk_fault w) (insert_row (wk_now w) key j) s of
           (s, Some e) \<Rightarrow> (s, Raised e)
         | (s, None) \<Rightarrow> (case sql_check_and_evict (wk_evict w) s of
               (s, Some e) \<Rightarrow> (s, Raised e)
             | (s, None) \<Rightarrow> (s, Wrote))))"

text \<open>The worker takes the oldest queued write and runs it to its end.\<close>

definition sql_round :: "sql_env \<Rightarrow> 'v sqlite \<Rightarrow> 'v sqlite" where
  "sql_round n s = (case pw_queue (sq_writes s) of
       [] \<Rightarrow> s
     | (f, t) # _ \<Rightarrow>
         let w = se_work n f;
             s = s\<lparr>sq_writes := start_task (wk_now w) (sq_writes s)\<rparr> in
         case do_set_sync n w (wt_key t) (wt_value t) s of
           (s, how) \<Rightarrow> s\<lparr>sq_writes := finish_task (wk_took w) how (sq_writes s)\<rparr>)"

text \<open>Blocking: the worker goes on until what is waited for holds.\<close>

definition put_writes :: "'v sql_job writes \<Rightarrow> 'v sqlite \<Rightarrow> 'v sqlite" where
  "put_writes q s = s\<lparr>sq_writes := q\<rparr>"

definition block :: "('v sql_job writes \<Rightarrow> bool) \<Rightarrow> sql_env \<Rightarrow> 'v sqlite \<Rightarrow> 'v sqlite" where
  "block waited n s = block_by sq_writes (sql_round n) waited s"

text \<open>What the worker did since the last operation: so many rounds.\<close>

definition meanwhile :: "sql_env \<Rightarrow> 'v sqlite \<Rightarrow> 'v sqlite" where
  "meanwhile n s = (sql_round n ^^ se_rounds n) s"

definition sql_wait :: "sql_env \<Rightarrow> string \<Rightarrow> 'v sqlite \<Rightarrow> 'v sqlite" where
  "sql_wait n key s = wait_by sq_writes put_writes (sql_round n) key s"

definition sql_wait_all :: "sql_env \<Rightarrow> 'v sqlite \<Rightarrow> 'v sqlite" where
  "sql_wait_all n s = wait_all_by sq_writes (sql_round n) s"

definition sql_drain :: "sql_env \<Rightarrow> string \<Rightarrow> 'v sqlite \<Rightarrow> 'v sqlite" where
  "sql_drain n key s = drain_by sq_writes put_writes (sql_round n) key s"

subsection \<open>Reading\<close>

definition drop_key :: "string \<Rightarrow> 'v sql_table \<Rightarrow> 'v sql_table" where
  "drop_key key = AList.delete key"

definition used_row :: "seconds \<Rightarrow> string \<Rightarrow> 'v sql_table \<Rightarrow> 'v sql_table" where
  "used_row now key = map (\<lambda>(k, r). (k, if k = key then r\<lparr>row_last_access := now, row_access_count := row_access_count r + 1\<rparr> else r))"

definition with_source :: "entry_metadata \<Rightarrow> entry_metadata" where
  "with_source m = (if m_source m = None then m\<lparr>m_source := Some SQLITE_LABEL\<rparr> else m)"

text \<open>Unrestorable or expired, so absent, and dropped.\<close>

definition row_gone :: "sql_env \<Rightarrow> string \<Rightarrow> 'v sqlite \<Rightarrow> 'v sql_row \<Rightarrow> bool" where
  "row_gone n key s r = (\<not> se_loads_metadata n key \<or> entry_expired (row_metadata r) (sq_default_ttl s) (se_now n) VNone \<or> \<not> se_restores n key)"

definition sql_get :: "sql_env \<Rightarrow> string \<Rightarrow> 'v sqlite \<Rightarrow> 'v sqlite \<times> (string + (entry_metadata \<times> 'v) option)" where
  "sql_get n key s = (
     let s = sql_open n (sql_wait n key s) in
     case sq_connection s of
       Unusable \<Rightarrow> (s, Inr None)
     | Closed \<Rightarrow> (s, Inl CLOSED_DATABASE)
     | _ \<Rightarrow> (case se_select n of
         Some e \<Rightarrow> (s, Inl e)
       | None \<Rightarrow> (case map_of (sq_rows s) key of
           None \<Rightarrow> (s, Inr None)
         | Some r \<Rightarrow>
             if row_gone n key s r then (case sql_write (se_fault n) (drop_key key) s of
                 (s, Some e) \<Rightarrow> (s, Inl e) | (s, None) \<Rightarrow> (s, Inr None))
             else (case sql_write (se_fault n) (used_row (se_now n) key) s of
                 (s, Some e) \<Rightarrow> (s, Inl e)
               | (s, None) \<Rightarrow> (s, Inr (Some (with_source ((row_metadata r)\<lparr>m_last_access := Some (se_now n),
                     m_access_count := Some (row_access_count r + 1)\<rparr>), row_data r)))))))"

definition sql_get_metadata :: "sql_env \<Rightarrow> string \<Rightarrow> 'v sqlite \<Rightarrow> 'v sqlite \<times> (string + entry_metadata option)" where
  "sql_get_metadata n key s = (
     let s = sql_open n (sql_wait n key s) in
     case sq_connection s of
       Unusable \<Rightarrow> (s, Inr None)
     | Closed \<Rightarrow> (s, Inl CLOSED_DATABASE)
     | _ \<Rightarrow> (case se_select n of
         Some e \<Rightarrow> (s, Inl e)
       | None \<Rightarrow> (s, Inr (case map_of (sq_rows s) key of
           None \<Rightarrow> None
         | Some r \<Rightarrow> if \<not> se_loads_metadata n key \<or> entry_expired (row_metadata r) (sq_default_ttl s) (se_now n) VNone then None
                     else Some (with_source (row_metadata r))))))"

subsection \<open>Storing\<close>

text \<open>The metadata as it is pickled, and the job.\<close>

definition stamped :: "sql_env \<Rightarrow> string \<Rightarrow> nat \<Rightarrow> entry_metadata option \<Rightarrow> 'v sqlite \<Rightarrow> entry_metadata" where
  "stamped n key nbytes metadata s = (
     let m = (init_metadata metadata key (se_now n))\<lparr>m_size := Some (int nbytes)\<rparr>;
         m = (if m_ttl m = VNone \<and> \<not> se_ttl_given n then m\<lparr>m_ttl := ttl_val (sq_default_ttl s)\<rparr> else m) in
     if m_storage m = None then m\<lparr>m_storage := Some [SQLITE_LABEL]\<rparr> else m)"

definition job_of :: "sql_env \<Rightarrow> string \<Rightarrow> 'v \<Rightarrow> nat \<Rightarrow> entry_metadata option \<Rightarrow> 'v sqlite \<Rightarrow> 'v sql_job" where
  "job_of n key v nbytes metadata s = (let m = stamped n key nbytes metadata s in
     \<lparr>job_value = v, job_metadata = m, job_data_size = int nbytes, job_created_at = m_created_at m, job_ttl = m_ttl m\<rparr>)"

definition sql_submit :: "sql_env \<Rightarrow> string \<Rightarrow> nat \<Rightarrow> 'v sql_job \<Rightarrow> 'v sqlite \<Rightarrow> 'v sqlite \<times> (submit_error + nat)" where
  "sql_submit n key nbytes j s = submit_by sq_writes put_writes (sql_round n)
     (\<lambda>s. let w = se_work n (pw_next (sq_writes s)) in case do_set_sync n w key j s of (s, how) \<Rightarrow> (s, how, wk_took w))
     (se_child n) key nbytes True j s"

definition SHUT_DOWN :: string where "SHUT_DOWN = ''RuntimeError''"

definition sql_set :: "sql_env \<Rightarrow> string \<Rightarrow> 'v \<Rightarrow> entry_metadata option \<Rightarrow> 'v sqlite \<Rightarrow> 'v sqlite \<times> string option" where
  "sql_set n key v metadata s = (
     let s = sql_open n s in
     if sq_connection s = Unusable then (s, None) else
     case se_serialized n of
       Inl e \<Rightarrow> (s, Some e)
     | Inr nbytes \<Rightarrow> (case sql_submit n key nbytes (job_of n key v nbytes metadata s) s of
           (s, Inl ShutDown) \<Rightarrow> (s, Some SHUT_DOWN) | (s, Inr _) \<Rightarrow> (s, None)))"

subsection \<open>Removing and listing\<close>

definition sql_delete :: "sql_env \<Rightarrow> string \<Rightarrow> 'v sqlite \<Rightarrow> 'v sqlite \<times> string option" where
  "sql_delete n key s = (
     let s = sql_open n (sql_drain n key s) in
     case sq_connection s of
       Unusable \<Rightarrow> (s, None) | Closed \<Rightarrow> (s, Some CLOSED_DATABASE)
     | _ \<Rightarrow> sql_write (se_fault n) (drop_key key) s)"

text \<open>The \<open>VACUUM\<close> after it changes no row, and its failure is passed over.\<close>

definition sql_clear :: "sql_env \<Rightarrow> 'v sqlite \<Rightarrow> 'v sqlite \<times> string option" where
  "sql_clear n s = (
     let s = sql_open n (sql_wait_all n s) in
     case sq_connection s of
       Unusable \<Rightarrow> (s, None) | Closed \<Rightarrow> (s, Some CLOSED_DATABASE)
     | _ \<Rightarrow> sql_write (se_fault n) (\<lambda>_. []) s)"

definition sql_list_entries :: "sql_env \<Rightarrow> 'v sqlite \<Rightarrow> 'v sqlite \<times> (string + entry_metadata list)" where
  "sql_list_entries n s = (
     let s = sql_open n (sql_wait_all n s) in
     (s, case sq_connection s of
           Unusable \<Rightarrow> Inr [] | Closed \<Rightarrow> Inl CLOSED_DATABASE
         | _ \<Rightarrow> (case se_select n of
             Some e \<Rightarrow> Inl e
           | None \<Rightarrow> Inr (map (\<lambda>(_, r). row_metadata r) (filter (\<lambda>(key, _). se_loads_metadata n key) (sq_rows s))))))"

definition sql_entry_count :: "sql_env \<Rightarrow> 'v sqlite \<Rightarrow> 'v sqlite \<times> (string + nat)" where
  "sql_entry_count n s = (
     let s = sql_open n (sql_wait_all n s) in
     (s, case sq_connection s of
           Unusable \<Rightarrow> Inr 0 | Closed \<Rightarrow> Inl CLOSED_DATABASE
         | _ \<Rightarrow> (case se_select n of Some e \<Rightarrow> Inl e | None \<Rightarrow> Inr (length (sq_rows s)))))"

text \<open>\<open>cleanup_expired\<close> does not wait for the queued writes.\<close>

definition sql_cleanup_expired :: "sql_env \<Rightarrow> (entry_metadata \<Rightarrow> bool) \<Rightarrow> 'v sqlite \<Rightarrow> 'v sqlite \<times> (string + nat)" where
  "sql_cleanup_expired n is_expired s = (
     let s = sql_open n s in
     case sq_connection s of
       Unusable \<Rightarrow> (s, Inr 0) | Closed \<Rightarrow> (s, Inl CLOSED_DATABASE)
     | _ \<Rightarrow> (case se_select n of
         Some e \<Rightarrow> (s, Inl e)
       | None \<Rightarrow>
           let gone = map fst (filter (\<lambda>(key, r). se_loads_metadata n key \<and>
                 (entry_expired (row_metadata r) (sq_default_ttl s) (se_now n) VNone \<or> is_expired (row_metadata r))) (sq_rows s)) in
           if gone = [] then (s, Inr 0) else
           (case se_fault n of
              ExecuteFails e \<Rightarrow> (s\<lparr>sq_rows := drop_keys (take (se_deleted n) gone) (sq_rows s)\<rparr>, Inl e)
            | CommitFails e \<Rightarrow> (s\<lparr>sq_rows := drop_keys gone (sq_rows s)\<rparr>, Inl e)
            | NoFault \<Rightarrow> (s\<lparr>sq_rows := drop_keys gone (sq_rows s)\<rparr>, Inr (length gone)))))"

definition sql_promotion_size_cap :: "'v sqlite \<Rightarrow> bytes_t" where
  "sql_promotion_size_cap s = (case sq_max_size_bytes s of None \<Rightarrow> SQLITE_HINT | Some own \<Rightarrow> min SQLITE_HINT own)"

text \<open>\<open>shutdown\<close>: no further writes, the queued ones run, the connection is closed.\<close>

definition sql_shutdown :: "sql_env \<Rightarrow> 'v sqlite \<Rightarrow> 'v sqlite" where
  "sql_shutdown n s = (
     let s = s\<lparr>sq_writes := shutdown (sq_writes s)\<rparr>;
         s = block (\<lambda>q. pw_queue q = []) n s in
     if sq_connection s = Opened then s\<lparr>sq_connection := Closed\<rparr> else s)"

end
