(* ===== verification/Sqlite_Laws.thy ===== *)
theory Sqlite_Laws
  imports Sqlite_Backend Cache_Tier
begin

text \<open>
  What the SQLite tier keeps true of its queue and its table, and the values a read of a key may
  hand out: the row's, and those of the writes still queued.
\<close>

subsection \<open>What a read may hand out\<close>

definition queued_values :: "'v sql_job writes \<Rightarrow> string \<Rightarrow> 'v set" where
  "queued_values q key = {job_value (wt_value t) | f t. (f, t) \<in> set (pw_queue q) \<and> wt_key t = key}"

definition row_values :: "'v sql_table \<Rightarrow> string \<Rightarrow> 'v set" where
  "row_values rows key = set_option (map_option row_data (map_of rows key))"

definition sql_held :: "'v sqlite \<Rightarrow> string \<Rightarrow> 'v set" where
  "sql_held s key = (if sq_connection s \<in> {Unusable, Closed} then {} else row_values (sq_rows s) key \<union> queued_values (sq_writes s) key)"

abbreviation sql_inv :: "'v sqlite \<Rightarrow> bool" where
  "sql_inv s \<equiv> queue_inv None (sq_writes s)"

text \<open>\<open>keeps s s'\<close>: nothing is handed out after that was not before.\<close>

definition keeps :: "'v sqlite \<Rightarrow> 'v sqlite \<Rightarrow> bool" where
  "keeps s s' = (\<forall>k. sql_held s' k \<subseteq> sql_held s k)"

lemma keeps_refl [simp]: "keeps s s"
  by (simp add: keeps_def)

lemma keeps_trans: "keeps s s' \<Longrightarrow> keeps s' s'' \<Longrightarrow> keeps s s''"
  by (auto simp: keeps_def)

lemma keepsI:
  assumes "\<And>k. row_values (sq_rows s') k \<subseteq> row_values (sq_rows s) k" and "\<And>k. queued_values (sq_writes s') k \<subseteq> queued_values (sq_writes s) k"
    and "sq_connection s \<in> {Unusable, Closed} \<longrightarrow> sq_connection s' \<in> {Unusable, Closed}"
  shows "keeps s s'"
  unfolding keeps_def sql_held_def using assms by (auto simp del: insert_iff)

lemma row_values_simps:
  "row_values [] k = {}"
  "row_values (drop_key key rows) k = (if k = key then {} else row_values rows k)"
  "row_values (used_row now key rows) k = row_values rows k"
  "row_values (insert_row now key j rows) k = (if k = key then {job_value j} else row_values rows k)"
  by (simp_all add: row_values_def drop_key_def map_of_delete insert_row_def map_of_push)
     (induction rows; auto simp: used_row_def)

lemma map_of_drop_keys: "map_of (drop_keys gone rows) k = (if k \<in> set gone then None else map_of rows k)"
  by (induction rows) (auto simp: drop_keys_def)

lemma row_values_drop_keys: "row_values (drop_keys gone rows) k \<subseteq> row_values rows k"
  by (simp add: row_values_def map_of_drop_keys)

lemma sql_write_fields:
  assumes "sql_write flt change s = (s', r)"
  shows "sq_writes s' = sq_writes s" and "sq_connection s' = sq_connection s"
    and "sq_rows s' = sq_rows s \<or> sq_rows s' = change (sq_rows s)" and "r = None \<Longrightarrow> sq_rows s' = change (sq_rows s)"
  using assms by (auto simp: sql_write_def split: fault.splits)

lemma sql_write_keeps:
  assumes "sql_write flt change s = (s', r)" and "\<And>k. row_values (change (sq_rows s)) k \<subseteq> row_values (sq_rows s) k"
  shows "keeps s s'"
proof (rule keepsI)
  show "row_values (sq_rows s') k \<subseteq> row_values (sq_rows s) k" for k
    using sql_write_fields(3) [OF assms(1)] assms(2) [of k] by auto
qed (use sql_write_fields [OF assms(1)] in auto)

lemma sql_open_fields: "sq_writes (sql_open n s) = sq_writes s" "sq_connection (sql_open n s) \<noteq> NotOpened"
  by (simp_all add: sql_open_def)

lemma sql_open_keeps: "keeps s (sql_open n s)"
  by (rule keepsI) (auto simp: sql_open_def create_tables_def row_values_simps)

lemma evict_keeps:
  assumes "sql_check_and_evict flt s = (s', r)"
  shows "keeps s s'" and "sq_writes s' = sq_writes s"
proof -
  have "\<exists>gone. s' = s\<lparr>sq_rows := drop_keys gone (sq_rows s)\<rparr> \<or> s' = s"
    using assms by (auto simp: sql_check_and_evict_def Let_def split: option.splits if_splits)
  then show "keeps s s'" "sq_writes s' = sq_writes s"
    by (auto intro!: keepsI simp: subsetD [OF row_values_drop_keys])
qed

text \<open>A write that runs changes its own key's row alone.\<close>

lemma do_set_sync_held:
  assumes "do_set_sync n w key j s = (s', how)"
  shows "sq_writes s' = sq_writes s" and "sql_held s' k \<subseteq> sql_held s k \<union> (if k = key \<and> sq_connection (sql_open n s) = Opened then {job_value j} else {})"
proof -
  define s1 where "s1 = sql_open n s"
  have s1: "sq_writes s1 = sq_writes s" "sq_connection s1 \<noteq> NotOpened" "sql_held s1 k \<subseteq> sql_held s k"
    using sql_open_fields [of n s] sql_open_keeps [of s n] by (simp_all add: s1_def keeps_def)
  have "sq_writes s' = sq_writes s \<and> sql_held s' k \<subseteq> sql_held s1 k \<union> (if k = key \<and> sq_connection s1 = Opened then {job_value j} else {})"
  proof (cases "sq_connection s1 = Opened")
    case False
    then have "s' = s1" using assms s1(2) by (cases "sq_connection s1") (auto simp: do_set_sync_def s1_def)
    then show ?thesis using s1(1) by simp
  next
    case True
    obtain s2 r where w: "sql_write (wk_fault w) (insert_row (wk_now w) key j) s1 = (s2, r)" by (metis surj_pair)
    note fields = sql_write_fields [OF w]
    have held2: "sql_held s2 k \<subseteq> sql_held s1 k \<union> (if k = key then {job_value j} else {})"
      using fields(1-3) True by (auto simp: sql_held_def row_values_simps)
    show ?thesis
    proof (cases r)
      case (Some e)
      then have "s' = s2" using assms True w by (simp add: do_set_sync_def flip: s1_def)
      then show ?thesis using held2 fields(1) s1(1) True by simp
    next
      case None
      obtain s3 r3 where e: "sql_check_and_evict (wk_evict w) s2 = (s3, r3)" by (metis surj_pair)
      have "s' = s3" using assms True w e None by (auto simp: do_set_sync_def split: option.splits simp flip: s1_def)
      moreover have "sql_held s3 k \<subseteq> sql_held s2 k" using evict_keeps(1) [OF e] by (simp add: keeps_def)
      ultimately show ?thesis using evict_keeps(2) [OF e] held2 fields(1) s1(1) True by auto
    qed
  qed
  with s1 show "sq_writes s' = sq_writes s" "sql_held s' k \<subseteq> sql_held s k \<union> (if k = key \<and> sq_connection (sql_open n s) = Opened then {job_value j} else {})"
    by (auto simp flip: s1_def)
qed

subsection \<open>The worker and the waits\<close>

lemma sql_round_step:
  assumes "pw_queue (sq_writes s) = (f, t) # rest" and "queue_inv x (sq_writes s)"
  shows "\<exists>took how now. sq_writes (sql_round n s) = finish_task took how (start_task now (sq_writes s))" and "keeps s (sql_round n s)"
proof -
  let ?w = "se_work n f"
  define s1 where "s1 = s\<lparr>sq_writes := start_task (wk_now ?w) (sq_writes s)\<rparr>"
  obtain s2 how where d: "do_set_sync n ?w (wt_key t) (wt_value t) s1 = (s2, how)" by (metis surj_pair)
  have r: "sql_round n s = s2\<lparr>sq_writes := finish_task (wk_took ?w) how (sq_writes s2)\<rparr>"
    using assms(1) d by (simp add: sql_round_def s1_def Let_def)
  have q: "sq_writes (sql_round n s) = finish_task (wk_took ?w) how (start_task (wk_now ?w) (sq_writes s))"
    using r do_set_sync_held(1) [OF d] by (simp add: s1_def)
  then show "\<exists>took how now. sq_writes (sql_round n s) = finish_task took how (start_task now (sq_writes s))" by blast
  have rest: "pw_queue (sq_writes (sql_round n s)) = rest" using queue_inv_round(2) [OF assms(2,1) q] .
  have start: "pw_queue (sq_writes s1) = rest" using start_task_eq(2) [OF queue_invD(1) [OF assms(2)] assms(1) refl] by (simp add: s1_def)
  show "keeps s (sql_round n s)"
    unfolding keeps_def
  proof
    fix k
    have "sql_held (sql_round n s) k = sql_held s2 k"
      using rest start do_set_sync_held(1) [OF d] by (simp add: r sql_held_def queued_values_def)
    moreover have "sql_held s1 k \<subseteq> sql_held s k"
      using assms(1) start by (auto simp: sql_held_def queued_values_def s1_def)
    moreover have "job_value (wt_value t) \<in> sql_held s (wt_key t)" if "sq_connection (sql_open n s1) = Opened"
      using that assms(1) by (auto simp: sql_held_def queued_values_def sql_open_def s1_def split: if_splits)
    ultimately show "sql_held (sql_round n s) k \<subseteq> sql_held s k"
      using do_set_sync_held(2) [OF d, of k] by (auto split: if_splits)
  qed
qed

lemma keeps_same: "sq_rows s' = sq_rows s \<Longrightarrow> sq_connection s' = sq_connection s \<Longrightarrow>
    pw_queue (sq_writes s') = pw_queue (sq_writes s) \<Longrightarrow> keeps s s'"
  by (intro keepsI) (simp_all add: queued_values_def)

interpretation sql_worker: queue_worker sq_writes put_writes sql_round "\<lambda>_. True" keeps
proof
  fix s s' s'' :: "'v sqlite" and q :: "'v sql_job writes" and n x f t rest
  show "sq_writes (put_writes q s) = q" by (simp add: put_writes_def)
  show "keeps s s" by simp
  show "keeps s s' \<Longrightarrow> keeps s' s'' \<Longrightarrow> keeps s s''" by (rule keeps_trans)
  show "pw_queue q = pw_queue (sq_writes s) \<Longrightarrow> keeps s (put_writes q s)" by (rule keeps_same) (simp_all add: put_writes_def)
  show "pw_queue (sq_writes s) = [] \<Longrightarrow> sql_round n s = s" by (simp add: sql_round_def)
  show "pw_queue (sq_writes s) = (f, t) # rest \<Longrightarrow> queue_inv x (sq_writes s) \<Longrightarrow>
      \<exists>took how now. sq_writes (sql_round n s) = finish_task took how (start_task now (sq_writes s))" by (rule sql_round_step(1))
  show "queue_inv x (sq_writes s) \<Longrightarrow> keeps s (sql_round n s)"
    using sql_round_step(2) [of s _ _ _ x n] by (cases "pw_queue (sq_writes s)") (auto simp: sql_round_def [of n s])
qed simp_all

lemma not_in_queue_values: "not_in_queue key q \<Longrightarrow> queued_values q key = {}"
  by (auto simp: not_in_queue_def queued_values_def)

lemma sql_block_ok:
  assumes "queue_inv x (sq_writes s)"
  shows "queue_inv x (sq_writes (block P n s))" and "keeps s (block P n s)"
    and "P (sq_writes (block P n s)) \<or> pw_queue (sq_writes (block P n s)) = []"
  using sql_worker.block_ok(1,3,4) [where n = n and P = P, OF assms TrueI] by (simp_all add: block_def)

lemma meanwhile_ok:
  assumes "sql_inv s" shows "sql_inv (meanwhile n s)" and "keeps s (meanwhile n s)"
  using sql_worker.rounds_ok [OF assms TrueI] by (simp_all add: meanwhile_def)

lemma sql_wait_ok:
  assumes "sql_inv s"
  shows "sql_inv (sql_wait n key s)" and "keeps s (sql_wait n key s)" and "queued_values (sq_writes (sql_wait n key s)) key = {}"
  using sql_worker.wait_ok(1,3,4) [where n = n and key = key, OF assms TrueI] by (simp_all add: sql_wait_def not_in_queue_values)

lemma sql_wait_all_ok:
  assumes "sql_inv s"
  shows "sql_inv (sql_wait_all n s)" and "keeps s (sql_wait_all n s)" and "pw_queue (sq_writes (sql_wait_all n s)) = []"
  using sql_worker.wait_all_ok(1,3,4) [where n = n, OF assms TrueI] by (simp_all add: sql_wait_all_def)

lemma sql_drain_ok:
  assumes "sql_inv s"
  shows "sql_inv (sql_drain n key s)" and "keeps s (sql_drain n key s)" and "queued_values (sq_writes (sql_drain n key s)) key = {}"
  using sql_worker.drain_ok(1,3,4) [where n = n and key = key, OF assms TrueI] by (simp_all add: sql_drain_def not_in_queue_values)

end
