(* ===== verification/Sqlite_Contract.thy ===== *)
theory Sqlite_Contract
  imports Sqlite_Laws "HOL-Library.Multiset"
begin

text \<open>
  The SQLite tier as a cache tier: every operation, with what the worker does before it and while
  it waits, keeps the contract of \<open>Cache_Tier\<close>; and the least recently used entries are the ones
  its byte cap takes.
\<close>

record sql_call =
  qc_env :: sql_env
  qc_meta :: "entry_metadata option"

definition sql_store_op :: "sql_call \<Rightarrow> string \<Rightarrow> 'v \<Rightarrow> 'v sqlite \<Rightarrow> 'v sqlite \<times> bool" where
  "sql_store_op i key v s = (case sql_set (qc_env i) key v (qc_meta i) (meanwhile (qc_env i) s) of (s, r) \<Rightarrow> (s, r = None))"

definition sql_read_op :: "sql_call \<Rightarrow> string \<Rightarrow> 'v sqlite \<Rightarrow> 'v sqlite \<times> 'v option" where
  "sql_read_op i key s = (case sql_get (qc_env i) key (meanwhile (qc_env i) s) of
       (s, Inr (Some (_, v))) \<Rightarrow> (s, Some v) | (s, _) \<Rightarrow> (s, None))"

definition sql_delete_op :: "sql_call \<Rightarrow> string \<Rightarrow> 'v sqlite \<Rightarrow> 'v sqlite \<times> bool" where
  "sql_delete_op i key s = (case sql_delete (qc_env i) key (meanwhile (qc_env i) s) of (s, r) \<Rightarrow> (s, r = None))"

definition sql_clear_op :: "sql_call \<Rightarrow> 'v sqlite \<Rightarrow> 'v sqlite \<times> bool" where
  "sql_clear_op i s = (case sql_clear (qc_env i) (meanwhile (qc_env i) s) of (s, r) \<Rightarrow> (s, r = None))"

subsection \<open>Each operation\<close>

lemma sql_open_cases:
  obtains "sq_connection (sql_open n s) = Unusable" | "sq_connection (sql_open n s) = Closed" | "sq_connection (sql_open n s) = Opened"
  using sql_open_fields(2) [of n s] by (cases "sq_connection (sql_open n s)") auto

lemma sql_get_ok:
  assumes "sql_inv s" and "sql_get n key s = (s', r)"
  shows "sql_inv s'" and "keeps s s'" and "r = Inr (Some (m, v)) \<Longrightarrow> v \<in> sql_held s key"
proof -
  define s1 where "s1 = sql_open n (sql_wait n key s)"
  note w = sql_wait_ok [OF assms(1), of n key]
  have s1: "sql_inv s1" "keeps s s1"
    using w sql_open_fields(1) [of n "sql_wait n key s"] keeps_trans [OF w(2) sql_open_keeps] by (simp_all add: s1_def)
  have "sql_inv s' \<and> keeps s1 s' \<and> (r = Inr (Some (m, v)) \<longrightarrow> v \<in> sql_held s1 key)"
  proof (cases "sq_connection s1 = Opened \<and> se_select n = None \<and> map_of (sq_rows s1) key \<noteq> None")
    case False
    then have "s' = s1" "r \<noteq> Inr (Some (m, v))"
      using assms(2) sql_open_fields(2) [of n "sql_wait n key s"]
      by (auto simp: sql_get_def s1_def Let_def split: connection.splits option.splits)
    with s1 show ?thesis by simp
  next
    case True
    then obtain x where x: "map_of (sq_rows s1) key = Some x" by auto
    obtain s2 r2 where drop: "sql_write (se_fault n) (drop_key key) s1 = (s2, r2)" by (metis surj_pair)
    obtain s3 r3 where use: "sql_write (se_fault n) (used_row (se_now n) key) s1 = (s3, r3)" by (metis surj_pair)
    have "(s' = s2 \<and> r \<noteq> Inr (Some (m, v))) \<or> (s' = s3 \<and> (r = Inr (Some (m, v)) \<longrightarrow> v = row_data x))"
      using assms(2) True x drop use by (auto simp: sql_get_def Let_def split: option.splits if_splits simp flip: s1_def)
    moreover have "keeps s1 s2" by (rule sql_write_keeps [OF drop]) (simp add: row_values_simps)
    moreover have "keeps s1 s3" by (rule sql_write_keeps [OF use]) (simp add: row_values_simps)
    moreover have "row_data x \<in> sql_held s1 key" using x True by (simp add: sql_held_def row_values_def)
    ultimately show ?thesis using s1 sql_write_fields(1) [OF drop] sql_write_fields(1) [OF use] by auto
  qed
  with s1 show "sql_inv s'" "keeps s s'" "r = Inr (Some (m, v)) \<Longrightarrow> v \<in> sql_held s key"
    using keeps_trans [of s s1 s'] by (auto simp: keeps_def)
qed

lemma sql_delete_ok:
  assumes "sql_inv s" and "sql_delete n key s = (s', r)"
  shows "sql_inv s'" and "keeps s s'" and "r = None \<Longrightarrow> sql_held s' key = {}"
proof -
  define s1 where "s1 = sql_open n (sql_drain n key s)"
  note w = sql_drain_ok [OF assms(1), of n key]
  have s1: "sql_inv s1" "keeps s s1" "queued_values (sq_writes s1) key = {}"
    using w sql_open_fields(1) [of n "sql_drain n key s"] keeps_trans [OF w(2) sql_open_keeps] by (simp_all add: s1_def)
  obtain s2 r2 where drop: "sql_write (se_fault n) (drop_key key) s1 = (s2, r2)" by (metis surj_pair)
  note fields = sql_write_fields [OF drop]
  have "keeps s1 s2" by (rule sql_write_keeps [OF drop]) (simp add: row_values_simps)
  moreover have "sql_held s2 key = {}" if "r2 = None"
    using fields(1) fields(4) [OF that] s1(3) by (simp add: sql_held_def row_values_simps)
  moreover have "(s', r) = (s2, r2) \<or> s' = s1 \<and> (r = None \<longrightarrow> sql_held s1 key = {})"
    using assms(2) drop by (cases "sq_connection s1") (auto simp: sql_delete_def sql_held_def Let_def simp flip: s1_def)
  ultimately show "sql_inv s'" "keeps s s'" "r = None \<Longrightarrow> sql_held s' key = {}"
    using s1 fields(1) keeps_trans [OF s1(2), of s'] by auto
qed

lemma sql_clear_ok:
  assumes "sql_inv s" and "sql_clear n s = (s', r)"
  shows "sql_inv s'" and "keeps s s'" and "r = None \<Longrightarrow> sql_held s' k = {}"
proof -
  define s1 where "s1 = sql_open n (sql_wait_all n s)"
  note w = sql_wait_all_ok [OF assms(1), of n]
  have s1: "sql_inv s1" "keeps s s1" "pw_queue (sq_writes s1) = []"
    using w sql_open_fields(1) [of n "sql_wait_all n s"] keeps_trans [OF w(2) sql_open_keeps] by (simp_all add: s1_def)
  obtain s2 r2 where drop: "sql_write (se_fault n) (\<lambda>_. []) s1 = (s2, r2)" by (metis surj_pair)
  note fields = sql_write_fields [OF drop]
  have "keeps s1 s2" by (rule sql_write_keeps [OF drop]) (simp add: row_values_simps)
  moreover have "sql_held s2 k = {}" if "r2 = None"
    using fields(1) fields(4) [OF that] s1(3) by (simp add: sql_held_def row_values_simps queued_values_def)
  moreover have "(s', r) = (s2, r2) \<or> s' = s1 \<and> (r = None \<longrightarrow> sql_held s1 k = {})"
    using assms(2) drop by (cases "sq_connection s1") (auto simp: sql_clear_def sql_held_def Let_def simp flip: s1_def)
  ultimately show "sql_inv s'" "keeps s s'" "r = None \<Longrightarrow> sql_held s' k = {}"
    using s1 fields(1) keeps_trans [OF s1(2), of s'] by auto
qed

lemma queued_values_add:
  "pw_queue q' = pw_queue q @ [(f, t)] \<Longrightarrow> queued_values q' k = queued_values q k \<union> (if wt_key t = k then {job_value (wt_value t)} else {})"
  by (auto simp: queued_values_def)

lemma sql_submit_ok:
  assumes "sql_inv s" and "sql_submit n key nbytes j s = (s', r)"
  shows "sql_inv s'" and "sql_held s' k \<subseteq> sql_held s k \<union> (if k = key then {job_value j} else {})"
proof -
  let ?add = "if k = key then {job_value j} else {}"
  have "sql_inv s' \<and> sql_held s' k \<subseteq> sql_held s k \<union> ?add"
    using assms(1) TrueI assms(2) [unfolded sql_submit_def]
  proof (rule sql_worker.submit_cases)
    show "sq_writes s2 = sq_writes s1"
      if "(let w = se_work n (pw_next (sq_writes s1)) in case do_set_sync n w key j s1 of (s, how) \<Rightarrow> (s, how, wk_took w)) = (s2, how, took)"
      for s1 s2 how took
      using that do_set_sync_held(1) by (fastforce simp: Let_def split: prod.splits)
  next
    fix s2 assume "queue_inv None (sq_writes s2)" "keeps s s2" "s' = s2"
    then show ?thesis by (auto simp: keeps_def)
  next
    fix s2 s3 how took q
    assume s2: "keeps s s2" and run: "(let w = se_work n (pw_next (sq_writes s2)) in case do_set_sync n w key j s2 of (s, how) \<Rightarrow> (s, how, wk_took w)) = (s3, how, took)"
      and q: "queue_inv None q" "pw_queue q = pw_queue (sq_writes s2)" and s': "s' = put_writes q s3"
    from run have d: "do_set_sync n (se_work n (pw_next (sq_writes s2))) key j s2 = (s3, how)" by (auto simp: Let_def split: prod.splits)
    note dh = do_set_sync_held [OF d]
    have "sql_held s' k = sql_held s3 k" using q(2) dh(1) by (simp add: s' put_writes_def sql_held_def queued_values_def)
    then show ?thesis using dh(2) [of k] s2 q(1) by (auto simp: keeps_def s' put_writes_def split: if_splits)
  next
    fix s2 q f
    assume s2: "keeps s s2" and q: "queue_inv None q"
      "pw_queue q = pw_queue (sq_writes s2) @ [(f, \<lparr>wt_key = key, wt_value = j, wt_bytes = Some nbytes\<rparr>)]" and s': "s' = put_writes q s2"
    have "sql_held s' k \<subseteq> sql_held s2 k \<union> ?add"
      using queued_values_add [OF q(2), of k] by (auto simp: s' put_writes_def sql_held_def)
    moreover have "sql_held s2 k \<subseteq> sql_held s k" using s2 by (simp add: keeps_def)
    ultimately have "sql_held s' k \<subseteq> sql_held s k \<union> ?add" by blast
    then show ?thesis using q(1) by (simp add: s' put_writes_def)
  qed
  then show "sql_inv s'" "sql_held s' k \<subseteq> sql_held s k \<union> ?add" by blast+
qed

lemma sql_set_ok:
  assumes "sql_inv s" and "sql_set n key v metadata s = (s', r)"
  shows "sql_inv s'" and "sql_held s' k \<subseteq> sql_held s k \<union> (if k = key then {v} else {})"
proof -
  define s1 where "s1 = sql_open n s"
  have s1: "sql_inv s1" "sql_held s1 k \<subseteq> sql_held s k"
    using assms(1) sql_open_fields(1) [of n s] sql_open_keeps [of s n] by (simp_all add: s1_def keeps_def)
  have "s' = s1 \<or> (\<exists>nbytes m r'. sql_submit n key nbytes (job_of n key v nbytes m s1) s1 = (s', r'))"
    using assms(2) by (auto simp: sql_set_def Let_def split: if_splits sum.splits prod.splits option.splits submit_error.splits simp flip: s1_def)
  then have "sql_inv s' \<and> sql_held s' k \<subseteq> sql_held s1 k \<union> (if k = key then {v} else {})"
  proof (elim disjE exE)
    fix nbytes m r' assume sub: "sql_submit n key nbytes (job_of n key v nbytes m s1) s1 = (s', r')"
    have "job_value (job_of n key v nbytes m s1) = v" by (simp add: job_of_def Let_def)
    then show ?thesis using sql_submit_ok(1) [OF s1(1) sub] sql_submit_ok(2) [OF s1(1) sub, of k] by (auto split: if_splits)
  qed (use s1(1) in auto)
  with s1(2) show "sql_inv s'" "sql_held s' k \<subseteq> sql_held s k \<union> (if k = key then {v} else {})" by auto
qed

interpretation sql_tier: cache_tier sql_inv sql_held sql_store_op sql_read_op sql_delete_op sql_clear_op
proof
  fix i :: sql_call and key k v and s :: "'v sqlite"
  assume inv: "sql_inv s"
  let ?n = "qc_env i"
  define s0 where "s0 = meanwhile ?n s"
  note m = meanwhile_ok [OF inv, of ?n, folded s0_def]
  have m0: "sql_held s0 k \<subseteq> sql_held s k" for k using m(2) by (simp add: keeps_def)
  obtain s1 r1 where set: "sql_set ?n key v (qc_meta i) s0 = (s1, r1)" by (metis surj_pair)
  obtain s2 r2 where get: "sql_get ?n key s0 = (s2, r2)" by (metis surj_pair)
  obtain s3 r3 where del: "sql_delete ?n key s0 = (s3, r3)" by (metis surj_pair)
  obtain s4 r4 where clr: "sql_clear ?n s0 = (s4, r4)" by (metis surj_pair)
  have ops: "sql_store_op i key v s = (s1, r1 = None)" "fst (sql_read_op i key s) = s2" "sql_delete_op i key s = (s3, r3 = None)" "sql_clear_op i s = (s4, r4 = None)"
    using set get del clr by (auto simp: sql_store_op_def sql_read_op_def sql_delete_op_def sql_clear_op_def s0_def split: sum.splits option.splits)
  have val: "\<exists>mt. r2 = Inr (Some (mt, v))" if "snd (sql_read_op i key s) = Some v"
    using that get by (auto simp: sql_read_op_def s0_def split: sum.splits option.splits)
  note st = sql_set_ok [OF m(1) set] and gt = sql_get_ok [OF m(1) get] and dl = sql_delete_ok [OF m(1) del] and cl = sql_clear_ok [OF m(1) clr]
  show "sql_inv (fst (sql_store_op i key v s))" "sql_inv (fst (sql_read_op i key s))" "sql_inv (fst (sql_delete_op i key s))" "sql_inv (fst (sql_clear_op i s))"
    using st(1) gt(1) dl(1) cl(1) ops by simp_all
  show "sql_held (fst (sql_store_op i key v s)) key \<subseteq> insert v (sql_held s key)" using st(2) [of key] m0 [of key] ops(1) by auto
  show "sql_held (fst (sql_store_op i key v s)) k \<subseteq> sql_held s k" if "k \<noteq> key" using st(2) [of k] m0 [of k] ops(1) that by auto
  show "sql_held (fst (sql_read_op i key s)) k \<subseteq> sql_held s k" using gt(2) m0 [of k] ops(2) by (auto simp: keeps_def)
  show "v \<in> sql_held s key" if "snd (sql_read_op i key s) = Some v" using val [OF that] gt(3) m0 [of key] by auto
  show "sql_held (fst (sql_delete_op i key s)) k \<subseteq> sql_held s k" using dl(2) m0 [of k] ops(3) by (auto simp: keeps_def)
  show "sql_held (fst (sql_delete_op i key s)) key = {}" if "snd (sql_delete_op i key s)" using dl(3) ops(3) that by simp
  show "sql_held (fst (sql_clear_op i s)) k \<subseteq> sql_held s k" using cl(2) m0 [of k] ops(4) by (auto simp: keeps_def)
  show "sql_held (fst (sql_clear_op i s)) k = {}" if "snd (sql_clear_op i s)" using cl(3) ops(4) that by simp
qed

subsection \<open>Eviction\<close>

text \<open>The victims are the first rows of the order, as many as it takes.\<close>

lemma lru_victims_prefix:
  assumes "total_size = sum_list (map snd xs) + extra" and "\<forall>x \<in> set xs. 0 \<le> snd x"
  obtains m where "m \<le> length xs" and "lru_victims target total_size xs = map fst (take m xs)"
    and "m = length xs \<or> real_of_int (sum_list (map snd (drop m xs)) + extra) \<le> target"
    and "\<forall>j < m. target < real_of_int (sum_list (map snd (drop j xs)) + extra)"
proof -
  have "\<exists>m \<le> length xs. lru_victims target total_size xs = map fst (take m xs) \<and>
    (m = length xs \<or> real_of_int (sum_list (map snd (drop m xs)) + extra) \<le> target) \<and>
    (\<forall>j < m. target < real_of_int (sum_list (map snd (drop j xs)) + extra))"
    using assms
  proof (induction xs arbitrary: total_size)
    case (Cons a xs)
    obtain key sz where a: "a = (key, sz)" by (cases a)
    show ?case
    proof (cases "real_of_int total_size \<le> target")
      case True
      then show ?thesis using Cons.prems by (intro exI [of _ 0]) (simp add: a add.assoc)
    next
      case False
      obtain m where m: "m \<le> length xs" "lru_victims target (total_size - sz) xs = map fst (take m xs)"
          "m = length xs \<or> real_of_int (sum_list (map snd (drop m xs)) + extra) \<le> target"
          "\<forall>j < m. target < real_of_int (sum_list (map snd (drop j xs)) + extra)"
        using Cons.IH [of "total_size - sz"] Cons.prems by (auto simp: a)
      have "target < real_of_int (sum_list (map snd (drop j (a # xs))) + extra)" if "j < Suc m" for j
        using that m(4) False Cons.prems(1) by (cases j) (simp_all add: a)
      with m False show ?thesis by (intro exI [of _ "Suc m"]) (simp add: a)
    qed
  qed simp
  with that show thesis by blast
qed

lemma total_bytes_perm: "mset xs = mset ys \<Longrightarrow> total_bytes xs = total_bytes ys"
  unfolding total_bytes_def by (metis mset_map sum_mset_sum_list)

lemma drop_prefix_keys: "dict_ok (xs @ ys) \<Longrightarrow> drop_keys (map fst xs) (xs @ ys) = ys"
proof -
  assume ok: "dict_ok (xs @ ys)"
  have "filter (\<lambda>(key, _). key \<notin> set (map fst xs)) xs = []" by (force simp: filter_empty_conv)
  moreover have "filter (\<lambda>(key, _). key \<notin> set (map fst xs)) ys = ys" using ok by (intro filter_True) force
  ultimately show ?thesis by (simp add: drop_keys_def)
qed

text \<open>What the cap takes, in terms of the order of last use: a prefix of it, and no more than needed.\<close>

lemma evict_prefix:
  fixes s :: "'v sqlite"
  assumes "sql_check_and_evict None s = (s', r)" and cap: "sq_max_size_bytes s = Some cap" and over: "cap < total_bytes (sq_rows s)"
    and keys: "dict_ok (sq_rows s)" and sizes: "\<forall>x \<in> set (sq_rows s). 0 \<le> row_size_bytes (snd x)"
  obtains out rest where "sort_key (\<lambda>(_, x). row_last_access x) (sq_rows s) = out @ rest"
    and "sq_rows s' = drop_keys (map fst out) (sq_rows s)" and "total_bytes (sq_rows s') = total_bytes rest"
    and "rest = [] \<or> real_of_int (total_bytes rest) \<le> real_of_int cap * (9 / 10)"
    and "out = [] \<or> real_of_int cap * (9 / 10) < real_of_int (row_size_bytes (snd (last out)) + total_bytes rest)"
proof -
  let ?order = "sort_key (\<lambda>(_, x :: 'v sql_row). row_last_access x) (sq_rows s)"
  let ?xs = "map (\<lambda>(key, x). (key, row_size_bytes x)) ?order"
  let ?target = "real_of_int cap * (9 / 10)"
  have sizes_of: "map snd (map (\<lambda>(key, x). (key, row_size_bytes x)) ys) = map (\<lambda>(_, x). row_size_bytes x) ys" for ys :: "'v sql_table"
    by (simp add: split_def)
  have "total_bytes (sq_rows s) = sum_list (map snd ?xs) + 0"
    using total_bytes_perm [of "sq_rows s" ?order] by (simp only: total_bytes_def sizes_of mset_sort add_0_right)
  moreover have "\<forall>x \<in> set ?xs. 0 \<le> snd x" using sizes by auto
  ultimately obtain m where m: "m \<le> length ?xs" "lru_victims ?target (total_bytes (sq_rows s)) ?xs = map fst (take m ?xs)"
      "m = length ?xs \<or> real_of_int (sum_list (map snd (drop m ?xs)) + 0) \<le> ?target"
      "\<forall>j < m. ?target < real_of_int (sum_list (map snd (drop j ?xs)) + 0)"
    by (rule lru_victims_prefix)
  have tot: "sum_list (map snd (drop j ?xs)) = total_bytes (drop j ?order)" for j
    by (simp only: drop_map sizes_of total_bytes_def)
  let ?out = "take m ?order" and ?rest = "drop m ?order"
  have vict: "map fst (take m ?xs) = map fst ?out" by (simp add: take_map split_def)
  show thesis
  proof (rule that)
    show order: "?order = ?out @ ?rest" by simp
    show rows: "sq_rows s' = drop_keys (map fst ?out) (sq_rows s)"
      using assms(1) cap over m(2) vict by (simp add: sql_check_and_evict_def Let_def) auto
    have "dict_ok (?out @ ?rest)" using keys by (metis append_take_drop_id mset_map mset_sort mset_eq_imp_distinct_iff)
    then have "drop_keys (map fst ?out) ?order = ?rest" using drop_prefix_keys [of ?out ?rest] by simp
    moreover have "mset (drop_keys (map fst ?out) (sq_rows s)) = mset (drop_keys (map fst ?out) ?order)"
      by (simp only: drop_keys_def mset_filter mset_sort)
    ultimately show "total_bytes (sq_rows s') = total_bytes ?rest" using rows total_bytes_perm by metis
    show "?rest = [] \<or> real_of_int (total_bytes ?rest) \<le> ?target" using m(3) tot [of m] by auto
    show "?out = [] \<or> ?target < real_of_int (row_size_bytes (snd (last ?out)) + total_bytes ?rest)"
    proof (cases m)
      case (Suc j)
      then have j: "j < length ?order" using m(1) by simp
      have "drop j ?order = ?order ! j # ?rest" using Cons_nth_drop_Suc [OF j] Suc by simp
      moreover have "last ?out = ?order ! j" using j Suc by (simp add: take_Suc_conv_app_nth)
      moreover have "?target < real_of_int (total_bytes (drop j ?order))" using m(4) [rule_format, of j] Suc unfolding tot by simp
      ultimately show ?thesis by (simp add: total_bytes_def split_def)
    qed simp
  qed
qed

subsection \<open>Properties\<close>

text \<open>
  C27: Whatever the SQLite tier is put through (stores, reads, deletes and clears in any order, any of
  them failing, the worker running the queued writes at any point in between, the database
  turning out unusable), a value a read hands out was stored under that very key since the key
  was last deleted and the tier last cleared, or was in the database from the start: a queued
  write never lands after a delete or a clear that ran through.\<close>

theorem sqlite_serves_stored:
  assumes "run_ops sql_store_op sql_read_op sql_delete_op sql_clear_op ps (sql_init ttl cap rows, row_values rows) = (s, vals)"
    and "snd (sql_read_op i key s) = Some v"
  shows "v \<in> vals key"
proof (rule sql_tier.served_was_stored [OF _ _ assms])
  show "sql_inv (sql_init ttl cap rows)" by (simp add: sql_init_def queue_inv_init)
  show "sql_held (sql_init ttl cap rows) k \<subseteq> row_values rows k" for k
    by (simp add: sql_held_def sql_init_def queued_values_def pw_init_def)
qed

definition sample_sql_env :: sql_env where
  "sample_sql_env = \<lparr>se_now = 10, se_opens = True, se_user_version = 2, se_select = None, se_fault = NoFault, se_deleted = 0,
     se_loads_metadata = \<lambda>_. True, se_restores = \<lambda>_. True, se_serialized = Inr 4, se_ttl_given = False, se_child = False,
     se_rounds = 0, se_work = \<lambda>_. \<lparr>wk_now = 10, wk_took = 1, wk_fault = NoFault, wk_evict = None\<rparr>\<rparr>"

definition sample_sql_call :: sql_call where
  "sample_sql_call = \<lparr>qc_env = sample_sql_env, qc_meta = None\<rparr>"

lemmas sql_run_simps = submit_by_def block_by_def wait_by_def drain_by_def put_writes_def sql_store_op_def sql_read_op_def sql_delete_op_def sample_sql_call_def sample_sql_env_def sql_init_def pw_init_def meanwhile_def
  sql_set_def sql_open_def create_tables_def SCHEMA_VERSION_def sql_submit_def block_def can_make_room_def has_room_def queued_copies_def
  unfinished_sized_def can_submit_def submit_sized_def submit_def fdone_def job_of_def stamped_def init_metadata_def
  sql_get_def sql_wait_def can_wait_def current_worker_key_def wait_key_def sql_round_def start_task_def finish_task_def learn_cost_def
  forget_size_def forget_if_succeeded_def do_set_sync_def sql_write_def sql_check_and_evict_def insert_row_def dict_push_def row_gone_def
  used_row_def with_source_def entry_expired_def effective_ttl_def ttl_expired_def stored_ttl_def no_metadata_def Let_def
  sql_drain_def drain_def sql_delete_def drop_key_def


theorem sqlite_serves_stored_witness:
  "snd (sql_read_op sample_sql_call ''a'' (fst (sql_store_op sample_sql_call ''a'' 1 (sql_init None None [])))) = Some (1 :: nat)"
proof -
  obtain s and vals :: "string \<Rightarrow> nat set" where run: "run_ops sql_store_op sql_read_op sql_delete_op sql_clear_op
      [StoreOp sample_sql_call ''a'' 1] (sql_init None None [], row_values []) = (s, vals)" by (metis surj_pair)
  then have s: "s = fst (sql_store_op sample_sql_call ''a'' 1 (sql_init None None []))" and "vals ''a'' = {1}"
    by (auto simp: row_values_simps)
  moreover have "\<exists>v. snd (sql_read_op sample_sql_call ''a'' s) = Some v" unfolding s by (simp add: sql_run_simps)
  ultimately show ?thesis using sqlite_serves_stored [OF run, of sample_sql_call "''a''"] by auto
qed

text \<open>
  C30: When the bytes in the table pass the cap, eviction brings them under it, takes the least
  recently used rows (none it takes was used later than one it leaves), and stops as soon as
  90 percent of the cap holds the rest: with the last row it took, they would not fit.\<close>

theorem sql_evicts_least_recent:
  assumes "sql_check_and_evict None s = (s', r)" and "sq_max_size_bytes s = Some cap" and "0 \<le> cap"
    and "dict_ok (sq_rows s)" and "\<forall>x \<in> set (sq_rows s). 0 \<le> row_size_bytes (snd x)"
  shows "total_bytes (sq_rows s') \<le> cap \<and>
    (\<forall>k x j y. map_of (sq_rows s) k = Some x \<and> map_of (sq_rows s') k = None \<and> map_of (sq_rows s') j = Some y \<longrightarrow> row_last_access x \<le> row_last_access y) \<and>
    (sq_rows s' = sq_rows s \<or> (\<exists>k x. map_of (sq_rows s) k = Some x \<and> map_of (sq_rows s') k = None \<and>
       real_of_int cap * (9 / 10) < real_of_int (row_size_bytes x + total_bytes (sq_rows s'))))"
proof (cases "total_bytes (sq_rows s) \<le> cap")
  case True
  then have "s' = s" using assms(1,2) by (simp add: sql_check_and_evict_def)
  with True show ?thesis by auto
next
  case False
  then have over: "cap < total_bytes (sq_rows s)" by simp
  obtain out rest where e: "sort_key (\<lambda>(_, x). row_last_access x) (sq_rows s) = out @ rest"
      "sq_rows s' = drop_keys (map fst out) (sq_rows s)" "total_bytes (sq_rows s') = total_bytes rest"
      "rest = [] \<or> real_of_int (total_bytes rest) \<le> real_of_int cap * (9 / 10)"
      "out = [] \<or> real_of_int cap * (9 / 10) < real_of_int (row_size_bytes (snd (last out)) + total_bytes rest)"
    by (rule evict_prefix [OF assms(1,2) over assms(4,5)])
  have rows: "set (sq_rows s) = set out \<union> set rest" using arg_cong [OF e(1), of set] by simp
  have gone: "map_of (sq_rows s') k = (if k \<in> fst ` set out then None else map_of (sq_rows s) k)" for k
    by (simp add: e(2) map_of_drop_keys)
  have "sorted (map (\<lambda>(_, x). row_last_access x) (out @ rest))" by (metis e(1) sorted_sort_key)
  then have order: "row_last_access x \<le> row_last_access y" if "(k, x) \<in> set out" "(j, y) \<in> set rest" for k x j y
    using that by (force simp: sorted_append)
  have lru: "row_last_access x \<le> row_last_access y"
    if "map_of (sq_rows s) k = Some x" "map_of (sq_rows s') k = None" "map_of (sq_rows s') j = Some y" for k x j y
  proof -
    have kx: "(k, x) \<in> set (sq_rows s)" using that(1) by (rule map_of_SomeD)
    have "k \<in> fst ` set out" using that(1,2) gone [of k] by (auto split: if_splits)
    then obtain x' where x': "(k, x') \<in> set out" by force
    then have "x' = x" using kx rows eq_key_imp_eq_value [OF assms(4)] by blast
    moreover have "j \<notin> fst ` set out" "(j, y) \<in> set (sq_rows s)"
      using that(3) gone [of j] map_of_SomeD [of "sq_rows s" j y] by (auto split: if_splits)
    then have "(j, y) \<in> set rest" using rows by force
    ultimately show ?thesis using order x' by blast
  qed
  have "real_of_int (total_bytes rest) \<le> real_of_int cap" using e(4) assms(3) by (auto simp: total_bytes_def)
  then have fits: "total_bytes (sq_rows s') \<le> cap" using e(3) by simp
  then have "out \<noteq> []" using over e(2) by (auto simp: drop_keys_def)
  then obtain k x where kx: "last out = (k, x)" "(k, x) \<in> set out" by (metis last_in_set surj_pair)
  have "map_of (sq_rows s) k = Some x" using kx(2) rows assms(4) by simp
  moreover have "map_of (sq_rows s') k = None" using kx(2) gone [of k] by force
  ultimately show ?thesis using fits lru e(3,5) \<open>out \<noteq> []\<close> kx(1) by fastforce
qed

definition sample_row :: "bytes_t \<Rightarrow> seconds \<Rightarrow> nat sql_row" where
  "sample_row sz used = \<lparr>row_metadata = no_metadata, row_size_bytes = sz, row_created_at = None, row_last_access = used,
     row_access_count = 0, row_ttl = VNone, row_data = 0\<rparr>"

definition full_sqlite :: "nat sqlite" where
  "full_sqlite = (sql_init None (Some 100) [(''a'', sample_row 50 3), (''b'', sample_row 40 1), (''c'', sample_row 30 2)])"

theorem sql_evicts_least_recent_witness:
  "map fst (sq_rows (fst (sql_check_and_evict None full_sqlite))) = [''a'', ''c''] \<and>
   total_bytes (sq_rows (fst (sql_check_and_evict None full_sqlite))) \<le> 100"
proof -
  obtain s' r where e: "sql_check_and_evict None full_sqlite = (s', r)" by (metis surj_pair)
  have "map fst (sq_rows s') = [''a'', ''c'']"
    using e by (simp add: sql_check_and_evict_def full_sqlite_def sql_init_def sample_row_def total_bytes_def drop_keys_def Let_def) auto
  moreover have "total_bytes (sq_rows s') \<le> 100"
    using sql_evicts_least_recent [OF e, of 100] by (simp add: full_sqlite_def sql_init_def sample_row_def)
  ultimately show ?thesis using e by simp
qed

end
