(* ===== verification/Remote_Writes.thy ===== *)
theory Remote_Writes
  imports Write_Worker Cache_Tier Entry_Format
begin

text \<open>
  What the backends over a server share (\<open>RedisBackend\<close> and \<open>S3Backend\<close> of \<open>src/cash/backends/\<close>): the server's state and a
  queue of background writes (\<open>PendingWrites\<close>). The server is not part of the program: its requests are arguments of the
  backends, and its state is of any type.

  The locale \<open>remote_tier\<close> is what a backend gets from the queue when a write it runs stores, under
  its own key, what it was given.
\<close>

subsection \<open>A server and a queue\<close>

record ('s, 'j) remote =
  rm_server :: 's
  rm_writes :: "'j writes"

text \<open>What one background write meets, and what an operation does: \<open>rn_in\<close> for its requests, by number.\<close>

record 'i remote_work =
  rw_now :: seconds
  rw_took :: real
  rw_in :: 'i

record 'i remote_env =
  rn_now :: seconds
  rn_in :: "nat \<Rightarrow> 'i"
  rn_child :: bool  \<comment> \<open>\<open>in_multiprocessing_child()\<close>\<close>
  rn_rounds :: nat  \<comment> \<open>the queued writes run since the last operation\<close>
  rn_work :: "nat \<Rightarrow> 'i remote_work"

text \<open>What an operation raises: \<open>CacheBackendError\<close>, or an exception of another kind that it lets through.\<close>

datatype remote_error = BackendError string | OtherError string

text \<open>Pickle and the serializers, for metadata and values; \<open>None\<close> is an exception.\<close>

record 'v remote_codec =
  rk_dumps :: "stored_meta \<Rightarrow> byte list"
  rk_loads :: "byte list \<Rightarrow> unpickled"
  rk_serialize :: "'v \<Rightarrow> byte list option"
  rk_restore :: "stored_meta \<Rightarrow> byte list \<Rightarrow> 'v option"

text \<open>What the backends rely on: what is loaded is what was dumped, or loading fails.\<close>

definition faithful_codec :: "'v remote_codec \<Rightarrow> bool" where
  "faithful_codec c = ((\<forall>m m'. rk_loads c (rk_dumps c m) = Dict m' \<longrightarrow> m' = m) \<and>
     (\<forall>v b m u. rk_serialize c v = Some b \<and> rk_restore c m b = Some u \<longrightarrow> u = v))"

definition SHUTDOWN_ERROR :: string where "SHUTDOWN_ERROR = ''RuntimeError''"
definition SERIALIZE_ERROR :: string where "SERIALIZE_ERROR = ''PicklingError''"
definition STRUCT_ERROR :: string where "STRUCT_ERROR = ''struct.error''"

definition as_remote :: "entry_metadata \<Rightarrow> stored_meta" where
  "as_remote m = entry_metadata.extend m (stored_meta.fields None None None)"

definition remote_source :: "string \<Rightarrow> stored_meta \<Rightarrow> stored_meta" where
  "remote_source label m = (if m_source m = None then m\<lparr>m_source := Some label\<rparr> else m)"

text \<open>The metadata of a store: the common fields, the size of the pickled value, the backend's label.\<close>

definition remote_stamped :: "string \<Rightarrow> seconds \<Rightarrow> string \<Rightarrow> nat \<Rightarrow> entry_metadata option \<Rightarrow> entry_metadata" where
  "remote_stamped label now key nbytes metadata = (
     let m = (init_metadata metadata key now)\<lparr>m_size := Some (int nbytes)\<rparr> in
     if m_storage m = None then m\<lparr>m_storage := Some [label]\<rparr> else m)"

definition remote_init :: "'s \<Rightarrow> ('s, 'j) remote" where
  "remote_init server = \<lparr>rm_server = server, rm_writes = pw_init\<rparr>"

definition put_remote :: "'j writes \<Rightarrow> ('s, 'j) remote \<Rightarrow> ('s, 'j) remote" where
  "put_remote q s = s\<lparr>rm_writes := q\<rparr>"

definition put_server :: "'s \<Rightarrow> ('s, 'j) remote \<Rightarrow> ('s, 'j) remote" where
  "put_server x s = s\<lparr>rm_server := x\<rparr>"

text \<open>The worker takes the oldest queued write and runs it (\<open>do_set\<close>) to its end.\<close>

definition remote_round :: "('i \<Rightarrow> string \<Rightarrow> 'j \<Rightarrow> 's \<Rightarrow> 's \<times> outcome) \<Rightarrow> 'i remote_env \<Rightarrow> ('s, 'j) remote \<Rightarrow> ('s, 'j) remote" where
  "remote_round do_set n s = (case pw_queue (rm_writes s) of
       [] \<Rightarrow> s
     | (f, t) # _ \<Rightarrow>
         let w = rn_work n f in
         case do_set (rw_in w) (wt_key t) (wt_value t) (rm_server s) of
           (x, how) \<Rightarrow> \<lparr>rm_server = x, rm_writes = finish_task (rw_took w) how (start_task (rw_now w) (rm_writes s))\<rparr>)"

definition remote_meanwhile where
  "remote_meanwhile do_set n s = (remote_round do_set n ^^ rn_rounds n) s"

definition remote_wait where
  "remote_wait do_set n key s = wait_by rm_writes put_remote (remote_round do_set n) key s"

definition remote_wait_all where
  "remote_wait_all do_set n s = wait_all_by rm_writes (remote_round do_set n) s"

definition remote_drain where
  "remote_drain do_set n key s = drain_by rm_writes put_remote (remote_round do_set n) key s"

text \<open>\<open>submit_sized(key, nbytes, True, \<dots>)\<close>; in a multiprocessing child the write runs here.\<close>

definition remote_submit ::
  "('i \<Rightarrow> string \<Rightarrow> 'j \<Rightarrow> 's \<Rightarrow> 's \<times> outcome) \<Rightarrow> 'i remote_env \<Rightarrow> string \<Rightarrow> nat \<Rightarrow> 'j \<Rightarrow> ('s, 'j) remote \<Rightarrow> ('s, 'j) remote \<times> (submit_error + nat)" where
  "remote_submit do_set n key nbytes j s = submit_by rm_writes put_remote (remote_round do_set n)
     (\<lambda>s. let w = rn_work n (pw_next (rm_writes s)) in case do_set (rw_in w) key j (rm_server s) of (x, how) \<Rightarrow> (put_server x s, how, rw_took w))
     (rn_child n) key nbytes True j s"

definition remote_shutdown where
  "remote_shutdown do_set n s = block_by rm_writes (remote_round do_set n) (\<lambda>q. pw_queue q = []) (put_remote (shutdown (rm_writes s)) s)"

lemma remote_fields [simp]:
  "rm_writes (put_remote q s) = q" "rm_server (put_remote q s) = rm_server s" "rm_writes (put_server x s) = rm_writes s" "rm_server (put_server x s) = x"
  by (simp_all add: put_remote_def put_server_def)

subsection \<open>What the queue gives the backend\<close>

text \<open>\<open>vals x key\<close> are the values the server's state \<open>x\<close> can be read as under a key, \<open>job_vals\<close> those of a queued write,
  \<open>good\<close> what is known of the server.\<close>

definition queued_by :: "('j \<Rightarrow> 'v set) \<Rightarrow> 'j writes \<Rightarrow> string \<Rightarrow> 'v set" where
  "queued_by job_vals q key = {v. \<exists>f t. (f, t) \<in> set (pw_queue q) \<and> wt_key t = key \<and> v \<in> job_vals (wt_value t)}"

definition held_by :: "('s \<Rightarrow> string \<Rightarrow> 'v set) \<Rightarrow> ('j \<Rightarrow> 'v set) \<Rightarrow> ('s, 'j) remote \<Rightarrow> string \<Rightarrow> 'v set" where
  "held_by vals job_vals s key = vals (rm_server s) key \<union> queued_by job_vals (rm_writes s) key"

definition remote_inv :: "('s \<Rightarrow> bool) \<Rightarrow> ('s, 'j) remote \<Rightarrow> bool" where
  "remote_inv good s = (good (rm_server s) \<and> queue_inv None (rm_writes s))"

text \<open>A step after which the tier is in order and has no new value, and one that adds those of \<open>new\<close> under \<open>key\<close>.\<close>

definition keeps_by :: "('s \<Rightarrow> string \<Rightarrow> 'v set) \<Rightarrow> ('j \<Rightarrow> 'v set) \<Rightarrow> ('s, 'j) remote \<Rightarrow> ('s, 'j) remote \<Rightarrow> bool" where
  "keeps_by vals job_vals s s' = (\<forall>k. held_by vals job_vals s' k \<subseteq> held_by vals job_vals s k)"

definition orderly_by :: "('s \<Rightarrow> bool) \<Rightarrow> ('s \<Rightarrow> string \<Rightarrow> 'v set) \<Rightarrow> ('j \<Rightarrow> 'v set) \<Rightarrow> ('s, 'j) remote \<Rightarrow> ('s, 'j) remote \<Rightarrow> bool" where
  "orderly_by good vals job_vals s s' = (remote_inv good s' \<and> keeps_by vals job_vals s s')"

definition gains_by :: "('s \<Rightarrow> bool) \<Rightarrow> ('s \<Rightarrow> string \<Rightarrow> 'v set) \<Rightarrow> ('j \<Rightarrow> 'v set) \<Rightarrow> string \<Rightarrow> 'v set \<Rightarrow> ('s, 'j) remote \<Rightarrow> ('s, 'j) remote \<Rightarrow> bool" where
  "gains_by good vals job_vals key new s s' = (remote_inv good s' \<and> (\<forall>k. held_by vals job_vals s' k \<subseteq> held_by vals job_vals s k \<union> (if k = key then new else {})))"

locale remote_tier =
  fixes do_set :: "'i \<Rightarrow> string \<Rightarrow> 'j \<Rightarrow> 's \<Rightarrow> 's \<times> outcome" and good :: "'s \<Rightarrow> bool"
    and vals :: "'s \<Rightarrow> string \<Rightarrow> 'v set" and job_vals :: "'j \<Rightarrow> 'v set"
  assumes set_good: "good x \<Longrightarrow> do_set i key j x = (x', how) \<Longrightarrow> good x'"
    and set_vals: "good x \<Longrightarrow> do_set i key j x = (x', how) \<Longrightarrow> vals x' k \<subseteq> vals x k \<union> (if k = key then job_vals j else {})"
begin

abbreviation queued where "queued \<equiv> queued_by job_vals"
abbreviation held where "held \<equiv> held_by vals job_vals"
abbreviation keeps where "keeps \<equiv> keeps_by vals job_vals"
abbreviation inv where "inv \<equiv> remote_inv good"
abbreviation gains where "gains \<equiv> gains_by good vals job_vals"
abbreviation orderly where "orderly \<equiv> orderly_by good vals job_vals"

lemma still_keeps: "keeps s s' \<Longrightarrow> keeps s' s'' \<Longrightarrow> keeps s s''"
  by (auto simp: keeps_by_def)

lemma orderly_refl: "inv s \<Longrightarrow> orderly s s"
  by (simp add: orderly_by_def keeps_by_def)

lemma orderly_then: "orderly s s' \<Longrightarrow> orderly s' s'' \<Longrightarrow> orderly s s''"
  unfolding orderly_by_def using still_keeps by blast

lemma orderly_inv: "orderly s s' \<Longrightarrow> inv s'"
  by (simp add: orderly_by_def)

lemma orderly_held: "orderly s s' \<Longrightarrow> held s' k \<subseteq> held s k"
  by (simp add: orderly_by_def keeps_by_def)

lemma orderly_gains_after: "orderly s s' \<Longrightarrow> gains key new s' s'' \<Longrightarrow> gains key new s s''"
  unfolding orderly_by_def gains_by_def keeps_by_def by blast

lemma orderly_gains: "orderly s s' \<Longrightarrow> gains key new s s'"
  unfolding orderly_by_def gains_by_def keeps_by_def by blast

lemma gains_widen: "gains key new s s' \<Longrightarrow> new \<subseteq> wide \<Longrightarrow> gains key wide s s'"
  unfolding gains_by_def by (rule conjI, simp, clarsimp split: if_splits) blast

lemma server_orderly:
  assumes "inv s" and "good x" and "\<And>k. vals x k \<subseteq> vals (rm_server s) k"
  shows "orderly s (put_server x s)"
  using assms by (auto simp: orderly_by_def remote_inv_def keeps_by_def held_by_def)

lemma round_steps:
  assumes "pw_queue (rm_writes s) = (f, t) # rest" and "queue_inv x (rm_writes s)" and "good (rm_server s)"
  shows "\<exists>took how now. rm_writes (remote_round do_set n s) = finish_task took how (start_task now (rm_writes s))" and "good (rm_server (remote_round do_set n s))" and "keeps s (remote_round do_set n s)"
proof -
  let ?w = "rn_work n f"
  obtain y how where d: "do_set (rw_in ?w) (wt_key t) (wt_value t) (rm_server s) = (y, how)" by (metis surj_pair)
  have r: "remote_round do_set n s = \<lparr>rm_server = y, rm_writes = finish_task (rw_took ?w) how (start_task (rw_now ?w) (rm_writes s))\<rparr>"
    using assms(1) d by (simp add: remote_round_def Let_def)
  then show "\<exists>took how now. rm_writes (remote_round do_set n s) = finish_task took how (start_task now (rm_writes s))" by auto
  have rest: "pw_queue (rm_writes (remote_round do_set n s)) = rest" using queue_inv_round(2) [OF assms(2,1)] r by simp
  have server: "rm_server (remote_round do_set n s) = y" by (simp add: r)
  have "held (remote_round do_set n s) k \<subseteq> held s k" for k
  proof -
    have "vals y k \<subseteq> vals (rm_server s) k \<union> (if k = wt_key t then job_vals (wt_value t) else {})" by (rule set_vals [OF assms(3) d])
    moreover have "queued (rm_writes (remote_round do_set n s)) k \<subseteq> queued (rm_writes s) k" "job_vals (wt_value t) \<subseteq> queued (rm_writes s) (wt_key t)"
      unfolding queued_by_def rest assms(1) by auto
    ultimately show ?thesis unfolding held_by_def server by (cases "k = wt_key t") auto
  qed
  then show "keeps s (remote_round do_set n s)" by (simp add: keeps_by_def)
  show "good (rm_server (remote_round do_set n s))" using set_good [OF assms(3) d] by (simp add: r)
qed

end

sublocale remote_tier \<subseteq> worker: queue_worker rm_writes put_remote "remote_round do_set" "\<lambda>s. good (rm_server s)" keeps
proof
  fix s s' s'' :: "('s, 'j) remote" and q :: "'j writes" and n x f t rest
  show "keeps s s" by (simp add: keeps_by_def)
  show "keeps s s' \<Longrightarrow> keeps s' s'' \<Longrightarrow> keeps s s''" by (rule still_keeps)
  show "pw_queue q = pw_queue (rm_writes s) \<Longrightarrow> keeps s (put_remote q s)" by (simp add: keeps_by_def held_by_def queued_by_def)
  show "pw_queue (rm_writes s) = [] \<Longrightarrow> remote_round do_set n s = s" by (simp add: remote_round_def)
  show "pw_queue (rm_writes s) = (f, t) # rest \<Longrightarrow> queue_inv x (rm_writes s) \<Longrightarrow> good (rm_server s) \<Longrightarrow>
      \<exists>took how now. rm_writes (remote_round do_set n s) = finish_task took how (start_task now (rm_writes s))" by (rule round_steps(1))
  show "queue_inv x (rm_writes s) \<Longrightarrow> good (rm_server s) \<Longrightarrow> keeps s (remote_round do_set n s)"
    using round_steps(3) [of s _ _ _ x n] by (cases "pw_queue (rm_writes s)") (auto simp: remote_round_def [of do_set n s] keeps_by_def)
  show "queue_inv x (rm_writes s) \<Longrightarrow> good (rm_server s) \<Longrightarrow> good (rm_server (remote_round do_set n s))"
    using round_steps(2) [of s _ _ _ x n] by (cases "pw_queue (rm_writes s)") (auto simp: remote_round_def [of do_set n s])
qed simp_all

context remote_tier
begin

lemma waits:
  assumes "inv s"
  shows "orderly s (remote_wait do_set n key s)" and "orderly s (remote_wait_all do_set n s)" and "orderly s (remote_drain do_set n key s)"
    and "orderly s (remote_meanwhile do_set n s)" and "queued (rm_writes (remote_drain do_set n key s)) key = {}"
    and "queued (rm_writes (remote_wait_all do_set n s)) k = {}"
proof -
  have i: "queue_inv None (rm_writes s)" "good (rm_server s)" using assms by (simp_all add: remote_inv_def)
  note w = worker.wait_ok [OF i, where n = n and key = key] and a = worker.wait_all_ok [OF i, where n = n] and d = worker.drain_ok [OF i, where n = n and key = key]
    and m = worker.rounds_ok [OF i, where n = n and m = "rn_rounds n"]
  show "orderly s (remote_wait do_set n key s)" using w by (simp add: orderly_by_def remote_inv_def remote_wait_def)
  show "orderly s (remote_wait_all do_set n s)" using a by (simp add: orderly_by_def remote_inv_def remote_wait_all_def)
  show "orderly s (remote_drain do_set n key s)" using d by (simp add: orderly_by_def remote_inv_def remote_drain_def)
  show "orderly s (remote_meanwhile do_set n s)" using m by (simp add: orderly_by_def remote_inv_def remote_meanwhile_def)
  show "queued (rm_writes (remote_drain do_set n key s)) key = {}" using d(4) by (auto simp: queued_by_def not_in_queue_def remote_drain_def)
  show "queued (rm_writes (remote_wait_all do_set n s)) k = {}" using a(4) by (simp add: queued_by_def remote_wait_all_def)
qed

lemma shutdown_orderly:
  assumes "inv s"
  shows "orderly s (remote_shutdown do_set n s)"
proof -
  have sh: "orderly s (put_remote (shutdown (rm_writes s)) s)"
    using assms by (simp add: orderly_by_def remote_inv_def keeps_by_def held_by_def queued_by_def shutdown_def queue_inv_def fdone_def)
  then have "queue_inv None (rm_writes (put_remote (shutdown (rm_writes s)) s))" "good (rm_server (put_remote (shutdown (rm_writes s)) s))" by (simp_all only: orderly_by_def remote_inv_def)
  from worker.block_ok [OF this, where n = n and P = "\<lambda>q. pw_queue q = []"] have "orderly (put_remote (shutdown (rm_writes s)) s) (remote_shutdown do_set n s)"
    by (simp add: orderly_by_def remote_inv_def remote_shutdown_def)
  then show ?thesis by (rule orderly_then [OF sh])
qed

lemma queued_added: "pw_queue q' = pw_queue q @ [(f, t)] \<Longrightarrow> queued q' k = queued q k \<union> (if k = wt_key t then job_vals (wt_value t) else {})"
  by (auto simp: queued_by_def)

lemma submit_gains:
  assumes "inv s" and "remote_submit do_set n key nbytes j s = (s', r)"
  shows "gains key (job_vals j) s s'"
proof -
  have i: "queue_inv None (rm_writes s)" and g: "good (rm_server s)" using assms(1) by (simp_all add: remote_inv_def)
  show ?thesis
    using i g assms(2) [unfolded remote_submit_def]
  proof (rule worker.submit_cases)
    show "rm_writes s2 = rm_writes s1"
      if "(let w = rn_work n (pw_next (rm_writes s1)) in case do_set (rw_in w) key j (rm_server s1) of (x, how) \<Rightarrow> (put_server x s1, how, rw_took w)) = (s2, how, took)"
      for s1 s2 how took
      using that by (auto simp: Let_def split: prod.splits)
  next
    fix s2 assume "queue_inv None (rm_writes s2)" "good (rm_server s2)" "keeps s s2" "s' = s2"
    then show ?thesis by (auto simp: gains_by_def remote_inv_def keeps_by_def)
  next
    fix s2 s3 how took q
    assume s2: "good (rm_server s2)" "keeps s s2" and run: "(let w = rn_work n (pw_next (rm_writes s2)) in case do_set (rw_in w) key j (rm_server s2) of (x, how) \<Rightarrow> (put_server x s2, how, rw_took w)) = (s3, how, took)"
      and q: "queue_inv None q" "pw_queue q = pw_queue (rm_writes s2)" and s': "s' = put_remote q s3"
    from run obtain y how' where d: "do_set (rw_in (rn_work n (pw_next (rm_writes s2)))) key j (rm_server s2) = (y, how')" and s3: "s3 = put_server y s2"
      by (auto simp: Let_def split: prod.splits)
    have "held s' k \<subseteq> held s2 k \<union> (if k = key then job_vals j else {})" for k
      using set_vals [OF s2(1) d, of k] q(2) by (auto simp: s' s3 held_by_def queued_by_def split: if_splits)
    then show ?thesis using s2(2) q(1) set_good [OF s2(1) d] by (fastforce simp: gains_by_def remote_inv_def keeps_by_def s' s3)
  next
    fix s2 q f
    assume s2: "good (rm_server s2)" "keeps s s2" and q: "queue_inv None q"
      "pw_queue q = pw_queue (rm_writes s2) @ [(f, \<lparr>wt_key = key, wt_value = j, wt_bytes = Some nbytes\<rparr>)]" and s': "s' = put_remote q s2"
    have "held s' k \<subseteq> held s2 k \<union> (if k = key then job_vals j else {})" for k
      using queued_added [OF q(2), of k] by (auto simp: s' held_by_def split: if_splits)
    then show ?thesis using s2 q(1) by (fastforce simp: gains_by_def remote_inv_def keeps_by_def s')
  qed
qed

end

subsection \<open>A store and a read\<close>

text \<open>On an empty queue: the write is queued, and runs when a read waits for it.\<close>

lemma first_write:
  assumes "\<not> rn_child n"
  shows "\<exists>f. snd (remote_submit do_set n key nbytes j (remote_init x)) = Inr f"
    and "rm_server (remote_wait do_set n' key (fst (remote_submit do_set n key nbytes j (remote_init x)))) = fst (do_set (rw_in (rn_work n' 0)) key j x)"
  using assms
  by (simp_all add: remote_submit_def remote_wait_def remote_init_def submit_by_def block_by_def wait_by_def put_remote_def remote_round_def pw_init_def
      can_make_room_def has_room_def queued_copies_def unfinished_sized_def can_submit_def submit_sized_def submit_def fdone_def can_wait_def
      current_worker_key_def wait_key_def start_task_def finish_task_def learn_cost_def forget_size_def forget_if_succeeded_def Let_def
      split: prod.splits outcome.splits)

lemma init_server: "rm_server (remote_init x) = x"
  by (simp add: remote_init_def)

lemma nothing_queued:
  "remote_wait_all do_set n (remote_init x) = remote_init x" "remote_wait do_set n key (remote_init x) = remote_init x"
  "remote_meanwhile do_set n (remote_init x) = remote_init x"
proof -
  have "remote_round do_set n (remote_init x) = remote_init x" by (simp add: remote_round_def remote_init_def pw_init_def)
  then have "(remote_round do_set n ^^ m) (remote_init x) = remote_init x" for m by (induction m) simp_all
  then show "remote_meanwhile do_set n (remote_init x) = remote_init x" by (simp add: remote_meanwhile_def)
qed (simp_all add: remote_wait_all_def remote_wait_def wait_all_by_def wait_by_def block_by_def remote_init_def put_remote_def pw_init_def wait_key_def current_worker_key_def)

end
