(* ===== verification/S3_Backend.thy ===== *)
theory S3_Backend
  imports Remote_Writes Cache_Dir
begin

text \<open>
  The S3 tier (class \<open>S3Backend\<close> of \<open>src/cash/backends/s3_backend.py\<close>): one object per entry in the format of
  \<open>Entry_Format\<close>, put by the background writes of \<open>Remote_Writes\<close>.

  The service is an argument (\<open>s3_client\<close>): the requests of \<open>boto3\<close>'s client as functions of what each of them meets and of the
  service's state. \<open>s3_laws\<close> is what its documentation promises: a put replaces an object whole, a read sees the last
  put, a listing names every object. The pages of a listing are those the
  service has when the loop over them starts.
\<close>

subsection \<open>The service\<close>

text \<open>A request fails with a \<open>ClientError\<close> (of code \<open>404\<close> or \<open>NoSuchKey\<close>, or of another), an \<open>OSError\<close>, or another exception.\<close>

datatype s3_fault = NoSuchKey | ClientError string | OsError string | OtherFault string

text \<open>\<open>s3_list_pages\<close>: the keys of the objects under a prefix, page by page, and the error that ended the listing;
  \<open>s3_delete_objects\<close>: the keys the answer names as not deleted.\<close>

record ('i, 's) s3_client =
  s3_put_object :: "'i \<Rightarrow> string \<Rightarrow> byte list \<Rightarrow> 's \<Rightarrow> 's \<times> s3_fault option"
  s3_get_object :: "'i \<Rightarrow> string \<Rightarrow> 's \<Rightarrow> 's \<times> (s3_fault + byte list)"
  s3_get_range :: "'i \<Rightarrow> string \<Rightarrow> nat \<Rightarrow> 's \<Rightarrow> 's \<times> (s3_fault + byte list)"
  s3_delete_object :: "'i \<Rightarrow> string \<Rightarrow> 's \<Rightarrow> 's \<times> s3_fault option"
  s3_list_pages :: "'i \<Rightarrow> string \<Rightarrow> 's \<Rightarrow> 's \<times> string list list \<times> s3_fault option"
  s3_delete_objects :: "'i \<Rightarrow> string list \<Rightarrow> 's \<Rightarrow> 's \<times> (s3_fault + string list)"

text \<open>The backend: its client and prefix.\<close>

record ('i, 's) s3_backend =
  sb_client :: "('i, 's) s3_client"
  sb_prefix :: string

definition S3_LABEL :: string where "S3_LABEL = ''S3''"
definition METADATA_PREFETCH_BYTES :: nat where "METADATA_PREFETCH_BYTES = 8192"
definition DELETE_BATCH :: nat where "DELETE_BATCH = 1000"

definition s3_key :: "('i, 's) s3_backend \<Rightarrow> string \<Rightarrow> string" where
  "s3_key b key = sb_prefix b @ key @ ENTRY_SUFFIX"

subsection \<open>Reading\<close>

definition fault_text :: "s3_fault \<Rightarrow> string" where
  "fault_text f = (case f of NoSuchKey \<Rightarrow> ''NoSuchKey'' | ClientError e \<Rightarrow> e | OsError e \<Rightarrow> e | OtherFault e \<Rightarrow> e)"

text \<open>What a write makes of a fault: a \<open>ClientError\<close> of either code is wrapped, the rest passes through.\<close>

definition write_fault :: "s3_fault \<Rightarrow> remote_error" where
  "write_fault f = (case f of NoSuchKey \<Rightarrow> BackendError (fault_text f) | ClientError e \<Rightarrow> BackendError e
     | OsError e \<Rightarrow> OtherError e | OtherFault e \<Rightarrow> OtherError e)"

definition s3_do_set :: "('i, 's) s3_backend \<Rightarrow> 'i \<Rightarrow> string \<Rightarrow> byte list \<Rightarrow> 's \<Rightarrow> 's \<times> outcome" where
  "s3_do_set b i key blob x = (case s3_put_object (sb_client b) i (s3_key b key) blob x of
       (x, None) \<Rightarrow> (x, Wrote) | (x, Some f) \<Rightarrow> (x, Raised (fault_text f)))"

text \<open>What a read makes of a fault: a missing object and an unreadable body are misses.\<close>

definition read_fault :: "s3_fault \<Rightarrow> remote_error + 'a option" where
  "read_fault f = (case f of NoSuchKey \<Rightarrow> Inr None | ClientError e \<Rightarrow> Inl (BackendError e)
     | OsError _ \<Rightarrow> Inr None | OtherFault e \<Rightarrow> Inl (OtherError e))"

definition s3_restore :: "'v remote_codec \<Rightarrow> byte list \<Rightarrow> (stored_meta \<times> 'v) option" where
  "s3_restore c blob = (case unpack_entry (rk_loads c) blob True of
       Inl _ \<Rightarrow> None
     | Inr (m, payload) \<Rightarrow>
         if m_metadata_only m then None
         else map_option (\<lambda>v. (remote_source S3_LABEL m, v)) (Option.bind payload (rk_restore c m)))"

definition s3_get :: "'v remote_codec \<Rightarrow> ('i, 's) s3_backend \<Rightarrow> 'i remote_env \<Rightarrow> string \<Rightarrow> ('s, byte list) remote
    \<Rightarrow> ('s, byte list) remote \<times> (remote_error + (stored_meta \<times> 'v) option)" where
  "s3_get c b n key s = (
     let s = remote_wait (s3_do_set b) n key s in
     case s3_get_object (sb_client b) (rn_in n 0) (s3_key b key) (rm_server s) of
       (x, Inl f) \<Rightarrow> (put_server x s, read_fault f)
     | (x, Inr blob) \<Rightarrow> (put_server x s, Inr (s3_restore c blob)))"

text \<open>The front of the object, wider where its header says that the metadata is longer.\<close>

definition s3_head :: "'v remote_codec \<Rightarrow> ('i, 's) s3_backend \<Rightarrow> (nat \<Rightarrow> 'i) \<Rightarrow> string \<Rightarrow> 's \<Rightarrow> 's \<times> (s3_fault + corrupt + stored_meta)" where
  "s3_head c b req obj_key x = (case s3_get_range (sb_client b) (req 0) obj_key METADATA_PREFETCH_BYTES x of
       (x, Inl f) \<Rightarrow> (x, Inl f)
     | (x, Inr head) \<Rightarrow> (case unpack_entry (rk_loads c) head False of
           Inr (m, _) \<Rightarrow> (x, Inr (Inr m))
         | Inl e \<Rightarrow> (case metadata_span head of
               Inl e' \<Rightarrow> (x, Inr (Inl e'))
             | Inr wide \<Rightarrow>
                 if wide \<le> length head then (x, Inr (Inl e))
                 else (case s3_get_range (sb_client b) (req 1) obj_key wide x of
                     (x, Inl f) \<Rightarrow> (x, Inl f)
                   | (x, Inr head) \<Rightarrow> (x, Inr (map_sum id fst (unpack_entry (rk_loads c) head False)))))))"

definition s3_get_metadata :: "'v remote_codec \<Rightarrow> ('i, 's) s3_backend \<Rightarrow> 'i remote_env \<Rightarrow> string \<Rightarrow> ('s, byte list) remote
    \<Rightarrow> ('s, byte list) remote \<times> (remote_error + stored_meta option)" where
  "s3_get_metadata c b n key s = (
     let s = remote_wait (s3_do_set b) n key s in
     case s3_head c b (rn_in n) (s3_key b key) (rm_server s) of
       (x, Inl f) \<Rightarrow> (put_server x s, read_fault f)
     | (x, Inr (Inl _)) \<Rightarrow> (put_server x s, Inr None)
     | (x, Inr (Inr m)) \<Rightarrow> (put_server x s, Inr (Some (remote_source S3_LABEL m))))"

subsection \<open>Storing\<close>

definition s3_set :: "'v remote_codec \<Rightarrow> ('i, 's) s3_backend \<Rightarrow> 'i remote_env \<Rightarrow> string \<Rightarrow> 'v \<Rightarrow> entry_metadata option \<Rightarrow> ('s, byte list) remote
    \<Rightarrow> ('s, byte list) remote \<times> remote_error option" where
  "s3_set c b n key v metadata s = (case rk_serialize c v of
       None \<Rightarrow> (s, Some (OtherError SERIALIZE_ERROR))
     | Some data \<Rightarrow> (case pack_entry (rk_dumps c) (as_remote (remote_stamped S3_LABEL (rn_now n) key (length data) metadata)) data None of
           None \<Rightarrow> (s, Some (OtherError STRUCT_ERROR))
         | Some blob \<Rightarrow> (case remote_submit (s3_do_set b) n key (length data) blob s of
               (s, Inl ShutDown) \<Rightarrow> (s, Some (OtherError SHUTDOWN_ERROR))
             | (s, Inr _) \<Rightarrow> (s, None))))"

definition s3_only_metadata :: "string \<Rightarrow> entry_metadata \<Rightarrow> stored_meta" where
  "s3_only_metadata key m = as_remote (let m = m\<lparr>m_key := Some key, m_metadata_only := True\<rparr> in
     if m_size m = None then m\<lparr>m_size := Some 0\<rparr> else m)"

text \<open>An entry with a value is not overwritten; a put that fails with a \<open>ClientError\<close> is passed over.\<close>

definition s3_set_metadata_only :: "'v remote_codec \<Rightarrow> ('i, 's) s3_backend \<Rightarrow> 'i remote_env \<Rightarrow> string \<Rightarrow> entry_metadata \<Rightarrow> ('s, byte list) remote
    \<Rightarrow> ('s, byte list) remote \<times> remote_error option" where
  "s3_set_metadata_only c b n key metadata s = (
     let s = remote_wait (s3_do_set b) n key s in
     case s3_get_metadata c b n key s of
       (s, Inl e) \<Rightarrow> (s, Some e)
     | (s, Inr existing) \<Rightarrow>
         if (case existing of None \<Rightarrow> False | Some m \<Rightarrow> \<not> m_metadata_only m) then (s, None)
         else (case pack_entry (rk_dumps c) (s3_only_metadata key metadata) [] None of
             None \<Rightarrow> (s, Some (OtherError STRUCT_ERROR))
           | Some blob \<Rightarrow> (case s3_put_object (sb_client b) (rn_in n 2) (s3_key b key) blob (rm_server s) of
                 (x, None) \<Rightarrow> (put_server x s, None)
               | (x, Some f) \<Rightarrow> (put_server x s, case f of OsError e \<Rightarrow> Some (OtherError e) | OtherFault e \<Rightarrow> Some (OtherError e) | _ \<Rightarrow> None))))"

subsection \<open>Removing and listing\<close>

definition s3_delete :: "('i, 's) s3_backend \<Rightarrow> 'i remote_env \<Rightarrow> string \<Rightarrow> ('s, byte list) remote \<Rightarrow> ('s, byte list) remote \<times> remote_error option" where
  "s3_delete b n key s = (
     let s = remote_drain (s3_do_set b) n key s in
     case s3_delete_object (sb_client b) (rn_in n 0) (s3_key b key) (rm_server s) of
       (x, r) \<Rightarrow> (put_server x s, map_option write_fault r))"

text \<open>The loop over the listed keys: a batch is deleted as soon as it is full, \<open>i\<close> counts the batches. The answer: the keys
  collected since, and the keys the service named as not deleted, which the code does not look at.\<close>

fun delete_batches :: "('i, 's) s3_client \<Rightarrow> (nat \<Rightarrow> 'i) \<Rightarrow> nat \<Rightarrow> string list \<Rightarrow> string list \<Rightarrow> string list \<Rightarrow> 's
    \<Rightarrow> 's \<times> (s3_fault + nat \<times> string list \<times> string list)" where
  "delete_batches w req i delete_keys undeleted [] x = (x, Inr (i, delete_keys, undeleted))"
| "delete_batches w req i delete_keys undeleted (k # ks) x = (
     let delete_keys = delete_keys @ [k] in
     if DELETE_BATCH \<le> length delete_keys then
       (case s3_delete_objects w (req i) delete_keys x of
          (x, Inl f) \<Rightarrow> (x, Inl f)
        | (x, Inr bad) \<Rightarrow> delete_batches w req (Suc i) [] (undeleted @ bad) ks x)
     else delete_batches w req i delete_keys undeleted ks x)"

text \<open>\<open>clear\<close>. Beside the exception: the keys the service said it kept.\<close>

definition s3_clear :: "('i, 's) s3_backend \<Rightarrow> 'i remote_env \<Rightarrow> ('s, byte list) remote \<Rightarrow> ('s, byte list) remote \<times> (remote_error + string list)" where
  "s3_clear b n s = (
     let s = remote_wait_all (s3_do_set b) n s in
     case s3_list_pages (sb_client b) (rn_in n 0) (sb_prefix b) (rm_server s) of
       (x, pages, ended) \<Rightarrow> (case delete_batches (sb_client b) (rn_in n) 1 [] [] (concat pages) x of
           (x, Inl f) \<Rightarrow> (put_server x s, Inl (write_fault f))
         | (x, Inr (i, delete_keys, undeleted)) \<Rightarrow> (case ended of
               Some f \<Rightarrow> (put_server x s, Inl (write_fault f))
             | None \<Rightarrow>
                 if delete_keys = [] then (put_server x s, Inr undeleted)
                 else (case s3_delete_objects (sb_client b) (rn_in n i) delete_keys x of
                     (x, Inl f) \<Rightarrow> (put_server x s, Inl (write_fault f))
                   | (x, Inr bad) \<Rightarrow> (put_server x s, Inr (undeleted @ bad))))))"

text \<open>The loop of \<open>list_entries\<close>: only what lies within the prefetched front of an object is looked at, and an
  entry that is not readable from it is skipped.\<close>

fun list_objects :: "'v remote_codec \<Rightarrow> ('i, 's) s3_client \<Rightarrow> (nat \<Rightarrow> 'i) \<Rightarrow> nat \<Rightarrow> string list \<Rightarrow> stored_meta list \<Rightarrow> 's
    \<Rightarrow> 's \<times> (s3_fault + stored_meta list)" where
  "list_objects c w req i [] entries x = (x, Inr entries)"
| "list_objects c w req i (k # ks) entries x = (
     if \<not> endswith k ENTRY_SUFFIX then list_objects c w req i ks entries x
     else (case s3_get_range w (req i) k METADATA_PREFETCH_BYTES x of
         (x, Inl (OsError e)) \<Rightarrow> (x, Inl (OsError e))
       | (x, Inl (OtherFault e)) \<Rightarrow> (x, Inl (OtherFault e))
       | (x, Inl _) \<Rightarrow> list_objects c w req (Suc i) ks entries x
       | (x, Inr head) \<Rightarrow> list_objects c w req (Suc i) ks
           (case unpack_entry (rk_loads c) head False of Inl _ \<Rightarrow> entries | Inr (m, _) \<Rightarrow> entries @ [m]) x))"

definition s3_list_entries :: "'v remote_codec \<Rightarrow> ('i, 's) s3_backend \<Rightarrow> 'i remote_env \<Rightarrow> ('s, byte list) remote
    \<Rightarrow> ('s, byte list) remote \<times> (remote_error + stored_meta list)" where
  "s3_list_entries c b n s = (
     let s = remote_wait_all (s3_do_set b) n s in
     case s3_list_pages (sb_client b) (rn_in n 0) (sb_prefix b) (rm_server s) of
       (x, pages, ended) \<Rightarrow> (case list_objects c (sb_client b) (rn_in n) 1 (concat pages) [] x of
           (x, Inl f) \<Rightarrow> (put_server x s, Inl (write_fault f))
         | (x, Inr entries) \<Rightarrow> (put_server x s, case ended of Some f \<Rightarrow> Inl (write_fault f) | None \<Rightarrow> Inr entries)))"

definition s3_shutdown :: "('i, 's) s3_backend \<Rightarrow> 'i remote_env \<Rightarrow> ('s, byte list) remote \<Rightarrow> ('s, byte list) remote" where
  "s3_shutdown b n s = remote_shutdown (s3_do_set b) n s"

end
