(* ===== verification/S3_Contract.thy ===== *)
theory S3_Contract
  imports S3_Backend
begin

text \<open>
  The S3 tier keeps the contract of a cache tier, for a service that keeps its documented promises: what a key holds is what
  its object can be restored as, and the writes of it still queued.
\<close>

subsection \<open>What the service promises\<close>

text \<open>\<open>objects x\<close> are the objects of the bucket in a state of the service. Every request may find objects gone (a lifecycle
  rule), none finds one changed: no one else writes under the prefix. A put that fails may have taken effect.\<close>

definition s3_laws :: "('i, 's) s3_client \<Rightarrow> ('s \<Rightarrow> string \<rightharpoonup> byte list) \<Rightarrow> bool" where
  "s3_laws w objects = (
     (\<forall>i k d x x' r. s3_put_object w i k d x = (x', r) \<longrightarrow> objects x' \<subseteq>\<^sub>m objects x \<or> objects x' \<subseteq>\<^sub>m (objects x)(k \<mapsto> d)) \<and>
     (\<forall>i k x x' r. s3_get_object w i k x = (x', r) \<longrightarrow> objects x' \<subseteq>\<^sub>m objects x \<and> (\<forall>d. r = Inr d \<longrightarrow> objects x k = Some d)) \<and>
     (\<forall>i k nb x x' r. s3_get_range w i k nb x = (x', r) \<longrightarrow> objects x' \<subseteq>\<^sub>m objects x \<and> (\<forall>d. r = Inr d \<longrightarrow> map_option (take nb) (objects x k) = Some d)) \<and>
     (\<forall>i k x x' r. s3_delete_object w i k x = (x', r) \<longrightarrow> objects x' \<subseteq>\<^sub>m objects x \<and> (r = None \<longrightarrow> objects x' k = None)) \<and>
     (\<forall>i p x x' pages ended. s3_list_pages w i p x = (x', pages, ended) \<longrightarrow> objects x' \<subseteq>\<^sub>m objects x \<and>
        (ended = None \<longrightarrow> (\<forall>k d. objects x' k = Some d \<and> startswith k p \<longrightarrow> k \<in> set (concat pages)))) \<and>
     (\<forall>i ks x x' r. s3_delete_objects w i ks x = (x', r) \<longrightarrow> objects x' \<subseteq>\<^sub>m objects x \<and>
        (\<forall>bad. r = Inr bad \<longrightarrow> (\<forall>k. k \<in> set ks \<and> k \<notin> set bad \<longrightarrow> objects x' k = None))))"

lemma s3_lawsD:
  assumes "s3_laws w objects"
  shows "s3_put_object w i k d x = (x', r) \<Longrightarrow> objects x' \<subseteq>\<^sub>m objects x \<or> objects x' \<subseteq>\<^sub>m (objects x)(k \<mapsto> d)"
    and "s3_get_object w i k x = (x', q) \<Longrightarrow> objects x' \<subseteq>\<^sub>m objects x" and "s3_get_object w i k x = (x', Inr d) \<Longrightarrow> objects x k = Some d"
    and "s3_get_range w i k nb x = (x', q) \<Longrightarrow> objects x' \<subseteq>\<^sub>m objects x" and "s3_get_range w i k nb x = (x', Inr d) \<Longrightarrow> map_option (take nb) (objects x k) = Some d"
    and "s3_delete_object w i k x = (x', r) \<Longrightarrow> objects x' \<subseteq>\<^sub>m objects x" and "s3_delete_object w i k x = (x', None) \<Longrightarrow> objects x' k = None"
    and "s3_list_pages w i p x = (x', pages, ended) \<Longrightarrow> objects x' \<subseteq>\<^sub>m objects x"
    and "s3_list_pages w i p x = (x', pages, None) \<Longrightarrow> objects x' k = Some d \<Longrightarrow> startswith k p \<Longrightarrow> k \<in> set (concat pages)"
    and "s3_delete_objects w i ks x = (x', qs) \<Longrightarrow> objects x' \<subseteq>\<^sub>m objects x"
    and "s3_delete_objects w i ks x = (x', Inr bad) \<Longrightarrow> k \<in> set ks \<Longrightarrow> k \<notin> set bad \<Longrightarrow> objects x' k = None"
proof -
  note l = assms [unfolded s3_laws_def]
  note put = conjunct1 [OF l] and got = conjunct1 [OF conjunct2 [OF l]] and ranged = conjunct1 [OF conjunct2 [OF conjunct2 [OF l]]]
    and deleted = conjunct1 [OF conjunct2 [OF conjunct2 [OF conjunct2 [OF l]]]]
    and listed = conjunct1 [OF conjunct2 [OF conjunct2 [OF conjunct2 [OF conjunct2 [OF l]]]]]
    and batch = conjunct2 [OF conjunct2 [OF conjunct2 [OF conjunct2 [OF conjunct2 [OF l]]]]]
  show "s3_put_object w i k d x = (x', r) \<Longrightarrow> objects x' \<subseteq>\<^sub>m objects x \<or> objects x' \<subseteq>\<^sub>m (objects x)(k \<mapsto> d)" using put by blast
  show "s3_get_object w i k x = (x', q) \<Longrightarrow> objects x' \<subseteq>\<^sub>m objects x" "s3_get_object w i k x = (x', Inr d) \<Longrightarrow> objects x k = Some d" using got by blast+
  show "s3_get_range w i k nb x = (x', q) \<Longrightarrow> objects x' \<subseteq>\<^sub>m objects x"
    "s3_get_range w i k nb x = (x', Inr d) \<Longrightarrow> map_option (take nb) (objects x k) = Some d" using ranged by blast+
  show "s3_delete_object w i k x = (x', r) \<Longrightarrow> objects x' \<subseteq>\<^sub>m objects x" "s3_delete_object w i k x = (x', None) \<Longrightarrow> objects x' k = None"
    using deleted by blast+
  show "s3_list_pages w i p x = (x', pages, ended) \<Longrightarrow> objects x' \<subseteq>\<^sub>m objects x"
    "s3_list_pages w i p x = (x', pages, None) \<Longrightarrow> objects x' k = Some d \<Longrightarrow> startswith k p \<Longrightarrow> k \<in> set (concat pages)" using listed by blast+
  show "s3_delete_objects w i ks x = (x', qs) \<Longrightarrow> objects x' \<subseteq>\<^sub>m objects x"
    "s3_delete_objects w i ks x = (x', Inr bad) \<Longrightarrow> k \<in> set ks \<Longrightarrow> k \<notin> set bad \<Longrightarrow> objects x' k = None" using batch by blast+
qed

definition blob_values :: "'v remote_codec \<Rightarrow> byte list \<Rightarrow> 'v set" where
  "blob_values c blob = set_option (map_option snd (s3_restore c blob))"

definition bucket_values :: "'v remote_codec \<Rightarrow> ('i, 's) s3_backend \<Rightarrow> ('s \<Rightarrow> string \<rightharpoonup> byte list) \<Rightarrow> 's \<Rightarrow> string \<Rightarrow> 'v set" where
  "bucket_values c b objects x key = (case objects x (s3_key b key) of None \<Rightarrow> {} | Some blob \<Rightarrow> blob_values c blob)"

lemma same_s3_key: "s3_key b k = s3_key b key \<longleftrightarrow> k = key"
  by (simp add: s3_key_def)

lemma fewer_values: "objects x' \<subseteq>\<^sub>m objects x \<Longrightarrow> bucket_values c b objects x' k \<subseteq> bucket_values c b objects x k"
  by (force simp: bucket_values_def map_le_def dom_def split: option.splits)

lemma put_values:
  assumes "objects x' \<subseteq>\<^sub>m objects x \<or> objects x' \<subseteq>\<^sub>m (objects x)(s3_key b key \<mapsto> blob)"
  shows "bucket_values c b objects x' k \<subseteq> bucket_values c b objects x k \<union> (if k = key then blob_values c blob else {})"
  using assms
proof
  assume "objects x' \<subseteq>\<^sub>m objects x"
  from fewer_values [where objects = objects and c = c and b = b and k = k, OF this] show ?thesis by auto
next
  assume "objects x' \<subseteq>\<^sub>m (objects x)(s3_key b key \<mapsto> blob)"
  then have "objects x' (s3_key b k) = Some d \<Longrightarrow> (if k = key then d = blob else objects x (s3_key b k) = Some d)" for d
    unfolding map_le_def by (metis (mono_tags, lifting) domI fun_upd_apply option.inject same_s3_key)
  then show ?thesis by (auto simp: bucket_values_def split: option.splits)
qed

interpretation s3_remote: remote_tier "s3_do_set b" "\<lambda>_. s3_laws (sb_client b) objects \<and> faithful_codec c" "bucket_values c b objects" "blob_values c"
  for b :: "('i, 's) s3_backend" and objects c
proof
  fix x x' :: 's and i :: 'i and key k j how
  assume laws: "s3_laws (sb_client b) objects \<and> faithful_codec c" and run: "s3_do_set b i key j x = (x', how)"
  obtain r where "s3_put_object (sb_client b) i (s3_key b key) j x = (x', r)"
    using run by (auto simp: s3_do_set_def split: prod.splits option.splits)
  with laws show "bucket_values c b objects x' k \<subseteq> bucket_values c b objects x k \<union> (if k = key then blob_values c j else {})"
    using put_values [of objects x' x b key j c k] s3_lawsD(1) by metis
qed

abbreviation s3_good :: "'v remote_codec \<Rightarrow> ('i, 's) s3_backend \<Rightarrow> ('s \<Rightarrow> string \<rightharpoonup> byte list) \<Rightarrow> 's \<Rightarrow> bool" where
  "s3_good c b objects \<equiv> (\<lambda>_. s3_laws (sb_client b) objects \<and> faithful_codec c)"

abbreviation s3_held :: "'v remote_codec \<Rightarrow> ('i, 's) s3_backend \<Rightarrow> ('s \<Rightarrow> string \<rightharpoonup> byte list) \<Rightarrow> ('s, byte list) remote \<Rightarrow> string \<Rightarrow> 'v set" where
  "s3_held c b objects \<equiv> held_by (bucket_values c b objects) (blob_values c)"

abbreviation s3_inv :: "'v remote_codec \<Rightarrow> ('i, 's) s3_backend \<Rightarrow> ('s \<Rightarrow> string \<rightharpoonup> byte list) \<Rightarrow> ('s, byte list) remote \<Rightarrow> bool" where
  "s3_inv c b objects \<equiv> remote_inv (s3_good c b objects)"

abbreviation s3_fine where
  "s3_fine c b objects \<equiv> orderly_by (s3_good c b objects) (bucket_values c b objects) (blob_values c)"

abbreviation s3_gains where
  "s3_gains c b objects \<equiv> gains_by (s3_good c b objects) (bucket_values c b objects) (blob_values c)"

lemma s3_invD: "s3_inv c b objects s \<Longrightarrow> s3_laws (sb_client b) objects" "s3_inv c b objects s \<Longrightarrow> faithful_codec c"
  by (simp_all add: remote_inv_def)

lemma s3_server_fine:
  assumes "s3_inv c b objects s" and "objects x \<subseteq>\<^sub>m objects (rm_server s)"
  shows "s3_fine c b objects s (put_server x s)"
  by (rule s3_remote.server_orderly [OF assms(1)]) (use s3_invD [OF assms(1)] fewer_values [OF assms(2)] in simp_all)

subsection \<open>Each operation\<close>

text \<open>A packed object is restored as the value it was packed from.\<close>

lemma unpacked:
  assumes "pack_entry dumps m payload None = Some blob" and "unpack_entry loads blob True = Inr (m', p)"
  shows "p = Some payload" and "\<exists>m0 crc. loads (dumps (m\<lparr>sm_checksum := crc\<rparr>)) = Dict m0 \<and> m' = m0\<lparr>sm_checksum := None\<rparr>"
proof -
  from assms(1) obtain e where e: "pack_entry_parts dumps m [payload] False None = Some e" and blob: "blob = pe_head e @ payload" by (auto simp: pack_entry_Some)
  obtain crc mb cap h where mb: "mb = dumps (m\<lparr>sm_checksum := Some crc\<rparr>)" and cap0: "cap = length mb + META_SLACK"
      and h: "header_pack MAGIC (length mb) cap = Some h" and head: "pe_head e = h @ mb @ zeros (cap - length mb)"
  proof (rule pack_entry_parts_Some [OF e], goal_cases)
    case (1 crc mb cap h)
    then show ?case using that [of mb crc cap h] by simp
  qed
  have cap: "length mb \<le> cap" using cap0 by simp
  note hd = header_pack_cases [OF h magic_lengths [OF magics_differ(2)]]
  have "take HEADER_SIZE blob = h" "take (length mb) (drop HEADER_SIZE blob) = mb" "drop (HEADER_SIZE + cap) blob = payload"
    using hd(1) cap by (simp_all add: blob head)
  moreover have "HEADER_SIZE + length mb \<le> length blob" using hd(1) by (simp add: blob head)
  ultimately have "and_then (load_metadata loads mb) (\<lambda>m. let expected = sm_checksum m; m = m\<lparr>sm_checksum := None\<rparr> in
      and_then (verify payload expected) (\<lambda>_. Inr (m, Some payload))) = Inr (m', p)"
    using assms(2) hd(2) cap magics_differ(2) by (simp add: unpack_entry_def)
  then obtain m0 where "load_metadata loads mb = Inr m0" "p = Some payload" "m' = m0\<lparr>sm_checksum := None\<rparr>"
    by (auto simp: and_then_Inr Let_def)
  then show "p = Some payload" "\<exists>m0 crc. loads (dumps (m\<lparr>sm_checksum := crc\<rparr>)) = Dict m0 \<and> m' = m0\<lparr>sm_checksum := None\<rparr>"
    unfolding mb by (auto simp: load_metadata_def split: unpickled.splits)
qed

lemma packed_values:
  assumes "faithful_codec c" and "rk_serialize c v = Some data" and "pack_entry (rk_dumps c) m data None = Some blob"
  shows "blob_values c blob \<subseteq> {v}"
proof -
  have "u = v" if got: "s3_restore c blob = Some (m', u)" for m' u
  proof -
    obtain m1 p where u: "unpack_entry (rk_loads c) blob True = Inr (m1, p)" and res: "Option.bind p (rk_restore c m1) = Some u"
      using got by (cases "unpack_entry (rk_loads c) blob True") (auto simp: s3_restore_def split: if_splits)
    from unpacked(1) [OF assms(3) u] res assms(1,2) show ?thesis by (auto simp: faithful_codec_def)
  qed
  then show ?thesis by (auto simp: blob_values_def)
qed

lemma only_metadata_values:
  assumes "faithful_codec c" and "pack_entry (rk_dumps c) (s3_only_metadata key m) data None = Some blob"
  shows "blob_values c blob = {}"
proof -
  have "s3_restore c blob = None"
  proof (cases "unpack_entry (rk_loads c) blob True")
    case (Inr a)
    then obtain m1 p where u: "unpack_entry (rk_loads c) blob True = Inr (m1, p)" by (cases a) auto
    obtain m0 crc where "rk_loads c (rk_dumps c ((s3_only_metadata key m)\<lparr>sm_checksum := crc\<rparr>)) = Dict m0" and "m1 = m0\<lparr>sm_checksum := None\<rparr>"
      using unpacked(2) [OF assms(2) u] by blast
    moreover from this(1) have "m0 = (s3_only_metadata key m)\<lparr>sm_checksum := crc\<rparr>" using assms(1) unfolding faithful_codec_def by blast
    ultimately have "m1 = (s3_only_metadata key m)\<lparr>sm_checksum := None\<rparr>" by simp
    moreover have "m_metadata_only (s3_only_metadata key m)" by (simp add: s3_only_metadata_def as_remote_def entry_metadata.defs Let_def)
    ultimately have "m_metadata_only m1" by simp
    then show ?thesis using u by (simp add: s3_restore_def)
  qed (simp add: s3_restore_def)
  then show ?thesis by (simp add: blob_values_def)
qed

lemma s3_get_ok:
  assumes "s3_inv c b objects s" and "s3_get c b n key s = (s', r)"
  shows "s3_fine c b objects s s'" and "r = Inr (Some (m, v)) \<Longrightarrow> v \<in> s3_held c b objects s key"
proof -
  define s1 where "s1 = remote_wait (s3_do_set b) n key s"
  have s1: "s3_fine c b objects s s1" unfolding s1_def by (rule s3_remote.waits(1) [OF assms(1)])
  note inv1 = s3_remote.orderly_inv [OF s1]
  obtain x q where get: "s3_get_object (sb_client b) (rn_in n 0) (s3_key b key) (rm_server s1) = (x, q)" by (metis surj_pair)
  have s': "s' = put_server x s1" using assms(2) get by (auto simp: s3_get_def s1_def Let_def split: sum.splits)
  show "s3_fine c b objects s s'" unfolding s'
    by (rule s3_remote.orderly_then [OF s1 s3_server_fine [OF inv1 s3_lawsD(2) [OF s3_invD(1) [OF inv1] get]]])
  show "v \<in> s3_held c b objects s key" if found: "r = Inr (Some (m, v))"
  proof -
    obtain blob where q: "q = Inr blob" and res: "s3_restore c blob = Some (m, v)"
      using assms(2) get found by (auto simp: s3_get_def s1_def read_fault_def Let_def split: sum.splits s3_fault.splits)
    have "objects (rm_server s1) (s3_key b key) = Some blob" using s3_lawsD(3) [OF s3_invD(1) [OF inv1]] get q by metis
    then have "v \<in> s3_held c b objects s1 key" using res by (simp add: held_by_def bucket_values_def blob_values_def)
    then show ?thesis using s3_remote.orderly_held [OF s1] by blast
  qed
qed

lemma s3_head_shrinks:
  assumes "s3_laws (sb_client b) objects" and "s3_head c b req k x = (x', r)"
  shows "objects x' \<subseteq>\<^sub>m objects x"
proof -
  obtain x1 q1 where g1: "s3_get_range (sb_client b) (req 0) k METADATA_PREFETCH_BYTES x = (x1, q1)" by (metis surj_pair)
  note m1 = s3_lawsD(4) [OF assms(1) g1]
  have "x' = x1 \<or> (\<exists>wide q2. s3_get_range (sb_client b) (req 1) k wide x1 = (x', q2))"
    using assms(2) g1 by (force simp: s3_head_def split: sum.splits if_splits prod.splits)
  then show ?thesis using m1 s3_lawsD(4) [OF assms(1)] map_le_trans by metis
qed

lemma s3_get_metadata_fine:
  assumes "s3_inv c b objects s" and "s3_get_metadata c b n key s = (s', r)"
  shows "s3_fine c b objects s s'"
proof -
  define s1 where "s1 = remote_wait (s3_do_set b) n key s"
  have s1: "s3_fine c b objects s s1" unfolding s1_def by (rule s3_remote.waits(1) [OF assms(1)])
  note inv1 = s3_remote.orderly_inv [OF s1]
  obtain x q where hd: "s3_head c b (rn_in n) (s3_key b key) (rm_server s1) = (x, q)" by (metis surj_pair)
  have "s' = put_server x s1" using assms(2) hd by (auto simp: s3_get_metadata_def s1_def Let_def split: sum.splits)
  then show ?thesis
    using s3_remote.orderly_then [OF s1 s3_server_fine [OF inv1 s3_head_shrinks [OF s3_invD(1) [OF inv1] hd]]] by simp
qed

lemma s3_set_gains:
  assumes "s3_inv c b objects s" and "s3_set c b n key v metadata s = (s', r)"
  shows "s3_gains c b objects key {v} s s'"
proof -
  have "s' = s \<or> (\<exists>data m blob q. rk_serialize c v = Some data \<and> pack_entry (rk_dumps c) m data None = Some blob \<and>
      remote_submit (s3_do_set b) n key (length data) blob s = (s', q))"
    using assms(2) by (fastforce simp: s3_set_def split: option.splits prod.splits sum.splits submit_error.splits)
  then show ?thesis
  proof (elim disjE exE conjE)
    assume "s' = s"
    then show ?thesis using s3_remote.orderly_gains [OF s3_remote.orderly_refl [OF assms(1)]] by simp
  next
    fix data m blob q
    assume "rk_serialize c v = Some data" "pack_entry (rk_dumps c) m data None = Some blob" and sub: "remote_submit (s3_do_set b) n key (length data) blob s = (s', q)"
    then have "blob_values c blob \<subseteq> {v}" by (intro packed_values [OF s3_invD(2) [OF assms(1)]])
    then show ?thesis by (rule s3_remote.gains_widen [OF s3_remote.submit_gains [OF assms(1) sub]])
  qed
qed

lemma s3_set_metadata_only_fine:
  assumes "s3_inv c b objects s" and "s3_set_metadata_only c b n key metadata s = (s', r)"
  shows "s3_fine c b objects s s'"
proof -
  define s1 where "s1 = remote_wait (s3_do_set b) n key s"
  have s1: "s3_fine c b objects s s1" unfolding s1_def by (rule s3_remote.waits(1) [OF assms(1)])
  obtain s2 q where got: "s3_get_metadata c b n key s1 = (s2, q)" by (metis surj_pair)
  have s2: "s3_fine c b objects s s2" by (rule s3_remote.orderly_then [OF s1 s3_get_metadata_fine [OF s3_remote.orderly_inv [OF s1] got]])
  note inv2 = s3_remote.orderly_inv [OF s2]
  have "s' = s2 \<or> (\<exists>blob x f. pack_entry (rk_dumps c) (s3_only_metadata key metadata) [] None = Some blob \<and>
      s3_put_object (sb_client b) (rn_in n 2) (s3_key b key) blob (rm_server s2) = (x, f) \<and> s' = put_server x s2)"
    using assms(2) got by (fastforce simp: s3_set_metadata_only_def Let_def split: option.splits prod.splits sum.splits if_splits simp flip: s1_def)
  then show ?thesis
  proof (elim disjE exE conjE)
    fix blob x f
    assume "pack_entry (rk_dumps c) (s3_only_metadata key metadata) [] None = Some blob" and s': "s' = put_server x s2"
      and put: "s3_put_object (sb_client b) (rn_in n 2) (s3_key b key) blob (rm_server s2) = (x, f)"
    then have "blob_values c blob = {}" using only_metadata_values s3_invD(2) [OF inv2] by blast
    then have "bucket_values c b objects x k \<subseteq> bucket_values c b objects (rm_server s2) k" for k
      using put_values [where c = c and k = k, OF s3_lawsD(1) [OF s3_invD(1) [OF inv2] put]] by (simp split: if_splits)
    then have "s3_fine c b objects s2 s'" unfolding s'
      by (intro s3_remote.server_orderly [OF inv2]) (use s3_invD [OF inv2] in simp_all)
    then show ?thesis by (rule s3_remote.orderly_then [OF s2])
  qed (use s2 in simp)
qed

lemma s3_delete_ok:
  assumes "s3_inv c b objects s" and "s3_delete b n key s = (s', r)"
  shows "s3_fine c b objects s s'" and "r = None \<Longrightarrow> s3_held c b objects s' key = {}"
proof -
  define s1 where "s1 = remote_drain (s3_do_set b) n key s"
  have s1: "s3_fine c b objects s s1" unfolding s1_def by (rule s3_remote.waits(3) [OF assms(1)])
  have none: "queued_by (blob_values c) (rm_writes s1) key = {}" unfolding s1_def by (rule s3_remote.waits(5) [OF assms(1)])
  note inv1 = s3_remote.orderly_inv [OF s1]
  obtain x q where del: "s3_delete_object (sb_client b) (rn_in n 0) (s3_key b key) (rm_server s1) = (x, q)" by (metis surj_pair)
  have s': "s' = put_server x s1" and r: "r = map_option write_fault q" using assms(2) del by (simp_all add: s3_delete_def s1_def Let_def)
  show "s3_fine c b objects s s'" unfolding s'
    by (rule s3_remote.orderly_then [OF s1 s3_server_fine [OF inv1 s3_lawsD(6) [OF s3_invD(1) [OF inv1] del]]])
  show "s3_held c b objects s' key = {}" if "r = None"
  proof -
    have "objects x (s3_key b key) = None" using s3_lawsD(7) [OF s3_invD(1) [OF inv1]] del r that by simp
    then show ?thesis using none by (simp add: s' held_by_def bucket_values_def)
  qed
qed

text \<open>Clearing: of the keys given, each is collected still, was named as kept, or is gone.\<close>

lemma delete_batches_ok:
  assumes "s3_laws w objects" and "delete_batches w req i ds undeleted ks x = (x', r)"
  shows "objects x' \<subseteq>\<^sub>m objects x"
    and "r = Inr (j, ds', und) \<Longrightarrow> set undeleted \<subseteq> set und \<and> (\<forall>k \<in> set ds \<union> set ks. k \<in> set ds' \<or> k \<in> set und \<or> objects x' k = None)"
proof -
  have both: "objects x' \<subseteq>\<^sub>m objects x \<and> (r = Inr (j, ds', und) \<longrightarrow> set undeleted \<subseteq> set und \<and>
      (\<forall>k \<in> set ds \<union> set ks. k \<in> set ds' \<or> k \<in> set und \<or> objects x' k = None))"
    using assms(2)
  proof (induction ks arbitrary: i ds undeleted x)
    case (Cons k ks)
    show ?case
    proof (cases "DELETE_BATCH \<le> length (ds @ [k])")
      case False
      then have "delete_batches w req i (ds @ [k]) undeleted ks x = (x', r)" using Cons.prems by simp
      from Cons.IH [OF this] show ?thesis by auto
    next
      case True
      obtain x1 q where del: "s3_delete_objects w (req i) (ds @ [k]) x = (x1, q)" by (metis surj_pair)
      note m1 = s3_lawsD(10) [OF assms(1) del]
      show ?thesis
      proof (cases q)
        case (Inl f)
        then show ?thesis using Cons.prems True del m1 by auto
      next
        case (Inr bad)
        then have run: "delete_batches w req (Suc i) [] (undeleted @ bad) ks x1 = (x', r)" using Cons.prems True del by simp
        have gone: "objects x' y = None" if "y \<in> set (ds @ [k])" "y \<notin> set bad" for y
        proof -
          have "objects x1 y = None" using s3_lawsD(11) [OF assms(1)] del Inr that by metis
          then show ?thesis using Cons.IH [OF run] unfolding map_le_def by (metis domIff)
        qed
        show ?thesis
        proof (intro conjI impI ballI)
          show "objects x' \<subseteq>\<^sub>m objects x" using Cons.IH [OF run] m1 map_le_trans by blast
          assume r: "r = Inr (j, ds', und)"
          then have ih: "set (undeleted @ bad) \<subseteq> set und" "\<forall>k \<in> set [] \<union> set ks. k \<in> set ds' \<or> k \<in> set und \<or> objects x' k = None"
            using Cons.IH [OF run] by simp_all
          show "set undeleted \<subseteq> set und" using ih(1) by simp
          fix y assume "y \<in> set ds \<union> set (k # ks)"
          then consider "y \<in> set ks" | "y \<in> set (ds @ [k])" by auto
          then show "y \<in> set ds' \<or> y \<in> set und \<or> objects x' y = None"
          proof cases
            case 2
            then show ?thesis using gone ih(1) by (cases "y \<in> set bad") auto
          qed (use ih(2) in simp)
        qed
      qed
    qed
  qed auto
  show "objects x' \<subseteq>\<^sub>m objects x" by (rule conjunct1 [OF both])
  show "r = Inr (j, ds', und) \<Longrightarrow> set undeleted \<subseteq> set und \<and> (\<forall>k \<in> set ds \<union> set ks. k \<in> set ds' \<or> k \<in> set und \<or> objects x' k = None)"
    by (rule mp [OF conjunct2 [OF both]])
qed

lemma list_objects_shrinks:
  assumes "s3_laws w objects" and "list_objects c w req i ks entries x = (x', r)"
  shows "objects x' \<subseteq>\<^sub>m objects x"
  using assms(2)
proof (induction ks arbitrary: i entries x)
  case (Cons k ks)
  obtain x1 q where g: "s3_get_range w (req i) k METADATA_PREFETCH_BYTES x = (x1, q)" by (metis surj_pair)
  note m1 = s3_lawsD(4) [OF assms(1) g]
  have "list_objects c w req i ks entries x = (x', r) \<or> x' = x1 \<or> (\<exists>es. list_objects c w req (Suc i) ks es x1 = (x', r))"
    using Cons.prems g by (auto split: if_splits sum.splits s3_fault.splits)
  then show ?case using Cons.IH m1 map_le_trans by blast
qed simp

lemma s3_clear_ok:
  assumes "s3_inv c b objects s" and "s3_clear b n s = (s', r)"
  shows "s3_fine c b objects s s'" and "r = Inr [] \<Longrightarrow> s3_held c b objects s' key = {}"
proof -
  define s1 where "s1 = remote_wait_all (s3_do_set b) n s"
  have s1: "s3_fine c b objects s s1" unfolding s1_def by (rule s3_remote.waits(2) [OF assms(1)])
  have none: "queued_by (blob_values c) (rm_writes s1) key = {}" unfolding s1_def by (rule s3_remote.waits(6) [OF assms(1)])
  note inv1 = s3_remote.orderly_inv [OF s1]
  note laws = s3_invD(1) [OF inv1]
  obtain x1 pages ended where pg: "s3_list_pages (sb_client b) (rn_in n 0) (sb_prefix b) (rm_server s1) = (x1, pages, ended)" by (metis surj_pair)
  obtain x2 q where del: "delete_batches (sb_client b) (rn_in n) 1 [] [] (concat pages) x1 = (x2, q)" by (metis surj_pair)
  have m2: "objects x2 \<subseteq>\<^sub>m objects (rm_server s1)"
    by (rule map_le_trans [OF delete_batches_ok(1) [OF laws del] s3_lawsD(8) [OF laws pg]])
  have "(s' = put_server x2 s1 \<and> (r = Inr [] \<longrightarrow> ended = None \<and> (\<exists>i. q = Inr (i, [], [])))) \<or>
      (\<exists>i ds und x3 q3. q = Inr (i, ds, und) \<and> ended = None \<and> s3_delete_objects (sb_client b) (rn_in n i) ds x2 = (x3, q3) \<and> s' = put_server x3 s1 \<and>
        (r = Inr [] \<longrightarrow> und = [] \<and> q3 = Inr []))"
    using assms(2) pg del by (fastforce simp: s3_clear_def Let_def split: sum.splits option.splits if_splits prod.splits simp flip: s1_def)
  then obtain x3 where s': "s' = put_server x3 s1" and m3: "objects x3 \<subseteq>\<^sub>m objects x2"
    and gone: "r = Inr [] \<Longrightarrow> ended = None \<and> (\<forall>k \<in> set (concat pages). objects x3 k = None)"
  proof (elim disjE exE conjE, goal_cases)
    case 1
    then show ?case using delete_batches_ok(2) [OF laws del, of _ "[]" "[]"] by (intro 1(1) [of x2]) auto
  next
    case (2 i ds und x3 q3)
    have "objects x3 k = None" if "r = Inr []" "k \<in> set (concat pages)" for k
    proof -
      have "und = []" using 2(6) that(1) by simp
      then have "k \<in> set ds \<or> objects x2 k = None" using delete_batches_ok(2) [OF laws del 2(2)] that(2) by (metis UnCI empty_iff empty_set)
      then show ?thesis
      proof
        assume "k \<in> set ds"
        then show ?thesis using s3_lawsD(11) [OF laws, of _ ds x2 x3 "[]" k] 2(4,6) that(1) by auto
      qed (use s3_lawsD(10) [OF laws 2(4)] in \<open>auto simp: map_le_def dom_def\<close>)
    qed
    then show ?case using 2 s3_lawsD(10) [OF laws 2(4)] by (intro 2(1) [of x3]) auto
  qed
  show "s3_fine c b objects s s'" unfolding s'
    by (rule s3_remote.orderly_then [OF s1 s3_server_fine [OF inv1 map_le_trans [OF m3 m2]]])
  show "s3_held c b objects s' key = {}" if clear: "r = Inr []"
  proof -
    have "objects x3 (s3_key b key) = None"
    proof (rule ccontr)
      assume "objects x3 (s3_key b key) \<noteq> None"
      then obtain d where "objects x1 (s3_key b key) = Some d"
        using map_le_trans [OF m3 delete_batches_ok(1) [OF laws del]] by (auto simp: map_le_def dom_def)
      moreover have "startswith (s3_key b key) (sb_prefix b)" by (simp add: startswith_def s3_key_def)
      ultimately have "s3_key b key \<in> set (concat pages)" using s3_lawsD(9) [OF laws] pg gone [OF clear] by metis
      then show False using gone [OF clear] \<open>objects x3 (s3_key b key) \<noteq> None\<close> by metis
    qed
    then show ?thesis using none by (simp add: s' held_by_def bucket_values_def)
  qed
qed

lemma s3_list_entries_fine:
  assumes "s3_inv c b objects s" and "s3_list_entries c b n s = (s', r)"
  shows "s3_fine c b objects s s'"
proof -
  define s1 where "s1 = remote_wait_all (s3_do_set b) n s"
  have s1: "s3_fine c b objects s s1" unfolding s1_def by (rule s3_remote.waits(2) [OF assms(1)])
  note inv1 = s3_remote.orderly_inv [OF s1]
  note laws = s3_invD(1) [OF inv1]
  obtain x1 pages ended where pg: "s3_list_pages (sb_client b) (rn_in n 0) (sb_prefix b) (rm_server s1) = (x1, pages, ended)" by (metis surj_pair)
  obtain x2 q where ls: "list_objects c (sb_client b) (rn_in n) 1 (concat pages) [] x1 = (x2, q)" by (metis surj_pair)
  have "s' = put_server x2 s1" using assms(2) pg ls by (auto simp: s3_list_entries_def Let_def split: sum.splits simp flip: s1_def)
  then show ?thesis
    using s3_remote.orderly_then [OF s1 s3_server_fine [OF inv1 map_le_trans [OF list_objects_shrinks [OF laws ls] s3_lawsD(8) [OF laws pg]]]] by simp
qed

subsection \<open>The contract\<close>

text \<open>The operations that neither store, read, delete nor clear.\<close>

datatype 'i s3_side = S3Metadata "'i remote_env" string | S3MetadataOnly "'i remote_env" string entry_metadata | S3List "'i remote_env" | S3Shutdown "'i remote_env"

fun s3_side_step :: "'v remote_codec \<Rightarrow> ('i, 's) s3_backend \<Rightarrow> 'i s3_side \<Rightarrow> ('s, byte list) remote \<Rightarrow> ('s, byte list) remote" where
  "s3_side_step c b (S3Metadata n key) s = fst (s3_get_metadata c b n key s)"
| "s3_side_step c b (S3MetadataOnly n key m) s = fst (s3_set_metadata_only c b n key m s)"
| "s3_side_step c b (S3List n) s = fst (s3_list_entries c b n s)"
| "s3_side_step c b (S3Shutdown n) s = s3_shutdown b n s"

text \<open>What an operation meets, and what was done to the backend before it.\<close>

record 'i s3_call =
  sc_env :: "'i remote_env"
  sc_meta :: "entry_metadata option"
  sc_sides :: "'i s3_side list"

definition s3_so_far :: "'v remote_codec \<Rightarrow> ('i, 's) s3_backend \<Rightarrow> 'i s3_call \<Rightarrow> ('s, byte list) remote \<Rightarrow> ('s, byte list) remote" where
  "s3_so_far c b i s = fold (s3_side_step c b) (sc_sides i) (remote_meanwhile (s3_do_set b) (sc_env i) s)"

definition s3_store_op :: "'v remote_codec \<Rightarrow> ('i, 's) s3_backend \<Rightarrow> 'i s3_call \<Rightarrow> string \<Rightarrow> 'v \<Rightarrow> ('s, byte list) remote \<Rightarrow> ('s, byte list) remote \<times> bool" where
  "s3_store_op c b i key v s = (case s3_set c b (sc_env i) key v (sc_meta i) (s3_so_far c b i s) of (s, r) \<Rightarrow> (s, r = None))"

definition s3_read_op :: "'v remote_codec \<Rightarrow> ('i, 's) s3_backend \<Rightarrow> 'i s3_call \<Rightarrow> string \<Rightarrow> ('s, byte list) remote \<Rightarrow> ('s, byte list) remote \<times> 'v option" where
  "s3_read_op c b i key s = (case s3_get c b (sc_env i) key (s3_so_far c b i s) of
       (s, Inr (Some (_, v))) \<Rightarrow> (s, Some v) | (s, _) \<Rightarrow> (s, None))"

definition s3_delete_op :: "'v remote_codec \<Rightarrow> ('i, 's) s3_backend \<Rightarrow> 'i s3_call \<Rightarrow> string \<Rightarrow> ('s, byte list) remote \<Rightarrow> ('s, byte list) remote \<times> bool" where
  "s3_delete_op c b i key s = (case s3_delete b (sc_env i) key (s3_so_far c b i s) of (s, r) \<Rightarrow> (s, r = None))"

text \<open>A clear ran through when the service kept no object it was told to delete.\<close>

definition s3_clear_op :: "'v remote_codec \<Rightarrow> ('i, 's) s3_backend \<Rightarrow> 'i s3_call \<Rightarrow> ('s, byte list) remote \<Rightarrow> ('s, byte list) remote \<times> bool" where
  "s3_clear_op c b i s = (case s3_clear b (sc_env i) (s3_so_far c b i s) of (s, r) \<Rightarrow> (s, r = Inr []))"

lemma s3_side_fine:
  assumes "s3_inv c b objects s"
  shows "s3_fine c b objects s (s3_side_step c b y s)"
proof (cases y)
  case (S3Metadata n key)
  then show ?thesis using s3_get_metadata_fine [OF assms, of n key] by (metis s3_side_step.simps(1) prod.collapse)
next
  case (S3MetadataOnly n key m)
  then show ?thesis using s3_set_metadata_only_fine [OF assms, of n key m] by (metis s3_side_step.simps(2) prod.collapse)
next
  case (S3List n)
  then show ?thesis using s3_list_entries_fine [OF assms, of n] by (metis s3_side_step.simps(3) prod.collapse)
next
  case (S3Shutdown n)
  then show ?thesis using s3_remote.shutdown_orderly [OF assms, of n] by (simp add: s3_shutdown_def)
qed

lemma s3_so_far_fine:
  assumes "s3_inv c b objects s"
  shows "s3_fine c b objects s (s3_so_far c b i s)"
proof -
  have "s3_fine c b objects s (fold (s3_side_step c b) ys s1)" if "s3_fine c b objects s s1" for ys s1
    using that
  proof (induction ys arbitrary: s1)
    case (Cons y ys)
    from Cons.IH [OF s3_remote.orderly_then [OF Cons.prems s3_side_fine [OF s3_remote.orderly_inv [OF Cons.prems]]]] show ?case by simp
  qed simp
  from this [OF s3_remote.waits(4) [OF assms]] show ?thesis by (simp add: s3_so_far_def)
qed

lemma s3_gains_at: "s3_gains c b objects key new s s' \<Longrightarrow> s3_held c b objects s' k \<subseteq> s3_held c b objects s k \<union> (if k = key then new else {})"
  by (simp add: gains_by_def)

interpretation s3_tier: cache_tier "s3_inv c b objects" "s3_held c b objects" "s3_store_op c b" "s3_read_op c b" "s3_delete_op c b" "s3_clear_op c b"
  for c :: "'v remote_codec" and b :: "('i, 's) s3_backend" and objects
proof
  fix s :: "('s, byte list) remote" and i :: "'i s3_call" and key k and v :: 'v
  assume inv: "s3_inv c b objects s"
  let ?s = "s3_so_far c b i s"
  note s1 = s3_so_far_fine [OF inv, of i] and inv1 = s3_remote.orderly_inv [OF s3_so_far_fine [OF inv, of i]]
  obtain s2 r2 where set: "s3_set c b (sc_env i) key v (sc_meta i) ?s = (s2, r2)" by (metis surj_pair)
  obtain s3 r3 where get: "s3_get c b (sc_env i) key ?s = (s3, r3)" by (metis surj_pair)
  obtain s4 r4 where del: "s3_delete b (sc_env i) key ?s = (s4, r4)" by (metis surj_pair)
  obtain s5 r5 where clr: "s3_clear b (sc_env i) ?s = (s5, r5)" by (metis surj_pair)
  have ops: "s3_store_op c b i key v s = (s2, r2 = None)" "fst (s3_read_op c b i key s) = s3" "s3_delete_op c b i key s = (s4, r4 = None)" "s3_clear_op c b i s = (s5, r5 = Inr [])"
    using set get del clr by (auto simp: s3_store_op_def s3_read_op_def s3_delete_op_def s3_clear_op_def split: sum.splits option.splits)
  note st = s3_remote.orderly_gains_after [OF s1 s3_set_gains [OF inv1 set]] and gt = s3_remote.orderly_then [OF s1 s3_get_ok(1) [OF inv1 get]]
    and dl = s3_remote.orderly_then [OF s1 s3_delete_ok(1) [OF inv1 del]] and cl = s3_remote.orderly_then [OF s1 s3_clear_ok(1) [OF inv1 clr]]
  show "s3_inv c b objects (fst (s3_store_op c b i key v s))" using st by (simp add: ops gains_by_def)
  show "s3_inv c b objects (fst (s3_read_op c b i key s))" "s3_inv c b objects (fst (s3_delete_op c b i key s))" "s3_inv c b objects (fst (s3_clear_op c b i s))"
    using s3_remote.orderly_inv [OF gt] s3_remote.orderly_inv [OF dl] s3_remote.orderly_inv [OF cl] by (simp_all add: ops)
  show "s3_held c b objects (fst (s3_store_op c b i key v s)) key \<subseteq> insert v (s3_held c b objects s key)"
    "k \<noteq> key \<Longrightarrow> s3_held c b objects (fst (s3_store_op c b i key v s)) k \<subseteq> s3_held c b objects s k"
    using s3_gains_at [OF st, of key] s3_gains_at [OF st, of k] by (simp_all add: ops)
  show "s3_held c b objects (fst (s3_read_op c b i key s)) k \<subseteq> s3_held c b objects s k" using s3_remote.orderly_held [OF gt] by (simp add: ops)
  show "v \<in> s3_held c b objects s key" if read: "snd (s3_read_op c b i key s) = Some v"
  proof -
    obtain m where "r3 = Inr (Some (m, v))" using read get by (auto simp: s3_read_op_def split: sum.splits option.splits)
    from s3_get_ok(2) [OF inv1 get this] s3_remote.orderly_held [OF s1, of key] show ?thesis by blast
  qed
  show "s3_held c b objects (fst (s3_delete_op c b i key s)) k \<subseteq> s3_held c b objects s k" using s3_remote.orderly_held [OF dl] by (simp add: ops)
  show "s3_held c b objects (fst (s3_delete_op c b i key s)) key = {}" if "snd (s3_delete_op c b i key s)" using that s3_delete_ok(2) [OF inv1 del] by (simp add: ops)
  show "s3_held c b objects (fst (s3_clear_op c b i s)) k \<subseteq> s3_held c b objects s k" using s3_remote.orderly_held [OF cl] by (simp add: ops)
  show "s3_held c b objects (fst (s3_clear_op c b i s)) k = {}" if "snd (s3_clear_op c b i s)" using that s3_clear_ok(2) [OF inv1 clr] by (simp add: ops)
qed

end
