(* ===== verification/S3_Properties.thy ===== *)
theory S3_Properties
  imports S3_Contract
begin

text \<open>
  What the S3 tier promises its callers, what its listing leaves out, and a run over a small bucket.
\<close>

subsection \<open>Claims\<close>

text \<open>
  C28: Whatever the S3 tier is put through (stores, reads, deletes and clears in any order, with its other operations and any
  progress of the background puts in between, requests that fail before or after they took effect, objects that expire), a
  value a read hands out was stored under that very key since the key was last deleted and the tier last cleared, or was in the
  bucket at the start. It holds over any service that keeps S3's promises, as long as no one else writes under the prefix.\<close>

theorem s3_serves_stored:
  assumes "s3_laws (sb_client b) objects" and "faithful_codec c"
    and "run_ops (s3_store_op c b) (s3_read_op c b) (s3_delete_op c b) (s3_clear_op c b) ps (remote_init x, bucket_values c b objects x) = (s, vals)"
    and "snd (s3_read_op c b i key s) = Some v"
  shows "v \<in> vals key"
proof (rule s3_tier.served_was_stored [OF _ _ assms(3,4)])
  show "s3_inv c b objects (remote_init x)" using assms(1,2) by (simp add: remote_inv_def remote_init_def queue_inv_init)
  show "s3_held c b objects (remote_init x) k \<subseteq> bucket_values c b objects x k" for k
    by (simp add: held_by_def remote_init_def queued_by_def pw_init_def)
qed

text \<open>What the front of a packed entry can be read as.\<close>

lemma packed_front:
  assumes "pack_entry dumps m data None = Some blob" and "mb = dumps (m\<lparr>sm_checksum := Some (checksum data)\<rparr>)" and "loads mb = Dict (m\<lparr>sm_checksum := Some (checksum data)\<rparr>)"
  shows "HEADER_SIZE + length mb \<le> nb \<Longrightarrow> unpack_entry loads (take nb blob) False = Inr (m\<lparr>sm_checksum := None\<rparr>, None)"
    and "HEADER_SIZE \<le> nb \<Longrightarrow> nb < HEADER_SIZE + length mb \<Longrightarrow> unpack_entry loads (take nb blob) False = Inl MetadataTruncated"
    and "HEADER_SIZE \<le> nb \<Longrightarrow> metadata_span (take nb blob) = Inr (HEADER_SIZE + length mb + META_SLACK)"
    and "HEADER_SIZE + length mb + META_SLACK \<le> length blob"
proof -
  from assms(1) obtain e where e: "pack_entry_parts dumps m [data] False None = Some e" and blob: "blob = pe_head e @ data" by (auto simp: pack_entry_Some)
  obtain h where h: "header_pack MAGIC (length mb) (length mb + META_SLACK) = Some h" and head: "pe_head e = h @ mb @ zeros META_SLACK"
  proof (rule pack_entry_parts_Some [OF e], goal_cases)
    case (1 crc mb' cap h)
    have "mb' = mb" using 1(2,3) by (simp add: assms(2) checksum_of_concat)
    then show ?case using 1 by simp
  qed
  note hd = header_pack_cases [OF h magic_lengths [OF magics_differ(2)]]
  have front: "take HEADER_SIZE (take nb blob) = h" if "HEADER_SIZE \<le> nb" using that hd(1) by (simp add: blob head min_absorb1)
  show "HEADER_SIZE + length mb + META_SLACK \<le> length blob" using hd(1) by (simp add: blob head)
  then have len: "length (take nb blob) = min nb (length blob)" "HEADER_SIZE + length mb \<le> length blob" by simp_all
  show "metadata_span (take nb blob) = Inr (HEADER_SIZE + length mb + META_SLACK)" if "HEADER_SIZE \<le> nb"
    using front [OF that] that len hd(2) by (simp add: metadata_span_def)
  show "unpack_entry loads (take nb blob) False = Inr (m\<lparr>sm_checksum := None\<rparr>, None)" if "HEADER_SIZE + length mb \<le> nb"
  proof -
    have "take (length mb) (drop HEADER_SIZE (take nb blob)) = mb" using that hd(1) by (simp add: blob head drop_take min_absorb1)
    then show ?thesis
      using front that len hd(2) magics_differ(2) assms(3) by (simp add: unpack_entry_def load_metadata_def and_then_Inr)
  qed
  show "unpack_entry loads (take nb blob) False = Inl MetadataTruncated" if "HEADER_SIZE \<le> nb" "nb < HEADER_SIZE + length mb"
    using front [OF that(1)] that len hd(2) magics_differ(2) by (simp add: unpack_entry_def)
qed

text \<open>
  C29: \<open>list_entries\<close> leaves out an entry whose pickled metadata does not lie within the first 8192 bytes of its object:
  \<open>get_metadata\<close> asks again for as many bytes as the header says, \<open>list_entries\<close> does not and skips the entry as unreadable. So such
  an entry is served but not listed, and \<open>cleanup_expired\<close>, which goes by the listing, never removes it.\<close>

theorem s3_list_misses_long_metadata:
  assumes "pack_entry (rk_dumps c) m data None = Some blob" and "mb = rk_dumps c (m\<lparr>sm_checksum := Some (checksum data)\<rparr>)"
    and "rk_loads c mb = Dict (m\<lparr>sm_checksum := Some (checksum data)\<rparr>)" and "METADATA_PREFETCH_BYTES < HEADER_SIZE + length mb"
    and "\<And>i. s3_list_pages (sb_client b) i (sb_prefix b) x = (x, [[s3_key b key]], None)"
    and "\<And>i nb. s3_get_range (sb_client b) i (s3_key b key) nb x = (x, Inr (take nb blob))"
  shows "snd (s3_list_entries c b n (remote_init x)) = Inr [] \<and>
    snd (s3_get_metadata c b n key (remote_init x)) = Inr (Some (remote_source S3_LABEL (m\<lparr>sm_checksum := None\<rparr>)))"
proof -
  note front = packed_front(1-3) [where loads = "rk_loads c" and nb = METADATA_PREFETCH_BYTES, OF assms(1-3)]
    and wide = packed_front(1) [where loads = "rk_loads c" and nb = "HEADER_SIZE + length mb + META_SLACK", OF assms(1-3)]
  have small: "HEADER_SIZE \<le> METADATA_PREFETCH_BYTES" by (simp add: HEADER_SIZE_def METADATA_PREFETCH_BYTES_def)
  have suffix: "endswith (s3_key b key) ENTRY_SUFFIX" by (simp add: endswith_def s3_key_def)
  have "snd (s3_list_entries c b n (remote_init x)) = Inr []"
    using front(2) [OF small assms(4)] suffix
    by (simp add: s3_list_entries_def nothing_queued init_server assms(5,6) Let_def)
  moreover have "length (take METADATA_PREFETCH_BYTES blob) < HEADER_SIZE + length mb + META_SLACK" using assms(4) by simp
  then have "s3_head c b (rn_in n) (s3_key b key) x = (x, Inr (Inr (m\<lparr>sm_checksum := None\<rparr>)))"
    using front(2) [OF small assms(4)] front(3) [OF small] wide assms(4) by (auto simp: s3_head_def assms(6))
  then have "snd (s3_get_metadata c b n key (remote_init x)) = Inr (Some (remote_source S3_LABEL (m\<lparr>sm_checksum := None\<rparr>)))"
    by (simp add: s3_get_metadata_def nothing_queued init_server Let_def)
  ultimately show ?thesis by blast
qed

subsection \<open>A small bucket\<close>

text \<open>A service that answers every request, its objects an association list.\<close>

definition small_bucket :: "(unit, (string \<times> byte list) list) s3_client" where
  "small_bucket = \<lparr>s3_put_object = \<lambda>_ k d x. (AList.update k d x, None),
     s3_get_object = \<lambda>_ k x. (x, case map_of x k of None \<Rightarrow> Inl NoSuchKey | Some d \<Rightarrow> Inr d),
     s3_get_range = \<lambda>_ k nb x. (x, case map_of x k of None \<Rightarrow> Inl NoSuchKey | Some d \<Rightarrow> Inr (take nb d)),
     s3_delete_object = \<lambda>_ k x. (AList.delete k x, None),
     s3_list_pages = \<lambda>_ p x. (x, [filter (\<lambda>k. startswith k p) (map fst x)], None),
     s3_delete_objects = \<lambda>_ ks x. (filter (\<lambda>(k, _). k \<notin> set ks) x, Inr [])\<rparr>"

definition small_s3 :: "(unit, (string \<times> byte list) list) s3_backend" where
  "small_s3 = \<lparr>sb_client = small_bucket, sb_prefix = ''cash/''\<rparr>"

lemma map_of_without: "map_of (filter (\<lambda>(k, _). k \<notin> ks) x) k = (if k \<in> ks then None else map_of x k)"
  by (induction x) auto

lemma small_bucket_laws: "s3_laws small_bucket map_of"
  unfolding s3_laws_def small_bucket_def
  by (auto simp: map_le_def dom_def update_conv' map_of_delete map_of_without split: option.splits dest: map_of_SomeD)
     (force dest: map_of_SomeD)+

text \<open>A codec that knows the metadata of one store, and booleans.\<close>

definition small_meta :: stored_meta where
  "small_meta = as_remote (remote_stamped S3_LABEL 10 ''a'' 1 None)"

definition one_codec :: "stored_meta \<Rightarrow> byte list \<Rightarrow> bool remote_codec" where
  "one_codec m bytes = \<lparr>rk_dumps = \<lambda>m'. if m' = m then bytes else [], rk_loads = \<lambda>b. if b = bytes then Dict m else Raises,
     rk_serialize = \<lambda>v. Some [of_bool v], rk_restore = \<lambda>_ b. Some (b = [1])\<rparr>"

lemma one_codec_faithful: "bytes \<noteq> [] \<Longrightarrow> faithful_codec (one_codec m bytes)"
  by (auto simp: faithful_codec_def one_codec_def of_bool_def)

definition quiet_env :: "unit remote_env" where
  "quiet_env = \<lparr>rn_now = 10, rn_in = \<lambda>_. (), rn_child = False, rn_rounds = 0, rn_work = \<lambda>_. \<lparr>rw_now = 10, rw_took = 1, rw_in = ()\<rparr>\<rparr>"

definition small_s3_call :: "unit s3_call" where
  "small_s3_call = \<lparr>sc_env = quiet_env, sc_meta = None, sc_sides = []\<rparr>"

definition small_s3_codec :: "bool remote_codec" where
  "small_s3_codec = one_codec (small_meta\<lparr>sm_checksum := Some (checksum [1])\<rparr>) [7]"

lemma small_packed: "\<exists>blob. pack_entry (rk_dumps small_s3_codec) small_meta [1] None = Some blob"
  by (simp add: pack_entry_def pack_entry_parts_def small_s3_codec_def one_codec_def checksum_of_concat header_pack_def pack_all.simps pack_uint_def entry_consts Let_def)

lemma packed_whole:
  assumes "pack_entry dumps m data None = Some blob" and "loads (dumps (m\<lparr>sm_checksum := Some (checksum data)\<rparr>)) = Dict (m\<lparr>sm_checksum := Some (checksum data)\<rparr>)"
  shows "unpack_entry loads blob True = Inr (m\<lparr>sm_checksum := None\<rparr>, Some data)"
proof (rule pack_entry_head [where loads = loads, OF assms], goal_cases)
  case (1 e cap)
  from 1(3) [of data, folded 1(1)] show ?case by (rule unpack_entry_file) (use 1(1,2) in simp_all)
qed

lemma small_s3_read: "snd (s3_read_op small_s3_codec small_s3 small_s3_call ''a'' (fst (s3_store_op small_s3_codec small_s3 small_s3_call ''a'' True (remote_init [])))) = Some True"
proof -
  let ?c = small_s3_codec and ?b = small_s3 and ?n = quiet_env
  obtain blob where blob: "pack_entry (rk_dumps ?c) small_meta [1] None = Some blob" using small_packed by blast
  define s1 where "s1 = fst (remote_submit (s3_do_set ?b) ?n ''a'' 1 blob (remote_init []))"
  have later: "remote_meanwhile do_set ?n s = s" for do_set and s :: "((string \<times> byte list) list, byte list) remote" by (simp add: remote_meanwhile_def quiet_env_def)
  have alive: "\<not> rn_child ?n" by (simp add: quiet_env_def)
  obtain f where sub: "remote_submit (s3_do_set ?b) ?n ''a'' 1 blob (remote_init []) = (s1, Inr f)"
    using first_write(1) [OF alive, of "s3_do_set ?b" "''a''" 1 blob "[]"] by (auto simp: s1_def prod_eq_iff)
  have "rk_serialize ?c True = Some [1]" "as_remote (remote_stamped S3_LABEL (rn_now ?n) ''a'' 1 None) = small_meta"
    by (simp_all add: small_s3_codec_def one_codec_def small_meta_def quiet_env_def)
  then have "s3_set ?c ?b ?n ''a'' True None (remote_init []) = (s1, None)" using blob sub by (simp add: s3_set_def)
  then have store: "fst (s3_store_op ?c ?b small_s3_call ''a'' True (remote_init [])) = s1"
    by (simp add: s3_store_op_def s3_so_far_def small_s3_call_def nothing_queued)
  have server: "rm_server (remote_wait (s3_do_set ?b) ?n ''a'' s1) = [(s3_key ?b ''a'', blob)]"
    using first_write(2) [OF alive, of "s3_do_set ?b" ?n "''a''" 1 blob "[]"] by (simp add: s1_def quiet_env_def s3_do_set_def small_s3_def small_bucket_def)
  have "unpack_entry (rk_loads ?c) blob True = Inr (small_meta\<lparr>sm_checksum := None\<rparr>, Some [1])"
    by (rule packed_whole [OF blob]) (simp add: small_s3_codec_def one_codec_def)
  then have "s3_restore ?c blob = Some (remote_source S3_LABEL (small_meta\<lparr>sm_checksum := None\<rparr>), True)"
    by (simp add: s3_restore_def small_s3_codec_def one_codec_def small_meta_def remote_stamped_def init_metadata_def no_metadata_def as_remote_def entry_metadata.defs Let_def)
  then obtain s2 where "s3_get ?c ?b ?n ''a'' s1 = (s2, Inr (Some (remote_source S3_LABEL (small_meta\<lparr>sm_checksum := None\<rparr>), True)))"
    using server by (simp add: s3_get_def small_s3_def small_bucket_def Let_def)
  then show ?thesis unfolding store by (simp add: s3_read_op_def s3_so_far_def small_s3_call_def later)
qed

theorem s3_serves_stored_witness:
  "snd (s3_read_op small_s3_codec small_s3 small_s3_call ''a'' (fst (s3_store_op small_s3_codec small_s3 small_s3_call ''a'' True (remote_init [])))) = Some True"
proof -
  let ?c = small_s3_codec and ?b = small_s3
  obtain s and vals :: "string \<Rightarrow> bool set" where run: "run_ops (s3_store_op ?c ?b) (s3_read_op ?c ?b) (s3_delete_op ?c ?b) (s3_clear_op ?c ?b)
      [StoreOp small_s3_call ''a'' True] (remote_init [], bucket_values ?c ?b map_of []) = (s, vals)" by (metis surj_pair)
  then have s: "s = fst (s3_store_op ?c ?b small_s3_call ''a'' True (remote_init []))" and vals: "vals ''a'' = {True}"
    by (auto simp: bucket_values_def)
  obtain v where v: "snd (s3_read_op ?c ?b small_s3_call ''a'' s) = Some v" using small_s3_read s by blast
  have "faithful_codec ?c" unfolding small_s3_codec_def by (rule one_codec_faithful) simp
  from s3_serves_stored [OF _ this run v] small_bucket_laws have "v = True" by (simp add: small_s3_def vals)
  with v show ?thesis by (simp add: s)
qed

definition long_codec :: "bool remote_codec" where
  "long_codec = one_codec (small_meta\<lparr>sm_checksum := Some (checksum [])\<rparr>) (replicate 9000 7)"

theorem s3_list_misses_long_metadata_witness:
  "\<exists>x. snd (s3_list_entries long_codec small_s3 quiet_env (remote_init x)) = Inr [] \<and>
    snd (s3_get_metadata long_codec small_s3 quiet_env ''a'' (remote_init x)) \<noteq> Inr None"
proof -
  obtain blob where blob: "pack_entry (rk_dumps long_codec) small_meta [] None = Some blob"
    by (simp add: pack_entry_def pack_entry_parts_def long_codec_def one_codec_def checksum_of_concat header_pack_def pack_all.simps pack_uint_def entry_consts Let_def)
  let ?x = "[(s3_key small_s3 ''a'', blob)]"
  have pages: "s3_list_pages (sb_client small_s3) i (sb_prefix small_s3) ?x = (?x, [[s3_key small_s3 ''a'']], None)" for i
    by (simp add: small_s3_def small_bucket_def s3_key_def startswith_def)
  have ranged: "s3_get_range (sb_client small_s3) i (s3_key small_s3 ''a'') nb ?x = (?x, Inr (take nb blob))" for i nb
    by (simp add: small_s3_def small_bucket_def)
  have "METADATA_PREFETCH_BYTES < HEADER_SIZE + length (rk_dumps long_codec (small_meta\<lparr>sm_checksum := Some (checksum [])\<rparr>))"
    by (simp add: METADATA_PREFETCH_BYTES_def entry_consts long_codec_def one_codec_def)
  from s3_list_misses_long_metadata [OF blob refl _ this pages ranged, of quiet_env] show ?thesis
    by (intro exI [of _ ?x]) (simp add: long_codec_def one_codec_def)
qed

end
