(* ===== verification/Clear_Watch.thy ===== *)
theory Clear_Watch
  imports Prelude
begin

text \<open>
  Noticing that the disk tier was cleared by another process (\<open>src/cash/backends/clear_watch.py\<close>):
  the generation token of the cache directory moves on a clear, and a \<open>ClearWatcher\<close> compares it
  at most once a second.

  A token is \<open>'t option\<close> (\<open>None\<close>: the directory has no stamp); the watcher's own record of it is one
  more option, \<open>None\<close> before the first look.
\<close>

record 't watcher =
  cw_generation :: "'t option option"
  cw_checked_at :: seconds
  cw_stamp_writes_seen :: nat

definition CHECK_EVERY :: seconds where "CHECK_EVERY = 1"

definition watcher_init :: "'t watcher" where
  "watcher_init = \<lparr>cw_generation = None, cw_checked_at = 0, cw_stamp_writes_seen = 0\<rparr>"

text \<open>What the disk tier answers: its token (\<open>Inl\<close>: asking raised), how often this process stamped
  the directory, and the token its last stamp left.\<close>

record 't disk_stamp =
  ds_token :: "string + 't option"
  ds_stamp_writes :: nat
  ds_written_stamp :: "'t option"

definition moved_by_us :: "'t option \<Rightarrow> 't option \<Rightarrow> 't watcher \<Rightarrow> 't watcher" where
  "moved_by_us before after w = (if cw_generation w = Some before then w\<lparr>cw_generation := Some after\<rparr> else w)"

definition restamped :: "nat \<Rightarrow> nat \<Rightarrow> bool" where
  "restamped writes seen = (seen < writes \<and> (1 \<le> seen \<or> 2 \<le> writes - seen))"

definition known_token :: "'t disk_stamp \<Rightarrow> 't watcher \<Rightarrow> 't option" where
  "known_token disk w = (
     let known = (case cw_generation w of None \<Rightarrow> None | Some g \<Rightarrow> g) in
     if known = None \<and> ds_stamp_writes disk \<noteq> cw_stamp_writes_seen w then ds_written_stamp disk else known)"

definition cleared :: "seconds \<Rightarrow> 't disk_stamp \<Rightarrow> 't watcher \<Rightarrow> 't watcher \<times> bool" where
  "cleared now disk w = (
     if now - cw_checked_at w < CHECK_EVERY then (w, False)
     else let w = w\<lparr>cw_checked_at := now\<rparr> in
       case ds_token disk of
         Inl _ \<Rightarrow> (w, False)
       | Inr token \<Rightarrow>
           let known = known_token disk w in
           (w\<lparr>cw_stamp_writes_seen := ds_stamp_writes disk, cw_generation := Some token\<rparr>,
            restamped (ds_stamp_writes disk) (cw_stamp_writes_seen w) \<or> (known \<noteq> None \<and> token \<noteq> known)))"

subsection \<open>What a look tells\<close>

lemma cleared_moved:
  assumes "CHECK_EVERY \<le> now - cw_checked_at w" and "ds_token disk = Inr token"
    and "cw_generation w = Some (Some g)" and "token \<noteq> Some g"
  shows "snd (cleared now disk w)"
  using assms by (simp add: cleared_def known_token_def Let_def)

text \<open>A look that found a clear, or found nothing, is not repeated by the next one while the directory
  stays as it is.\<close>

lemma cleared_once:
  assumes "cleared now disk w = (w', b)" and "CHECK_EVERY \<le> now - cw_checked_at w" and "ds_token disk = Inr token"
  shows "\<not> snd (cleared later disk w')"
  using assms by (auto simp: cleared_def known_token_def restamped_def Let_def)

text \<open>What this process removed itself is no clear, unless the token had moved before.\<close>

lemma own_move_unnoticed:
  assumes "cw_generation w = Some before" and "ds_token disk = Inr after" and "ds_stamp_writes disk = cw_stamp_writes_seen w"
  shows "\<not> snd (cleared now disk (moved_by_us before after w))"
  using assms by (auto simp: cleared_def moved_by_us_def known_token_def restamped_def Let_def)

text \<open>A process that wrote the first stamp of a directory learns of a clear behind that stamp: the
  directory's token is another one, or it had to stamp the directory again.\<close>

lemma cleared_behind_first_stamp:
  assumes "CHECK_EVERY \<le> now - cw_checked_at w" and "ds_token disk = Inr token" and "cw_generation w \<in> {None, Some None}"
    and "cw_stamp_writes_seen w = 0" and "0 < ds_stamp_writes disk" and "ds_written_stamp disk \<noteq> None"
  shows "snd (cleared now disk w) \<longleftrightarrow> 2 \<le> ds_stamp_writes disk \<or> token \<noteq> ds_written_stamp disk"
  using assms by (auto simp: cleared_def known_token_def restamped_def Let_def)

end
