(* ===== verification/Store_Notices.thy ===== *)
theory Store_Notices
  imports Entry_Meta
begin

text \<open>
  What a tiered store tells the user about values it kept in RAM alone
  (class \<open>StoreNotices\<close> of \<open>src/cash/backends/store_notices.py\<close>): two notices, each said once, the
  second held back while a notebook cell runs. The wording is not modelled: a notice is the
  refusals it names.
\<close>

type_synonym refusal = "string \<times> bytes_t \<times> pyfloat \<times> string list"

datatype notice = TooBig string bytes_t "bytes_t list" | NotWorthBytes "refusal list"

record notices =
  nt_warned_too_big :: bool
  nt_warned_not_worth :: "string list"
  nt_held :: "refusal list option"
  nt_said :: "notice list"

definition notices_init :: notices where
  "notices_init = \<lparr>nt_warned_too_big = False, nt_warned_not_worth = [], nt_held = None, nt_said = []\<rparr>"

definition hold :: "notices \<Rightarrow> notices" where
  "hold n = n\<lparr>nt_held := Some []\<rparr>"

definition say_not_worth :: "refusal list \<Rightarrow> notices \<Rightarrow> notices" where
  "say_not_worth refused n = n\<lparr>nt_said := nt_said n @ [NotWorthBytes refused]\<rparr>"

definition release :: "notices \<Rightarrow> notices" where
  "release n = (let held = nt_held n; n = n\<lparr>nt_held := None\<rparr> in
     case held of Some (r # rs) \<Rightarrow> say_not_worth (r # rs) n | _ \<Rightarrow> n)"

definition too_big :: "string \<Rightarrow> bytes_t \<Rightarrow> bytes_t list \<Rightarrow> notices \<Rightarrow> notices" where
  "too_big key size_bytes caps n = (if nt_warned_too_big n then n
     else n\<lparr>nt_warned_too_big := True, nt_said := nt_said n @ [TooBig key size_bytes caps]\<rparr>)"

text \<open>A statement is known by its code, trimmed of white space, or else by its key.\<close>

definition space_char :: "char \<Rightarrow> bool" where
  "space_char c = (c \<in> set '' '' \<or> of_char c \<in> {9 .. 13 :: nat} \<or> of_char c \<in> {28 .. 31 :: nat})"

definition strip :: "string \<Rightarrow> string" where
  "strip t = rev (dropWhile space_char (rev (dropWhile space_char t)))"

definition refusal_ident :: "string \<Rightarrow> string option \<Rightarrow> string" where
  "refusal_ident key code = (let c = strip (case code of None \<Rightarrow> '''' | Some c \<Rightarrow> c) in if c = '''' then key else c)"

definition not_worth_bytes :: "string \<Rightarrow> bytes_t \<Rightarrow> pyfloat \<Rightarrow> string option \<Rightarrow> string list \<Rightarrow> notices \<Rightarrow> notices" where
  "not_worth_bytes key size_bytes compute_seconds code decorated n = (
     let ident = refusal_ident key code in
     if ident \<in> set (nt_warned_not_worth n) then n
     else let n = n\<lparr>nt_warned_not_worth := nt_warned_not_worth n @ [ident]\<rparr>;
              refusal = (ident, size_bytes, compute_seconds, decorated) in
       case nt_held n of
         Some held \<Rightarrow> n\<lparr>nt_held := Some (held @ [refusal])\<rparr>
       | None \<Rightarrow> say_not_worth [refusal] n)"

subsection \<open>No refusal is said twice, and none is lost\<close>

definition refusals_said :: "notices \<Rightarrow> refusal list" where
  "refusals_said n = concat (map (\<lambda>x. case x of NotWorthBytes rs \<Rightarrow> rs | _ \<Rightarrow> []) (nt_said n))"

definition refusals_known :: "notices \<Rightarrow> refusal list" where
  "refusals_known n = refusals_said n @ (case nt_held n of None \<Rightarrow> [] | Some held \<Rightarrow> held)"

text \<open>Every statement warned of is named by exactly one refusal, said or held.\<close>

definition notices_ok :: "notices \<Rightarrow> bool" where
  "notices_ok n = (map fst (refusals_known n) = nt_warned_not_worth n \<and> distinct (nt_warned_not_worth n) \<and>
     length (filter (\<lambda>x. case x of TooBig _ _ _ \<Rightarrow> True | _ \<Rightarrow> False) (nt_said n)) = (if nt_warned_too_big n then 1 else 0))"

lemma say_not_worth_fields:
  "refusals_said (say_not_worth rs n) = refusals_said n @ rs" "nt_held (say_not_worth rs n) = nt_held n"
  "nt_warned_not_worth (say_not_worth rs n) = nt_warned_not_worth n" "nt_warned_too_big (say_not_worth rs n) = nt_warned_too_big n"
  "filter (\<lambda>x. case x of TooBig _ _ _ \<Rightarrow> True | _ \<Rightarrow> False) (nt_said (say_not_worth rs n)) =
   filter (\<lambda>x. case x of TooBig _ _ _ \<Rightarrow> True | _ \<Rightarrow> False) (nt_said n)"
  by (simp_all add: say_not_worth_def refusals_said_def)

lemma notices_ok_init: "notices_ok notices_init"
  by (simp add: notices_ok_def notices_init_def refusals_known_def refusals_said_def)

lemma notices_ok_not_worth: "notices_ok n \<Longrightarrow> notices_ok (not_worth_bytes key sz secs code decorated n)"
  by (auto simp: notices_ok_def not_worth_bytes_def refusals_known_def Let_def say_not_worth_fields refusals_said_def say_not_worth_def split: option.splits)

lemma notices_ok_release: "notices_ok n \<Longrightarrow> notices_ok (release n)"
  by (auto simp: notices_ok_def release_def refusals_known_def Let_def say_not_worth_fields refusals_said_def say_not_worth_def split: option.splits list.splits)

lemma notices_ok_too_big: "notices_ok n \<Longrightarrow> notices_ok (too_big key sz caps n)"
  by (simp add: notices_ok_def too_big_def refusals_known_def refusals_said_def)

end
