(* ===== verification/Tiered_Backend.thy ===== *)
theory Tiered_Backend
  imports Persistence_Policy Memory_Tier Clear_Watch Store_Notices
begin

text \<open>
  Tiers ordered fastest first (class \<open>TieredBackend\<close> of \<open>src/cash/backends/tiered_backend.py\<close>): a
  value goes to the first tier, the persistence policy decides whether it goes on to the others,
  and a read from a slower tier is offered to the faster ones.

  A tier is a state \<open>'s\<close> together with the operations of its class (\<open>backend\<close>, the methods of
  \<open>CacheBackend\<close> and the optional ones the tiered backend looks for). Every call of a tier's operation
  is told what it meets (\<open>'i\<close>) by the step it belongs to, the key and the tier's index. A metadata
  dict the tiers share is a number: \<open>b_write_back\<close> is what changing that dict does to the tier
  that keeps it. A value is opaque; what cash measures of it is \<open>value_facts\<close>.
\<close>

subsection \<open>A tier\<close>

text \<open>What a tier raised, and whether it is because rebuilding the value would write a file.\<close>

record failure =
  fl_text :: string
  fl_writes_a_file :: bool

text \<open>How a persistent tier is handed the value: \<open>private\<close>, \<open>copied\<close> and \<open>serialized\<close> of \<open>set\<close>.\<close>

record handing =
  h_private :: bool
  h_copied :: bool
  h_serialized :: bool

definition plain :: handing where
  "plain = \<lparr>h_private = False, h_copied = False, h_serialized = False\<rparr>"

record ('i, 's, 'v) backend =
  b_get :: "'i \<Rightarrow> string \<Rightarrow> 's \<Rightarrow> 's \<times> (failure + (entry_metadata \<times> 'v) option)"
  b_set :: "'i \<Rightarrow> handing \<Rightarrow> string \<Rightarrow> 'v \<Rightarrow> entry_metadata \<Rightarrow> nat \<Rightarrow> 's \<Rightarrow> 's \<times> entry_metadata \<times> (failure + bool)"
  b_delete :: "'i \<Rightarrow> string \<Rightarrow> 's \<Rightarrow> 's \<times> failure option"
  b_clear :: "'i \<Rightarrow> 's \<Rightarrow> 's \<times> failure option"
  b_promote :: "'i \<Rightarrow> string \<Rightarrow> 'v \<Rightarrow> entry_metadata \<Rightarrow> nat \<Rightarrow> 's \<Rightarrow> ('s \<times> entry_metadata \<times> (failure + bool)) option"
  b_get_metadata :: "'i \<Rightarrow> string \<Rightarrow> 's \<Rightarrow> 's \<times> (failure + entry_metadata option)"
  b_peek_metadata :: "'i \<Rightarrow> string \<Rightarrow> 's \<Rightarrow> 's \<times> (failure + entry_metadata option)"
  b_set_metadata_only :: "'i \<Rightarrow> string \<Rightarrow> entry_metadata \<Rightarrow> 's \<Rightarrow> 's \<times> failure option"
  b_bump_generation :: "'i \<Rightarrow> 's \<Rightarrow> 's \<times> failure option"
  b_list_entries :: "'i \<Rightarrow> 's \<Rightarrow> 's \<times> (failure + entry_metadata list)"
  b_entry_count :: "'i \<Rightarrow> 's \<Rightarrow> 's \<times> (failure + nat)"
  b_shutdown :: "'i \<Rightarrow> 's \<Rightarrow> 's \<times> failure option"
  b_peek_entry :: "'i \<Rightarrow> bool \<Rightarrow> string \<Rightarrow> 's \<Rightarrow> failure + (entry_metadata \<times> nat \<times> 'v option) option"
  b_private_copy :: "string \<Rightarrow> nat \<Rightarrow> 's \<Rightarrow> 'v option"
  b_stored_payload :: "'i \<Rightarrow> string \<Rightarrow> nat \<Rightarrow> 's \<Rightarrow> ('v \<times> nat) option"
  b_write_copy :: "'i \<Rightarrow> string \<Rightarrow> 'v \<Rightarrow> entry_metadata \<Rightarrow> 's \<Rightarrow> 'v option"
  b_may_share :: "string \<Rightarrow> 's \<Rightarrow> bool"
  b_holds_own_copy :: "string \<Rightarrow> 's \<Rightarrow> bool"
  b_release_handoff :: "'s \<Rightarrow> 's"
  b_write_back :: "nat \<Rightarrow> entry_metadata \<Rightarrow> 's \<Rightarrow> 's"
  b_note_restore :: "value_class \<Rightarrow> entry_metadata \<Rightarrow> seconds \<Rightarrow> 's \<Rightarrow> 's"
  b_label :: "'s \<Rightarrow> string"
  b_class :: "'s \<Rightarrow> string"
  b_cost_kind :: "'s \<Rightarrow> string"
  b_default_ttl :: "'s \<Rightarrow> pyfloat option"
  b_size_cap :: "'i \<Rightarrow> 's \<Rightarrow> bytes_t option"
  b_takes_private :: "'s \<Rightarrow> bool"
  b_compress :: "'s \<Rightarrow> bool"
  b_local_dir :: "'s \<Rightarrow> string option"
  b_stamp :: "'i \<Rightarrow> 's \<Rightarrow> nat disk_stamp"

text \<open>The steps of an operation that call a tier.\<close>

datatype step = Reading | Rereading | Dropping | Promoting | Storing | Clearing | Asking | Peeking

text \<open>What is measured of the value of a key: what a store would copy of it, its footprint, its pickle
  (out of band parts apart, \<open>None\<close> when it is not pickled or another serializer is given), its serialized size,
  the estimate of it, its sampled write cost, and what a notice names it by.\<close>

record value_facts =
  vf_class :: value_class
  vf_copies :: "bytes_t option"
  vf_footprint :: bytes_t
  vf_pickle_serializer :: bool
  vf_split :: "nat option"
  vf_serialized :: "nat option"
  vf_estimate :: nat
  vf_sampled :: "sampled_cost option"
  vf_named :: "string option"
  vf_decorated :: "string list"

text \<open>What reading took, and whether modules were imported meanwhile; likewise for a second reading.\<close>

record restore_facts =
  rf_seconds :: seconds
  rf_imported :: bool
  rf_again :: seconds
  rf_again_imported :: bool

record 'i tiered_env =
  tn_now :: seconds
  tn_monotonic :: seconds
  tn_in :: "step \<Rightarrow> string \<Rightarrow> nat \<Rightarrow> 'i"
  tn_value :: "string \<Rightarrow> value_facts"
  tn_restore :: "nat \<Rightarrow> restore_facts"

record 's tiered =
  td_tiers :: "'s list"
  td_policy :: persistence_policy
  td_promotion_policy :: "(pyfloat \<Rightarrow> bytes_t \<Rightarrow> bool) option"
  td_notices :: notices
  td_late_writes_refused :: nat
  td_watch :: "nat watcher"
  td_read_once :: "string list"
  td_next_dict :: nat

definition tiered_init :: "'s list \<Rightarrow> persistence_policy \<Rightarrow> (pyfloat \<Rightarrow> bytes_t \<Rightarrow> bool) option \<Rightarrow> 's tiered" where
  "tiered_init tiers policy override = \<lparr>td_tiers = tiers, td_policy = policy, td_promotion_policy = override,
     td_notices = notices_init, td_late_writes_refused = 0, td_watch = watcher_init, td_read_once = [], td_next_dict = 0\<rparr>"

definition put_tier :: "nat \<Rightarrow> 's \<Rightarrow> 's tiered \<Rightarrow> 's tiered" where
  "put_tier i s td = td\<lparr>td_tiers := (td_tiers td)[i := s]\<rparr>"

abbreviation tier_at :: "'s tiered \<Rightarrow> nat \<Rightarrow> 's" where
  "tier_at td i \<equiv> td_tiers td ! i"

subsection \<open>What the tiers say together\<close>

fun first_some :: "('a \<Rightarrow> 'b option) \<Rightarrow> 'a list \<Rightarrow> 'b option" where
  "first_some f [] = None"
| "first_some f (x # xs) = (case f x of Some y \<Rightarrow> Some y | None \<Rightarrow> first_some f xs)"

definition tiered_default_ttl :: "('i, 's, 'v) backend \<Rightarrow> 's tiered \<Rightarrow> pyfloat option" where
  "tiered_default_ttl b td = first_some (b_default_ttl b) (td_tiers td)"

definition tiered_local_dir :: "('i, 's, 'v) backend \<Rightarrow> 's tiered \<Rightarrow> string option" where
  "tiered_local_dir b td = first_some (b_local_dir b) (td_tiers td)"

text \<open>The index of the tier whose directory can be cleared under this process.\<close>

definition disk_tier :: "('i, 's, 'v) backend \<Rightarrow> 's tiered \<Rightarrow> nat option" where
  "disk_tier b td = List.find (\<lambda>i. b_local_dir b (tier_at td i) \<noteq> None) [0..<length (td_tiers td)]"

definition tier_labels :: "('i, 's, 'v) backend \<Rightarrow> 's tiered \<Rightarrow> string list" where
  "tier_labels b td = map (b_label b) (td_tiers td)"

definition persisted :: "('i, 's, 'v) backend \<Rightarrow> 's tiered \<Rightarrow> string list \<Rightarrow> bool" where
  "persisted b td storage = (
     let volatile = map (b_label b) (filter (\<lambda>s. b_cost_kind b s = ''ram'') (td_tiers td)) in
     list_ex (\<lambda>label. label \<notin> set volatile) storage)"

definition promotion_backend_kind :: "('i, 's, 'v) backend \<Rightarrow> 's tiered \<Rightarrow> string" where
  "promotion_backend_kind b td = (if 1 < length (td_tiers td) then b_cost_kind b (tier_at td 1) else ''disk'')"

text \<open>The metadata dict \<open>d\<close> changed: the tiers that keep it see it.\<close>

definition write_back :: "('i, 's, 'v) backend \<Rightarrow> nat \<Rightarrow> entry_metadata \<Rightarrow> 's tiered \<Rightarrow> 's tiered" where
  "write_back b d m td = td\<lparr>td_tiers := map (b_write_back b d m) (td_tiers td)\<rparr>"

definition release_first :: "('i, 's, 'v) backend \<Rightarrow> 's tiered \<Rightarrow> 's tiered" where
  "release_first b td = put_tier 0 (b_release_handoff b (tier_at td 0)) td"

subsection \<open>Removing\<close>

text \<open>A tier that raises ends the loop.\<close>

fun each_tier :: "(nat \<Rightarrow> 's \<Rightarrow> 's \<times> failure option) \<Rightarrow> nat list \<Rightarrow> 's tiered \<Rightarrow> 's tiered \<times> failure option" where
  "each_tier f [] td = (td, None)"
| "each_tier f (i # rest) td = (case f i (tier_at td i) of
       (s, Some e) \<Rightarrow> (put_tier i s td, Some e)
     | (s, None) \<Rightarrow> each_tier f rest (put_tier i s td))"

definition tiered_delete :: "('i, 's, 'v) backend \<Rightarrow> 'i tiered_env \<Rightarrow> string \<Rightarrow> 's tiered \<Rightarrow> 's tiered \<times> failure option" where
  "tiered_delete b n key td = each_tier (\<lambda>i. b_delete b (tn_in n Dropping key i) key) [0..<length (td_tiers td)] td"

definition tiered_clear :: "('i, 's, 'v) backend \<Rightarrow> 'i tiered_env \<Rightarrow> 's tiered \<Rightarrow> 's tiered \<times> failure option" where
  "tiered_clear b n td = each_tier (\<lambda>i. b_clear b (tn_in n Clearing '''' i)) [0..<length (td_tiers td)] td"

text \<open>Deleting from one tier, whatever it raises: an expired copy, one that proved slow, an older copy
  of a value that goes to disk alone.\<close>

definition drop_from :: "('i, 's, 'v) backend \<Rightarrow> 'i tiered_env \<Rightarrow> string \<Rightarrow> nat \<Rightarrow> 's tiered \<Rightarrow> 's tiered" where
  "drop_from b n key i td = put_tier i (fst (b_delete b (tn_in n Dropping key i) key (tier_at td i))) td"

text \<open>\<open>_drop_persisted_call_refs\<close>: from the tiers past the first.\<close>

definition drop_persisted_call_refs :: "('i, 's, 'v) backend \<Rightarrow> 'i tiered_env \<Rightarrow> string list \<Rightarrow> 's tiered \<Rightarrow> 's tiered" where
  "drop_persisted_call_refs b n refs td =
     fold (\<lambda>ref td. fold (drop_from b n ref) [1..<length (td_tiers td)] td) refs td"

subsection \<open>Clears from outside\<close>

text \<open>The tiers in front of the disk tier are emptied, whatever they raise.\<close>

definition clear_one :: "('i, 's, 'v) backend \<Rightarrow> 'i tiered_env \<Rightarrow> nat \<Rightarrow> 's tiered \<Rightarrow> 's tiered" where
  "clear_one b n i td = put_tier i (fst (b_clear b (tn_in n Clearing '''' i) (tier_at td i))) td"

definition drop_ram_if_cleared :: "('i, 's, 'v) backend \<Rightarrow> 'i tiered_env \<Rightarrow> 's tiered \<Rightarrow> 's tiered" where
  "drop_ram_if_cleared b n td = (case disk_tier b td of
       None \<Rightarrow> td
     | Some i \<Rightarrow>
         let (w, gone) = cleared (tn_monotonic n) (b_stamp b (tn_in n Asking '''' i) (tier_at td i)) (td_watch td);
             td = td\<lparr>td_watch := w\<rparr> in
         if gone then fold (clear_one b n) [0..<i] td else td)"

subsection \<open>Reading\<close>

definition READ_ONCE_KEYS :: nat where "READ_ONCE_KEYS = 4096"

definition remember_read :: "string \<Rightarrow> 's tiered \<Rightarrow> 's tiered" where
  "remember_read key td = (
     let ks = (if key \<in> set (td_read_once td) then td_read_once td else td_read_once td @ [key]) in
     td\<lparr>td_read_once := drop (length ks - READ_ONCE_KEYS) ks\<rparr>)"

text \<open>\<open>memory_backend.restored_no_faster\<close>: what the restore teaches about the value's class is the
  process's, and the RAM tier's next stores go by it.\<close>

definition note_restore :: "('i, 's, 'v) backend \<Rightarrow> value_class \<Rightarrow> entry_metadata \<Rightarrow> seconds \<Rightarrow> 's tiered \<Rightarrow> 's tiered \<times> bool" where
  "note_restore b kind m seconds td =
     (td\<lparr>td_tiers := map (b_note_restore b kind m seconds) (td_tiers td)\<rparr>, snd (restored_no_faster kind m seconds []))"

text \<open>A slow restore is timed again; a reading during which modules were imported does not count. The
  second reading is infinite when it fails. The answer: what the restore took, and whether that counts.\<close>

definition time_restore :: "('i, 's, 'v) backend \<Rightarrow> 'i tiered_env \<Rightarrow> string \<Rightarrow> nat \<Rightarrow> entry_metadata \<Rightarrow> 's tiered \<Rightarrow> 's tiered \<times> seconds \<times> bool" where
  "time_restore b n key i m td = (
     let rf = tn_restore n i in
     if \<not> restore_too_slow (vf_class (tn_value n key)) m (rf_seconds rf) then (td, rf_seconds rf, \<not> rf_imported rf)
     else (case b_get b (tn_in n Rereading key i) key (tier_at td i) of
         (s, Inr (Some _)) \<Rightarrow> (put_tier i s td, if rf_imported rf then rf_again rf else min (rf_seconds rf) (rf_again rf), \<not> rf_again_imported rf)
       | (s, _) \<Rightarrow> (put_tier i s td, rf_seconds rf, \<not> rf_imported rf \<and> \<not> rf_again_imported rf)))"

definition judge_restore :: "('i, 's, 'v) backend \<Rightarrow> 'i tiered_env \<Rightarrow> string \<Rightarrow> nat \<Rightarrow> entry_metadata \<Rightarrow> 's tiered \<Rightarrow> 's tiered" where
  "judge_restore b n key i m td = (case time_restore b n key i m td of (td, seconds, counts) \<Rightarrow>
     if \<not> counts then td
     else case note_restore b (vf_class (tn_value n key)) m seconds td of (td, slow) \<Rightarrow>
       if slow then drop_from b n key i td else td)"

text \<open>The faster tiers are offered the value; a tier that would have to copy it takes it on its second
  read. The metadata dict is a new one, which each tier may write to.\<close>

fun promote_to :: "('i, 's, 'v) backend \<Rightarrow> 'i tiered_env \<Rightarrow> string \<Rightarrow> 'v \<Rightarrow> nat \<Rightarrow> bool \<Rightarrow> nat list \<Rightarrow> entry_metadata \<Rightarrow> 's tiered \<Rightarrow> 's tiered \<times> entry_metadata" where
  "promote_to b n key v d read_before [] m td = (td, m)"
| "promote_to b n key v d read_before (j # rest) m td = (
     let i = tn_in n Promoting key j in
     case (if read_before then None else b_promote b i key v m d (tier_at td j)) of
       Some (s, m', r) \<Rightarrow>
         let td = put_tier j s td in
         promote_to b n key v d read_before rest m' (if r = Inr False then remember_read key td else td)
     | None \<Rightarrow> (case b_set b i plain key v m d (tier_at td j) of
           (s, m', _) \<Rightarrow> promote_to b n key v d read_before rest m' (put_tier j s td)))"

definition promote :: "('i, 's, 'v) backend \<Rightarrow> 'i tiered_env \<Rightarrow> string \<Rightarrow> nat \<Rightarrow> 'v \<Rightarrow> entry_metadata \<Rightarrow> 's tiered \<Rightarrow> 's tiered \<times> entry_metadata" where
  "promote b n key i v m td = (
     let read_before = key \<in> set (td_read_once td);
         d = td_next_dict td;
         td = td\<lparr>td_read_once := removeAll key (td_read_once td), td_next_dict := d + 1\<rparr>;
         (td, m) = promote_to b n key v d read_before [0..<(if m_disk_alone m then 0 else i)] m td;
         m = m\<lparr>m_source := Some (b_label b (tier_at td i))\<rparr> in
     (write_back b d m td, m))"

fun get_from :: "('i, 's, 'v) backend \<Rightarrow> 'i tiered_env \<Rightarrow> string \<Rightarrow> nat list \<Rightarrow> 's tiered \<Rightarrow> 's tiered \<times> (entry_metadata \<times> 'v) option" where
  "get_from b n key [] td = (td, None)"
| "get_from b n key (i # rest) td = (case b_get b (tn_in n Reading key i) key (tier_at td i) of
       (s, Inl _) \<Rightarrow> get_from b n key rest (put_tier i s td)
     | (s, Inr None) \<Rightarrow> get_from b n key rest (put_tier i s td)
     | (s, Inr (Some (m, v))) \<Rightarrow>
         let td = put_tier i s td in
         if entry_expired m (tiered_default_ttl b td) (tn_now n) VNone then get_from b n key rest (drop_from b n key i td)
         else let td = (if 0 < i then judge_restore b n key i m td else td);
                  (td, m) = promote b n key i v m td in
           (td, Some (m, v)))"

definition tiered_get :: "('i, 's, 'v) backend \<Rightarrow> 'i tiered_env \<Rightarrow> string \<Rightarrow> 's tiered \<Rightarrow> 's tiered \<times> (entry_metadata \<times> 'v) option" where
  "tiered_get b n key td = get_from b n key [0..<length (td_tiers td)] (drop_ram_if_cleared b n td)"

subsection \<open>Writing to the persistent tiers\<close>

text \<open>\<open>_writes_bytes_as_they_are\<close>.\<close>

definition as_they_are :: "('i, 's, 'v) backend \<Rightarrow> 's \<Rightarrow> bool" where
  "as_they_are b s = (b_takes_private b s \<and> \<not> b_compress b s)"

definition any_takes_private :: "('i, 's, 'v) backend \<Rightarrow> 's tiered \<Rightarrow> bool" where
  "any_takes_private b td = list_ex (b_takes_private b) (tl (td_tiers td))"

record tier_writes =
  tw_stored :: "string list"
  tw_size_refused :: bool
  tw_refused_size :: bytes_t
  tw_refusing_caps :: "bytes_t list"
  tw_errors :: "string list"

definition no_writes :: "bytes_t \<Rightarrow> tier_writes" where
  "no_writes cap_size = \<lparr>tw_stored = [], tw_size_refused = False, tw_refused_size = cap_size, tw_refusing_caps = [], tw_errors = []\<rparr>"

definition error_text :: "('i, 's, 'v) backend \<Rightarrow> 's \<Rightarrow> failure \<Rightarrow> string" where
  "error_text b s e = b_class b s @ '': '' @ fl_text e"

text \<open>What is written: the entry's key, value, metadata and dict, whether the value is the RAM tier's own or a
  copy made for this write, and its pickle bytes where they are at hand.\<close>

record 'v payload =
  pl_key :: string
  pl_value :: 'v
  pl_dict :: nat
  pl_private :: bool
  pl_copied :: bool

text \<open>About to refuse: the value is measured by its serialized form. \<open>serialized\<close> is the bytes at hand
  (the RAM tier's, or the probe's) and whether they were made for this write; the answer is that and the size, or the
  size it was refused for.\<close>

definition probe_size :: "'i tiered_env \<Rightarrow> string \<Rightarrow> bool \<Rightarrow> bool \<Rightarrow> bytes_t \<Rightarrow> bytes_t \<Rightarrow> (nat \<times> bool) option \<Rightarrow>
    bytes_t + (bytes_t \<times> (nat \<times> bool) option)" where
  "probe_size n key bytes_as_they_are private cap cap_size serialized = (
     let vf = tn_value n key;
         probed = (case serialized of
             Some x \<Rightarrow> Some x
           | None \<Rightarrow> if bytes_as_they_are then map_option (\<lambda>k. (k, \<not> private)) (vf_split vf) else None);
         true_size = (case probed of Some (k, _) \<Rightarrow> Some k | None \<Rightarrow> vf_serialized vf) in
     case true_size of
       Some t \<Rightarrow> if int t \<le> cap then Inr (int t, probed) else Inl (if t = 0 then cap_size else int t)
     | None \<Rightarrow> Inl cap_size)"

fun write_tiers :: "('i, 's, 'v) backend \<Rightarrow> 'i tiered_env \<Rightarrow> 'v payload \<Rightarrow> nat list \<Rightarrow> bytes_t \<Rightarrow> (nat \<times> bool) option \<Rightarrow>
    entry_metadata \<Rightarrow> tier_writes \<Rightarrow> 's tiered \<Rightarrow> 's tiered \<times> entry_metadata \<times> tier_writes" where
  "write_tiers b n p [] cap_size serialized m w td = (td, m, w)"
| "write_tiers b n p (i # rest) cap_size serialized m w td = (
     let s = tier_at td i; inp = tn_in n Storing (pl_key p) i in
     case (case b_size_cap b inp s of
             Some cap \<Rightarrow> if cap_size \<noteq> 0 \<and> cap < cap_size
               then probe_size n (pl_key p) (as_they_are b s) (pl_private p) cap cap_size serialized
               else Inr (cap_size, serialized)
           | None \<Rightarrow> Inr (cap_size, serialized)) of
       Inl refused \<Rightarrow> write_tiers b n p rest cap_size serialized m
           (w\<lparr>tw_size_refused := True, tw_refused_size := refused,
              tw_refusing_caps := tw_refusing_caps w @ [the (b_size_cap b inp s)]\<rparr>) td
     | Inr (cap_size, serialized) \<Rightarrow>
         let how = (case serialized of
                 Some (_, made) \<Rightarrow> if b_takes_private b s then \<lparr>h_private = False, h_copied = made, h_serialized = True\<rparr> else plain
               | None \<Rightarrow> if pl_private p \<and> b_takes_private b s then \<lparr>h_private = True, h_copied = pl_copied p, h_serialized = False\<rparr> else plain) in
         (case b_set b inp how (pl_key p) (pl_value p) m (pl_dict p) s of
            (s', m', Inl e) \<Rightarrow> write_tiers b n p rest cap_size serialized m' (w\<lparr>tw_errors := tw_errors w @ [error_text b s e]\<rparr>) (put_tier i s' td)
          | (s', m', Inr _) \<Rightarrow> write_tiers b n p rest cap_size serialized m' (w\<lparr>tw_stored := tw_stored w @ [b_label b s]\<rparr>) (put_tier i s' td)))"

text \<open>Bytes the RAM tier keeps were not made for the write.\<close>

definition write_persistent_tiers :: "('i, 's, 'v) backend \<Rightarrow> 'i tiered_env \<Rightarrow> 'v payload \<Rightarrow> bytes_t \<Rightarrow> nat option \<Rightarrow>
    entry_metadata \<Rightarrow> 's tiered \<Rightarrow> 's tiered \<times> entry_metadata \<times> tier_writes" where
  "write_persistent_tiers b n p cap_size serialized m td =
     write_tiers b n p [1..<length (td_tiers td)] cap_size (map_option (\<lambda>k. (k, False)) serialized) m (no_writes cap_size) td"

text \<open>\<open>_private_copy\<close> and \<open>_write_copy\<close>.\<close>

definition own_copy :: "('i, 's, 'v) backend \<Rightarrow> string \<Rightarrow> nat \<Rightarrow> 's tiered \<Rightarrow> 'v option" where
  "own_copy b key d td = (if any_takes_private b td then b_private_copy b key d (tier_at td 0) else None)"

definition copy_to_write :: "('i, 's, 'v) backend \<Rightarrow> 'i tiered_env \<Rightarrow> string \<Rightarrow> 'v \<Rightarrow> entry_metadata \<Rightarrow> 's tiered \<Rightarrow> 'v option" where
  "copy_to_write b n key v m td = (if any_takes_private b td then b_write_copy b (tn_in n Storing key 0) key v m (tier_at td 0) else None)"

subsection \<open>Writing what only the first tier holds\<close>

text \<open>\<open>_write_from_memory\<close>, of the entry whose metadata \<open>m\<close> the first tier holds as dict \<open>d\<close>.\<close>

definition late_metadata :: "seconds option \<Rightarrow> entry_metadata \<Rightarrow> entry_metadata" where
  "late_metadata rebuild m = (let m = m\<lparr>m_persist_skipped := None, m_source := None, m_storage := None, m_defer_persist := False\<rparr> in
     case rebuild of None \<Rightarrow> m | Some t \<Rightarrow> m\<lparr>m_rebuild_time := Some t\<rparr>)"

definition late_size :: "entry_metadata \<Rightarrow> bytes_t" where
  "late_size m = (if or_zero (m_size m) \<noteq> 0 then or_zero (m_size m)
     else case m_cost_model_size_bytes m of Some k \<Rightarrow> k | None \<Rightarrow> or_zero (m_size m))"

definition write_from_memory :: "('i, 's, 'v) backend \<Rightarrow> 'i tiered_env \<Rightarrow> string \<Rightarrow> entry_metadata \<Rightarrow> nat \<Rightarrow> seconds option \<Rightarrow> 's tiered \<Rightarrow> 's tiered \<times> bool" where
  "write_from_memory b n key m d rebuild td = (
     let s0 = tier_at td 0; payload = b_stored_payload b (tn_in n Peeking key 0) key d s0 in
     if payload = None \<and> b_may_share b key s0 then
       ((write_back b d (m\<lparr>m_persist_skipped := Some ''shared''\<rparr>) td)\<lparr>td_late_writes_refused := td_late_writes_refused td + 1\<rparr>, False)
     else
     let read_out = (payload = None \<or> \<not> list_all (as_they_are b) (tl (td_tiers td))) in
     case b_peek_entry b (tn_in n Peeking key 0) read_out key s0 of
       Inr (Some (_, d', held)) \<Rightarrow>
         if d' \<noteq> d then (td, False) else
         (case (case held of Some v \<Rightarrow> Some v | None \<Rightarrow> map_option fst payload) of
            None \<Rightarrow> (td, False)
          | Some v \<Rightarrow>
              let private = (\<not> m_by_reference m \<and> b_holds_own_copy b key s0);
                  made = (if \<not> private \<and> payload = None then copy_to_write b n key v (late_metadata rebuild m) td else None);
                  p = \<lparr>pl_key = key, pl_value = (case made of Some c \<Rightarrow> c | None \<Rightarrow> v), pl_dict = td_next_dict td,
                       pl_private = (private \<or> made \<noteq> None), pl_copied = (made \<noteq> None)\<rparr>;
                  td = td\<lparr>td_next_dict := td_next_dict td + 1\<rparr>;
                  (td, _, w) = write_persistent_tiers b n p (late_size m) (map_option snd payload) (late_metadata rebuild m) td in
              if tw_stored w = [] then
                (if tw_size_refused w then td\<lparr>td_notices := too_big key (tw_refused_size w) (tw_refusing_caps w) (td_notices td)\<rparr> else td, False)
              else (write_back b d (m\<lparr>m_storage := Some (b_label b (tier_at td 0) # tw_stored w), m_persist_skipped := None\<rparr>) td, True))
     | _ \<Rightarrow> (td, False))"

definition storage_of :: "entry_metadata \<Rightarrow> string list" where
  "storage_of m = (case m_storage m of None \<Rightarrow> [] | Some labels \<Rightarrow> labels)"

definition persist_call_ref :: "('i, 's, 'v) backend \<Rightarrow> 'i tiered_env \<Rightarrow> string \<Rightarrow> 's tiered \<Rightarrow> 's tiered" where
  "persist_call_ref b n ref td = (case b_peek_entry b (tn_in n Peeking ref 0) False ref (tier_at td 0) of
       Inr (Some (m, d, _)) \<Rightarrow> if persisted b td (storage_of m) then td else fst (write_from_memory b n ref m d (m_rebuild_time m) td)
     | _ \<Rightarrow> td)"

definition persist_call_refs :: "('i, 's, 'v) backend \<Rightarrow> 'i tiered_env \<Rightarrow> string list \<Rightarrow> 's tiered \<Rightarrow> 's tiered" where
  "persist_call_refs b n refs td = fold (persist_call_ref b n) refs td"

definition say_not_worth_it :: "'i tiered_env \<Rightarrow> string \<Rightarrow> bytes_t \<Rightarrow> pyfloat \<Rightarrow> 's tiered \<Rightarrow> 's tiered" where
  "say_not_worth_it n key weight seconds td = td\<lparr>td_notices :=
     not_worth_bytes key weight seconds (vf_named (tn_value n key)) (vf_decorated (tn_value n key)) (td_notices td)\<rparr>"

definition persist_from_memory :: "('i, 's, 'v) backend \<Rightarrow> 'i tiered_env \<Rightarrow> string \<Rightarrow> seconds \<Rightarrow> 's tiered \<Rightarrow> 's tiered \<times> (failure + bool)" where
  "persist_from_memory b n key rebuild td = (
     if length (td_tiers td) < 2 then (td, Inr False) else
     case b_peek_entry b (tn_in n Peeking key 0) False key (tier_at td 0) of
       Inl e \<Rightarrow> (td, Inl e)
     | Inr None \<Rightarrow> (td, Inr False)
     | Inr (Some (m, d, _)) \<Rightarrow>
         if persisted b td (storage_of m) then (td, Inr False) else
         let decision = decide_rebuild (td_policy td) m (Fin rebuild) (promotion_backend_kind b td);
             skipped = (d_skipped decision = Some ''bytes'');
             td = (if skipped then write_back b d (m\<lparr>m_persist_skipped := Some ''bytes''\<rparr>)
                     (drop_persisted_call_refs b n (m_call_refs m) (say_not_worth_it n key (d_weight decision) (Fin rebuild) td)) else td);
             m = (if skipped then m\<lparr>m_persist_skipped := Some ''bytes''\<rparr> else m) in
         if \<not> d_persist decision then (td, Inr False)
         else (case write_from_memory b n key m d (Some rebuild) (persist_call_refs b n (m_call_refs m) td) of
             (td, ok) \<Rightarrow> (td, Inr ok)))"

subsection \<open>Storing\<close>

text \<open>What one store has done so far.\<close>

record 's storing =
  st_td :: "'s tiered"
  st_metadata :: entry_metadata
  st_stored :: "string list"
  st_errors :: "string list"
  st_writes_a_file :: bool

definition write_first_tier :: "('i, 's, 'v) backend \<Rightarrow> 'i tiered_env \<Rightarrow> string \<Rightarrow> 'v \<Rightarrow> nat \<Rightarrow> 's storing \<Rightarrow> 's storing" where
  "write_first_tier b n key v d x = (
     let s = tier_at (st_td x) 0 in
     case b_set b (tn_in n Storing key 0) plain key v (st_metadata x) d s of
       (s', m, r) \<Rightarrow>
         let x = x\<lparr>st_td := put_tier 0 s' (st_td x), st_metadata := m\<rparr> in
         case r of
           Inr kept \<Rightarrow> if kept then x\<lparr>st_stored := st_stored x @ [b_label b s]\<rparr> else x
         | Inl e \<Rightarrow> x\<lparr>st_errors := st_errors x @ [error_text b s e], st_writes_a_file := st_writes_a_file x \<or> fl_writes_a_file e\<rparr>)"

definition DISK_ALONE_MIN_BYTES :: bytes_t where "DISK_ALONE_MIN_BYTES = 64 * 1024 ^ 2"

definition goes_to_disk_alone :: "'i tiered_env \<Rightarrow> string \<Rightarrow> bool" where
  "goes_to_disk_alone n key = (case vf_copies (tn_value n key) of None \<Rightarrow> False | Some k \<Rightarrow> DISK_ALONE_MIN_BYTES \<le> k)"

definition note_serialized_size :: "value_facts \<Rightarrow> entry_metadata \<Rightarrow> entry_metadata" where
  "note_serialized_size vf m = (
     if \<not> vf_pickle_serializer vf \<or> or_zero (m_size m) \<le> WORTH_FLOOR_BYTES \<or> vf_estimate vf = 0 then m
     else m\<lparr>m_serialized_estimate := Some (int (vf_estimate vf))\<rparr>)"

definition chosen_by_caller :: "entry_metadata \<Rightarrow> bool" where
  "chosen_by_caller m = (m_force_persist m \<or> m_decorator_entry m \<or> m_process_local m)"

text \<open>The writes past the first tier, by the decision: of the value itself when it goes to disk alone (the
  first tier takes it after all when no disk tier does), else of the first tier's own copy, of its bytes, or of a copy made now.\<close>

definition write_disk_alone :: "('i, 's, 'v) backend \<Rightarrow> 'i tiered_env \<Rightarrow> string \<Rightarrow> 'v \<Rightarrow> nat \<Rightarrow> bytes_t \<Rightarrow> 's storing \<Rightarrow> 's storing \<times> tier_writes" where
  "write_disk_alone b n key v d cap_size x = (
     let p = \<lparr>pl_key = key, pl_value = v, pl_dict = d, pl_private = False, pl_copied = False\<rparr>;
         (td, m, w) = write_persistent_tiers b n p cap_size None ((st_metadata x)\<lparr>m_disk_alone := True\<rparr>) (drop_from b n key 0 (st_td x)) in
     if persisted b td (tw_stored w) then (x\<lparr>st_td := td, st_metadata := m\<rparr>, w)
     else (write_first_tier b n key v d (x\<lparr>st_td := td, st_metadata := m\<lparr>m_disk_alone := False\<rparr>\<rparr>), w))"

definition write_past_first :: "('i, 's, 'v) backend \<Rightarrow> 'i tiered_env \<Rightarrow> string \<Rightarrow> 'v \<Rightarrow> nat \<Rightarrow> bytes_t \<Rightarrow> 's storing \<Rightarrow> 's storing \<times> tier_writes" where
  "write_past_first b n key v d cap_size x = (
     let td = st_td x; own = own_copy b key d td; payload = b_stored_payload b (tn_in n Peeking key 0) key d (tier_at td 0);
         made = (if own = None \<and> payload = None then copy_to_write b n key v (st_metadata x) td else None);
         p = \<lparr>pl_key = key, pl_value = (case own of Some c \<Rightarrow> c | None \<Rightarrow> (case made of Some c \<Rightarrow> c | None \<Rightarrow> v)), pl_dict = d,
              pl_private = (own \<noteq> None \<or> made \<noteq> None), pl_copied = (made \<noteq> None)\<rparr>;
         (td, m, w) = write_persistent_tiers b n p cap_size (map_option snd payload) (st_metadata x) td in
     (x\<lparr>st_td := td, st_metadata := m\<rparr>, w))"

text \<open>The decision, and the metadata it was taken by.\<close>

definition decide_store :: "('i, 's, 'v) backend \<Rightarrow> 'i tiered_env \<Rightarrow> string \<Rightarrow> 's storing \<Rightarrow> entry_metadata \<times> decision" where
  "decide_store b n key x = (
     let vf = tn_value n key;
         m = note_serialized_size vf (st_metadata x);
         deferred = m_defer_persist m;
         m = m\<lparr>m_defer_persist := False\<rparr>;
         sampled = (if deferred \<or> chosen_by_caller m then None else vf_sampled vf) in
     (m, decide (td_policy (st_td x)) m (promotion_backend_kind b (st_td x)) deferred (td_promotion_policy (st_td x)) sampled))"

text \<open>The call entries the entry refers to go the way it goes.\<close>

definition settle_call_refs :: "('i, 's, 'v) backend \<Rightarrow> 'i tiered_env \<Rightarrow> string \<Rightarrow> entry_metadata \<Rightarrow> decision \<Rightarrow> 's tiered \<Rightarrow> 's tiered" where
  "settle_call_refs b n key m dec td = (
     let td = (if d_skipped dec = Some ''bytes''
               then drop_persisted_call_refs b n (m_call_refs m)
                      (if d_report dec then say_not_worth_it n key (d_weight dec) (store_seconds m) td else td)
               else td) in
     if d_persist dec then persist_call_refs b n (m_call_refs m) td else td)"

definition write_by_decision :: "('i, 's, 'v) backend \<Rightarrow> 'i tiered_env \<Rightarrow> string \<Rightarrow> 'v \<Rightarrow> nat \<Rightarrow> decision \<Rightarrow> bool \<Rightarrow> 's storing \<Rightarrow> 's storing \<times> tier_writes" where
  "write_by_decision b n key v d dec disk_alone x = (
     let cap_size = cap_size_of (st_metadata x) in
     if d_persist dec then (if disk_alone then write_disk_alone else write_past_first) b n key v d cap_size x
     else (if disk_alone then write_first_tier b n key v d x else x, no_writes cap_size))"

text \<open>Worth persisting, but too big for every persistent tier: the user is told.\<close>

definition note_too_big :: "('i, 's, 'v) backend \<Rightarrow> string \<Rightarrow> tier_writes \<Rightarrow> 's storing \<Rightarrow> 's storing" where
  "note_too_big b key w x = (if tw_size_refused w \<and> \<not> persisted b (st_td x) (st_stored x)
     then x\<lparr>st_td := (st_td x)\<lparr>td_notices := too_big key (tw_refused_size w) (tw_refusing_caps w) (td_notices (st_td x))\<rparr>\<rparr> else x)"

definition store_past_first :: "('i, 's, 'v) backend \<Rightarrow> 'i tiered_env \<Rightarrow> string \<Rightarrow> 'v \<Rightarrow> nat \<Rightarrow> bool \<Rightarrow> 's storing \<Rightarrow> 's storing \<times> decision \<times> bool" where
  "store_past_first b n key v d disk_alone x = (case decide_store b n key x of (m, dec) \<Rightarrow>
     let td = settle_call_refs b n key m dec (write_back b d m (st_td x)) in
     case write_by_decision b n key v d dec disk_alone (x\<lparr>st_metadata := m, st_td := td\<rparr>) of (x, w) \<Rightarrow>
       (note_too_big b key w
          (x\<lparr>st_td := release_first b (st_td x), st_stored := st_stored x @ tw_stored w, st_errors := st_errors x @ tw_errors w\<rparr>),
        dec, tw_size_refused w))"

text \<open>What the caller's own metadata dict is told.\<close>

definition report_storage :: "('i, 's, 'v) backend \<Rightarrow> 's storing \<Rightarrow> (decision \<times> bool) option \<Rightarrow> entry_metadata \<Rightarrow> entry_metadata" where
  "report_storage b x dec m = (
     let m = m\<lparr>m_storage := Some (st_stored x)\<rparr>;
         m = (case m_measured_round_trip (st_metadata x) of None \<Rightarrow> m | Some t \<Rightarrow> m\<lparr>m_measured_round_trip := Some t\<rparr>);
         m = (if st_errors x = [] then m else m\<lparr>m_store_errors := Some (st_errors x)\<rparr>) in
     case dec of
       None \<Rightarrow> m
     | Some (d, size_refused) \<Rightarrow>
         let m = m\<lparr>m_defer_persist := False\<rparr> in
         if persisted b (st_td x) (st_stored x) then m
         else if d_skipped d = Some ''bytes'' then m\<lparr>m_persist_skipped := Some ''bytes''\<rparr>
         else if size_refused then m\<lparr>m_persist_skipped := Some ''size''\<rparr>
         else (case d_skipped d of None \<Rightarrow> m | Some why \<Rightarrow> m\<lparr>m_persist_skipped := Some why\<rparr>))"

definition tiered_set :: "('i, 's, 'v) backend \<Rightarrow> 'i tiered_env \<Rightarrow> string \<Rightarrow> 'v \<Rightarrow> entry_metadata option \<Rightarrow> 's tiered \<Rightarrow> 's tiered \<times> entry_metadata option" where
  "tiered_set b n key v original td = (
     if td_tiers td = [] then (td, original) else
     let m = (case original of None \<Rightarrow> no_metadata | Some m \<Rightarrow> m);
         m = (if m_ttl m = VNone then m\<lparr>m_ttl := ttl_val (tiered_default_ttl b td)\<rparr> else m);
         d = td_next_dict td;
         disk_alone = (1 < length (td_tiers td) \<and> goes_to_disk_alone n key);
         x = \<lparr>st_td = td\<lparr>td_next_dict := d + 1\<rparr>, st_metadata = m, st_stored = [], st_errors = [], st_writes_a_file = False\<rparr>;
         x = (if \<not> disk_alone then write_first_tier b n key v d x
              else if or_zero (m_size m) = 0 then x\<lparr>st_metadata := m\<lparr>m_size := Some (vf_footprint (tn_value n key))\<rparr>\<rparr> else x);
         (x, dec) = (if length (td_tiers td) = 1 \<or> st_writes_a_file x then (x\<lparr>st_td := release_first b (st_td x)\<rparr>, None)
                     else (case store_past_first b n key v d disk_alone x of (x, dec, refused) \<Rightarrow> (x, Some (dec, refused)))) in
     (write_back b d ((st_metadata x)\<lparr>m_storage := Some (st_stored x)\<rparr>) (st_td x), map_option (report_storage b x dec) original))"

subsection \<open>Asking all tiers\<close>

fun metadata_from :: "(nat \<Rightarrow> 's \<Rightarrow> 's \<times> (failure + entry_metadata option)) \<Rightarrow> nat list \<Rightarrow> 's tiered \<Rightarrow> 's tiered \<times> (failure + (nat \<times> entry_metadata) option)" where
  "metadata_from ask [] td = (td, Inr None)"
| "metadata_from ask (i # rest) td = (case ask i (tier_at td i) of
       (s, Inl e) \<Rightarrow> (put_tier i s td, Inl e)
     | (s, Inr (Some m)) \<Rightarrow> (put_tier i s td, Inr (Some (i, m)))
     | (s, Inr None) \<Rightarrow> metadata_from ask rest (put_tier i s td))"

definition tiered_get_metadata :: "('i, 's, 'v) backend \<Rightarrow> 'i tiered_env \<Rightarrow> string \<Rightarrow> 's tiered \<Rightarrow> 's tiered \<times> (failure + entry_metadata option)" where
  "tiered_get_metadata b n key td = (case metadata_from (\<lambda>i. b_get_metadata b (tn_in n Asking key i) key) [0..<length (td_tiers td)] td of
       (td, Inl e) \<Rightarrow> (td, Inl e) | (td, Inr x) \<Rightarrow> (td, Inr (map_option snd x)))"

definition tiered_peek_metadata :: "('i, 's, 'v) backend \<Rightarrow> 'i tiered_env \<Rightarrow> string \<Rightarrow> 's tiered \<Rightarrow> 's tiered \<times> (failure + entry_metadata option)" where
  "tiered_peek_metadata b n key td = (case metadata_from (\<lambda>i. b_peek_metadata b (tn_in n Peeking key i) key) [0..<length (td_tiers td)] td of
       (td, Inl e) \<Rightarrow> (td, Inl e)
     | (td, Inr x) \<Rightarrow> (td, Inr (map_option (\<lambda>(i, m). m\<lparr>m_source := Some (b_label b (tier_at td i))\<rparr>) x)))"

definition tiered_set_metadata_only :: "('i, 's, 'v) backend \<Rightarrow> 'i tiered_env \<Rightarrow> string \<Rightarrow> entry_metadata \<Rightarrow> 's tiered \<Rightarrow> 's tiered \<times> failure option" where
  "tiered_set_metadata_only b n key m td = each_tier (\<lambda>i. b_set_metadata_only b (tn_in n Storing key i) key m) [0..<length (td_tiers td)] td"

text \<open>\<open>bump_generation\<close>: other processes are told that entries went; this one keeps its RAM tier, unless
  something else moved the token since it last looked. \<open>Reading\<close> and \<open>Rereading\<close> the token are before and after.\<close>

definition tiered_bump_generation :: "('i, 's, 'v) backend \<Rightarrow> 'i tiered_env \<Rightarrow> 's tiered \<Rightarrow> 's tiered \<times> failure option" where
  "tiered_bump_generation b n td = (case disk_tier b td of
       None \<Rightarrow> (td, None)
     | Some i \<Rightarrow> (case ds_token (b_stamp b (tn_in n Reading '''' i) (tier_at td i)) of
           Inl e \<Rightarrow> (td, Some \<lparr>fl_text = e, fl_writes_a_file = False\<rparr>)
         | Inr before \<Rightarrow> (case b_bump_generation b (tn_in n Storing '''' i) (tier_at td i) of
               (s, Some e) \<Rightarrow> (put_tier i s td, Some e)
             | (s, None) \<Rightarrow>
                 let td = put_tier i s td in
                 (case ds_token (b_stamp b (tn_in n Rereading '''' i) s) of
                    Inl e \<Rightarrow> (td, Some \<lparr>fl_text = e, fl_writes_a_file = False\<rparr>)
                  | Inr after \<Rightarrow> (td\<lparr>td_watch := moved_by_us before after (td_watch td)\<rparr>, None)))))"

text \<open>An entry of a key seen in a faster tier is not listed again.\<close>

fun unseen :: "string option list \<Rightarrow> entry_metadata list \<Rightarrow> entry_metadata list" where
  "unseen seen [] = []"
| "unseen seen (m # ms) = (if m_key m \<in> set seen then unseen seen ms else m # unseen (m_key m # seen) ms)"

fun list_from :: "('i, 's, 'v) backend \<Rightarrow> 'i tiered_env \<Rightarrow> nat list \<Rightarrow> entry_metadata list \<Rightarrow> 's tiered \<Rightarrow> 's tiered \<times> (failure + entry_metadata list)" where
  "list_from b n [] acc td = (td, Inr acc)"
| "list_from b n (i # rest) acc td = (case b_list_entries b (tn_in n Asking '''' i) (tier_at td i) of
       (s, Inl e) \<Rightarrow> (put_tier i s td, Inl e)
     | (s, Inr ms) \<Rightarrow> list_from b n rest (acc @ unseen (map m_key acc) ms) (put_tier i s td))"

definition tiered_list_entries :: "('i, 's, 'v) backend \<Rightarrow> 'i tiered_env \<Rightarrow> 's tiered \<Rightarrow> 's tiered \<times> (failure + entry_metadata list)" where
  "tiered_list_entries b n td = list_from b n [0..<length (td_tiers td)] [] td"

fun count_from :: "('i, 's, 'v) backend \<Rightarrow> 'i tiered_env \<Rightarrow> nat list \<Rightarrow> nat \<Rightarrow> 's tiered \<Rightarrow> 's tiered \<times> (failure + nat)" where
  "count_from b n [] acc td = (td, Inr acc)"
| "count_from b n (i # rest) acc td = (case b_entry_count b (tn_in n Asking '''' i) (tier_at td i) of
       (s, Inl e) \<Rightarrow> (put_tier i s td, Inl e)
     | (s, Inr k) \<Rightarrow> count_from b n rest (max acc k) (put_tier i s td))"

definition tiered_entry_count :: "('i, 's, 'v) backend \<Rightarrow> 'i tiered_env \<Rightarrow> 's tiered \<Rightarrow> 's tiered \<times> (failure + nat)" where
  "tiered_entry_count b n td = count_from b n [0..<length (td_tiers td)] 0 td"

definition tiered_shutdown :: "('i, 's, 'v) backend \<Rightarrow> 'i tiered_env \<Rightarrow> 's tiered \<Rightarrow> 's tiered" where
  "tiered_shutdown b n td = fold (\<lambda>i td. put_tier i (fst (b_shutdown b (tn_in n Clearing '''' i) (tier_at td i))) td) [0..<length (td_tiers td)] td"

text \<open>\<open>cleanup_expired\<close>: what any tier lists as expired goes from all of them.\<close>

fun clean_entries :: "('i, 's, 'v) backend \<Rightarrow> 'i tiered_env \<Rightarrow> (entry_metadata \<Rightarrow> bool) \<Rightarrow> entry_metadata list \<Rightarrow> string option list \<times> nat \<Rightarrow> 's tiered \<Rightarrow>
    's tiered \<times> (failure + (string option list \<times> nat))" where
  "clean_entries b n is_expired [] acc td = (td, Inr acc)"
| "clean_entries b n is_expired (m # ms) (seen, total_gone) td = (
     if m_key m \<in> set seen then clean_entries b n is_expired ms (seen, total_gone) td
     else if \<not> is_expired m then clean_entries b n is_expired ms (m_key m # seen, total_gone) td
     else (case (case m_key m of None \<Rightarrow> (td, None) | Some key \<Rightarrow> tiered_delete b n key td) of
         (td, Some e) \<Rightarrow> (td, Inl e)
       | (td, None) \<Rightarrow> clean_entries b n is_expired ms (m_key m # seen, total_gone + 1) td))"

fun clean_from :: "('i, 's, 'v) backend \<Rightarrow> 'i tiered_env \<Rightarrow> (entry_metadata \<Rightarrow> bool) \<Rightarrow> nat list \<Rightarrow> string option list \<times> nat \<Rightarrow> 's tiered \<Rightarrow>
    's tiered \<times> (failure + nat)" where
  "clean_from b n is_expired [] acc td = (td, Inr (snd acc))"
| "clean_from b n is_expired (i # rest) acc td = (case b_list_entries b (tn_in n Asking '''' i) (tier_at td i) of
       (s, Inl e) \<Rightarrow> (put_tier i s td, Inl e)
     | (s, Inr ms) \<Rightarrow> (case clean_entries b n is_expired ms acc (put_tier i s td) of
           (td, Inl e) \<Rightarrow> (td, Inl e)
         | (td, Inr acc) \<Rightarrow> clean_from b n is_expired rest acc td))"

definition tiered_cleanup_expired :: "('i, 's, 'v) backend \<Rightarrow> 'i tiered_env \<Rightarrow> (entry_metadata \<Rightarrow> bool) \<Rightarrow> 's tiered \<Rightarrow> 's tiered \<times> (failure + nat)" where
  "tiered_cleanup_expired b n is_expired td = clean_from b n is_expired [0..<length (td_tiers td)] ([], 0) td"

end
