(* ===== verification/Tiered_Laws.thy ===== *)
theory Tiered_Laws
  imports Tiered_Backend Cache_Tier
begin

text \<open>
  What the tiered backend relies on in a tier (\<open>tier_laws\<close>), and what it then promises itself: the tiers
  together keep the contract of \<open>Cache_Tier\<close> (\<open>tiers\<close>, a \<open>sublocale\<close>).

  \<open>held\<close> are the values a read of the tier may hand out, \<open>kept s key d\<close> those it keeps with the metadata dict
  \<open>d\<close>, even after it evicted the entry (the RAM tier's handoff): a persistent tier may be given one of them.
\<close>

text \<open>The tier holds no more than before, but for the values \<open>vs\<close> that came with dict \<open>e\<close>.\<close>

definition step_to :: "('s \<Rightarrow> bool) \<Rightarrow> ('s \<Rightarrow> string \<Rightarrow> 'v set) \<Rightarrow> ('s \<Rightarrow> string \<Rightarrow> nat \<Rightarrow> 'v set) \<Rightarrow>
    (string \<Rightarrow> 'v set) \<Rightarrow> nat \<Rightarrow> 's \<Rightarrow> 's \<Rightarrow> bool" where
  "step_to ok held kept vs e s s' = (ok s' \<and> (\<forall>k. held s' k \<subseteq> held s k \<union> vs k) \<and>
     (\<forall>k d. kept s' k d \<subseteq> kept s k d \<union> (if d = e then vs k else {})))"

definition only :: "string \<Rightarrow> 'v \<Rightarrow> string \<Rightarrow> 'v set" where
  "only key v k = (if k = key then {v} else {})"

abbreviation nothing :: "string \<Rightarrow> 'v set" where
  "nothing \<equiv> (\<lambda>_. {})"

text \<open>The tiered backend's four operations, on the call's environment and metadata.\<close>

definition tiered_store_op :: "('i, 's, 'v) backend \<Rightarrow> 'i tiered_env \<times> entry_metadata option \<Rightarrow> string \<Rightarrow> 'v \<Rightarrow> 's tiered \<Rightarrow> 's tiered \<times> bool" where
  "tiered_store_op b i key v td = (fst (tiered_set b (fst i) key v (snd i) td), True)"

definition tiered_read_op :: "('i, 's, 'v) backend \<Rightarrow> 'i tiered_env \<times> entry_metadata option \<Rightarrow> string \<Rightarrow> 's tiered \<Rightarrow> 's tiered \<times> 'v option" where
  "tiered_read_op b i key td = (case tiered_get b (fst i) key td of (td, r) \<Rightarrow> (td, map_option snd r))"

definition tiered_delete_op :: "('i, 's, 'v) backend \<Rightarrow> 'i tiered_env \<times> entry_metadata option \<Rightarrow> string \<Rightarrow> 's tiered \<Rightarrow> 's tiered \<times> bool" where
  "tiered_delete_op b i key td = (case tiered_delete b (fst i) key td of (td, f) \<Rightarrow> (td, f = None))"

definition tiered_clear_op :: "('i, 's, 'v) backend \<Rightarrow> 'i tiered_env \<times> entry_metadata option \<Rightarrow> 's tiered \<Rightarrow> 's tiered \<times> bool" where
  "tiered_clear_op b i td = (case tiered_clear b (fst i) td of (td, f) \<Rightarrow> (td, f = None))"

locale tier_laws =
  fixes b :: "('i, 's, 'v) backend" and ok :: "'s \<Rightarrow> bool"
    and held :: "'s \<Rightarrow> string \<Rightarrow> 'v set" and kept :: "'s \<Rightarrow> string \<Rightarrow> nat \<Rightarrow> 'v set"
  assumes law_get: "ok s \<Longrightarrow> b_get b i key s = (s', r) \<Longrightarrow> step_to ok held kept nothing e s s'"
    and law_value: "ok s \<Longrightarrow> b_get b i key s = (s', Inr (Some (m, v))) \<Longrightarrow> v \<in> held s key"
    and law_set: "ok s \<Longrightarrow> b_set b i how key v m d s = (s', m', q) \<Longrightarrow> step_to ok held kept (only key v) d s s'"
    and law_promote: "ok s \<Longrightarrow> b_promote b i key v m d s = Some (s', m', q) \<Longrightarrow> step_to ok held kept (only key v) d s s'"
    and law_delete: "ok s \<Longrightarrow> b_delete b i key s = (s', f) \<Longrightarrow> step_to ok held kept nothing e s s'"
    and law_deleted: "ok s \<Longrightarrow> b_delete b i key s = (s', None) \<Longrightarrow> held s' key = {}"
    and law_clear: "ok s \<Longrightarrow> b_clear b i s = (s', f) \<Longrightarrow> step_to ok held kept nothing e s s'"
    and law_cleared: "ok s \<Longrightarrow> b_clear b i s = (s', None) \<Longrightarrow> held s' k = {}"
    and law_release: "ok s \<Longrightarrow> step_to ok held kept nothing e s (b_release_handoff b s)"
    and law_write_back: "ok s \<Longrightarrow> step_to ok held kept nothing e s (b_write_back b d m s)"
    and law_note: "ok s \<Longrightarrow> step_to ok held kept nothing e s (b_note_restore b kind m t s)"
    and law_own: "ok s \<Longrightarrow> b_private_copy b key d s = Some u \<Longrightarrow> u \<in> kept s key d"
    and law_copy: "ok s \<Longrightarrow> b_write_copy b i key v m s = Some u \<Longrightarrow> u = v"
    and law_peek: "ok s \<Longrightarrow> b_peek_entry b i want key s = Inr (Some (m, d, Some u)) \<Longrightarrow> u \<in> held s key"
    and law_payload: "ok s \<Longrightarrow> b_peek_entry b i want key s = Inr (Some (m, d, z)) \<Longrightarrow> b_stored_payload b j key d s = Some (u, nb) \<Longrightarrow> u \<in> held s key"
begin

definition td_held :: "'s tiered \<Rightarrow> string \<Rightarrow> 'v set" where
  "td_held td k = (\<Union>s \<in> set (td_tiers td). held s k)"

definition td_kept :: "'s tiered \<Rightarrow> string \<Rightarrow> nat \<Rightarrow> 'v set" where
  "td_kept td k d = (\<Union>s \<in> set (td_tiers td). kept s k d)"

definition td_ok :: "'s tiered \<Rightarrow> bool" where
  "td_ok td = ((\<forall>s \<in> set (td_tiers td). ok s) \<and> (\<forall>k d. td_next_dict td \<le> d \<longrightarrow> td_kept td k d = {}))"

text \<open>The same for all tiers: they hold no more than before, but for \<open>vs\<close>.\<close>

definition to :: "(string \<Rightarrow> 'v set) \<Rightarrow> nat \<Rightarrow> 's tiered \<Rightarrow> 's tiered \<Rightarrow> bool" where
  "to vs e td td' = (td_ok td' \<and> length (td_tiers td') = length (td_tiers td) \<and> td_next_dict td \<le> td_next_dict td' \<and>
     (\<forall>k. td_held td' k \<subseteq> td_held td k \<union> vs k) \<and>
     (\<forall>k d. d < td_next_dict td \<longrightarrow> td_kept td' k d \<subseteq> td_kept td k d \<union> (if d = e then vs k else {})))"

lemma toD:
  assumes "to vs e td td'"
  shows "td_ok td'" and "length (td_tiers td') = length (td_tiers td)" and "td_next_dict td \<le> td_next_dict td'"
    and "td_held td' k \<subseteq> td_held td k \<union> vs k"
    and "d < td_next_dict td \<Longrightarrow> td_kept td' k d \<subseteq> td_kept td k d \<union> (if d = e then vs k else {})"
  using assms by (simp_all add: to_def)

lemma to_refl: "td_ok td \<Longrightarrow> to vs e td td"
  by (auto simp: to_def)

lemma to_trans:
  assumes "to vs e td td'" and "to vs e td' td''"
  shows "to vs e td td''"
proof -
  have "td_held td'' k \<subseteq> td_held td k \<union> vs k" for k using toD(4) [OF assms(1), of k] toD(4) [OF assms(2), of k] by blast
  moreover have "td_kept td'' k d \<subseteq> td_kept td k d \<union> (if d = e then vs k else {})" if "d < td_next_dict td" for k d
    using toD(5) [OF assms(1) that, of k] toD(5) [OF assms(2) less_le_trans [OF that toD(3) [OF assms(1)]], of k] by blast
  ultimately show ?thesis using toD(1-3) [OF assms(1)] toD(1-3) [OF assms(2)] by (auto simp: to_def)
qed

text \<open>Less, and values held before under a dict not in use, count as nothing.\<close>

lemma to_weaken: "to nothing e td td' \<Longrightarrow> to vs e' td td'"
  by (force simp: to_def)

lemma to_absorb:
  assumes "to vs e td td'" and "\<And>k. vs k \<subseteq> td_held td k" and "td_next_dict td \<le> e"
  shows "to nothing e' td td'"
proof -
  have "td_held td' k \<subseteq> td_held td k" for k using toD(4) [OF assms(1), of k] assms(2) [of k] by blast
  moreover have "td_kept td' k d \<subseteq> td_kept td k d" if "d < td_next_dict td" for k d
    using toD(5) [OF assms(1) that, of k] that assms(3) by auto
  ultimately show ?thesis using toD(1-3) [OF assms(1)] by (simp add: to_def)
qed

lemma td_ok_tier: "td_ok td \<Longrightarrow> i < length (td_tiers td) \<Longrightarrow> ok (tier_at td i)"
  by (simp add: td_ok_def)

lemma put_sets:
  assumes "i < length (td_tiers td)" and "step_to ok held kept vs e (tier_at td i) s"
  shows "td_held (put_tier i s td) k \<subseteq> td_held td k \<union> vs k" and "td_kept (put_tier i s td) k d \<subseteq> td_kept td k d \<union> (if d = e then vs k else {})"
proof -
  have sub: "set (td_tiers (put_tier i s td)) \<subseteq> insert s (set (td_tiers td))" by (simp add: put_tier_def set_update_subset_insert)
  have at: "tier_at td i \<in> set (td_tiers td)" using assms(1) by simp
  have h: "held s k \<subseteq> td_held td k \<union> vs k"
    using assms(2) at by (fastforce simp: step_to_def td_held_def)
  have q: "kept s k d \<subseteq> td_kept td k d \<union> (if d = e then vs k else {})"
  proof -
    have "kept s k d \<subseteq> kept (tier_at td i) k d \<union> (if d = e then vs k else {})" using assms(2) by (simp add: step_to_def)
    then show ?thesis using at unfolding td_kept_def by blast
  qed
  show "td_held (put_tier i s td) k \<subseteq> td_held td k \<union> vs k" using sub h by (fastforce simp: td_held_def)
  show "td_kept (put_tier i s td) k d \<subseteq> td_kept td k d \<union> (if d = e then vs k else {})"
    using sub q unfolding td_kept_def by blast
qed

lemma put_to:
  assumes "td_ok td" and "i < length (td_tiers td)" and "step_to ok held kept vs e (tier_at td i) s"
    and "e < td_next_dict td \<or> vs = nothing"
  shows "to vs e td (put_tier i s td)"
proof -
  note sets = put_sets [OF assms(2,3)]
  have "ok s" using assms(3) by (simp add: step_to_def)
  then have "\<forall>t \<in> set (td_tiers (put_tier i s td)). ok t"
    using assms(1) set_update_subset_insert [of "td_tiers td" i s] by (auto simp: td_ok_def put_tier_def)
  moreover have "td_kept (put_tier i s td) k d = {}" if "td_next_dict td \<le> d" for k d
  proof -
    have "td_kept td k d = {}" using assms(1) that by (simp add: td_ok_def)
    then show ?thesis using sets(2) [of k d] assms(4) that by (auto split: if_splits)
  qed
  ultimately have "td_ok (put_tier i s td)" by (simp add: td_ok_def put_tier_def)
  with sets show ?thesis by (simp add: to_def) (simp add: put_tier_def)
qed

text \<open>What changes neither the tiers nor the dicts in use.\<close>

lemma same_to:
  assumes "td_ok td" and "td_tiers td' = td_tiers td" and "td_next_dict td \<le> td_next_dict td'"
  shows "to vs e td td'"
  using assms by (auto simp: to_def td_ok_def td_held_def td_kept_def)

lemma map_to:
  assumes "td_ok td" and "\<And>s. ok s \<Longrightarrow> step_to ok held kept nothing 0 s (f s)"
  shows "to vs e td (td\<lparr>td_tiers := map f (td_tiers td)\<rparr>)"
proof -
  have step: "ok (f s) \<and> (\<forall>k. held (f s) k \<subseteq> held s k) \<and> (\<forall>k d. kept (f s) k d \<subseteq> kept s k d)" if "s \<in> set (td_tiers td)" for s
    using assms(2) [of s] assms(1) that by (simp add: step_to_def td_ok_def)
  have h: "td_held (td\<lparr>td_tiers := map f (td_tiers td)\<rparr>) k \<subseteq> td_held td k" for k using step by (fastforce simp: td_held_def)
  have q: "td_kept (td\<lparr>td_tiers := map f (td_tiers td)\<rparr>) k d \<subseteq> td_kept td k d" for k d using step by (fastforce simp: td_kept_def)
  have "td_ok (td\<lparr>td_tiers := map f (td_tiers td)\<rparr>)"
    using assms(1) step q by (fastforce simp: td_ok_def)
  with h q show ?thesis by (force simp: to_def)
qed

lemma write_back_to: "td_ok td \<Longrightarrow> to vs e td (write_back b d m td)"
  unfolding write_back_def by (rule map_to) (simp_all add: law_write_back)

lemma release_first_to: "td_ok td \<Longrightarrow> td_tiers td \<noteq> [] \<Longrightarrow> to vs e td (release_first b td)"
  unfolding release_first_def
  by (rule to_weaken [of e], rule put_to) (auto intro: law_release td_ok_tier)

subsection \<open>Removing\<close>

lemma drop_from_to: "td_ok td \<Longrightarrow> i < length (td_tiers td) \<Longrightarrow> to vs e td (drop_from b n key i td)"
  unfolding drop_from_def by (rule to_weaken [of e], rule put_to) (auto intro: law_delete [OF td_ok_tier] simp: prod_eq_iff)

lemma clear_one_to: "td_ok td \<Longrightarrow> i < length (td_tiers td) \<Longrightarrow> to vs e td (clear_one b n i td)"
  unfolding clear_one_def by (rule to_weaken [of e], rule put_to) (auto intro: law_clear [OF td_ok_tier] simp: prod_eq_iff)

lemma fold_to:
  assumes "td_ok td" and "\<And>x td. td_ok td \<Longrightarrow> x \<in> set xs \<Longrightarrow> length (td_tiers td) = len \<Longrightarrow> to vs e td (f x td)" and "length (td_tiers td) = len"
  shows "to vs e td (fold f xs td)"
  using assms
proof (induction xs arbitrary: td)
  case (Cons x xs)
  have one: "to vs e td (f x td)" using Cons.prems by simp
  have "to vs e (f x td) (fold f xs (f x td))"
    by (rule Cons.IH) (use Cons.prems toD(1,2) [OF one] in auto)
  with one show ?case by (auto intro: to_trans)
qed (simp add: to_refl)

lemma drop_persisted_call_refs_to: "td_ok td \<Longrightarrow> to vs e td (drop_persisted_call_refs b n refs td)"
  unfolding drop_persisted_call_refs_def
proof (rule fold_to [where len = "length (td_tiers td)"])
  fix ref and td' :: "'s tiered" assume "td_ok td'"
  then show "to vs e td' (fold (drop_from b n ref) [1..<length (td_tiers td')] td')"
    by (rule fold_to [where len = "length (td_tiers td')"]) (auto intro: drop_from_to)
qed auto

lemma drop_ram_if_cleared_to:
  assumes "td_ok td"
  shows "to vs e td (drop_ram_if_cleared b n td)"
proof (cases "disk_tier b td")
  case None
  with assms show ?thesis by (simp add: drop_ram_if_cleared_def to_refl)
next
  case (Some i)
  then have i: "i < length (td_tiers td)" by (auto simp: disk_tier_def find_Some_iff)
  obtain w gone where w: "cleared (tn_monotonic n) (b_stamp b (tn_in n Asking '''' i) (tier_at td i)) (td_watch td) = (w, gone)" by (metis surj_pair)
  have ok: "td_ok (td\<lparr>td_watch := w\<rparr>)" using assms by (simp add: td_ok_def td_kept_def)
  have "to vs e (td\<lparr>td_watch := w\<rparr>) (fold (clear_one b n) [0..<i] (td\<lparr>td_watch := w\<rparr>))"
    by (rule fold_to [OF ok, where len = "length (td_tiers td)"]) (use i in \<open>auto intro: clear_one_to\<close>)
  moreover have "to vs e td (td\<lparr>td_watch := w\<rparr>)" by (rule same_to [OF assms]) simp_all
  ultimately show ?thesis using Some w by (auto simp: drop_ram_if_cleared_def Let_def intro: to_trans)
qed

text \<open>Every tier that was gone through holds nothing under the key.\<close>

lemma each_tier_to:
  assumes step: "\<And>i s s' g. ok s \<Longrightarrow> f i s = (s', g) \<Longrightarrow> step_to ok held kept nothing e s s'"
    and ends: "\<And>i s s'. ok s \<Longrightarrow> f i s = (s', None) \<Longrightarrow> held s' k = {}"
    and "td_ok td" and "each_tier f [0..<length (td_tiers td)] td = (td', r)"
  shows "to nothing e td td'" and "r = None \<Longrightarrow> td_held td' k = {}"
proof -
  have "to nothing e td td' \<and> (r = None \<longrightarrow> (\<forall>i < length (td_tiers td). held (tier_at td' i) k = {}))"
    if "td_ok td" "\<forall>i \<in> set js. i < length (td_tiers td)" "\<forall>i < length (td_tiers td). i \<in> set js \<or> held (tier_at td i) k = {}"
      "each_tier f js td = (td', r)" for js td
    using that
  proof (induction js arbitrary: td)
    case Nil
    then show ?case by (auto intro: to_refl)
  next
    case (Cons j js)
    obtain s g where d: "f j (tier_at td j) = (s, g)" by (metis surj_pair)
    have j: "j < length (td_tiers td)" using Cons.prems(2) by simp
    have one: "to nothing e td (put_tier j s td)"
      by (rule put_to [OF Cons.prems(1) j step [OF td_ok_tier [OF Cons.prems(1) j] d]]) simp
    show ?case
    proof (cases g)
      case (Some x)
      then show ?thesis using Cons.prems(4) d one by auto
    next
      case None
      have rest: "each_tier f js (put_tier j s td) = (td', r)" using Cons.prems(4) d None by simp
      have "held s k = {}" using ends [OF td_ok_tier [OF Cons.prems(1) j]] d None by simp
      then have "\<forall>i < length (td_tiers (put_tier j s td)). i \<in> set js \<or> held (tier_at (put_tier j s td) i) k = {}"
        using Cons.prems(3) j by (auto simp: put_tier_def nth_list_update)
      moreover have "\<forall>i \<in> set js. i < length (td_tiers (put_tier j s td))" using Cons.prems(2) by (simp add: put_tier_def)
      ultimately have "to nothing e (put_tier j s td) td' \<and> (r = None \<longrightarrow> (\<forall>i < length (td_tiers (put_tier j s td)). held (tier_at td' i) k = {}))"
        using Cons.IH [OF toD(1) [OF one] _ _ rest] by blast
      then show ?thesis using to_trans [OF one] by (simp add: put_tier_def)
    qed
  qed
  from this [of td "[0..<length (td_tiers td)]"] assms(3,4)
  have both: "to nothing e td td' \<and> (r = None \<longrightarrow> (\<forall>i < length (td_tiers td). held (tier_at td' i) k = {}))" by simp
  then show "to nothing e td td'" by blast
  show "r = None \<Longrightarrow> td_held td' k = {}" using both toD(2) [of nothing e td td'] by (auto simp: td_held_def in_set_conv_nth)
qed

lemma tiered_delete_to:
  assumes "td_ok td" and "tiered_delete b n key td = (td', f)"
  shows "to nothing e td td'" and "f = None \<Longrightarrow> td_held td' key = {}"
  using each_tier_to [of "\<lambda>i. b_delete b (tn_in n Dropping key i) key" e key, OF law_delete law_deleted assms(1)] assms(2)
  by (auto simp: tiered_delete_def)

lemma tiered_clear_to:
  assumes "td_ok td" and "tiered_clear b n td = (td', f)"
  shows "to nothing e td td'" and "f = None \<Longrightarrow> td_held td' k = {}"
  using each_tier_to [of "\<lambda>i. b_clear b (tn_in n Clearing '''' i)" e k, OF law_clear law_cleared assms(1)] assms(2)
  by (auto simp: tiered_clear_def)

subsection \<open>Reading\<close>

lemma note_restore_to: "td_ok td \<Longrightarrow> to vs e td (fst (note_restore b kind m t td))"
  unfolding note_restore_def fst_conv by (rule map_to) (simp_all add: law_note)

lemma get_one_to:
  assumes "td_ok td" and "i < length (td_tiers td)" and "b_get b inp key (tier_at td i) = (s, r)"
  shows "to nothing e td (put_tier i s td)" and "r = Inr (Some (m, v)) \<Longrightarrow> v \<in> td_held td key"
proof -
  note ok = td_ok_tier [OF assms(1,2)]
  show "to nothing e td (put_tier i s td)" by (rule put_to [OF assms(1,2) law_get [OF ok assms(3)]]) simp
  assume "r = Inr (Some (m, v))"
  then have "b_get b inp key (tier_at td i) = (s, Inr (Some (m, v)))" using assms(3) by simp
  from law_value [OF ok this] have "v \<in> held (tier_at td i) key" .
  then show "v \<in> td_held td key" unfolding td_held_def by (rule UN_I [OF nth_mem [OF assms(2)]])
qed

lemma judge_restore_to:
  assumes "td_ok td" and "i < length (td_tiers td)"
  shows "to nothing e td (judge_restore b n key i m td)"
proof -
  obtain td1 t counts where timed: "time_restore b n key i m td = (td1, t, counts)" by (metis surj_pair)
  obtain s r where get: "b_get b (tn_in n Rereading key i) key (tier_at td i) = (s, r)" by (metis surj_pair)
  have "td1 = td \<or> td1 = put_tier i s td"
    using timed get by (auto simp: time_restore_def Let_def split: if_splits sum.splits option.splits)
  then have one: "to nothing e td td1" using get_one_to(1) [OF assms get] to_refl [OF assms(1)] by auto
  obtain td2 slow where note2: "note_restore b (vf_class (tn_value n key)) m t td1 = (td2, slow)" by (metis surj_pair)
  have two: "to nothing e td td2"
    using to_trans [OF one note_restore_to [OF toD(1) [OF one]]] note2 by (metis fst_conv)
  have "to nothing e td (drop_from b n key i td2)"
    by (rule to_trans [OF two drop_from_to [OF toD(1) [OF two]]]) (use assms(2) toD(2) [OF two] in simp)
  with one two show ?thesis using timed note2 by (simp add: judge_restore_def)
qed

lemma remember_read_to: "td_ok td \<Longrightarrow> to vs e td (remember_read key td)"
  by (rule same_to) (simp_all add: remember_read_def Let_def)

lemma promote_to_to:
  assumes "td_ok td" and "\<forall>j \<in> set js. j < length (td_tiers td)" and "d < td_next_dict td"
    and "promote_to b n key v d rb js m td = (td', m')"
  shows "to (only key v) d td td'"
  using assms
proof (induction js arbitrary: td m)
  case Nil
  then show ?case by (simp add: to_refl)
next
  case (Cons j js)
  let ?i = "tn_in n Promoting key j"
  have j: "j < length (td_tiers td)" using Cons.prems(2) by simp
  note ok = td_ok_tier [OF Cons.prems(1) j]
  obtain td1 m1 where one: "to (only key v) d td td1" and rest: "promote_to b n key v d rb js m1 td1 = (td', m')"
  proof (cases "if rb then None else b_promote b ?i key v m d (tier_at td j)")
    case None
    obtain s m1 q where set: "b_set b ?i plain key v m d (tier_at td j) = (s, m1, q)" by (metis surj_pair)
    have "to (only key v) d td (put_tier j s td)" by (rule put_to [OF Cons.prems(1) j law_set [OF ok set]]) (simp add: Cons.prems(3))
    moreover have "promote_to b n key v d rb js m1 (put_tier j s td) = (td', m')"
      using Cons.prems(4) set None by (simp only: promote_to.simps Let_def option.case prod.case)
    ultimately show thesis by (rule that)
  next
    case (Some x)
    then obtain s m1 q where pr: "b_promote b ?i key v m d (tier_at td j) = Some (s, m1, q)" by (cases x) (auto split: if_splits)
    have put: "to (only key v) d td (put_tier j s td)" by (rule put_to [OF Cons.prems(1) j law_promote [OF ok pr]]) (simp add: Cons.prems(3))
    let ?td1 = "if q = Inr False then remember_read key (put_tier j s td) else put_tier j s td"
    have "to (only key v) d td ?td1" using put to_trans [OF put remember_read_to [OF toD(1) [OF put]]] by simp
    moreover have "promote_to b n key v d rb js m1 ?td1 = (td', m')"
      using Cons.prems(4) pr Some by (simp add: Let_def split: if_splits)
    ultimately show thesis by (rule that)
  qed
  have "to (only key v) d td1 td'"
    by (rule Cons.IH [OF toD(1) [OF one] _ _ rest]) (use Cons.prems(2,3) toD(2,3) [OF one] in auto)
  with one show ?case by (rule to_trans)
qed

lemma promote_adds:
  assumes "td_ok td" and "i < length (td_tiers td)" and "promote b n key i v m td = (td', m')"
  shows "to (only key v) (td_next_dict td) td td'"
proof -
  let ?d = "td_next_dict td"
  define td1 where "td1 = td\<lparr>td_read_once := removeAll key (td_read_once td), td_next_dict := ?d + 1\<rparr>"
  have one: "to (only key v) ?d td td1" by (rule same_to [OF assms(1)]) (simp_all add: td1_def)
  obtain td2 m2 where two: "promote_to b n key v ?d (key \<in> set (td_read_once td)) [0..<(if m_disk_alone m then 0 else i)] m td1 = (td2, m2)" by (metis surj_pair)
  have td2: "to (only key v) ?d td1 td2"
    by (rule promote_to_to [OF toD(1) [OF one] _ _ two]) (use assms(2) in \<open>auto simp: td1_def\<close>)
  have "td' = write_back b ?d m' td2" using assms(3) two unfolding promote_def Let_def td1_def by auto
  then show ?thesis using to_trans [OF to_trans [OF one td2] write_back_to [OF toD(1) [OF td2]]] by simp
qed

lemma get_from_to:
  assumes "td_ok td" and "\<forall>i \<in> set js. i < length (td_tiers td)" and "get_from b n key js td = (td', r)"
  shows "to nothing e td td' \<and> (\<forall>m v. r = Some (m, v) \<longrightarrow> v \<in> td_held td key)"
  using assms
proof (induction js arbitrary: td)
  case Nil
  then show ?case by (auto intro: to_refl)
next
  case (Cons i js)
  have i: "i < length (td_tiers td)" using Cons.prems(2) by simp
  obtain s q where get: "b_get b (tn_in n Reading key i) key (tier_at td i) = (s, q)" by (metis surj_pair)
  note one = get_one_to [OF Cons.prems(1) i get]
  define td1 where "td1 = put_tier i s td"
  have len: "i < length (td_tiers td1)" using i by (simp add: td1_def put_tier_def)
  have on: "to nothing e td td' \<and> (\<forall>m v. r = Some (m, v) \<longrightarrow> v \<in> td_held td key)"
    if "to nothing e td td2" "get_from b n key js td2 = (td', r)" for td2
  proof -
    have "to nothing e td2 td' \<and> (\<forall>m v. r = Some (m, v) \<longrightarrow> v \<in> td_held td2 key)"
      by (rule Cons.IH [OF toD(1) [OF that(1)] _ that(2)]) (use Cons.prems(2) toD(2) [OF that(1)] in simp)
    then show ?thesis using to_trans [OF that(1)] toD(4) [OF that(1), of key] by blast
  qed
  consider "get_from b n key js td1 = (td', r)"
    | m v where "q = Inr (Some (m, v))" "get_from b n key js (drop_from b n key i td1) = (td', r)"
    | m v m' where "q = Inr (Some (m, v))" "promote b n key i v m (if 0 < i then judge_restore b n key i m td1 else td1) = (td', m')" "r = Some (m', v)"
    using Cons.prems(3) get by (auto simp: td1_def Let_def split: sum.splits option.splits if_splits prod.splits)
  then show ?case
  proof cases
    case 1
    show ?thesis by (rule on [OF _ 1]) (simp add: td1_def one(1))
  next
    case 2
    have "to nothing e td (drop_from b n key i td1)"
      using to_trans [OF one(1) drop_from_to [OF toD(1) [OF one(1)]]] len by (simp add: td1_def)
    with on 2(2) show ?thesis by blast
  next
    case (3 m v m')
    define td2 where "td2 = (if 0 < i then judge_restore b n key i m td1 else td1)"
    have two: "to nothing e td td2"
      using one(1) [folded td1_def] to_trans [OF one(1) [folded td1_def] judge_restore_to [OF toD(1) [OF one(1)], folded td1_def, OF len]]
      by (simp add: td2_def)
    have val: "v \<in> td_held td key" using one(2) 3(1) .
    have "to (only key v) (td_next_dict td2) td2 td'"
      by (rule promote_adds [OF toD(1) [OF two] _ 3(2) [folded td2_def]]) (use i toD(2) [OF two] in simp)
    then have "to (only key v) (td_next_dict td2) td td'" using to_trans [OF to_weaken [OF two]] by blast
    then have "to nothing e td td'" by (rule to_absorb) (use val toD(3) [OF two] in \<open>auto simp: only_def\<close>)
    with val 3(3) show ?thesis by simp
  qed
qed

subsection \<open>Storing\<close>

lemma write_tiers_to:
  assumes "td_ok td" and "\<forall>j \<in> set js. j < length (td_tiers td)" and "pl_dict p < td_next_dict td"
    and "write_tiers b n p js cap_size ser m w td = (td', m', w')"
  shows "to (only (pl_key p) (pl_value p)) (pl_dict p) td td'"
  using assms
proof (induction js arbitrary: td m w cap_size ser)
  case Nil
  then show ?case by (simp add: to_refl)
next
  case (Cons i js)
  let ?to = "to (only (pl_key p) (pl_value p)) (pl_dict p)"
  have i: "i < length (td_tiers td)" using Cons.prems(2) by simp
  note ok = td_ok_tier [OF Cons.prems(1) i]
  have on: "?to td td'" if "?to td td1" "write_tiers b n p js c q mm ww td1 = (td', m', w')" for td1 c q mm ww
    by (rule to_trans [OF that(1) Cons.IH [OF toD(1) [OF that(1)] _ _ that(2)]])
       (use Cons.prems(2,3) toD(2,3) [OF that(1)] in auto)
  have put: "?to td (put_tier i s td)" if "b_set b inp how (pl_key p) (pl_value p) m (pl_dict p) (tier_at td i) = (s, m1, r)" for inp how s m1 r
    by (rule put_to [OF Cons.prems(1) i law_set [OF ok that]]) (simp add: Cons.prems(3))
  from Cons.prems(4) show ?case
    by (auto simp: Let_def split: sum.splits prod.splits intro: on [OF to_refl [OF Cons.prems(1)]] on [OF put])
qed

lemma write_persistent_tiers_to:
  assumes "td_ok td" and "pl_dict p < td_next_dict td" and "write_persistent_tiers b n p cap_size ser m td = (td', m', w')"
  shows "to (only (pl_key p) (pl_value p)) (pl_dict p) td td'"
  using write_tiers_to [OF assms(1) _ assms(2) assms(3) [unfolded write_persistent_tiers_def]] by simp

lemma first_tier: "td_ok td \<Longrightarrow> td_tiers td \<noteq> [] \<Longrightarrow> ok (tier_at td 0) \<and> held (tier_at td 0) k \<subseteq> td_held td k \<and> kept (tier_at td 0) k d \<subseteq> td_kept td k d"
proof -
  assume "td_ok td" and "td_tiers td \<noteq> []"
  moreover from this(2) have "tier_at td 0 \<in> set (td_tiers td)" by simp
  ultimately show ?thesis unfolding td_ok_def td_held_def td_kept_def by blast
qed

text \<open>What a late write stores the first tier holds already.\<close>

lemma late_write_to:
  assumes "td_ok td" and "u \<in> td_held td key" and "td1 = td\<lparr>td_next_dict := td_next_dict td + 1\<rparr>" and "pl_key p = key" and "pl_value p = u"
    and "pl_dict p = td_next_dict td" and "write_persistent_tiers b n p cap_size ser m td1 = (td', m', w')"
  shows "to nothing e td td'"
proof -
  have one: "to (only key u) (td_next_dict td) td td1" by (rule same_to [OF assms(1)]) (simp_all add: assms(3))
  have "to (only (pl_key p) (pl_value p)) (pl_dict p) td1 td'"
    by (rule write_persistent_tiers_to [OF toD(1) [OF one] _ assms(7)]) (simp add: assms(3,6))
  then have "to (only key u) (td_next_dict td) td td'" using to_trans [OF one] assms(4-6) by simp
  then show ?thesis by (rule to_absorb) (use assms(2) in \<open>auto simp: only_def\<close>)
qed

lemma write_from_memory_to:
  assumes "td_ok td" and "td_tiers td \<noteq> []"
  shows "to nothing e td (fst (write_from_memory b n key m d rebuild td))"
proof -
  note s0 = first_tier [OF assms]
  let ?payload = "b_stored_payload b (tn_in n Peeking key 0) key d (tier_at td 0)"
  define want where "want = (?payload = None \<or> \<not> list_all (as_they_are b) (tl (td_tiers td)))"
  define late where "late = late_metadata rebuild m"
  note wfm = write_from_memory_def [of b n key m d rebuild td, unfolded Let_def, folded want_def late_def]
  consider (shared) "?payload = None \<and> b_may_share b key (tier_at td 0)"
    | (held) m' v where "\<not> (?payload = None \<and> b_may_share b key (tier_at td 0))"
        "b_peek_entry b (tn_in n Peeking key 0) want key (tier_at td 0) = Inr (Some (m', d, v))"
    | (gone) "fst (write_from_memory b n key m d rebuild td) = td"
    by (fastforce simp: wfm split: sum.splits option.splits if_splits)
  then show ?thesis
  proof cases
    case shared
    have "to nothing e td (write_back b d (m\<lparr>m_persist_skipped := Some ''shared''\<rparr>) td)" by (rule write_back_to [OF assms(1)])
    then show ?thesis using shared by (simp add: wfm to_def td_ok_def td_held_def td_kept_def)
  next
    case gone
    then show ?thesis by (simp add: to_refl [OF assms(1)])
  next
    case (held m' v)
    show ?thesis
    proof (cases "case v of Some v \<Rightarrow> Some v | None \<Rightarrow> map_option fst ?payload")
      case None
      then show ?thesis using held by (auto simp: wfm to_refl [OF assms(1)])
    next
      case (Some u)
      have "u \<in> held (tier_at td 0) key"
        using Some held(2) s0 law_peek [of "tier_at td 0"] law_payload [of "tier_at td 0"] by (auto split: option.splits)
      then have u: "u \<in> td_held td key" using s0 by blast
      define priv where "priv = (\<not> m_by_reference m \<and> b_holds_own_copy b key (tier_at td 0))"
      define made where "made = (if \<not> priv \<and> ?payload = None then copy_to_write b n key u late td else None)"
      define p where "p = \<lparr>pl_key = key, pl_value = (case made of Some c \<Rightarrow> c | None \<Rightarrow> u), pl_dict = td_next_dict td,
                       pl_private = (priv \<or> made \<noteq> None), pl_copied = (made \<noteq> None)\<rparr>"
      obtain td1 m1 w where wr: "write_persistent_tiers b n p (late_size m) (map_option snd ?payload) late (td\<lparr>td_next_dict := td_next_dict td + 1\<rparr>) = (td1, m1, w)"
        by (metis surj_pair)
      have "made = Some c \<Longrightarrow> c = u" for c
        using law_copy [of "tier_at td 0"] s0 by (auto simp: made_def copy_to_write_def split: if_splits)
      then have val: "pl_value p = u" by (auto simp: p_def split: option.splits)
      have one: "to nothing e td td1" by (rule late_write_to [OF assms(1) u refl _ val _ wr]) (simp_all add: p_def)
      have "fst (write_from_memory b n key m d rebuild td) =
          (if tw_stored w = [] then (if tw_size_refused w then td1\<lparr>td_notices := too_big key (tw_refused_size w) (tw_refusing_caps w) (td_notices td1)\<rparr> else td1)
           else write_back b d (m\<lparr>m_storage := Some (b_label b (tier_at td1 0) # tw_stored w), m_persist_skipped := None\<rparr>) td1)"
        unfolding wfm if_not_P [OF held(1)] using held(2) Some wr by (simp add: p_def made_def priv_def)
      moreover have "to nothing e td (td1\<lparr>td_notices := x\<rparr>)" for x
        by (rule to_trans [OF one same_to]) (use toD(1) [OF one] in simp_all)
      ultimately show ?thesis using one to_trans [OF one write_back_to [OF toD(1) [OF one]]] by auto
    qed
  qed
qed

lemma persist_call_refs_to:
  assumes "td_ok td" and "td_tiers td \<noteq> []"
  shows "to nothing e td (persist_call_refs b n refs td)"
  unfolding persist_call_refs_def
proof (rule fold_to [OF assms(1), where len = "length (td_tiers td)"])
  fix ref and td' :: "'s tiered" assume td': "td_ok td'" "length (td_tiers td') = length (td_tiers td)"
  then have "td_tiers td' \<noteq> []" using assms(2) by auto
  then show "to nothing e td' (persist_call_ref b n ref td')"
    using write_from_memory_to [OF td'(1)] to_refl [OF td'(1)] by (auto simp: persist_call_ref_def split: sum.splits option.splits)
qed simp

lemma write_first_tier_to:
  assumes "td_ok (st_td x)" and "td_tiers (st_td x) \<noteq> []" and "d < td_next_dict (st_td x)"
  shows "to (only key v) d (st_td x) (st_td (write_first_tier b n key v d x))"
proof -
  obtain s m r where set: "b_set b (tn_in n Storing key 0) plain key v (st_metadata x) d (tier_at (st_td x) 0) = (s, m, r)" by (metis surj_pair)
  have "to (only key v) d (st_td x) (put_tier 0 s (st_td x))"
    by (rule put_to [OF assms(1) _ law_set [OF _ set]]) (use assms first_tier [OF assms(1,2)] in auto)
  then show ?thesis using set by (auto simp: write_first_tier_def Let_def split: sum.splits)
qed

lemma write_disk_alone_to:
  assumes "td_ok (st_td x)" and "td_tiers (st_td x) \<noteq> []" and "d < td_next_dict (st_td x)"
  shows "to (only key v) d (st_td x) (st_td (fst (write_disk_alone b n key v d cap_size x)))"
proof -
  let ?p = "\<lparr>pl_key = key, pl_value = v, pl_dict = d, pl_private = False, pl_copied = False\<rparr>"
  have one: "to (only key v) d (st_td x) (drop_from b n key 0 (st_td x))" by (rule drop_from_to) (use assms in auto)
  obtain td m w where wr: "write_persistent_tiers b n ?p cap_size None ((st_metadata x)\<lparr>m_disk_alone := True\<rparr>) (drop_from b n key 0 (st_td x)) = (td, m, w)"
    by (metis surj_pair)
  have "to (only (pl_key ?p) (pl_value ?p)) (pl_dict ?p) (drop_from b n key 0 (st_td x)) td"
    by (rule write_persistent_tiers_to [OF toD(1) [OF one] _ wr]) (use assms(3) toD(3) [OF one] in simp)
  then have two: "to (only key v) d (st_td x) td" using to_trans [OF one] by simp
  let ?x = "x\<lparr>st_td := td, st_metadata := m\<lparr>m_disk_alone := False\<rparr>\<rparr>"
  have "to (only key v) d (st_td ?x) (st_td (write_first_tier b n key v d ?x))"
    by (rule write_first_tier_to) (use toD(1-3) [OF two] assms(2,3) in auto)
  then have "to (only key v) d (st_td x) (st_td (write_first_tier b n key v d ?x))" using to_trans [OF two] by simp
  with two show ?thesis using wr by (auto simp: write_disk_alone_def Let_def)
qed

text \<open>The first tier's own copy is of this very store: it was kept with the store's own dict.\<close>

lemma write_past_first_to:
  assumes "td_ok (st_td x)" and "td_tiers (st_td x) \<noteq> []" and "d < td_next_dict (st_td x)" and "td_kept (st_td x) key d \<subseteq> {v}"
  shows "to (only key v) d (st_td x) (st_td (fst (write_past_first b n key v d cap_size x)))"
proof -
  let ?td = "st_td x" and ?payload = "b_stored_payload b (tn_in n Peeking key 0) key d (tier_at (st_td x) 0)"
  note s0 = first_tier [OF assms(1,2)]
  define own where "own = own_copy b key d ?td"
  define made where "made = (if own = None \<and> ?payload = None then copy_to_write b n key v (st_metadata x) ?td else None)"
  define p where "p = \<lparr>pl_key = key, pl_value = (case own of Some c \<Rightarrow> c | None \<Rightarrow> (case made of Some c \<Rightarrow> c | None \<Rightarrow> v)), pl_dict = d,
              pl_private = (own \<noteq> None \<or> made \<noteq> None), pl_copied = (made \<noteq> None)\<rparr>"
  obtain td m w where wr: "write_persistent_tiers b n p cap_size (map_option snd ?payload) (st_metadata x) ?td = (td, m, w)" by (metis surj_pair)
  have "c = v" if "own = Some c" for c
  proof -
    have "c \<in> kept (tier_at ?td 0) key d" using that law_own [of "tier_at ?td 0"] s0 by (auto simp: own_def own_copy_def split: if_splits)
    then show ?thesis using s0 assms(4) by blast
  qed
  moreover have "c = v" if "made = Some c" for c
    using that law_copy [of "tier_at ?td 0"] s0 by (auto simp: made_def copy_to_write_def split: if_splits)
  ultimately have "pl_value p = v" by (auto simp: p_def split: option.splits)
  moreover have "to (only (pl_key p) (pl_value p)) (pl_dict p) ?td td"
    by (rule write_persistent_tiers_to [OF assms(1) _ wr]) (simp add: p_def assms(3))
  moreover have "fst (write_past_first b n key v d cap_size x) = x\<lparr>st_td := td, st_metadata := m\<rparr>"
    unfolding write_past_first_def Let_def own_def [symmetric] made_def [symmetric] p_def [symmetric] wr by simp
  ultimately show ?thesis by (simp add: p_def)
qed

lemma notices_to: "td_ok td \<Longrightarrow> to vs e td (td\<lparr>td_notices := x\<rparr>)"
  by (rule same_to) simp_all

lemma say_not_worth_it_to: "td_ok td \<Longrightarrow> to vs e td (say_not_worth_it n key w t td)"
  unfolding say_not_worth_it_def by (rule notices_to)

lemma kept_on:
  assumes "to (only key v) d td td'" and "d < td_next_dict td" and "td_kept td key d \<subseteq> {v}"
  shows "td_kept td' key d \<subseteq> {v}"
  using toD(5) [OF assms(1,2), of key] assms(3) by (auto simp: only_def)

lemma settle_call_refs_to:
  assumes "td_ok td" and "td_tiers td \<noteq> []"
  shows "to nothing e td (settle_call_refs b n key m dec td)"
proof -
  define td1 where "td1 = (if d_report dec then say_not_worth_it n key (d_weight dec) (store_seconds m) td else td)"
  define td2 where "td2 = (if d_skipped dec = Some ''bytes'' then drop_persisted_call_refs b n (m_call_refs m) td1 else td)"
  have one: "to nothing e td td1" by (simp add: td1_def say_not_worth_it_to [OF assms(1)] to_refl [OF assms(1)])
  have two: "to nothing e td td2"
    using to_trans [OF one drop_persisted_call_refs_to [OF toD(1) [OF one]]] to_refl [OF assms(1)] by (simp add: td2_def)
  have "td_tiers td2 \<noteq> []" using toD(2) [OF two] assms(2) by auto
  note three = to_trans [OF two persist_call_refs_to [OF toD(1) [OF two] this]]
  show ?thesis unfolding settle_call_refs_def Let_def td1_def [symmetric] td2_def [symmetric] using two three by simp
qed

lemma write_by_decision_to:
  assumes "td_ok (st_td x)" and "td_tiers (st_td x) \<noteq> []" and "d < td_next_dict (st_td x)" and "td_kept (st_td x) key d \<subseteq> {v}"
  shows "to (only key v) d (st_td x) (st_td (fst (write_by_decision b n key v d dec disk_alone x)))"
  using write_disk_alone_to [OF assms(1-3)] write_past_first_to [OF assms] write_first_tier_to [OF assms(1-3)] to_refl [OF assms(1)]
  by (simp add: write_by_decision_def Let_def)

lemma store_past_first_to:
  assumes "td_ok (st_td x)" and "td_tiers (st_td x) \<noteq> []" and "d < td_next_dict (st_td x)" and "td_kept (st_td x) key d \<subseteq> {v}"
  shows "to (only key v) d (st_td x) (st_td (fst (store_past_first b n key v d disk_alone x)))"
proof -
  let ?to = "to (only key v) d"
  obtain m dec where dec: "decide_store b n key x = (m, dec)" by (metis surj_pair)
  define td1 where "td1 = write_back b d m (st_td x)"
  define td2 where "td2 = settle_call_refs b n key m dec td1"
  define x2 where "x2 = x\<lparr>st_metadata := m, st_td := td2\<rparr>"
  obtain x3 w where x3: "write_by_decision b n key v d dec disk_alone x2 = (x3, w)" by (metis surj_pair)
  have one: "?to (st_td x) td1" unfolding td1_def by (rule write_back_to [OF assms(1)])
  have "td_tiers td1 \<noteq> []" using toD(2) [OF one] assms(2) by auto
  then have two: "?to (st_td x) td2" unfolding td2_def
    by (intro to_trans [OF one to_weaken [OF settle_call_refs_to [OF toD(1) [OF one]]]])
  have "td_ok (st_td x2)" "td_tiers (st_td x2) \<noteq> []" "d < td_next_dict (st_td x2)" "td_kept (st_td x2) key d \<subseteq> {v}"
    using toD(1-3) [OF two] assms(2,3) kept_on [OF two assms(3,4)] by (auto simp: x2_def)
  from write_by_decision_to [OF this, of n dec disk_alone] x3 have "?to td2 (st_td x3)" by (simp add: x2_def)
  note three = to_trans [OF two this]
  have "td_tiers (st_td x3) \<noteq> []" using toD(2) [OF three] assms(2) by auto
  note four = to_trans [OF three release_first_to [OF toD(1) [OF three] this]]
  have "?to (st_td x) (st_td (note_too_big b key w y))" if "st_td y = release_first b (st_td x3)" for y
    using four to_trans [OF four notices_to [OF toD(1) [OF four]]] that by (simp add: note_too_big_def)
  then show ?thesis
    unfolding store_past_first_def dec prod.case Let_def td1_def [symmetric] td2_def [symmetric] x2_def [symmetric] x3 by simp
qed

lemma tiered_set_to:
  assumes "td_ok td" and "tiered_set b n key v original td = (td', original')"
  shows "to (only key v) (td_next_dict td) td td'"
proof (cases "td_tiers td = []")
  case True
  then show ?thesis using assms by (simp add: tiered_set_def to_refl)
next
  case False
  let ?d = "td_next_dict td"
  define m where "m = (let m = (case original of None \<Rightarrow> no_metadata | Some m \<Rightarrow> m) in if m_ttl m = VNone then m\<lparr>m_ttl := ttl_val (tiered_default_ttl b td)\<rparr> else m)"
  define alone where "alone = (1 < length (td_tiers td) \<and> goes_to_disk_alone n key)"
  define x0 where "x0 = \<lparr>st_td = td\<lparr>td_next_dict := ?d + 1\<rparr>, st_metadata = m, st_stored = [], st_errors = [], st_writes_a_file = False\<rparr>"
  define x1 where "x1 = (if \<not> alone then write_first_tier b n key v ?d x0
              else if or_zero (m_size m) = 0 then x0\<lparr>st_metadata := m\<lparr>m_size := Some (vf_footprint (tn_value n key))\<rparr>\<rparr> else x0)"
  have zero: "to (only key v) ?d td (st_td x0)" by (rule same_to [OF assms(1)]) (simp_all add: x0_def)
  have x0: "td_ok (st_td x0)" "td_tiers (st_td x0) \<noteq> []" "?d < td_next_dict (st_td x0)"
    using toD(1) [OF zero] False by (simp_all add: x0_def)
  have "td_kept (st_td x0) key ?d = {}" using assms(1) by (simp add: x0_def td_ok_def td_kept_def)
  moreover have one: "to (only key v) ?d (st_td x0) (st_td x1)"
    using write_first_tier_to [OF x0, of key v n] to_refl [OF x0(1)] by (simp add: x1_def)
  ultimately have x1: "td_ok (st_td x1)" "td_tiers (st_td x1) \<noteq> []" "?d < td_next_dict (st_td x1)" "td_kept (st_td x1) key ?d \<subseteq> {v}"
    using toD(1-3) [OF one] x0 kept_on [OF one x0(3)] by auto
  define x2 where "x2 = (if length (td_tiers td) = 1 \<or> st_writes_a_file x1 then x1\<lparr>st_td := release_first b (st_td x1)\<rparr>
      else fst (store_past_first b n key v ?d alone x1))"
  have "to (only key v) ?d (st_td x1) (st_td x2)"
    using release_first_to [OF x1(1,2)] store_past_first_to [OF x1, of n alone] by (simp add: x2_def)
  then have two: "to (only key v) ?d td (st_td x2)" using to_trans [OF zero to_trans [OF one]] by blast
  have "td' = write_back b ?d ((st_metadata x2)\<lparr>m_storage := Some (st_stored x2)\<rparr>) (st_td x2)"
    using assms(2) False unfolding tiered_set_def x2_def x1_def x0_def m_def alone_def
    by (auto simp: Let_def split_def split: if_splits)
  then show ?thesis using to_trans [OF two write_back_to [OF toD(1) [OF two]]] by simp
qed

lemma tiered_get_to:
  assumes "td_ok td" and "tiered_get b n key td = (td', r)"
  shows "to nothing e td td'" and "r = Some (m, v) \<Longrightarrow> v \<in> td_held td key"
proof -
  let ?td = "drop_ram_if_cleared b n td"
  note one = drop_ram_if_cleared_to [OF assms(1), where vs = nothing and e = e and n = n]
  have two: "to nothing e ?td td' \<and> (\<forall>m v. r = Some (m, v) \<longrightarrow> v \<in> td_held ?td key)"
    by (rule get_from_to [OF toD(1) [OF one] _ assms(2) [unfolded tiered_get_def]]) (simp add: toD(2) [OF one])
  then show "to nothing e td td'" using to_trans [OF one] by blast
  show "r = Some (m, v) \<Longrightarrow> v \<in> td_held td key" using two toD(4) [OF one, of key] by blast
qed

end

text \<open>The tiers together are a cache tier.\<close>

sublocale tier_laws \<subseteq> tiers: cache_tier td_ok td_held "tiered_store_op b" "tiered_read_op b" "tiered_delete_op b" "tiered_clear_op b"
proof
  fix i :: "'i tiered_env \<times> entry_metadata option" and key k v td
  assume ok: "td_ok td"
  obtain td1 m1 where set: "tiered_set b (fst i) key v (snd i) td = (td1, m1)" by (metis surj_pair)
  obtain td2 r2 where get: "tiered_get b (fst i) key td = (td2, r2)" by (metis surj_pair)
  obtain td3 f3 where del: "tiered_delete b (fst i) key td = (td3, f3)" by (metis surj_pair)
  obtain td4 f4 where clr: "tiered_clear b (fst i) td = (td4, f4)" by (metis surj_pair)
  have ops: "tiered_store_op b i key v td = (td1, True)" "tiered_read_op b i key td = (td2, map_option snd r2)"
    "tiered_delete_op b i key td = (td3, f3 = None)" "tiered_clear_op b i td = (td4, f4 = None)"
    by (simp_all add: tiered_store_op_def tiered_read_op_def tiered_delete_op_def tiered_clear_op_def set get del clr)
  note st = tiered_set_to [OF ok set] and gt = tiered_get_to(1) [OF ok get, of 0]
    and dl = tiered_delete_to(1) [OF ok del, of 0] and cl = tiered_clear_to(1) [OF ok clr, of 0]
  show "td_ok (fst (tiered_store_op b i key v td))" "td_ok (fst (tiered_read_op b i key td))"
    "td_ok (fst (tiered_delete_op b i key td))" "td_ok (fst (tiered_clear_op b i td))"
    using toD(1) [OF st] toD(1) [OF gt] toD(1) [OF dl] toD(1) [OF cl] by (simp_all add: ops)
  show "td_held (fst (tiered_store_op b i key v td)) key \<subseteq> insert v (td_held td key)"
    using toD(4) [OF st, of key] by (auto simp: ops only_def)
  show "td_held (fst (tiered_store_op b i key v td)) k \<subseteq> td_held td k" if "k \<noteq> key"
    using toD(4) [OF st, of k] that by (auto simp: ops only_def)
  show "td_held (fst (tiered_read_op b i key td)) k \<subseteq> td_held td k" using toD(4) [OF gt, of k] by (simp add: ops)
  show "v \<in> td_held td key" if "snd (tiered_read_op b i key td) = Some v"
    using that tiered_get_to(2) [OF ok get] by (auto simp: ops)
  show "td_held (fst (tiered_delete_op b i key td)) k \<subseteq> td_held td k" using toD(4) [OF dl, of k] by (simp add: ops)
  show "td_held (fst (tiered_delete_op b i key td)) key = {}" if "snd (tiered_delete_op b i key td)"
    using that tiered_delete_to(2) [OF ok del] by (simp add: ops)
  show "td_held (fst (tiered_clear_op b i td)) k \<subseteq> td_held td k" using toD(4) [OF cl, of k] by (simp add: ops)
  show "td_held (fst (tiered_clear_op b i td)) k = {}" if "snd (tiered_clear_op b i td)"
    using that tiered_clear_to(2) [OF ok clr] by (simp add: ops)
qed

end
