(* ===== verification/Tiered_Instance.thy ===== *)
theory Tiered_Instance
  imports Tiered_Laws Memory_Contract Sqlite_Contract
begin

text \<open>
  The tiers the factory builds a tiered backend of, as one type: the RAM tier and the SQLite tier, each
  with its own operations behind the methods of \<open>CacheBackend\<close>. Both keep the laws the tiered
  backend relies on, so the two together keep the contract of a cache tier.
\<close>

datatype 'v tier = RamTier "'v ram" | SqlTier "'v sqlite"

text \<open>What a call meets, whichever tier it reaches.\<close>

record tier_call =
  tc_ram :: ram_call
  tc_sql :: sql_env
  tc_copies :: bool  \<comment> \<open>\<open>write_copy\<close> makes a copy\<close>
  tc_payload :: nat  \<comment> \<open>the bytes of a stored payload\<close>
  tc_writes_a_file :: bool

definition failed :: "tier_call \<Rightarrow> string \<Rightarrow> failure" where
  "failed i e = \<lparr>fl_text = e, fl_writes_a_file = tc_writes_a_file i\<rparr>"

definition RAM_FAILED :: string where "RAM_FAILED = ''CacheBackendError''"

definition failure_of :: "tier_call \<Rightarrow> string option \<Rightarrow> failure option" where
  "failure_of i = map_option (failed i)"

definition result_of :: "tier_call \<Rightarrow> string + 'a \<Rightarrow> failure + 'a" where
  "result_of i r = (case r of Inl e \<Rightarrow> Inl (failed i e) | Inr x \<Rightarrow> Inr x)"

subsection \<open>The RAM tier as a tier\<close>

definition ram_outcome_of :: "tier_call \<Rightarrow> ram_outcome \<Rightarrow> failure + bool" where
  "ram_outcome_of i out = (case out of RamKept \<Rightarrow> Inr True | RamRefused \<Rightarrow> Inr False | RamRaised \<Rightarrow> Inl (failed i RAM_FAILED))"

definition ram_tier_get :: "tier_call \<Rightarrow> string \<Rightarrow> 'v ram \<Rightarrow> 'v ram \<times> (failure + (entry_metadata \<times> 'v) option)" where
  "ram_tier_get i key r = (case ram_get (rn_now (rc_env (tc_ram i))) (rc_reading (tc_ram i)) key r of
       (r, RamHit m v) \<Rightarrow> (r, Inr (Some (m, v))) | (r, RamMiss) \<Rightarrow> (r, Inr None) | (r, RamError) \<Rightarrow> (r, Inl (failed i RAM_FAILED)))"

definition ram_tier_set :: "tier_call \<Rightarrow> string \<Rightarrow> 'v \<Rightarrow> entry_metadata \<Rightarrow> nat \<Rightarrow> 'v ram \<Rightarrow> 'v ram \<times> entry_metadata \<times> (failure + bool)" where
  "ram_tier_set i key v m d r = (case ram_set (rc_env (tc_ram i)) (rc_look (tc_ram i)) key v (Some m) d r of
       (r, m, out) \<Rightarrow> (r, m, ram_outcome_of i out))"

definition ram_tier_promote :: "tier_call \<Rightarrow> string \<Rightarrow> 'v \<Rightarrow> entry_metadata \<Rightarrow> nat \<Rightarrow> 'v ram \<Rightarrow> 'v ram \<times> entry_metadata \<times> (failure + bool)" where
  "ram_tier_promote i key v m d r = (case ram_promote (rc_env (tc_ram i)) (rc_look (tc_ram i)) key v m d r of
       (r, m, out) \<Rightarrow> (r, m, ram_outcome_of i out))"

text \<open>The dict \<open>d\<close> is the very one an entry keeps: what another tier or the tiered backend writes to it is the
  entry's from then on. The bytes counted for the entry stay as they were.\<close>

definition with_dict :: "nat \<Rightarrow> entry_metadata \<Rightarrow> 'v ram_entry \<Rightarrow> 'v ram_entry" where
  "with_dict d m e = (if re_dict e = d then e\<lparr>re_meta := m\<rparr> else e)"

definition ram_write_back :: "nat \<Rightarrow> entry_metadata \<Rightarrow> 'v ram \<Rightarrow> 'v ram" where
  "ram_write_back d m r = r\<lparr>ram_store := map (\<lambda>(k, e). (k, with_dict d m e)) (ram_store r),
     ram_handoff := map_option (\<lambda>(k, e). (k, with_dict d m e)) (ram_handoff r)\<rparr>"

definition ram_note_restore :: "value_class \<Rightarrow> entry_metadata \<Rightarrow> seconds \<Rightarrow> 'v ram \<Rightarrow> 'v ram" where
  "ram_note_restore kind m seconds r = r\<lparr>ram_rates := fst (restored_no_faster kind m seconds (ram_rates r))\<rparr>"

definition ram_tier_peek :: "tier_call \<Rightarrow> bool \<Rightarrow> string \<Rightarrow> 'v ram \<Rightarrow> (entry_metadata \<times> nat \<times> 'v option) option" where
  "ram_tier_peek i want key r = map_option (\<lambda>(e, v). (re_meta e, re_dict e, v)) (ram_peek_entry (rc_reading (tc_ram i)) want key r)"

subsection \<open>The SQLite tier as a tier\<close>

text \<open>The metadata dict after \<open>set\<close>, which stamps it as far as it gets.\<close>

definition sql_metadata_after :: "sql_env \<Rightarrow> string \<Rightarrow> entry_metadata \<Rightarrow> 'v sqlite \<Rightarrow> entry_metadata" where
  "sql_metadata_after n key m s = (if sq_connection (sql_open n s) = Unusable then m
     else case se_serialized n of
       Inl _ \<Rightarrow> init_metadata (Some m) key (se_now n)
     | Inr nbytes \<Rightarrow> stamped n key nbytes (Some m) (sql_open n s))"

definition sql_tier_set :: "tier_call \<Rightarrow> string \<Rightarrow> 'v \<Rightarrow> entry_metadata \<Rightarrow> 'v sqlite \<Rightarrow> 'v sqlite \<times> entry_metadata \<times> (failure + bool)" where
  "sql_tier_set i key v m s = (
     let n = tc_sql i; s = meanwhile n s in
     case sql_set n key v (Some m) s of
       (s', None) \<Rightarrow> (s', sql_metadata_after n key m s, Inr True)
     | (s', Some e) \<Rightarrow> (s', sql_metadata_after n key m s, Inl (failed i e)))"

definition sql_tier_get :: "tier_call \<Rightarrow> string \<Rightarrow> 'v sqlite \<Rightarrow> 'v sqlite \<times> (failure + (entry_metadata \<times> 'v) option)" where
  "sql_tier_get i key s = (case sql_get (tc_sql i) key (meanwhile (tc_sql i) s) of (s, r) \<Rightarrow> (s, result_of i r))"

definition no_stamp :: "nat disk_stamp" where
  "no_stamp = \<lparr>ds_token = Inr None, ds_stamp_writes = 0, ds_written_stamp = None\<rparr>"

subsection \<open>The methods\<close>

definition on_ram :: "('v ram \<Rightarrow> 'v ram \<times> 'a) \<Rightarrow> 'v ram \<Rightarrow> 'v tier \<times> 'a" where
  "on_ram f r = (case f r of (r, x) \<Rightarrow> (RamTier r, x))"

definition on_sql :: "('v sqlite \<Rightarrow> 'v sqlite \<times> 'a) \<Rightarrow> 'v sqlite \<Rightarrow> 'v tier \<times> 'a" where
  "on_sql f s = (case f s of (s, x) \<Rightarrow> (SqlTier s, x))"

definition tiers_of_cash :: "(tier_call, 'v tier, 'v) backend" where
  "tiers_of_cash = \<lparr>
     b_get = \<lambda>i key t. (case t of RamTier r \<Rightarrow> on_ram (ram_tier_get i key) r | SqlTier s \<Rightarrow> on_sql (sql_tier_get i key) s),
     b_set = \<lambda>i how key v m d t. (case t of RamTier r \<Rightarrow> on_ram (ram_tier_set i key v m d) r | SqlTier s \<Rightarrow> on_sql (sql_tier_set i key v m) s),
     b_delete = \<lambda>i key t. (case t of RamTier r \<Rightarrow> (RamTier (ram_delete key r), None)
       | SqlTier s \<Rightarrow> on_sql (\<lambda>s. map_prod id (failure_of i) (sql_delete (tc_sql i) key (meanwhile (tc_sql i) s))) s),
     b_clear = \<lambda>i t. (case t of RamTier r \<Rightarrow> (RamTier (ram_clear r), None)
       | SqlTier s \<Rightarrow> on_sql (\<lambda>s. map_prod id (failure_of i) (sql_clear (tc_sql i) (meanwhile (tc_sql i) s))) s),
     b_promote = \<lambda>i key v m d t. (case t of RamTier r \<Rightarrow> Some (on_ram (ram_tier_promote i key v m d) r) | SqlTier _ \<Rightarrow> None),
     b_get_metadata = \<lambda>i key t. (case t of
         RamTier r \<Rightarrow> on_ram (\<lambda>r. map_prod id Inr (ram_get_metadata (rn_now (rc_env (tc_ram i))) key r)) r
       | SqlTier s \<Rightarrow> on_sql (\<lambda>s. map_prod id (result_of i) (sql_get_metadata (tc_sql i) key (meanwhile (tc_sql i) s))) s),
     b_peek_metadata = \<lambda>i key t. (case t of
         RamTier r \<Rightarrow> (t, Inr (ram_peek_metadata key r))
       | SqlTier s \<Rightarrow> on_sql (\<lambda>s. map_prod id (result_of i) (sql_get_metadata (tc_sql i) key (meanwhile (tc_sql i) s))) s),
     b_set_metadata_only = \<lambda>i key m t. (t, None),
     b_bump_generation = \<lambda>i t. (t, None),
     b_list_entries = \<lambda>i t. (case t of RamTier r \<Rightarrow> (t, Inr (ram_list_entries r))
       | SqlTier s \<Rightarrow> on_sql (\<lambda>s. map_prod id (result_of i) (sql_list_entries (tc_sql i) (meanwhile (tc_sql i) s))) s),
     b_entry_count = \<lambda>i t. (case t of RamTier r \<Rightarrow> (t, Inr (ram_entry_count r))
       | SqlTier s \<Rightarrow> on_sql (\<lambda>s. map_prod id (result_of i) (sql_entry_count (tc_sql i) (meanwhile (tc_sql i) s))) s),
     b_shutdown = \<lambda>i t. (case t of RamTier r \<Rightarrow> (t, None) | SqlTier s \<Rightarrow> (SqlTier (sql_shutdown (tc_sql i) (meanwhile (tc_sql i) s)), None)),
     b_peek_entry = \<lambda>i want key t. (case t of RamTier r \<Rightarrow> Inr (ram_tier_peek i want key r) | SqlTier _ \<Rightarrow> Inr None),
     b_private_copy = \<lambda>key d t. (case t of RamTier r \<Rightarrow> private_copy key (Some d) r | SqlTier _ \<Rightarrow> None),
     b_stored_payload = \<lambda>i key d t. (case t of RamTier r \<Rightarrow> map_option (\<lambda>v. (v, tc_payload i)) (stored_payload key (Some d) r) | SqlTier _ \<Rightarrow> None),
     b_write_copy = \<lambda>i key v m t. (case t of RamTier _ \<Rightarrow> if tc_copies i \<and> \<not> m_no_private_copy m then Some v else None | SqlTier _ \<Rightarrow> None),
     b_may_share = \<lambda>key t. (case t of RamTier r \<Rightarrow> may_share_with_caller key r | SqlTier _ \<Rightarrow> False),
     b_holds_own_copy = \<lambda>key t. (case t of RamTier r \<Rightarrow> holds_own_copy key r | SqlTier _ \<Rightarrow> False),
     b_release_handoff = \<lambda>t. (case t of RamTier r \<Rightarrow> RamTier (release_handoff r) | SqlTier _ \<Rightarrow> t),
     b_write_back = \<lambda>d m t. (case t of RamTier r \<Rightarrow> RamTier (ram_write_back d m r) | SqlTier _ \<Rightarrow> t),
     b_note_restore = \<lambda>kind m seconds t. (case t of RamTier r \<Rightarrow> RamTier (ram_note_restore kind m seconds r) | SqlTier _ \<Rightarrow> t),
     b_label = \<lambda>t. (case t of RamTier _ \<Rightarrow> RAM_LABEL | SqlTier _ \<Rightarrow> SQLITE_LABEL),
     b_class = \<lambda>t. (case t of RamTier _ \<Rightarrow> ''InMemoryBackend'' | SqlTier _ \<Rightarrow> ''SQLiteBackend''),
     b_cost_kind = \<lambda>t. (case t of RamTier _ \<Rightarrow> ''ram'' | SqlTier _ \<Rightarrow> ''disk''),
     b_default_ttl = \<lambda>t. (case t of RamTier _ \<Rightarrow> None | SqlTier s \<Rightarrow> sq_default_ttl s),
     b_size_cap = \<lambda>i t. (case t of RamTier _ \<Rightarrow> None | SqlTier s \<Rightarrow> Some (sql_promotion_size_cap s)),
     b_takes_private = \<lambda>t. False,
     b_compress = \<lambda>t. False,
     b_local_dir = \<lambda>t. None,
     b_stamp = \<lambda>i t. no_stamp\<rparr>"

subsection \<open>The laws\<close>

definition ram_kept :: "'v ram \<Rightarrow> string \<Rightarrow> nat \<Rightarrow> 'v set" where
  "ram_kept r k d = {form_value (re_form e) | e. (map_of (ram_store r) k = Some e \<or> ram_handoff r = Some (k, e)) \<and> re_dict e = d}"

definition tier_ok :: "'v tier \<Rightarrow> bool" where
  "tier_ok t = (case t of RamTier _ \<Rightarrow> True | SqlTier s \<Rightarrow> sql_inv s)"

definition tier_held :: "'v tier \<Rightarrow> string \<Rightarrow> 'v set" where
  "tier_held t = (case t of RamTier r \<Rightarrow> ram_held r | SqlTier s \<Rightarrow> sql_held s)"

definition tier_kept :: "'v tier \<Rightarrow> string \<Rightarrow> nat \<Rightarrow> 'v set" where
  "tier_kept t = (case t of RamTier r \<Rightarrow> ram_kept r | SqlTier _ \<Rightarrow> (\<lambda>_ _. {}))"

abbreviation tier_step :: "(string \<Rightarrow> 'v set) \<Rightarrow> nat \<Rightarrow> 'v tier \<Rightarrow> 'v tier \<Rightarrow> bool" where
  "tier_step \<equiv> step_to tier_ok tier_held tier_kept"

lemma ram_step:
  "tier_step vs e (RamTier r) (RamTier r') \<longleftrightarrow> (\<forall>k. ram_held r' k \<subseteq> ram_held r k \<union> vs k) \<and>
     (\<forall>k d. ram_kept r' k d \<subseteq> ram_kept r k d \<union> (if d = e then vs k else {}))"
  by (simp add: step_to_def tier_ok_def tier_held_def tier_kept_def)

lemma sql_step:
  "tier_step vs e (SqlTier s) (SqlTier s') \<longleftrightarrow> sql_inv s' \<and> (\<forall>k. sql_held s' k \<subseteq> sql_held s k \<union> vs k)"
  by (simp add: step_to_def tier_ok_def tier_held_def tier_kept_def)

text \<open>What the tier keeps, entry by entry: the value and the dict of each, and of the handoff.\<close>

lemma ram_step_entries:
  assumes "\<And>k x. map_of (ram_store r') k = Some x \<Longrightarrow>
      (\<exists>y. map_of (ram_store r) k = Some y \<and> form_value (re_form x) = form_value (re_form y) \<and> re_dict x = re_dict y) \<or>
      form_value (re_form x) \<in> vs k \<and> re_dict x = e"
    and "\<And>k x. ram_handoff r' = Some (k, x) \<Longrightarrow>
      (\<exists>y. ram_handoff r = Some (k, y) \<and> form_value (re_form x) = form_value (re_form y) \<and> re_dict x = re_dict y) \<or>
      form_value (re_form x) \<in> vs k \<and> re_dict x = e"
  shows "tier_step vs e (RamTier r) (RamTier r')"
  unfolding ram_step
proof (intro conjI allI subsetI)
  fix k u assume "u \<in> ram_held r' k"
  then obtain x where x: "map_of (ram_store r') k = Some x" "u = form_value (re_form x)" by (auto simp: ram_held_def ram_value_def)
  from assms(1) [OF x(1)] show "u \<in> ram_held r k \<union> vs k" using x(2) by (auto simp: ram_held_def ram_value_def)
next
  fix k d u assume "u \<in> ram_kept r' k d"
  then obtain x where x: "map_of (ram_store r') k = Some x \<or> ram_handoff r' = Some (k, x)" "u = form_value (re_form x)" "re_dict x = d"
    by (auto simp: ram_kept_def)
  then consider y where "map_of (ram_store r) k = Some y \<or> ram_handoff r = Some (k, y)" "u = form_value (re_form y)" "re_dict y = d"
    | "u \<in> vs k" "d = e" using assms(1) [of k x] assms(2) [of k x] by metis
  then show "u \<in> ram_kept r k d \<union> (if d = e then vs k else {})"
  proof cases
    case (1 y)
    then have "u \<in> ram_kept r k d" unfolding ram_kept_def by blast
    then show ?thesis by simp
  qed simp
qed

lemma sheds_step: "sheds r r' \<Longrightarrow> tier_step vs e (RamTier r) (RamTier r')"
proof (rule ram_step_entries)
  assume s: "sheds r r'"
  show "(\<exists>y. map_of (ram_store r) k = Some y \<and> form_value (re_form x) = form_value (re_form y) \<and> re_dict x = re_dict y) \<or>
      form_value (re_form x) \<in> vs k \<and> re_dict x = e" if "map_of (ram_store r') k = Some x" for k x
    using that sheds_store [OF s, of k] by (metis option.distinct(1))
  show "(\<exists>y. ram_handoff r = Some (k, y) \<and> form_value (re_form x) = form_value (re_form y) \<and> re_dict x = re_dict y) \<or>
      form_value (re_form x) \<in> vs k \<and> re_dict x = e" if "ram_handoff r' = Some (k, x)" for k x
    using that sheds_handoff [OF s] by auto
qed

lemma reads_step:
  assumes "reads_to key r r'"
  shows "tier_step vs e (RamTier r) (RamTier r')"
proof (rule ram_step_entries)
  fix k x assume x: "map_of (ram_store r') k = Some x"
  show "(\<exists>y. map_of (ram_store r) k = Some y \<and> form_value (re_form x) = form_value (re_form y) \<and> re_dict x = re_dict y) \<or>
      form_value (re_form x) \<in> vs k \<and> re_dict x = e"
  proof (cases "k = key")
    case True
    then have "map_option (\<lambda>e. (form_value (re_form e), re_dict e)) (map_of (ram_store r) k) = Some (form_value (re_form x), re_dict x)"
      using assms x by (simp add: reads_to_def same_value_def)
    then show ?thesis by auto
  qed (use assms x in \<open>simp add: reads_to_def\<close>)
next
  have "ram_handoff r' = ram_handoff r" using assms by (simp add: reads_to_def)
  then show "(\<exists>y. ram_handoff r = Some (k, y) \<and> form_value (re_form x) = form_value (re_form y) \<and> re_dict x = re_dict y) \<or>
      form_value (re_form x) \<in> vs k \<and> re_dict x = e" if "ram_handoff r' = Some (k, x)" for k x
    using that by metis
qed

lemma set_step:
  assumes "ram_set w l key v metadata d r = (r', m, out)"
  shows "tier_step (only key v) d (RamTier r) (RamTier r')"
  using assms
proof (cases rule: ram_set_cases)
  case (refused q)
  then show ?thesis using sheds_step [OF sheds.drops [OF sheds.rates [OF sheds.keeps]]] by simp
next
  case (raised q)
  then show ?thesis using sheds_step [OF sheds.rates [OF sheds.keeps]] by simp
next
  case (recorded q kp sz ok)
  let ?r = "ram_record key kp (use_dict_rows l \<noteq> None) (use_shared l) m d sz (r\<lparr>ram_rates := q\<rparr>)"
  let ?e = "\<lparr>re_meta = m, re_form = kp_form kp, re_dict = d\<rparr>"
  obtain r4 h where c: "fst (ram_commit w key kp (use_dict_rows l \<noteq> None) (use_shared l) m d sz (r\<lparr>ram_rates := q\<rparr>)) = r4\<lparr>ram_handoff := h\<rparr>"
      "sheds ?r r4" "h = ram_handoff (r\<lparr>ram_rates := q\<rparr>) \<or> h = None \<or> h = Some (key, ?e)"
    by (rule ram_commit_sheds)
  then have r': "r' = r4\<lparr>ram_handoff := h\<rparr>" using recorded(1) by (metis fst_conv)
  show ?thesis
  proof (rule ram_step_entries)
    fix k x assume "map_of (ram_store r') k = Some x"
    then have "map_of (ram_store ?r) k = Some x" using sheds_store [OF c(2), of k] r' by auto
    then show "(\<exists>y. map_of (ram_store r) k = Some y \<and> form_value (re_form x) = form_value (re_form y) \<and> re_dict x = re_dict y) \<or>
        form_value (re_form x) \<in> only key v k \<and> re_dict x = d"
      using recorded(5) by (auto simp: ram_record_fields map_of_update only_def split: if_splits)
  next
    fix k x assume "ram_handoff r' = Some (k, x)"
    then have "ram_handoff r = Some (k, x) \<or> (k, x) = (key, ?e)" using c(3) r' by auto
    then show "(\<exists>y. ram_handoff r = Some (k, y) \<and> form_value (re_form x) = form_value (re_form y) \<and> re_dict x = re_dict y) \<or>
        form_value (re_form x) \<in> only key v k \<and> re_dict x = d"
      using recorded(5) by (auto simp: only_def)
  qed
qed

lemma promote_step: "ram_promote w l key v m d r = (r', m', out) \<Longrightarrow> tier_step (only key v) d (RamTier r) (RamTier r')"
  using sheds_step [OF sheds.keeps] set_step by (auto simp: ram_promote_def split: if_splits)

lemma with_dict_fields [simp]: "re_form (with_dict d m e) = re_form e" "re_dict (with_dict d m e) = re_dict e"
  by (simp_all add: with_dict_def)

lemma write_back_step: "tier_step vs e (RamTier r) (RamTier (ram_write_back d m r))"
proof (rule ram_step_entries)
  fix k x assume "map_of (ram_store (ram_write_back d m r)) k = Some x"
  then have "map_option (with_dict d m) (map_of (ram_store r) k) = Some x" by (simp add: ram_write_back_def map_of_map)
  then show "(\<exists>y. map_of (ram_store r) k = Some y \<and> form_value (re_form x) = form_value (re_form y) \<and> re_dict x = re_dict y) \<or>
      form_value (re_form x) \<in> vs k \<and> re_dict x = e" by auto
qed (auto simp: ram_write_back_def)

lemma private_copy_kept: "private_copy key (Some d) r = Some u \<Longrightarrow> u \<in> ram_kept r key d"
proof -
  assume c: "private_copy key (Some d) r = Some u"
  then obtain e hb own where e: "entry_or_handoff key r = Some (e, hb, own)" by (auto simp: private_copy_def split: option.splits)
  then have "map_of (ram_store r) key = Some e \<or> ram_handoff r = Some (key, e)"
    by (auto simp: entry_or_handoff_def split: option.splits if_splits)
  moreover have "re_dict e = d" "u = form_value (re_form e)"
    using c e by (auto simp: private_copy_def form_value_def split: if_splits form.splits)
  ultimately show ?thesis unfolding ram_kept_def by blast
qed

text \<open>An entry in the store comes before a handoff of the key.\<close>

lemma stored_payload_held:
  "ram_tier_peek i want key r = Some (m, d, z) \<Longrightarrow> stored_payload key (Some d) r = Some u \<Longrightarrow> u \<in> ram_held r key"
  by (auto simp: ram_tier_peek_def ram_peek_entry_def stored_payload_def entry_or_handoff_def ram_held_def ram_value_def form_value_def
      split: option.splits if_splits form.splits)

lemma peek_held: "ram_tier_peek i want key r = Some (m, d, Some u) \<Longrightarrow> u \<in> ram_held r key"
  by (auto simp: ram_tier_peek_def ram_peek_entry_def ram_held_def ram_value_def form_value_def split: option.splits if_splits form.splits)

lemma sql_keeps_step: "sql_inv s' \<Longrightarrow> keeps s s' \<Longrightarrow> tier_step vs e (SqlTier s) (SqlTier s')"
  by (auto simp: sql_step keeps_def)

lemma sql_get_step:
  assumes "sql_inv s" and "sql_tier_get i key s = (s', r)"
  shows "tier_step vs e (SqlTier s) (SqlTier s')" and "r = Inr (Some (m, v)) \<Longrightarrow> v \<in> sql_held s key"
proof -
  note w = meanwhile_ok [OF assms(1), of "tc_sql i"]
  obtain q where get: "sql_get (tc_sql i) key (meanwhile (tc_sql i) s) = (s', q)" and r: "r = result_of i q"
    using assms(2) by (auto simp: sql_tier_get_def split: prod.splits)
  note g = sql_get_ok [OF w(1) get]
  show "tier_step vs e (SqlTier s) (SqlTier s')" by (rule sql_keeps_step [OF g(1) keeps_trans [OF w(2) g(2)]])
  assume "r = Inr (Some (m, v))"
  then have "q = Inr (Some (m, v))" using r by (simp add: result_of_def split: sum.splits)
  then show "v \<in> sql_held s key" using g(3) w(2) by (auto simp: keeps_def)
qed

lemma sql_set_step:
  assumes "sql_inv s" and "sql_tier_set i key v m s = (s', m', r)"
  shows "tier_step (only key v) e (SqlTier s) (SqlTier s')"
proof -
  note w = meanwhile_ok [OF assms(1), of "tc_sql i"]
  obtain q where set: "sql_set (tc_sql i) key v (Some m) (meanwhile (tc_sql i) s) = (s', q)"
    using assms(2) by (auto simp: sql_tier_set_def Let_def split: prod.splits option.splits)
  have "sql_held s' k \<subseteq> sql_held s k \<union> only key v k" for k
    using sql_set_ok(2) [OF w(1) set, of k] w(2) by (auto simp: only_def keeps_def split: if_splits)
  then show ?thesis using sql_set_ok(1) [OF w(1) set] by (simp add: sql_step)
qed

lemma sql_delete_step:
  assumes "sql_inv s" and "sql_delete n key (meanwhile n s) = (s', r)"
  shows "tier_step vs e (SqlTier s) (SqlTier s')" and "r = None \<Longrightarrow> sql_held s' key = {}"
proof -
  note d = sql_delete_ok [OF meanwhile_ok(1) [OF assms(1)] assms(2)]
  show "tier_step vs e (SqlTier s) (SqlTier s')" by (rule sql_keeps_step [OF d(1) keeps_trans [OF meanwhile_ok(2) [OF assms(1)] d(2)]])
  show "r = None \<Longrightarrow> sql_held s' key = {}" by (rule d(3))
qed

lemma sql_clear_step:
  assumes "sql_inv s" and "sql_clear n (meanwhile n s) = (s', r)"
  shows "tier_step vs e (SqlTier s) (SqlTier s')" and "r = None \<Longrightarrow> sql_held s' k = {}"
proof -
  note d = sql_clear_ok [OF meanwhile_ok(1) [OF assms(1)] assms(2)]
  show "tier_step vs e (SqlTier s) (SqlTier s')" by (rule sql_keeps_step [OF d(1) keeps_trans [OF meanwhile_ok(2) [OF assms(1)] d(2)]])
  show "r = None \<Longrightarrow> sql_held s' k = {}" by (rule d(3))
qed

lemma tier_step_refl: "tier_ok t \<Longrightarrow> tier_step vs e t t"
  by (simp add: step_to_def)

subsection \<open>The tiers of cash\<close>

interpretation cash: tier_laws tiers_of_cash tier_ok tier_held tier_kept
proof
  fix t t' :: "'v tier" and i j :: tier_call and key k v m m' d e f r u want z nb how q kind secs
  assume ok: "tier_ok t"
  show "tier_step nothing e t t'" if "b_get tiers_of_cash i key t = (t', r)"
  proof (cases t)
    case (RamTier x)
    have "reads_to key x (fst (ram_tier_get i key x))"
      using ram_get_reads [of key x "rn_now (rc_env (tc_ram i))" "rc_reading (tc_ram i)"]
      by (auto simp: ram_tier_get_def split: prod.splits ram_read.splits)
    then show ?thesis using that reads_step by (auto simp: RamTier tiers_of_cash_def on_ram_def split: prod.splits)
  next
    case (SqlTier s)
    then show ?thesis using ok that sql_get_step(1) by (auto simp: tiers_of_cash_def on_sql_def tier_ok_def split: prod.splits)
  qed
  show "v \<in> tier_held t key" if "b_get tiers_of_cash i key t = (t', Inr (Some (m, v)))"
  proof (cases t)
    case (RamTier x)
    then show ?thesis using that ram_get_reads [of key x "rn_now (rc_env (tc_ram i))" "rc_reading (tc_ram i)"]
      by (auto simp: tiers_of_cash_def on_ram_def ram_tier_get_def tier_held_def ram_held_def ram_value_def split: prod.splits ram_read.splits)
  next
    case (SqlTier s)
    then show ?thesis using ok that sql_get_step(2) [OF _ _ refl] by (auto simp: tiers_of_cash_def on_sql_def tier_ok_def tier_held_def split: prod.splits)
  qed
  show "tier_step (only key v) d t t'" if "b_set tiers_of_cash i how key v m d t = (t', m', q)"
  proof (cases t)
    case (RamTier x)
    then show ?thesis using that set_step by (auto simp: tiers_of_cash_def on_ram_def ram_tier_set_def split: prod.splits)
  next
    case (SqlTier s)
    then show ?thesis using ok that sql_set_step by (auto simp: tiers_of_cash_def on_sql_def tier_ok_def split: prod.splits)
  qed
  show "tier_step (only key v) d t t'" if "b_promote tiers_of_cash i key v m d t = Some (t', m', q)"
  proof (cases t)
    case (RamTier x)
    then show ?thesis using that promote_step by (auto simp: tiers_of_cash_def on_ram_def ram_tier_promote_def split: prod.splits)
  qed (use that in \<open>simp add: tiers_of_cash_def\<close>)
  have drop: "tier_step nothing e (RamTier x) (RamTier (ram_delete key x))" for x :: "'v ram"
    using sheds_step [OF sheds.drops [OF sheds.keeps]] by (simp add: ram_delete_def)
  show "tier_step nothing e t t'" if "b_delete tiers_of_cash i key t = (t', f)"
  proof (cases t)
    case (SqlTier s)
    obtain s' g where d: "sql_delete (tc_sql i) key (meanwhile (tc_sql i) s) = (s', g)" by (metis surj_pair)
    then show ?thesis using ok that SqlTier sql_delete_step(1) [OF _ d] by (auto simp: tiers_of_cash_def on_sql_def tier_ok_def)
  qed (use that drop in \<open>auto simp: tiers_of_cash_def\<close>)
  show "tier_held t' key = {}" if "b_delete tiers_of_cash i key t = (t', None)"
  proof (cases t)
    case (RamTier x)
    then show ?thesis using that by (auto simp: tiers_of_cash_def tier_held_def ram_held_def ram_delete_def ram_value_drop)
  next
    case (SqlTier s)
    obtain s' g where d: "sql_delete (tc_sql i) key (meanwhile (tc_sql i) s) = (s', g)" by (metis surj_pair)
    then show ?thesis using ok that SqlTier sql_delete_step(2) [OF _ d] by (auto simp: tiers_of_cash_def on_sql_def tier_ok_def tier_held_def failure_of_def)
  qed
  have wipe: "tier_step nothing e (RamTier x) (RamTier (ram_clear x))" for x :: "'v ram"
    by (rule ram_step_entries) (auto simp: ram_clear_def)
  show "tier_step nothing e t t'" if "b_clear tiers_of_cash i t = (t', f)"
  proof (cases t)
    case (SqlTier s)
    obtain s' g where d: "sql_clear (tc_sql i) (meanwhile (tc_sql i) s) = (s', g)" by (metis surj_pair)
    then show ?thesis using ok that SqlTier sql_clear_step(1) [OF _ d] by (auto simp: tiers_of_cash_def on_sql_def tier_ok_def)
  qed (use that wipe in \<open>auto simp: tiers_of_cash_def\<close>)
  show "tier_held t' k = {}" if "b_clear tiers_of_cash i t = (t', None)"
  proof (cases t)
    case (RamTier x)
    then show ?thesis using that by (auto simp: tiers_of_cash_def tier_held_def ram_held_def ram_value_def ram_clear_def)
  next
    case (SqlTier s)
    obtain s' g where d: "sql_clear (tc_sql i) (meanwhile (tc_sql i) s) = (s', g)" by (metis surj_pair)
    then show ?thesis using ok that SqlTier sql_clear_step(2) [OF _ d] by (auto simp: tiers_of_cash_def on_sql_def tier_ok_def tier_held_def failure_of_def)
  qed
  show "tier_step nothing e t (b_release_handoff tiers_of_cash t)"
    using ok by (cases t) (auto simp: tiers_of_cash_def release_handoff_def tier_step_refl intro!: ram_step_entries)
  show "tier_step nothing e t (b_write_back tiers_of_cash d m t)"
    using ok by (cases t) (simp_all add: tiers_of_cash_def tier_step_refl write_back_step)
  show "tier_step nothing e t (b_note_restore tiers_of_cash kind m secs t)"
    using ok by (cases t) (auto simp: tiers_of_cash_def tier_step_refl ram_note_restore_def intro!: sheds_step sheds.rates)
  show "u \<in> tier_kept t key d" if "b_private_copy tiers_of_cash key d t = Some u"
    using that by (cases t) (simp_all add: tiers_of_cash_def tier_kept_def private_copy_kept)
  show "u = v" if "b_write_copy tiers_of_cash i key v m t = Some u"
    using that by (cases t) (simp_all add: tiers_of_cash_def split: if_splits)
  show "u \<in> tier_held t key" if "b_peek_entry tiers_of_cash i want key t = Inr (Some (m, d, Some u))"
    using that by (cases t) (simp_all add: tiers_of_cash_def tier_held_def peek_held)
  show "u \<in> tier_held t key" if "b_peek_entry tiers_of_cash i want key t = Inr (Some (m, d, z))" "b_stored_payload tiers_of_cash j key d t = Some (u, nb)"
    using that by (cases t) (auto simp: tiers_of_cash_def tier_held_def stored_payload_held)
qed

subsection \<open>Properties\<close>

text \<open>A tier as a new process finds it: RAM empty, no write queued.\<close>

definition new_tier :: "'v tier \<Rightarrow> bool" where
  "new_tier t = (case t of RamTier r \<Rightarrow> ram_store r = [] \<and> ram_handoff r = None | SqlTier s \<Rightarrow> sq_writes s = pw_init)"

lemma new_tiers_ok:
  assumes "\<forall>t \<in> set tiers. new_tier t"
  shows "cash.td_ok (tiered_init tiers policy override)"
proof -
  have "tier_ok t \<and> tier_kept t k d = {}" if "t \<in> set tiers" for t k d
    using bspec [OF assms that] by (cases t) (simp_all add: new_tier_def tier_ok_def tier_kept_def ram_kept_def queue_inv_init)
  then show ?thesis by (simp add: cash.td_ok_def cash.td_kept_def tiered_init_def)
qed

end
