(* ===== verification/Tiered_Properties.thy ===== *)
theory Tiered_Properties
  imports Tiered_Instance
begin

text \<open>
  What the tiered backend over the RAM and SQLite tiers promises its callers, and a run of it: an
  entry forced to disk goes to both tiers, is read back, and is deleted again.
\<close>

subsection \<open>Claims\<close>

text \<open>
  Tiered caching hands out only what was stored: over RAM and SQLite tiers in any number and
  order, after any stores, reads, deletes and clears, with whatever the tiers refuse, evict, fail at
  or write later in the background, a value read under a key was stored under that very key since it was
  last deleted and the tiers last cleared (or was in a database from the start). Promotion, late writes of RAM entries,
  copies handed between tiers and call entries written along never mix two keys' values or revive a deleted one.\<close>

theorem tiered_serves_stored:
  assumes "\<forall>t \<in> set tiers. new_tier t"
    and "run_ops (tiered_store_op tiers_of_cash) (tiered_read_op tiers_of_cash) (tiered_delete_op tiers_of_cash) (tiered_clear_op tiers_of_cash) ps
      (tiered_init tiers policy override, \<lambda>k. \<Union>t \<in> set tiers. tier_held t k) = (td, vals)"
    and "snd (tiered_read_op tiers_of_cash i key td) = Some v"
  shows "v \<in> vals key"
proof (rule cash.tiers.served_was_stored [OF new_tiers_ok [OF assms(1)] _ assms(2,3)])
  show "cash.td_held (tiered_init tiers policy override) k \<subseteq> (\<Union>t \<in> set tiers. tier_held t k)" for k
    by (simp add: cash.td_held_def tiered_init_def)
qed

text \<open>
  Once \<open>TieredBackend.delete\<close> has run through, the key is a miss for as long as it is not stored again:
  no tier brings it back, whatever is read, stored, deleted or cleared under other keys meanwhile.\<close>

theorem tiered_delete_is_final:
  assumes "\<forall>t \<in> set tiers. new_tier t"
    and "td = fold (run_op (tiered_store_op tiers_of_cash) (tiered_read_op tiers_of_cash) (tiered_delete_op tiers_of_cash) (tiered_clear_op tiers_of_cash)) before
      (tiered_init tiers policy override)"
    and "tiered_delete_op tiers_of_cash i key td = (td', True)" and "\<forall>p \<in> set after. \<not> stores_to key p"
  shows "snd (tiered_read_op tiers_of_cash j key
    (fold (run_op (tiered_store_op tiers_of_cash) (tiered_read_op tiers_of_cash) (tiered_delete_op tiers_of_cash) (tiered_clear_op tiers_of_cash)) after td')) = None"
proof -
  have "cash.td_ok td" unfolding assms(2) by (rule cash.tiers.folds_ok [OF new_tiers_ok [OF assms(1)]])
  from cash.tiers.removed_not_served [OF this, of i key after j] assms(3,4) show ?thesis by simp
qed

subsection \<open>A run through both tiers\<close>

definition sample_tier_call :: tier_call where
  "sample_tier_call = \<lparr>tc_ram = sample_call, tc_sql = sample_sql_env, tc_copies = False, tc_payload = 0, tc_writes_a_file = False\<rparr>"

definition sample_facts :: value_facts where
  "sample_facts = \<lparr>vf_class = DataValue, vf_copies = None, vf_footprint = 0, vf_pickle_serializer = True, vf_split = None,
     vf_serialized = None, vf_estimate = 0, vf_sampled = None, vf_named = None, vf_decorated = []\<rparr>"

definition sample_tiered_env :: "tier_call tiered_env" where
  "sample_tiered_env = \<lparr>tn_now = 10, tn_monotonic = 0, tn_in = \<lambda>_ _ _. sample_tier_call, tn_value = \<lambda>_. sample_facts,
     tn_restore = \<lambda>_. \<lparr>rf_seconds = 0, rf_imported = False, rf_again = 0, rf_again_imported = False\<rparr>\<rparr>"

lemmas tier_method_simps = tiers_of_cash_def on_ram_def on_sql_def

theorem tiered_delete_is_final_witness:
  "snd (tiered_read_op tiers_of_cash (sample_tiered_env, None) ''a''
    (fst (tiered_delete_op tiers_of_cash (sample_tiered_env, None) ''a''
      (tiered_init [RamTier (empty_ram :: nat ram), SqlTier (sql_init None None [])] default_policy None)))) = None"
proof -
  let ?tiers = "[RamTier (empty_ram :: nat ram), SqlTier (sql_init None None [])]"
  let ?td = "tiered_init ?tiers default_policy None"
  have "snd (tiered_delete_op tiers_of_cash (sample_tiered_env, None) ''a'' ?td)"
    by (simp add: tiered_delete_op_def tiered_delete_def tiered_init_def put_tier_def tier_method_simps upt_rec sample_tiered_env_def sample_tier_call_def failure_of_def)
       (simp add: sql_run_simps)
  then obtain td' where d: "tiered_delete_op tiers_of_cash (sample_tiered_env, None) ''a'' ?td = (td', True)" by (metis prod.collapse)
  have new: "\<forall>t \<in> set ?tiers. new_tier t" by (simp add: new_tier_def empty_ram_def ram_init_def sql_init_def)
  show ?thesis using tiered_delete_is_final [OF new _ d, of "[]" default_policy None "[]" "(sample_tiered_env, None)"] d by simp
qed

definition forced_meta :: entry_metadata where
  "forced_meta = sample_meta\<lparr>m_force_persist := True\<rparr>"

definition ram_and_sqlite :: "nat tier tiered" where
  "ram_and_sqlite = tiered_init [RamTier empty_ram, SqlTier (sql_init None None [])] default_policy None"

definition forced_ram where "forced_ram = fst (ram_set sample_env sample_look ''a'' 7 (Some forced_meta) 0 empty_ram)"
definition forced_after where "forced_after = fst (snd (ram_set sample_env sample_look ''a'' 7 (Some forced_meta) 0 empty_ram))"

lemma forced_ram_set: "ram_tier_set sample_tier_call ''a'' 7 forced_meta 0 empty_ram = (forced_ram, forced_after, Inr True)"
  by (simp add: ram_tier_set_def sample_tier_call_def sample_call_def forced_ram_def forced_after_def ram_outcome_of_def)
    (simp add: forced_meta_def sample_ram_simps)

lemma forced_after_fields: "forced_after = forced_meta\<lparr>m_key := Some ''a'', m_created_at := Some 5, m_last_access := Some 5, m_access_count := Some 0, m_size := Some 600, m_storage := Some [RAM_LABEL]\<rparr>"
  by (simp add: forced_after_def forced_meta_def sample_ram_simps RAM_LABEL_def)

lemma forced_ram_fields: "ram_store forced_ram = [(''a'', \<lparr>re_meta = forced_after, re_form = Copied (7::nat), re_dict = 0\<rparr>)]" "ram_current forced_ram = 600" "ram_handoff forced_ram = None"
  by (simp_all add: forced_ram_def forced_after_fields forced_meta_def sample_ram_simps RAM_LABEL_def)

lemma new_sqlite_set: "sql_tier_set sample_tier_call ''a'' (7::nat) m (sql_init None None []) =
   (fst (sql_tier_set sample_tier_call ''a'' 7 m (sql_init None None [])), stamped sample_sql_env ''a'' 4 (Some m) (sql_init None None []), Inr True)"
proof -
  have "snd (sql_set sample_sql_env ''a'' (7::nat) (Some m) (sql_init None None [])) = None" by (simp add: sql_run_simps)
  moreover have "sql_metadata_after sample_sql_env ''a'' m (sql_init None None []) = stamped sample_sql_env ''a'' 4 (Some m) (sql_init None None [])"
    by (simp add: sql_metadata_after_def sql_open_def sql_init_def sample_sql_env_def stamped_def Let_def)
  moreover have "meanwhile sample_sql_env s = s" for s :: "nat sqlite" by (simp add: meanwhile_def sample_sql_env_def)
  ultimately show ?thesis by (auto simp: sql_tier_set_def sample_tier_call_def Let_def split: prod.splits option.splits)
qed

lemma forced_decided: "d_persist (decide default_policy (forced_after\<lparr>m_defer_persist := False\<rparr>) ''disk'' df None None)" "d_skipped (decide default_policy (forced_after\<lparr>m_defer_persist := False\<rparr>) ''disk'' df None None) = None"
  by (simp_all add: decide_def forced_after_fields forced_meta_def sample_meta_def no_metadata_def keep_def Let_def)


lemma tier_methods:
  "b_set tiers_of_cash i how key v m d (RamTier r) = on_ram (ram_tier_set i key v m d) r"
  "b_set tiers_of_cash i how key v m d (SqlTier s) = on_sql (sql_tier_set i key v m) s"
  "b_write_back tiers_of_cash d m (RamTier r) = RamTier (ram_write_back d m r)" "b_write_back tiers_of_cash d m (SqlTier s) = SqlTier s"
  "b_release_handoff tiers_of_cash (RamTier r) = RamTier (release_handoff r)"
  "b_label tiers_of_cash (RamTier r) = RAM_LABEL" "b_label tiers_of_cash (SqlTier s) = SQLITE_LABEL"
  "b_cost_kind tiers_of_cash (RamTier r) = ''ram''" "b_cost_kind tiers_of_cash (SqlTier s) = ''disk''"
  "b_default_ttl tiers_of_cash (RamTier r) = None" "b_default_ttl tiers_of_cash (SqlTier s) = sq_default_ttl s"
  "b_size_cap tiers_of_cash i (SqlTier s) = Some (sql_promotion_size_cap s)" "b_takes_private tiers_of_cash t = False"
  "b_get tiers_of_cash i key (RamTier r) = on_ram (ram_tier_get i key) r" "b_local_dir tiers_of_cash t = None"
  "b_stored_payload tiers_of_cash i key d (RamTier r) = map_option (\<lambda>v. (v, tc_payload i)) (stored_payload key (Some d) r)"
  by (simp_all add: tiers_of_cash_def)

lemma sample_env_fields: "tn_in sample_tiered_env st k i = sample_tier_call" "tn_value sample_tiered_env k = sample_facts"
  by (simp_all add: sample_tiered_env_def)

definition new_sqlite :: "nat sqlite" where "new_sqlite = sql_init None None []"
definition forced_storing :: "nat tier storing" where
 "forced_storing = \<lparr>st_td = (tiered_init [RamTier forced_ram, SqlTier new_sqlite] default_policy None)\<lparr>td_next_dict := Suc 0\<rparr>, st_metadata = forced_after, st_stored = [RAM_LABEL], st_errors = [], st_writes_a_file = False\<rparr>"

lemma forced_fields: "m_ttl forced_meta = VNone" "m_defer_persist forced_after = False" "m_call_refs forced_after = []" "m_size forced_after = Some 600"
   "forced_meta\<lparr>m_ttl := VNone\<rparr> = forced_meta" "m_force_persist forced_after" "forced_after\<lparr>m_defer_persist := False\<rparr> = forced_after"
  by (simp_all add: forced_after_fields forced_meta_def sample_meta_def no_metadata_def)

lemma forced_first_write: "write_first_tier tiers_of_cash sample_tiered_env ''a'' 7 0
   \<lparr>st_td = ram_and_sqlite\<lparr>td_next_dict := Suc 0\<rparr>, st_metadata = forced_meta, st_stored = [], st_errors = [], st_writes_a_file = False\<rparr> = forced_storing"
  by (simp add: write_first_tier_def sample_env_fields ram_and_sqlite_def tiered_init_def tier_methods on_ram_def forced_ram_set put_tier_def forced_storing_def new_sqlite_def)

lemma forced_decision: "decide_store tiers_of_cash sample_tiered_env ''a'' forced_storing = (forced_after, decide default_policy forced_after ''disk'' False None None)"
  by (simp add: decide_store_def sample_env_fields sample_facts_def forced_storing_def tiered_init_def note_serialized_size_def forced_fields
       promotion_backend_kind_def tier_methods chosen_by_caller_def Let_def)

lemma forced_no_payload: "stored_payload ''a'' (Some 0) (ram_write_back 0 forced_after forced_ram) = None"
  by (simp add: stored_payload_def entry_or_handoff_def ram_write_back_def forced_ram_fields with_dict_def)


definition forced_sqlite where "forced_sqlite = fst (sql_tier_set sample_tier_call ''a'' (7::nat) forced_after new_sqlite)"
definition forced_stamped where "forced_stamped = stamped sample_sql_env ''a'' 4 (Some forced_after) new_sqlite"
lemma forced_sqlite_set: "sql_tier_set sample_tier_call ''a'' 7 forced_after new_sqlite = (forced_sqlite, forced_stamped, Inr True)"
  unfolding forced_sqlite_def forced_stamped_def new_sqlite_def by (rule new_sqlite_set)
lemma new_sqlite_cap: "sql_promotion_size_cap new_sqlite = 104857600" by (simp add: new_sqlite_def sql_init_def sql_promotion_size_cap_def SQLITE_HINT_def)
lemma forced_stamped_fields: "m_size forced_stamped = Some 4" "m_ttl forced_stamped = VNone"
  by (simp_all add: forced_stamped_def stamped_def Let_def forced_after_fields forced_meta_def sample_meta_def no_metadata_def init_metadata_def new_sqlite_def sql_init_def)

lemma forced_second_write: "write_past_first tiers_of_cash sample_tiered_env ''a'' 7 0 600 (forced_storing\<lparr>st_td := write_back tiers_of_cash 0 forced_after (st_td forced_storing)\<rparr>) =
   (forced_storing\<lparr>st_td := (tiered_init [RamTier (ram_write_back 0 forced_after forced_ram), SqlTier forced_sqlite] default_policy None)\<lparr>td_next_dict := Suc 0\<rparr>, st_metadata := forced_stamped\<rparr>,
    (no_writes 600)\<lparr>tw_stored := [SQLITE_LABEL]\<rparr>)"
  apply (simp add: write_past_first_def own_copy_def any_takes_private_def tier_methods copy_to_write_def forced_storing_def tiered_init_def write_back_def sample_env_fields forced_no_payload
     write_persistent_tiers_def upt_rec Let_def)
  apply (simp add: tier_methods sample_env_fields new_sqlite_cap on_sql_def forced_sqlite_set put_tier_def no_writes_def)
  done

lemma forced_set_tiers: "\<exists>m. m_size m = Some 4 \<and> m_ttl m = VNone \<and> td_tiers (fst (tiered_set tiers_of_cash sample_tiered_env ''a'' 7 (Some forced_meta) ram_and_sqlite)) =
   [RamTier (ram_write_back 0 m (release_handoff (ram_write_back 0 forced_after forced_ram))), SqlTier forced_sqlite]"
proof -
  have alone: "goes_to_disk_alone sample_tiered_env ''a'' = False" by (simp add: goes_to_disk_alone_def sample_env_fields sample_facts_def)
  have ttl: "tiered_default_ttl tiers_of_cash ram_and_sqlite = None"
    by (simp add: tiered_default_ttl_def ram_and_sqlite_def tiered_init_def tier_methods sql_init_def)
  let ?x2 = "forced_storing\<lparr>st_td := (tiered_init [RamTier (ram_write_back 0 forced_after forced_ram), SqlTier forced_sqlite] default_policy None)\<lparr>td_next_dict := Suc 0\<rparr>, st_metadata := forced_stamped\<rparr>"
  have by_dec: "write_by_decision tiers_of_cash sample_tiered_env ''a'' 7 0 (decide default_policy forced_after ''disk'' False None None) False
     (forced_storing\<lparr>st_metadata := forced_after, st_td := write_back tiers_of_cash 0 forced_after (st_td forced_storing)\<rparr>) = (?x2, (no_writes 600)\<lparr>tw_stored := [SQLITE_LABEL]\<rparr>)"
  proof -
    have "forced_storing\<lparr>st_metadata := forced_after, st_td := write_back tiers_of_cash 0 forced_after (st_td forced_storing)\<rparr> = forced_storing\<lparr>st_td := write_back tiers_of_cash 0 forced_after (st_td forced_storing)\<rparr>"
      by (simp add: forced_storing_def)
    then show ?thesis using forced_second_write forced_decided(1) [of False, unfolded forced_fields]
      by (simp add: write_by_decision_def cap_size_of_def or_zero_def forced_storing_def forced_fields Let_def)
  qed
  let ?dec = "decide default_policy forced_after ''disk'' False None None"
  have settle: "settle_call_refs tiers_of_cash sample_tiered_env ''a'' forced_after ?dec td = td" for td :: "nat tier tiered"
    using forced_decided(2) [of False, unfolded forced_fields] by (simp add: settle_call_refs_def persist_call_refs_def forced_fields)
  have sp: "store_past_first tiers_of_cash sample_tiered_env ''a'' 7 0 False forced_storing =
     (?x2\<lparr>st_td := release_first tiers_of_cash (st_td ?x2), st_stored := [RAM_LABEL, SQLITE_LABEL]\<rparr>, ?dec, False)"
    unfolding store_past_first_def forced_decision prod.case Let_def settle by_dec by (simp add: note_too_big_def no_writes_def forced_storing_def)
  have fields: "td_tiers ram_and_sqlite = [RamTier empty_ram, SqlTier new_sqlite]" "td_next_dict ram_and_sqlite = 0"
    by (simp_all add: ram_and_sqlite_def tiered_init_def new_sqlite_def)
  have no_file: "st_writes_a_file forced_storing = False" by (simp add: forced_storing_def)
  have "fst (tiered_set tiers_of_cash sample_tiered_env ''a'' 7 (Some forced_meta) ram_and_sqlite) =
      write_back tiers_of_cash 0 (forced_stamped\<lparr>m_storage := Some [RAM_LABEL, SQLITE_LABEL]\<rparr>) (release_first tiers_of_cash (st_td ?x2))"
    by (simp add: tiered_set_def fields alone ttl forced_fields forced_first_write no_file sp)
  then show ?thesis
    using forced_stamped_fields by (intro exI [of _ "forced_stamped\<lparr>m_storage := Some [RAM_LABEL, SQLITE_LABEL]\<rparr>"])
      (simp add: write_back_def release_first_def put_tier_def tiered_init_def tier_methods)
qed

text \<open>The entry is then served from RAM.\<close>

lemma forced_read:
  "\<exists>v. snd (tiered_read_op tiers_of_cash (sample_tiered_env, None) ''a''
    (fst (tiered_store_op tiers_of_cash (sample_tiered_env, Some forced_meta) ''a'' 7 ram_and_sqlite))) = Some v"
proof -
  obtain m where m: "m_size m = Some 4" "m_ttl m = VNone" "td_tiers (fst (tiered_set tiers_of_cash sample_tiered_env ''a'' 7 (Some forced_meta) ram_and_sqlite)) =
   [RamTier (ram_write_back 0 m (release_handoff (ram_write_back 0 forced_after forced_ram))), SqlTier forced_sqlite]" using forced_set_tiers by blast
  let ?r = "ram_write_back 0 m (release_handoff (ram_write_back 0 forced_after forced_ram))"
  let ?td = "fst (tiered_set tiers_of_cash sample_tiered_env ''a'' 7 (Some forced_meta) ram_and_sqlite)"
  have "ram_store ?r = [(''a'', \<lparr>re_meta = m, re_form = Copied 7, re_dict = 0\<rparr>)]"
    by (simp add: ram_write_back_def release_handoff_def forced_ram_fields with_dict_def)
  then obtain r' m' where get: "ram_tier_get sample_tier_call ''a'' ?r = (r', Inr (Some (m', 7)))" and "m_ttl m' = VNone"
    using m(2) by (auto simp: ram_tier_get_def ram_get_def get_copy_def sample_tier_call_def sample_call_def Let_def count_access_def)
  moreover have "drop_ram_if_cleared tiers_of_cash sample_tiered_env ?td = ?td"
    by (simp add: drop_ram_if_cleared_def disk_tier_def m(3) tier_methods)
  moreover have "\<not> entry_expired m' None t VNone" for t
    using \<open>m_ttl m' = VNone\<close> by (simp add: entry_expired_def meta_defs)
  moreover have "sq_default_ttl forced_sqlite = None"
    by (simp add: forced_sqlite_def sql_tier_set_def sample_tier_call_def meanwhile_def new_sqlite_def sql_run_simps split: prod.splits option.splits)
  ultimately show ?thesis
    by (simp add: tiered_read_op_def tiered_store_op_def tiered_get_def m(3) upt_rec tier_methods on_ram_def sample_env_fields put_tier_def
        tiered_default_ttl_def Let_def split: prod.splits)
qed

theorem tiered_serves_stored_witness:
  "snd (tiered_read_op tiers_of_cash (sample_tiered_env, None) ''a''
    (fst (tiered_store_op tiers_of_cash (sample_tiered_env, Some forced_meta) ''a'' 7 ram_and_sqlite))) = Some (7 :: nat)"
proof -
  let ?td = "fst (tiered_store_op tiers_of_cash (sample_tiered_env, Some forced_meta) ''a'' (7 :: nat) ram_and_sqlite)"
  have new: "\<forall>t \<in> set [RamTier empty_ram, SqlTier (sql_init None None [])]. new_tier t"
    by (simp add: new_tier_def empty_ram_def ram_init_def sql_init_def)
  have none: "tier_held t k = {}" if "t \<in> {RamTier empty_ram, SqlTier (sql_init None None [])}" for t k
    using that by (auto simp: tier_held_def ram_held_def ram_value_def empty_ram_def ram_init_def sql_held_def row_values_def queued_values_def  sql_init_def pw_init_def)
  let ?vals = "\<lambda>k. \<Union>t \<in> set [RamTier empty_ram, SqlTier (sql_init None None [])]. tier_held t k"
  obtain v where v: "snd (tiered_read_op tiers_of_cash (sample_tiered_env, None) ''a'' ?td) = Some v" using forced_read by blast
  have "v \<in> (?vals(''a'' := insert 7 (?vals ''a''))) ''a''"
    by (rule tiered_serves_stored [OF new _ v, where ps = "[StoreOp (sample_tiered_env, Some forced_meta) ''a'' 7]"
          and vals = "?vals(''a'' := insert 7 (?vals ''a''))" and policy = default_policy and override = None])
       (simp add: ram_and_sqlite_def)
  then show ?thesis using v by (simp add: none)
qed


end
