(* ===== verification/Entry_Write.thy ===== *)
theory Entry_Write
  imports Cache_Dir
begin

text \<open>
  How an entry file comes into being (\<open>_write_entry\<close>, \<open>_write_new_in_place\<close> and \<open>_atomic_write\<close> of
  \<open>src/cash/backends/file_backend.py\<close>), one system call at a time: several writers, in one process or
  many, work on the same folder, each may fail or be killed between any two calls, and files may be
  removed under them.

  A folder maps names to inodes, and a descriptor stays with its inode when the name goes. A write takes
  any part of what is left to write. A reader looks at a file between two calls.
\<close>

subsection \<open>The folder and the writers\<close>

record job =
  jb_path :: string
  jb_entry :: packed_entry

abbreviation job_head :: "job \<Rightarrow> byte list" where
  "job_head j \<equiv> pe_head (jb_entry j)"

abbreviation job_payload :: "job \<Rightarrow> byte list" where
  "job_payload j \<equiv> concat (pe_chunks (jb_entry j))"

text \<open>Where a writer is: it writes the payload of a new file, then its head; or it goes the safe way,
  writes a temporary file and renames it. The numbers are the inode and the bytes written so far.\<close>

datatype phase =
    Idle
  | Payload job nat nat
  | Head job nat nat
  | Replacing job
  | Temp job string nat nat

record world =
  wd_names :: "string \<rightharpoonup> nat"
  wd_data :: "nat \<Rightarrow> byte list"
  wd_next :: nat
  wd_writers :: "nat \<Rightarrow> phase"
  wd_begun :: "job list"  \<comment> \<open>every write begun so far\<close>

definition whole :: "job \<Rightarrow> byte list" where
  "whole j = job_head j @ job_payload j"

text \<open>\<open>os.lseek\<close> and writes at a position: what is skipped reads as zeros.\<close>

definition write_at :: "nat \<Rightarrow> byte list \<Rightarrow> byte list \<Rightarrow> byte list" where
  "write_at pos bs fdata = (if bs = [] then fdata
     else take pos fdata @ zeros (pos - length fdata) @ bs @ drop (pos + length bs) fdata)"

definition in_phase :: "nat \<Rightarrow> phase \<Rightarrow> world \<Rightarrow> world" where
  "in_phase i ph w = w\<lparr>wd_writers := (wd_writers w)(i := ph)\<rparr>"

definition put_data :: "nat \<Rightarrow> byte list \<Rightarrow> world \<Rightarrow> world" where
  "put_data ino d w = w\<lparr>wd_data := (wd_data w)(ino := d)\<rparr>"

definition unlink :: "string \<Rightarrow> world \<Rightarrow> world" where
  "unlink p w = w\<lparr>wd_names := (wd_names w)(p := None)\<rparr>"

definition new_file :: "string \<Rightarrow> world \<Rightarrow> world" where
  "new_file p w = w\<lparr>wd_names := (wd_names w)(p \<mapsto> wd_next w), wd_data := (wd_data w)(wd_next w := []), wd_next := wd_next w + 1\<rparr>"

text \<open>\<open>os.open\<close> with \<open>O_CREAT | O_EXCL\<close>: a file that is there, or any other \<open>OSError\<close> (\<open>opens\<close> is false), sends the
  writer the safe way.\<close>

definition open_new :: "bool \<Rightarrow> nat \<Rightarrow> job \<Rightarrow> world \<Rightarrow> world" where
  "open_new opens i j w = (let w = w\<lparr>wd_begun := wd_begun w @ [j]\<rparr> in
     if wd_names w (jb_path j) \<noteq> None \<or> \<not> opens then in_phase i (Replacing j) w
     else in_phase i (Payload j (wd_next w) 0) (new_file (jb_path j) w))"

text \<open>One \<open>os.write\<close> of \<open>k\<close> bytes of the payload, from the end of the head on; one of the head, from the start.\<close>

definition write_payload :: "nat \<Rightarrow> nat \<Rightarrow> world \<Rightarrow> world" where
  "write_payload i k w = (case wd_writers w i of
       Payload j ino n \<Rightarrow> in_phase i (Payload j ino (n + length (take k (drop n (job_payload j)))))
         (put_data ino (write_at (length (job_head j) + n) (take k (drop n (job_payload j))) (wd_data w ino)) w)
     | _ \<Rightarrow> w)"

definition seek_start :: "nat \<Rightarrow> world \<Rightarrow> world" where
  "seek_start i w = (case wd_writers w i of
       Payload j ino n \<Rightarrow> if n = length (job_payload j) then in_phase i (Head j ino 0) w else w
     | _ \<Rightarrow> w)"

definition write_head :: "nat \<Rightarrow> nat \<Rightarrow> world \<Rightarrow> world" where
  "write_head i k w = (case wd_writers w i of
       Head j ino n \<Rightarrow> in_phase i (Head j ino (n + length (take k (drop n (job_head j)))))
         (put_data ino (write_at n (take k (drop n (job_head j))) (wd_data w ino)) w)
     | _ \<Rightarrow> w)"

definition close_new :: "nat \<Rightarrow> world \<Rightarrow> world" where
  "close_new i w = (case wd_writers w i of
       Head j ino n \<Rightarrow> if n = length (job_head j) then in_phase i Idle w else w
     | _ \<Rightarrow> w)"

text \<open>The \<open>except\<close> of \<open>_write_new_in_place\<close>: the partial file is removed, by its name.\<close>

definition fail_new :: "bool \<Rightarrow> nat \<Rightarrow> world \<Rightarrow> world" where
  "fail_new removes i w = (case wd_writers w i of
       Payload j ino n \<Rightarrow> in_phase i Idle (if removes then unlink (jb_path j) w else w)
     | Head j ino n \<Rightarrow> in_phase i Idle (if removes then unlink (jb_path j) w else w)
     | _ \<Rightarrow> w)"

text \<open>\<open>_atomic_write\<close>: a temporary file of a name no other writer has, written from its start, renamed.\<close>

definition temp_of :: "phase \<Rightarrow> string option" where
  "temp_of ph = (case ph of Temp j t ino n \<Rightarrow> Some t | _ \<Rightarrow> None)"

definition create_temp :: "string \<Rightarrow> nat \<Rightarrow> world \<Rightarrow> world" where
  "create_temp t i w = (case wd_writers w i of
       Replacing j \<Rightarrow> if wd_names w t = None then in_phase i (Temp j t (wd_next w) 0) (new_file t w) else w
     | _ \<Rightarrow> w)"

definition write_temp :: "nat \<Rightarrow> nat \<Rightarrow> world \<Rightarrow> world" where
  "write_temp i k w = (case wd_writers w i of
       Temp j t ino n \<Rightarrow> in_phase i (Temp j t ino (n + length (take k (drop n (whole j)))))
         (put_data ino (write_at n (take k (drop n (whole j))) (wd_data w ino)) w)
     | _ \<Rightarrow> w)"

text \<open>\<open>os.replace\<close>; a temporary file that was removed under the writer is an error.\<close>

definition rename_temp :: "nat \<Rightarrow> world \<Rightarrow> world" where
  "rename_temp i w = (case wd_writers w i of
       Temp j t ino n \<Rightarrow> if n \<noteq> length (whole j) then w
         else in_phase i Idle (case wd_names w t of
             None \<Rightarrow> w
           | Some x \<Rightarrow> w\<lparr>wd_names := (wd_names w)(t := None, jb_path j \<mapsto> x)\<rparr>)
     | _ \<Rightarrow> w)"

definition fail_temp :: "bool \<Rightarrow> nat \<Rightarrow> world \<Rightarrow> world" where
  "fail_temp removes i w = (case wd_writers w i of
       Temp j t ino n \<Rightarrow> in_phase i Idle (if removes then unlink t w else w)
     | Replacing j \<Rightarrow> in_phase i Idle w
     | _ \<Rightarrow> w)"

text \<open>The steps. A killed writer stops where it is and cleans nothing up; evictions, clears and other
  processes remove any file.\<close>

inductive write_step :: "(stored_meta \<Rightarrow> byte list) \<Rightarrow> world \<Rightarrow> world \<Rightarrow> bool" for dumps where
  opened: "wd_writers w i = Idle \<Longrightarrow> \<not> is_part (jb_path j) \<Longrightarrow> pack_entry_parts dumps m chunks split None = Some (jb_entry j)
     \<Longrightarrow> write_step dumps w (open_new opens i j w)"
| payload: "write_step dumps w (write_payload i k w)"
| seek: "write_step dumps w (seek_start i w)"
| head: "write_step dumps w (write_head i k w)"
| closed: "write_step dumps w (close_new i w)"
| failed_new: "write_step dumps w (fail_new removes i w)"
| temp_created: "is_part t \<Longrightarrow> \<forall>l. temp_of (wd_writers w l) \<noteq> Some t \<Longrightarrow> write_step dumps w (create_temp t i w)"
| temp_written: "write_step dumps w (write_temp i k w)"
| renamed: "write_step dumps w (rename_temp i w)"
| failed_temp: "write_step dumps w (fail_temp removes i w)"
| killed: "write_step dumps w (in_phase i Idle w)"
| removed: "write_step dumps w (unlink p w)"

subsection \<open>What a file can hold\<close>

text \<open>A file written in place, before its head: nothing, or zeros and the start of the payload. From then
  on: the start of the head over what was there.\<close>

definition headless :: "job \<Rightarrow> nat \<Rightarrow> byte list" where
  "headless j n = (if n = 0 then [] else zeros (length (job_head j)) @ take n (job_payload j))"

definition heading :: "job \<Rightarrow> nat \<Rightarrow> byte list" where
  "heading j n = take n (job_head j) @ drop n (headless j (length (job_payload j)))"

definition in_place :: "job \<Rightarrow> byte list \<Rightarrow> bool" where
  "in_place j d = ((\<exists>n. d = headless j n) \<or> (\<exists>n \<le> length (job_head j). d = heading j n))"

lemma heading_whole: "heading j (length (job_head j)) = whole j"
  by (simp add: heading_def headless_def whole_def)

lemma in_place_whole: "in_place j (whole j)"
  unfolding in_place_def heading_whole [symmetric] by blast

lemma write_payload_data:
  assumes "n \<le> length (job_payload j)" and "bs = take k (drop n (job_payload j))"
  shows "write_at (length (job_head j) + n) bs (headless j n) = headless j (n + length bs)"
proof (cases "bs = []")
  case False
  have "take (n + length bs) (job_payload j) = take n (job_payload j) @ bs"
    using assms by (metis append_eq_conv_conj append_take_drop_id length_take min.absorb2 take_add take_take)
  then show ?thesis using False assms(1) by (auto simp: write_at_def headless_def zeros_def)
qed (simp add: write_at_def)

lemma write_head_data:
  assumes "n \<le> length (job_head j)" and "bs = take k (drop n (job_head j))"
  shows "write_at n bs (heading j n) = heading j (n + length bs)"
proof (cases "bs = []")
  case False
  have "take (n + length bs) (job_head j) = take n (job_head j) @ bs"
    using assms by (metis append_eq_conv_conj append_take_drop_id length_take min.absorb2 take_add take_take)
  then show ?thesis using False assms(1) by (simp add: write_at_def heading_def add.commute zeros_def)
qed (simp add: write_at_def)

lemma write_temp_data:
  assumes "n \<le> length (whole j)" and "bs = take k (drop n (whole j))"
  shows "write_at n bs (take n (whole j)) = take (n + length bs) (whole j)"
proof (cases "bs = []")
  case False
  have "take (n + length bs) (whole j) = take n (whole j) @ bs"
    using assms by (metis append_eq_conv_conj append_take_drop_id length_take min.absorb2 take_add take_take)
  then show ?thesis using False assms(1) by (simp add: write_at_def zeros_def)
qed (simp add: write_at_def)

subsection \<open>The invariant\<close>

text \<open>The folder as the first writer finds it, one name for each file.\<close>

definition start_of :: "(string \<rightharpoonup> nat) \<Rightarrow> (nat \<Rightarrow> byte list) \<Rightarrow> nat \<Rightarrow> world" where
  "start_of names fdata next = \<lparr>wd_names = names, wd_data = fdata, wd_next = next, wd_writers = \<lambda>_. Idle, wd_begun = []\<rparr>"

definition folder_ok :: "(string \<rightharpoonup> nat) \<Rightarrow> nat \<Rightarrow> bool" where
  "folder_ok names next = ((\<forall>p x. names p = Some x \<longrightarrow> x < next) \<and> (\<forall>p q x. names p = Some x \<and> names q = Some x \<longrightarrow> p = q))"

definition packed_job :: "(stored_meta \<Rightarrow> byte list) \<Rightarrow> job \<Rightarrow> bool" where
  "packed_job dumps j = (\<exists>m chunks split. pack_entry_parts dumps m chunks split None = Some (jb_entry j))"

text \<open>The inode a writer holds open.\<close>

fun open_file :: "phase \<Rightarrow> nat option" where
  "open_file (Payload j x n) = Some x"
| "open_file (Head j x n) = Some x"
| "open_file (Temp j t x n) = Some x"
| "open_file _ = None"

text \<open>A writer at its place: what its file holds, and the only name it can have.\<close>

fun phase_ok :: "world \<Rightarrow> phase \<Rightarrow> bool" where
  "phase_ok w (Payload j x n) = (j \<in> set (wd_begun w) \<and> n \<le> length (job_payload j) \<and> wd_data w x = headless j n \<and>
     (\<forall>p. wd_names w p = Some x \<longrightarrow> p = jb_path j))"
| "phase_ok w (Head j x n) = (j \<in> set (wd_begun w) \<and> n \<le> length (job_head j) \<and> wd_data w x = heading j n \<and>
     (\<forall>p. wd_names w p = Some x \<longrightarrow> p = jb_path j))"
| "phase_ok w (Replacing j) = (j \<in> set (wd_begun w))"
| "phase_ok w (Temp j t x n) = (j \<in> set (wd_begun w) \<and> is_part t \<and> n \<le> length (whole j) \<and> wd_data w x = take n (whole j) \<and>
     (\<forall>p. wd_names w p = Some x \<longleftrightarrow> p = t \<and> wd_names w t \<noteq> None))"
| "phase_ok w Idle = True"

definition from_writer :: "world \<Rightarrow> string \<Rightarrow> byte list \<Rightarrow> bool" where
  "from_writer w p d = (\<exists>j \<in> set (wd_begun w). jb_path j = p \<and> in_place j d)"

definition world_ok :: "(stored_meta \<Rightarrow> byte list) \<Rightarrow> world \<Rightarrow> world \<Rightarrow> bool" where
  "world_ok dumps w0 w = (folder_ok (wd_names w) (wd_next w) \<and> wd_next w0 \<le> wd_next w \<and>
     (\<forall>x < wd_next w0. wd_data w x = wd_data w0 x) \<and>
     (\<forall>j \<in> set (wd_begun w). packed_job dumps j \<and> \<not> is_part (jb_path j)) \<and>
     (\<forall>i. phase_ok w (wd_writers w i)) \<and>
     (\<forall>i x. open_file (wd_writers w i) = Some x \<longrightarrow> wd_next w0 \<le> x \<and> x < wd_next w) \<and>
     (\<forall>i l x. open_file (wd_writers w i) = Some x \<and> open_file (wd_writers w l) = Some x \<longrightarrow> i = l) \<and>
     (\<forall>i l t. temp_of (wd_writers w i) = Some t \<and> temp_of (wd_writers w l) = Some t \<longrightarrow> i = l) \<and>
     (\<forall>p x. \<not> is_part p \<and> wd_names w p = Some x \<longrightarrow>
        (if x < wd_next w0 then wd_names w0 p = Some x else from_writer w p (wd_data w x))))"

lemmas world_defs = world_ok_def folder_ok_def from_writer_def in_phase_def put_data_def unlink_def

lemma world_ok_start: "folder_ok names next \<Longrightarrow> world_ok dumps (start_of names fdata next) (start_of names fdata next)"
  by (auto simp: world_defs start_of_def temp_of_def)

lemma phase_ok_same:
  assumes "phase_ok w ph" and "set (wd_begun w) \<subseteq> set (wd_begun w')" and "\<And>x. open_file ph = Some x \<Longrightarrow> wd_data w' x = wd_data w x"
    and "\<And>p x. open_file ph = Some x \<Longrightarrow> wd_names w' p = Some x \<Longrightarrow> wd_names w p = Some x"
    and "\<And>t. temp_of ph = Some t \<Longrightarrow> wd_names w' t = None \<or> wd_names w' t = wd_names w t"
  shows "phase_ok w' ph"
proof (cases ph)
  case (Temp j t x n)
  have t: "wd_names w' t = None \<or> wd_names w' t = wd_names w t" by (rule assms(5)) (simp add: Temp temp_of_def)
  have old: "wd_names w p = Some x \<longleftrightarrow> p = t \<and> wd_names w t \<noteq> None" for p using assms(1) Temp by simp
  have "wd_names w' p = Some x \<longleftrightarrow> p = t \<and> wd_names w' t \<noteq> None" for p
    using assms(4) [of x p] t old [of p] old [of t] Temp by auto
  then show ?thesis using assms(1,2) assms(3) [of x] Temp by auto
qed (use assms in auto)

lemma phase_from_writer:
  assumes "phase_ok w ph" and "open_file ph = Some x" and "\<not> is_part p" and "wd_names w p = Some x"
  shows "from_writer w p (wd_data w x)"
  using assms by (cases ph) (auto simp: from_writer_def in_place_def)

lemma world_okD:
  assumes "world_ok dumps w0 w"
  shows "folder_ok (wd_names w) (wd_next w)" "wd_next w0 \<le> wd_next w" "x < wd_next w0 \<Longrightarrow> wd_data w x = wd_data w0 x"
    "j \<in> set (wd_begun w) \<Longrightarrow> packed_job dumps j" "j \<in> set (wd_begun w) \<Longrightarrow> \<not> is_part (jb_path j)" "phase_ok w (wd_writers w i)"
    "open_file (wd_writers w i) = Some x \<Longrightarrow> wd_next w0 \<le> x \<and> x < wd_next w"
    "open_file (wd_writers w i) = Some x \<Longrightarrow> open_file (wd_writers w l) = Some x \<Longrightarrow> i = l"
    "temp_of (wd_writers w i) = Some t \<Longrightarrow> temp_of (wd_writers w l) = Some t \<Longrightarrow> i = l"
    "\<not> is_part p \<Longrightarrow> wd_names w p = Some x \<Longrightarrow> (if x < wd_next w0 then wd_names w0 p = Some x else from_writer w p (wd_data w x))"
  using assms by (simp_all add: world_ok_def)

lemma folder_okD:
  assumes "folder_ok names next"
  shows "names p = Some x \<Longrightarrow> x < next" "names p = Some x \<Longrightarrow> names q = Some x \<Longrightarrow> p = q"
  using assms by (auto simp: folder_ok_def)

lemma world_okI:
  assumes "folder_ok (wd_names w) (wd_next w)" "wd_next w0 \<le> wd_next w" "\<And>x. x < wd_next w0 \<Longrightarrow> wd_data w x = wd_data w0 x"
    "\<And>j. j \<in> set (wd_begun w) \<Longrightarrow> packed_job dumps j \<and> \<not> is_part (jb_path j)" "\<And>i. phase_ok w (wd_writers w i)"
    "\<And>i x. open_file (wd_writers w i) = Some x \<Longrightarrow> wd_next w0 \<le> x \<and> x < wd_next w"
    "\<And>i l x. open_file (wd_writers w i) = Some x \<Longrightarrow> open_file (wd_writers w l) = Some x \<Longrightarrow> i = l"
    "\<And>i l t. temp_of (wd_writers w i) = Some t \<Longrightarrow> temp_of (wd_writers w l) = Some t \<Longrightarrow> i = l"
    "\<And>p x. \<not> is_part p \<Longrightarrow> wd_names w p = Some x \<Longrightarrow> (if x < wd_next w0 then wd_names w0 p = Some x else from_writer w p (wd_data w x))"
  shows "world_ok dumps w0 w"
  unfolding world_ok_def using assms by (intro conjI allI impI ballI) (erule conjE | blast)+

text \<open>What a writer does to its own file.\<close>

lemma world_ok_writes:
  assumes ok: "world_ok dumps w0 w" and mine: "open_file (wd_writers w i) = Some x" "open_file ph = Some x" "temp_of ph = temp_of (wd_writers w i)"
    and ph: "phase_ok (put_data x d w) ph"
  shows "world_ok dumps w0 (in_phase i ph (put_data x d w))"
proof -
  let ?w = "in_phase i ph (put_data x d w)"
  note D = world_okD [OF ok]
  have fields: "wd_names ?w = wd_names w" "wd_next ?w = wd_next w" "wd_begun ?w = wd_begun w" "wd_data ?w = (wd_data w)(x := d)"
    "wd_writers ?w = (wd_writers w)(i := ph)" by (simp_all add: in_phase_def put_data_def)
  have new: "wd_next w0 \<le> x" "x < wd_next w" using D(7) [OF mine(1)] by auto
  have fw: "from_writer ?w = from_writer w" by (simp add: from_writer_def fields fun_eq_iff)
  have phases: "phase_ok ?w (wd_writers ?w l)" for l
  proof (cases "l = i")
    case True
    then show ?thesis using phase_ok_same [OF ph, of ?w] by (simp add: in_phase_def put_data_def)
  next
    case False
    then have "open_file (wd_writers w l) \<noteq> Some x" using D(8) [OF mine(1), of l] by blast
    then have "phase_ok ?w (wd_writers w l)" by (intro phase_ok_same [OF D(6) [of l]]) (auto simp: fields)
    then show ?thesis using False by (simp add: fields)
  qed
  have named: "if y < wd_next w0 then wd_names w0 p = Some y else from_writer ?w p (wd_data ?w y)"
    if "\<not> is_part p" "wd_names ?w p = Some y" for p y
  proof (cases "y = x")
    case True
    have "from_writer (put_data x d w) p (wd_data (put_data x d w) x)"
      by (rule phase_from_writer [OF ph mine(2) that(1)]) (use that True in \<open>simp add: in_phase_def put_data_def\<close>)
    then show ?thesis using True new by (simp add: from_writer_def in_phase_def put_data_def)
  next
    case False
    then show ?thesis using D(10) [of p y] that by (simp add: fw fields)
  qed
  have opens: "open_file (wd_writers ?w l) = open_file (wd_writers w l)" "temp_of (wd_writers ?w l) = temp_of (wd_writers w l)" for l
    using mine by (simp_all add: fields)
  show ?thesis
    by (rule world_okI [OF _ _ _ _ phases _ _ _ named], unfold opens fields(1-3))
       (use D(1-5) D(7-9) new in \<open>auto simp: fields\<close>)
qed

text \<open>A writer that stops, or only takes another phase without a file of its own.\<close>

lemma world_ok_phase:
  assumes ok: "world_ok dumps w0 w" and ph: "phase_ok w ph" "open_file ph = None \<or> open_file ph = open_file (wd_writers w i)"
    "temp_of ph = None \<or> temp_of ph = temp_of (wd_writers w i)"
  shows "world_ok dumps w0 (in_phase i ph w)"
proof -
  let ?w = "in_phase i ph w"
  note D = world_okD [OF ok]
  have fields: "wd_names ?w = wd_names w" "wd_next ?w = wd_next w" "wd_begun ?w = wd_begun w" "wd_data ?w = wd_data w"
    "wd_writers ?w = (wd_writers w)(i := ph)" by (simp_all add: in_phase_def)
  have fw: "from_writer ?w = from_writer w" by (simp add: from_writer_def fields fun_eq_iff)
  have phases: "phase_ok ?w (wd_writers ?w l)" for l
  proof -
    have "phase_ok w (if l = i then ph else wd_writers w l)" using ph(1) D(6) by simp
    then have "phase_ok ?w (if l = i then ph else wd_writers w l)" by (rule phase_ok_same) (simp_all add: fields)
    then show ?thesis by (simp add: fields)
  qed
  have opens: "open_file (wd_writers ?w l) = Some x \<Longrightarrow> open_file (wd_writers w l) = Some x"
    "temp_of (wd_writers ?w l) = Some t \<Longrightarrow> temp_of (wd_writers w l) = Some t" for l x t
    using ph by (auto simp: fields split: if_splits)
  show ?thesis
    by (rule world_okI [OF _ _ _ _ phases D(7) [OF opens(1), folded fields] D(8) [OF opens(1) opens(1)] D(9) [OF opens(2) opens(2)] D(10) [folded fields fw]])
       (use D(1-5) in \<open>simp_all add: fields\<close>)
qed

text \<open>Names that go.\<close>

lemma world_ok_unlink:
  assumes ok: "world_ok dumps w0 w" shows "world_ok dumps w0 (unlink p w)"
proof -
  let ?w = "unlink p w"
  note D = world_okD [OF ok]
  have fields: "wd_names ?w = (wd_names w)(p := None)" "wd_next ?w = wd_next w" "wd_begun ?w = wd_begun w" "wd_data ?w = wd_data w"
    "wd_writers ?w = wd_writers w" by (simp_all add: unlink_def)
  have phases: "phase_ok ?w (wd_writers ?w l)" for l
    unfolding fields(5) by (rule phase_ok_same [OF D(6) [of l]]) (auto simp: fields split: if_splits)
  have fw: "from_writer ?w = from_writer w" by (simp add: from_writer_def fields fun_eq_iff)
  show ?thesis
    by (rule world_okI [OF _ _ _ _ phases], unfold fields fw) (use D(1-5) D(7-10) in \<open>auto simp: folder_ok_def split: if_splits\<close>)
qed

text \<open>A new, empty file for a writer.\<close>

lemma world_ok_new_file:
  assumes ok: "world_ok dumps w0 w" and free: "wd_names w p = None" "open_file ph = Some (wd_next w)"
    and ph: "phase_ok (new_file p w) ph" "\<And>t. temp_of ph = Some t \<Longrightarrow> \<forall>l. temp_of (wd_writers w l) \<noteq> Some t"
    and unused: "\<And>l. temp_of (wd_writers w l) \<noteq> Some p"
  shows "world_ok dumps w0 (in_phase i ph (new_file p w))"
proof -
  let ?x = "wd_next w" let ?w = "in_phase i ph (new_file p w)"
  note D = world_okD [OF ok]
  have fields: "wd_names ?w = (wd_names w)(p \<mapsto> ?x)" "wd_next ?w = ?x + 1" "wd_begun ?w = wd_begun w" "wd_data ?w = (wd_data w)(?x := [])"
    "wd_writers ?w = (wd_writers w)(i := ph)" by (simp_all add: in_phase_def new_file_def)
  have old: "wd_names w q = Some y \<Longrightarrow> y < ?x" for q y using folder_okD(1) [OF D(1)] by blast
  have own: "open_file (wd_writers w l) \<noteq> Some ?x" for l using D(7) [of l ?x] by auto
  have fw: "from_writer ?w = from_writer w" by (simp add: from_writer_def fields fun_eq_iff)
  have phases: "phase_ok ?w (wd_writers ?w l)" for l
  proof (cases "l = i")
    case True
    have "phase_ok ?w ph" by (rule phase_ok_same [OF ph(1)]) (simp_all add: in_phase_def new_file_def)
    then show ?thesis using True by (simp add: fields)
  next
    case False
    have "phase_ok ?w (wd_writers w l)"
      by (rule phase_ok_same [OF D(6) [of l]]) (use own [of l] unused [of l] in \<open>auto simp: fields split: if_splits\<close>)
    then show ?thesis using False by (simp add: fields)
  qed
  have folder: "folder_ok ((wd_names w)(p \<mapsto> ?x)) (?x + 1)"
    using D(1) old unfolding folder_ok_def by (fastforce split: if_splits)
  have named: "if y < wd_next w0 then wd_names w0 q = Some y else from_writer ?w q (wd_data ?w y)"
    if "\<not> is_part q" "wd_names ?w q = Some y" for q y
  proof (cases "q = p")
    case True
    have "from_writer (new_file p w) p (wd_data (new_file p w) ?x)"
      by (rule phase_from_writer [OF ph(1) free(2)]) (use that True in \<open>simp_all add: new_file_def\<close>)
    then show ?thesis using True that D(2) by (simp add: from_writer_def in_phase_def new_file_def)
  next
    case False
    then show ?thesis using D(10) [of q y] old [of q y] that by (auto simp: fw fields)
  qed
  show ?thesis
    by (rule world_okI [OF _ _ _ _ phases _ _ _ named], unfold fields)
       (use folder D(2-5) D(7-9) own free(2) ph(2) in \<open>auto simp: less_Suc_eq split: if_splits\<close>)
qed

text \<open>Another write begun.\<close>

lemma world_ok_begun:
  assumes ok: "world_ok dumps w0 w" and j: "packed_job dumps j" "\<not> is_part (jb_path j)"
  shows "world_ok dumps w0 (w\<lparr>wd_begun := wd_begun w @ [j]\<rparr>)"
proof -
  let ?w = "w\<lparr>wd_begun := wd_begun w @ [j]\<rparr>"
  note D = world_okD [OF ok]
  have phases: "phase_ok ?w (wd_writers ?w l)" for l
    by (simp, rule phase_ok_same [OF D(6) [of l]]) auto
  have named: "if x < wd_next w0 then wd_names w0 p = Some x else from_writer ?w p (wd_data ?w x)"
    if "\<not> is_part p" "wd_names ?w p = Some x" for p x
    using D(10) [of p x] that by (auto simp: from_writer_def split: if_splits)
  show ?thesis
    by (rule world_okI [OF _ _ _ _ phases _ _ _ named]) (use D(1-5) D(7-9) j in \<open>auto\<close>)
qed

lemma world_ok_rename:
  assumes ok: "world_ok dumps w0 w" and t: "wd_writers w i = Temp j t x (length (whole j))" "wd_names w t = Some y"
  shows "world_ok dumps w0 (in_phase i Idle (w\<lparr>wd_names := (wd_names w)(t := None, jb_path j \<mapsto> y)\<rparr>))"
proof -
  note D = world_okD [OF ok]
  from D(6) [of i] t(1) have j: "j \<in> set (wd_begun w)" "is_part t" "wd_data w x = whole j"
    and names: "wd_names w p = Some x \<longleftrightarrow> p = t \<and> wd_names w t \<noteq> None" for p by auto
  have y: "y = x" using names [of t] t(2) by simp
  let ?w = "in_phase i Idle (w\<lparr>wd_names := (wd_names w)(t := None, jb_path j \<mapsto> x)\<rparr>)"
  have fields: "wd_names ?w = (wd_names w)(t := None, jb_path j \<mapsto> x)" "wd_next ?w = wd_next w" "wd_begun ?w = wd_begun w" "wd_data ?w = wd_data w"
    "wd_writers ?w = (wd_writers w)(i := Idle)" by (simp_all add: in_phase_def)
  have x: "wd_next w0 \<le> x" "x < wd_next w" using D(7) [of i x] t(1) by auto
  have part: "\<not> is_part (jb_path j)" by (rule D(5) [OF j(1)])
  have fw: "from_writer ?w = from_writer w" by (simp add: from_writer_def fields fun_eq_iff)
  have other: "open_file (wd_writers w l) \<noteq> Some x" "temp_of (wd_writers w l) \<noteq> Some (jb_path j)" if "l \<noteq> i" for l
  proof -
    show "open_file (wd_writers w l) \<noteq> Some x" using D(8) [of i x l] t(1) that by auto
    have "temp_of (wd_writers w l) = Some u \<Longrightarrow> is_part u" for u
      using D(6) [of l] by (cases "wd_writers w l") (simp_all add: temp_of_def)
    then show "temp_of (wd_writers w l) \<noteq> Some (jb_path j)" using part by blast
  qed
  have phases: "phase_ok ?w (wd_writers ?w l)" for l
  proof (cases "l = i")
    case False
    have "phase_ok ?w (wd_writers w l)"
      by (rule phase_ok_same [OF D(6) [of l]]) (use other [OF False] in \<open>auto simp: fields split: if_splits\<close>)
    then show ?thesis using False by (simp add: fields)
  qed (simp add: fields)
  have named: "if z < wd_next w0 then wd_names w0 p = Some z else from_writer ?w p (wd_data ?w z)"
    if "\<not> is_part p" "wd_names ?w p = Some z" for p z
  proof (cases "p = jb_path j")
    case True
    then have "z = x" using that by (simp add: fields)
    then show ?thesis using x True j in_place_whole [of j] by (auto simp: from_writer_def fields)
  next
    case False
    then show ?thesis using D(10) [of p z] that by (auto simp: fw fields split: if_splits)
  qed
  have folder: "folder_ok (wd_names ?w) (wd_next ?w)"
    using D(1) x(2) names unfolding folder_ok_def fields by (auto split: if_splits)
  have opens: "open_file (wd_writers ?w l) = Some v \<Longrightarrow> open_file (wd_writers w l) = Some v"
    "temp_of (wd_writers ?w l) = Some u \<Longrightarrow> temp_of (wd_writers w l) = Some u" for l v u
    by (auto simp: fields temp_of_def split: if_splits)
  have within: "wd_next w0 \<le> v \<and> v < wd_next ?w" if "open_file (wd_writers ?w l) = Some v" for l v
    using D(7) [OF opens(1) [OF that]] by (simp add: fields)
  have "world_ok dumps w0 ?w"
  proof (rule world_okI [OF folder _ _ _ phases within])
    show "l = m" if "open_file (wd_writers ?w l) = Some v" "open_file (wd_writers ?w m) = Some v" for l m v
      by (rule D(8) [OF opens(1) [OF that(1)] opens(1) [OF that(2)]])
    show "l = m" if "temp_of (wd_writers ?w l) = Some u" "temp_of (wd_writers ?w m) = Some u" for l m u
      by (rule D(9) [OF opens(2) [OF that(1)] opens(2) [OF that(2)]])
    show "if z < wd_next w0 then wd_names w0 p = Some z else from_writer ?w p (wd_data ?w z)"
      if "\<not> is_part p" "wd_names ?w p = Some z" for p z by (rule named [OF that])
  qed (use D(2-5) in \<open>simp_all add: fields\<close>)
  then show ?thesis by (simp add: y)
qed

lemma le_part: "n \<le> m \<Longrightarrow> n + min (m - n) k \<le> (m :: nat)"
  by simp

lemma world_ok_step:
  assumes "write_step dumps w w'" and ok: "world_ok dumps w0 w"
  shows "world_ok dumps w0 w'"
  using assms(1)
proof cases
  case (opened i j m chunks split opens)
  let ?w = "w\<lparr>wd_begun := wd_begun w @ [j]\<rparr>"
  have b: "world_ok dumps w0 ?w"
    by (rule world_ok_begun [OF ok]) (use opened in \<open>auto simp: packed_job_def\<close>)
  have "temp_of (wd_writers ?w l) \<noteq> Some (jb_path j)" for l
    using world_okD(6) [OF b, of l] opened(3) by (cases "wd_writers w l") (auto simp: temp_of_def)
  then have "wd_names ?w (jb_path j) = None \<Longrightarrow> world_ok dumps w0 (in_phase i (Payload j (wd_next ?w) 0) (new_file (jb_path j) ?w))"
    by (intro world_ok_new_file [OF b])
       (use folder_okD(1) [OF world_okD(1) [OF ok]] in \<open>force simp: new_file_def headless_def temp_of_def split: if_splits\<close>)+
  moreover have "world_ok dumps w0 (in_phase i (Replacing j) ?w)"
    by (rule world_ok_phase [OF b]) (simp_all add: temp_of_def)
  ultimately show ?thesis unfolding opened(1) by (auto simp: open_new_def Let_def)
next
  case (payload i k)
  show ?thesis
  proof (cases "wd_writers w i")
    case (Payload j x n)
    let ?bs = "take k (drop n (job_payload j))"
    have "world_ok dumps w0 (in_phase i (Payload j x (n + length ?bs)) (put_data x (write_at (length (job_head j) + n) ?bs (wd_data w x)) w))"
      by (rule world_ok_writes [OF ok])
         (use world_okD(6) [OF ok, of i] Payload write_payload_data [of n j ?bs k] in \<open>simp_all add: temp_of_def put_data_def le_part\<close>)
    then show ?thesis by (simp add: payload write_payload_def Payload)
  qed (use ok in \<open>simp_all add: payload write_payload_def\<close>)
next
  case (seek i)
  show ?thesis
  proof (cases "wd_writers w i")
    case (Payload j x n)
    have "n = length (job_payload j) \<Longrightarrow> world_ok dumps w0 (in_phase i (Head j x 0) w)"
      by (rule world_ok_phase [OF ok]) (use world_okD(6) [OF ok, of i] Payload in \<open>simp_all add: temp_of_def heading_def\<close>)
    then show ?thesis using ok by (simp add: seek seek_start_def Payload)
  qed (use ok in \<open>simp_all add: seek seek_start_def\<close>)
next
  case (head i k)
  show ?thesis
  proof (cases "wd_writers w i")
    case (Head j x n)
    let ?bs = "take k (drop n (job_head j))"
    have "world_ok dumps w0 (in_phase i (Head j x (n + length ?bs)) (put_data x (write_at n ?bs (wd_data w x)) w))"
      by (rule world_ok_writes [OF ok])
         (use world_okD(6) [OF ok, of i] Head write_head_data [of n j ?bs k] in \<open>simp_all add: temp_of_def put_data_def le_part\<close>)
    then show ?thesis by (simp add: head write_head_def Head)
  qed (use ok in \<open>simp_all add: head write_head_def\<close>)
next
  case (temp_created t i)
  show ?thesis
  proof (cases "wd_writers w i")
    case (Replacing j)
    have "wd_names w t = None \<Longrightarrow> world_ok dumps w0 (in_phase i (Temp j t (wd_next w) 0) (new_file t w))"
      by (intro world_ok_new_file [OF ok])
         (use temp_created world_okD(6) [OF ok, of i] Replacing folder_okD(1) [OF world_okD(1) [OF ok]] in \<open>force simp: new_file_def temp_of_def split: if_splits\<close>)+
    then show ?thesis using ok by (simp add: temp_created create_temp_def Replacing)
  qed (use ok in \<open>simp_all add: temp_created create_temp_def\<close>)
next
  case (temp_written i k)
  show ?thesis
  proof (cases "wd_writers w i")
    case (Temp j t x n)
    let ?bs = "take k (drop n (whole j))"
    have "world_ok dumps w0 (in_phase i (Temp j t x (n + length ?bs)) (put_data x (write_at n ?bs (wd_data w x)) w))"
      by (rule world_ok_writes [OF ok])
         (use world_okD(6) [OF ok, of i] Temp write_temp_data [of n j ?bs k] in \<open>simp_all add: temp_of_def put_data_def le_part\<close>)
    then show ?thesis by (simp add: temp_written write_temp_def Temp)
  qed (use ok in \<open>simp_all add: temp_written write_temp_def\<close>)
next
  case (renamed i)
  show ?thesis
    using world_ok_rename [OF ok] world_ok_phase [OF ok, of Idle i] ok
    by (cases "wd_writers w i") (auto simp: renamed rename_temp_def temp_of_def split: option.splits)
next
  case (closed i)
  show ?thesis using world_ok_phase [OF ok, of Idle i] ok by (cases "wd_writers w i") (auto simp: closed close_new_def temp_of_def)
next
  case (failed_new removes i)
  show ?thesis using world_ok_phase [OF world_ok_unlink [OF ok], where ph = Idle and i = i] world_ok_phase [OF ok, of Idle i] ok
    by (cases "wd_writers w i") (auto simp: failed_new fail_new_def temp_of_def)
next
  case (failed_temp removes i)
  show ?thesis using world_ok_phase [OF world_ok_unlink [OF ok], where ph = Idle and i = i] world_ok_phase [OF ok, of Idle i] ok
    by (cases "wd_writers w i") (auto simp: failed_temp fail_temp_def temp_of_def)
next
  case (killed i)
  show ?thesis using world_ok_phase [OF ok, of Idle i] by (simp add: killed temp_of_def)
next
  case (removed p)
  show ?thesis using world_ok_unlink [OF ok] by (simp add: removed)
qed

subsection \<open>What a reader makes of it\<close>

text \<open>Unpickling bytes that break off, or go on with zeros, raises: a pickle ends with its \<open>STOP\<close> opcode, its
  last byte, and zero is no opcode.\<close>

definition rejects_torn :: "(byte list \<Rightarrow> unpickled) \<Rightarrow> byte list \<Rightarrow> bool" where
  "rejects_torn loads mb = (mb \<noteq> [] \<and> (\<forall>k n r m. k < length mb \<longrightarrow> loads (take n (take k mb @ zeros r)) \<noteq> Dict m))"

lemma le_nat_torn: "le_nat (take k bs @ zeros r) \<le> le_nat bs"
proof (induction bs arbitrary: k)
  case Nil
  have "le_nat (zeros r) = 0" by (induction r) (simp_all add: zeros_def)
  then show ?case by simp
next
  case (Cons b bs)
  have "le_nat (zeros r) = 0" by (induction r) (simp_all add: zeros_def)
  then show ?case using Cons.IH by (cases k) simp_all
qed

lemma read_head_headless:
  assumes "HEADER_SIZE \<le> length (job_head j)"
  shows "\<exists>e. read_head loads (headless j n) = Inl e"
proof (cases "n = 0")
  case False
  have "take 4 (headless j n) = [0, 0, 0, 0]" using assms False
    by (simp add: headless_def zeros_def HEADER_SIZE_def numeral_eq_Suc)
  then have "fst (header_unpack (read_at (headless j n) 0 HEADER_SIZE)) \<notin> set MAGICS"
    by (simp add: header_unpack_def read_at_def HEADER_SIZE_def MAGICS_def MAGIC_def MAGIC_SPLIT_def)
  then show ?thesis by (auto simp: read_head_def Let_def split: prod.splits)
qed (auto simp: headless_def read_head_def read_at_def HEADER_SIZE_def)

lemma read_head_rejected:
  assumes "\<And>m. loads (read_at d HEADER_SIZE (fst (snd (header_unpack (read_at d 0 HEADER_SIZE))))) \<noteq> Dict m"
  shows "\<exists>e. read_head loads d = Inl e"
  by (cases "loads (read_at d HEADER_SIZE (fst (snd (header_unpack (read_at d 0 HEADER_SIZE)))))")
     (use assms in \<open>auto simp: read_head_def Let_def load_metadata_def split: prod.splits\<close>)

text \<open>The head of a file whose metadata is not complete.\<close>

lemma torn_metadata:
  assumes head: "job_head j = h @ mb @ zeros s" and h: "length h = HEADER_SIZE" "header_unpack h = (magic, length mb, cap)"
    and torn: "rejects_torn loads mb" and n: "n < HEADER_SIZE + length mb"
  shows "length (read_at (heading j n) 0 HEADER_SIZE) < HEADER_SIZE \<or>
    loads (read_at (heading j n) HEADER_SIZE (fst (snd (header_unpack (read_at (heading j n) 0 HEADER_SIZE))))) \<noteq> Dict m"
proof (cases "job_payload j = []")
  case True
  then have d: "heading j n = take n (h @ mb)" using head n h(1) by (simp add: heading_def headless_def)
  show ?thesis
  proof (cases "n < HEADER_SIZE")
    case False
    have "read_at (take n (h @ mb)) 0 HEADER_SIZE = h" "read_at (take n (h @ mb)) HEADER_SIZE (length mb) = take (n - HEADER_SIZE) (take (n - HEADER_SIZE) mb @ zeros 0)"
      using False n h(1) by (simp_all add: read_at_def zeros_def min_def) auto
    moreover have "loads (take (n - HEADER_SIZE) (take (n - HEADER_SIZE) mb @ zeros 0)) \<noteq> Dict m"
    proof -
      have "n - HEADER_SIZE < length mb" using False n by simp
      then show ?thesis using torn unfolding rejects_torn_def by blast
    qed
    ultimately show ?thesis using h unfolding d by simp
  qed (use h(1) in \<open>simp add: d read_at_def\<close>)
next
  case False
  define r where "r = length (job_head j) - n"
  have r: "HEADER_SIZE + length mb \<le> n + r" using n head h(1) by (simp add: r_def)
  have "drop n (zeros (length (job_head j)) @ job_payload j) = zeros r @ job_payload j" using n head h(1) by (simp add: zeros_def r_def)
  then have d: "heading j n = take n (h @ mb) @ zeros r @ job_payload j" using False head n h(1) by (auto simp: heading_def headless_def)
  show ?thesis
  proof (cases "n < HEADER_SIZE")
    case True
    have hd: "read_at (heading j n) 0 HEADER_SIZE = take n h @ zeros (HEADER_SIZE - n)"
      using True h(1) r unfolding d by (simp add: read_at_def zeros_def min_def)
    obtain k u where len: "take 4 (drop 4 (take n h @ zeros (HEADER_SIZE - n))) = take k (take 4 (drop 4 h)) @ zeros u"
    proof -
      consider "n \<le> 4" | "4 < n" "n < 8" | "8 \<le> n" by linarith
      then show thesis
      proof cases
        case 1
        then show thesis using that [of 0 4] h(1) by (simp add: HEADER_SIZE_def zeros_def min_def)
      next
        case 2
        then show thesis using that [of "n - 4" "8 - n"] h(1) by (simp add: HEADER_SIZE_def zeros_def min_def drop_take)
      next
        case 3
        then show thesis using that [of 4 0] h(1) True by (simp add: HEADER_SIZE_def zeros_def min_def drop_take)
      qed
    qed
    define ml where "ml = fst (snd (header_unpack (read_at (heading j n) 0 HEADER_SIZE)))"
    have "ml = le_nat (take k (take 4 (drop 4 h)) @ zeros u)" unfolding ml_def hd header_unpack_def len by simp
    moreover have "le_nat (take 4 (drop 4 h)) = length mb" using h(2) by (simp add: header_unpack_def)
    ultimately have "ml \<le> length mb" using le_nat_torn [of k "take 4 (drop 4 h)" u] by simp
    then have "read_at (heading j n) HEADER_SIZE ml = take ml (take 0 mb @ zeros ml)"
      using True h(1) r unfolding d by (simp add: read_at_def zeros_def min_def)
    moreover have "loads (take ml (take 0 mb @ zeros ml)) \<noteq> Dict m"
      using torn by (metis rejects_torn_def length_greater_0_conv)
    ultimately show ?thesis by (simp only: ml_def [symmetric] not_False_eq_True simp_thms)
  next
    case False
    have hd: "read_at (heading j n) 0 HEADER_SIZE = h" using False h(1) unfolding d by (simp add: read_at_def)
    have "read_at (heading j n) HEADER_SIZE (length mb) = take (length mb) (take (n - HEADER_SIZE) mb @ zeros r)"
      using False h(1) r n unfolding d by (simp add: read_at_def)
    moreover have "loads (take (length mb) (take (n - HEADER_SIZE) mb @ zeros r)) \<noteq> Dict m"
    proof -
      have "n - HEADER_SIZE < length mb" using False n by simp
      then show ?thesis using torn unfolding rejects_torn_def by blast
    qed
    ultimately show ?thesis by (simp only: hd h(2) fst_conv snd_conv not_False_eq_True simp_thms)
  qed
qed

lemma read_head_torn:
  assumes "job_head j = h @ mb @ zeros s" and "length h = HEADER_SIZE" "header_unpack h = (magic, length mb, cap)"
    and "rejects_torn loads mb" and "n < HEADER_SIZE + length mb"
  shows "\<exists>e. read_head loads (heading j n) = Inl e"
proof (cases "length (read_at (heading j n) 0 HEADER_SIZE) < HEADER_SIZE")
  case False
  then show ?thesis using torn_metadata [OF assms] by (intro read_head_rejected) blast
qed (simp add: read_head_def)

text \<open>From the end of the metadata on, the file reads as the finished one does.\<close>

lemma read_finished:
  assumes head: "job_head j = h @ mb @ zeros s" and h: "length h = HEADER_SIZE" "header_unpack h = (magic, length mb, length mb + s)"
    and n: "HEADER_SIZE + length mb \<le> n" "n \<le> length (job_head j)"
  shows "read_entry_and_checksum loads env (heading j n) with_payload = read_entry_and_checksum loads env (whole j) with_payload"
proof (cases "job_payload j = []")
  case False
  have "take n (job_head j) = h @ mb @ zeros (n - HEADER_SIZE - length mb)" using head h(1) n by (simp add: zeros_def)
  moreover have "drop n (zeros (length (job_head j)) @ job_payload j) = zeros (length (job_head j) - n) @ job_payload j"
    using n by (simp add: zeros_def)
  moreover have "zeros (n - HEADER_SIZE - length mb) @ zeros (length (job_head j) - n) = zeros s"
    using head h(1) n by (simp add: zeros_def flip: replicate_add)
  ultimately have "heading j n = whole j" using False head by (auto simp: heading_def headless_def whole_def)
  then show ?thesis by simp
next
  case True
  then have d: "heading j n = h @ mb @ zeros (n - HEADER_SIZE - length mb)" and w: "whole j = h @ mb @ zeros s"
    using head h(1) n by (simp_all add: heading_def headless_def whole_def zeros_def)
  have heads: "read_head loads (h @ mb @ z) = read_head loads (h @ mb)" for z
    using h by (simp add: read_head_def read_at_def)
  have rest: "drop (HEADER_SIZE + cap) (h @ mb @ zeros z) = []" if "read_head loads (h @ mb) = Inr (mg, cap, m, c)" "z \<le> s" for z mg cap m c
  proof -
    have "cap = length mb + s" using that(1) h by (auto simp: read_head_def read_at_def Let_def and_then_Inr split: if_splits)
    then show ?thesis using that(2) h(1) by simp
  qed
  have z: "n - HEADER_SIZE - length mb \<le> s" using n(2) head h(1) by simp
  show ?thesis
  proof (cases "read_head loads (h @ mb)")
    case (Inr q)
    obtain mg cap m c where q: "q = (mg, cap, m, c)" by (cases q)
    note gone = rest [OF Inr [unfolded q]]
    have "read_split env (h @ mb @ zeros y) (HEADER_SIZE + cap) c (sm_places m) = (re_dir env, case c of None \<Rightarrow> Inl NoChecksum | Some _ \<Rightarrow> Inl Truncated)"
      if "y \<le> s" for y
      using gone [OF that] by (simp add: read_split_def read_split_table_def read_exact_def read_at_def split: option.splits)
    then show ?thesis unfolding d w read_entry_and_checksum_def heads
      using gone [OF z] gone [of s] z by (simp add: Inr q Let_def)
  qed (simp add: d w read_entry_and_checksum_def heads)
qed

text \<open>A file a writer made in place, at any stage: it does not read, or it reads as the finished one.\<close>

lemma in_place_reads:
  assumes "in_place j d" and "packed_job dumps j" and torn: "\<And>m. rejects_torn loads (dumps m)"
    and reads: "snd (read_entry_and_checksum loads env d with_payload) = Inr r"
  shows "read_entry_and_checksum loads env d with_payload = read_entry_and_checksum loads env (whole j) with_payload"
proof -
  from assms(2) obtain m chunks split where "pack_entry_parts dumps m chunks split None = Some (jb_entry j)" by (auto simp: packed_job_def)
  then obtain c mb cap h where mb: "mb = dumps (m\<lparr>sm_checksum := Some c\<rparr>)"
    and cap: "cap = length mb + META_SLACK + (if split then split_pad (HEADER_SIZE + length mb + META_SLACK) else 0)"
    and h: "header_pack (if split then MAGIC_SPLIT else MAGIC) (length mb) cap = Some h" "length h = HEADER_SIZE"
    and e: "job_head j = h @ mb @ zeros (cap - length mb)"
    by (rule pack_entry_parts_Some) auto
  have u: "header_unpack h = (if split then MAGIC_SPLIT else MAGIC, length mb, length mb + (cap - length mb))"
    using header_pack_cases(2) [OF h(1)] magic_lengths magics_differ cap by auto
  have no: "read_head loads d \<noteq> Inl e" for e using reads by (auto simp: read_entry_and_checksum_def)
  from assms(1) consider n where "d = headless j n" | n where "n \<le> length (job_head j)" "d = heading j n" by (auto simp: in_place_def)
  then show ?thesis
  proof cases
    case 1
    then show ?thesis using read_head_headless [of j loads n] no e h(2) by (metis le_add1 length_append)
  next
    case 2
    show ?thesis
    proof (cases "n < HEADER_SIZE + length mb")
      case True
      then show ?thesis using read_head_torn [OF e h(2) u torn [of "m\<lparr>sm_checksum := Some c\<rparr>", folded mb] True] no 2 by blast
    next
      case False
      then show ?thesis unfolding 2(2) by (intro read_finished [OF e h(2) u]) (use 2 in auto)
    qed
  qed
qed

subsection \<open>Properties\<close>

lemma world_ok_steps:
  assumes "(write_step dumps)\<^sup>*\<^sup>* w w'" and "world_ok dumps w0 w"
  shows "world_ok dumps w0 w'"
  using assms by (induction rule: rtranclp_induct) (auto intro: world_ok_step)

text \<open>
  C23: However many writers work on the folder, wherever they fail, are killed or have files removed
  under them, a reader who gets an entry under a path gets one whole: it reads exactly as the file that
  was there before the first writer, or as the finished file of one write to that very path. A file half written
  reads as no entry.\<close>

theorem reader_sees_whole_entries:
  assumes "(write_step dumps)\<^sup>*\<^sup>* (start_of names fdata next) w" and "folder_ok names next"
    and "\<forall>m. rejects_torn loads (dumps m)" and "\<not> is_part p" and "wd_names w p = Some x"
    and "snd (read_entry_and_checksum loads env (wd_data w x) with_payload) = Inr r"
  shows "(names p = Some x \<and> wd_data w x = fdata x) \<or>
    (\<exists>j \<in> set (wd_begun w). jb_path j = p \<and>
      read_entry_and_checksum loads env (wd_data w x) with_payload = read_entry_and_checksum loads env (whole j) with_payload)"
proof -
  let ?w0 = "start_of names fdata next"
  have ok: "world_ok dumps ?w0 w" by (rule world_ok_steps [OF assms(1) world_ok_start [OF assms(2)]])
  note D = world_okD [OF ok]
  show ?thesis
  proof (cases "x < next")
    case True
    then show ?thesis using D(3) [of x] D(10) [OF assms(4,5)] by (simp add: start_of_def)
  next
    case False
    then obtain j where j: "j \<in> set (wd_begun w)" "jb_path j = p" "in_place j (wd_data w x)"
      using D(10) [OF assms(4,5)] by (auto simp: start_of_def from_writer_def)
    then show ?thesis using in_place_reads [OF j(3) D(4) [OF j(1)] _ assms(6)] assms(3) by blast
  qed
qed

text \<open>A run of one writer to its end, by either way.\<close>

definition new_run :: "nat \<Rightarrow> job \<Rightarrow> world \<Rightarrow> world" where
  "new_run i j w = close_new i (write_head i (length (job_head j)) (seek_start i
     (write_payload i (length (job_payload j)) (open_new True i j w))))"

definition temp_run :: "string \<Rightarrow> nat \<Rightarrow> job \<Rightarrow> world \<Rightarrow> world" where
  "temp_run t i j w = rename_temp i (write_temp i (length (whole j)) (create_temp t i (open_new True i j w)))"

lemma new_run_whole:
  assumes "wd_names w (jb_path j) = None"
  shows "wd_writers (new_run i j w) i = Idle" "wd_names (new_run i j w) (jb_path j) = Some (wd_next w)" "wd_data (new_run i j w) (wd_next w) = whole j"
  using assms by (auto simp: new_run_def open_new_def Let_def in_phase_def new_file_def write_payload_def put_data_def
      seek_start_def write_head_def close_new_def write_at_def whole_def zeros_def)

lemma temp_run_whole:
  assumes "wd_names w (jb_path j) \<noteq> None" and "wd_names w t = None"
  shows "wd_writers (temp_run t i j w) i = Idle" "wd_names (temp_run t i j w) (jb_path j) = Some (wd_next w)" "wd_data (temp_run t i j w) (wd_next w) = whole j"
  using assms by (auto simp: temp_run_def open_new_def Let_def in_phase_def new_file_def create_temp_def write_temp_def put_data_def
      rename_temp_def write_at_def zeros_def)

lemma step_into: "(write_step dumps)\<^sup>*\<^sup>* u v \<Longrightarrow> write_step dumps v w \<Longrightarrow> (write_step dumps)\<^sup>*\<^sup>* u w"
  by (rule rtranclp.rtrancl_into_rtrancl)

lemma first_step: "write_step dumps u v \<Longrightarrow> (write_step dumps)\<^sup>*\<^sup>* u v"
  by (rule r_into_rtranclp)

lemma new_run_steps:
  assumes "wd_writers w i = Idle" and "\<not> is_part (jb_path j)" and "pack_entry_parts dumps m chunks split None = Some (jb_entry j)"
  shows "(write_step dumps)\<^sup>*\<^sup>* w (new_run i j w)"
  unfolding new_run_def
  by (rule step_into [OF step_into [OF step_into [OF step_into [OF first_step [OF write_step.opened [OF assms]]
        write_step.payload] write_step.seek] write_step.head] write_step.closed])

lemma temp_run_steps:
  assumes "wd_writers w i = Idle" and "\<not> is_part (jb_path j)" and "pack_entry_parts dumps m chunks split None = Some (jb_entry j)"
    and "wd_names w (jb_path j) \<noteq> None" and t: "is_part t" "\<forall>l. temp_of (wd_writers w l) \<noteq> Some t"
  shows "(write_step dumps)\<^sup>*\<^sup>* w (temp_run t i j w)"
proof -
  let ?w = "open_new True i j w"
  have "wd_writers ?w = (wd_writers w)(i := Replacing j)" using assms(4) by (simp add: open_new_def Let_def in_phase_def)
  then have "\<forall>l. temp_of (wd_writers ?w l) \<noteq> Some t" using t(2) by (simp add: temp_of_def)
  then show ?thesis unfolding temp_run_def
    by (intro step_into [OF step_into [OF step_into [OF first_step [OF write_step.opened [OF assms(1-3)]]
          write_step.temp_created [OF t(1)]] write_step.temp_written] write_step.renamed])
qed


subsection \<open>A run\<close>

definition sample_entry :: packed_entry where
  "sample_entry = \<lparr>pe_head = sample_head, pe_chunks = [[1, 2]], pe_checksum = checksum [1, 2], pe_size = 79\<rparr>"

definition sample_job :: job where
  "sample_job = \<lparr>jb_path = ''k.entry'', jb_entry = sample_entry\<rparr>"

abbreviation empty_world :: world where
  "empty_world \<equiv> start_of Map.empty (\<lambda>_. []) 0"

lemma sample_entry_packed: "pack_entry_parts sample_dumps empty_stored [[1, 2]] False None = Some (jb_entry sample_job)"
  by (simp add: pack_entry_parts_def sample_dumps_def header_pack_def pack_all.simps pack_uint_def META_SLACK_def pack_str_exact
      MAGIC_def sample_head_def sample_job_def sample_entry_def checksum_of_concat)

lemma sample_rejects: "rejects_torn (sample_loads crc) (sample_dumps m)"
proof -
  have "take n (zeros r) \<noteq> [9]" for n r
  proof
    assume "take n (zeros r) = [9]"
    then have "9 \<in> set (take n (zeros r))" by simp
    then show False by (auto simp: zeros_def dest: in_set_takeD)
  qed
  then show ?thesis by (simp add: rejects_torn_def sample_dumps_def sample_loads_def)
qed

lemma sample_names: "\<not> is_part (jb_path sample_job)" "is_part ''.tmp-h.1-a.part''"
  by (simp_all add: sample_job_def is_part_def startswith_def endswith_def)

lemma sample_run:
  "(write_step sample_dumps)\<^sup>*\<^sup>* empty_world (new_run 0 sample_job empty_world)"
  "wd_names (new_run 0 sample_job empty_world) ''k.entry'' = Some 0" "wd_data (new_run 0 sample_job empty_world) 0 = whole sample_job"
  using new_run_steps [OF _ sample_names(1) sample_entry_packed, of empty_world 0] new_run_whole [of empty_world sample_job 0]
  by (simp_all add: start_of_def sample_job_def)

theorem reader_sees_whole_entries_witness:
  "\<exists>j \<in> set (wd_begun (new_run 0 sample_job empty_world)). jb_path j = ''k.entry'' \<and>
     read_entry_and_checksum (sample_loads (checksum [1, 2])) sample_env (wd_data (new_run 0 sample_job empty_world) 0) True =
     read_entry_and_checksum (sample_loads (checksum [1, 2])) sample_env (whole j) True"
proof -
  have packed: "pack_entry sample_dumps empty_stored [1, 2] None = Some (whole sample_job)"
    using sample_packed [of "[1, 2]"] by (simp add: whole_def sample_job_def sample_entry_def)
  from pack_entry_reads [where loads = "sample_loads (checksum [1, 2])", OF packed sample_pickle, of sample_env]
  obtain r where r: "snd (read_entry_and_checksum (sample_loads (checksum [1, 2])) sample_env (whole sample_job) True) = Inr r"
    by (auto simp: read_entry_def split: prod.splits sum.splits)
  have path: "\<not> is_part ''k.entry''" using sample_names(1) by (simp add: sample_job_def)
  show ?thesis
    using reader_sees_whole_entries [OF sample_run(1) _ _ path sample_run(2), of "sample_loads (checksum [1, 2])" sample_env True r]
      r sample_rejects by (simp add: folder_ok_def sample_run(3))
qed


text \<open>A writer that fails removes what its path names by then: the finished entry of a writer that went the
  safe way meanwhile.\<close>

lemma failed_write_removes_finished:
  "\<exists>w w'. (write_step sample_dumps)\<^sup>*\<^sup>* empty_world w \<and> wd_names w ''k.entry'' = Some 1 \<and> wd_data w 1 = whole sample_job \<and>
     wd_writers w 1 = Idle \<and> write_step sample_dumps w w' \<and> wd_names w' ''k.entry'' = None"
proof -
  let ?w = "open_new True 0 sample_job empty_world"
  have s: "(write_step sample_dumps)\<^sup>*\<^sup>* empty_world ?w"
    by (rule first_step [OF write_step.opened [OF _ sample_names(1) sample_entry_packed]]) (simp add: start_of_def)
  have w: "wd_writers ?w 1 = Idle" "wd_names ?w (jb_path sample_job) \<noteq> None" "\<forall>l. temp_of (wd_writers ?w l) \<noteq> Some ''.tmp-h.1-a.part''"
    "wd_names ?w ''.tmp-h.1-a.part'' = None" "wd_next ?w = 1"
    by (simp_all add: open_new_def Let_def in_phase_def new_file_def start_of_def temp_of_def sample_job_def)
  let ?v = "temp_run ''.tmp-h.1-a.part'' 1 sample_job ?w"
  have "wd_writers ?v 0 = Payload sample_job 0 0"
    by (simp add: temp_run_def open_new_def Let_def in_phase_def new_file_def create_temp_def write_temp_def put_data_def
      rename_temp_def start_of_def sample_job_def)
  then have "wd_names (fail_new True 0 ?v) ''k.entry'' = None" by (simp add: fail_new_def in_phase_def unlink_def sample_job_def)
  moreover have "wd_names ?v ''k.entry'' = Some 1" "wd_data ?v 1 = whole sample_job" "wd_writers ?v 1 = Idle"
    using temp_run_whole [OF w(2,4), of 1] w(5) by (simp_all add: sample_job_def)
  ultimately show ?thesis
    using rtranclp_trans [OF s temp_run_steps [OF w(1) sample_names(1) sample_entry_packed w(2) sample_names(2) w(3)]] write_step.failed_new
    by blast
qed

end
