(* ===== verification/Compression.thy ===== *)
theory Compression
  imports Entry_Meta Byte_Codec
begin

text \<open>
  Compressing a payload (\<open>src/cash/backends/compression.py\<close>): a payload is compressed when its first
  megabyte shrinks by a tenth and the whole shrinks at all.

  The codecs themselves are arguments: \<open>pack\<close> is \<open>_compress_with\<close>, and \<open>unpack\<close> what each codec inflates
  bytes to, \<open>None\<close> where it raises.
\<close>

definition SAMPLE_BYTES :: nat where "SAMPLE_BYTES = 2 ^ 20"
definition MIN_SAVING :: real where "MIN_SAVING = 1 / 10"

definition compress :: "codec \<Rightarrow> (byte list \<Rightarrow> byte list) \<Rightarrow> byte list \<Rightarrow> codec option \<times> byte list" where
  "compress codec pack data = (
     let sample = take SAMPLE_BYTES data in
     if sample = [] then (None, data)
     else let packed = pack sample in
     if (1 - MIN_SAVING) * real (length sample) < real (length packed) then (None, data)
     else let packed = (if length sample < length data then pack data else packed) in
     if length data \<le> length packed then (None, data) else (Some codec, packed))"

text \<open>\<open>Inl\<close> is \<open>UnknownCodec\<close> (\<open>True\<close>) or the codec's own error (\<open>False\<close>).\<close>

definition decompress :: "bool \<Rightarrow> (codec \<Rightarrow> byte list \<Rightarrow> byte list option) \<Rightarrow> codec \<Rightarrow> byte list \<Rightarrow> bool + byte list" where
  "decompress has_zstd unpack codec data = (case codec of
       OtherCodec _ \<Rightarrow> Inl True
     | Zstd \<Rightarrow> if has_zstd then (case unpack Zstd data of None \<Rightarrow> Inl False | Some d \<Rightarrow> Inr d) else Inl True
     | _ \<Rightarrow> (case unpack codec data of None \<Rightarrow> Inl False | Some d \<Rightarrow> Inr d))"

definition CODEC :: "bool \<Rightarrow> codec" where
  "CODEC has_zstd = (if has_zstd then Zstd else Zlib)"

text \<open>What is stored is no longer than the payload, and reads back as it.\<close>

lemma compress_shrinks:
  assumes "compress codec pack data = (c, out)"
  shows "length out \<le> length data \<and> (c = None \<longrightarrow> out = data) \<and> (c \<noteq> None \<longrightarrow> length out < length data)"
  using assms by (auto simp: compress_def Let_def split: if_splits)

lemma compress_round_trip:
  assumes "compress (CODEC z) pack data = (c, out)" and "\<And>d. unpack (CODEC z) (pack d) = Some d"
  shows "(case c of None \<Rightarrow> Inr out | Some codec \<Rightarrow> decompress z unpack codec out) = Inr data"
proof (cases c)
  case None
  then show ?thesis using compress_shrinks [OF assms(1)] by simp
next
  case (Some codec)
  then have "codec = CODEC z" "out = pack data"
    using assms(1) by (auto simp: compress_def Let_def split: if_splits)
  then show ?thesis using Some assms(2) [of data] by (cases z) (simp_all add: decompress_def CODEC_def)
qed

end
