(* ===== verification/File_Backend.thy ===== *)
theory File_Backend
  imports Write_Worker File_Eviction Entry_Write Compression Version_Index
begin

text \<open>
  The file tier (class \<open>FileBackend\<close> of \<open>src/cash/backends/file_backend.py\<close>): one file per entry, written
  by the background worker of \<open>Pending_Writes\<close>, over the folder, chunk store and ranking of \<open>File_Eviction\<close>.

  \<open>file_tier\<close> is the backend together with its folder. \<open>file_codec\<close> holds what the code takes from elsewhere: the
  hash that names a key's file, pickle of metadata and of values, and the compression codecs. One thread
  of one process uses the backend; the worker runs the queued writes in between, one whole write at a
  time, and the backend has no siblings over the same folder. Two differences to the code: the share of an
  entry in its chunk files, a float, is rounded down where it ranks a fresh write, and a set of keys is a list
  without repetition.
\<close>

subsection \<open>What is stored, and the outside\<close>

text \<open>A value as an entry stores it: \<open>bytes\<close>, or \<open>SplitPayload\<close>, its stream and its buffers.\<close>

datatype serialized = Stream "byte list" | Parts "byte list" "byte list list"

record 'v file_codec =
  fc_stem :: "string \<Rightarrow> string"
  fc_dumps :: "stored_meta \<Rightarrow> byte list"
  fc_loads :: "byte list \<Rightarrow> unpickled"
  fc_split :: "'v \<Rightarrow> (byte list \<times> byte list list) option"
  fc_dump :: "'v \<Rightarrow> byte list option"
  fc_load :: "byte list \<Rightarrow> 'v option"
  fc_join :: "byte list \<Rightarrow> byte list option list \<Rightarrow> 'v option"
  fc_zstd :: bool
  fc_pack :: "byte list \<Rightarrow> byte list"
  fc_unpack :: "codec \<Rightarrow> byte list \<Rightarrow> byte list option"

text \<open>A queued write: the metadata frozen for it, and the bytes or the value to serialize.\<close>

record 'v file_job =
  fj_serial :: nat
  fj_meta :: stored_meta
  fj_work :: "serialized + 'v"
  fj_pickled :: bool  \<comment> \<open>\<open>type(serializer) is PickleSerializer\<close>\<close>

record 'v file_tier =
  ft_ev :: evictor
  ft_exists :: bool
  ft_stamp :: "stamp_file option"
  ft_gitignore :: bool
  ft_written :: "(int \<times> nat \<times> nat) option"
  ft_stamp_writes :: nat
  ft_versions :: version_index
  ft_read_keys :: "string list"
  ft_writes :: "'v file_job writes"
  ft_queued :: "string \<rightharpoonup> nat \<times> stored_meta"
  ft_serial :: nat
  ft_access_flushed :: "string \<rightharpoonup> seconds"
  ft_compress :: bool
  ft_default_ttl :: "pyfloat option"
  ft_flush_interval :: int
  ft_flusher :: bool  \<comment> \<open>known to the shared flusher\<close>
  ft_initialized :: bool
  ft_unusable :: bool
  ft_orphans_swept :: bool
  ft_stopped :: bool

text \<open>What one write meets: \<open>fw_fails\<close> is after how many bytes writing the new file in place fails, \<open>fw_temp_fails\<close>
  the same for a temporary file or its rename.\<close>

record file_work =
  fw_now :: seconds
  fw_took :: real
  fw_evict :: evict_env
  fw_host :: string
  fw_pid :: string
  fw_alive :: "string \<Rightarrow> bool"
  fw_opens :: bool
  fw_fails :: "nat option"
  fw_removes :: bool
  fw_random :: "nat \<Rightarrow> string"
  fw_temp_fails :: "nat option"
  fw_vanished :: bool  \<comment> \<open>the folder was deleted before the write\<close>
  fw_recreates :: bool
  fw_error :: string

record file_env =
  fn_now :: seconds
  fn_evict :: evict_env
  fn_makes_dir :: bool
  fn_child :: bool
  fn_ttl_given :: bool  \<comment> \<open>the metadata has a ttl field, if only \<open>None\<close>\<close>
  fn_restores :: bool  \<comment> \<open>rebuilding the value raises nothing here\<close>
  fn_rounds :: nat
  fn_work :: "nat \<Rightarrow> file_work"
  fn_own :: file_work  \<comment> \<open>what a write on the calling thread meets\<close>
  fn_versions_readable :: bool
  fn_versions_wrote :: bool
  fn_versions_renamed :: bool
  fn_versions_removed :: bool

definition DISK_LABEL :: string where "DISK_LABEL = ''DISK''"
definition CHUNK_MIN_BYTES :: nat where "CHUNK_MIN_BYTES = 1048576"
definition ACCESS_FLUSH_MIN_INTERVAL :: real where "ACCESS_FLUSH_MIN_INTERVAL = 600"

text \<open>The dict as the caller's metadata gives it: the chunk fields are the write's.\<close>

definition as_stored :: "entry_metadata \<Rightarrow> stored_meta" where
  "as_stored m = entry_metadata.extend m (stored_meta.fields None None None)"

definition put_ev :: "evictor \<Rightarrow> 'v file_tier \<Rightarrow> 'v file_tier" where
  "put_ev ev s = s\<lparr>ft_ev := ev\<rparr>"

definition put_file_writes :: "'v file_job writes \<Rightarrow> 'v file_tier \<Rightarrow> 'v file_tier" where
  "put_file_writes q s = s\<lparr>ft_writes := q\<rparr>"

definition on_touched :: "(identity touched \<Rightarrow> identity touched) \<Rightarrow> evictor \<Rightarrow> evictor" where
  "on_touched f ev = ev\<lparr>fe_touched := f (fe_touched ev)\<rparr>"

definition get_path :: "'v file_codec \<Rightarrow> string \<Rightarrow> string" where
  "get_path c key = fc_stem c key @ ENTRY_SUFFIX"

text \<open>\<open>_remember\<close>.\<close>

definition remember_entry ::
  "'v file_codec \<Rightarrow> string \<Rightarrow> stored_meta \<Rightarrow> crc option \<Rightarrow> stat_sig option \<Rightarrow> evictor \<Rightarrow> evictor" where
  "remember_entry c key m crc st = on_touched (remember key (get_path c key) m (Some (entry_identity m crc)) st)"

text \<open>\<open>_entry_chunks\<close>: the entries that hold chunks, as the chunk store lists them.\<close>

definition entry_chunks :: "'v file_codec \<Rightarrow> dir_env \<Rightarrow> folder \<Rightarrow> (string \<times> (string \<times> int) list \<times> meta_places option) list" where
  "entry_chunks c d fs = List.map_filter (\<lambda>(path, f).
     if \<not> de_readable d path then None else
     case read_head (fc_loads c) (df_data f) of
       Inl _ \<Rightarrow> None
     | Inr (_, _, m, _) \<Rightarrow> (case sm_chunks m of
           None \<Rightarrow> None
         | Some held \<Rightarrow> if held = [] then None else Some (stem_of path, held, sm_places m))) (entry_files fs)"

text \<open>The environment of the folder, with what the backend itself answers: the queue, pickle, the listing.\<close>

definition live_env :: "'v file_codec \<Rightarrow> string option \<Rightarrow> 'v file_tier \<Rightarrow> evict_env \<Rightarrow> evict_env" where
  "live_env c own s w = w\<lparr>ee_pending := (\<lambda>k. has_pending k (ft_writes s)), ee_own_key := own,
     ee_chunk_env := (ee_chunk_env w)\<lparr>ce_dumps := fc_dumps c, ce_loads := fc_loads c,
       ce_listing := entry_chunks c (ee_dir w) (fe_files (ft_ev s)), ce_landed := (\<lambda>_. None)\<rparr>\<rparr>"

text \<open>An operation of the chunk store, which may rewrite entries.\<close>

definition on_chunks :: "evict_env \<Rightarrow> (chunk_env \<Rightarrow> chunk_store \<Rightarrow> chunk_store \<times> 'a) \<Rightarrow> 'a \<Rightarrow> evictor \<Rightarrow> evictor \<times> 'a" where
  "on_chunks w f none ev = (case fe_chunks ev of
       None \<Rightarrow> (ev, none)
     | Some cs \<Rightarrow> (case f (ee_chunk_env w) (with_entries (fe_files ev) cs) of
           (cs1, r) \<Rightarrow> (ev\<lparr>fe_chunks := Some cs1, fe_files := rewritten (ee_dir w) cs1 (fe_files ev)\<rparr>, r)))"

subsection \<open>The folder\<close>

definition dir_state :: "'v file_tier \<Rightarrow> stamp_state" where
  "dir_state s = \<lparr>cd_files = (if ft_exists s then Some (fe_files (ft_ev s)) else None),
     cd_chunks = map_option cs_dir (fe_chunks (ft_ev s)), cd_stamp = ft_stamp s, cd_gitignore = ft_gitignore s,
     cd_written = ft_written s, cd_writes = ft_stamp_writes s\<rparr>"

definition put_dir_state :: "stamp_state \<Rightarrow> 'v file_tier \<Rightarrow> 'v file_tier" where
  "put_dir_state d s = s\<lparr>
     ft_ev := (ft_ev s)\<lparr>fe_files := (case cd_files d of None \<Rightarrow> [] | Some fs \<Rightarrow> fs),
       fe_chunks := (case fe_chunks (ft_ev s) of None \<Rightarrow> None
          | Some cs \<Rightarrow> Some (cs\<lparr>cs_dir := (case cd_chunks d of None \<Rightarrow> [] | Some dir \<Rightarrow> dir)\<rparr>))\<rparr>,
     ft_exists := (cd_files d \<noteq> None), ft_stamp := cd_stamp d, ft_gitignore := cd_gitignore d,
     ft_written := cd_written d, ft_stamp_writes := cd_writes d\<rparr>"

text \<open>\<open>os.makedirs\<close> and \<open>ignore_in_git\<close> on a folder that is not there.\<close>

definition make_dir :: "dir_env \<Rightarrow> 'v file_tier \<Rightarrow> 'v file_tier" where
  "make_dir d s = (if ft_exists s then s
     else put_dir_state (write_gitignore d ((dir_state s)\<lparr>cd_files := Some [], cd_stamp := None, cd_gitignore := False\<rparr>)) s)"

definition disable :: "'v file_tier \<Rightarrow> 'v file_tier" where
  "disable s = s\<lparr>ft_unusable := True, ft_initialized := True\<rparr>"

definition ensure_initialized :: "file_env \<Rightarrow> 'v file_tier \<Rightarrow> 'v file_tier" where
  "ensure_initialized n s = (
     if ft_initialized s then s
     else if \<not> fn_makes_dir n then disable s
     else let d = ee_dir (fn_evict n);
              s = make_dir d s;
              s = put_dir_state (check_stamp d (dir_state s)) s in
       s\<lparr>ft_flusher := (0 < ft_flush_interval s), ft_initialized := True\<rparr>)"

definition generation_token :: "'v file_tier \<Rightarrow> (int \<times> nat \<times> nat) option" where
  "generation_token s = token (dir_state s)"

definition bump_generation :: "file_env \<Rightarrow> 'v file_tier \<Rightarrow> 'v file_tier" where
  "bump_generation n s = put_dir_state (bump (ee_dir (fn_evict n)) (dir_state s)) s"

subsection \<open>Reading a file\<close>

datatype read_fail = NotFound | Unreadable | Corrupt corrupt

text \<open>\<open>read_entry_and_checksum(path)\<close>: reading may discard a damaged chunk file.\<close>

definition read_file ::
  "'v file_codec \<Rightarrow> evict_env \<Rightarrow> string \<Rightarrow> bool \<Rightarrow> evictor \<Rightarrow> evictor \<times> (read_fail + stored_meta \<times> payload option \<times> crc option)" where
  "read_file c w path with_payload ev = (case map_of (fe_files ev) path of
       None \<Rightarrow> (ev, Inl NotFound)
     | Some f \<Rightarrow> if \<not> de_readable (ee_dir w) path then (ev, Inl Unreadable) else
         let cs = (case fe_chunks ev of None \<Rightarrow> init_store [] Map.empty | Some cs \<Rightarrow> cs) in
         (case read_entry_and_checksum (fc_loads c) (entry_env (ee_chunk_env w) cs) (df_data f) with_payload of
            (dir, r) \<Rightarrow> (ev\<lparr>fe_chunks := map_option (\<lambda>cs. cs\<lparr>cs_dir := dir\<rparr>) (fe_chunks ev)\<rparr>, map_sum Corrupt id r)))"

definition stat_of :: "evict_env \<Rightarrow> string \<Rightarrow> evictor \<Rightarrow> stat_sig option" where
  "stat_of w path ev = (if de_stats (ee_dir w) path
     then map_option (\<lambda>f. (df_ino f, int (length (df_data f)), df_mtime f)) (map_of (fe_files ev) path) else None)"

text \<open>The payload as a value: \<open>compression.decompress\<close>, then \<open>restore_value\<close> or \<open>deserialize_split\<close>.\<close>

definition decode :: "'v file_codec \<Rightarrow> codec option \<Rightarrow> payload \<Rightarrow> 'v option" where
  "decode c codec payload = (case codec of
       None \<Rightarrow> (case payload of Plain b \<Rightarrow> fc_load c b | SplitPayload stream bufs \<Rightarrow> fc_join c stream bufs)
     | Some k \<Rightarrow> (case payload of
           Plain b \<Rightarrow> (case decompress (fc_zstd c) (fc_unpack c) k b of Inl _ \<Rightarrow> None | Inr d \<Rightarrow> fc_load c d)
         | SplitPayload _ _ \<Rightarrow> None))"

definition is_expired :: "'v file_tier \<Rightarrow> seconds \<Rightarrow> stored_meta \<Rightarrow> bool" where
  "is_expired s now m = entry_expired (entry_metadata.truncate m) (ft_default_ttl s) now VNone"

subsection \<open>Writing an entry\<close>

definition whole_file :: "packed_entry \<Rightarrow> byte list" where
  "whole_file e = pe_head e @ concat (pe_chunks e)"

definition new_dir_file :: "dir_env \<Rightarrow> byte list \<Rightarrow> dir_file" where
  "new_dir_file d bs = \<lparr>df_data = bs, df_mtime = de_now d, df_ino = de_fresh_ino d\<rparr>"

text \<open>What \<open>k\<close> bytes of a write in place leave: the payload comes first, then the head.\<close>

definition partial_file :: "packed_entry \<Rightarrow> nat \<Rightarrow> byte list" where
  "partial_file e k = (let j = \<lparr>jb_path = [], jb_entry = e\<rparr>; p = length (job_payload j) in
     if k \<le> p then headless j k else heading j (k - p))"

text \<open>\<open>_write_new_in_place\<close>; \<open>Inl\<close> is the error it raises.\<close>

definition write_new_in_place :: "file_work \<Rightarrow> string \<Rightarrow> packed_entry \<Rightarrow> folder \<Rightarrow> folder \<times> (string + bool)" where
  "write_new_in_place w path e fs = (
     if map_of fs path \<noteq> None \<or> \<not> fw_opens w then (fs, Inr False)
     else let d = ee_dir (fw_evict w) in
       case fw_fails w of
         None \<Rightarrow> (fs @ [(path, new_dir_file d (whole_file e))], Inr True)
       | Some k \<Rightarrow> (if fw_removes w then fs
                    else fs @ [(path, new_dir_file d (partial_file e (min k (length (whole_file e)))))], Inl (fw_error w)))"

text \<open>\<open>_atomic_write\<close>.\<close>

definition atomic_write :: "file_work \<Rightarrow> string \<Rightarrow> byte list \<Rightarrow> folder \<Rightarrow> folder \<times> string option" where
  "atomic_write w path bs fs = (let d = ee_dir (fw_evict w) in
     case create_temp_file d (fw_random w) (owned_temp_prefix (fw_host w) (fw_pid w)) ''.part'' fs of
       (fs, Inl _) \<Rightarrow> (fs, Some (fw_error w))
     | (fs, Inr tmp) \<Rightarrow> (case fw_temp_fails w of
           None \<Rightarrow> (AList.update path (new_dir_file d bs) (AList.delete tmp fs), None)
         | Some k \<Rightarrow> (if fw_removes w then AList.delete tmp fs
                      else AList.update tmp (new_dir_file d (take k bs)) fs, Some (fw_error w))))"

text \<open>A new file in place where there is none, the safe way otherwise.\<close>

definition write_either :: "file_work \<Rightarrow> string \<Rightarrow> packed_entry \<Rightarrow> folder \<Rightarrow> folder \<times> string option" where
  "write_either w path e fs = (case write_new_in_place w path e fs of
       (fs, Inl err) \<Rightarrow> (fs, Some err)
     | (fs, Inr True) \<Rightarrow> (fs, None)
     | (fs, Inr False) \<Rightarrow> atomic_write w path (whole_file e) fs)"

definition on_files :: "(folder \<Rightarrow> folder \<times> 'a) \<Rightarrow> evictor \<Rightarrow> evictor \<times> 'a" where
  "on_files f ev = (case f (fe_files ev) of (fs, r) \<Rightarrow> (ev\<lparr>fe_files := fs\<rparr>, r))"

text \<open>The folder deleted under a live process, and made again with its stamp.\<close>

definition vanish :: "'v file_tier \<Rightarrow> 'v file_tier" where
  "vanish s = put_dir_state \<lparr>cd_files = None, cd_chunks = Some [], cd_stamp = None, cd_gitignore = False,
     cd_written = ft_written s, cd_writes = ft_stamp_writes s\<rparr> s"

definition put_entry_file :: "file_work \<Rightarrow> string \<Rightarrow> packed_entry \<Rightarrow> 'v file_tier \<Rightarrow> 'v file_tier \<times> string option" where
  "put_entry_file w path e s = (
     let d = ee_dir (fw_evict w); s = (if fw_vanished w then vanish s else s) in
     if \<not> ft_exists s \<and> \<not> fw_recreates w then (s, Some (fw_error w))
     else let s = (if ft_exists s then s else let s = make_dir d s in put_dir_state (write_stamp d (dir_state s)) s) in
       case on_files (write_either w path e) (ft_ev s) of (ev, r) \<Rightarrow> (put_ev ev s, r))"

text \<open>\<open>_write_entry\<close>: \<open>Inr\<close> is the entry, the bytes of the file it replaced, and the chunk bytes freed.\<close>

definition write_entry ::
  "'v file_codec \<Rightarrow> file_work \<Rightarrow> string \<Rightarrow> stored_meta \<Rightarrow> byte list list \<Rightarrow> bool \<Rightarrow> (string \<times> int) list \<Rightarrow> 'v file_tier
    \<Rightarrow> 'v file_tier \<times> (string + packed_entry \<times> bytes_t \<times> bytes_t)" where
  "write_entry c w key m chunks split held s = (
     let u = live_env c (Some key) s (fw_evict w); path = get_path c key; stem = fc_stem c key;
         give_up = (\<lambda>s. put_ev (fst (on_chunks u (\<lambda>ce. abandon ce held) 0 (ft_ev s))) s) in
     case pack_entry_parts (fc_dumps c) m chunks split None of
       None \<Rightarrow> (give_up s, Inl (fw_error w))
     | Some e \<Rightarrow>
         let old = getsize u (ft_ev s) path;
             replaced = (case old of None \<Rightarrow> None | Some _ \<Rightarrow> chunks_held u path stem (ft_ev s)) in
         case put_entry_file w path e s of
           (s, Some err) \<Rightarrow> (give_up s, Inl err)
         | (s, None) \<Rightarrow> (case on_chunks u (\<lambda>ce. commit ce stem held replaced (sm_places m)) 0 (ft_ev s) of
               (ev, freed) \<Rightarrow> (put_ev ev s, Inr (e, case old of None \<Rightarrow> 0 | Some sz \<Rightarrow> sz, freed))))"

text \<open>The chunks of an entry: the big buffers go to the chunk store, the rest into the file.\<close>

definition big_buffers :: "byte list list \<Rightarrow> (nat \<times> byte list) list" where
  "big_buffers bufs = filter (\<lambda>(_, b). CHUNK_MIN_BYTES \<le> length b) (enumerate 0 bufs)"

definition put_big ::
  "evict_env \<Rightarrow> (nat \<times> byte list) list \<Rightarrow> evictor
    \<Rightarrow> evictor \<times> ((digest \<times> crc) option list \<times> meta_places \<times> (string \<times> int) list \<times> int) option" where
  "put_big u big ev = (if big = [] then (ev, Some ([], [], [], 0))
     else on_chunks u (\<lambda>ce. put_all ce (map (\<lambda>(_, b). (b, Some (ce_bulk_digest ce b))) big)) (Some ([], [], [], 0)) ev)"

definition refs_of :: "(nat \<times> byte list) list \<Rightarrow> (digest \<times> crc) option list \<Rightarrow> (nat \<times> digest \<times> crc) list" where
  "refs_of big refs = List.map_filter (\<lambda>((i, _), r). map_option (\<lambda>(d, crc). (i, d, crc)) r) (zip big refs)"

definition finish_write ::
  "'v file_codec \<Rightarrow> file_work \<Rightarrow> evict_env \<Rightarrow> string \<Rightarrow> stored_meta \<Rightarrow> byte list list \<Rightarrow> bool \<Rightarrow> (string \<times> int) list \<Rightarrow> bytes_t \<Rightarrow> 'v file_tier
    \<Rightarrow> 'v file_tier \<times> string option" where
  "finish_write c w u key m chunks split held added s = (case write_entry c w key m chunks split held s of
       (s, Inl err) \<Rightarrow> (s, Some err)
     | (s, Inr (e, old, freed)) \<Rightarrow>
         let ev = note_write key (old + freed) (int (pe_size e) + added)
                    (remember_entry c key m (Some (pe_checksum e)) None (ft_ev s)) in
         if \<not> capped ev then (put_ev ev s, None)
         else (case record_rank u key (get_path c key) (entry_metadata.truncate m)
                 (int (pe_size e) + int_of_float (case fe_chunks ev of None \<Rightarrow> 0 | Some cs \<Rightarrow> share cs (fc_stem c key))) ev of
             (ev, ok) \<Rightarrow> (put_ev ev s, if ok then None else Some (fw_error w))))"

definition write_cache_files ::
  "'v file_codec \<Rightarrow> file_work \<Rightarrow> string \<Rightarrow> stored_meta \<Rightarrow> serialized \<Rightarrow> 'v file_tier \<Rightarrow> 'v file_tier \<times> string option" where
  "write_cache_files c w key m ser s = (
     let u = live_env c (Some key) s (fw_evict w) in
     case ser of
       Stream b \<Rightarrow>
         let (codec, b) = (if ft_compress s then compress (CODEC (fc_zstd c)) (fc_pack c) b else (None, b)) in
         finish_write c w u key (m\<lparr>m_compressed := codec, sm_chunks := None, sm_places := None, m_size := Some (int (length b))\<rparr>) [b] False [] 0 s
     | Parts stream bufs \<Rightarrow>
         let big = big_buffers bufs in
         (case put_big u big (ft_ev s) of
            (ev, None) \<Rightarrow> (put_ev ev s, Some (fw_error w))
          | (ev, Some (refs, places, held, added)) \<Rightarrow>
              let s = put_ev ev s in
              (case split_chunks stream bufs (refs_of big refs) of
                 None \<Rightarrow> (s, Some (fw_error w))
               | Some chunks \<Rightarrow> finish_write c w u key (m\<lparr>m_compressed := None, sm_chunks := Some held, sm_places := Some places,
                   m_size := Some (int (sum_list (map length chunks) + sum_list (map (\<lambda>(_, b). length b) big)))\<rparr>)
                   chunks True held added s)))"

text \<open>\<open>_serialize\<close>: the buffers apart only for a pickled value that is not compressed; \<open>None\<close> is what it raises.\<close>

definition serialize :: "'v file_codec \<Rightarrow> bool \<Rightarrow> bool \<Rightarrow> 'v \<Rightarrow> serialized option" where
  "serialize c packs pickled v = (if pickled \<and> \<not> packs
     then map_option (\<lambda>(stream, bufs). if bufs = [] then Stream stream else Parts stream bufs) (fc_split c v)
     else map_option Stream (fc_dump c v))"

definition payload_bytes :: "serialized \<Rightarrow> nat" where
  "payload_bytes ser = (case ser of Stream b \<Rightarrow> length b | Parts stream bufs \<Rightarrow> length stream + sum_list (map length bufs))"

definition sweep_temp_files :: "file_work \<Rightarrow> 'v file_tier \<Rightarrow> 'v file_tier" where
  "sweep_temp_files w s = (if ft_orphans_swept s then s
     else let fs = fst (fst (remove_orphan_temp_files (ee_dir (fw_evict w)) (fw_host w) (fw_alive w) (fe_files (ft_ev s), []))) in
       put_ev ((ft_ev s)\<lparr>fe_files := fs\<rparr>) (s\<lparr>ft_orphans_swept := True\<rparr>))"

text \<open>\<open>_serialize_and_write\<close> and \<open>_do_set_sync\<close>.\<close>

definition file_set_sync :: "'v file_codec \<Rightarrow> file_work \<Rightarrow> string \<Rightarrow> 'v file_job \<Rightarrow> 'v file_tier \<Rightarrow> 'v file_tier \<times> outcome" where
  "file_set_sync c w key j s = (
     case (case fj_work j of Inl ser \<Rightarrow> Some ser | Inr v \<Rightarrow> serialize c (ft_compress s) (fj_pickled j) v) of
       None \<Rightarrow> (s, Raised (fw_error w))
     | Some ser \<Rightarrow> (case write_cache_files c w key (fj_meta j) ser (sweep_temp_files w s) of
           (s, Some err) \<Rightarrow> (s, Raised err)
         | (s, None) \<Rightarrow> if \<not> capped (ft_ev s) then (s, Wrote)
             else (case evict (live_env c (Some key) s (fw_evict w)) (ft_ev s) of
                 (ev, ok) \<Rightarrow> (put_ev ev s, if ok then Wrote else Raised (fw_error w)))))"

subsection \<open>The worker and the waits\<close>

definition forget_queued :: "string \<Rightarrow> nat \<Rightarrow> 'v file_tier \<Rightarrow> 'v file_tier" where
  "forget_queued key serial s = (case ft_queued s key of
       None \<Rightarrow> s
     | Some (k, _) \<Rightarrow> if k = serial then s\<lparr>ft_queued := (ft_queued s)(key := None)\<rparr> else s)"

definition file_round :: "'v file_codec \<Rightarrow> file_env \<Rightarrow> 'v file_tier \<Rightarrow> 'v file_tier" where
  "file_round c n s = (case pw_queue (ft_writes s) of
       [] \<Rightarrow> s
     | (f, t) # _ \<Rightarrow>
         let w = fn_work n f;
             s = put_file_writes (start_task (fw_now w) (ft_writes s)) s in
         case file_set_sync c w (wt_key t) (wt_value t) s of
           (s, how) \<Rightarrow> forget_queued (wt_key t) (fj_serial (wt_value t)) (put_file_writes (finish_task (fw_took w) how (ft_writes s)) s))"

definition file_meanwhile :: "'v file_codec \<Rightarrow> file_env \<Rightarrow> 'v file_tier \<Rightarrow> 'v file_tier" where
  "file_meanwhile c n s = (file_round c n ^^ fn_rounds n) s"

definition file_wait :: "'v file_codec \<Rightarrow> file_env \<Rightarrow> string \<Rightarrow> 'v file_tier \<Rightarrow> 'v file_tier" where
  "file_wait c n key s = wait_by ft_writes put_file_writes (file_round c n) key s"

definition file_wait_all :: "'v file_codec \<Rightarrow> file_env \<Rightarrow> 'v file_tier \<Rightarrow> 'v file_tier" where
  "file_wait_all c n s = wait_all_by ft_writes (file_round c n) s"

definition file_drain :: "'v file_codec \<Rightarrow> file_env \<Rightarrow> string \<Rightarrow> 'v file_tier \<Rightarrow> 'v file_tier" where
  "file_drain c n key s = drain_by ft_writes put_file_writes (file_round c n) key s"

subsection \<open>Removing and reading\<close>

definition file_delete :: "'v file_codec \<Rightarrow> file_env \<Rightarrow> string \<Rightarrow> 'v file_tier \<Rightarrow> 'v file_tier" where
  "file_delete c n key s = (
     let s = ensure_initialized n s in
     if ft_unusable s then s
     else let s = file_drain c n key s in
       put_ev (fst (remove_path (live_env c None s (fn_evict n)) (get_path c key) (Some key) (ft_ev s))) s)"

text \<open>\<open>_remove_damaged\<close>: the entry, and every other that holds the damaged chunk.\<close>

definition remove_damaged :: "'v file_codec \<Rightarrow> file_env \<Rightarrow> string \<Rightarrow> int \<Rightarrow> string \<Rightarrow> 'v file_tier \<Rightarrow> 'v file_tier" where
  "remove_damaged c n pack offset path s = (
     let u = live_env c None s (fn_evict n) in
     case on_chunks u (\<lambda>ce. damaged ce pack offset) [] (ft_ev s) of (ev, stems) \<Rightarrow>
       put_ev (fold (\<lambda>p ev. fst (remove_path u p None ev))
         (sort (remdups (path # map (\<lambda>stem. stem @ ENTRY_SUFFIX) stems))) ev) s)"

text \<open>The metadata a read goes on with: what is remembered of the same write, or what was read.\<close>

definition same_write :: "string \<Rightarrow> stored_meta \<Rightarrow> crc option \<Rightarrow> evictor \<Rightarrow> bool" where
  "same_write key on_disk crc ev = (te_stored key (fe_touched ev) \<noteq> None \<and>
     te_identity key (fe_touched ev) = Some (entry_identity on_disk crc))"

definition file_get_metadata :: "'v file_codec \<Rightarrow> file_env \<Rightarrow> string \<Rightarrow> 'v file_tier \<Rightarrow> 'v file_tier \<times> stored_meta option" where
  "file_get_metadata c n key s = (
     let s = ensure_initialized n s in
     if ft_unusable s then (s, None)
     else let s = file_wait c n key s;
              u = live_env c None s (fn_evict n); ev = ft_ev s; path = get_path c key;
              cached = te_stored key (fe_touched ev); st = stat_of u path ev;
              answer = (\<lambda>m. if is_expired s (fn_now n) m then None else Some m) in
       if cached \<noteq> None \<and> st = None then (s, None)
       else if cached \<noteq> None \<and> stat_matches key (the st) (fe_touched ev) then (s, answer (the cached))
       else (case read_file c u path False ev of
           (ev, Inl _) \<Rightarrow> (put_ev ev s, None)
         | (ev, Inr (m, _, crc)) \<Rightarrow>
             if same_write key m crc ev then (put_ev (on_touched (note_stat key (the st)) ev) s, answer (the cached))
             else (put_ev (remember_entry c key m crc (if cached = None then None else st) ev) s, answer m)))"

definition file_peek_metadata :: "'v file_codec \<Rightarrow> file_env \<Rightarrow> string \<Rightarrow> 'v file_tier \<Rightarrow> 'v file_tier \<times> stored_meta option" where
  "file_peek_metadata c n key s = (case ft_queued s key of
       Some (_, m) \<Rightarrow> if has_pending key (ft_writes s) then (s, if is_expired s (fn_now n) m then None else Some m)
         else file_get_metadata c n key s
     | None \<Rightarrow> file_get_metadata c n key s)"

text \<open>A read counted: the dict that is remembered is the one that changes.\<close>

definition stamp_access :: "seconds \<Rightarrow> stored_meta \<Rightarrow> stored_meta" where
  "stamp_access now m = m\<lparr>m_last_access := Some now, m_access_count := Some ((case m_access_count m of None \<Rightarrow> 0 | Some k \<Rightarrow> k) + 1)\<rparr>"

definition set_held :: "string \<Rightarrow> stored_meta \<Rightarrow> evictor \<Rightarrow> evictor" where
  "set_held key m = on_touched (\<lambda>t. t\<lparr>te_metadata := (te_metadata t)(key \<mapsto> m)\<rparr>)"

definition count_read :: "string \<Rightarrow> stored_meta \<Rightarrow> 'v file_tier \<Rightarrow> 'v file_tier" where
  "count_read key m s = (put_ev (ev_note_read key (on_touched (te_note_read key) (set_held key m (ft_ev s)))) s)
     \<lparr>ft_read_keys := List.insert key (ft_read_keys s)\<rparr>"

definition disk_source :: "stored_meta \<Rightarrow> stored_meta" where
  "disk_source m = (if m_source m = None then m\<lparr>m_source := Some DISK_LABEL\<rparr> else m)"

text \<open>What \<open>get\<close> makes of the entry it read.\<close>

definition serve_entry ::
  "'v file_codec \<Rightarrow> file_env \<Rightarrow> string \<Rightarrow> stored_meta \<Rightarrow> payload option \<Rightarrow> 'v file_tier \<Rightarrow> 'v file_tier \<times> (stored_meta \<times> 'v) option" where
  "serve_entry c n key m payload s = (
     if m_metadata_only m then (s, None)
     else if is_expired s (fn_now n) m then (file_delete c n key s, None)
     else let m = stamp_access (fn_now n) m; s = count_read key m s in
       case (if fn_restores n then Option.bind payload (decode c (m_compressed m)) else None) of
         None \<Rightarrow> (s, None)
       | Some v \<Rightarrow> (put_ev (set_held key (disk_source m) (ft_ev s)) s, Some (disk_source m, v)))"

definition file_get :: "'v file_codec \<Rightarrow> file_env \<Rightarrow> string \<Rightarrow> 'v file_tier \<Rightarrow> 'v file_tier \<times> (stored_meta \<times> 'v) option" where
  "file_get c n key s = (
     let s = ensure_initialized n s in
     if ft_unusable s then (s, None)
     else let s = file_wait c n key s; u = live_env c None s (fn_evict n); path = get_path c key;
              cached = te_stored key (fe_touched (ft_ev s)) in
       case read_file c u path True (ft_ev s) of
         (ev, Inl NotFound) \<Rightarrow> (put_ev (on_touched (drop_metadata key) ev) s, None)
       | (ev, Inl (Corrupt (ChunkUnreadable (DamagedChunk pack offset)))) \<Rightarrow> (remove_damaged c n pack offset path (put_ev ev s), None)
       | (ev, Inl _) \<Rightarrow> (put_ev ev s, None)
       | (ev, Inr (on_disk, payload, crc)) \<Rightarrow>
           if same_write key on_disk crc ev then serve_entry c n key (the cached) payload (put_ev ev s)
           else serve_entry c n key on_disk payload (put_ev (remember_entry c key on_disk crc None ev) s))"

subsection \<open>Storing\<close>

text \<open>The size known before a private value is serialized.\<close>

definition known_size :: "stored_meta \<Rightarrow> nat" where
  "known_size m = nat (case (m_size m, m_cost_model_size_bytes m, m_serialized_estimate m) of
       (Some a, b, d) \<Rightarrow> if a \<noteq> 0 then a else (case b of Some b \<Rightarrow> if b \<noteq> 0 then b else (case d of None \<Rightarrow> 0 | Some d \<Rightarrow> d) | None \<Rightarrow> (case d of None \<Rightarrow> 0 | Some d \<Rightarrow> d))
     | (None, Some b, d) \<Rightarrow> if b \<noteq> 0 then b else (case d of None \<Rightarrow> 0 | Some d \<Rightarrow> d)
     | (None, None, d) \<Rightarrow> (case d of None \<Rightarrow> 0 | Some d \<Rightarrow> d))"

definition stamped_meta :: "file_env \<Rightarrow> string \<Rightarrow> entry_metadata option \<Rightarrow> 'v file_tier \<Rightarrow> stored_meta" where
  "stamped_meta n key metadata s = (let m = as_stored (init_metadata metadata key (fn_now n)) in
     if m_ttl m = VNone \<and> \<not> fn_ttl_given n \<and> ft_default_ttl s \<noteq> None then m\<lparr>m_ttl := ttl_val (ft_default_ttl s)\<rparr> else m)"

text \<open>What is to be written, how many bytes that is known to be, the metadata, and whether cash owns the
  bytes; \<open>None\<close> is what serializing raises.\<close>

definition plan_write ::
  "'v file_codec \<Rightarrow> bool \<Rightarrow> bool \<Rightarrow> bool \<Rightarrow> serialized option \<Rightarrow> 'v \<Rightarrow> stored_meta \<Rightarrow> ((serialized + 'v) \<times> nat \<times> stored_meta \<times> bool) option" where
  "plan_write c packs pickled private_value given v m = (
     case (if packs \<or> \<not> pickled then None else given) of
       Some ser \<Rightarrow> Some (Inl ser, payload_bytes ser, m, True)
     | None \<Rightarrow>
         if private_value then Some (Inr v, known_size m, m, True)
         else map_option (\<lambda>ser. (Inl ser, payload_bytes ser, m\<lparr>m_size := Some (int (payload_bytes ser))\<rparr>, False)) (serialize c packs pickled v))"

fun tok_key :: "tok \<Rightarrow> string" where
  "tok_key (TWord k) = k"
| "tok_key _ = []"

text \<open>\<open>_call_refs_of\<close>.\<close>

fun call_refs_of :: "'v file_codec \<Rightarrow> file_env \<Rightarrow> string list \<Rightarrow> 'v file_tier \<Rightarrow> 'v file_tier \<times> string list" where
  "call_refs_of c n [] s = (s, [])"
| "call_refs_of c n (k # ks) s = (case file_get_metadata c n k s of
     (s, m) \<Rightarrow> (case call_refs_of c n ks s of
        (s, refs) \<Rightarrow> (s, (case m of None \<Rightarrow> [] | Some m \<Rightarrow> m_call_refs m) @ refs)))"

definition delete_all :: "'v file_codec \<Rightarrow> file_env \<Rightarrow> string list \<Rightarrow> 'v file_tier \<Rightarrow> 'v file_tier" where
  "delete_all c n = fold (file_delete c n)"

definition prune_versions ::
  "'v file_codec \<Rightarrow> file_env \<Rightarrow> string \<Rightarrow> string \<Rightarrow> bytes_t \<Rightarrow> pyfloat \<Rightarrow> string list \<Rightarrow> 'v file_tier \<Rightarrow> 'v file_tier" where
  "prune_versions c n slot key sz cost call_refs s = (
     case vx_record (fn_versions_readable n) (fn_versions_wrote n) (TWord slot) (TWord key) sz cost (Fin (fn_now n)) (ft_versions s) of
       (x, versions) \<Rightarrow>
         let s = s\<lparr>ft_versions := x\<rparr>;
             gone = filter (\<lambda>k. k \<noteq> TWord key \<and> \<not> has_pending (tok_key k) (ft_writes s)
                      \<and> map_of (fe_files (ft_ev s)) (get_path c (tok_key k)) = None) (map fst versions);
             versions = filter (\<lambda>(k, _). k \<notin> set gone) versions;
             drop = superseded_to_drop versions (TWord key) (TWord ` set (ft_read_keys s)) in
         case call_refs_of c n (map tok_key (filter (\<lambda>k. k \<notin> set drop \<and> k \<noteq> TWord key) (map fst versions))) s of
           (s, kept) \<Rightarrow> (case call_refs_of c n (map tok_key drop) s of
             (s, refs) \<Rightarrow>
               let freed = remdups (filter (\<lambda>k. k \<notin> set kept \<and> k \<notin> set call_refs) refs);
                   s = delete_all c n freed (delete_all c n (map tok_key drop) s) in
               if gone = [] \<and> drop = [] then s
               else s\<lparr>ft_versions := vx_forget (fn_versions_readable n) (fn_versions_wrote n) (fn_versions_renamed n)
                       (gone @ drop) (ft_versions s)\<rparr>))"

definition file_submit ::
  "'v file_codec \<Rightarrow> file_env \<Rightarrow> string \<Rightarrow> nat \<Rightarrow> bool \<Rightarrow> 'v file_job \<Rightarrow> 'v file_tier \<Rightarrow> 'v file_tier \<times> (submit_error + nat)" where
  "file_submit c n key nbytes copied j s = submit_by ft_writes put_file_writes (file_round c n)
     (\<lambda>s. case file_set_sync c (fn_own n) key j s of (s, how) \<Rightarrow> (s, how, fw_took (fn_own n))) (fn_child n) key nbytes copied j s"

text \<open>The queued write, with the metadata \<open>peek_metadata\<close> answers from until it is done; the result is the exception.\<close>

definition queue_write ::
  "'v file_codec \<Rightarrow> file_env \<Rightarrow> string \<Rightarrow> serialized + 'v \<Rightarrow> nat \<Rightarrow> stored_meta \<Rightarrow> bool \<Rightarrow> bool \<Rightarrow> 'v file_tier \<Rightarrow> 'v file_tier \<times> string option" where
  "queue_write c n key todo nbytes m pickled copied s = (
     let ev = ft_ev s; serial = ft_serial s;
         j = \<lparr>fj_serial = serial, fj_meta = m, fj_work = todo, fj_pickled = pickled\<rparr>;
         s = s\<lparr>ft_ev := ev\<lparr>fe_evictions := el_forget (ee_log (fn_evict n)) (fc_stem c key) (fe_evictions ev)\<rparr>,
               ft_queued := (ft_queued s)(key \<mapsto> (serial, m)), ft_serial := serial + 1\<rparr> in
     case file_submit c n key nbytes copied j s of
       (s, Inl ShutDown) \<Rightarrow> (s, Some (fw_error (fn_own n)))
     | (s, Inr f) \<Rightarrow> (if fdone (ft_writes s) f then forget_queued key serial s else s, None))"

definition prune_slot :: "'v file_codec \<Rightarrow> file_env \<Rightarrow> string \<Rightarrow> nat \<Rightarrow> stored_meta \<Rightarrow> 'v file_tier \<Rightarrow> 'v file_tier" where
  "prune_slot c n key nbytes m s = (case m_version_slot m of
       None \<Rightarrow> s
     | Some slot \<Rightarrow> if slot = [] then s
         else prune_versions c n slot key (int nbytes + (case m_call_ref_bytes m of None \<Rightarrow> 0 | Some b \<Rightarrow> b))
           (if truthy (m_execution_time m) then (case float_of_val (m_execution_time m) of None \<Rightarrow> Fin 0 | Some x \<Rightarrow> x) else Fin 0)
           (m_call_refs m) s)"

text \<open>\<open>private_value\<close> and \<open>copied\<close> are the method's \<open>private\<close> and \<open>copied\<close>, \<open>given\<close> its \<open>serialized\<close>. The result is
  the exception.\<close>

definition file_set ::
  "'v file_codec \<Rightarrow> file_env \<Rightarrow> string \<Rightarrow> 'v \<Rightarrow> entry_metadata option \<Rightarrow> bool \<Rightarrow> bool \<Rightarrow> bool \<Rightarrow> serialized option \<Rightarrow> 'v file_tier
    \<Rightarrow> 'v file_tier \<times> string option" where
  "file_set c n key v metadata pickled private_value copied given s = (
     let s = ensure_initialized n s in
     if ft_unusable s then (s, None)
     else case plan_write c (ft_compress s) pickled private_value given v (stamped_meta n key metadata s) of
       None \<Rightarrow> (s, Some (fw_error (fn_own n)))
     | Some (todo, nbytes, m, owned) \<Rightarrow>
         let m = (if m_storage m = None then m\<lparr>m_storage := Some [DISK_LABEL]\<rparr> else m) in
         (case queue_write c n key todo nbytes m pickled (copied \<or> \<not> owned) s of
            (s, Some err) \<Rightarrow> (s, Some err)
          | (s, None) \<Rightarrow> (prune_slot c n key nbytes m s, None)))"

text \<open>\<open>set_metadata_only\<close>: an entry that carries a payload is not replaced.\<close>

definition known_entry :: "'v file_codec \<Rightarrow> evict_env \<Rightarrow> string \<Rightarrow> evictor \<Rightarrow> evictor \<times> stored_meta option" where
  "known_entry c u key ev = (case te_stored key (fe_touched ev) of
       Some m \<Rightarrow> if m_metadata_only m then (ev, Some m)
         else (case read_file c u (get_path c key) False ev of (ev, Inl _) \<Rightarrow> (ev, None) | (ev, Inr (m, _, _)) \<Rightarrow> (ev, Some m))
     | None \<Rightarrow> (case read_file c u (get_path c key) False ev of (ev, Inl _) \<Rightarrow> (ev, None) | (ev, Inr (m, _, _)) \<Rightarrow> (ev, Some m)))"

definition only_metadata :: "seconds \<Rightarrow> string \<Rightarrow> entry_metadata \<Rightarrow> stored_meta" where
  "only_metadata now key metadata = (let m = init_metadata (Some metadata) key now in
     (as_stored (m\<lparr>m_size := Some (case m_size m of None \<Rightarrow> 0 | Some sz \<Rightarrow> sz)\<rparr>))\<lparr>m_metadata_only := True\<rparr>)"

definition file_set_metadata_only :: "'v file_codec \<Rightarrow> file_env \<Rightarrow> string \<Rightarrow> entry_metadata \<Rightarrow> 'v file_tier \<Rightarrow> 'v file_tier" where
  "file_set_metadata_only c n key metadata s = (
     let s = ensure_initialized n s in
     if ft_unusable s then s
     else let s = file_wait c n key s; u = live_env c None s (fn_evict n) in
       case known_entry c u key (ft_ev s) of
         (ev, existing) \<Rightarrow>
           let s = put_ev ev s in
           if (case existing of None \<Rightarrow> False | Some m \<Rightarrow> \<not> m_metadata_only m) then s
           else let m = only_metadata (fn_now n) key metadata in
             (case pack_entry_parts (fc_dumps c) m [[]] False None of
                None \<Rightarrow> s
              | Some e \<Rightarrow> (case on_files (if existing = None then write_either (fn_own n) (get_path c key) e
                                       else atomic_write (fn_own n) (get_path c key) (pe_head e)) (ft_ev s) of
                    (ev, Some _) \<Rightarrow> put_ev ev s
                  | (ev, None) \<Rightarrow> put_ev (remember_entry c key m (Some (payload_checksum [])) None ev) s)))"

subsection \<open>Clearing and listing\<close>

definition file_clear :: "'v file_codec \<Rightarrow> file_env \<Rightarrow> 'v file_tier \<Rightarrow> 'v file_tier" where
  "file_clear c n s = (
     let s = ensure_initialized n s in
     if ft_unusable s then s
     else let s = file_wait_all c n s; w = fn_evict n; u = live_env c None s w;
              ev = ft_ev s;
              ev = ev\<lparr>fe_files := filter (\<lambda>e. \<not> (e \<in> set (entry_files (fe_files ev)) \<and> de_removable (ee_dir w) (fst e))) (fe_files ev)\<rparr>;
              ev = ev\<lparr>fe_chunks := map_option (clear_store (ee_chunk_env u)) (fe_chunks ev)\<rparr>;
              ev = on_touched te_clear (evictor_clear w ev) in
       put_ev ev (s\<lparr>ft_versions := vx_remove (fn_versions_removed n) (ft_versions s)\<rparr>))"

definition readable_entries :: "'v file_codec \<Rightarrow> dir_env \<Rightarrow> folder \<Rightarrow> (string \<times> dir_file \<times> stored_meta) list" where
  "readable_entries c d fs = List.map_filter (\<lambda>(path, f). if \<not> de_readable d path then None else
     case read_head (fc_loads c) (df_data f) of Inl _ \<Rightarrow> None | Inr (_, _, m, _) \<Rightarrow> Some (path, f, m)) (entry_files fs)"

definition file_list_entries :: "'v file_codec \<Rightarrow> file_env \<Rightarrow> 'v file_tier \<Rightarrow> 'v file_tier \<times> stored_meta list" where
  "file_list_entries c n s = (
     let s = ensure_initialized n s in
     if ft_unusable s then (s, [])
     else let s = file_wait_all c n s in
       (s, map (\<lambda>(_, _, m). m) (readable_entries c (ee_dir (fn_evict n)) (fe_files (ft_ev s)))))"

definition file_entry_count :: "'v file_codec \<Rightarrow> file_env \<Rightarrow> 'v file_tier \<Rightarrow> 'v file_tier \<times> nat" where
  "file_entry_count c n s = (
     let s = ensure_initialized n s in
     if ft_unusable s then (s, 0)
     else let s = file_wait_all c n s in (s, length (entry_files (fe_files (ft_ev s)))))"

record stored_entry =
  se_id :: string
  se_key :: string
  se_size :: nat
  se_mtime :: real
  se_metadata :: stored_meta

definition file_entries :: "'v file_codec \<Rightarrow> file_env \<Rightarrow> 'v file_tier \<Rightarrow> 'v file_tier \<times> stored_entry list" where
  "file_entries c n s = (
     let s = file_wait_all c n s; d = ee_dir (fn_evict n) in
     (s, map (\<lambda>(path, f, m). \<lparr>se_id = stem_of path, se_key = (case m_key m of None \<Rightarrow> [] | Some k \<Rightarrow> k),
            se_size = length (df_data f), se_mtime = mtime_of f, se_metadata = m\<rparr>)
          (filter (\<lambda>(path, _, _). de_stats d path) (readable_entries c d (fe_files (ft_ev s))))))"

definition file_cleanup_expired :: "'v file_codec \<Rightarrow> file_env \<Rightarrow> (stored_meta \<Rightarrow> bool) \<Rightarrow> 'v file_tier \<Rightarrow> 'v file_tier \<times> nat" where
  "file_cleanup_expired c n expired s = (
     let s = ensure_initialized n s in
     if ft_unusable s then (s, 0)
     else case file_entries c n s of (s, es) \<Rightarrow>
       let keys = map se_key (filter (\<lambda>e. se_key e \<noteq> [] \<and> expired (se_metadata e)) es) in
       (delete_all c n keys s, length keys))"

definition file_disk_budget :: "file_env \<Rightarrow> 'v file_tier \<Rightarrow> disk_budget option" where
  "file_disk_budget n s = (if ft_unusable s then None else budget (fn_evict n) (ft_ev s))"

definition file_eviction_note :: "'v file_codec \<Rightarrow> file_env \<Rightarrow> string \<Rightarrow> 'v file_tier \<Rightarrow> 'v file_tier \<times> eviction_note option" where
  "file_eviction_note c n key s = (if ft_unusable s then (s, None)
     else case el_lookup (ee_log (fn_evict n)) (fc_stem c key) (fe_evictions (ft_ev s)) of
       (l, r) \<Rightarrow> (put_ev ((ft_ev s)\<lparr>fe_evictions := l\<rparr>) s, r))"

definition file_take_storage_notices :: "'v file_tier \<Rightarrow> 'v file_tier \<times> (bytes_t \<times> bytes_t \<times> nat) list" where
  "file_take_storage_notices s = (case take_notices (ft_ev s) of (ev, r) \<Rightarrow> (put_ev ev s, r))"

text \<open>\<open>hint\<close> is the class's \<open>max_size_bytes\<close>.\<close>

definition file_promotion_size_cap :: "bytes_t option \<Rightarrow> 'v file_tier \<Rightarrow> bytes_t option" where
  "file_promotion_size_cap hint s = (if capped (ft_ev s) then fe_max (ft_ev s) else hint)"

subsection \<open>Access stamps\<close>

text \<open>One key of \<open>_flush_metadata\<close>: its access stamp written into the file, and what the ranking learns of it. The
  file keeps its inode.\<close>

definition flush_key ::
  "'v file_codec \<Rightarrow> file_env \<Rightarrow> bool \<Rightarrow> string \<Rightarrow> 'v file_tier \<times> (string \<times> real) list \<Rightarrow> 'v file_tier \<times> (string \<times> real) list" where
  "flush_key c n ranked key x = (case x of (s, records) \<Rightarrow>
     let u = fn_evict n; path = get_path c key; ev = ft_ev s in
     (case te_stored key (fe_touched ev) of
        None \<Rightarrow> (s\<lparr>ft_access_flushed := (ft_access_flushed s)(key \<mapsto> fn_now n)\<rparr>, records)
      | Some m \<Rightarrow> (case map_of (fe_files ev) path of
            None \<Rightarrow> (s, records)
          | Some f \<Rightarrow> if \<not> de_readable (ee_dir u) path \<or> \<not> de_writable (ee_dir u) then (s, records)
              else (case update_metadata_in_place (fc_dumps c) (fc_loads c) (df_data f) m (te_identity key (fe_touched ev)) of
                  (_, False) \<Rightarrow> (put_ev (on_touched (drop_metadata key) ev) s, records)
                | (d, True) \<Rightarrow>
                    let ev = ev\<lparr>fe_files := AList.update path (f\<lparr>df_data := d, df_mtime := de_now (ee_dir u)\<rparr>) (fe_files ev)\<rparr>;
                        s = s\<lparr>ft_access_flushed := (ft_access_flushed s)(key \<mapsto> fn_now n),
                              ft_versions := (case m_version_slot m of
                                  None \<Rightarrow> ft_versions s
                                | Some slot \<Rightarrow> if slot = [] then ft_versions s
                                    else vx_touch (fn_versions_readable n) (fn_versions_wrote n) (TWord key)
                                      (Fin (case m_last_access m of None \<Rightarrow> fn_now n | Some t \<Rightarrow> t)) (ft_versions s))\<rparr> in
                    if \<not> ranked then (put_ev ev s, records)
                    else (case access_record u key (entry_metadata.truncate m) path ev of
                        (ev, None) \<Rightarrow> (put_ev ev s, records)
                      | (ev, Some r) \<Rightarrow> (put_ev ev s, records @ [r]))))))"

definition flush_metadata :: "'v file_codec \<Rightarrow> file_env \<Rightarrow> bool \<Rightarrow> 'v file_tier \<Rightarrow> 'v file_tier" where
  "flush_metadata c n periodic s = (
     let due = (if periodic then Some (\<lambda>k. ACCESS_FLUSH_MIN_INTERVAL \<le> fn_now n - (case ft_access_flushed s k of None \<Rightarrow> 0 | Some t \<Rightarrow> t)) else None) in
     case take_unflushed due (fe_touched (ft_ev s)) of (t, keys) \<Rightarrow>
       let s = put_ev ((ft_ev s)\<lparr>fe_touched := t\<rparr>) s in
       if keys = [] then s
       else let ranked = capped (ft_ev s);
                s = (if ranked then put_ev (ensure_clock (fn_evict n) (ft_ev s)) s else s) in
         case fold (flush_key c n ranked) keys (s, []) of (s, records) \<Rightarrow>
           let ev = ft_ev s in
           put_ev (ev\<lparr>fe_rank_index := ri_append (ee_rank_wrote (fn_evict n)) records None (fe_rank_index ev)\<rparr>) s)"

definition flush_ranks :: "file_env \<Rightarrow> 'v file_tier \<Rightarrow> 'v file_tier" where
  "flush_ranks n s = (let ev = ft_ev s in put_ev (ev\<lparr>fe_rank_index := ri_flush (ee_rank_wrote (fn_evict n)) (fe_rank_index ev)\<rparr>) s)"

definition flush_periodically :: "'v file_codec \<Rightarrow> file_env \<Rightarrow> 'v file_tier \<Rightarrow> 'v file_tier" where
  "flush_periodically c n s = (if ft_stopped s then s else flush_ranks n (flush_metadata c n True s))"

definition file_shutdown :: "'v file_codec \<Rightarrow> file_env \<Rightarrow> 'v file_tier \<Rightarrow> 'v file_tier" where
  "file_shutdown c n s = (
     let s = file_wait_all c n s;
         s = (put_file_writes (shutdown (ft_writes s)) s)\<lparr>ft_stopped := True, ft_flusher := False\<rparr> in
     if ft_initialized s then flush_ranks n (flush_metadata c n False s) else s)"

text \<open>A new backend over a folder with these files.\<close>

definition file_init :: "evictor \<Rightarrow> bool \<Rightarrow> stamp_file option \<Rightarrow> bool \<Rightarrow> pyfloat option \<Rightarrow> int \<Rightarrow> version_index \<Rightarrow> 'v file_tier" where
  "file_init ev there stamp packs ttl flush_interval versions = \<lparr>
     ft_ev = ev, ft_exists = there, ft_stamp = stamp, ft_gitignore = False, ft_written = None, ft_stamp_writes = 0,
     ft_versions = versions, ft_read_keys = [], ft_writes = pw_init, ft_queued = Map.empty, ft_serial = 0,
     ft_access_flushed = Map.empty, ft_compress = packs, ft_default_ttl = ttl, ft_flush_interval = flush_interval,
     ft_flusher = False, ft_initialized = False, ft_unusable = False, ft_orphans_swept = False, ft_stopped = False\<rparr>"

end
