(* ===== verification/File_Values.thy ===== *)
theory File_Values
  imports File_Backend Eviction_Pass
begin

text \<open>
  The values a read may make of the bytes in a folder. \<open>data_values\<close> is what the bytes of one file can be read as,
  whatever chunk files are there, wherever the metadata says they are, and whichever codec it names; so nothing
  that rewrites only the metadata of an entry, or moves its chunks, adds to it. \<open>codec_ok\<close> is what the theorems
  ask of the code outside: pickle, the codecs and the hash.
\<close>

subsection \<open>What is asked of the code outside\<close>

text \<open>Values none of whose out-of-band buffers is as large as a chunk.\<close>

definition small_buffers :: "'v file_codec \<Rightarrow> bool" where
  "small_buffers c = (\<forall>v stream bufs b. fc_split c v = Some (stream, bufs) \<longrightarrow> b \<in> set bufs \<longrightarrow> length b < CHUNK_MIN_BYTES)"

text \<open>Metadata is read back with the checksum it was written with, and bytes that break off are no pickle; a
  value is read back from what it was written as; bytes written as they are do not inflate, bytes a codec
  wrote inflate to what it was given or not at all, and are no pickle; the hash tells keys apart and
  starts with no dot.\<close>

definition codec_ok :: "'v file_codec \<Rightarrow> bool" where
  "codec_ok c = (
     inj (fc_stem c) \<and> (\<forall>key. fc_stem c key \<noteq> [] \<and> hd (fc_stem c key) \<noteq> CHR ''.'') \<and>
     (\<forall>m. \<exists>m'. fc_loads c (fc_dumps c m) = Dict m' \<and> sm_checksum m' = sm_checksum m) \<and>
     (\<forall>m. rejects_torn (fc_loads c) (fc_dumps c m)) \<and>
     (\<forall>v stream bufs. fc_split c v = Some (stream, bufs) \<longrightarrow>
        (if bufs = [] then fc_load c stream = Some v else fc_join c stream (map Some bufs) = Some v)) \<and>
     (\<forall>v b. fc_dump c v = Some b \<longrightarrow> fc_load c b = Some v) \<and>
     (\<forall>v b k. fc_dump c v = Some b \<or> (\<exists>bufs. fc_split c v = Some (b, bufs)) \<longrightarrow> fc_unpack c k b = None) \<and>
     (\<forall>k b. fc_unpack c k (fc_pack c b) \<in> {None, Some b} \<and> fc_load c (fc_pack c b) = None) \<and>
     fc_load c [] = None \<and> (\<forall>k d. fc_unpack c k [] = Some d \<longrightarrow> d = []))"

lemma codec_okD:
  assumes "codec_ok c"
  shows "inj (fc_stem c)" and "fc_stem c key \<noteq> []" and "hd (fc_stem c key) \<noteq> CHR ''.''"
    and "\<exists>m'. fc_loads c (fc_dumps c m) = Dict m' \<and> sm_checksum m' = sm_checksum m" and "rejects_torn (fc_loads c) (fc_dumps c m)"
    and "fc_split c v = Some (stream, []) \<Longrightarrow> fc_load c stream = Some v"
    and "fc_split c v = Some (stream, bufs) \<Longrightarrow> bufs \<noteq> [] \<Longrightarrow> fc_join c stream (map Some bufs) = Some v"
    and "fc_dump c v = Some b \<Longrightarrow> fc_load c b = Some v"
    and "fc_dump c v = Some b \<or> fc_split c v = Some (b, bufs) \<Longrightarrow> fc_unpack c k b = None"
    and "fc_unpack c k (fc_pack c b) = None \<or> fc_unpack c k (fc_pack c b) = Some b" and "fc_load c (fc_pack c b) = None"
    and "fc_load c [] = None" and "fc_unpack c k [] = Some d \<Longrightarrow> d = []"
  using assms unfolding codec_ok_def by (simp_all; blast)+

subsection \<open>What bytes can be read as\<close>

text \<open>The kind of an entry, its checksum and its payload.\<close>

definition entry_body :: "(byte list \<Rightarrow> unpickled) \<Rightarrow> byte list \<Rightarrow> (byte list \<times> crc option \<times> byte list) option" where
  "entry_body loads d = (let head = read_at d 0 HEADER_SIZE in
     if length head < HEADER_SIZE then None
     else let (magic, ml, cap) = header_unpack head in
     if magic \<notin> set MAGICS then None
     else case load_metadata loads (read_at d HEADER_SIZE ml) of
         Inl _ \<Rightarrow> None
       | Inr m \<Rightarrow> Some (magic, sm_checksum m, drop (HEADER_SIZE + cap) d))"

definition reads_payload :: "byte list \<Rightarrow> crc option \<Rightarrow> byte list \<Rightarrow> payload \<Rightarrow> bool" where
  "reads_payload magic crc p payload = (if magic = MAGIC_SPLIT
     then \<exists>env places. snd (read_split env p 0 crc places) = Inr payload else payload = Plain p)"

definition body_values :: "'v file_codec \<Rightarrow> (byte list \<times> crc option \<times> byte list) option \<Rightarrow> 'v set" where
  "body_values c body = {v. \<exists>magic crc p payload codec. body = Some (magic, crc, p) \<and> reads_payload magic crc p payload \<and>
     decode c codec payload = Some v}"

abbreviation data_values :: "'v file_codec \<Rightarrow> byte list \<Rightarrow> 'v set" where
  "data_values c d \<equiv> body_values c (entry_body (fc_loads c) d)"

lemma body_of_head:
  "read_head loads d = Inr (magic, cap, m, crc) \<Longrightarrow> entry_body loads d = Some (magic, crc, drop (HEADER_SIZE + cap) d)"
  by (auto simp: read_head_def entry_body_def Let_def and_then_Inr split: prod.splits if_splits sum.splits)

lemma body_written:
  assumes "header_pack magic (length mb) cap = Some h" and "magic \<in> set MAGICS" and "length mb \<le> cap" and "loads mb = Dict m"
  shows "entry_body loads (h @ mb @ rest) = Some (magic, sm_checksum m, drop (cap - length mb) rest)"
proof -
  have "length h = HEADER_SIZE" by (rule header_pack_cases [OF assms(1) magic_lengths [OF assms(2)]])
  then show ?thesis using body_of_head [OF read_head_written [where loads = loads, OF assms], of rest] assms(3) by simp
qed

text \<open>What a read hands on is among the values of the file.\<close>

lemma read_payload_cases:
  assumes "snd (read_entry_and_checksum loads env d True) = Inr (m, payload, crc)"
  obtains magic p x where "entry_body loads d = Some (magic, crc, p)" and "payload = Some x" and "reads_payload magic crc p x"
proof -
  from assms obtain magic cap m' crc' where head: "read_head loads d = Inr (magic, cap, m', crc')"
    by (auto simp: read_entry_and_checksum_def split: sum.splits)
  note body = body_of_head [OF head]
  show thesis
  proof (cases "magic = MAGIC_SPLIT")
    case True
    obtain dir r where split: "read_split env d (HEADER_SIZE + cap) crc' (sm_places m') = (dir, r)" by (metis surj_pair)
    then obtain x where x: "r = Inr x" "payload = Some x" "crc = crc'"
      using assms head True by (auto simp: read_entry_and_checksum_def split: sum.splits)
    have "HEADER_SIZE + cap \<le> length d"
    proof (rule ccontr)
      assume "\<not> HEADER_SIZE + cap \<le> length d"
      then show False using split x(1)
        by (auto simp: read_split_def read_split_table_def read_exact_def read_at_def split: option.splits)
    qed
    then have "length (take (HEADER_SIZE + cap) d) = HEADER_SIZE + cap" by simp
    from read_split_shift [of env "take (HEADER_SIZE + cap) d" "drop (HEADER_SIZE + cap) d" crc' "sm_places m'"] this split x(1)
    have "snd (read_split env (drop (HEADER_SIZE + cap) d) 0 crc' (sm_places m')) = Inr x"
      by (metis append_take_drop_id snd_conv)
    then show thesis using body x True by (intro that) (auto simp: reads_payload_def)
  next
    case False
    then have "payload = Some (Plain (drop (HEADER_SIZE + cap) d))" "crc = crc'"
      using assms head by (auto simp: read_entry_and_checksum_def and_then_Inr Let_def)
    then show thesis using body False by (intro that) (auto simp: reads_payload_def)
  qed
qed

lemma read_value:
  assumes "snd (read_entry_and_checksum (fc_loads c) env d True) = Inr (m, Some payload, crc)" and "decode c codec payload = Some v"
  shows "v \<in> data_values c d"
proof -
  from assms(1) obtain magic p x where "entry_body (fc_loads c) d = Some (magic, crc, p)" "Some payload = Some x" "reads_payload magic crc p x"
    by (rule read_payload_cases)
  then show ?thesis using assms(2) by (auto simp: body_values_def)
qed

text \<open>Rewriting the metadata in place, and moving the chunks, keep the body.\<close>

lemma update_body:
  assumes "update_metadata_in_place dumps loads d m ident = (d', True)" and "\<And>m. \<exists>m'. loads (dumps m) = Dict m' \<and> sm_checksum m' = sm_checksum m"
  shows "entry_body loads d' = entry_body loads d"
proof -
  obtain magic ml cap where head: "header_unpack (read_at d 0 HEADER_SIZE) = (magic, ml, cap)" by (metis surj_pair)
  from assms(1) head obtain stored crc where load: "load_metadata loads (read_at d HEADER_SIZE ml) = Inr stored" and crc: "sm_checksum stored = Some crc"
    and magic: "magic \<in> set MAGICS" "\<not> length (read_at d 0 HEADER_SIZE) < HEADER_SIZE"
    by (auto simp: update_metadata_in_place_def Let_def split: if_splits sum.splits option.splits)
  define mb where "mb = dumps (m\<lparr>sm_checksum := Some crc, sm_chunks := sm_chunks stored, sm_places := sm_places stored\<rparr>)"
  from assms(1) head load crc magic obtain h where fits: "length mb \<le> cap" and h: "header_pack magic (length mb) cap = Some h"
    and d': "d' = (h @ mb) @ drop (length (h @ mb)) d"
    by (auto simp: update_metadata_in_place_def Let_def mb_def split: if_splits option.splits)
  obtain m' where m': "loads mb = Dict m'" "sm_checksum m' = Some crc"
    using assms(2) [of "m\<lparr>sm_checksum := Some crc, sm_chunks := sm_chunks stored, sm_places := sm_places stored\<rparr>"] by (auto simp: mb_def)
  have "length h = HEADER_SIZE" by (rule header_pack_cases [OF h magic_lengths [OF magic(1)]])
  then have "entry_body loads d' = Some (magic, Some crc, drop (HEADER_SIZE + cap) d)"
    using body_written [where loads = loads, OF h magic(1) fits m'(1), of "drop (length (h @ mb)) d"] m'(2) fits by (simp add: d' add.commute)
  moreover have "entry_body loads d = Some (magic, Some crc, drop (HEADER_SIZE + cap) d)"
    using head load crc magic by (simp add: entry_body_def Let_def)
  ultimately show ?thesis by simp
qed

lemma moved_body:
  assumes "moved_head dumps loads (Some d) old new moved = Some (head, start, ident)" and "read_head loads d = Inr (magic, cap, m, crc)"
    and "\<And>m. \<exists>m'. loads (dumps m) = Dict m' \<and> sm_checksum m' = sm_checksum m"
  shows "entry_body loads (head @ drop start d) = entry_body loads d"
  using assms(1,2)
proof (rule moved_head_Some)
  fix places' h mb
  assume a: "magic = MAGIC_SPLIT" "start = HEADER_SIZE + cap" "length mb \<le> cap" "header_pack magic (length mb) cap = Some h"
    "length h = HEADER_SIZE" "head = h @ mb @ zeros (cap - length mb)"
    "mb = dumps (m\<lparr>sm_checksum := crc, sm_chunks := Some (move_held old new (case sm_chunks m of None \<Rightarrow> [] | Some h \<Rightarrow> h)), sm_places := Some places'\<rparr>)"
  obtain m' where m': "loads mb = Dict m'" "sm_checksum m' = crc" using assms(3) a(7) by force
  have "magic \<in> set MAGICS" using a(1) magics_differ by simp
  from body_written [where loads = loads, OF a(4) this a(3) m'(1), of "zeros (cap - length mb) @ drop start d"] m'(2) a body_of_head [OF assms(2)]
  show ?thesis by simp
qed

subsection \<open>What is written\<close>

lemma packed_body:
  assumes "codec_ok c" and "pack_entry_parts (fc_dumps c) m chunks split None = Some e"
  shows "entry_body (fc_loads c) (whole_file e) = Some (if split then MAGIC_SPLIT else MAGIC, Some (checksum_of chunks), concat chunks)"
  using assms(2)
proof (rule pack_entry_parts_Some)
  fix crc mb cap h
  assume a: "crc = (case None of None \<Rightarrow> checksum_of chunks | Some c \<Rightarrow> c)" "mb = fc_dumps c (m\<lparr>sm_checksum := Some crc\<rparr>)"
    "cap = length mb + META_SLACK + (if split then split_pad (HEADER_SIZE + length mb + META_SLACK) else 0)"
    "header_pack (if split then MAGIC_SPLIT else MAGIC) (length mb) cap = Some h"
    "e = \<lparr>pe_head = h @ mb @ zeros (cap - length mb), pe_chunks = chunks, pe_checksum = crc, pe_size = HEADER_SIZE + cap + length (concat chunks)\<rparr>"
  obtain m' where m': "fc_loads c mb = Dict m'" "sm_checksum m' = Some crc"
    using codec_okD(4) [OF assms(1), of "m\<lparr>sm_checksum := Some crc\<rparr>"] a(2) by auto
  have magic: "(if split then MAGIC_SPLIT else MAGIC) \<in> set MAGICS" using magics_differ by simp
  have "length mb \<le> cap" using a(3) by simp
  from body_written [where loads = "fc_loads c", OF a(4) magic this m'(1), of "zeros (cap - length mb) @ concat chunks"] m'(2) a(1,5)
  show ?thesis by (simp add: whole_file_def)
qed

text \<open>A split payload none of whose buffers is apart reads as its stream and buffers, whatever chunks there are.\<close>

lemma split_payload_reads:
  assumes "split_chunks stream bufs [] = Some chunks"
  shows "read_split env (concat chunks) 0 (Some (checksum_of chunks)) places = (re_dir env, Inr (SplitPayload stream (map Some bufs)))"
proof -
  from assms obtain table where table: "split_table stream bufs [] = Some table"
    and chunks: "chunks = (table @ zeros (split_pad (length table))) # stream
      # split_tail [] 0 (length table + split_pad (length table) + length stream) bufs"
    by (auto simp: split_chunks_def Let_def split: option.splits)
  let ?off = "length table + split_pad (length table) + length stream"
  let ?rest = "zeros (split_pad (length table)) @ stream @ concat (split_tail [] 0 ?off bufs)"
  have p: "concat chunks = table @ ?rest" using chunks by simp
  obtain raws where read: "read_split_table (table @ ?rest) 0 = Inr (length stream, map length bufs, [], length table, raws)"
    using read_split_table_written [OF table, of ?rest "[]"] by (auto simp: layout_tail)
  have "map_buffers (table @ ?rest) [] 0 ?off (map length bufs) = map Some bufs"
    using map_buffers_tail [of "table @ zeros (split_pad (length table)) @ stream" ?off "[]" 0 bufs] by (simp add: inline_none)
  then show ?thesis using read
    by (simp add: p checksum_of_concat read_split_eq map_split_def Let_def read_apart_def)
qed

text \<open>The values written bytes can be read as. A value with a buffer as large as a chunk is not followed.\<close>

definition ser_values :: "'v file_codec \<Rightarrow> serialized \<Rightarrow> 'v set" where
  "ser_values c ser = (case ser of
       Stream b \<Rightarrow> {v. \<exists>codec x. x \<in> {b, fc_pack c b} \<and> decode c codec (Plain x) = Some v}
     | Parts stream bufs \<Rightarrow> if \<exists>b \<in> set bufs. CHUNK_MIN_BYTES \<le> length b then UNIV
         else {v. \<exists>codec. decode c codec (SplitPayload stream (map Some bufs)) = Some v})"

lemma plain_values:
  assumes "codec_ok c" and "pack_entry_parts (fc_dumps c) m [b] False None = Some e"
  shows "data_values c (whole_file e) = {v. \<exists>codec. decode c codec (Plain b) = Some v}"
  using packed_body [OF assms] magics_differ by (auto simp: body_values_def reads_payload_def)

lemma split_values:
  assumes "codec_ok c" and "split_chunks stream bufs [] = Some chunks" and "pack_entry_parts (fc_dumps c) m chunks True None = Some e"
  shows "data_values c (whole_file e) = {v. \<exists>codec. decode c codec (SplitPayload stream (map Some bufs)) = Some v}"
  using packed_body [OF assms(1,3)] split_payload_reads [OF assms(2)] by (auto simp: body_values_def reads_payload_def)

lemma decompress_unpack: "decompress z u k b = Inr d \<Longrightarrow> u k b = Some d"
  by (auto simp: decompress_def split: codec.splits if_splits option.splits)

lemma serialize_values:
  assumes "codec_ok c" and "small_buffers c" and "serialize c packs pickled v = Some ser"
  shows "ser_values c ser \<subseteq> {v}"
proof -
  note ok = codec_okD [OF assms(1)]
  have raw: "u = v" if "fc_load c b = Some v" "\<And>k. fc_unpack c k b = None" "x \<in> {b, fc_pack c b}" "decode c codec (Plain x) = Some u" for b x codec u
  proof (cases codec)
    case None
    then show ?thesis using that ok(11) [of b] by (auto simp: decode_def)
  next
    case (Some k)
    have "\<exists>d. fc_unpack c k x = Some d \<and> fc_load c d = Some u"
      using that(4) Some by (auto simp: decode_def split: sum.splits dest!: decompress_unpack)
    then show ?thesis using that(1-3) ok(10) [of k b] by auto
  qed
  show ?thesis
  proof (cases ser)
    case (Stream b)
    have "fc_load c b = Some v" "fc_unpack c k b = None" for k
      using assms(3) Stream ok(6) [of v b] ok(8) [of v b] ok(9) [of v b "[]"]
      by (auto simp: serialize_def split: if_splits)
    then show ?thesis using raw [of b] Stream by (auto simp: ser_values_def)
  next
    case (Parts stream bufs)
    then have "fc_split c v = Some (stream, bufs)" "bufs \<noteq> []" using assms(3) by (auto simp: serialize_def split: if_splits)
    moreover from this have "\<not> (\<exists>b \<in> set bufs. CHUNK_MIN_BYTES \<le> length b)" using assms(2) by (auto simp: small_buffers_def not_le)
    ultimately show ?thesis using ok(7) [of v stream bufs] Parts
      by (auto simp: ser_values_def decode_def split: option.splits)
  qed
qed

text \<open>An entry without a payload is read as nothing.\<close>

lemma metadata_only_values:
  assumes "codec_ok c" and "pack_entry_parts (fc_dumps c) m [[]] False None = Some e"
  shows "data_values c (whole_file e) = {}"
proof -
  have "decode c codec (Plain []) = None" for codec
    using codec_okD(12,13) [OF assms(1)]
    by (cases codec) (auto simp: decode_def split: sum.splits dest!: decompress_unpack)
  then show ?thesis using plain_values [OF assms] by simp
qed

text \<open>What a failed write leaves behind is read as nothing the whole entry is not read as.\<close>

lemma headless_body:
  assumes "HEADER_SIZE \<le> length (job_head j)" shows "entry_body loads (headless j n) = None"
proof (cases "n = 0")
  case False
  have "take 4 (headless j n) = [0, 0, 0, 0]" using assms False
    by (simp add: headless_def zeros_def HEADER_SIZE_def numeral_eq_Suc)
  then have "fst (header_unpack (read_at (headless j n) 0 HEADER_SIZE)) \<notin> set MAGICS"
    by (simp add: header_unpack_def read_at_def HEADER_SIZE_def MAGICS_def MAGIC_def MAGIC_SPLIT_def)
  then show ?thesis by (auto simp: entry_body_def Let_def split: prod.splits)
qed (simp add: headless_def entry_body_def read_at_def HEADER_SIZE_def)

lemma finished_body:
  assumes head: "job_head j = h @ mb @ zeros (cap - length mb)" and h: "length h = HEADER_SIZE" "header_unpack h = (magic, length mb, cap)"
    and "HEADER_SIZE + length mb \<le> n" and "length mb \<le> cap" and "n \<le> length (job_head j)"
  shows "entry_body loads (heading j n) = entry_body loads (job_head j @ job_payload j)"
proof -
  have same: "entry_body loads (h @ mb @ x) = entry_body loads (h @ mb @ y)" if "drop (cap - length mb) x = drop (cap - length mb) y" for x y
  proof -
    have "drop (HEADER_SIZE + cap) (h @ mb @ z) = drop (cap - length mb) z" for z using h(1) assms(5) by simp
    then show ?thesis using h that by (simp add: entry_body_def read_at_def split: sum.split)
  qed
  have "\<exists>x. heading j n = h @ mb @ x \<and> drop (cap - length mb) x = job_payload j"
  proof (cases "job_payload j = []")
    case True
    then show ?thesis using assms(4) head h(1) by (simp add: heading_def headless_def)
  next
    case False
    then have "heading j n = h @ mb @ (take (n - HEADER_SIZE - length mb) (zeros (cap - length mb)) @ drop n (zeros (length (job_head j)) @ job_payload j))"
      using assms(4) head h(1) by (auto simp: heading_def headless_def)
    moreover have "drop (cap - length mb) (take (n - HEADER_SIZE - length mb) (zeros (cap - length mb)) @ drop n (zeros (length (job_head j)) @ job_payload j)) = job_payload j"
      using assms(4,5,6) head h(1) by (simp add: zeros_def)
    ultimately show ?thesis by blast
  qed
  then show ?thesis using same head by auto
qed

lemma partial_values:
  assumes "codec_ok c" and "pack_entry_parts (fc_dumps c) m chunks split None = Some e" and "k \<le> length (whole_file e)"
  shows "data_values c (partial_file e k) \<subseteq> data_values c (whole_file e)"
proof -
  let ?j = "\<lparr>jb_path = [], jb_entry = e\<rparr>"
  from assms(2) obtain crc mb cap h where mb: "mb = fc_dumps c (m\<lparr>sm_checksum := Some crc\<rparr>)"
    and cap: "cap = length mb + META_SLACK + (if split then split_pad (HEADER_SIZE + length mb + META_SLACK) else 0)"
    and h: "header_pack (if split then MAGIC_SPLIT else MAGIC) (length mb) cap = Some h" "length h = HEADER_SIZE"
    and e: "job_head ?j = h @ mb @ zeros (cap - length mb)"
    by (rule pack_entry_parts_Some) auto
  have u: "header_unpack h = (if split then MAGIC_SPLIT else MAGIC, length mb, cap)"
    using header_pack_cases(2) [OF h(1)] magic_lengths magics_differ by auto
  consider (headless) n where "partial_file e k = headless ?j n" | (heading) n where "partial_file e k = heading ?j n" "n \<le> length (job_head ?j)"
    using assms(3) by (cases "k \<le> length (job_payload ?j)") (auto simp: partial_file_def Let_def whole_file_def)
  then show ?thesis
  proof cases
    case (headless n)
    have "HEADER_SIZE \<le> length (job_head ?j)" using e h(2) by simp
    from headless_body [OF this, of "fc_loads c" n] show ?thesis unfolding headless by (simp add: body_values_def)
  next
    case (heading n)
    show ?thesis
    proof (cases "n < HEADER_SIZE + length mb")
      case True
      have "entry_body (fc_loads c) (heading ?j n) = None"
        using torn_metadata [OF e h(2) u codec_okD(5) [OF assms(1), of "m\<lparr>sm_checksum := Some crc\<rparr>", folded mb] True]
        by (fastforce simp: entry_body_def Let_def load_metadata_def split: unpickled.splits prod.splits)
      then show ?thesis unfolding heading(1) by (simp add: body_values_def)
    next
      case False
      then show ?thesis unfolding heading(1) using finished_body [OF e h(2) u, of n] cap heading(2) by (simp add: whole_file_def)
    qed
  qed
qed

end
