(* ===== verification/File_Folder.thy ===== *)
theory File_Folder
  imports File_Values
begin

text \<open>
  What is done to a folder of entries, in terms of the values a read may make of it: the chunk store, which
  moves chunks between packs and rewrites the entries that hold them, the evictor, the stamp and the sweep of temporary
  files only take values away; a write adds those of what it writes, under its own name.
\<close>

subsection \<open>The chunk store\<close>

named_theorems entries_simps

definition store_values :: "'v file_codec \<Rightarrow> chunk_store \<Rightarrow> string \<Rightarrow> 'v set" where
  "store_values c cs stem = (case cs_entries cs stem of None \<Rightarrow> {} | Some d \<Rightarrow> data_values c d)"

definition keeps_entries :: "'v file_codec \<Rightarrow> chunk_store \<Rightarrow> chunk_store \<Rightarrow> bool" where
  "keeps_entries c cs cs' = (\<forall>stem. store_values c cs' stem \<subseteq> store_values c cs stem)"

definition own_env :: "'v file_codec \<Rightarrow> chunk_env \<Rightarrow> bool" where
  "own_env c w = (ce_dumps w = fc_dumps c \<and> ce_loads w = fc_loads c \<and> ce_landed w = (\<lambda>_. None))"

lemma keeps_entries_trans: "keeps_entries c a b \<Longrightarrow> keeps_entries c b d \<Longrightarrow> keeps_entries c a d"
  unfolding keeps_entries_def by blast

lemma keeps_entries_same: "cs_entries cs' = cs_entries cs \<Longrightarrow> keeps_entries c cs cs'"
  by (simp add: keeps_entries_def store_values_def)

lemma keeps_entries_cong: "keeps_entries c cs cs1 \<Longrightarrow> cs_entries cs2 = cs_entries cs1 \<Longrightarrow> keeps_entries c cs cs2"
  by (simp add: keeps_entries_def store_values_def)

lemma step_entries [entries_simps]:
  "cs_entries (remove_file name cs) = cs_entries cs" "cs_entries (write_file now name data cs) = cs_entries cs"
  "cs_entries (touch_file now name cs) = cs_entries cs" "cs_entries (note_own name cs) = cs_entries cs"
  "cs_entries (pend name cs) = cs_entries cs" "cs_entries (forget name cs) = cs_entries cs"
  "cs_entries (learn name placed cs) = cs_entries cs" "cs_entries (set_holder stem names before cs) = cs_entries cs"
  "cs_entries (set_placed stem places cs) = cs_entries cs"
  by (simp_all add: remove_file_def write_file_def touch_file_def note_own_def pend_def forget_def learn_def set_holder_def set_placed_def
      Let_def split: option.split)

lemma unpend_entries [entries_simps]: "cs_entries (unpend names cs) = cs_entries cs"
  by (induction names cs rule: unpend.induct) simp_all

lemma trimmed_entries: "trimmed cs cs' \<Longrightarrow> cs_entries cs' = cs_entries cs"
  by (simp add: trimmed_def)

lemmas swept_entries [entries_simps] = trimmed_entries [OF sweep_trimmed] trimmed_entries [OF drop_trimmed]

lemma learned_entries [entries_simps]: "cs_entries (foldl (\<lambda>cs (name, chunks). learn name chunks cs) cs xs) = cs_entries cs"
  by (induction xs arbitrary: cs) (simp_all add: entries_simps split_def)

lemma indexed_entries [entries_simps]: "cs_entries (foldl (index_entry w) cs xs) = cs_entries cs"
  by (induction xs arbitrary: cs) (simp_all add: index_entry_def entries_simps split_def)

lemma ensure_index_entries [entries_simps]: "cs_entries (fst (ensure_index w cs)) = cs_entries cs"
  by (simp add: ensure_index_def sweep_orphans_def entries_simps Let_def)

lemma drop_unheld_entries [entries_simps]: "cs_entries (fst (drop_unheld w names cs)) = cs_entries cs"
  by (simp add: drop_unheld_def entries_simps split_def Let_def)

lemma abandon_entries [entries_simps]: "cs_entries (fst (abandon w held cs)) = cs_entries cs"
  by (simp add: abandon_def entries_simps)

lemma hold_entries [entries_simps]:
  "cs_entries (fst (hold_stored w name cs)) = cs_entries cs" "cs_entries (fst (reuse w name nbytes cs)) = cs_entries cs"
  "cs_entries (fst (write_pack w fresh cs)) = cs_entries cs"
  by (simp_all add: hold_stored_def reuse_def write_pack_def entries_simps Let_def split: option.split)

lemma hold_chunk_entries [entries_simps]: "cs_entries (fst (hold_chunk w name nbytes cs)) = cs_entries cs"
  by (simp add: hold_chunk_def entries_simps split_def split: option.split)

lemma use_entries [entries_simps]:
  "cs_entries (fst (use_place w p g cs)) = cs_entries cs" "cs_entries (fst (use_chunk w name nbytes g cs)) = cs_entries cs"
  by (simp_all add: use_place_def use_chunk_def entries_simps split_def Let_def split: option.split)

lemma gather_entries [entries_simps]: "cs_entries (fst (gather w i view d g cs)) = cs_entries cs"
  by (simp add: gather_def entries_simps split_def Let_def split: option.split)

lemma gather_all_entries [entries_simps]: "cs_entries (fst (gather_all w i views g cs)) = cs_entries cs"
  by (induction w i views g cs rule: gather_all.induct) (auto simp: entries_simps split_def Let_def)

lemma put_all_entries [entries_simps]: "cs_entries (fst (put_all w views cs)) = cs_entries cs"
  by (simp add: put_all_def entries_simps Let_def split_def split: option.split)

lemma claim_entries [entries_simps]: "cs_entries (fst (claim w name cs)) = cs_entries cs"
  by (simp add: claim_def entries_simps Let_def split: option.split)

text \<open>Moving an entry's chunks keeps the body of the entry.\<close>

lemma identity_head:
  assumes "identity_at loads env (Some d) = Some ident"
  obtains magic cap m crc where "read_head loads d = Inr (magic, cap, m, crc)"
  using assms by (auto simp: identity_at_def read_entry_and_checksum_def split: sum.splits)

lemma repoint_keeps:
  assumes "codec_ok c" and "own_env c w"
  shows "keeps_entries c cs (fst (repoint w stem old new planned placed cs))"
proof (cases "moved_head (ce_dumps w) (ce_loads w) (cs_entries cs stem) old new planned")
  case None
  then show ?thesis by (simp add: repoint_def keeps_entries_same)
next
  case (Some x)
  then obtain head start ident where moved: "moved_head (fc_dumps c) (fc_loads c) (cs_entries cs stem) old new planned = Some (head, start, ident)"
    using assms(2) by (cases x) (simp add: own_env_def)
  then obtain d where d: "cs_entries cs stem = Some d" by (cases "cs_entries cs stem") (simp_all add: moved_head_def)
  let ?swap = "swap_if_same (ce_loads w) (entry_env w cs) (Some d) (ce_landed w stem) (head @ drop start d) ident"
  have "fst ?swap = Some d \<or> fst ?swap = Some (head @ drop start d) \<and> entry_body (fc_loads c) (head @ drop start d) = entry_body (fc_loads c) d"
  proof (cases "identity_at (fc_loads c) (entry_env w cs) (Some d) = Some ident")
    case True
    then obtain magic cap m crc where "read_head (fc_loads c) d = Inr (magic, cap, m, crc)" by (rule identity_head)
    from moved_body [OF moved [unfolded d] this codec_okD(4) [OF assms(1)]] True assms(2)
    show ?thesis by (simp add: swap_if_same_def own_env_def)
  next
    case False
    with assms(2) show ?thesis by (simp add: swap_if_same_def own_env_def)
  qed
  then have "keeps_entries c cs (cs\<lparr>cs_entries := (cs_entries cs)(stem := fst ?swap)\<rparr>)"
    using d by (auto simp: keeps_entries_def store_values_def)
  moreover have "cs_entries (fst (repoint w stem old new planned placed cs)) \<in> {cs_entries cs, (cs_entries cs)(stem := fst ?swap)}"
    using moved d assms(2) by (auto simp: repoint_def own_env_def entries_simps Let_def split_def)
  ultimately show ?thesis using keeps_entries_same [of _ cs c] keeps_entries_cong by fastforce
qed

lemma repoint_all_keeps:
  assumes "codec_ok c" and "own_env c w"
  shows "keeps_entries c cs (fst (repoint_all w stems old new planned placed cs))"
proof (induction stems arbitrary: cs)
  case (Cons stem stems)
  from keeps_entries_trans [OF repoint_keeps [OF assms] Cons.IH] show ?case by (simp add: Let_def split_def)
qed (simp add: keeps_entries_same)

lemma rewrite_pack_keeps:
  assumes "codec_ok c" and "own_env c w"
  shows "keeps_entries c cs (fst (rewrite_pack w name new_name live holders cs))"
proof -
  have same: "keeps_entries c cs cs'" if "keeps_entries c (fst (write_pack w fresh cs)) cs''" "cs_entries cs' = cs_entries cs''" for cs' cs'' fresh
    using that hold_entries(3) [of w fresh cs] by (simp add: keeps_entries_def store_values_def)
  note moved = repoint_all_keeps [OF assms]
  show ?thesis
    unfolding rewrite_pack_def
    by (auto simp: Let_def split_def entries_simps intro: keeps_entries_same same [OF moved] split: sum.split option.split)
qed

lemma compact_one_keeps:
  assumes "codec_ok c" and "own_env c w"
  shows "keeps_entries c cs (fst (compact_one w name cs))"
proof -
  note moved = rewrite_pack_keeps [OF assms, of "fst (claim w name cs)"]
  have "keeps_entries c cs cs'" if "keeps_entries c (fst (claim w name cs)) cs''" "cs_entries cs' = cs_entries cs''" for cs' cs''
    using that claim_entries [of w name cs] by (simp add: keeps_entries_def store_values_def)
  from this [OF moved] show ?thesis
    by (auto simp: compact_one_def Let_def split_def entries_simps intro: keeps_entries_same split: bool.split)
qed

lemma compact_keeps:
  assumes "codec_ok c" and "own_env c w"
  shows "keeps_entries c cs (fst (compact w names cs))"
proof (induction names arbitrary: cs)
  case (Cons name names)
  from keeps_entries_trans [OF compact_one_keeps [OF assms] Cons.IH] Cons.IH show ?case by (simp add: Let_def split_def)
qed (simp add: keeps_entries_same)

lemma after_compact:
  assumes "codec_ok c" and "own_env c w" and "cs_entries cs' = cs_entries cs"
  shows "keeps_entries c cs (fst (compact w names cs'))"
  using compact_keeps [OF assms(1,2), of cs' names] assms(3) by (simp add: keeps_entries_def store_values_def)

lemma store_ops_keep:
  assumes "codec_ok c" and "own_env c w"
  shows "keeps_entries c cs (fst (commit w stem held replaced places cs))" and "keeps_entries c cs (fst (release w stem held' cs))"
    and "keeps_entries c cs (fst (damaged w pack offset cs))" and "keeps_entries c cs (fst (abandon w held cs))"
    and "keeps_entries c cs (fst (put_all w views cs))"
proof -
  show "keeps_entries c cs (fst (commit w stem held replaced places cs))" "keeps_entries c cs (fst (release w stem held' cs))"
    unfolding commit_def release_def Let_def split_def fst_conv by (rule after_compact [OF assms], simp add: entries_simps)+
  show "keeps_entries c cs (fst (damaged w pack offset cs))" "keeps_entries c cs (fst (abandon w held cs))"
    "keeps_entries c cs (fst (put_all w views cs))"
    by (auto simp: damaged_def Let_def split_def entries_simps intro: keeps_entries_same)
qed

subsection \<open>The folder\<close>

definition vals_at :: "'v file_codec \<Rightarrow> folder \<Rightarrow> string \<Rightarrow> 'v set" where
  "vals_at c fs path = {v. \<exists>f. (path, f) \<in> set fs \<and> v \<in> data_values c (df_data f)}"

text \<open>Of the values of \<open>fs'\<close>, those that are not values of \<open>fs\<close> are among \<open>new\<close>, and under \<open>path\<close>.\<close>

definition adds :: "'v file_codec \<Rightarrow> string \<Rightarrow> 'v set \<Rightarrow> folder \<Rightarrow> folder \<Rightarrow> bool" where
  "adds c path new fs fs' = (\<forall>p. endswith p ENTRY_SUFFIX \<longrightarrow> vals_at c fs' p \<subseteq> vals_at c fs p \<union> (if p = path then new else {}))"

definition shrinks :: "'v file_codec \<Rightarrow> folder \<Rightarrow> folder \<Rightarrow> bool" where
  "shrinks c fs fs' = (\<forall>p. endswith p ENTRY_SUFFIX \<longrightarrow> vals_at c fs' p \<subseteq> vals_at c fs p)"

lemma shrinks_refl [simp]: "shrinks c fs fs"
  by (simp add: shrinks_def)

lemma shrinks_trans: "shrinks c fs fs1 \<Longrightarrow> shrinks c fs1 fs2 \<Longrightarrow> shrinks c fs fs2"
  unfolding shrinks_def by blast

lemma adds_then: "adds c path new fs fs1 \<Longrightarrow> shrinks c fs1 fs2 \<Longrightarrow> adds c path new fs fs2"
  unfolding shrinks_def adds_def by blast

lemma adds_after: "shrinks c fs fs1 \<Longrightarrow> adds c path new fs1 fs2 \<Longrightarrow> adds c path new fs fs2"
  unfolding shrinks_def adds_def by blast

lemma adds_more: "adds c path new fs fs' \<Longrightarrow> new \<subseteq> more_new \<Longrightarrow> adds c path more_new fs fs'"
  unfolding adds_def by (auto split: if_splits)

lemma adds_nothing: "adds c path {} fs fs' = shrinks c fs fs'"
  by (simp add: adds_def shrinks_def)

lemma shrinks_adds: "shrinks c fs fs' \<Longrightarrow> adds c path new fs fs'"
  unfolding adds_def shrinks_def by blast

lemma shrinks_subset: "set fs' \<subseteq> set fs \<Longrightarrow> shrinks c fs fs'"
  unfolding shrinks_def vals_at_def by blast

lemma shrinks_delete: "shrinks c fs (AList.delete path fs)"
  by (rule shrinks_subset) (auto simp: delete_conv' AList.delete_eq)

lemma adds_update: "adds c path (data_values c (df_data f)) fs (AList.update path f fs)"
  using set_update_subset [of path f fs] unfolding adds_def vals_at_def by (auto split: if_splits)

lemma adds_append: "adds c path (data_values c (df_data f)) fs (fs @ [(path, f)])"
  unfolding adds_def vals_at_def by (auto split: if_splits)

lemma not_an_entry:
  assumes "\<not> endswith path ENTRY_SUFFIX"
  shows "adds c path new fs fs' = shrinks c fs fs'"
  using assms unfolding adds_def shrinks_def by auto

lemma stem_suffix: "endswith path ENTRY_SUFFIX \<Longrightarrow> stem_of path @ ENTRY_SUFFIX = path"
  by (simp add: endswith_def stem_of_def cut_end_def) (metis append_take_drop_id)

lemma stem_path: "stem_of (stem @ ENTRY_SUFFIX) = stem" "endswith (stem @ ENTRY_SUFFIX) ENTRY_SUFFIX"
  by (simp_all add: endswith_def stem_of_def cut_end_def)

lemma with_entries_values: "store_values c (with_entries fs cs) stem \<subseteq> vals_at c fs (stem @ ENTRY_SUFFIX)"
  by (auto simp: store_values_def with_entries_def vals_at_def split: option.splits dest: map_of_SomeD)

lemma rewritten_shrinks:
  assumes "keeps_entries c (with_entries fs cs) cs'"
  shows "shrinks c fs (rewritten w cs' fs)"
  unfolding shrinks_def
proof (intro allI impI subsetI)
  fix path v
  assume e: "endswith path ENTRY_SUFFIX" and "v \<in> vals_at c (rewritten w cs' fs) path"
  then obtain f where f: "(path, f) \<in> set fs" "v \<in> data_values c (df_data f) \<or> v \<in> store_values c cs' (stem_of path)"
    by (fastforce simp: vals_at_def rewritten_def store_values_def split: option.splits if_splits)
  then show "v \<in> vals_at c fs path"
    using assms with_entries_values [of c fs cs "stem_of path"] stem_suffix [OF e] by (auto simp: keeps_entries_def vals_at_def)
qed

lemma on_chunks_shrinks:
  assumes "\<And>cs. keeps_entries c cs (fst (f (ee_chunk_env w) cs))"
  shows "shrinks c (fe_files ev) (fe_files (fst (on_chunks w f none ev)))"
  using rewritten_shrinks [OF assms] by (auto simp: on_chunks_def split_def split: option.split)

subsection \<open>The evictor\<close>

definition own_evict_env :: "'v file_codec \<Rightarrow> evict_env \<Rightarrow> bool" where
  "own_evict_env c w = (codec_ok c \<and> own_env c (ee_chunk_env w))"

lemma remove_path_shrinks:
  assumes "own_evict_env c w"
  shows "shrinks c (fe_files ev) (fe_files (fst (remove_path w path key ev)))"
  using shrinks_trans [OF shrinks_delete rewritten_shrinks [OF store_ops_keep(2)]] assms shrinks_delete [of c "fe_files ev" path]
  by (auto simp: remove_path_def own_evict_env_def Let_def split_def split: option.split)

definition shrunk :: "'v file_codec \<Rightarrow> evict_env \<Rightarrow> folder \<Rightarrow> evict_pass \<Rightarrow> evictor \<Rightarrow> bool" where
  "shrunk c w fs p ev = (own_evict_env c w \<longrightarrow> shrinks c fs (fe_files ev))"

interpretation shrunk_pass: pass_invariant w "shrunk c w fs" for c w fs
proof
  fix p ev ev1 x ev' p' ok
  assume s: "shrunk c w fs p ev" and pop: "pop_candidate ev = (ev1, Some x)" and cand: "evict_candidate w x p ev1 = (ev', p', ok)"
  obtain path sz ranked_at prio where x: "x = (path, sz, ranked_at, prio)" by (cases x)
  have s1: "shrunk c w fs p ev1" using s pop_same(1) [OF pop] by (simp add: shrunk_def)
  from cand [unfolded x] show "shrunk c w fs p' ev'"
  proof (cases rule: evict_candidate_cases)
    case kept
    with s1 show ?thesis by (simp add: shrunk_def)
  next
    case (taken ev3 freed)
    then have "own_evict_env c w \<Longrightarrow> shrinks c (fe_files ev1) (fe_files ev')"
      using remove_path_shrinks [of c w ev1 path "key_for path (fe_touched ev1)"] by auto
    with s1 show ?thesis unfolding shrunk_def using shrinks_trans by blast
  qed
qed (simp add: shrunk_def)

lemma evict_shrinks:
  assumes "own_evict_env c w"
  shows "shrinks c (fe_files ev) (fe_files (fst (evict w ev)))"
proof -
  let ?ev = "refresh_adaptive_cap w False (ensure_size_scanned w ev)"
  have files: "fe_files ?ev = fe_files ev" "fe_files (index_chunks w ?ev) = fe_files ?ev"
    by (simp_all add: index_chunks_def refresh_adaptive_cap_def ensure_size_scanned_def announce_budget_def Let_def split_def split: option.split)
  obtain ev1 p ok where run: "evict_loop w (target_of ?ev) False pass_start (index_chunks w ?ev) = (ev1, p, ok)"
    by (cases "evict_loop w (target_of ?ev) False pass_start (index_chunks w ?ev)")
  have "shrunk c w (fe_files ev) pass_start (index_chunks w ?ev)" using files by (simp add: shrunk_def)
  from shrunk_pass.loop_keeps [OF refl this run] have "shrinks c (fe_files ev) (fe_files ev1)" using assms by (simp add: shrunk_def)
  moreover have "fe_files (finish_pass w p ev1) = fe_files ev1" by (simp add: finish_pass_def report_eviction_def warn_thrash_def Let_def)
  ultimately show ?thesis using run files by (cases ok) (auto simp: evict_def Let_def)
qed

subsection \<open>Writing and sweeping\<close>

lemma part_not_entry: "\<not> endswith (x @ ''.part'') ENTRY_SUFFIX"
  by (auto simp: endswith_def ENTRY_SUFFIX_def)

lemma try_names_shrinks:
  "\<forall>name \<in> set names. \<not> endswith name ENTRY_SUFFIX \<Longrightarrow> try_names w names fs = (fs', r) \<Longrightarrow>
     shrinks c fs fs' \<and> (\<forall>name. r = Inr name \<longrightarrow> name \<in> set names)"
proof (induction names arbitrary: fs)
  case (Cons name names)
  have new: "shrinks c fs (fs @ [(name, \<lparr>df_data = [], df_mtime = de_now w, df_ino = de_fresh_ino w\<rparr>)])"
    using adds_append [of c name "\<lparr>df_data = [], df_mtime = de_now w, df_ino = de_fresh_ino w\<rparr>" fs] Cons.prems(1) by (simp add: not_an_entry)
  consider "\<not> de_writable w" | "map_of fs name \<noteq> None" "try_names w names fs = (fs', r)" | "de_writable w" "map_of fs name = None"
    using Cons.prems(2) by (auto split: if_splits)
  then show ?case
  proof cases
    case 2
    from Cons.IH [OF _ this(2)] Cons.prems(1) show ?thesis by simp
  qed (use Cons.prems(2) new in auto)
qed auto

lemma create_temp_shrinks:
  assumes "create_temp_file w random prefix ''.part'' fs = (fs', r)"
  shows "shrinks c fs fs'" and "r = Inr tmp \<Longrightarrow> \<not> endswith tmp ENTRY_SUFFIX"
proof -
  let ?names = "map (\<lambda>i. prefix @ random i @ ''.part'') [0..<TEMP_NAME_ATTEMPTS]"
  have names: "\<forall>name \<in> set ?names. \<not> endswith name ENTRY_SUFFIX"
    using part_not_entry [of "prefix @ random _"] by auto
  from try_names_shrinks [OF names assms [unfolded create_temp_file_def]] names
  show "shrinks c fs fs'" "r = Inr tmp \<Longrightarrow> \<not> endswith tmp ENTRY_SUFFIX" by blast+
qed

lemma atomic_write_adds: "adds c path (data_values c bs) fs (fst (atomic_write w path bs fs))"
proof -
  obtain fs1 r where tmp: "create_temp_file (ee_dir (fw_evict w)) (fw_random w) (owned_temp_prefix (fw_host w) (fw_pid w)) ''.part'' fs = (fs1, r)"
    by (metis surj_pair)
  note t1 = create_temp_shrinks(1) [OF tmp, of c] and t2 = create_temp_shrinks(2) [OF tmp]
  show ?thesis
  proof (cases r)
    case (Inl e)
    then show ?thesis using tmp shrinks_adds [OF t1] by (simp add: atomic_write_def)
  next
    case (Inr name)
    have "shrinks c fs (AList.delete name fs1)" by (rule shrinks_trans [OF t1 shrinks_delete])
    then have "adds c path (data_values c bs) fs (AList.update path (new_dir_file d bs) (AList.delete name fs1))" for d
      using adds_after [OF _ adds_update [of c path "new_dir_file d bs"]] by (simp add: new_dir_file_def)
    moreover have "shrinks c fs (AList.update name f fs1)" for f
      using adds_after [OF t1 adds_update [of c name f fs1]] not_an_entry [OF t2 [OF Inr], of c] by simp
    from shrinks_adds [OF this] have "adds c path (data_values c bs) fs (AList.update name f fs1)" for f .
    ultimately show ?thesis using tmp Inr shrinks_adds [OF \<open>shrinks c fs (AList.delete name fs1)\<close>]
      by (auto simp: atomic_write_def Let_def split: option.split)
  qed
qed

lemma write_either_adds:
  assumes "codec_ok c" and "pack_entry_parts (fc_dumps c) m chunks split None = Some e"
  shows "adds c path (data_values c (whole_file e)) fs (fst (write_either w path e fs))"
proof -
  let ?d = "ee_dir (fw_evict w)"
  have "data_values c (partial_file e (min k (length (whole_file e)))) \<subseteq> data_values c (whole_file e)" for k
    by (rule partial_values [OF assms]) simp
  then have "adds c path (data_values c (whole_file e)) fs (fs @ [(path, new_dir_file ?d (partial_file e (min k (length (whole_file e)))))])" for k
    using adds_append [of c path "new_dir_file ?d (partial_file e (min k (length (whole_file e))))" fs] adds_more
    by (simp add: new_dir_file_def) blast
  moreover have "adds c path (data_values c (whole_file e)) fs (fs @ [(path, new_dir_file ?d (whole_file e))])"
    using adds_append [of c path "new_dir_file ?d (whole_file e)" fs] by (simp add: new_dir_file_def)
  ultimately show ?thesis
    using atomic_write_adds [of c path "whole_file e" fs w] shrinks_adds [OF shrinks_refl, of c path "data_values c (whole_file e)" fs]
    by (auto simp: write_either_def write_new_in_place_def Let_def split: option.split)
qed

lemma swept_shrinks: "shrinks c (fe_files (ft_ev s)) (fe_files (ft_ev (sweep_temp_files w s)))"
  by (rule shrinks_subset) (auto simp: sweep_temp_files_def remove_orphan_temp_files_def put_ev_def Let_def)

text \<open>The stamp: it only empties the folder.\<close>

definition folder_of :: "stamp_state \<Rightarrow> folder" where
  "folder_of d = (case cd_files d of None \<Rightarrow> [] | Some fs \<Rightarrow> fs)"

lemma stamp_folders:
  "folder_of (write_stamp w d) = folder_of d" "folder_of (bump w d) = folder_of d" "folder_of (write_gitignore w d) = folder_of d"
  "set (folder_of (check_stamp w d)) \<subseteq> set (folder_of d)" "set (folder_of (dir_state s)) \<subseteq> set (fe_files (ft_ev s))"
  "fe_files (ft_ev (put_dir_state d s)) = folder_of d"
  by (auto simp: folder_of_def write_stamp_def bump_def write_gitignore_def check_stamp_def dir_state_def put_dir_state_def Let_def
      split: option.splits if_splits)

end
