(* ===== verification/File_Contract.thy ===== *)
theory File_Contract
  imports File_Folder Cache_Tier
begin

text \<open>
  The file tier keeps the contract of a cache tier (\<open>cache_tier\<close>): whatever the writes queued, the evictor, the
  chunk store, failing system calls and a folder that is deleted do in between, a read hands out a value stored under that key
  since it was last deleted. What a key holds is what its file can be read as, and the writes of it still queued.
\<close>

subsection \<open>What the tier holds\<close>

definition job_values :: "'v file_codec \<Rightarrow> 'v file_job \<Rightarrow> 'v set" where
  "job_values c j = (case fj_work j of Inl ser \<Rightarrow> ser_values c ser | Inr v \<Rightarrow> {v})"

definition queued_jobs :: "'v file_codec \<Rightarrow> (nat \<times> 'v file_job write_task) list \<Rightarrow> string \<Rightarrow> 'v set" where
  "queued_jobs c ts key = {v. \<exists>f t. (f, t) \<in> set ts \<and> wt_key t = key \<and> v \<in> job_values c (wt_value t)}"

definition files_hold :: "'v file_codec \<Rightarrow> 'v file_tier \<Rightarrow> string \<Rightarrow> 'v set" where
  "files_hold c s key = vals_at c (fe_files (ft_ev s)) (get_path c key)"

definition file_held :: "'v file_codec \<Rightarrow> 'v file_tier \<Rightarrow> string \<Rightarrow> 'v set" where
  "file_held c s key = (if ft_unusable s then {} else files_hold c s key \<union> queued_jobs c (pw_queue (ft_writes s)) key)"

definition file_keeps :: "'v file_codec \<Rightarrow> 'v file_tier \<Rightarrow> 'v file_tier \<Rightarrow> bool" where
  "file_keeps c s s' = (\<forall>key. file_held c s' key \<subseteq> file_held c s key)"

definition codec_good :: "'v file_codec \<Rightarrow> bool" where
  "codec_good c = (codec_ok c \<and> small_buffers c)"

text \<open>A step that leaves the queue alone: it takes values from the folder, or adds those of one key.\<close>

definition steady :: "'v file_codec \<Rightarrow> 'v file_tier \<Rightarrow> 'v file_tier \<Rightarrow> bool" where
  "steady c s s' = (ft_unusable s' = ft_unusable s \<and> ft_writes s' = ft_writes s \<and> shrinks c (fe_files (ft_ev s)) (fe_files (ft_ev s')))"

definition stores_at :: "'v file_codec \<Rightarrow> string \<Rightarrow> 'v set \<Rightarrow> 'v file_tier \<Rightarrow> 'v file_tier \<Rightarrow> bool" where
  "stores_at c key new s s' = (ft_unusable s' = ft_unusable s \<and> ft_writes s' = ft_writes s \<and>
     adds c (get_path c key) new (fe_files (ft_ev s)) (fe_files (ft_ev s')))"

lemma steady_refl [simp]: "steady c s s"
  by (simp add: steady_def)

lemma steady_trans: "steady c s s1 \<Longrightarrow> steady c s1 s2 \<Longrightarrow> steady c s s2"
  unfolding steady_def using shrinks_trans by metis

lemma stores_then: "stores_at c key new s s1 \<Longrightarrow> steady c s1 s2 \<Longrightarrow> stores_at c key new s s2"
  unfolding steady_def stores_at_def using adds_then by metis

lemma stores_after: "steady c s s1 \<Longrightarrow> stores_at c key new s1 s2 \<Longrightarrow> stores_at c key new s s2"
  unfolding steady_def stores_at_def using adds_after by metis

lemma steady_stores: "steady c s s' \<Longrightarrow> stores_at c key new s s'"
  unfolding steady_def stores_at_def using shrinks_adds by metis

lemma stores_more: "stores_at c key new s s' \<Longrightarrow> new \<subseteq> more_new \<Longrightarrow> stores_at c key more_new s s'"
  unfolding stores_at_def using adds_more by metis

lemma stores_nothing: "stores_at c key {} s s' = steady c s s'"
  by (simp add: stores_at_def steady_def adds_nothing)

lemma steady_put: "shrinks c (fe_files (ft_ev s)) (fe_files ev) \<Longrightarrow> steady c s (put_ev ev s)"
  by (simp add: steady_def put_ev_def)

lemma steady_same: "ft_unusable s' = ft_unusable s \<Longrightarrow> ft_writes s' = ft_writes s \<Longrightarrow> fe_files (ft_ev s') = fe_files (ft_ev s) \<Longrightarrow> steady c s s'"
  by (simp add: steady_def)

lemma entry_path: "endswith (get_path c key) ENTRY_SUFFIX"
  by (simp add: get_path_def stem_path)

lemma same_path: "codec_ok c \<Longrightarrow> get_path c k = get_path c key \<longleftrightarrow> k = key"
  using codec_okD(1) [of c] by (auto simp: get_path_def inj_def)

lemma stores_hold:
  assumes "stores_at c key new s s'" and "codec_ok c"
  shows "files_hold c s' k \<subseteq> files_hold c s k \<union> (if k = key then new else {})"
  using assms(1) entry_path [of c k] same_path [OF assms(2), of k key] by (auto simp: stores_at_def adds_def files_hold_def split: if_splits)

lemma steady_holds: "steady c s s' \<Longrightarrow> files_hold c s' k \<subseteq> files_hold c s k"
  using entry_path [of c k] by (simp add: steady_def shrinks_def files_hold_def)

lemma steady_keeps: "steady c s s' \<Longrightarrow> file_keeps c s s'"
  using steady_holds [of c s s'] by (fastforce simp: file_keeps_def file_held_def steady_def)

lemma keeps_reflexive: "file_keeps c s s"
  by (simp add: file_keeps_def)

lemma keeps_transitive: "file_keeps c s s1 \<Longrightarrow> file_keeps c s1 s2 \<Longrightarrow> file_keeps c s s2"
  unfolding file_keeps_def by blast

lemma own_live [simp]: "own_evict_env c (live_env c own s w) = codec_ok c"
  by (simp add: own_evict_env_def own_env_def live_env_def)

subsection \<open>Opening the folder\<close>

lemma put_dir_steady:
  assumes "set (folder_of d) \<subseteq> set (fe_files (ft_ev s))"
  shows "steady c s (put_dir_state d s)"
  using shrinks_subset [OF assms, of c] stamp_folders(6) [of d s] by (simp add: steady_def put_dir_state_def)

lemma make_dir_steady: "steady c s (make_dir d s)"
  unfolding make_dir_def by (auto intro!: put_dir_steady simp: stamp_folders) (simp add: folder_of_def)

lemma check_steady: "steady c s (put_dir_state (check_stamp d (dir_state s)) s)"
  by (rule put_dir_steady) (use stamp_folders(4,5) in blast)

lemma ensure_initialized_keeps:
  shows "file_keeps c s (ensure_initialized n s)" and "ft_writes (ensure_initialized n s) = ft_writes s"
proof -
  have init: "steady c s1 (s1\<lparr>ft_flusher := x, ft_initialized := True\<rparr>)" for s1 x by (simp add: steady_same)
  let ?s = "make_dir (ee_dir (fn_evict n)) s"
  from steady_trans [OF steady_trans [OF make_dir_steady check_steady] init]
  have "steady c s ((put_dir_state (check_stamp (ee_dir (fn_evict n)) (dir_state ?s)) ?s)\<lparr>ft_flusher := x, ft_initialized := True\<rparr>)" for x .
  then show "file_keeps c s (ensure_initialized n s)" "ft_writes (ensure_initialized n s) = ft_writes s"
    using steady_keeps [of c s] by (auto simp: ensure_initialized_def Let_def disable_def file_keeps_def file_held_def steady_def)
qed

subsection \<open>A write\<close>

lemma vanish_steady: "steady c s (vanish s)"
  unfolding vanish_def by (rule put_dir_steady) (simp add: folder_of_def)

lemma stamped_dir_steady: "steady c s (let s = make_dir d s in put_dir_state (write_stamp d (dir_state s)) s)"
proof -
  have "steady c (make_dir d s) (put_dir_state (write_stamp d (dir_state (make_dir d s))) (make_dir d s))"
    by (rule put_dir_steady) (use stamp_folders(1,5) in simp)
  from steady_trans [OF make_dir_steady this] show ?thesis by (simp add: Let_def)
qed

lemma put_entry_file_stores:
  assumes "codec_ok c" and "pack_entry_parts (fc_dumps c) m chunks split None = Some e"
  shows "stores_at c key (data_values c (whole_file e)) s (fst (put_entry_file w (get_path c key) e s))"
proof -
  define s1 where "s1 = (if fw_vanished w then vanish s else s)"
  define s2 where "s2 = (if ft_exists s1 then s1 else let s = make_dir (ee_dir (fw_evict w)) s1 in put_dir_state (write_stamp (ee_dir (fw_evict w)) (dir_state s)) s)"
  have s1: "steady c s s1" unfolding s1_def using vanish_steady [of c s] by simp
  have s2: "steady c s s2" unfolding s2_def using steady_trans [OF s1 stamped_dir_steady] s1 by simp
  have "stores_at c key (data_values c (whole_file e)) s2 (put_ev (fst (on_files (write_either w (get_path c key) e) (ft_ev s2))) s2)"
    using write_either_adds [OF assms, of "get_path c key" "fe_files (ft_ev s2)" w] by (simp add: stores_at_def put_ev_def on_files_def split_def)
  from stores_after [OF s2 this] show ?thesis
    using steady_stores [OF s1] unfolding s2_def by (cases "ft_exists s1") (simp_all add: put_entry_file_def Let_def split_def flip: s1_def)
qed

lemma chunks_steady:
  assumes "\<And>cs. keeps_entries c cs (fst (f (ee_chunk_env w) cs))"
  shows "steady c s (put_ev (fst (on_chunks w f none (ft_ev s))) s)"
  by (rule steady_put, rule on_chunks_shrinks) (rule assms)

lemma live_store:
  assumes "codec_ok c"
  shows "own_env c (ee_chunk_env (live_env c own s w))"
  by (simp add: own_env_def live_env_def)

lemma write_entry_stores:
  assumes "codec_ok c" and "\<And>e. pack_entry_parts (fc_dumps c) m chunks split None = Some e \<Longrightarrow> data_values c (whole_file e) \<subseteq> new"
  shows "stores_at c key new s (fst (write_entry c w key m chunks split held s))"
proof -
  let ?u = "live_env c (Some key) s (fw_evict w)"
  have give_up: "steady c s1 (put_ev (fst (on_chunks ?u (\<lambda>ce. abandon ce held) 0 (ft_ev s1))) s1)" for s1
    by (rule chunks_steady) (rule store_ops_keep(4) [OF assms(1) live_store [OF assms(1)]])
  have commit: "steady c s1 (put_ev (fst (on_chunks ?u (\<lambda>ce. commit ce (fc_stem c key) held replaced (sm_places m)) 0 (ft_ev s1))) s1)" for s1 replaced
    by (rule chunks_steady) (rule store_ops_keep(1) [OF assms(1) live_store [OF assms(1)]])
  show ?thesis
  proof (cases "pack_entry_parts (fc_dumps c) m chunks split None")
    case None
    then show ?thesis using steady_stores [OF give_up] by (simp add: write_entry_def Let_def)
  next
    case (Some e)
    obtain s1 r where put: "put_entry_file w (get_path c key) e s = (s1, r)" by (metis surj_pair)
    have "stores_at c key new s s1"
      using put_entry_file_stores [OF assms(1) Some, of key s w] put stores_more [OF _ assms(2) [OF Some]] by simp
    from stores_then [OF this give_up] stores_then [OF this commit] show ?thesis
      using Some put by (simp add: write_entry_def Let_def split_def split: option.split)
  qed
qed

lemma compressed_bytes: "snd (compress codec pack b) \<in> {b, pack b}"
  by (auto simp: compress_def Let_def)

lemma no_big_buffers: "\<not> (\<exists>b \<in> set bufs. CHUNK_MIN_BYTES \<le> length b) \<Longrightarrow> big_buffers bufs = []"
  by (auto simp: big_buffers_def filter_empty_conv in_set_enumerate_eq)

lemma remembered_files [simp]:
  "fe_files (remember_entry c key m crc st ev) = fe_files ev" "fe_files (note_write key old new ev) = fe_files ev"
  "fe_files (on_touched f ev) = fe_files ev"
  by (simp_all add: remember_entry_def on_touched_def note_write_def Let_def)

lemma ranked_files [simp]: "fe_files (fst (record_rank w key path m sz ev)) = fe_files ev"
  by (auto simp: record_rank_def ensure_clock_def Let_def split_def split: option.split)

lemma finish_write_stores:
  assumes "codec_ok c" and "\<And>e. pack_entry_parts (fc_dumps c) m chunks split None = Some e \<Longrightarrow> data_values c (whole_file e) \<subseteq> new"
  shows "stores_at c key new s (fst (finish_write c w u key m chunks split held added s))"
proof -
  obtain s2 r where wrote: "write_entry c w key m chunks split held s = (s2, r)" by (metis surj_pair)
  then have "stores_at c key new s s2" using write_entry_stores [of c m chunks split new key s w held] assms by simp
  moreover have "steady c s2 (fst (finish_write c w u key m chunks split held added s))"
    using wrote by (auto simp: finish_write_def Let_def split_def intro!: steady_put split: sum.split)
  ultimately show ?thesis by (rule stores_then)
qed

lemma put_big_shrinks:
  assumes "codec_ok c"
  shows "shrinks c (fe_files ev) (fe_files (fst (put_big (live_env c own s w) big ev)))"
proof (cases "big = []")
  case False
  let ?f = "\<lambda>ce. put_all ce (map (\<lambda>(_, b). (b, Some (ce_bulk_digest ce b))) big)" and ?u = "live_env c own s w"
  have "keeps_entries c cs (fst (?f (ee_chunk_env ?u) cs))" for cs by (rule store_ops_keep(5) [OF assms live_store [OF assms]])
  from on_chunks_shrinks [of c ?f ?u ev "Some ([], [], [], 0)", OF this] False show ?thesis by (simp add: put_big_def)
qed (simp add: put_big_def)

lemma write_cache_files_stores:
  assumes "codec_ok c"
  shows "stores_at c key (ser_values c ser) s (fst (write_cache_files c w key m ser s))"
proof -
  let ?u = "live_env c (Some key) s (fw_evict w)"
  show ?thesis
  proof (cases ser)
    case (Stream b)
    obtain codec b' where b': "(if ft_compress s then compress (CODEC (fc_zstd c)) (fc_pack c) b else (None, b)) = (codec, b')" by (metis surj_pair)
    then have in_b: "b' \<in> {b, fc_pack c b}" using compressed_bytes [of "CODEC (fc_zstd c)" "fc_pack c" b] by (auto split: if_splits)
    have "data_values c (whole_file e) \<subseteq> ser_values c ser" if "pack_entry_parts (fc_dumps c) m1 [b'] False None = Some e" for m1 e
      using plain_values [OF assms that] in_b Stream by (auto simp: ser_values_def)
    then have "stores_at c key (ser_values c ser) s (fst (finish_write c w ?u key m1 [b'] False held added s))" for m1 held added by (rule finish_write_stores [OF assms])
    then show ?thesis using b' by (simp add: write_cache_files_def Stream)
  next
    case (Parts stream bufs)
    obtain ev r where big: "put_big ?u (big_buffers bufs) (ft_ev s) = (ev, r)" by (metis surj_pair)
    have ev: "steady c s (put_ev ev s)"
      using put_big_shrinks [OF assms, of "ft_ev s" "Some key" s "fw_evict w" "big_buffers bufs"] big by (intro steady_put) simp
    have "data_values c (whole_file e) \<subseteq> ser_values c ser"
      if "split_chunks stream bufs (refs_of (big_buffers bufs) refs) = Some chunks" "pack_entry_parts (fc_dumps c) m1 chunks True None = Some e"
      for m1 e chunks refs
    proof (cases "\<exists>b \<in> set bufs. CHUNK_MIN_BYTES \<le> length b")
      case True
      then show ?thesis by (simp add: Parts ser_values_def)
    next
      case False
      then have "split_chunks stream bufs [] = Some chunks" using that(1) no_big_buffers [OF False] by (simp add: refs_of_def map_filter_def)
      from split_values [OF assms this that(2)] False show ?thesis by (auto simp: Parts ser_values_def)
    qed
    then have "stores_at c key (ser_values c ser) (put_ev ev s) (fst (finish_write c w ?u key m1 chunks True held added (put_ev ev s)))"
      if "split_chunks stream bufs (refs_of (big_buffers bufs) refs) = Some chunks" for m1 chunks refs held added using that by (intro finish_write_stores [OF assms])
    from stores_after [OF ev this] steady_stores [OF ev] show ?thesis using big
      by (auto simp: write_cache_files_def Parts Let_def split: option.split)
  qed
qed

lemma file_set_sync_stores:
  assumes "codec_good c"
  shows "stores_at c key (job_values c j) s (fst (file_set_sync c w key j s))"
proof (cases "case fj_work j of Inl ser \<Rightarrow> Some ser | Inr v \<Rightarrow> serialize c (ft_compress s) (fj_pickled j) v")
  case None
  then show ?thesis by (simp add: file_set_sync_def steady_stores)
next
  case (Some ser)
  have ok: "codec_ok c" using assms by (simp add: codec_good_def)
  have new: "ser_values c ser \<subseteq> job_values c j"
    using Some serialize_values [of c _ _ _ ser] assms by (auto simp: job_values_def codec_good_def split: sum.splits)
  obtain s1 r where wrote: "write_cache_files c w key (fj_meta j) ser (sweep_temp_files w s) = (s1, r)" by (metis surj_pair)
  have "steady c s (sweep_temp_files w s)"
    using swept_shrinks [of c s w] by (auto simp: steady_def sweep_temp_files_def put_ev_def Let_def)
  then have "stores_at c key (ser_values c ser) s s1"
    using stores_after write_cache_files_stores [OF ok, of key ser "sweep_temp_files w s" w "fj_meta j"] wrote by (metis fst_conv)
  then have s1: "stores_at c key (job_values c j) s s1" using new by (rule stores_more)
  have "steady c s1 (put_ev (fst (evict (live_env c (Some key) s1 (fw_evict w)) (ft_ev s1))) s1)"
    by (rule steady_put, rule evict_shrinks) (simp add: ok)
  from s1 stores_then [OF s1 this] Some wrote show ?thesis
    by (auto simp: file_set_sync_def split_def split: option.split)
qed

subsection \<open>The worker\<close>

lemma queued_jobs_tail: "queued_jobs c ((f, t) # ts) key = (if wt_key t = key then job_values c (wt_value t) else {}) \<union> queued_jobs c ts key"
  by (auto simp: queued_jobs_def)

lemma file_round_step:
  assumes "codec_good c" and "pw_running (ft_writes s) = None" and "pw_queue (ft_writes s) = (f, t) # rest"
  shows "\<exists>took how now. ft_writes (file_round c n s) = finish_task took how (start_task now (ft_writes s))"
    and "pw_queue (ft_writes (file_round c n s)) = rest" and "file_keeps c s (file_round c n s)"
    and "ft_unusable (file_round c n s) = ft_unusable s"
proof -
  define w where "w = fn_work n f"
  define s1 where "s1 = put_file_writes (start_task (fw_now w) (ft_writes s)) s"
  obtain s2 how where run: "file_set_sync c w (wt_key t) (wt_value t) s1 = (s2, how)" by (metis surj_pair)
  have st: "stores_at c (wt_key t) (job_values c (wt_value t)) s1 s2" using file_set_sync_stores [OF assms(1)] run by (metis fst_conv)
  define s3 where "s3 = put_file_writes (finish_task (fw_took w) how (ft_writes s2)) s2"
  have round: "file_round c n s = forget_queued (wt_key t) (fj_serial (wt_value t)) s3"
    using assms(3) run by (simp add: file_round_def Let_def s3_def flip: w_def s1_def)
  have fields: "ft_writes (file_round c n s) = ft_writes s3" "ft_ev (file_round c n s) = ft_ev s3" "ft_unusable (file_round c n s) = ft_unusable s3"
    by (simp_all add: round forget_queued_def split: option.split)
  have w3: "ft_writes s3 = finish_task (fw_took w) how (start_task (fw_now w) (ft_writes s))"
    using st by (simp add: s3_def put_file_writes_def stores_at_def s1_def)
  then show "\<exists>took how now. ft_writes (file_round c n s) = finish_task took how (start_task now (ft_writes s))" using fields by auto
  note start = start_task_eq [OF assms(2,3) refl, of "fw_now w"]
  show rest: "pw_queue (ft_writes (file_round c n s)) = rest"
    using finish_task_eq(2) [OF start(1) refl] start(2) w3 fields by simp
  have files: "files_hold c (file_round c n s) k = files_hold c s2 k" "files_hold c s1 k = files_hold c s k" for k
    by (simp_all add: files_hold_def fields s3_def s1_def put_file_writes_def)
  show unusable: "ft_unusable (file_round c n s) = ft_unusable s" using fields st by (simp add: s3_def s1_def put_file_writes_def stores_at_def)
  have ok: "codec_ok c" using assms(1) by (simp add: codec_good_def)
  have "file_held c (file_round c n s) k \<subseteq> file_held c s k" for k
    using stores_hold [OF st ok, of k] queued_jobs_tail [of c f t rest k] unusable
    by (auto simp: file_held_def rest assms(3) files split: if_splits)
  then show "file_keeps c s (file_round c n s)" by (simp add: file_keeps_def)
qed

lemma put_writes_fields [simp]:
  "ft_writes (put_file_writes q s) = q" "ft_ev (put_file_writes q s) = ft_ev s" "ft_unusable (put_file_writes q s) = ft_unusable s"
  by (simp_all add: put_file_writes_def)

lemma put_writes_keeps: "pw_queue q = pw_queue (ft_writes s) \<Longrightarrow> file_keeps c s (put_file_writes q s)"
  by (simp add: file_keeps_def file_held_def files_hold_def)

interpretation file_worker: queue_worker ft_writes put_file_writes "file_round c" "\<lambda>_. codec_good c" "\<lambda>s s'. file_keeps c s s' \<and> ft_unusable s' = ft_unusable s" for c :: "'v file_codec"
proof
  fix s :: "'v file_tier" and f t rest x n
  assume q: "pw_queue (ft_writes s) = (f, t) # rest" and inv: "queue_inv x (ft_writes s)" and good: "codec_good c"
  from file_round_step(1) [OF good queue_invD(1) [OF inv] q, of n]
  show "\<exists>took how now. ft_writes (file_round c n s) = finish_task took how (start_task now (ft_writes s))" .
next
  fix x n and s :: "'v file_tier"
  assume inv: "queue_inv x (ft_writes s)" and good: "codec_good c"
  show "file_keeps c s (file_round c n s) \<and> ft_unusable (file_round c n s) = ft_unusable s"
  proof (cases "pw_queue (ft_writes s)")
    case Nil
    then show ?thesis by (simp add: file_round_def keeps_reflexive)
  next
    case (Cons y rest)
    then obtain f t where "pw_queue (ft_writes s) = (f, t) # rest" by (cases y) simp
    from file_round_step(3,4) [OF good queue_invD(1) [OF inv] this] show ?thesis by blast
  qed
qed (auto simp: keeps_reflexive put_writes_keeps file_round_def intro: keeps_transitive)

end
