(* ===== verification/File_Tier.thy ===== *)
theory File_Tier
  imports File_Contract
begin

text \<open>
  The operations of the file tier against the contract: each keeps the queue in order and hands out
  nothing new, a store adds its own value under its own key, a delete that removes the file and a clear that removes
  every entry leave nothing of it.
\<close>

subsection \<open>Steps that hand out nothing new\<close>

definition file_inv :: "'v file_codec \<Rightarrow> 'v file_tier \<Rightarrow> bool" where
  "file_inv c s = (codec_good c \<and> queue_inv None (ft_writes s))"

definition fine :: "'v file_codec \<Rightarrow> 'v file_tier \<Rightarrow> 'v file_tier \<Rightarrow> bool" where
  "fine c s s' = (file_inv c s' \<and> file_keeps c s s')"

lemma invD:
  assumes "file_inv c s"
  shows "codec_good c" and "codec_ok c" and "queue_inv None (ft_writes s)"
  using assms by (simp_all add: file_inv_def codec_good_def)

lemma fine_refl: "file_inv c s \<Longrightarrow> fine c s s"
  by (simp add: fine_def keeps_reflexive)

lemma fine_inv: "fine c s s' \<Longrightarrow> file_inv c s'"
  by (simp add: fine_def)

lemma fine_trans: "fine c s s1 \<Longrightarrow> fine c s1 s2 \<Longrightarrow> fine c s s2"
  unfolding fine_def using keeps_transitive by blast

lemma steady_inv: "file_inv c s \<Longrightarrow> steady c s s' \<Longrightarrow> file_inv c s'"
  by (simp add: file_inv_def steady_def)

lemma fine_steady: "file_inv c s \<Longrightarrow> steady c s s' \<Longrightarrow> fine c s s'"
  by (simp add: fine_def steady_inv steady_keeps)

lemma fine_then: "fine c s s1 \<Longrightarrow> steady c s1 s2 \<Longrightarrow> fine c s s2"
  using fine_trans fine_steady fine_inv by blast

lemma fine_init: "file_inv c s \<Longrightarrow> fine c s (ensure_initialized n s)"
  by (simp add: fine_def file_inv_def ensure_initialized_keeps)

lemma fine_waits:
  assumes "file_inv c s"
  shows "fine c s (file_wait c n key s)" and "fine c s (file_wait_all c n s)" and "fine c s (file_drain c n key s)"
    and "fine c s (file_meanwhile c n s)" and "not_in_queue key (ft_writes (file_wait c n key s))"
    and "pw_queue (ft_writes (file_wait_all c n s)) = []" and "not_in_queue key (ft_writes (file_drain c n key s))"
    and "ft_unusable (file_wait c n key s) = ft_unusable s" and "ft_unusable (file_wait_all c n s) = ft_unusable s"
  using file_worker.wait_ok [OF invD(3) invD(1), OF assms assms] file_worker.wait_all_ok [OF invD(3) invD(1), OF assms assms]
    file_worker.drain_ok [OF invD(3) invD(1), OF assms assms] file_worker.rounds_ok [OF invD(3) invD(1), OF assms assms] invD(1) [OF assms]
  unfolding fine_def file_inv_def file_wait_def file_wait_all_def file_drain_def file_meanwhile_def by blast+

text \<open>Before an operation goes on, the folder is opened and the key's writes have run.\<close>

lemma opened_wait:
  assumes "file_inv c s" and "s1 = ensure_initialized n s" and "s2 = file_wait c n key s1"
  shows "fine c s s1" and "fine c s s2"
  using fine_init [OF assms(1), of n] fine_trans fine_waits(1) fine_inv unfolding assms(2,3) by blast+

lemma read_file_files [simp]: "fe_files (fst (read_file c w path b ev)) = fe_files ev"
  by (simp add: read_file_def Let_def split_def split: option.split)

lemma put_read: "read_file c w path b (ft_ev s) = (ev, r) \<Longrightarrow> fe_files ev = fe_files (ft_ev s)"
  by (metis fst_conv read_file_files)

lemma put_ev_fields [simp]: "ft_ev (put_ev ev s) = ev" "ft_writes (put_ev ev s) = ft_writes s" "ft_unusable (put_ev ev s) = ft_unusable s"
  by (simp_all add: put_ev_def)

lemma put_ev_steady: "fe_files ev = fe_files (ft_ev s) \<Longrightarrow> steady c s (put_ev ev s)"
  by (simp add: steady_put)

subsection \<open>Removing\<close>

lemma remove_steady:
  assumes "codec_ok c"
  shows "steady c s (put_ev (fst (remove_path (live_env c own s' w) path key (ft_ev s))) s)"
  by (rule steady_put, rule remove_path_shrinks) (simp add: assms)

lemma file_delete_fine:
  assumes "file_inv c s"
  shows "fine c s (file_delete c n key s)"
proof -
  let ?s1 = "ensure_initialized n s" and ?s2 = "file_drain c n key (ensure_initialized n s)"
  have s1: "fine c s ?s1" by (rule fine_init [OF assms])
  have s2: "fine c s ?s2" by (rule fine_trans [OF s1 fine_waits(3) [OF fine_inv [OF s1]]])
  from s1 fine_then [OF s2 remove_steady [OF invD(2) [OF assms]]] show ?thesis by (simp add: file_delete_def Let_def)
qed

lemma no_values: "map_of fs path = None \<Longrightarrow> vals_at c fs path = {}"
  by (force simp: vals_at_def map_of_eq_None_iff)

lemma not_queued_jobs: "not_in_queue key q \<Longrightarrow> queued_jobs c (pw_queue q) key = {}"
  by (auto simp: not_in_queue_def queued_jobs_def)

lemma file_delete_gone:
  assumes "file_inv c s" and "map_of (fe_files (ft_ev (file_delete c n key s))) (get_path c key) = None"
  shows "file_held c (file_delete c n key s) key = {}"
proof (cases "ft_unusable (ensure_initialized n s)")
  case True
  then show ?thesis by (simp add: file_delete_def file_held_def Let_def)
next
  case False
  have "ft_writes (file_delete c n key s) = ft_writes (file_drain c n key (ensure_initialized n s))"
    using False by (simp add: file_delete_def Let_def)
  then show ?thesis
    using not_queued_jobs [OF fine_waits(7) [OF fine_inv [OF fine_init [OF assms(1)]]]] no_values [OF assms(2), of c]
    by (simp add: file_held_def files_hold_def)
qed

lemma delete_all_fine: "file_inv c s \<Longrightarrow> fine c s (delete_all c n keys s)"
proof (induction keys arbitrary: s)
  case (Cons key keys)
  have "fine c s (file_delete c n key s)" by (rule file_delete_fine [OF Cons.prems])
  from fine_trans [OF this Cons.IH [OF fine_inv [OF this]]] show ?case by (simp add: delete_all_def)
qed (simp add: delete_all_def fine_refl)

lemma fold_removed:
  assumes "own_evict_env c u"
  shows "shrinks c (fe_files ev) (fe_files (fold (\<lambda>p ev. fst (remove_path u p None ev)) paths ev))"
proof (induction paths arbitrary: ev)
  case (Cons p paths)
  from shrinks_trans [OF remove_path_shrinks [OF assms] Cons.IH] show ?case by simp
qed simp

lemma remove_damaged_steady:
  assumes "codec_ok c"
  shows "steady c s (remove_damaged c n pack offset path s)"
proof -
  let ?u = "live_env c None s (fn_evict n)"
  obtain ev stems where dm: "on_chunks ?u (\<lambda>ce. damaged ce pack offset) [] (ft_ev s) = (ev, stems)" by (metis surj_pair)
  have "shrinks c (fe_files (ft_ev s)) (fe_files (fst (on_chunks ?u (\<lambda>ce. damaged ce pack offset) [] (ft_ev s))))"
    by (rule on_chunks_shrinks) (rule store_ops_keep(3) [OF assms live_store [OF assms]])
  then have "shrinks c (fe_files (ft_ev s)) (fe_files ev)" unfolding dm by simp
  from shrinks_trans [OF this fold_removed] dm show ?thesis
    by (auto simp: remove_damaged_def Let_def assms intro!: steady_put)
qed

subsection \<open>Reading\<close>

lemma file_get_metadata_fine:
  assumes "file_inv c s"
  shows "fine c s (fst (file_get_metadata c n key s))"
proof -
  define s1 where "s1 = ensure_initialized n s"
  define s2 where "s2 = file_wait c n key s1"
  note ok = opened_wait [OF assms s1_def s2_def]
  obtain ev r where read: "read_file c (live_env c None s2 (fn_evict n)) (get_path c key) False (ft_ev s2) = (ev, r)" by (metis surj_pair)
  have same: "steady c s2 (put_ev ev' s2)" if "fe_files ev' = fe_files ev" for ev'
    using that put_read [OF read] by (intro put_ev_steady) simp
  have "fst (file_get_metadata c n key s) = s1 \<or> steady c s2 (fst (file_get_metadata c n key s))"
    using same read by (auto simp: file_get_metadata_def Let_def simp flip: s1_def s2_def split: sum.split)
  then show ?thesis using ok fine_then by auto
qed

lemma file_peek_metadata_fine: "file_inv c s \<Longrightarrow> fine c s (fst (file_peek_metadata c n key s))"
  using file_get_metadata_fine by (auto simp: file_peek_metadata_def fine_refl split: option.split)

lemma call_refs_fine: "file_inv c s \<Longrightarrow> fine c s (fst (call_refs_of c n keys s))"
proof (induction keys arbitrary: s)
  case (Cons key keys)
  have "fine c s (fst (file_get_metadata c n key s))" by (rule file_get_metadata_fine [OF Cons.prems])
  from fine_trans [OF this Cons.IH [OF fine_inv [OF this]]] show ?case by (simp add: split_def)
qed (simp add: fine_refl)

lemma count_read_steady: "steady c s (count_read key m s)"
  by (rule steady_same) (simp_all add: count_read_def put_ev_def set_held_def ev_note_read_def)

text \<open>What a read decodes is among the values of the key's file.\<close>

lemma map_sum_InrE: "map_sum f id r = Inr x \<Longrightarrow> (r = Inr x \<Longrightarrow> P) \<Longrightarrow> P"
  by (cases r) auto

lemma read_file_value:
  assumes "read_file c w (get_path c key) True (ft_ev s) = (ev, Inr (m, payload, crc))" and "Option.bind payload (decode c codec) = Some v"
  shows "v \<in> files_hold c s key"
proof -
  from assms(2) obtain x where x: "payload = Some x" "decode c codec x = Some v" by (cases payload) auto
  from assms(1) obtain f where f: "map_of (fe_files (ft_ev s)) (get_path c key) = Some f"
    by (auto simp: read_file_def split: option.splits)
  have "\<exists>env. snd (read_entry_and_checksum (fc_loads c) env (df_data f) True) = Inr (m, Some x, crc)"
    using assms(1) f x(1) by (auto simp: read_file_def Let_def split_def split: if_splits elim!: map_sum_InrE)
  then have "v \<in> data_values c (df_data f)" using read_value [OF _ x(2)] by blast
  with f show ?thesis by (auto simp: files_hold_def vals_at_def dest: map_of_SomeD)
qed

lemma serve_entry_fine:
  assumes "file_inv c s" and "serve_entry c n key m payload s = (s', r)"
  shows "fine c s s'" and "r = Some (m', v) \<Longrightarrow> \<exists>codec. Option.bind payload (decode c codec) = Some v"
proof -
  have count: "fine c s (count_read key m' s)" for m' by (rule fine_steady [OF assms(1) count_read_steady])
  have "fine c s (put_ev (set_held key m'' (ft_ev (count_read key m' s))) (count_read key m' s))" for m' m''
    by (rule fine_then [OF count put_ev_steady]) (simp add: set_held_def)
  then show "fine c s s'" using assms fine_refl [OF assms(1)] file_delete_fine [OF assms(1)] count
    by (auto simp: serve_entry_def Let_def split: if_splits option.splits)
  show "r = Some (m', v) \<Longrightarrow> \<exists>codec. Option.bind payload (decode c codec) = Some v"
    using assms(2) by (auto simp: serve_entry_def Let_def split: if_splits option.splits)
qed

lemma file_get_ok:
  assumes "file_inv c s" and "file_get c n key s = (s', r)"
  shows "fine c s s'" and "r = Some (m, v) \<Longrightarrow> v \<in> file_held c s key"
proof -
  define s1 where "s1 = ensure_initialized n s"
  define s2 where "s2 = file_wait c n key s1"
  note ok = opened_wait [OF assms(1) s1_def s2_def] and c = invD(2) [OF assms(1)]
  let ?u = "live_env c None s2 (fn_evict n)" and ?path = "get_path c key"
  have "fine c s s' \<and> (\<forall>m v. r = Some (m, v) \<longrightarrow> v \<in> file_held c s key)"
  proof (cases "ft_unusable s1")
    case True
    then show ?thesis using assms(2) ok(1) by (auto simp: file_get_def Let_def simp flip: s1_def)
  next
    case False
    obtain ev res where read: "read_file c ?u ?path True (ft_ev s2) = (ev, res)" by (metis surj_pair)
    note get = assms(2) [unfolded file_get_def, folded s1_def, unfolded Let_def, folded s2_def, unfolded read]
    have same: "fine c s (put_ev ev' s2)" if "fe_files ev' = fe_files ev" for ev'
      using that put_read [OF read] by (intro fine_then [OF ok(2)] put_ev_steady) simp
    show ?thesis
    proof (cases res)
      case (Inl fail)
      have "fine c s (remove_damaged c n pack offset ?path (put_ev ev s2))" for pack offset
        by (rule fine_then [OF same remove_damaged_steady [OF c]]) simp
      then show ?thesis using get False Inl same by (auto split: read_fail.splits corrupt.splits chunk_error.splits)
    next
      case (Inr x)
      obtain on_disk payload crc where x: "x = (on_disk, payload, crc)" by (cases x)
      obtain m ev' where serve: "serve_entry c n key m payload (put_ev ev' s2) = (s', r)" and ev': "fe_files ev' = fe_files ev"
        using get False Inr x by (auto split: if_splits)
      note s3 = same [OF ev']
      have "fine c s s'" by (rule fine_trans [OF s3 serve_entry_fine(1) [OF fine_inv [OF s3] serve]])
      moreover have "v \<in> file_held c s key" if r: "r = Some (m', v)" for m' v
      proof -
        obtain codec where "Option.bind payload (decode c codec) = Some v" using serve_entry_fine(2) [OF fine_inv [OF s3] serve r] by blast
        from read_file_value [OF read [unfolded Inr x] this] have "v \<in> files_hold c s2 key" .
        moreover have "\<not> ft_unusable s2" using False fine_waits(8) [OF fine_inv [OF ok(1)]] by (simp add: s2_def)
        ultimately have "v \<in> file_held c s2 key" by (simp add: file_held_def)
        then show ?thesis using ok(2) unfolding fine_def file_keeps_def by blast
      qed
      ultimately show ?thesis by blast
    qed
  qed
  then show "fine c s s'" "r = Some (m, v) \<Longrightarrow> v \<in> file_held c s key" by blast+
qed

subsection \<open>Storing\<close>

text \<open>What is held afterwards and was not before is \<open>new\<close>, under \<open>key\<close>.\<close>

definition gains :: "'v file_codec \<Rightarrow> string \<Rightarrow> 'v set \<Rightarrow> 'v file_tier \<Rightarrow> 'v file_tier \<Rightarrow> bool" where
  "gains c key new s s' = (file_inv c s' \<and> (\<forall>k. file_held c s' k \<subseteq> file_held c s k \<union> (if k = key then new else {})))"

lemma fine_gains: "fine c s s' \<Longrightarrow> gains c key new s s'"
  unfolding fine_def gains_def file_keeps_def by blast

lemma gains_then: "gains c key new s s1 \<Longrightarrow> fine c s1 s2 \<Longrightarrow> gains c key new s s2"
  unfolding fine_def gains_def file_keeps_def by blast

lemma gains_after: "fine c s s1 \<Longrightarrow> gains c key new s1 s2 \<Longrightarrow> gains c key new s s2"
  unfolding fine_def gains_def file_keeps_def by blast

lemma gains_inv: "gains c key new s s' \<Longrightarrow> file_inv c s'"
  by (simp add: gains_def)

lemma gains_more: "gains c key new s s' \<Longrightarrow> new \<subseteq> more_new \<Longrightarrow> gains c key more_new s s'"
  unfolding gains_def by (auto split: if_splits)

lemma stores_gains:
  assumes "file_inv c s" and "stores_at c key new s s'"
  shows "gains c key new s s'"
proof -
  have "file_held c s' k \<subseteq> file_held c s k \<union> (if k = key then new else {})" for k
    using stores_hold [OF assms(2) invD(2) [OF assms(1)], of k] assms(2) by (auto simp: file_held_def stores_at_def)
  then show ?thesis using assms by (simp add: gains_def file_inv_def stores_at_def)
qed

lemma queued_jobs_added: "queued_jobs c (ts @ [(f, t)]) k = queued_jobs c ts k \<union> (if k = wt_key t then job_values c (wt_value t) else {})"
  by (auto simp: queued_jobs_def)

lemma queued_gains:
  assumes "file_inv c s" and "queue_inv None q" and "pw_queue q = pw_queue (ft_writes s) @ [(f, \<lparr>wt_key = key, wt_value = j, wt_bytes = nb\<rparr>)]"
  shows "gains c key (job_values c j) s (put_file_writes q s)"
  using assms by (auto simp: gains_def file_inv_def file_held_def files_hold_def queued_jobs_added split: if_splits)

lemma file_submit_gains:
  assumes "file_inv c s" and "file_submit c n key nbytes copied j s = (s', r)"
  shows "gains c key (job_values c j) s s'"
proof -
  let ?run = "\<lambda>s. case file_set_sync c (fn_own n) key j s of (s, how) \<Rightarrow> (s, how, fw_took (fn_own n))"
  have stored: "stores_at c key (job_values c j) s s'" if "?run s = (s', how, took)" for s s' how took
    using that file_set_sync_stores [OF invD(1) [OF assms(1)], of key j s "fn_own n"] by (auto split: prod.splits)
  have same: "ft_writes s' = ft_writes s" if "?run s = (s', how, took)" for s s' how took
    using stored [OF that] by (simp add: stores_at_def)
  have ok: "fine c s s2" if "queue_inv None (ft_writes s2)" "file_keeps c s s2 \<and> ft_unusable s2 = ft_unusable s" for s2
    using that invD(1) [OF assms(1)] by (simp add: fine_def file_inv_def)
  show ?thesis
    using invD(3,1) [OF assms(1)] assms(2) [unfolded file_submit_def] same
  proof (rule file_worker.submit_cases)
    fix s2
    assume "queue_inv None (ft_writes s2)" "file_keeps c s s2 \<and> ft_unusable s2 = ft_unusable s" "s' = s2"
    then show ?thesis using ok [THEN fine_gains] by simp
  next
    fix s2 s3 how took q
    assume s2: "queue_inv None (ft_writes s2)" "file_keeps c s s2 \<and> ft_unusable s2 = ft_unusable s" and run: "?run s2 = (s3, how, took)"
      and q: "queue_inv None q" "pw_queue q = pw_queue (ft_writes s2)" and s': "s' = put_file_writes q s3"
    have s3: "gains c key (job_values c j) s2 s3" by (rule stores_gains [OF fine_inv [OF ok [OF s2]] stored [OF run]])
    have "fine c s3 (put_file_writes q s3)"
      using q same [OF run] put_writes_keeps [of q s3 c] invD(1) [OF assms(1)] by (simp add: fine_def file_inv_def)
    from gains_after [OF ok [OF s2] gains_then [OF s3 this]] s' show ?thesis by simp
  next
    fix s2 q f
    assume s2: "queue_inv None (ft_writes s2)" "file_keeps c s s2 \<and> ft_unusable s2 = ft_unusable s" and q: "queue_inv None q"
      "pw_queue q = pw_queue (ft_writes s2) @ [(f, \<lparr>wt_key = key, wt_value = j, wt_bytes = Some nbytes\<rparr>)]" and s': "s' = put_file_writes q s2"
    from gains_after [OF ok [OF s2] queued_gains [OF fine_inv [OF ok [OF s2]] q]] s' show ?thesis by simp
  qed
qed

lemma prune_versions_fine:
  assumes "file_inv c s"
  shows "fine c s (prune_versions c n slot key sz cost refs s)"
proof -
  have vx: "steady c s1 (s1\<lparr>ft_versions := v\<rparr>)" for s1 v by (simp add: steady_same)
  obtain x versions where rec: "vx_record (fn_versions_readable n) (fn_versions_wrote n) (TWord slot) (TWord key) sz cost (Fin (fn_now n)) (ft_versions s)
      = (x, versions)" by (metis surj_pair)
  define s1 where "s1 = s\<lparr>ft_versions := x\<rparr>"
  have s1: "fine c s s1" unfolding s1_def by (rule fine_steady [OF assms vx])
  have refs: "fine c s (fst (call_refs_of c n ks s2))" if "fine c s s2" for s2 ks
    by (rule fine_trans [OF that call_refs_fine [OF fine_inv [OF that]]])
  have del: "fine c s (delete_all c n ks s2)" if "fine c s s2" for s2 ks
    by (rule fine_trans [OF that delete_all_fine [OF fine_inv [OF that]]])
  have "fine c s (if b then s2 else s2\<lparr>ft_versions := v\<rparr>)" if "fine c s s2" for b s2 v using that fine_then [OF that vx] by simp
  from this [OF del [OF del [OF refs [OF refs [OF s1]]]]] show ?thesis
    unfolding prune_versions_def rec s1_def by (simp only: split_def Let_def fst_conv snd_conv)
qed

text \<open>What is planned to be written is the value, as long as bytes handed in are the value's own.\<close>

lemma plan_values:
  assumes "codec_good c" and "plan_write c packs pickled private_value given v m = Some (todo, nbytes, m', owned)"
    and "\<And>ser. given = Some ser \<Longrightarrow> ser_values c ser \<subseteq> {v}" and "fj_work j = todo"
  shows "job_values c j \<subseteq> {v}"
proof -
  have "serialize c packs pickled v = Some ser \<Longrightarrow> ser_values c ser \<subseteq> {v}" for ser
    using serialize_values [of c packs pickled v ser] assms(1) by (simp add: codec_good_def)
  with assms(2-4) show ?thesis
    by (auto simp: plan_write_def job_values_def split: option.splits if_splits sum.splits)
qed

lemma forget_queued_steady: "steady c s (forget_queued key serial s)"
  by (rule steady_same) (simp_all add: forget_queued_def split: option.split)

lemma queue_write_gains:
  assumes "file_inv c s" and "\<And>j. fj_work j = todo \<Longrightarrow> job_values c j \<subseteq> {v}"
  shows "gains c key {v} s (fst (queue_write c n key todo nbytes m pickled copied s))"
proof -
  let ?j = "\<lparr>fj_serial = ft_serial s, fj_meta = m, fj_work = todo, fj_pickled = pickled\<rparr>"
  define s2 where "s2 = s\<lparr>ft_ev := (ft_ev s)\<lparr>fe_evictions := el_forget (ee_log (fn_evict n)) (fc_stem c key) (fe_evictions (ft_ev s))\<rparr>,
      ft_queued := (ft_queued s)(key \<mapsto> (ft_serial s, m)), ft_serial := ft_serial s + 1\<rparr>"
  have s2: "fine c s s2" by (rule fine_steady [OF assms(1) steady_same]) (simp_all add: s2_def)
  obtain s3 r where sub: "file_submit c n key nbytes copied ?j s2 = (s3, r)" by (metis surj_pair)
  have "job_values c ?j \<subseteq> {v}" by (rule assms(2)) simp
  from gains_after [OF s2 gains_more [OF file_submit_gains [OF fine_inv [OF s2] sub] this]] have s3: "gains c key {v} s s3" .
  have "gains c key {v} s (forget_queued key (ft_serial s) s3)"
    by (rule gains_then [OF s3 fine_steady [OF gains_inv [OF s3] forget_queued_steady]])
  with s3 sub show ?thesis
    unfolding queue_write_def Let_def s2_def [symmetric] by (auto split: sum.split submit_error.split)
qed

lemma prune_slot_fine: "file_inv c s \<Longrightarrow> fine c s (prune_slot c n key nbytes m s)"
  using prune_versions_fine fine_refl by (auto simp: prune_slot_def split: option.split)

lemma file_set_gains:
  assumes "file_inv c s" and "\<And>ser. given = Some ser \<Longrightarrow> ser_values c ser \<subseteq> {v}"
  shows "gains c key {v} s (fst (file_set c n key v metadata pickled private_value copied given s))"
proof -
  define s1 where "s1 = ensure_initialized n s"
  have s1: "fine c s s1" unfolding s1_def by (rule fine_init [OF assms(1)])
  let ?plan = "plan_write c (ft_compress s1) pickled private_value given v (stamped_meta n key metadata s1)"
  show ?thesis
  proof (cases "ft_unusable s1 \<or> ?plan = None")
    case True
    then show ?thesis using fine_gains [OF s1] by (auto simp: file_set_def Let_def simp flip: s1_def)
  next
    case False
    then obtain todo nbytes m0 owned where plan: "?plan = Some (todo, nbytes, m0, owned)" by auto
    define m where "m = (if m_storage m0 = None then m0\<lparr>m_storage := Some [DISK_LABEL]\<rparr> else m0)"
    obtain s3 r where queued: "queue_write c n key todo nbytes m pickled (copied \<or> \<not> owned) s1 = (s3, r)" by (metis surj_pair)
    have "job_values c j \<subseteq> {v}" if "fj_work j = todo" for j
      using plan_values [OF invD(1) [OF assms(1)] plan _ that] assms(2) by blast
    from gains_after [OF s1 queue_write_gains [OF fine_inv [OF s1] this]] queued
    have s3: "gains c key {v} s s3" by (metis fst_conv)
    from gains_then [OF s3 prune_slot_fine [OF gains_inv [OF s3]]] s3 show ?thesis
      using False plan queued by (auto simp: file_set_def Let_def m_def simp flip: s1_def split: option.split)
  qed
qed

subsection \<open>Metadata, access stamps and listings\<close>

lemma known_entry_files [simp]: "fe_files (fst (known_entry c u key ev)) = fe_files ev"
  using read_file_files [of c u "get_path c key" False ev]
  by (auto simp: known_entry_def split_def split: option.split sum.split)

lemma packed_head: "pack_entry_parts dumps m [[]] split crc = Some e \<Longrightarrow> pe_head e = whole_file e"
  by (erule pack_entry_parts_Some) (simp add: whole_file_def)

lemma metadata_only_steady:
  assumes "codec_ok c" and "pack_entry_parts (fc_dumps c) m [[]] False None = Some e"
  shows "steady c s (put_ev (fst (on_files (if new then write_either w (get_path c key) e else atomic_write w (get_path c key) (pe_head e)) (ft_ev s))) s)"
proof -
  note none = metadata_only_values [OF assms] and head = packed_head [OF assms(2)]
  have "adds c (get_path c key) {} fs (fst (write_either w (get_path c key) e fs))" for fs
    using write_either_adds [OF assms, of "get_path c key" fs w] none by simp
  moreover have "adds c (get_path c key) {} fs (fst (atomic_write w (get_path c key) (pe_head e) fs))" for fs
    using atomic_write_adds [of c "get_path c key" "pe_head e" fs w] none head by simp
  ultimately show ?thesis by (intro steady_put) (simp add: on_files_def split_def adds_nothing)
qed

lemma file_set_metadata_only_fine:
  assumes "file_inv c s"
  shows "fine c s (file_set_metadata_only c n key metadata s)"
proof -
  define s1 where "s1 = ensure_initialized n s"
  define s2 where "s2 = file_wait c n key s1"
  note ok = opened_wait [OF assms s1_def s2_def]
  obtain ev existing where known: "known_entry c (live_env c None s2 (fn_evict n)) key (ft_ev s2) = (ev, existing)" by (metis surj_pair)
  define s3 where "s3 = put_ev ev s2"
  have "fe_files ev = fe_files (ft_ev s2)" using known_entry_files [of c "live_env c None s2 (fn_evict n)" key "ft_ev s2"] known by simp
  then have s3: "fine c s s3" unfolding s3_def by (intro fine_then [OF ok(2)] put_ev_steady)
  define m where "m = only_metadata (fn_now n) key metadata"
  have "fine c s (case pack_entry_parts (fc_dumps c) m [[]] False None of
                None \<Rightarrow> s3
              | Some e \<Rightarrow> (case on_files (if existing = None then write_either (fn_own n) (get_path c key) e
                                       else atomic_write (fn_own n) (get_path c key) (pe_head e)) (ft_ev s3) of
                    (ev, Some _) \<Rightarrow> put_ev ev s3
                  | (ev, None) \<Rightarrow> put_ev (remember_entry c key m (Some (payload_checksum [])) None ev) s3))"
  proof (cases "pack_entry_parts (fc_dumps c) m [[]] False None")
    case (Some e)
    obtain ev1 r where wrote: "on_files (if existing = None then write_either (fn_own n) (get_path c key) e
        else atomic_write (fn_own n) (get_path c key) (pe_head e)) (ft_ev s3) = (ev1, r)" by (metis surj_pair)
    have "steady c s3 (put_ev ev1 s3)"
      using metadata_only_steady [OF invD(2) [OF assms] Some, of s3 "existing = None" "fn_own n" key] wrote by simp
    then have "steady c s3 (put_ev ev' s3)" if "fe_files ev' = fe_files ev1" for ev' using that by (simp add: steady_def)
    from fine_then [OF s3 this] show ?thesis using Some wrote by (auto split: option.split)
  qed (use s3 in simp)
  then show ?thesis using ok s3 known unfolding m_def s3_def
    by (simp add: file_set_metadata_only_def Let_def flip: s1_def s2_def)
qed

lemma update_shrinks:
  assumes "map_of fs path = Some f" and "data_values c (df_data f') \<subseteq> data_values c (df_data f)"
  shows "shrinks c fs (AList.update path f' fs)"
proof -
  have "data_values c (df_data f) \<subseteq> vals_at c fs path" using assms(1) by (auto simp: vals_at_def dest: map_of_SomeD)
  with assms(2) have "vals_at c fs p \<union> (if p = path then data_values c (df_data f') else {}) \<subseteq> vals_at c fs p" for p by auto
  with adds_update [of c path f' fs] show ?thesis unfolding adds_def shrinks_def by (meson subset_trans)
qed

lemma access_record_files [simp]: "fe_files (fst (access_record w key m path ev)) = fe_files ev"
  by (simp add: access_record_def Let_def)

lemma flush_key_steady:
  assumes "codec_ok c"
  shows "steady c s (fst (flush_key c n ranked key (s, records)))"
proof -
  let ?ev = "ft_ev s" and ?path = "get_path c key"
  have meta: "\<exists>m'. fc_loads c (fc_dumps c m) = Dict m' \<and> sm_checksum m' = sm_checksum m" for m by (rule codec_okD(4) [OF assms])
  have upd: "shrinks c (fe_files ?ev) (AList.update ?path (f\<lparr>df_data := fst (update_metadata_in_place (fc_dumps c) (fc_loads c) (df_data f) m ident),
      df_mtime := t\<rparr>) (fe_files ?ev))"
    if "map_of (fe_files ?ev) ?path = Some f" "snd (update_metadata_in_place (fc_dumps c) (fc_loads c) (df_data f) m ident)" for f t m ident
  proof (rule update_shrinks [OF that(1)])
    have "update_metadata_in_place (fc_dumps c) (fc_loads c) (df_data f) m ident
        = (fst (update_metadata_in_place (fc_dumps c) (fc_loads c) (df_data f) m ident), True)" using that(2) by (metis prod.collapse)
    from update_body [OF this meta]
    show "data_values c (df_data (f\<lparr>df_data := fst (update_metadata_in_place (fc_dumps c) (fc_loads c) (df_data f) m ident), df_mtime := t\<rparr>))
        \<subseteq> data_values c (df_data f)" by simp
  qed
  show ?thesis
    unfolding flush_key_def
    by (auto simp: Let_def steady_same put_ev_steady steady_def put_ev_def upd split_def
        split: option.split bool.split prod.split)
qed

lemma flush_keys_steady:
  assumes "codec_ok c"
  shows "steady c s (fst (fold (flush_key c n ranked) keys (s, records)))"
proof (induction keys arbitrary: s records)
  case (Cons key keys)
  obtain s1 records1 where one: "flush_key c n ranked key (s, records) = (s1, records1)" by (metis surj_pair)
  have "steady c s s1" using flush_key_steady [OF assms, of s n ranked key records] one by simp
  from steady_trans [OF this Cons.IH] one show ?case by simp
qed simp

lemma ensure_clock_files [simp]: "fe_files (ensure_clock w ev) = fe_files ev"
  by (simp add: ensure_clock_def split_def Let_def)

lemma flush_metadata_steady:
  assumes "codec_ok c"
  shows "steady c s (flush_metadata c n periodic s)"
proof -
  let ?due = "if periodic then Some (\<lambda>k. ACCESS_FLUSH_MIN_INTERVAL \<le> fn_now n - (case ft_access_flushed s k of None \<Rightarrow> 0 | Some t \<Rightarrow> t)) else None"
  obtain t keys where take: "take_unflushed ?due (fe_touched (ft_ev s)) = (t, keys)" by (metis surj_pair)
  define s1 where "s1 = put_ev ((ft_ev s)\<lparr>fe_touched := t\<rparr>) s"
  define s2 where "s2 = (if capped (ft_ev s1) then put_ev (ensure_clock (fn_evict n) (ft_ev s1)) s1 else s1)"
  have s1: "steady c s s1" unfolding s1_def by (rule put_ev_steady) simp
  have "steady c s1 s2" by (simp add: s2_def put_ev_steady)
  from steady_trans [OF s1 this] have s2: "steady c s s2" .
  obtain s3 records where fold: "fold (flush_key c n (capped (ft_ev s1))) keys (s2, []) = (s3, records)" by (metis surj_pair)
  have "steady c s2 s3" using flush_keys_steady [OF assms, of s2 n "capped (ft_ev s1)" keys "[]"] fold by simp
  from steady_trans [OF s2 this] have s3: "steady c s s3" .
  have "steady c s (put_ev (ft_ev s3\<lparr>fe_rank_index := ri\<rparr>) s3)" for ri by (rule steady_trans [OF s3 put_ev_steady]) simp
  then have "steady c s (if keys = [] then s1 else case fold (flush_key c n (capped (ft_ev s1))) keys (s2, []) of (s, records) \<Rightarrow>
      put_ev (ft_ev s\<lparr>fe_rank_index := ri_append (ee_rank_wrote (fn_evict n)) records None (fe_rank_index (ft_ev s))\<rparr>) s)"
    using s1 unfolding fold by simp
  then show ?thesis unfolding flush_metadata_def Let_def take s2_def s1_def by simp
qed

lemma flush_ranks_steady: "steady c s (flush_ranks n s)"
  by (simp add: flush_ranks_def Let_def put_ev_steady)

lemma flush_periodically_fine:
  assumes "file_inv c s"
  shows "fine c s (flush_periodically c n s)"
proof -
  have "steady c s (flush_ranks n (flush_metadata c n True s))"
    by (rule steady_trans [OF flush_metadata_steady [OF invD(2) [OF assms]] flush_ranks_steady])
  from fine_steady [OF assms this] fine_refl [OF assms] show ?thesis by (simp add: flush_periodically_def)
qed

lemma file_shutdown_fine:
  assumes "file_inv c s"
  shows "fine c s (file_shutdown c n s)"
proof -
  define s1 where "s1 = file_wait_all c n s"
  define s2 where "s2 = (put_file_writes (shutdown (ft_writes s1)) s1)\<lparr>ft_stopped := True, ft_flusher := False\<rparr>"
  have s1: "fine c s s1" unfolding s1_def by (rule fine_waits(2) [OF assms])
  have "queue_inv None (shutdown (ft_writes s1))" using invD(3) [OF fine_inv [OF s1]] by (simp add: queue_inv_def shutdown_def fdone_def)
  then have "fine c s1 s2" using fine_inv [OF s1] by (simp add: s2_def fine_def file_inv_def file_keeps_def file_held_def files_hold_def shutdown_def)
  from fine_trans [OF s1 this] have s2: "fine c s s2" .
  from fine_then [OF s2 steady_trans [OF flush_metadata_steady [OF invD(2) [OF assms]] flush_ranks_steady]] s2
  show ?thesis by (simp add: file_shutdown_def Let_def flip: s1_def s2_def)
qed

lemma listing_fine:
  assumes "file_inv c s"
  shows "fine c s (fst (file_list_entries c n s))" and "fine c s (fst (file_entry_count c n s))" and "fine c s (fst (file_entries c n s))"
proof -
  have s1: "fine c s (ensure_initialized n s)" by (rule fine_init [OF assms])
  have "fine c s (file_wait_all c n (ensure_initialized n s))" by (rule fine_trans [OF s1 fine_waits(2) [OF fine_inv [OF s1]]])
  with s1 show "fine c s (fst (file_list_entries c n s))" "fine c s (fst (file_entry_count c n s))"
    by (simp_all add: file_list_entries_def file_entry_count_def Let_def)
  show "fine c s (fst (file_entries c n s))" using fine_waits(2) [OF assms, of n] by (simp add: file_entries_def Let_def)
qed

lemma file_cleanup_expired_fine:
  assumes "file_inv c s"
  shows "fine c s (fst (file_cleanup_expired c n expired s))"
proof -
  have s1: "fine c s (ensure_initialized n s)" by (rule fine_init [OF assms])
  have s2: "fine c s (fst (file_entries c n (ensure_initialized n s)))" by (rule fine_trans [OF s1 listing_fine(3) [OF fine_inv [OF s1]]])
  from s1 fine_trans [OF s2 delete_all_fine [OF fine_inv [OF s2]]] show ?thesis
    by (simp add: file_cleanup_expired_def Let_def split_def)
qed

subsection \<open>Clearing\<close>

lemma file_clear_ok:
  assumes "file_inv c s"
  shows "fine c s (file_clear c n s)" and "entry_files (fe_files (ft_ev (file_clear c n s))) = [] \<Longrightarrow> file_held c (file_clear c n s) key = {}"
proof -
  define s1 where "s1 = ensure_initialized n s"
  define s2 where "s2 = file_wait_all c n s1"
  have s1: "fine c s s1" unfolding s1_def by (rule fine_init [OF assms])
  have s2: "fine c s s2" unfolding s2_def by (rule fine_trans [OF s1 fine_waits(2) [OF fine_inv [OF s1]]])
  have cleared: "steady c s2 (file_clear c n s)" "ft_writes (file_clear c n s) = ft_writes s2" if "\<not> ft_unusable s1"
  proof -
    have "set (fe_files (ft_ev (file_clear c n s))) \<subseteq> set (fe_files (ft_ev s2))" "ft_unusable (file_clear c n s) = ft_unusable s2"
      using that by (auto simp: file_clear_def put_ev_def evictor_clear_def Let_def simp flip: s1_def s2_def)
    moreover show "ft_writes (file_clear c n s) = ft_writes s2"
      using that by (simp add: file_clear_def put_ev_def Let_def flip: s1_def s2_def)
    ultimately show "steady c s2 (file_clear c n s)" using shrinks_subset by (simp add: steady_def)
  qed
  show "fine c s (file_clear c n s)"
    using s1 fine_then [OF s2 cleared(1)] by (cases "ft_unusable s1") (simp_all add: file_clear_def flip: s1_def)
  assume none: "entry_files (fe_files (ft_ev (file_clear c n s))) = []"
  show "file_held c (file_clear c n s) key = {}"
  proof (cases "ft_unusable s1")
    case True
    then show ?thesis by (simp add: file_clear_def file_held_def flip: s1_def)
  next
    case False
    have "\<not> startswith (get_path c key) ''.''"
      using codec_okD(2,3) [OF invD(2) [OF assms], of key] by (cases "fc_stem c key") (auto simp: get_path_def startswith_def)
    then have "(get_path c key, f) \<notin> set (fe_files (ft_ev (file_clear c n s)))" for f
      using none entry_path [of c key] by (auto simp: entry_files_def filter_empty_conv)
    then have "files_hold c (file_clear c n s) key = {}" by (simp add: files_hold_def vals_at_def)
    moreover have "pw_queue (ft_writes s2) = []" unfolding s2_def by (rule fine_waits(6) [OF fine_inv [OF s1]])
    ultimately show ?thesis using cleared(2) [OF False] by (simp add: file_held_def queued_jobs_def)
  qed
qed

end
