(* ===== verification/File_Properties.thy ===== *)
theory File_Properties
  imports File_Tier
begin

text \<open>
  What the file tier promises, as an instance of the contract \<open>cache_tier\<close>: the four operations of the contract over
  \<open>FileBackend\<close>, with any of its other operations, and the background writes, running before each of them.
\<close>

subsection \<open>The operations of the contract\<close>

text \<open>The operations that neither store, read, delete nor clear.\<close>

datatype file_side =
    GetMetadata file_env string | PeekMetadata file_env string | SetMetadataOnly file_env string entry_metadata
  | FlushPeriodically file_env | ListEntries file_env | EntryCount file_env | Entries file_env
  | CleanupExpired file_env "stored_meta \<Rightarrow> bool" | BumpGeneration file_env | EvictionNote file_env string | TakeNotices | Shutdown file_env

fun side_step :: "'v file_codec \<Rightarrow> file_side \<Rightarrow> 'v file_tier \<Rightarrow> 'v file_tier" where
  "side_step c (GetMetadata n key) s = fst (file_get_metadata c n key s)"
| "side_step c (PeekMetadata n key) s = fst (file_peek_metadata c n key s)"
| "side_step c (SetMetadataOnly n key m) s = file_set_metadata_only c n key m s"
| "side_step c (FlushPeriodically n) s = flush_periodically c n s"
| "side_step c (ListEntries n) s = fst (file_list_entries c n s)"
| "side_step c (EntryCount n) s = fst (file_entry_count c n s)"
| "side_step c (Entries n) s = fst (file_entries c n s)"
| "side_step c (CleanupExpired n expired) s = fst (file_cleanup_expired c n expired s)"
| "side_step c (BumpGeneration n) s = bump_generation n s"
| "side_step c (EvictionNote n key) s = fst (file_eviction_note c n key s)"
| "side_step c TakeNotices s = fst (file_take_storage_notices s)"
| "side_step c (Shutdown n) s = file_shutdown c n s"

text \<open>What an operation meets: \<open>fl_given\<close> says whether the caller hands the value's pickle in (\<open>serialized\<close>),
  \<open>fl_sides\<close> what was done to the backend before.\<close>

record file_call =
  fl_env :: file_env
  fl_meta :: "entry_metadata option"
  fl_pickled :: bool
  fl_private :: bool
  fl_copied :: bool
  fl_given :: bool
  fl_sides :: "file_side list"

definition come_so_far :: "'v file_codec \<Rightarrow> file_call \<Rightarrow> 'v file_tier \<Rightarrow> 'v file_tier" where
  "come_so_far c i s = fold (side_step c) (fl_sides i) (file_meanwhile c (fl_env i) s)"

definition file_store_op :: "'v file_codec \<Rightarrow> file_call \<Rightarrow> string \<Rightarrow> 'v \<Rightarrow> 'v file_tier \<Rightarrow> 'v file_tier \<times> bool" where
  "file_store_op c i key v s = (case file_set c (fl_env i) key v (fl_meta i) (fl_pickled i) (fl_private i) (fl_copied i)
       (if fl_given i then serialize c False True v else None) (come_so_far c i s) of (s, r) \<Rightarrow> (s, r = None))"

definition file_read_op :: "'v file_codec \<Rightarrow> file_call \<Rightarrow> string \<Rightarrow> 'v file_tier \<Rightarrow> 'v file_tier \<times> 'v option" where
  "file_read_op c i key s = (case file_get c (fl_env i) key (come_so_far c i s) of (s, r) \<Rightarrow> (s, map_option snd r))"

text \<open>A delete and a clear ran through when the file, and every entry, is gone.\<close>

definition file_delete_op :: "'v file_codec \<Rightarrow> file_call \<Rightarrow> string \<Rightarrow> 'v file_tier \<Rightarrow> 'v file_tier \<times> bool" where
  "file_delete_op c i key s = (let s = file_delete c (fl_env i) key (come_so_far c i s) in (s, map_of (fe_files (ft_ev s)) (get_path c key) = None))"

definition file_clear_op :: "'v file_codec \<Rightarrow> file_call \<Rightarrow> 'v file_tier \<Rightarrow> 'v file_tier \<times> bool" where
  "file_clear_op c i s = (let s = file_clear c (fl_env i) (come_so_far c i s) in (s, entry_files (fe_files (ft_ev s)) = []))"

lemma side_step_fine:
  assumes "file_inv c s"
  shows "fine c s (side_step c x s)"
proof (cases x)
  case (BumpGeneration n)
  have "steady c s (bump_generation n s)" unfolding bump_generation_def by (rule put_dir_steady) (use stamp_folders(2,5) in simp)
  with assms BumpGeneration show ?thesis by (simp add: fine_steady)
next
  case (EvictionNote n key)
  have "steady c s (fst (file_eviction_note c n key s))" by (simp add: file_eviction_note_def split_def put_ev_steady)
  with assms EvictionNote show ?thesis by (simp add: fine_steady)
next
  case TakeNotices
  have "steady c s (fst (file_take_storage_notices s))" by (simp add: file_take_storage_notices_def take_notices_def split_def put_ev_steady)
  with assms TakeNotices show ?thesis by (simp add: fine_steady)
qed (simp_all add: assms file_get_metadata_fine file_peek_metadata_fine file_set_metadata_only_fine flush_periodically_fine listing_fine
    file_cleanup_expired_fine file_shutdown_fine)

lemma come_so_far_fine:
  assumes "file_inv c s"
  shows "fine c s (come_so_far c i s)"
proof -
  have "fine c s (fold (side_step c) xs s1)" if "fine c s s1" for xs s1
    using that
  proof (induction xs arbitrary: s1)
    case (Cons x xs)
    from Cons.IH [OF fine_trans [OF Cons.prems side_step_fine [OF fine_inv [OF Cons.prems]]]] show ?case by simp
  qed simp
  from this [OF fine_waits(4) [OF assms]] show ?thesis by (simp add: come_so_far_def)
qed

lemma own_pickle:
  assumes "file_inv c s" and "(if given then serialize c False True v else None) = Some ser"
  shows "ser_values c ser \<subseteq> {v}"
proof -
  have "serialize c False True v = Some ser" using assms(2) by (simp split: if_splits)
  then show ?thesis using serialize_values [of c False True v ser] invD(1) [OF assms(1)] by (simp add: codec_good_def)
qed

lemma gains_at: "gains c key new s s' \<Longrightarrow> file_held c s' k \<subseteq> file_held c s k \<union> (if k = key then new else {})"
  by (simp add: gains_def)

interpretation file_cache: cache_tier "file_inv c" "file_held c" "file_store_op c" "file_read_op c" "file_delete_op c" "file_clear_op c"
  for c :: "'v file_codec"
proof
  fix s :: "'v file_tier" and i key k and v :: 'v
  assume inv: "file_inv c s"
  let ?s = "come_so_far c i s"
  note s1 = come_so_far_fine [OF inv, of i] and inv1 = fine_inv [OF come_so_far_fine [OF inv, of i]]
  have set: "gains c key {v} s (fst (file_store_op c i key v s))"
    using gains_after [OF s1 file_set_gains [OF inv1 own_pickle [OF inv]]] by (simp add: file_store_op_def split_def)
  then show "file_inv c (fst (file_store_op c i key v s))" "file_held c (fst (file_store_op c i key v s)) key \<subseteq> insert v (file_held c s key)"
    "k \<noteq> key \<Longrightarrow> file_held c (fst (file_store_op c i key v s)) k \<subseteq> file_held c s k"
    using gains_at [OF set, of key] gains_at [OF set, of k] gains_inv by auto
  obtain s2 r where get: "file_get c (fl_env i) key ?s = (s2, r)" by (metis surj_pair)
  have "fine c s s2" by (rule fine_trans [OF s1 file_get_ok(1) [OF inv1 get]])
  then show "file_inv c (fst (file_read_op c i key s))" "file_held c (fst (file_read_op c i key s)) k \<subseteq> file_held c s k"
    using get unfolding file_read_op_def fine_def file_keeps_def by auto
  show "v \<in> file_held c s key" if read: "snd (file_read_op c i key s) = Some v"
  proof -
    obtain m where "r = Some (m, v)" using read get by (auto simp: file_read_op_def)
    from file_get_ok(2) [OF inv1 get this] s1 show ?thesis unfolding fine_def file_keeps_def by blast
  qed
  have "fine c s (fst (file_delete_op c i key s))" using fine_trans [OF s1 file_delete_fine [OF inv1]] by (simp add: file_delete_op_def Let_def)
  then show "file_inv c (fst (file_delete_op c i key s))" "file_held c (fst (file_delete_op c i key s)) k \<subseteq> file_held c s k"
    unfolding fine_def file_keeps_def by blast+
  show "file_held c (fst (file_delete_op c i key s)) key = {}" if "snd (file_delete_op c i key s)"
    using that file_delete_gone [OF inv1] by (simp add: file_delete_op_def Let_def)
  have "fine c s (fst (file_clear_op c i s))" using fine_trans [OF s1 file_clear_ok(1) [OF inv1]] by (simp add: file_clear_op_def Let_def)
  then show "file_inv c (fst (file_clear_op c i s))" "file_held c (fst (file_clear_op c i s)) k \<subseteq> file_held c s k"
    unfolding fine_def file_keeps_def by blast+
  show "file_held c (fst (file_clear_op c i s)) k = {}" if "snd (file_clear_op c i s)"
    using that file_clear_ok(2) [OF inv1] by (simp add: file_clear_op_def Let_def)
qed

subsection \<open>Properties\<close>

text \<open>What the files of a folder can be read as, key by key.\<close>

definition folder_values :: "'v file_codec \<Rightarrow> folder \<Rightarrow> string \<Rightarrow> 'v set" where
  "folder_values c fs key = vals_at c fs (get_path c key)"

lemma file_init_inv: "codec_good c \<Longrightarrow> file_inv c (file_init ev there stamp packs ttl flush_interval versions)"
  by (simp add: file_inv_def file_init_def queue_inv_init)




end
