(* ===== verification/File_Round_Trip.thy ===== *)
theory File_Round_Trip
  imports File_Properties
begin

text \<open>
  A store followed by a read: where nothing fails, the file tier hands the value back, through the queue, the
  background write, the file and its metadata. The theory ends with a small codec the theorems are tried on.
\<close>

subsection \<open>One entry, written and read\<close>

text \<open>Metadata created at \<open>t\<close>, with a checksum, pickles to something that fits and keeps what identifies the write.\<close>

definition pickles_at :: "'v file_codec \<Rightarrow> seconds \<Rightarrow> bool" where
  "pickles_at c t = (\<forall>m crc. m_created_at m = Some t \<and> sm_checksum m = Some crc \<and> length crc = 4 \<longrightarrow> length (fc_dumps c m) + META_SLACK < 256 ^ 4 \<and>
     (\<exists>m'. fc_loads c (fc_dumps c m) = Dict m' \<and> m_created_at m' = Some t \<and> sm_checksum m' = Some crc))"

lemma packs_at:
  assumes "pickles_at c t" and "m_created_at m = Some t"
  obtains e where "pack_entry_parts (fc_dumps c) m [b] False None = Some e" and "pe_checksum e = checksum b"
    and "\<forall>env. \<exists>on_disk. read_entry_and_checksum (fc_loads c) env (whole_file e) True = (re_dir env, Inr (on_disk, Some (Plain b), Some (checksum b)))
       \<and> m_created_at on_disk = Some t"
proof -
  let ?m = "m\<lparr>sm_checksum := Some (checksum b)\<rparr>"
  let ?mb = "fc_dumps c ?m"
  have "m_created_at ?m = Some t" "sm_checksum ?m = Some (checksum b)" "length (checksum b) = 4" using assms(2) by simp_all
  with assms(1) have "length ?mb + META_SLACK < 256 ^ 4 \<and> (\<exists>m'. fc_loads c ?mb = Dict m' \<and> m_created_at m' = Some t \<and> sm_checksum m' = Some (checksum b))"
    unfolding pickles_at_def by blast
  then obtain m' where fits: "length ?mb + META_SLACK < 256 ^ 4" and m': "fc_loads c ?mb = Dict m'" "m_created_at m' = Some t" "sm_checksum m' = Some (checksum b)"
    by auto
  let ?cap = "length ?mb + META_SLACK"
  have "pack_uint 4 (length ?mb) \<noteq> None" "pack_uint 4 ?cap \<noteq> None" using fits by (simp_all add: pack_uint_def)
  then obtain h where h: "header_pack MAGIC (length ?mb) ?cap = Some h" by (auto simp: header_pack_def pack_all.simps)
  define e where "e = \<lparr>pe_head = h @ ?mb @ zeros META_SLACK, pe_chunks = [b], pe_checksum = checksum b, pe_size = length (h @ ?mb @ zeros META_SLACK) + length b\<rparr>"
  have len: "length h = HEADER_SIZE" by (rule header_pack_cases [OF h magic_lengths [OF magics_differ(2)]])
  have head: "read_head (fc_loads c) (whole_file e) = Inr (MAGIC, ?cap, m'\<lparr>sm_checksum := None\<rparr>, Some (checksum b))"
    using read_head_written [where loads = "fc_loads c", OF h magics_differ(2) _ m'(1), of "zeros META_SLACK @ b"] m'(3) by (simp add: whole_file_def e_def)
  have "drop (HEADER_SIZE + ?cap) (whole_file e) = b" using len by (simp add: whole_file_def e_def)
  then have "read_entry_and_checksum (fc_loads c) env (whole_file e) True = (re_dir env, Inr (m'\<lparr>sm_checksum := None\<rparr>, Some (Plain b), Some (checksum b)))" for env
    using head magics_differ(1) by (simp add: read_entry_and_checksum_def verify_def)
  moreover have "pack_entry_parts (fc_dumps c) m [b] False None = Some e"
    using h by (simp add: pack_entry_parts_def checksum_of_concat e_def Let_def)
  ultimately show thesis using that [of e] m'(2) by (auto simp: e_def)
qed

text \<open>What is met by a write that does not fail.\<close>

definition write_succeeds :: "file_work \<Rightarrow> bool" where
  "write_succeeds w = (fw_opens w \<and> fw_fails w = None \<and> \<not> fw_vanished w)"

text \<open>A backend in use, without a cap, that compresses nothing, knows no chunks of the key and has no file of it.\<close>

definition ready :: "'v file_codec \<Rightarrow> string \<Rightarrow> 'v file_tier \<Rightarrow> bool" where
  "ready c key s = (ft_initialized s \<and> \<not> ft_unusable s \<and> ft_exists s \<and> \<not> ft_compress s \<and> ft_default_ttl s = None \<and> \<not> capped (ft_ev s) \<and>
     map_of (fe_files (ft_ev s)) (get_path c key) = None \<and>
     (case fe_chunks (ft_ev s) of None \<Rightarrow> True | Some cs \<Rightarrow> cs_held_by cs (fc_stem c key) = None))"

text \<open>The key's entry is there, with metadata \<open>m\<close>.\<close>

definition landed :: "'v file_codec \<Rightarrow> string \<Rightarrow> stored_meta \<Rightarrow> packed_entry \<Rightarrow> 'v file_tier \<Rightarrow> bool" where
  "landed c key m e s = ((\<exists>f. map_of (fe_files (ft_ev s)) (get_path c key) = Some f \<and> df_data f = whole_file e) \<and>
     te_stored key (fe_touched (ft_ev s)) = Some m \<and> te_identity key (fe_touched (ft_ev s)) = Some (entry_identity m (Some (pe_checksum e))) \<and>
     ft_initialized s \<and> \<not> ft_unusable s \<and> ft_default_ttl s = None)"

lemma no_chunks_commit:
  assumes "case fe_chunks ev of None \<Rightarrow> True | Some cs \<Rightarrow> cs_held_by cs stem = None"
  shows "map_of (fe_files (fst (on_chunks w (\<lambda>ce. commit ce stem [] None places) 0 ev))) path = map_of (fe_files ev) path"
    and "fe_touched (fst (on_chunks w (\<lambda>ce. commit ce stem [] None places) 0 ev)) = fe_touched ev"
    and "capped (fst (on_chunks w (\<lambda>ce. commit ce stem [] None places) 0 ev)) = capped ev"
proof -
  show "fe_touched (fst (on_chunks w (\<lambda>ce. commit ce stem [] None places) 0 ev)) = fe_touched ev"
    "capped (fst (on_chunks w (\<lambda>ce. commit ce stem [] None places) 0 ev)) = capped ev"
    by (simp_all add: on_chunks_def capped_def split_def split: option.split)
  show "map_of (fe_files (fst (on_chunks w (\<lambda>ce. commit ce stem [] None places) 0 ev))) path = map_of (fe_files ev) path"
  proof (cases "fe_chunks ev")
    case (Some cs)
    have same: "cs_entries (fst (commit ce stem [] None places cs')) = cs_entries cs'" if "cs_held_by cs' stem = None" for ce cs'
      using that by (simp add: commit_def drop_unheld_def entries_simps Let_def)
    have "map_of (rewritten d cs1 (fe_files ev)) path = map_of (fe_files ev) path"
      if "cs_entries cs1 = cs_entries (with_entries (fe_files ev) cs)" for d cs1
      using that stem_suffix [of path] by (cases "map_of (fe_files ev) path") (auto simp: rewritten_def map_of_map_key with_entries_def)
    then show ?thesis using Some assms same [of "with_entries (fe_files ev) cs"] by (simp add: on_chunks_def split_def with_entries_def)
  qed (simp add: on_chunks_def)
qed

lemma write_lands:
  assumes "ready c key s" and "write_succeeds w" and pack: "pack_entry_parts (fc_dumps c) m chunks split None = Some e"
    and "finish_write c w u key m chunks split [] added s = (s', r)"
  shows "landed c key m e s'" and "r = None" and "\<not> capped (ft_ev s')"
proof -
  note rd = assms(1) [unfolded ready_def] and ok = assms(2) [unfolded write_succeeds_def]
  let ?path = "get_path c key" and ?u = "live_env c (Some key) s (fw_evict w)"
  define fs where "fs = fe_files (ft_ev s) @ [(?path, new_dir_file (ee_dir (fw_evict w)) (whole_file e))]"
  define s1 where "s1 = put_ev ((ft_ev s)\<lparr>fe_files := fs\<rparr>) s"
  have put: "put_entry_file w ?path e s = (s1, None)"
    using rd ok by (simp add: put_entry_file_def on_files_def write_either_def write_new_in_place_def s1_def fs_def Let_def)
  have old: "getsize ?u (ft_ev s) ?path = None" using rd by (simp add: getsize_def)
  obtain ev freed where cm: "on_chunks ?u (\<lambda>ce. commit ce (fc_stem c key) [] None (sm_places m)) 0 (ft_ev s1) = (ev, freed)" by (metis surj_pair)
  have "case fe_chunks (ft_ev s1) of None \<Rightarrow> True | Some cs \<Rightarrow> cs_held_by cs (fc_stem c key) = None" using rd by (simp add: s1_def)
  note ch = no_chunks_commit [OF this, of ?u "sm_places m", unfolded cm fst_conv]
  have wrote: "write_entry c w key m chunks split [] s = (put_ev ev s1, Inr (e, 0, freed))"
    using pack put old cm by (simp add: write_entry_def Let_def)
  define ev1 where "ev1 = note_write key (0 + freed) (int (pe_size e) + added) (remember_entry c key m (Some (pe_checksum e)) None ev)"
  have "\<not> capped ev1" using ch(3) rd by (simp add: ev1_def s1_def capped_def note_write_def remember_entry_def on_touched_def Let_def)
  then have fin: "s' = put_ev ev1 (put_ev ev s1)" "r = None" using assms(4) wrote by (simp_all add: finish_write_def ev1_def Let_def)
  then show "r = None" "\<not> capped (ft_ev s')" using \<open>\<not> capped ev1\<close> by simp_all
  have "map_of (fe_files ev1) ?path = Some (new_dir_file (ee_dir (fw_evict w)) (whole_file e))"
    using ch(1) [of ?path] rd by (simp add: ev1_def s1_def fs_def map_add_def)
  moreover have "te_stored key (fe_touched ev1) = Some m" "te_identity key (fe_touched ev1) = Some (entry_identity m (Some (pe_checksum e)))"
    by (simp_all add: ev1_def note_write_def remember_entry_def on_touched_def remember_def te_stored_def te_identity_def Let_def)
  ultimately show "landed c key m e s'" using rd by (simp add: landed_def fin s1_def new_dir_file_def put_ev_def)
qed

lemma sweep_ready: "ready c key s \<Longrightarrow> ready c key (sweep_temp_files w s)"
proof -
  have "map_of fs p = None \<Longrightarrow> map_of (filter P fs) p = None" for fs :: folder and p P
    by (auto simp: map_of_eq_None_iff)
  then show "ready c key s \<Longrightarrow> ready c key (sweep_temp_files w s)"
    by (auto simp: ready_def sweep_temp_files_def remove_orphan_temp_files_def put_ev_def capped_def Let_def)
qed

definition written_meta :: "stored_meta \<Rightarrow> byte list \<Rightarrow> stored_meta" where
  "written_meta m b = m\<lparr>m_compressed := None, sm_chunks := None, sm_places := None, m_size := Some (int (length b))\<rparr>"

lemma set_sync_lands:
  assumes "ready c key s" and "write_succeeds w"
    and "(case fj_work j of Inl ser \<Rightarrow> Some ser | Inr v \<Rightarrow> serialize c False (fj_pickled j) v) = Some (Stream b)"
    and "pack_entry_parts (fc_dumps c) (written_meta (fj_meta j) b) [b] False None = Some e"
  shows "landed c key (written_meta (fj_meta j) b) e (fst (file_set_sync c w key j s))"
proof -
  define s1 where "s1 = sweep_temp_files w s"
  have s1: "ready c key s1" unfolding s1_def by (rule sweep_ready [OF assms(1)])
  obtain s2 r where fin: "finish_write c w (live_env c (Some key) s1 (fw_evict w)) key (written_meta (fj_meta j) b) [b] False [] 0 s1 = (s2, r)" by (metis surj_pair)
  note l = write_lands [OF s1 assms(2,4) fin]
  have "write_cache_files c w key (fj_meta j) (Stream b) s1 = (s2, None)"
    using s1 fin l(2) by (simp add: write_cache_files_def written_meta_def ready_def)
  then have "file_set_sync c w key j s = (s2, Wrote)"
    using assms(1,3) l(3) by (auto simp: file_set_sync_def ready_def simp flip: s1_def split: sum.splits)
  with l(1) show ?thesis by simp
qed

lemma landed_cong:
  "landed c key m e s \<Longrightarrow> ft_ev s' = ft_ev s \<Longrightarrow> ft_initialized s' = ft_initialized s \<Longrightarrow> ft_unusable s' = ft_unusable s \<Longrightarrow>
     ft_default_ttl s' = ft_default_ttl s \<Longrightarrow> landed c key m e s'"
  by (simp add: landed_def)

text \<open>A wait for the one queued write runs it.\<close>

lemma wait_lands:
  assumes "ready c key s" and "write_succeeds (fn_work n f)"
    and "pw_queue (ft_writes s) = [(f, t)]" and "wt_key t = key" and "map_of (pw_pending (ft_writes s)) key = Some f" and "\<not> fdone (ft_writes s) f"
    and "(case fj_work (wt_value t) of Inl ser \<Rightarrow> Some ser | Inr v \<Rightarrow> serialize c False (fj_pickled (wt_value t)) v) = Some (Stream b)"
    and "pack_entry_parts (fc_dumps c) (written_meta (fj_meta (wt_value t)) b) [b] False None = Some e"
  shows "landed c key (written_meta (fj_meta (wt_value t)) b) e (file_wait c n key s)"
proof -
  let ?w = "fn_work n f"
  define s1 where "s1 = put_file_writes (start_task (fw_now ?w) (ft_writes s)) s"
  have "ready c key s1" using assms(1) by (simp add: ready_def s1_def put_file_writes_def)
  from set_sync_lands [OF this assms(2,7,8)]
  have "landed c key (written_meta (fj_meta (wt_value t)) b) e (file_round c n s)"
    using assms(3,4) unfolding file_round_def s1_def
    by (simp add: Let_def split_def) (erule landed_cong, simp_all add: forget_queued_def put_file_writes_def split: option.split)
  moreover have "\<not> can_wait False key (ft_writes s)" using assms(5,6) by (simp add: can_wait_def can_submit_def current_worker_key_def)
  ultimately show ?thesis
    using assms(3) unfolding file_wait_def wait_by_def block_by_def
    by (simp add: Let_def) (erule landed_cong, simp_all add: put_file_writes_def)
qed

text \<open>A store queues the write.\<close>

lemma set_queues:
  assumes "ready c key s" and "queue_inv None (ft_writes s)" and "pw_queue (ft_writes s) = []" and "\<not> pw_shutdown (ft_writes s)" and "\<not> fn_child n"
    and "m_version_slot (stamped_meta n key metadata s) = None" and "serialize c False pickled v = Some (Stream b)"
    and "file_set c n key v metadata pickled private_value copied None s = (s', r)"
  obtains f t m where "r = None" and "pw_queue (ft_writes s') = [(f, t)]" and "wt_key t = key" and "map_of (pw_pending (ft_writes s')) key = Some f"
    and "\<not> fdone (ft_writes s') f" and "ready c key s'"
    and "(case fj_work (wt_value t) of Inl ser \<Rightarrow> Some ser | Inr v \<Rightarrow> serialize c False (fj_pickled (wt_value t)) v) = Some (Stream b)"
    and "fj_meta (wt_value t) = m" and "m_created_at m = m_created_at (stamped_meta n key metadata s)"
    and "m_ttl m = m_ttl (stamped_meta n key metadata s)" and "m_metadata_only m = m_metadata_only (stamped_meta n key metadata s)"
proof -
  let ?m0 = "stamped_meta n key metadata s"
  note rd = assms(1) [unfolded ready_def]
  have init: "ensure_initialized n s = s" using rd by (simp add: ensure_initialized_def)
  obtain todo nbytes m1 owned where plan: "plan_write c (ft_compress s) pickled private_value None v ?m0 = Some (todo, nbytes, m1, owned)"
    and todo: "(case todo of Inl ser \<Rightarrow> Some ser | Inr v \<Rightarrow> serialize c False pickled v) = Some (Stream b)"
    and m1: "m1 \<in> {?m0, ?m0\<lparr>m_size := Some (int (payload_bytes (Stream b)))\<rparr>}"
    using rd assms(7) by (cases private_value) (auto simp: plan_write_def)
  define m where "m = (if m_storage m1 = None then m1\<lparr>m_storage := Some [DISK_LABEL]\<rparr> else m1)"
  define j where "j = \<lparr>fj_serial = ft_serial s, fj_meta = m, fj_work = todo, fj_pickled = pickled\<rparr>"
  define s1 where "s1 = s\<lparr>ft_ev := (ft_ev s)\<lparr>fe_evictions := el_forget (ee_log (fn_evict n)) (fc_stem c key) (fe_evictions (ft_ev s))\<rparr>,
      ft_queued := (ft_queued s)(key \<mapsto> (ft_serial s, m)), ft_serial := ft_serial s + 1\<rparr>"
  define q where "q = ft_writes s"
  let ?t = "\<lparr>wt_key = key, wt_value = j, wt_bytes = Some nbytes\<rparr>" and ?f = "pw_next q"
  have new: "\<not> fdone q ?f" using queue_invD(5) [OF assms(2), of ?f] by (auto simp: q_def)
  obtain q1 where sub: "submit_sized key nbytes cp j q = Inr (q1 cp, ?f)" "pw_queue (q1 cp) = [(?f, ?t)]"
      "map_of (pw_pending (q1 cp)) key = Some ?f" "\<not> fdone (q1 cp) ?f" for cp
  proof (rule that [of "\<lambda>cp. q\<lparr>pw_queue := pw_queue q @ [(?f, ?t)], pw_next := ?f + 1, pw_pending := AList.update key ?f (pw_pending q),
      pw_sizes := AList.update ?f (nbytes, cp) (pw_sizes q)\<rparr>"])
  qed (use assms(3,4) new in \<open>simp_all add: submit_sized_def submit_def Let_def fdone_def q_def update_conv'\<close>)
  have idle: "block_by ft_writes (file_round c n) P s1 = s1" for P using assms(3) by (simp add: block_by_def s1_def)
  have w1: "ft_writes s1 = q" by (simp add: s1_def q_def)
  have "file_submit c n key nbytes cp j s1 = (put_file_writes (q1 cp) s1, Inr ?f)" for cp
    using sub(1) [of cp] idle assms(5) w1 by (cases cp) (simp_all add: file_submit_def submit_by_def Let_def)
  then have queued: "queue_write c n key todo nbytes m pickled cp s = (put_file_writes (q1 cp) s1, None)" for cp
    using sub(4) [of cp] unfolding queue_write_def Let_def j_def [symmetric] s1_def [symmetric] by simp
  have slot: "m_version_slot m = None" using assms(6) m1 by (auto simp: m_def)
  have run: "s' = put_file_writes (q1 (copied \<or> \<not> owned)) s1" "r = None"
    using assms(8) rd plan queued slot by (auto simp: file_set_def init m_def prune_slot_def Let_def)
  show thesis
  proof (rule that [of ?f ?t m])
    show "ready c key s'" using assms(1) by (simp add: ready_def run s1_def put_file_writes_def capped_def)
    show "(case fj_work (wt_value ?t) of Inl ser \<Rightarrow> Some ser | Inr v \<Rightarrow> serialize c False (fj_pickled (wt_value ?t)) v) = Some (Stream b)"
      using todo by (cases todo) (simp_all add: j_def)
  qed (use run sub [of "copied \<or> \<not> owned"] todo m1 in \<open>auto simp: j_def m_def\<close>)
qed

text \<open>And a read of the entry that landed serves it.\<close>

lemma get_landed:
  assumes "landed c key m e s2" and "\<And>env. \<exists>on_disk. read_entry_and_checksum (fc_loads c) env (whole_file e) True =
      (re_dir env, Inr (on_disk, Some (Plain b), Some (pe_checksum e))) \<and> m_created_at on_disk = m_created_at m"
    and "s2 = file_wait c n key s" and "ft_initialized s" and "\<not> ft_unusable s" and "fc_load c b = Some v" and "fn_restores n"
    and "de_readable (ee_dir (fn_evict n)) (get_path c key)" and "m_ttl m = VNone" and "\<not> m_metadata_only m" and "m_compressed m = None"
  shows "\<exists>s' m'. file_get c n key s = (s', Some (m', v)) \<and> m_ttl m' = VNone \<and> ft_default_ttl s' = None"
proof -
  let ?u = "live_env c None s2 (fn_evict n)"
  have init: "ensure_initialized n s = s" using assms(4) by (simp add: ensure_initialized_def)
  from assms(1) obtain f where f: "map_of (fe_files (ft_ev s2)) (get_path c key) = Some f" "df_data f = whole_file e"
    and held: "te_stored key (fe_touched (ft_ev s2)) = Some m" "te_identity key (fe_touched (ft_ev s2)) = Some (entry_identity m (Some (pe_checksum e)))"
    and ttl: "ft_default_ttl s2 = None" by (auto simp: landed_def)
  have "de_readable (ee_dir ?u) (get_path c key)" using assms(8) by (simp add: live_env_def)
  then obtain ev on_disk where read: "read_file c ?u (get_path c key) True (ft_ev s2) = (ev, Inr (on_disk, Some (Plain b), Some (pe_checksum e)))"
    and ev: "fe_touched ev = fe_touched (ft_ev s2)" and created: "m_created_at on_disk = m_created_at m"
    using f assms(2) [of "entry_env (ee_chunk_env ?u) (case fe_chunks (ft_ev s2) of None \<Rightarrow> init_store [] Map.empty | Some cs \<Rightarrow> cs)"]
    by (auto simp: read_file_def Let_def)
  have same: "same_write key on_disk (Some (pe_checksum e)) ev" using ev held created by (simp add: same_write_def entry_identity_def)
  have "\<not> is_expired (put_ev ev s2) (fn_now n) m"
    using ttl assms(9) by (simp add: is_expired_def put_ev_def meta_defs entry_metadata.defs)
  then have "\<exists>s' m'. serve_entry c n key m (Some (Plain b)) (put_ev ev s2) = (s', Some (m', v)) \<and> m_ttl m' = VNone \<and> ft_default_ttl s' = None"
    using assms(6,7,9-11) ttl by (simp add: serve_entry_def count_read_def put_ev_def stamp_access_def disk_source_def decode_def Let_def)
  then show ?thesis using init assms(5) read same held by (auto simp: file_get_def Let_def simp flip: assms(3))
qed

lemma store_then_read:
  assumes "ready c key s" and "queue_inv None (ft_writes s)" and "pw_queue (ft_writes s) = []" and "\<not> pw_shutdown (ft_writes s)"
    and "codec_ok c" and "serialize c False pickled v = Some (Stream b)" and "pickles_at c t"
    and "m0 = stamped_meta n key metadata s" and "m_created_at m0 = Some t" and "m_ttl m0 = VNone" and "\<not> m_metadata_only m0" and "m_version_slot m0 = None"
    and "\<not> fn_child n" and "\<And>f. write_succeeds (fn_work n' f)" and "fn_restores n'" and "de_readable (ee_dir (fn_evict n')) (get_path c key)"
  shows "\<exists>s' m. file_get c n' key (fst (file_set c n key v metadata pickled private_value copied None s)) = (s', Some (m, v)) \<and> m_ttl m = VNone \<and> ft_default_ttl s' = None"
proof -
  obtain s1 r where set: "file_set c n key v metadata pickled private_value copied None s = (s1, r)" by (metis surj_pair)
  obtain f task m where q: "pw_queue (ft_writes s1) = [(f, task)]" "wt_key task = key" "map_of (pw_pending (ft_writes s1)) key = Some f" "\<not> fdone (ft_writes s1) f"
      and rd: "ready c key s1"
      and todo: "(case fj_work (wt_value task) of Inl ser \<Rightarrow> Some ser | Inr v \<Rightarrow> serialize c False (fj_pickled (wt_value task)) v) = Some (Stream b)"
      and m: "fj_meta (wt_value task) = m" "m_created_at m = Some t" "m_ttl m = VNone" "\<not> m_metadata_only m"
    using set_queues [OF assms(1-4,13) assms(12) [unfolded assms(8)] assms(6) set] assms(8-11) by metis
  have load: "fc_load c b = Some v"
    using assms(6) codec_okD(6,8) [OF assms(5), of v b] by (auto simp: serialize_def split: if_splits)
  let ?m = "written_meta m b"
  have created: "m_created_at ?m = Some t" using m(2) by (simp add: written_meta_def)
  obtain e where e: "pack_entry_parts (fc_dumps c) ?m [b] False None = Some e" "pe_checksum e = checksum b"
      "\<forall>env. \<exists>on_disk. read_entry_and_checksum (fc_loads c) env (whole_file e) True = (re_dir env, Inr (on_disk, Some (Plain b), Some (checksum b)))
         \<and> m_created_at on_disk = Some t"
    by (rule packs_at [where b = b, OF assms(7) created])
  have "landed c key ?m e (file_wait c n' key s1)"
    using wait_lands [OF rd assms(14) q todo, of e] e(1) m(1) by simp
  from get_landed [OF this _ refl _ _ load assms(15,16)] e(2,3) m(3,4) created rd set show ?thesis
    by (auto simp: written_meta_def ready_def)
qed

lemma opened_once: "ensure_initialized n (ensure_initialized n' s) = ensure_initialized n' s"
  by (simp add: ensure_initialized_def disable_def Let_def)

lemma opened_set: "file_set c n key v metadata pickled private_value copied given (ensure_initialized n s) = file_set c n key v metadata pickled private_value copied given s"
  by (simp add: file_set_def opened_once)


text \<open>A metadata-only entry takes room in the folder that the running byte total is not told of: once it is removed, the
  total is short by its size.\<close>

lemma metadata_only_uncounted:
  assumes "ready c key s" and "pw_queue (ft_writes s) = []" and "te_stored key (fe_touched (ft_ev s)) = None" and "write_succeeds (fn_own n)"
    and "pack_entry_parts (fc_dumps c) (only_metadata (fn_now n) key metadata) [[]] False None = Some e"
  shows "fe_current (ft_ev (file_set_metadata_only c n key metadata s)) = fe_current (ft_ev s)"
    and "entry_bytes (fe_files (ft_ev (file_set_metadata_only c n key metadata s))) = entry_bytes (fe_files (ft_ev s)) + int (length (whole_file e))"
proof -
  note rd = assms(1) [unfolded ready_def] and ok = assms(4) [unfolded write_succeeds_def]
  have init: "ensure_initialized n s = s" using rd by (simp add: ensure_initialized_def)
  define s1 where "s1 = file_wait c n key s"
  have s1: "ft_ev s1 = ft_ev s" using assms(2) by (simp add: s1_def file_wait_def wait_by_def block_by_def Let_def)
  have known: "known_entry c (live_env c None s1 (fn_evict n)) key (ft_ev s1) = (ft_ev s1, None)"
    using assms(3) rd by (simp add: known_entry_def read_file_def s1)
  define ev where "ev = (ft_ev s)\<lparr>fe_files := fe_files (ft_ev s) @ [(get_path c key, new_dir_file (ee_dir (fw_evict (fn_own n))) (whole_file e))]\<rparr>"
  have "on_files (write_either (fn_own n) (get_path c key) e) (ft_ev s1) = (ev, None)"
    using rd ok by (simp add: on_files_def write_either_def write_new_in_place_def s1 ev_def Let_def)
  then have "file_set_metadata_only c n key metadata s = put_ev (remember_entry c key (only_metadata (fn_now n) key metadata) (Some (payload_checksum [])) None ev) (put_ev (ft_ev s1) s1)"
    using rd known assms(5) by (simp add: file_set_metadata_only_def init Let_def flip: s1_def)
  then show "fe_current (ft_ev (file_set_metadata_only c n key metadata s)) = fe_current (ft_ev s)"
    "entry_bytes (fe_files (ft_ev (file_set_metadata_only c n key metadata s))) = entry_bytes (fe_files (ft_ev s)) + int (length (whole_file e))"
    using entry_path [of c key] by (simp_all add: ev_def remember_entry_def on_touched_def entry_bytes_def new_dir_file_def)
qed

subsection \<open>A small codec\<close>

text \<open>Metadata as its checksum, byte after byte behind a one, closed by a two; a boolean as one byte; nothing is compressed.\<close>

definition small_dumps :: "stored_meta \<Rightarrow> byte list" where
  "small_dumps m = (case sm_checksum m of None \<Rightarrow> [3] | Some crc \<Rightarrow> concat (map (\<lambda>b. [1, b]) crc) @ [2])"

fun small_parse :: "byte list \<Rightarrow> byte list option" where
  "small_parse [] = None"
| "small_parse [x] = (if x = 2 then Some [] else None)"
| "small_parse (x # b # rest) = (if x = 1 then map_option ((#) b) (small_parse rest) else None)"

definition small_loads :: "byte list \<Rightarrow> unpickled" where
  "small_loads bs = (if bs = [3] then Dict (empty_stored\<lparr>m_created_at := Some 10\<rparr>)
     else case small_parse bs of None \<Rightarrow> Raises | Some crc \<Rightarrow> Dict (empty_stored\<lparr>m_created_at := Some 10, sm_checksum := Some crc\<rparr>))"

definition small_codec :: "bool file_codec" where
  "small_codec = \<lparr>fc_stem = (#) (CHR ''k''), fc_dumps = small_dumps, fc_loads = small_loads, fc_split = (\<lambda>v. Some ([of_bool v], [])),
     fc_dump = (\<lambda>v. Some [of_bool v]), fc_load = (\<lambda>b. if b = [0] then Some False else if b = [1] then Some True else None),
     fc_join = (\<lambda>_ _. None), fc_zstd = False, fc_pack = (\<lambda>b. 7 # b), fc_unpack = (\<lambda>_ _. None)\<rparr>"

lemma parse_dumped: "small_parse (concat (map (\<lambda>b. [1, b]) crc) @ [2]) = Some crc"
proof (induction crc)
  case (Cons b crc)
  then show ?case by simp
qed simp

lemma parse_zeros: "small_parse (zeros i) = None"
proof (cases i)
  case (Suc j)
  then show ?thesis by (cases j) (simp_all add: zeros_def)
qed (simp add: zeros_def)

lemma parse_torn:
  assumes "k < length (concat (map (\<lambda>b. [1, b]) crc) @ [2])"
  shows "small_parse (take n (take k (concat (map (\<lambda>b. [1, b]) crc) @ [2]) @ zeros r)) = None"
  using assms
proof (induction crc arbitrary: k n)
  case Nil
  have "take n (zeros r) = zeros (min n r)" by (simp add: zeros_def min_def)
  with Nil parse_zeros show ?case by simp
next
  case (Cons b crc)
  let ?rest = "concat (map (\<lambda>b. [1, b]) crc) @ [2]"
  have zeros: "take i (zeros r) = zeros (min i r)" for i by (simp add: zeros_def min_def)
  consider k' n' where "k = Suc (Suc k')" "n = Suc (Suc n')" | "n = 0" | "k = 0" | k' where "k = Suc k'" "n = Suc 0" | n' where "k = Suc 0" "n = Suc (Suc n')"
    by (metis not0_implies_Suc)
  then show ?case
  proof cases
    case 1
    with Cons.IH [of k' n'] Cons.prems show ?thesis by simp
  next
    case (5 n')
    have "small_parse (1 # zeros j) = None" for j
      using parse_zeros [of "j - 1"] by (cases j) (simp_all add: zeros_def)
    with 5 show ?thesis by (simp add: zeros)
  qed (simp_all add: zeros parse_zeros)
qed

lemma torn_start: "take n (take k xs @ zeros r) = [x] \<Longrightarrow> xs \<noteq> [] \<Longrightarrow> x = hd xs \<or> x = 0"
  by (cases xs; cases n; cases k; cases r) (auto simp: zeros_def)

lemma small_codec_ok: "codec_ok small_codec"
proof -
  have "\<exists>m'. small_loads (small_dumps m) = Dict m' \<and> sm_checksum m' = sm_checksum m" for m
    by (auto simp: small_loads_def small_dumps_def parse_dumped empty_stored_def entry_metadata.defs stored_meta.defs split: option.split)
  moreover have "rejects_torn small_loads (small_dumps m)" for m
  proof (cases "sm_checksum m")
    case None
    have "take n (take 0 [3] @ zeros r) = zeros (min n r)" for n r by (simp add: zeros_def min_def)
    moreover have "zeros i \<noteq> [3]" for i by (cases i) (simp_all add: zeros_def)
    ultimately show ?thesis using None by (simp add: rejects_torn_def small_dumps_def small_loads_def parse_zeros)
  next
    case (Some crc)
    have "hd (concat (map (\<lambda>b. [1, b]) crc) @ [2]) \<in> {1, 2}" by (cases crc) simp_all
    then have "take n (take k (concat (map (\<lambda>b. [1, b]) crc) @ [2]) @ zeros r) \<noteq> [3]" for n k r
      using torn_start [of n k "concat (map (\<lambda>b. [1, b]) crc) @ [2]" r 3] by auto
    then have "small_loads (take n (take k (concat (map (\<lambda>b. [1, b]) crc) @ [2]) @ zeros r)) = Raises"
      if "k < length (concat (map (\<lambda>b. [1, b]) crc) @ [2])" for k n r
      using parse_torn [OF that, of n r] by (simp only: small_loads_def if_False option.case)
    then show ?thesis using Some by (auto simp: rejects_torn_def small_dumps_def)
  qed
  ultimately show ?thesis
    by (simp add: codec_ok_def small_codec_def inj_def)
qed

lemma small_codec_facts:
  "small_buffers small_codec" "pickles_at small_codec 10" "serialize small_codec False True v = Some (Stream [of_bool v])"
proof -
  show "small_buffers small_codec" by (simp add: small_buffers_def small_codec_def)
  show "serialize small_codec False True v = Some (Stream [of_bool v])" by (simp add: serialize_def small_codec_def)
  have "length (concat (map (\<lambda>b. [1, b]) crc) @ [2]) = 2 * length crc + 1" for crc :: "byte list" by (induction crc) simp_all
  then show "pickles_at small_codec 10"
    by (auto simp: pickles_at_def small_codec_def small_dumps_def small_loads_def parse_dumped META_SLACK_def simp del: length_append)
qed

text \<open>Nothing fails, it is second 10, and the backend is opened over an empty folder.\<close>

definition small_work :: file_work where
  "small_work = \<lparr>fw_now = 10, fw_took = 1, fw_evict = sample_evict_env, fw_host = ''h'', fw_pid = ''1'', fw_alive = (\<lambda>_. True), fw_opens = True,
     fw_fails = None, fw_removes = True, fw_random = (\<lambda>_. ''r''), fw_temp_fails = None, fw_vanished = False, fw_recreates = True, fw_error = ''e''\<rparr>"

definition small_env :: file_env where
  "small_env = \<lparr>fn_now = 10, fn_evict = sample_evict_env, fn_makes_dir = True, fn_child = False, fn_ttl_given = False, fn_restores = True, fn_rounds = 0,
     fn_work = (\<lambda>_. small_work), fn_own = small_work, fn_versions_readable = True, fn_versions_wrote = True, fn_versions_renamed = True, fn_versions_removed = True\<rparr>"

definition small_call :: file_call where
  "small_call = \<lparr>fl_env = small_env, fl_meta = None, fl_pickled = True, fl_private = False, fl_copied = False, fl_given = False, fl_sides = []\<rparr>"

definition small_tier :: "bool file_tier" where
  "small_tier = file_init (evictor_start [] None None False) True None False None 0 \<lparr>vx_state = None, vx_lines = 0, vx_file = None\<rparr>"

lemma small_opened:
  "ensure_initialized small_env small_tier = small_tier\<lparr>ft_stamp := Some \<lparr>sf_text = Some stamp_text, sf_token = (100, length stamp_text, 5)\<rparr>,
     ft_written := Some (100, length stamp_text, 5), ft_stamp_writes := 1, ft_initialized := True\<rparr>"
  by (simp add: ensure_initialized_def small_env_def small_tier_def file_init_def make_dir_def dir_state_def put_dir_state_def check_stamp_def
      stored_version_def write_stamp_def token_def evictor_start_def sample_evict_env_def sample_dir_env_def CACHE_FORMAT_VERSION_def entry_files_def Let_def)

lemma small_ready: "ready small_codec ''a'' (ensure_initialized small_env small_tier)"
  unfolding small_opened by (simp add: ready_def small_tier_def file_init_def evictor_start_def capped_def)

lemma small_stamped:
  "m_created_at (stamped_meta small_env ''a'' None s) = Some 10" "m_ttl (stamped_meta small_env ''a'' None (ensure_initialized small_env small_tier)) = VNone"
  "\<not> m_metadata_only (stamped_meta small_env ''a'' None s)" "m_version_slot (stamped_meta small_env ''a'' None s) = None"
  unfolding small_opened
  by (simp_all add: stamped_meta_def init_metadata_def as_stored_def no_metadata_def entry_metadata.defs stored_meta.defs small_env_def
      small_tier_def file_init_def Let_def)

lemma small_side:
  "queue_inv None (ft_writes small_tier)" "pw_queue (ft_writes small_tier) = []" "\<not> pw_shutdown (ft_writes small_tier)"
  "\<not> fn_child small_env" "write_succeeds (fn_work small_env f)" "fn_restores small_env" "de_readable (ee_dir (fn_evict small_env)) path"
  using queue_inv_init
  by (simp_all add: small_tier_def file_init_def pw_init_def small_env_def small_work_def write_succeeds_def sample_evict_env_def sample_dir_env_def)


lemma small_come: "come_so_far c small_call s = s"
  by (simp add: come_so_far_def file_meanwhile_def small_call_def small_env_def)

lemma small_stored_read: "snd (file_read_op small_codec small_call ''a'' (fst (file_store_op small_codec small_call ''a'' True small_tier))) = Some True"
proof -
  have w: "ft_writes (ensure_initialized small_env small_tier) = ft_writes small_tier" by (rule ensure_initialized_keeps(2))
  obtain s' m where "file_get small_codec small_env ''a'' (fst (file_set small_codec small_env ''a'' True None True False False None small_tier)) = (s', Some (m, True))"
    using store_then_read [where c = small_codec and key = "''a''" and n = small_env and n' = small_env and metadata = None and v = True,
      OF small_ready _ _ _ small_codec_ok small_codec_facts(3) small_codec_facts(2) refl small_stamped small_side(4-7), unfolded w, OF small_side(1-3), unfolded opened_set] by blast
  then show ?thesis unfolding file_read_op_def file_store_op_def small_come by (simp add: split_def small_call_def)
qed

text \<open>Where a removal is not refused, the file of a deleted key is gone.\<close>

lemma removed_at_once:
  assumes "\<And>i. \<not> ee_denied w path i" and "\<not> ee_stuck w path"
  shows "map_of (fe_files (fst (remove_path w path key ev))) path = None"
proof -
  have "remove_with_retry w ev path i k \<in> {Missing, Removed}" for i k
    using assms by (cases k) (simp_all add: attempt_remove_def)
  then have "remove_with_retry w ev path 0 REMOVE_RETRIES \<notin> {Denied, Failed}" by (metis empty_iff insert_iff removal.distinct)
  then show ?thesis by (simp add: remove_path_def rewritten_names map_of_delete Let_def split_def split: option.split)
qed

lemma small_deleted: "snd (file_delete_op small_codec small_call ''a'' s) \<or> ft_unusable (ensure_initialized small_env s)"
  using removed_at_once [of "live_env small_codec None _ sample_evict_env"]
  by (simp add: file_delete_op_def file_delete_def small_come Let_def) (simp add: small_call_def small_env_def live_env_def sample_evict_env_def)




end
