(* ===== verification/Tiered_Files.thy ===== *)
theory Tiered_Files
  imports Tiered_Properties File_Round_Trip
begin

text \<open>
  The stack cash builds by default, RAM in front of files, and any other mix with SQLite: the file tier behind the methods
  of \<open>CacheBackend\<close>, beside the tiers of \<open>Tiered_Instance\<close>. The laws the tiered backend relies on follow from the contract of
  each tier.

  Two differences to the code: a removal the operating system refuses is silent in \<open>FileBackend\<close>, so \<open>delete\<close> and \<open>clear\<close> are
  modelled where files can be removed; and what the tiered backend writes to the dict a file read returned is
  not carried into what the file tier remembers of the entry.
\<close>

subsection \<open>The file tier as a tier\<close>

text \<open>A tier of \<open>Tiered_Instance\<close>, or the file tier over a folder.\<close>

datatype 'v cash_tier = OtherTier "'v tier" | FileTier string "'v file_tier"

text \<open>\<open>cl_token\<close> numbers the stamps of the folder.\<close>

record cash_call =
  cl_other :: tier_call
  cl_env :: file_env
  cl_pickled :: bool
  cl_token :: "int \<times> nat \<times> nat \<Rightarrow> nat"

definition removing :: "file_env \<Rightarrow> file_env" where
  "removing n = n\<lparr>fn_evict := (fn_evict n)\<lparr>ee_denied := (\<lambda>_ _. False), ee_stuck := (\<lambda>_. False),
     ee_dir := (ee_dir (fn_evict n))\<lparr>de_removable := (\<lambda>_. True)\<rparr>\<rparr>\<rparr>"

text \<open>The metadata dict after \<open>set\<close>, which stamps it as far as it gets.\<close>

definition file_metadata_after :: "'v file_codec \<Rightarrow> cash_call \<Rightarrow> handing \<Rightarrow> string \<Rightarrow> 'v \<Rightarrow> entry_metadata \<Rightarrow> 'v file_tier \<Rightarrow> entry_metadata" where
  "file_metadata_after c i how key v m s = (let n = cl_env i; s = ensure_initialized n s; stamped = stamped_meta n key (Some m) s in
     if ft_unusable s then m
     else case plan_write c (ft_compress s) (cl_pickled i) (h_private how) (if h_serialized how then serialize c False True v else None) v stamped of
       None \<Rightarrow> entry_metadata.truncate stamped
     | Some (_, _, m', _) \<Rightarrow> entry_metadata.truncate (if m_storage m' = None then m'\<lparr>m_storage := Some [DISK_LABEL]\<rparr> else m'))"

definition file_tier_set ::
  "'v file_codec \<Rightarrow> cash_call \<Rightarrow> handing \<Rightarrow> string \<Rightarrow> 'v \<Rightarrow> entry_metadata \<Rightarrow> 'v file_tier \<Rightarrow> 'v file_tier \<times> entry_metadata \<times> (failure + bool)" where
  "file_tier_set c i how key v m s = (let n = cl_env i; s = file_meanwhile c n s in
     case file_set c n key v (Some m) (cl_pickled i) (h_private how) (h_copied how) (if h_serialized how then serialize c False True v else None) s of
       (s', None) \<Rightarrow> (s', file_metadata_after c i how key v m s, Inr True)
     | (s', Some e) \<Rightarrow> (s', file_metadata_after c i how key v m s, Inl (failed (cl_other i) e)))"

definition file_tier_get :: "'v file_codec \<Rightarrow> cash_call \<Rightarrow> string \<Rightarrow> 'v file_tier \<Rightarrow> 'v file_tier \<times> (failure + (entry_metadata \<times> 'v) option)" where
  "file_tier_get c i key s = (case file_get c (cl_env i) key (file_meanwhile c (cl_env i) s) of
       (s, r) \<Rightarrow> (s, Inr (map_option (\<lambda>(m, v). (entry_metadata.truncate m, v)) r)))"

definition file_tier_metadata ::
  "(file_env \<Rightarrow> string \<Rightarrow> 'v file_tier \<Rightarrow> 'v file_tier \<times> stored_meta option) \<Rightarrow> 'v file_codec \<Rightarrow> cash_call \<Rightarrow> string \<Rightarrow> 'v file_tier
    \<Rightarrow> 'v file_tier \<times> (failure + entry_metadata option)" where
  "file_tier_metadata f c i key s = (case f (cl_env i) key (file_meanwhile c (cl_env i) s) of (s, m) \<Rightarrow> (s, Inr (map_option entry_metadata.truncate m)))"

definition file_stamp :: "cash_call \<Rightarrow> 'v file_tier \<Rightarrow> nat disk_stamp" where
  "file_stamp i s = \<lparr>ds_token = Inr (map_option (cl_token i) (generation_token s)), ds_stamp_writes = ft_stamp_writes s,
     ds_written_stamp = map_option (cl_token i) (ft_written s)\<rparr>"

definition on_other :: "('v tier \<Rightarrow> 'v tier \<times> 'a) \<Rightarrow> 'v tier \<Rightarrow> 'v cash_tier \<times> 'a" where
  "on_other f t = (case f t of (t, x) \<Rightarrow> (OtherTier t, x))"

definition on_file :: "string \<Rightarrow> ('v file_tier \<Rightarrow> 'v file_tier \<times> 'a) \<Rightarrow> 'v file_tier \<Rightarrow> 'v cash_tier \<times> 'a" where
  "on_file dir f s = (case f s of (s, x) \<Rightarrow> (FileTier dir s, x))"

abbreviation others :: "(tier_call, 'v tier, 'v) backend" where
  "others \<equiv> tiers_of_cash"

definition tiers_with_files :: "'v file_codec \<Rightarrow> (cash_call, 'v cash_tier, 'v) backend" where
  "tiers_with_files c = \<lparr>
     b_get = \<lambda>i key t. (case t of OtherTier x \<Rightarrow> on_other (b_get others (cl_other i) key) x | FileTier dir s \<Rightarrow> on_file dir (file_tier_get c i key) s),
     b_set = \<lambda>i how key v m d t. (case t of OtherTier x \<Rightarrow> on_other (b_set others (cl_other i) how key v m d) x
       | FileTier dir s \<Rightarrow> on_file dir (file_tier_set c i how key v m) s),
     b_delete = \<lambda>i key t. (case t of OtherTier x \<Rightarrow> on_other (b_delete others (cl_other i) key) x
       | FileTier dir s \<Rightarrow> (FileTier dir (file_delete c (removing (cl_env i)) key (file_meanwhile c (cl_env i) s)), None)),
     b_clear = \<lambda>i t. (case t of OtherTier x \<Rightarrow> on_other (b_clear others (cl_other i)) x
       | FileTier dir s \<Rightarrow> (FileTier dir (file_clear c (removing (cl_env i)) (file_meanwhile c (cl_env i) s)), None)),
     b_promote = \<lambda>i key v m d t. (case t of OtherTier x \<Rightarrow> map_option (map_prod OtherTier id) (b_promote others (cl_other i) key v m d x) | FileTier _ _ \<Rightarrow> None),
     b_get_metadata = \<lambda>i key t. (case t of OtherTier x \<Rightarrow> on_other (b_get_metadata others (cl_other i) key) x
       | FileTier dir s \<Rightarrow> on_file dir (file_tier_metadata (file_get_metadata c) c i key) s),
     b_peek_metadata = \<lambda>i key t. (case t of OtherTier x \<Rightarrow> on_other (b_peek_metadata others (cl_other i) key) x
       | FileTier dir s \<Rightarrow> on_file dir (file_tier_metadata (file_peek_metadata c) c i key) s),
     b_set_metadata_only = \<lambda>i key m t. (case t of OtherTier x \<Rightarrow> on_other (b_set_metadata_only others (cl_other i) key m) x
       | FileTier dir s \<Rightarrow> (FileTier dir (file_set_metadata_only c (cl_env i) key m (file_meanwhile c (cl_env i) s)), None)),
     b_bump_generation = \<lambda>i t. (case t of OtherTier x \<Rightarrow> on_other (b_bump_generation others (cl_other i)) x
       | FileTier dir s \<Rightarrow> (FileTier dir (bump_generation (cl_env i) s), None)),
     b_list_entries = \<lambda>i t. (case t of OtherTier x \<Rightarrow> on_other (b_list_entries others (cl_other i)) x
       | FileTier dir s \<Rightarrow> on_file dir (\<lambda>s. map_prod id (\<lambda>ms. Inr (map entry_metadata.truncate ms)) (file_list_entries c (cl_env i) (file_meanwhile c (cl_env i) s))) s),
     b_entry_count = \<lambda>i t. (case t of OtherTier x \<Rightarrow> on_other (b_entry_count others (cl_other i)) x
       | FileTier dir s \<Rightarrow> on_file dir (\<lambda>s. map_prod id Inr (file_entry_count c (cl_env i) (file_meanwhile c (cl_env i) s))) s),
     b_shutdown = \<lambda>i t. (case t of OtherTier x \<Rightarrow> on_other (b_shutdown others (cl_other i)) x
       | FileTier dir s \<Rightarrow> (FileTier dir (file_shutdown c (cl_env i) (file_meanwhile c (cl_env i) s)), None)),
     b_peek_entry = \<lambda>i want key t. (case t of OtherTier x \<Rightarrow> b_peek_entry others (cl_other i) want key x | FileTier _ _ \<Rightarrow> Inr None),
     b_private_copy = \<lambda>key d t. (case t of OtherTier x \<Rightarrow> b_private_copy others key d x | FileTier _ _ \<Rightarrow> None),
     b_stored_payload = \<lambda>i key d t. (case t of OtherTier x \<Rightarrow> b_stored_payload others (cl_other i) key d x | FileTier _ _ \<Rightarrow> None),
     b_write_copy = \<lambda>i key v m t. (case t of OtherTier x \<Rightarrow> b_write_copy others (cl_other i) key v m x | FileTier _ _ \<Rightarrow> None),
     b_may_share = \<lambda>key t. (case t of OtherTier x \<Rightarrow> b_may_share others key x | FileTier _ _ \<Rightarrow> False),
     b_holds_own_copy = \<lambda>key t. (case t of OtherTier x \<Rightarrow> b_holds_own_copy others key x | FileTier _ _ \<Rightarrow> False),
     b_release_handoff = \<lambda>t. (case t of OtherTier x \<Rightarrow> OtherTier (b_release_handoff others x) | FileTier _ _ \<Rightarrow> t),
     b_write_back = \<lambda>d m t. (case t of OtherTier x \<Rightarrow> OtherTier (b_write_back others d m x) | FileTier _ _ \<Rightarrow> t),
     b_note_restore = \<lambda>kind m seconds t. (case t of OtherTier x \<Rightarrow> OtherTier (b_note_restore others kind m seconds x) | FileTier _ _ \<Rightarrow> t),
     b_label = \<lambda>t. (case t of OtherTier x \<Rightarrow> b_label others x | FileTier _ _ \<Rightarrow> DISK_LABEL),
     b_class = \<lambda>t. (case t of OtherTier x \<Rightarrow> b_class others x | FileTier _ _ \<Rightarrow> ''FileBackend''),
     b_cost_kind = \<lambda>t. (case t of OtherTier x \<Rightarrow> b_cost_kind others x | FileTier _ _ \<Rightarrow> ''disk''),
     b_default_ttl = \<lambda>t. (case t of OtherTier x \<Rightarrow> b_default_ttl others x | FileTier _ s \<Rightarrow> ft_default_ttl s),
     b_size_cap = \<lambda>i t. (case t of OtherTier x \<Rightarrow> b_size_cap others (cl_other i) x | FileTier _ s \<Rightarrow> file_promotion_size_cap None s),
     b_takes_private = \<lambda>t. (case t of OtherTier x \<Rightarrow> b_takes_private others x | FileTier _ _ \<Rightarrow> True),
     b_compress = \<lambda>t. (case t of OtherTier x \<Rightarrow> b_compress others x | FileTier _ s \<Rightarrow> ft_compress s),
     b_local_dir = \<lambda>t. (case t of OtherTier x \<Rightarrow> b_local_dir others x | FileTier dir _ \<Rightarrow> Some dir),
     b_stamp = \<lambda>i t. (case t of OtherTier x \<Rightarrow> b_stamp others (cl_other i) x | FileTier _ s \<Rightarrow> file_stamp i s)\<rparr>"

subsection \<open>The laws\<close>

definition mixed_ok :: "'v file_codec \<Rightarrow> 'v cash_tier \<Rightarrow> bool" where
  "mixed_ok c t = (case t of OtherTier x \<Rightarrow> tier_ok x | FileTier _ s \<Rightarrow> file_inv c s)"

definition mixed_held :: "'v file_codec \<Rightarrow> 'v cash_tier \<Rightarrow> string \<Rightarrow> 'v set" where
  "mixed_held c t = (case t of OtherTier x \<Rightarrow> tier_held x | FileTier _ s \<Rightarrow> file_held c s)"

definition mixed_kept :: "'v cash_tier \<Rightarrow> string \<Rightarrow> nat \<Rightarrow> 'v set" where
  "mixed_kept t = (case t of OtherTier x \<Rightarrow> tier_kept x | FileTier _ _ \<Rightarrow> (\<lambda>_ _. {}))"

abbreviation mixed_step :: "'v file_codec \<Rightarrow> (string \<Rightarrow> 'v set) \<Rightarrow> nat \<Rightarrow> 'v cash_tier \<Rightarrow> 'v cash_tier \<Rightarrow> bool" where
  "mixed_step c \<equiv> step_to (mixed_ok c) (mixed_held c) mixed_kept"

lemma other_step: "mixed_step c vs e (OtherTier x) (OtherTier x') = tier_step vs e x x'"
  by (simp add: step_to_def mixed_ok_def mixed_held_def mixed_kept_def)

lemma file_step: "fine c s s' \<Longrightarrow> mixed_step c vs e (FileTier dir s) (FileTier dir s')"
  by (auto simp: step_to_def mixed_ok_def mixed_held_def mixed_kept_def fine_def file_keeps_def)

lemma mixed_step_refl: "mixed_ok c t \<Longrightarrow> mixed_step c vs e t t"
  by (simp add: step_to_def)

lemma removing_clear:
  assumes "\<not> ft_unusable (ensure_initialized (removing n) s)"
  shows "entry_files (fe_files (ft_ev (file_clear c (removing n) s))) = []"
  using assms by (auto simp: file_clear_def removing_def entry_files_def put_ev_def evictor_clear_def filter_empty_conv Let_def)

lemma removing_delete:
  assumes "\<not> ft_unusable (ensure_initialized (removing n) s)"
  shows "map_of (fe_files (ft_ev (file_delete c (removing n) key s))) (get_path c key) = None"
  using assms removed_at_once [of "live_env c None _ (fn_evict (removing n))" "get_path c key"]
  by (simp add: file_delete_def live_env_def Let_def) (simp add: removing_def)

lemma unusable_ops:
  assumes "ft_unusable (ensure_initialized n s)"
  shows "file_held c (file_delete c n key s) k = {}" and "file_held c (file_clear c n s) k = {}"
  using assms by (simp_all add: file_delete_def file_clear_def file_held_def Let_def)

lemma file_set_step:
  assumes "file_inv c s" and "file_tier_set c i how key v m s = (s', m', q)"
  shows "mixed_step c (only key v) e (FileTier dir s) (FileTier dir s')"
proof -
  let ?s = "file_meanwhile c (cl_env i) s"
  have "gains c key {v} s (fst (file_set c (cl_env i) key v (Some m) (cl_pickled i) (h_private how) (h_copied how) (if h_serialized how then serialize c False True v else None) ?s))"
    by (rule gains_after [OF fine_waits(4) [OF assms(1)] file_set_gains [OF fine_inv [OF fine_waits(4) [OF assms(1)]] own_pickle [OF assms(1)]]])
  then have "gains c key {v} s s'" using assms(2) by (auto simp: file_tier_set_def Let_def split: prod.splits option.splits)
  then show ?thesis by (auto simp: step_to_def mixed_ok_def mixed_held_def mixed_kept_def gains_def only_def)
qed

lemma file_get_step:
  assumes "file_inv c s" and "file_tier_get c i key s = (s', r)"
  shows "mixed_step c vs e (FileTier dir s) (FileTier dir s')" and "r = Inr (Some (m, v)) \<Longrightarrow> v \<in> file_held c s key"
proof -
  let ?s = "file_meanwhile c (cl_env i) s"
  note s1 = fine_waits(4) [OF assms(1), where n = "cl_env i"]
  obtain x where get: "file_get c (cl_env i) key ?s = (s', x)" and r: "r = Inr (map_option (\<lambda>(m, v). (entry_metadata.truncate m, v)) x)"
    using assms(2) by (auto simp: file_tier_get_def split: prod.splits)
  show "mixed_step c vs e (FileTier dir s) (FileTier dir s')"
    by (rule file_step [OF fine_trans [OF s1 file_get_ok(1) [OF fine_inv [OF s1] get]]])
  show "v \<in> file_held c s key" if found: "r = Inr (Some (m, v))"
  proof -
    obtain m0 where "x = Some (m0, v)" using found r by auto
    from file_get_ok(2) [OF fine_inv [OF s1] get this] s1 show ?thesis unfolding fine_def file_keeps_def by blast
  qed
qed

lemma file_removed:
  assumes "file_inv c s"
  shows "file_held c (file_delete c (removing n) key s) key = {}" and "file_held c (file_clear c (removing n) s) k = {}"
  using file_delete_gone [OF assms removing_delete] file_clear_ok(2) [OF assms removing_clear] unusable_ops by metis+

lemma file_removal_steps:
  assumes "file_inv c s"
  shows "mixed_step c vs e (FileTier dir s) (FileTier dir (file_delete c n key (file_meanwhile c n' s)))"
    and "mixed_step c vs e (FileTier dir s) (FileTier dir (file_clear c n (file_meanwhile c n' s)))"
  using fine_trans [OF fine_waits(4) [OF assms] file_delete_fine [OF fine_inv [OF fine_waits(4) [OF assms]]]]
    fine_trans [OF fine_waits(4) [OF assms] file_clear_ok(1) [OF fine_inv [OF fine_waits(4) [OF assms]]]] file_step by blast+

lemma other_methods:
  "b_get (tiers_with_files c) i key (OtherTier x) = on_other (b_get others (cl_other i) key) x"
  "b_set (tiers_with_files c) i how key v m d (OtherTier x) = on_other (b_set others (cl_other i) how key v m d) x"
  "b_delete (tiers_with_files c) i key (OtherTier x) = on_other (b_delete others (cl_other i) key) x"
  "b_clear (tiers_with_files c) i (OtherTier x) = on_other (b_clear others (cl_other i)) x"
  "b_release_handoff (tiers_with_files c) (OtherTier x) = OtherTier (b_release_handoff others x)"
  "b_write_back (tiers_with_files c) d m (OtherTier x) = OtherTier (b_write_back others d m x)"
  "b_note_restore (tiers_with_files c) kind m seconds (OtherTier x) = OtherTier (b_note_restore others kind m seconds x)"
  "b_private_copy (tiers_with_files c) key d (OtherTier x) = b_private_copy others key d x"
  "b_write_copy (tiers_with_files c) i key v m (OtherTier x) = b_write_copy others (cl_other i) key v m x"
  "b_peek_entry (tiers_with_files c) i want key (OtherTier x) = b_peek_entry others (cl_other i) want key x"
  "b_stored_payload (tiers_with_files c) i key d (OtherTier x) = b_stored_payload others (cl_other i) key d x"
  "b_promote (tiers_with_files c) i key v m d (OtherTier x) = map_option (map_prod OtherTier id) (b_promote others (cl_other i) key v m d x)"
  by (simp_all add: tiers_with_files_def)

lemma file_methods:
  "b_get (tiers_with_files c) i key (FileTier dir s) = on_file dir (file_tier_get c i key) s"
  "b_set (tiers_with_files c) i how key v m d (FileTier dir s) = on_file dir (file_tier_set c i how key v m) s"
  "b_delete (tiers_with_files c) i key (FileTier dir s) = (FileTier dir (file_delete c (removing (cl_env i)) key (file_meanwhile c (cl_env i) s)), None)"
  "b_clear (tiers_with_files c) i (FileTier dir s) = (FileTier dir (file_clear c (removing (cl_env i)) (file_meanwhile c (cl_env i) s)), None)"
  "b_release_handoff (tiers_with_files c) (FileTier dir s) = FileTier dir s"
  "b_write_back (tiers_with_files c) d m (FileTier dir s) = FileTier dir s"
  "b_note_restore (tiers_with_files c) kind m seconds (FileTier dir s) = FileTier dir s"
  "b_private_copy (tiers_with_files c) key d (FileTier dir s) = None"
  "b_write_copy (tiers_with_files c) i key v m (FileTier dir s) = None"
  "b_peek_entry (tiers_with_files c) i want key (FileTier dir s) = Inr None"
  "b_promote (tiers_with_files c) i key v m d (FileTier dir s) = None"
  by (simp_all add: tiers_with_files_def)

lemma on_otherE: "on_other f x = (t', r) \<Longrightarrow> (\<And>x'. f x = (x', r) \<Longrightarrow> t' = OtherTier x' \<Longrightarrow> P) \<Longrightarrow> P"
  by (auto simp: on_other_def split: prod.splits)

lemma on_fileE: "on_file dir f s = (t', r) \<Longrightarrow> (\<And>s'. f s = (s', r) \<Longrightarrow> t' = FileTier dir s' \<Longrightarrow> P) \<Longrightarrow> P"
  by (auto simp: on_file_def split: prod.splits)

lemma ok_at: "mixed_ok c (OtherTier x) = tier_ok x" "mixed_ok c (FileTier dir s) = file_inv c s"
  "mixed_held c (OtherTier x) = tier_held x" "mixed_held c (FileTier dir s) = file_held c s" "mixed_kept (OtherTier x) = tier_kept x"
  by (simp_all add: mixed_ok_def mixed_held_def mixed_kept_def)

interpretation mixed: tier_laws "tiers_with_files c" "mixed_ok c" "mixed_held c" mixed_kept for c :: "'v file_codec"
proof (unfold_locales, goal_cases)
  case (1 t i key t' r e)
  then show ?case
    by (cases t) (auto simp only: other_methods file_methods ok_at other_step elim!: on_otherE on_fileE intro: cash.law_get file_get_step(1))
next
  case (2 t i key t' m v)
  then show ?case
    by (cases t) (auto simp only: other_methods file_methods ok_at elim!: on_otherE on_fileE intro: cash.law_value file_get_step(2))
next
  case (3 t i how key v m d t' m' q)
  then show ?case
    by (cases t) (auto simp only: other_methods file_methods ok_at other_step elim!: on_otherE on_fileE intro: cash.law_set file_set_step)
next
  case (4 t i key v m d t' m' q)
  then show ?case
    by (cases t) (auto simp: other_methods file_methods ok_at other_step intro: cash.law_promote)
next
  case (5 t i key t' f e)
  then show ?case
    by (cases t) (auto simp only: other_methods file_methods ok_at other_step prod.inject elim!: on_otherE intro: cash.law_delete file_removal_steps)
next
  case (6 t i key t')
  then show ?case
    by (cases t) (auto simp only: other_methods file_methods ok_at prod.inject file_removed(1) [OF fine_inv [OF fine_waits(4)]] cash.law_deleted elim!: on_otherE)
next
  case (7 t i t' f e)
  then show ?case
    by (cases t) (auto simp only: other_methods file_methods ok_at other_step prod.inject elim!: on_otherE intro: cash.law_clear file_removal_steps)
next
  case (8 t i t' k)
  then show ?case
    by (cases t) (auto simp only: other_methods file_methods ok_at prod.inject file_removed(2) [OF fine_inv [OF fine_waits(4)]] cash.law_cleared elim!: on_otherE)
next
  case (9 t e)
  then show ?case by (cases t) (simp_all only: other_methods file_methods ok_at other_step cash.law_release mixed_step_refl)
next
  case (10 t e d m)
  then show ?case by (cases t) (simp_all only: other_methods file_methods ok_at other_step cash.law_write_back mixed_step_refl)
next
  case (11 t e kind m secs)
  then show ?case by (cases t) (simp_all only: other_methods file_methods ok_at other_step cash.law_note mixed_step_refl)
next
  case (12 t key d u)
  then show ?case by (cases t) (auto simp only: other_methods file_methods ok_at intro: cash.law_own)
next
  case (13 t i key v m u)
  then show ?case by (cases t) (auto simp only: other_methods file_methods ok_at dest: cash.law_copy)
next
  case (14 t i want key m d u)
  then show ?case by (cases t) (auto simp only: other_methods file_methods ok_at Inr_Inl_False sum.inject intro: cash.law_peek)
next
  case (15 t i want key m d z j u nb)
  then show ?case by (cases t) (auto simp only: other_methods file_methods ok_at sum.inject intro: cash.law_payload)
qed

subsection \<open>Claims\<close>

text \<open>A tier as its constructor leaves it.\<close>

definition new_cash_tier :: "'v cash_tier \<Rightarrow> bool" where
  "new_cash_tier t = (case t of OtherTier x \<Rightarrow> new_tier x | FileTier _ s \<Rightarrow> ft_writes s = pw_init)"

lemma new_stack_ok:
  assumes "codec_ok c" and "small_buffers c" and "\<forall>t \<in> set tiers. new_cash_tier t"
  shows "mixed.td_ok c (tiered_init tiers policy override)"
proof -
  have fresh: "mixed_ok c t \<and> mixed_kept t k d = {}" if "t \<in> set tiers" for t k d
  proof (cases t)
    case (OtherTier x)
    then have "new_tier x" using that assms(3) by (auto simp: new_cash_tier_def)
    then have "cash.td_ok (tiered_init [x] default_policy None)" by (simp add: new_tiers_ok)
    then show ?thesis using OtherTier by (simp add: cash.td_ok_def cash.td_kept_def tiered_init_def ok_at)
  next
    case (FileTier dir s)
    then have "ft_writes s = pw_init" using that assms(3) by (auto simp: new_cash_tier_def)
    then show ?thesis using FileTier assms(1,2) by (simp add: ok_at mixed_kept_def file_inv_def codec_good_def queue_inv_init)
  qed
  then show ?thesis by (simp add: mixed.td_ok_def mixed.td_kept_def tiered_init_def)
qed



subsection \<open>Runs of a small stack\<close>

definition small_cash_call :: cash_call where
  "small_cash_call = \<lparr>cl_other = sample_tier_call, cl_env = small_env, cl_pickled = True, cl_token = (\<lambda>_. 0)\<rparr>"

definition small_stack_env :: "cash_call tiered_env" where
  "small_stack_env = \<lparr>tn_now = 10, tn_monotonic = 0, tn_in = \<lambda>_ _ _. small_cash_call, tn_value = \<lambda>_. sample_facts,
     tn_restore = \<lambda>_. \<lparr>rf_seconds = 0, rf_imported = False, rf_again = 0, rf_again_imported = False\<rparr>\<rparr>"

lemma small_in: "tn_in small_stack_env st k i = small_cash_call" "cl_env small_cash_call = small_env" "cl_pickled small_cash_call" "cl_other small_cash_call = sample_tier_call"
  by (simp_all add: small_stack_env_def small_cash_call_def)

lemma small_meanwhile: "file_meanwhile c small_env s = s"
  by (simp add: file_meanwhile_def small_env_def)

lemma small_stamped_some:
  "m_created_at (stamped_meta small_env ''a'' (Some no_metadata) s) = Some 10" "m_ttl (stamped_meta small_env ''a'' (Some no_metadata) (ensure_initialized small_env small_tier)) = VNone"
  "\<not> m_metadata_only (stamped_meta small_env ''a'' (Some no_metadata) s)" "m_version_slot (stamped_meta small_env ''a'' (Some no_metadata) s) = None"
  using small_stamped by (simp_all add: stamped_meta_def init_metadata_def)

text \<open>The file tier alone: what was stored is read.\<close>

lemma files_stored_read:
  "\<exists>s m. file_tier_get small_codec small_cash_call ''a'' (fst (file_tier_set small_codec small_cash_call plain ''a'' True no_metadata small_tier)) = (s, Inr (Some (m, True)))
     \<and> m_ttl m = VNone \<and> ft_default_ttl s = None"
proof -
  have w: "ft_writes (ensure_initialized small_env small_tier) = ft_writes small_tier" by (rule ensure_initialized_keeps(2))
  obtain s m where "file_get small_codec small_env ''a'' (fst (file_set small_codec small_env ''a'' True (Some no_metadata) True False False None small_tier)) = (s, Some (m, True))"
    "m_ttl m = VNone" "ft_default_ttl s = None"
    using store_then_read [where c = small_codec and key = "''a''" and n = small_env and n' = small_env and metadata = "Some no_metadata" and v = True,
      OF small_ready _ _ _ small_codec_ok small_codec_facts(3) small_codec_facts(2) refl small_stamped_some small_side(4-7), unfolded w, OF small_side(1-3), unfolded opened_set] by blast
  moreover have "fst (file_tier_set small_codec small_cash_call plain ''a'' True no_metadata small_tier) =
      fst (file_set small_codec small_env ''a'' True (Some no_metadata) True False False None small_tier)"
    by (simp add: file_tier_set_def small_in small_meanwhile plain_def Let_def split: prod.split option.split)
  ultimately have "file_tier_get small_codec small_cash_call ''a'' (fst (file_tier_set small_codec small_cash_call plain ''a'' True no_metadata small_tier)) =
      (s, Inr (Some (entry_metadata.truncate m, True)))"
    by (simp add: file_tier_get_def small_in small_meanwhile)
  moreover have "m_ttl (entry_metadata.truncate m) = VNone" using \<open>m_ttl m = VNone\<close> by (simp add: entry_metadata.defs)
  ultimately show ?thesis using \<open>ft_default_ttl s = None\<close> by blast
qed

definition file_stack :: "bool cash_tier tiered" where
  "file_stack = tiered_init [FileTier ''d'' small_tier] default_policy None"

lemma stack_stored:
  "td_tiers (fst (tiered_store_op (tiers_with_files small_codec) (small_stack_env, None) ''a'' True file_stack)) =
     [FileTier ''d'' (fst (file_tier_set small_codec small_cash_call plain ''a'' True no_metadata small_tier))]"
proof -
  let ?b = "tiers_with_files small_codec"
  obtain s1 m1 q1 where set: "file_tier_set small_codec small_cash_call plain ''a'' True no_metadata small_tier = (s1, m1, q1)" by (metis surj_pair)
  have ttl: "b_default_ttl ?b (FileTier ''d'' small_tier) = None" by (simp add: tiers_with_files_def small_tier_def file_init_def)
  have no_ttl: "no_metadata\<lparr>m_ttl := VNone\<rparr> = no_metadata" "m_ttl no_metadata = VNone" by (simp_all add: no_metadata_def)
  have wrote: "b_set ?b small_cash_call plain ''a'' True no_metadata d (FileTier ''d'' small_tier) = (FileTier ''d'' s1, m1, q1)" for d
    by (simp add: file_methods on_file_def set)
  let ?x = "\<lparr>st_td = file_stack\<lparr>td_next_dict := Suc 0\<rparr>, st_metadata = no_metadata, st_stored = [], st_errors = [], st_writes_a_file = False\<rparr>"
  have "td_tiers (st_td (write_first_tier ?b small_stack_env ''a'' True 0 ?x)) = [FileTier ''d'' s1]"
    by (cases q1) (simp_all add: write_first_tier_def file_stack_def tiered_init_def small_in wrote put_tier_def Let_def)
  then show ?thesis
    by (simp add: tiered_store_op_def file_stack_def tiered_set_def tiered_init_def tiered_default_ttl_def ttl no_ttl release_first_def write_back_def put_tier_def
        file_methods set Let_def)
qed

lemma stack_stored_read:
  "snd (tiered_read_op (tiers_with_files small_codec) (small_stack_env, None) ''a''
    (fst (tiered_store_op (tiers_with_files small_codec) (small_stack_env, None) ''a'' True file_stack))) = Some True"
proof -
  let ?b = "tiers_with_files small_codec"
  let ?td = "fst (tiered_store_op ?b (small_stack_env, None) ''a'' True file_stack)"
  obtain s1 m1 q1 where set: "file_tier_set small_codec small_cash_call plain ''a'' True no_metadata small_tier = (s1, m1, q1)" by (metis surj_pair)
  obtain s2 m2 where get: "file_tier_get small_codec small_cash_call ''a'' s1 = (s2, Inr (Some (m2, True)))" "m_ttl m2 = VNone" "ft_default_ttl s2 = None"
    using files_stored_read set by auto
  have tiers: "td_tiers ?td = [FileTier ''d'' s1]" using stack_stored set by simp
  have same: "td_tiers (drop_ram_if_cleared ?b small_stack_env ?td) = [FileTier ''d'' s1]"
    by (simp add: drop_ram_if_cleared_def disk_tier_def tiers split_def Let_def split: option.split)
  have "\<not> entry_expired m2 ttl t VNone" if "ttl = None" for ttl t
    using get(2) that by (simp add: entry_expired_def meta_defs)
  moreover have "b_default_ttl ?b (FileTier ''d'' s2) = None" using get(3) by (simp add: tiers_with_files_def)
  ultimately show ?thesis
    by (simp add: tiered_read_op_def tiered_get_def tiers same small_in file_methods on_file_def get(1) put_tier_def tiered_default_ttl_def Let_def split_def)
qed

lemma new_file_stack: "\<forall>t \<in> set [FileTier ''d'' small_tier]. new_cash_tier t"
  by (simp add: new_cash_tier_def small_tier_def file_init_def)



end
