(* ===== verification/Spec2Isabelle.thy ===== *)
theory Spec2Isabelle
  imports Persistence_Policy Version_Index Chunk_Put Eviction_Pass Pending_Writes Memory_Contract Sqlite_Contract S3_Properties Tiered_Files
begin

text \<open>
  A verification of the storage of \<open>cash\<close>, a cache for Python functions and notebook cells: the code
  under \<open>src/cash/backends/\<close> that decides whether a computed value is kept, where, in which bytes, for
  how long, and what goes when a tier is full.

  \<^bold>\<open>The program.\<close> A store goes to \<open>TieredBackend\<close>, which hands the value to a RAM tier at once and to the
  tiers behind it (files, SQLite, S3) when \<open>persistence_policy\<close> finds the bytes worth it. A disk tier puts the
  write on the queue of \<open>_writes.py\<close>, whose one worker runs it later; a read waits for the key's write.
  The file tier keeps one file per entry (\<open>entry_format\<close>), its big buffers once each in a chunk store
  (\<open>chunk_store\<close>), and evicts by value per byte (\<open>file_eviction\<close>) from a ranking it shares with other
  processes through append-only logs (\<open>advisory_log\<close>, \<open>rank_index\<close>, \<open>eviction_log\<close>, \<open>versions\<close>).

  \<^bold>\<open>The theories\<close>, each opening with what it holds:
  \<^item> \<open>Prelude\<close>: Python scalars and floats with infinities and NaN, dictionaries as association lists, results as
    sums, the collections the proofs share. \<open>Entry_Meta\<close>: the metadata of an entry, the ttl rule, the value term
    of the rankings (\<open>_base.py\<close>). \<open>Cost_Model\<close>, \<open>Value_Policy\<close>, \<open>Persistence_Policy\<close>: what rebuilding and storing
    cost and the decision to persist. \<open>Adaptive_Caps\<close>: caps sized to the machine.
  \<^item> \<open>Byte_Codec\<close>, \<open>Chunk_Read\<close>, \<open>Entry_Format\<close>, \<open>Split_Layout\<close>, \<open>Entry_Update\<close>: the bytes of an entry file,
    packing, reading, checksums, and the two ways a file changes after it is written. \<open>Compression\<close>: when
    a payload is stored compressed. \<open>Entry_Write\<close>: the system calls by which entry files come into being.
  \<^item> \<open>Chunk_Store\<close>, \<open>Chunk_Ledger\<close>, \<open>Chunk_Round_Trip\<close>, \<open>Chunk_Put\<close>: \<open>ChunkStore\<close>, who holds which chunk file, and that
    what is put is read back.
  \<^item> \<open>Cache_Dir\<close>: the folder's own files and its format stamp. \<open>Advisory_Log\<close>, \<open>Version_Index\<close>, \<open>Eviction_Log\<close>: the
    shared logs. \<open>Touched_Entries\<close>, \<open>File_Eviction\<close>, \<open>Eviction_Pass\<close>: \<open>FileEvictor\<close>.
  \<^item> \<open>Pending_Writes\<close>, \<open>Write_Worker\<close>: the queue of background writes, as a state machine of threads, and as a
    backend meets it.
  \<^item> \<open>Cache_Tier\<close>: the contract of a tier, as locales. \<open>Memory_Tier\<close>, \<open>Memory_Laws\<close>, \<open>Memory_Contract\<close>,
    \<open>Memory_Caps\<close>: \<open>InMemoryBackend\<close>. \<open>Sqlite_Backend\<close>, \<open>Sqlite_Laws\<close>, \<open>Sqlite_Contract\<close>: \<open>SQLiteBackend\<close>.
  \<^item> \<open>File_Backend\<close>: \<open>FileBackend\<close>, every operation over its folder, evictor, chunk store, version index and write queue.
    \<open>File_Values\<close>, \<open>File_Folder\<close>, \<open>File_Contract\<close>, \<open>File_Tier\<close>: which values the files of a folder can be read as, and that no
    operation adds any but the stored one. \<open>File_Properties\<close>, \<open>File_Round_Trip\<close>: its contract, and that what is stored is read back.
  \<^item> \<open>Remote_Writes\<close>: what a backend over a server shares. \<open>S3_Backend\<close>, \<open>S3_Contract\<close>, \<open>S3_Properties\<close>: \<open>S3Backend\<close>.
  \<^item> \<open>Clear_Watch\<close>, \<open>Store_Notices\<close>, \<open>Tiered_Backend\<close>, \<open>Tiered_Laws\<close>, \<open>Tiered_Instance\<close>, \<open>Tiered_Properties\<close>:
    \<open>TieredBackend\<close> over any backends, and over RAM and SQLite. \<open>Tiered_Files\<close>: over RAM, files and SQLite, the stack cash
    builds by default.

  \<^bold>\<open>How state and operations correspond.\<close> A class is a record of its attributes together with the files it
  works on; a method is a function of the same name (a prefix where names clash) that returns the new state
  and the method's result, an exception being a value of a sum or option. What a method asks of the outside
  (clocks, free space, what the operating system does with each access, pickle, hashes, how far the
  worker has come) is an argument, mostly a field of an environment record. A dictionary is an association list
  where its order matters, a map where it does not. Floats are exact reals, with infinities and NaN where
  the code can meet them; rounding is not modelled.

  \<^bold>\<open>Interfaces.\<close> \<open>cache_tier\<close> and \<open>replacing_tier\<close> are what a tier promises its client (a value is handed out only
  for the key it was stored under, not after a delete or clear). \<open>cache_tier\<close> is interpreted on the SQLite, the file and
  the S3 tier, \<open>replacing_tier\<close> on the RAM tier; \<open>tier_laws\<close>, what the tiered backend relies on, is interpreted on RAM and SQLite
  tiers and on those with files, and gives \<open>cache_tier\<close> for the tiered backend by \<open>sublocale\<close>. The refinement theorems are the
  consequences of these interpretations. \<open>queue_worker\<close> is what waiting on the write queue gives a backend (\<open>remote_tier\<close> for one over a
  server), \<open>pass_invariant\<close> what an eviction pass keeps, \<open>advisory_log\<close> what the three logs share.

  \<^bold>\<open>What is shown.\<close> Entry files: packing and reading back, for plain and split payloads; any single damaged byte and
  any truncated split payload is refused; a reader never sees a half-written entry whatever the writers do, and
  a write can always be finished. Chunks: what is put is read back, a file in use is never removed, a pack is
  rewritten without losing an entry. Eviction: it reaches its target, takes the least valuable first, spares
  entries being written, keeps its running total exact. The write queue: writes land in order, no write
  lands after its key was drained, the copies it holds are bounded, it empties. Tiers (RAM, files, SQLite, S3, and stacks of
  the first three): what is served was stored under that key since its last delete; a store to a new key of the file tier is read
  back; a deleted key stays a miss. Policy: what is persisted pays for itself, caps stay within bounds.
  The findings the proofs turned up are listed with the manifest.

  \<^bold>\<open>Termination and bounds.\<close> Every definition is total: \<open>evict_loop\<close> ends because each turn takes a candidate or
  rebuilds the ranking once; waiting takes at most as many rounds of the worker as writes are queued, which
  \<open>settle_enough\<close> shows to be enough; \<open>write_all\<close> is partial, and \<open>write_all_ends\<close> shows that it returns. Integers of
  the file format keep their field width, and a length that does not fit is \<open>struct.error\<close>.

  \<^bold>\<open>Hypotheses and differences to the code.\<close> Pickle, dill, the codecs and hash functions are arguments, with what is
  assumed of them in \<open>codec_ok\<close> and \<open>faithful_codec\<close>; so is the S3 service (\<open>s3_laws\<close>). One process with one thread uses a backend, beside
  its worker; the step relations of \<open>Pending_Writes\<close> and \<open>Entry_Write\<close> have many. The contract of the file tier
  follows values without buffers big enough for the chunk store (\<open>small_buffers\<close>), whose round trip is
  \<open>Chunk_Put\<close>'s; its share of a pack is rounded down where a fresh write is ranked. In \<open>Tiered_Files\<close> a delete and a clear meet
  no file that cannot be removed, because \<open>FileBackend\<close> says nothing of one.

  \<^bold>\<open>Not modelled.\<close> The Redis backend (pipelines and scans of a server). The hooks of the file backend around \<open>fork\<close> and
  directory listings, and the thread of its shared flusher. The decorator, the static analysis, the notebook engine and
  dependency tracking (\<open>src/cash/decorator\<close>, \<open>analysis\<close>, \<open>notebook\<close>, \<open>tracking\<close>) work on Python objects, syntax trees,
  bytecode and interpreter hooks and would need a semantics of Python. Configuration, command line, dashboards and message
  texts are input and output.
\<close>

end
